(* ===== verification/Prelude.thy ===== *)
theory Prelude
  imports Main "HOL-Library.Finite_Map"
begin

text \<open>
  Shared vocabulary of the development: the base types of the model, Go slices as lists with the
  operations of the \<open>slices\<close> package the registry uses, the error values of
  \<open>types/errors.go\<close>, and generic lemmas on lists and finite maps.

  A digest (third-party package \<open>oci-digest\<close>) is identified with its \<open>String()\<close> form, which the
  registry itself uses as the printed and the stored form of a digest; the zero digest prints as
  the empty string (\<open>manifest.go\<close> tests \<open>desc.Digest.String() == ""\<close>).  A hash algorithm is
  identified with its name.  What the package computes (parsing, hashing, the writer that hashes
  what it writes) is a parameter of the definitions that use it, see \<open>Lib\<close>.
\<close>

section \<open>Base types\<close>

type_synonym bytes = string
type_synonym digest = string
type_synonym algorithm = string

text \<open>
  \<open>time.Time\<close> is the number of nanoseconds since Go's zero time (January 1 of year 1), so the
  zero value is 0; \<open>time.Duration\<close> is a number of nanoseconds.
\<close>

type_synonym time = int
type_synonym duration = int
type_synonym annots = "(string, string) fmap"

named_theorems wf_intros \<open>preservation of the component invariants\<close>
named_theorems frame_simps \<open>fields an operation leaves alone\<close>

definition dig_is_zero :: "digest \<Rightarrow> bool" where
  "dig_is_zero d \<longleftrightarrow> d = []"

section \<open>Errors\<close>

text \<open>The sentinel an error wraps (\<open>errors.Is\<close>), or \<open>ErrOther\<close> when it wraps none of them.\<close>

datatype err =
    ErrBlobExists
  | ErrNotFound
  | ErrParsingFailed
  | ErrReadOnly
  | ErrRepoNotAllowed
  | ErrOther string

type_synonym 'a res = "err + 'a"

section \<open>Slices\<close>

text \<open>\<open>slices.IndexFunc\<close>: the first index that satisfies the predicate, if there is one.\<close>

fun index_func :: "('a \<Rightarrow> bool) \<Rightarrow> 'a list \<Rightarrow> nat option" where
  "index_func p [] = None"
| "index_func p (x # xs) = (if p x then Some 0 else map_option Suc (index_func p xs))"

text \<open>\<open>slices.Delete(xs, i, i+1)\<close> for an index in range.\<close>

definition delete_at :: "nat \<Rightarrow> 'a list \<Rightarrow> 'a list" where
  "delete_at i xs = take i xs @ drop (Suc i) xs"

text \<open>\<open>slices.DeleteFunc\<close>.\<close>

definition delete_func :: "('a \<Rightarrow> bool) \<Rightarrow> 'a list \<Rightarrow> 'a list" where
  "delete_func p xs = filter (\<lambda>x. \<not> p x) xs"

lemma index_func_None: "index_func p xs = None \<longleftrightarrow> (\<forall>x\<in>set xs. \<not> p x)"
  by (induction xs) auto

lemma index_func_SomeD:
  "index_func p xs = Some i \<Longrightarrow> i < length xs \<and> p (xs ! i) \<and> (\<forall>j<i. \<not> p (xs ! j))"
proof (induction xs arbitrary: i)
  case (Cons x xs)
  then show ?case
    by (cases i) (auto split: if_splits simp: nth_Cons' less_Suc_eq_0_disj)
qed simp

lemma index_func_split:
  assumes "index_func p xs = Some i"
  obtains ys y zs where "xs = ys @ y # zs" "i = length ys" "p y" "\<forall>x\<in>set ys. \<not> p x"
proof
  have i: "i < length xs" "p (xs ! i)" "\<forall>j<i. \<not> p (xs ! j)"
    using index_func_SomeD [OF assms] by auto
  show "xs = take i xs @ xs ! i # drop (Suc i) xs" "p (xs ! i)"
    using i by (simp_all add: id_take_nth_drop)
  show "i = length (take i xs)" using i by simp
  show "\<forall>x\<in>set (take i xs). \<not> p x"
    using i by (auto simp: in_set_conv_nth)
qed

lemma index_func_Some_ex: "(\<exists>i. index_func p xs = Some i) \<longleftrightarrow> (\<exists>x\<in>set xs. p x)"
  using index_func_None [of p xs] by (cases "index_func p xs") simp_all

lemma index_func_not_None: "index_func p xs \<noteq> None \<longleftrightarrow> (\<exists>x\<in>set xs. p x)"
  by (simp add: index_func_None)

lemma index_func_nth_find:
  "map_option (\<lambda>i. xs ! i) (index_func p xs) = find p xs"
  by (induction xs) (auto simp: option.map_comp comp_def)

lemma delete_at_length_append [simp]: "delete_at (length ys) (ys @ y # zs) = ys @ zs"
  by (simp add: delete_at_def)

lemma delete_at_append_Cons:
  assumes "i < length xs"
  obtains ys zs where "xs = ys @ xs ! i # zs" "delete_at i xs = ys @ zs" "length ys = i"
  using assms id_take_nth_drop [OF assms]
  by (metis delete_at_def length_take min.absorb4)

lemma set_delete_at_subset: "set (delete_at i xs) \<subseteq> set xs"
  by (auto simp: delete_at_def dest: in_set_takeD in_set_dropD)

lemma length_delete_at [simp]: "i < length xs \<Longrightarrow> length (delete_at i xs) = length xs - 1"
  by (auto simp: delete_at_def)

lemma update_append_Cons:
  assumes "i < length xs"
  obtains ys zs where "xs = ys @ xs ! i # zs" "xs[i := x] = ys @ x # zs" "length ys = i"
  using assms id_take_nth_drop [OF assms] upd_conv_take_nth_drop [OF assms, of x]
  by (metis length_take min.absorb4)

lemma set_delete_func [simp]: "set (delete_func p xs) = {x \<in> set xs. \<not> p x}"
  by (auto simp: delete_func_def)

lemma filter_disjoint_delete_func:
  "(\<And>x. q x \<Longrightarrow> \<not> p x) \<Longrightarrow> filter q (delete_func p xs) = filter q xs"
  by (induction xs) (auto simp: delete_func_def)

lemma option_eqI: "(\<And>x. a = Some x \<longleftrightarrow> b = Some x) \<Longrightarrow> a = b"
  by (cases a; cases b) auto

section \<open>Pairwise relations on lists\<close>

lemma sorted_wrt_mid:
  "sorted_wrt R (ys @ x # zs) \<longleftrightarrow>
     sorted_wrt R (ys @ zs) \<and> (\<forall>y\<in>set ys. R y x) \<and> (\<forall>z\<in>set zs. R x z)"
  by (auto simp: sorted_wrt_append)

lemma sorted_wrt_delete_at: "sorted_wrt R xs \<Longrightarrow> sorted_wrt R (delete_at i xs)"
proof (cases "i < length xs")
  case True
  assume "sorted_wrt R xs"
  then show ?thesis
    using delete_at_append_Cons [OF True] by (metis sorted_wrt_mid)
qed (simp add: delete_at_def)

lemma sorted_wrt_delete_func: "sorted_wrt R xs \<Longrightarrow> sorted_wrt R (delete_func p xs)"
  by (simp add: delete_func_def sorted_wrt_filter)

section \<open>Lookups in lists\<close>

lemma find_filter: "find p xs = (case filter p xs of [] \<Rightarrow> None | x # _ \<Rightarrow> Some x)"
  by (induction xs) auto

lemma find_SomeD: "find p xs = Some x \<Longrightarrow> x \<in> set xs \<and> p x"
  by (auto simp: find_Some_iff)

lemma find_cong_filter: "filter p xs = filter p ys \<Longrightarrow> find p xs = find p ys"
  by (simp add: find_filter)

text \<open>An element of a list is replaced by one with less weight.\<close>

lemma sum_list_less: "i < length xs \<Longrightarrow> f y < f (xs ! i) \<Longrightarrow> sum_list (List.map f (xs[i := y])) < (sum_list (List.map f xs) :: nat)"
proof (induction xs arbitrary: i)
  case (Cons x xs)
  then show ?case by (cases i) auto
qed simp

end
