(* ===== verification/Go_Strings.thy ===== *)
theory Go_Strings
  imports Prelude
begin

text \<open>
  The parts of Go's \<open>strings\<close>, \<open>strconv\<close>, \<open>fmt\<close> and \<open>path\<close> packages the registry uses, on strings
  of bytes.  Case mapping and white space are those of ASCII: \<open>strings.ToLower\<close> and
  \<open>strings.TrimSpace\<close> agree with them on ASCII input, which is what media types and header
  values are made of.
\<close>

section \<open>Splitting and joining\<close>

text \<open>\<open>strings.Split(s, c)\<close> and \<open>strings.Join(xs, c)\<close> for a separator of one byte.\<close>

fun split_char :: "char \<Rightarrow> string \<Rightarrow> string list" where
  "split_char c [] = [[]]"
| "split_char c (x # xs) =
     (if x = c then [] # split_char c xs
      else case split_char c xs of [] \<Rightarrow> [[x]] | y # ys \<Rightarrow> (x # y) # ys)"

fun join_char :: "char \<Rightarrow> string list \<Rightarrow> string" where
  "join_char c [] = []"
| "join_char c [x] = x"
| "join_char c (x # xs) = x @ c # join_char c xs"

lemma split_char_not_Nil [simp]: "split_char c s \<noteq> []"
  by (cases s) (auto split: list.splits)

lemma join_split_char [simp]: "join_char c (split_char c s) = s"
proof (induction s)
  case (Cons x xs)
  obtain y ys where y: "split_char c xs = y # ys"
    by (cases "split_char c xs") auto
  with Cons.IH show ?case by (cases ys) auto
qed simp

lemma split_char_free: "c \<notin> set s \<Longrightarrow> split_char c s = [s]"
  by (induction s) auto

lemma split_char_append:
  "c \<notin> set x \<Longrightarrow> split_char c (x @ c # s) = x # split_char c s"
  by (induction x) auto

lemma split_join_char [simp]:
  "xs \<noteq> [] \<Longrightarrow> (\<And>x. x \<in> set xs \<Longrightarrow> c \<notin> set x) \<Longrightarrow> split_char c (join_char c xs) = xs"
proof (induction c xs rule: join_char.induct)
  case (3 c x y ys)
  have "split_char c (join_char c (x # y # ys)) = x # split_char c (join_char c (y # ys))"
    using "3.prems" by (simp add: split_char_append)
  also have "\<dots> = x # y # ys" using 3 by simp
  finally show ?case .
qed (auto simp: split_char_free)

lemma split_char_parts_free: "x \<in> set (split_char c s) \<Longrightarrow> c \<notin> set x"
proof (induction s arbitrary: x)
  case (Cons a s)
  then show ?case by (cases "split_char c s") (auto split: if_splits)
qed simp

text \<open>The part before the first separator, the first result of \<open>strings.Cut\<close>.\<close>

definition cut_before :: "char \<Rightarrow> string \<Rightarrow> string" where
  "cut_before c s = takeWhile (\<lambda>x. x \<noteq> c) s"

section \<open>Case, white space, prefixes\<close>

definition lower_char :: "char \<Rightarrow> char" where
  "lower_char c =
     (let n = of_char c :: nat in if 65 \<le> n \<and> n \<le> 90 then char_of (n + 32) else c)"

definition to_lower :: "string \<Rightarrow> string" where
  "to_lower s = map lower_char s"

definition is_space :: "char \<Rightarrow> bool" where
  "is_space c = (let n = of_char c :: nat in n = 32 \<or> (9 \<le> n \<and> n \<le> 13))"

definition trim_by :: "(char \<Rightarrow> bool) \<Rightarrow> string \<Rightarrow> string" where
  "trim_by p s = rev (dropWhile p (rev (dropWhile p s)))"

definition trim_space :: "string \<Rightarrow> string" where
  "trim_space s = trim_by is_space s"

definition has_prefix :: "string \<Rightarrow> string \<Rightarrow> bool" where
  "has_prefix s p \<longleftrightarrow> take (length p) s = p"

definition has_suffix :: "string \<Rightarrow> string \<Rightarrow> bool" where
  "has_suffix s p \<longleftrightarrow> has_prefix (rev s) (rev p)"

lemma has_prefix_iff: "has_prefix s p \<longleftrightarrow> (\<exists>r. s = p @ r)"
  unfolding has_prefix_def by (metis append_eq_conv_conj append_take_drop_id)

text \<open>\<open>strings.Compare(a, b) < 0\<close> and the order of \<open>sort.Strings\<close>: byte-wise lexicographic.\<close>

fun str_less :: "string \<Rightarrow> string \<Rightarrow> bool" where
  "str_less _ [] = False"
| "str_less [] (_ # _) = True"
| "str_less (x # xs) (y # ys) =
     ((of_char x :: nat) < of_char y \<or> (x = y \<and> str_less xs ys))"

definition str_le :: "string \<Rightarrow> string \<Rightarrow> bool" where
  "str_le a b \<longleftrightarrow> a = b \<or> str_less a b"

lemma of_char_nat_eq: "(of_char x :: nat) = of_char y \<longleftrightarrow> x = y"
  by (metis char_of_char)

lemma str_less_irrefl [simp]: "\<not> str_less a a"
  by (induction a) auto

lemma str_less_trans: "str_less a b \<Longrightarrow> str_less b c \<Longrightarrow> str_less a c"
proof (induction a b arbitrary: c rule: str_less.induct)
  case (3 x xs y ys)
  then show ?case by (cases c) (auto dest: less_trans)
qed (auto elim: str_less.elims)

lemma str_less_linear: "str_less a b \<or> a = b \<or> str_less b a"
proof (induction a b rule: str_less.induct)
  case (3 x xs y ys)
  then show ?case
    using of_char_nat_eq [of x y] by (cases "(of_char x :: nat)" "of_char y :: nat" rule: linorder_cases) auto
qed (auto, metis list.exhaust str_less.simps(2))

lemma str_le_refl [simp]: "str_le a a"
  by (simp add: str_le_def)

lemma str_le_trans: "str_le a b \<Longrightarrow> str_le b c \<Longrightarrow> str_le a c"
  by (auto simp: str_le_def dest: str_less_trans)

lemma str_le_linear: "str_le a b \<or> str_le b a"
  using str_less_linear [of a b] by (auto simp: str_le_def)

lemma str_le_antisym: "str_le a b \<Longrightarrow> str_le b a \<Longrightarrow> a = b"
  by (auto simp: str_le_def dest: str_less_trans)

text \<open>\<open>sort.Strings\<close>.\<close>

fun insert_str :: "string \<Rightarrow> string list \<Rightarrow> string list" where
  "insert_str x [] = [x]"
| "insert_str x (y # ys) = (if str_le x y then x # y # ys else y # insert_str x ys)"

definition sort_strings :: "string list \<Rightarrow> string list" where
  "sort_strings xs = foldr insert_str xs []"

lemma set_insert_str [simp]: "set (insert_str x xs) = insert x (set xs)"
  by (induction xs) auto

lemma mset_insert_str: "distinct (insert_str x xs) \<longleftrightarrow> x \<notin> set xs \<and> distinct xs"
  by (induction xs) auto

lemma sorted_insert_str: "sorted_wrt str_le xs \<Longrightarrow> sorted_wrt str_le (insert_str x xs)"
  by (induction xs) (auto dest: str_le_trans, metis str_le_linear)

lemma set_sort_strings [simp]: "set (sort_strings xs) = set xs"
  by (induction xs) (auto simp: sort_strings_def)

lemma distinct_sort_strings [simp]: "distinct (sort_strings xs) \<longleftrightarrow> distinct xs"
proof (induction xs)
  case (Cons x xs)
  then show ?case
    using set_sort_strings [of xs] by (auto simp: sort_strings_def mset_insert_str)
qed (simp add: sort_strings_def)

lemma length_insert_str [simp]: "length (insert_str x xs) = Suc (length xs)"
  by (induction xs) auto

lemma length_sort_strings [simp]: "length (sort_strings xs) = length xs"
  by (induction xs) (auto simp: sort_strings_def)

lemma sorted_sort_strings: "sorted_wrt str_le (sort_strings xs)"
  by (induction xs) (auto simp: sort_strings_def sorted_insert_str)

section \<open>Numbers\<close>

text \<open>\<open>fmt.Sprintf("%d", n)\<close>.\<close>

definition digit_char :: "nat \<Rightarrow> char" where
  "digit_char n = char_of (48 + n)"

fun show_nat :: "nat \<Rightarrow> string" where
  "show_nat n = (if n < 10 then [digit_char n] else show_nat (n div 10) @ [digit_char (n mod 10)])"

declare show_nat.simps [simp del]

definition show_int :: "int \<Rightarrow> string" where
  "show_int n = (if n < 0 then CHR ''-'' # show_nat (nat (- n)) else show_nat (nat n))"

definition is_digit :: "char \<Rightarrow> bool" where
  "is_digit c = (let n = of_char c :: nat in 48 \<le> n \<and> n \<le> 57)"

definition digit_val :: "char \<Rightarrow> nat" where
  "digit_val c = of_char c - 48"

fun digits_val :: "nat \<Rightarrow> string \<Rightarrow> nat option" where
  "digits_val acc [] = Some acc"
| "digits_val acc (c # cs) = (if is_digit c then digits_val (acc * 10 + digit_val c) cs else None)"

definition max_int64 :: int where "max_int64 = 2 ^ 63 - 1"

text \<open>
  \<open>strconv.ParseInt(s, 10, 64)\<close> as its two results: the value and whether the error is not nil.
  A syntax error gives 0; a value out of range gives the nearest bound.  \<open>strconv.Atoi\<close> is
  the same function on a 64-bit platform.
\<close>

definition parse_int64 :: "string \<Rightarrow> int \<times> bool" where
  "parse_int64 s =
     (let neg = (s \<noteq> [] \<and> hd s = CHR ''-'');
          ds = (if s \<noteq> [] \<and> (hd s = CHR ''-'' \<or> hd s = CHR ''+'') then tl s else s)
      in if ds = [] then (0, True)
         else case digits_val 0 ds of
           None \<Rightarrow> (0, True)
         | Some n \<Rightarrow>
             if neg then (if int n > max_int64 + 1 then (- max_int64 - 1, True) else (- int n, False))
             else (if int n > max_int64 then (max_int64, True) else (int n, False)))"

lemma digit_char_val: "n < 10 \<Longrightarrow> is_digit (digit_char n) \<and> digit_val (digit_char n) = n"
  by (simp add: is_digit_def digit_char_def digit_val_def Let_def of_char_of)

lemma digits_val_append:
  "digits_val acc (xs @ ys) = (case digits_val acc xs of None \<Rightarrow> None | Some a \<Rightarrow> digits_val a ys)"
  by (induction xs arbitrary: acc) auto

lemma digits_val_show_nat: "digits_val 0 (show_nat n) = Some n"
proof (induction n rule: show_nat.induct)
  case (1 n)
  show ?case
  proof (cases "n < 10")
    case True
    then show ?thesis by (simp add: show_nat.simps [of n] digit_char_val)
  next
    case False
    with 1 have "digits_val 0 (show_nat (n div 10)) = Some (n div 10)" by simp
    with False show ?thesis
      by (simp add: show_nat.simps [of n] digits_val_append digit_char_val)
  qed
qed

lemma show_nat_not_Nil [simp]: "show_nat n \<noteq> []"
  by (subst show_nat.simps) simp

lemma hd_show_nat: "is_digit (hd (show_nat n))"
proof (induction n rule: show_nat.induct)
  case (1 n)
  show ?case
  proof (cases "n < 10")
    case True
    then show ?thesis by (simp add: show_nat.simps [of n] digit_char_val)
  next
    case False
    with 1 have "is_digit (hd (show_nat (n div 10)))" by simp
    with False show ?thesis by (subst show_nat.simps) (simp add: hd_append)
  qed
qed

lemma hd_show_nat_no_sign: "hd (show_nat n) \<noteq> CHR ''-''" "hd (show_nat n) \<noteq> CHR ''+''"
  using hd_show_nat [of n] by (auto simp: is_digit_def)

text \<open>Reading back a printed number.\<close>

lemma parse_show_int:
  assumes "- max_int64 - 1 \<le> n" and "n \<le> max_int64"
  shows "parse_int64 (show_int n) = (n, False)"
  using assms hd_show_nat_no_sign
  by (auto simp: parse_int64_def show_int_def Let_def digits_val_show_nat)

section \<open>Paths\<close>

text \<open>
  \<open>path.Clean\<close> of a rooted path: empty and \<open>.\<close> elements are dropped, \<open>..\<close> removes the element
  before it and is dropped at the root.
\<close>

fun clean_segs :: "string list \<Rightarrow> string list \<Rightarrow> string list" where
  "clean_segs acc [] = rev acc"
| "clean_segs acc (s # ss) =
     (if s = [] \<or> s = ''.'' then clean_segs acc ss
      else if s = ''..'' then clean_segs (tl acc) ss
      else clean_segs (s # acc) ss)"

definition path_clean :: "string \<Rightarrow> string" where
  "path_clean p = CHR ''/'' # join_char (CHR ''/'') (clean_segs [] (split_char (CHR ''/'') p))"

definition proper_seg :: "string \<Rightarrow> bool" where
  "proper_seg s \<longleftrightarrow> s \<noteq> [] \<and> s \<noteq> ''.'' \<and> s \<noteq> ''..'' \<and> CHR ''/'' \<notin> set s"

lemma clean_segs_proper:
  assumes "\<forall>s\<in>set acc. proper_seg s" and "\<forall>s\<in>set ss. CHR ''/'' \<notin> set s"
  shows "\<forall>s\<in>set (clean_segs acc ss). proper_seg s"
  using assms
proof (induction acc ss rule: clean_segs.induct)
  case (2 acc s ss)
  have tl: "\<forall>x\<in>set (tl acc). proper_seg x"
    using "2.prems"(1) by (cases acc) simp_all
  have ss: "\<forall>x\<in>set ss. CHR ''/'' \<notin> set x" "CHR ''/'' \<notin> set s"
    using "2.prems"(2) by simp_all
  consider "s = [] \<or> s = ''.''" | "s \<noteq> [] \<and> s \<noteq> ''.''" "s = ''..''"
    | "s \<noteq> [] \<and> s \<noteq> ''.''" "s \<noteq> ''..''"
    by blast
  then show ?case
  proof cases
    case 1
    then show ?thesis using "2.IH"(1) "2.prems"(1) ss by simp
  next
    case 2
    then have "clean_segs acc (s # ss) = clean_segs (tl acc) ss" by simp
    moreover have "\<forall>x\<in>set (clean_segs (tl acc) ss). proper_seg x"
      using 2 by (intro "2.IH"(2) tl ss(1)) simp_all
    ultimately show ?thesis by simp
  next
    case 3
    then have "proper_seg s" using ss by (simp add: proper_seg_def)
    then have "\<forall>x\<in>set (s # acc). proper_seg x" using "2.prems"(1) by simp
    then have "\<forall>x\<in>set (clean_segs (s # acc) ss). proper_seg x"
      using 3 by (intro "2.IH"(3) ss(1)) simp_all
    moreover have "clean_segs acc (s # ss) = clean_segs (s # acc) ss" using 3 by simp
    ultimately show ?thesis by simp
  qed
qed simp

end
