(* ===== verification/Types.thy ===== *)
theory Types
  imports Go_Strings
begin

text \<open>
  The data types of package \<open>types\<close> (\<open>types/descriptor.go\<close>, \<open>types/platform.go\<close>,
  \<open>types/manifest.go\<close>, \<open>types/annotations.go\<close>, \<open>types/ref.go\<close>) and the record \<open>lib\<close> of the
  functions that come from outside the repository.  Go's nil and empty maps behave alike on every
  read of this code, so both are the empty finite map; the \<open>Copy\<close> methods separate the memory of
  a value from the original's (theory \<open>Copies\<close>) and are the identity on values.
\<close>

section \<open>Descriptors, indexes, manifests\<close>

record platform =
  pl_architecture :: string
  pl_os :: string
  pl_osVersion :: string
  pl_osFeatures :: "string list"
  pl_variant :: string
  pl_features :: "string list"

record descriptor =
  d_mediaType :: string
  d_digest :: digest
  d_size :: int
  d_urls :: "string list"
  d_annotations :: annots
  d_data :: bytes
  d_platform :: "platform option"
  d_artifactType :: string

definition zero_descriptor :: descriptor where
  "zero_descriptor = \<lparr>d_mediaType = [], d_digest = [], d_size = 0, d_urls = [],
     d_annotations = fmempty, d_data = [], d_platform = None, d_artifactType = []\<rparr>"

record index =
  i_schemaVersion :: int
  i_mediaType :: string
  i_artifactType :: string
  i_manifests :: "descriptor list"
  i_subject :: "descriptor option"
  i_annotations :: annots

record manifest =
  m_schemaVersion :: int
  m_mediaType :: string
  m_artifactType :: string
  m_config :: descriptor
  m_layers :: "descriptor list"
  m_subject :: "descriptor option"
  m_annotations :: annots

text \<open>\<open>referrerParse\<close>: the fields of a manifest the referrers API needs.\<close>

record referrer_parse =
  rp_mediaType :: string
  rp_artifactType :: string
  rp_config :: "descriptor option"
  rp_subject :: "descriptor option"
  rp_annotations :: annots

text \<open>\<open>mtDetect\<close> of \<open>types/mediatype.go\<close>.\<close>

record mt_detect =
  md_mediaType :: string
  md_manifests :: "descriptor list"
  md_config :: descriptor

section \<open>Code outside the repository\<close>

text \<open>
  The functions of \<open>oci-digest\<close> (parsing, \<open>FromBytes\<close>, the hashing writer as a function of its
  algorithm and of the bytes hashed since it was created), and the codecs whose field types it
  provides: \<open>encoding/json\<close> decodes and encodes digests through that package.  A decoder gives
  \<open>None\<close> for an error; the \<open>json_\<close> ones are \<open>json.Unmarshal\<close> into a zero value, the \<open>dec_\<close> ones
  \<open>json.NewDecoder(r).Decode\<close>, which reads one value and ignores what follows it.
  \<open>dec_manifests_nil\<close> tells whether the decoded index has a nil \<open>Manifests\<close> slice, and
  \<open>dec_index_into i\<close> decodes into the value \<open>i\<close>: what the target holds afterwards, and whether the
  error is nil.  \<open>json_layout\<close> gives the version field of an \<open>oci-layout\<close> file.  \<open>time.Format\<close> and
  \<open>time.Parse\<close> with the RFC 3339 layout are parameters too, and so is the order in which a
  \<open>range\<close> visits the string keys of a map, given as a permutation of a list of them.
\<close>

record lib =
  dig_parse :: "string \<Rightarrow> digest option"
  dig_algorithm :: "digest \<Rightarrow> algorithm"
  dig_from_bytes :: "algorithm \<Rightarrow> bytes \<Rightarrow> digest option"
  dig_canonical :: algorithm
  alg_lookup :: "string \<Rightarrow> algorithm option"
  wr_digest :: "algorithm \<Rightarrow> bytes \<Rightarrow> digest option"
  wr_verify :: "algorithm \<Rightarrow> bytes \<Rightarrow> digest \<Rightarrow> bool"
  json_index :: "bytes \<Rightarrow> index option"
  dec_index :: "bytes \<Rightarrow> index option"
  dec_manifests_nil :: "bytes \<Rightarrow> bool"
  dec_index_into :: "index \<Rightarrow> bytes \<Rightarrow> index \<times> bool"
  dec_manifest :: "bytes \<Rightarrow> manifest option"
  json_layout :: "bytes \<Rightarrow> string option"
  json_manifest :: "bytes \<Rightarrow> manifest option"
  json_referrer :: "bytes \<Rightarrow> referrer_parse option"
  json_mt_detect :: "bytes \<Rightarrow> mt_detect option"
  enc_index :: "index \<Rightarrow> bytes option"
  dec_state :: "string \<Rightarrow> int option"
  enc_state :: "int \<Rightarrow> string"
  time_format :: "time \<Rightarrow> string"
  time_parse :: "string \<Rightarrow> time option"
  map_order :: "string list \<Rightarrow> string list"

text \<open>
  What the code relies on.  \<open>digest_ok\<close>: a parsed digest prints as the string it came from and
  contains a colon; a computed digest parses back and is of the algorithm asked for.
  \<open>writer_ok\<close>: the hashing writer agrees with \<open>FromBytes\<close> on the bytes it hashed, and verifies
  exactly the digest it reports.  \<open>order_ok\<close>: a range over a map visits each key once.
\<close>

definition digest_ok :: "lib \<Rightarrow> bool" where
  "digest_ok L \<longleftrightarrow>
     (\<forall>s d. dig_parse L s = Some d \<longrightarrow> d = s \<and> CHR '':'' \<in> set s) \<and>
     (\<forall>a b d. dig_from_bytes L a b = Some d \<longrightarrow> dig_parse L d = Some d \<and> dig_algorithm L d = a)"

definition writer_ok :: "lib \<Rightarrow> bool" where
  "writer_ok L \<longleftrightarrow>
     (\<forall>a b. wr_digest L a b = dig_from_bytes L a b) \<and>
     (\<forall>a b d. wr_verify L a b d \<longleftrightarrow> wr_digest L a b = Some d)"

definition order_ok :: "lib \<Rightarrow> bool" where
  "order_ok L \<longleftrightarrow> (\<forall>xs. set (map_order L xs) = set xs \<and> distinct (map_order L xs) = distinct xs)"

text \<open>
  An instance that satisfies all three, for concrete runs: the digest of a content is the content
  behind the name of its algorithm.
\<close>

definition demo_lib :: lib where
  "demo_lib = \<lparr>
     dig_parse = (\<lambda>s. if CHR '':'' \<in> set s then Some s else None),
     dig_algorithm = takeWhile (\<lambda>c. c \<noteq> CHR '':''),
     dig_from_bytes = (\<lambda>a b. if CHR '':'' \<in> set a then None else Some (a @ CHR '':'' # b)),
     dig_canonical = ''sha256'',
     alg_lookup = (\<lambda>s. if s = ''sha256'' \<or> s = ''sha512'' then Some s else None),
     wr_digest = (\<lambda>a b. if CHR '':'' \<in> set a then None else Some (a @ CHR '':'' # b)),
     wr_verify = (\<lambda>a b d. CHR '':'' \<notin> set a \<and> a @ CHR '':'' # b = d),
     json_index = (\<lambda>b. None), dec_index = (\<lambda>b. None), dec_manifests_nil = (\<lambda>b. True),
     dec_index_into = (\<lambda>i b. (i, False)), dec_manifest = (\<lambda>b. None), json_layout = (\<lambda>b. None),
     json_manifest = (\<lambda>b. None), json_referrer = (\<lambda>b. None), json_mt_detect = (\<lambda>b. None),
     enc_index = (\<lambda>i. None), dec_state = (\<lambda>s. let (n, bad) = parse_int64 s in if bad then None else Some n),
     enc_state = show_int, time_format = show_int,
     time_parse = (\<lambda>s. let (n, bad) = parse_int64 s in if bad then None else Some n),
     map_order = (\<lambda>ks. ks)\<rparr>"

lemma demo_lib_ok: "digest_ok demo_lib" "writer_ok demo_lib" "order_ok demo_lib"
  by (auto simp: digest_ok_def writer_ok_def order_ok_def demo_lib_def takeWhile_append split: if_splits)

section \<open>Annotations\<close>

definition annot_created :: string where
  "annot_created = ''org.opencontainers.image.created''"

definition annot_ref_name :: string where
  "annot_ref_name = ''org.opencontainers.image.ref.name''"

definition annot_referrer_subject :: string where
  "annot_referrer_subject = ''org.olareg.referrer.subject''"

definition annot_referrer_convert :: string where
  "annot_referrer_convert = ''org.olareg.referrer.convert''"

lemma annot_keys_distinct [simp]:
  "annot_created \<noteq> annot_ref_name" "annot_ref_name \<noteq> annot_created"
  "annot_created \<noteq> annot_referrer_subject" "annot_referrer_subject \<noteq> annot_created"
  "annot_ref_name \<noteq> annot_referrer_subject" "annot_referrer_subject \<noteq> annot_ref_name"
  by (simp_all add: annot_created_def annot_ref_name_def annot_referrer_subject_def)

text \<open>\<open>m[key]\<close> on a \<open>map[string]string\<close>: the zero value when the key is missing.\<close>

definition map_get :: "annots \<Rightarrow> string \<Rightarrow> string" where
  "map_get m k = (case fmlookup m k of None \<Rightarrow> [] | Some v \<Rightarrow> v)"

lemma map_get_upd [simp]: "map_get (fmupd k v m) k' = (if k' = k then v else map_get m k')"
  by (simp add: map_get_def)

lemma map_get_drop [simp]: "map_get (fmdrop k m) k' = (if k' = k then [] else map_get m k')"
  by (simp add: map_get_def)

lemma map_get_empty [simp]: "map_get fmempty k = []"
  by (simp add: map_get_def)

definition annotationVal :: "descriptor \<Rightarrow> string \<Rightarrow> string" where
  "annotationVal d key = map_get (d_annotations d) key"

abbreviation tag_of :: "descriptor \<Rightarrow> string" where
  "tag_of d \<equiv> annotationVal d annot_ref_name"

abbreviation subject_of :: "descriptor \<Rightarrow> string" where
  "subject_of d \<equiv> annotationVal d annot_referrer_subject"

lemma annotationVal_update [simp]:
  "annotationVal (d\<lparr>d_annotations := m\<rparr>) k = map_get m k"
  by (simp add: annotationVal_def)

text \<open>\<open>annotationsEmpty\<close> of \<open>types/layout.go\<close>: no annotation but the creation time.\<close>

definition annotationsEmpty :: "descriptor \<Rightarrow> bool" where
  "annotationsEmpty d \<longleftrightarrow> (\<forall>k\<in>fmdom' (d_annotations d). k = annot_created)"

lemma annotationsEmpty_tag: "annotationsEmpty d \<Longrightarrow> tag_of d = []"
  by (auto simp: annotationsEmpty_def annotationVal_def map_get_def dest!: fmdom'I
      split: option.splits)

lemma annotationsEmpty_subject: "annotationsEmpty d \<Longrightarrow> subject_of d = []"
  by (auto simp: annotationsEmpty_def annotationVal_def map_get_def dest!: fmdom'I
      split: option.splits)

section \<open>Index and manifest functions\<close>

text \<open>\<open>Index.GetByAnnotation\<close>.\<close>

definition getByAnnotation :: "index \<Rightarrow> string \<Rightarrow> string \<Rightarrow> descriptor res" where
  "getByAnnotation i key val =
     (case index_func (\<lambda>cur. case fmlookup (d_annotations cur) key of
                          None \<Rightarrow> False | Some curVal \<Rightarrow> val = [] \<or> val = curVal) (i_manifests i) of
        Some mi \<Rightarrow> Inr (i_manifests i ! mi)
      | None \<Rightarrow> Inl ErrNotFound)"

lemma getByAnnotation_InrD:
  assumes "getByAnnotation i key val = Inr d"
  shows "d \<in> set (i_manifests i) \<and> (\<exists>v. fmlookup (d_annotations d) key = Some v \<and> (val = [] \<or> val = v))"
proof -
  obtain mi where "index_func (\<lambda>cur. case fmlookup (d_annotations cur) key of
      None \<Rightarrow> False | Some curVal \<Rightarrow> val = [] \<or> val = curVal) (i_manifests i) = Some mi"
    and "d = i_manifests i ! mi"
    using assms by (auto simp: getByAnnotation_def split: option.splits)
  then show ?thesis
    using index_func_SomeD by (fastforce split: option.splits)
qed

text \<open>
  \<open>ManifestReferrerDescriptor\<close>: the subject of a manifest and the entry that describes the
  manifest in the referrers response of that subject.
\<close>

definition manifestReferrerDescriptor :: "lib \<Rightarrow> bytes \<Rightarrow> descriptor \<Rightarrow> (descriptor \<times> descriptor) res" where
  "manifestReferrerDescriptor L raw d =
     (case json_referrer L raw of
        None \<Rightarrow> Inl (ErrOther ''json'')
      | Some r \<Rightarrow>
        (case rp_subject r of
           None \<Rightarrow> Inl ErrNotFound
         | Some subject \<Rightarrow>
           if dig_is_zero (d_digest subject) then Inl ErrNotFound
           else
             let rd1 = (if rp_mediaType r \<noteq> [] then d\<lparr>d_mediaType := rp_mediaType r\<rparr> else d)
             in case (if dig_is_zero (d_digest rd1) then dig_from_bytes L (dig_canonical L) raw
                      else Some (d_digest rd1)) of
                  None \<Rightarrow> Inl (ErrOther ''digest'')
                | Some dig \<Rightarrow>
                  let rd2 = rd1\<lparr>d_digest := dig, d_size := int (length raw)\<rparr>;
                      rd3 = (if rp_artifactType r \<noteq> [] then rd2\<lparr>d_artifactType := rp_artifactType r\<rparr>
                             else case rp_config r of
                               Some c \<Rightarrow> rd2\<lparr>d_artifactType := d_mediaType c\<rparr>
                             | None \<Rightarrow> rd2)
                  in Inr (subject, rd3\<lparr>d_annotations := rp_annotations r\<rparr>)))"

section \<open>Tags\<close>

text \<open>\<open>RefTagRE\<close>: \<^verbatim>\<open>^[a-zA-Z0-9_][a-zA-Z0-9._-]{0,127}$\<close>.\<close>

definition alnum_char :: "char \<Rightarrow> bool" where
  "alnum_char c = (let n = of_char c :: nat in
     (97 \<le> n \<and> n \<le> 122) \<or> (65 \<le> n \<and> n \<le> 90) \<or> (48 \<le> n \<and> n \<le> 57))"

definition tag_start_char :: "char \<Rightarrow> bool" where
  "tag_start_char c \<longleftrightarrow> alnum_char c \<or> c = CHR ''_''"

definition tag_char :: "char \<Rightarrow> bool" where
  "tag_char c \<longleftrightarrow> alnum_char c \<or> c = CHR ''_'' \<or> c = CHR ''.'' \<or> c = CHR ''-''"

definition refTagRE :: "string \<Rightarrow> bool" where
  "refTagRE s = (case s of [] \<Rightarrow> False | c # cs \<Rightarrow> tag_start_char c \<and> list_all tag_char cs \<and> length cs \<le> 127)"

lemma refTagRE_not_Nil: "refTagRE s \<Longrightarrow> s \<noteq> []"
  by (auto simp: refTagRE_def)

lemma refTagRE_no_colon: "refTagRE s \<Longrightarrow> CHR '':'' \<notin> set s"
  by (auto simp: refTagRE_def tag_start_char_def tag_char_def alnum_char_def list_all_iff split: list.splits)

lemma digest_ok_not_tag: "digest_ok L \<Longrightarrow> dig_parse L s = Some d \<Longrightarrow> \<not> refTagRE s"
  using refTagRE_no_colon by (auto simp: digest_ok_def)

end
