(* ===== verification/Media_Type.thy ===== *)
theory Media_Type
  imports Types
begin

text \<open>Media types (\<open>types/mediatype.go\<close>): constants, normalisation, \<open>Accept\<close> matching, detection.\<close>

definition mt_docker_prefix :: string where "mt_docker_prefix = ''application/vnd.docker.''"
definition mt_docker2_manifest :: string where
  "mt_docker2_manifest = ''application/vnd.docker.distribution.manifest.v2+json''"
definition mt_docker2_manifest_list :: string where
  "mt_docker2_manifest_list = ''application/vnd.docker.distribution.manifest.list.v2+json''"
definition mt_oci1_manifest :: string where
  "mt_oci1_manifest = ''application/vnd.oci.image.manifest.v1+json''"
definition mt_oci1_manifest_list :: string where
  "mt_oci1_manifest_list = ''application/vnd.oci.image.index.v1+json''"
definition mt_docker2_foreign_layer :: string where
  "mt_docker2_foreign_layer = ''application/vnd.docker.image.rootfs.foreign.diff.tar.gzip''"
definition mt_oci1_foreign_layer :: string where
  "mt_oci1_foreign_layer = ''application/vnd.oci.image.layer.nondistributable.v1.tar''"
definition mt_oci1_foreign_layer_gzip :: string where
  "mt_oci1_foreign_layer_gzip = ''application/vnd.oci.image.layer.nondistributable.v1.tar+gzip''"
definition mt_oci1_foreign_layer_zstd :: string where
  "mt_oci1_foreign_layer_zstd = ''application/vnd.oci.image.layer.nondistributable.v1.tar+zstd''"

lemmas mt_defs = mt_docker_prefix_def mt_docker2_manifest_def mt_docker2_manifest_list_def
  mt_oci1_manifest_def mt_oci1_manifest_list_def mt_docker2_foreign_layer_def
  mt_oci1_foreign_layer_def mt_oci1_foreign_layer_gzip_def mt_oci1_foreign_layer_zstd_def

definition mediaTypeBase :: "string \<Rightarrow> string" where
  "mediaTypeBase orig = trim_space (to_lower (cut_before (CHR '';'') orig))"

definition mediaTypeMatch :: "string \<Rightarrow> string \<Rightarrow> bool" where
  "mediaTypeMatch mt accept =
     (if mt = accept then True
      else
        let mtSplit = split_char (CHR ''/'') mt; acceptSplit = split_char (CHR ''/'') accept
        in if length mtSplit \<noteq> 2 \<or> length acceptSplit \<noteq> 2 then False
           else acceptSplit ! 1 = ''*'' \<and> (acceptSplit ! 0 = ''*'' \<or> acceptSplit ! 0 = mtSplit ! 0))"

definition mediaTypeAccepts :: "string \<Rightarrow> string list \<Rightarrow> bool" where
  "mediaTypeAccepts mt accepts =
     (accepts = [] \<or>
      list_ex (\<lambda>a. list_ex (\<lambda>entry. mediaTypeMatch mt (mediaTypeBase entry)) (split_char (CHR '','') a)) accepts)"

definition mediaTypeForeign :: "string \<Rightarrow> bool" where
  "mediaTypeForeign mt \<longleftrightarrow> mt = mt_docker2_foreign_layer \<or> mt = mt_oci1_foreign_layer \<or>
     mt = mt_oci1_foreign_layer_gzip \<or> mt = mt_oci1_foreign_layer_zstd"

definition mediaTypeIndex :: "string \<Rightarrow> bool" where
  "mediaTypeIndex mt \<longleftrightarrow> mt = mt_docker2_manifest_list \<or> mt = mt_oci1_manifest_list"

definition mediaTypeImage :: "string \<Rightarrow> bool" where
  "mediaTypeImage mt \<longleftrightarrow> mt = mt_docker2_manifest \<or> mt = mt_oci1_manifest"

definition mediaTypeDetect :: "lib \<Rightarrow> bytes \<Rightarrow> string" where
  "mediaTypeDetect L raw =
     (case json_mt_detect L raw of
        None \<Rightarrow> []
      | Some m \<Rightarrow>
        if md_mediaType m \<noteq> [] then md_mediaType m
        else case md_manifests m of
          d # _ \<Rightarrow> if has_prefix (d_mediaType d) mt_docker_prefix then mt_docker2_manifest_list
                   else mt_oci1_manifest_list
        | [] \<Rightarrow> if d_mediaType (md_config m) = [] then []
                else if has_prefix (d_mediaType (md_config m)) mt_docker_prefix then mt_docker2_manifest
                else mt_oci1_manifest)"

lemma index_not_image: "mediaTypeIndex mt \<Longrightarrow> \<not> mediaTypeImage mt"
  by (auto simp: mediaTypeIndex_def mediaTypeImage_def mt_defs)

lemma mediaTypeIndex_consts [simp]:
  "mediaTypeIndex mt_oci1_manifest_list" "mediaTypeIndex mt_docker2_manifest_list"
  "\<not> mediaTypeIndex mt_oci1_manifest" "\<not> mediaTypeIndex mt_docker2_manifest"
  by (simp_all add: mediaTypeIndex_def mt_defs)

lemma mediaTypeImage_consts [simp]:
  "mediaTypeImage mt_oci1_manifest" "mediaTypeImage mt_docker2_manifest"
  "\<not> mediaTypeImage mt_oci1_manifest_list" "\<not> mediaTypeImage mt_docker2_manifest_list"
  by (simp_all add: mediaTypeImage_def mt_defs)

text \<open>Without a declared media type, detection yields one of the four supported types or fails.\<close>

lemma mediaTypeDetect_supported:
  assumes "json_mt_detect L raw = Some m" and "md_mediaType m = []"
  shows "mediaTypeDetect L raw = [] \<or> mediaTypeIndex (mediaTypeDetect L raw) \<or>
         mediaTypeImage (mediaTypeDetect L raw)"
  using assms by (auto simp: mediaTypeDetect_def split: list.splits)

end
