(* ===== verification/Layout.thy ===== *)
theory Layout
  imports Media_Type
begin

text \<open>
  The index of a repository (\<open>types/layout.go\<close>): the \<open>index.json\<close> file with its tag history and the
  descriptors of nested manifests.  The model has one definition per method; \<open>now\<close> is the value of
  \<open>reproducible.TimeNow()\<close> during the call.  The main facts: a well-formed index keeps at most one
  entry per tag and never mixes a bare entry with a tagged one for the same digest; adding a
  descriptor retargets its tag and no other, and loses no digest; removing a tag keeps the digest.
\<close>

section \<open>State\<close>

record layout_history =
  lh_time :: time
  lh_deleted :: bool
  lh_descriptor :: descriptor

record layout_index = index +
  li_history :: "(string, layout_history list) fmap"
  li_childManifests :: "descriptor list"

text \<open>A descriptor reduced to media type, digest and size.\<close>

definition strip_desc :: "descriptor \<Rightarrow> descriptor" where
  "strip_desc d = zero_descriptor\<lparr>d_mediaType := d_mediaType d, d_digest := d_digest d, d_size := d_size d\<rparr>"

definition untag :: "descriptor \<Rightarrow> descriptor" where
  "untag d = d\<lparr>d_annotations := fmdrop annot_ref_name (d_annotations d)\<rparr>"

lemma strip_desc_simps [simp]:
  "d_digest (strip_desc d) = d_digest d" "d_mediaType (strip_desc d) = d_mediaType d"
  "d_size (strip_desc d) = d_size d" "annotationVal (strip_desc d) k = []"
  by (simp_all add: strip_desc_def zero_descriptor_def annotationVal_def)

lemma untag_simps [simp]:
  "d_digest (untag d) = d_digest d" "d_mediaType (untag d) = d_mediaType d"
  "annotationVal (untag d) k = (if k = annot_ref_name then [] else annotationVal d k)"
  by (auto simp: untag_def annotationVal_def)

section \<open>Operations\<close>

text \<open>\<open>addHistory\<close>.\<close>

definition add_history :: "lib \<Rightarrow> time \<Rightarrow> descriptor \<Rightarrow> bool \<Rightarrow> layout_index \<Rightarrow> layout_index" where
  "add_history L now d del li =
     (if tag_of d = [] then li
      else
        let parsed = (if del then 0 else case time_parse L (annotationVal d annot_created) of
                        Some t \<Rightarrow> t | None \<Rightarrow> 0);
            timestamp = (if parsed = 0 then now else parsed);
            entry = \<lparr>lh_time = timestamp, lh_deleted = del, lh_descriptor = strip_desc d\<rparr>;
            old = (case fmlookup (li_history li) (tag_of d) of None \<Rightarrow> [] | Some es \<Rightarrow> es)
        in li\<lparr>li_history := fmupd (tag_of d) (old @ [entry]) (li_history li)\<rparr>)"

text \<open>One round of the \<open>LayoutWithChildren\<close> loop of \<open>AddDesc\<close>.\<close>

definition move_child :: "descriptor \<Rightarrow> layout_index \<Rightarrow> layout_index" where
  "move_child child li =
     (case index_func (\<lambda>cur. d_digest cur = d_digest child \<and> annotationsEmpty cur) (i_manifests li) of
        Some mi \<Rightarrow> li\<lparr>li_childManifests := li_childManifests li @ [child],
                      i_manifests := delete_at mi (i_manifests li)\<rparr>
      | None \<Rightarrow> li)"

text \<open>
  The loop of \<open>AddDesc\<close> that takes the tag away from other digests, and the update of one entry
  in its body; the argument of the loop is \<open>mi + 1\<close>, so 0 is its end.
\<close>

definition untag_entry :: "string \<Rightarrow> nat \<Rightarrow> descriptor list \<Rightarrow> descriptor list" where
  "untag_entry tag mi ms =
     (if index_func (\<lambda>c. d_digest c = d_digest (ms ! mi) \<and> tag_of c \<noteq> tag) ms \<noteq> None
      then delete_at mi ms
      else ms[mi := untag (ms ! mi)])"

function untag_loop :: "string \<Rightarrow> digest \<Rightarrow> nat \<Rightarrow> descriptor list \<Rightarrow> descriptor list" where
  "untag_loop tag dig 0 ms = ms"
| "untag_loop tag dig (Suc mi) ms =
     (if d_digest (ms ! mi) \<noteq> dig \<and> tag_of (ms ! mi) = tag then
        let ms' = untag_entry tag mi ms
        in untag_loop tag dig (if mi > length ms' then length ms' else mi) ms'
      else untag_loop tag dig mi ms)"
  by pat_completeness auto
termination
  by (relation "measure (\<lambda>(_, _, n, _). n)") auto

text \<open>The search for a compatible entry, and the update or append, at the end of \<open>AddDesc\<close>.\<close>

definition place_desc :: "string \<Rightarrow> descriptor \<Rightarrow> descriptor list \<Rightarrow> descriptor list" where
  "place_desc tag d ms =
     (case index_func (\<lambda>cur. d_digest cur = d_digest d \<and>
              (tag = [] \<or> annotationsEmpty cur \<or> tag_of cur = tag)) ms of
        Some mi \<Rightarrow> if tag \<noteq> [] \<and> annotationsEmpty (ms ! mi) then ms[mi := d] else ms
      | None \<Rightarrow> ms @ [d])"

definition stamp_created :: "lib \<Rightarrow> time \<Rightarrow> descriptor \<Rightarrow> descriptor" where
  "stamp_created L now d =
     (if annotationVal d annot_created = []
      then d\<lparr>d_annotations := fmupd annot_created (time_format L now) (d_annotations d)\<rparr> else d)"

text \<open>\<open>AddDesc\<close>; \<open>children\<close> are the descriptors of all \<open>LayoutWithChildren\<close> options.\<close>

definition add_desc :: "lib \<Rightarrow> time \<Rightarrow> descriptor \<Rightarrow> descriptor list \<Rightarrow> layout_index \<Rightarrow> layout_index" where
  "add_desc L now d0 children li0 =
     (let d = stamp_created L now d0;
          tag = tag_of d;
          referrer = subject_of d;
          li1 = fold move_child children li0;
          li2 = li1\<lparr>li_childManifests :=
                     delete_func (\<lambda>cur. d_digest cur = d_digest d) (li_childManifests li1)\<rparr>;
          ms = i_manifests li2
      in if referrer \<noteq> [] then
           (case index_func (\<lambda>cur. subject_of cur = referrer) ms of
              Some mi \<Rightarrow> li2\<lparr>i_manifests := ms[mi := d]\<rparr>
            | None \<Rightarrow> li2\<lparr>i_manifests := ms @ [d]\<rparr>)
         else
           let ms' = (if tag \<noteq> [] then untag_loop tag (d_digest d) (length ms) ms else ms)
           in add_history L now d False (li2\<lparr>i_manifests := place_desc tag d ms'\<rparr>))"

text \<open>\<open>AddChildren\<close>.\<close>

definition add_children :: "descriptor list \<Rightarrow> layout_index \<Rightarrow> layout_index" where
  "add_children children li = li\<lparr>li_childManifests := li_childManifests li @ children\<rparr>"

text \<open>\<open>GetDesc\<close>.\<close>

definition get_desc :: "lib \<Rightarrow> layout_index \<Rightarrow> string \<Rightarrow> descriptor res" where
  "get_desc L li arg =
     (if refTagRE arg then
        (case index_func (\<lambda>cur. tag_of cur = arg) (i_manifests li) of
           Some mi \<Rightarrow> Inr (i_manifests li ! mi)
         | None \<Rightarrow> Inl ErrNotFound)
      else
        (case dig_parse L arg of
           None \<Rightarrow> Inl (ErrOther ''digest'')
         | Some dig \<Rightarrow>
           (case index_func (\<lambda>cur. d_digest cur = dig) (i_manifests li) of
              Some mi \<Rightarrow> Inr (strip_desc (i_manifests li ! mi))
            | None \<Rightarrow>
              (case index_func (\<lambda>cur. d_digest cur = dig) (li_childManifests li) of
                 Some mi \<Rightarrow> Inr (strip_desc (li_childManifests li ! mi))
               | None \<Rightarrow> Inl ErrNotFound))))"

text \<open>\<open>RmDesc\<close>: the callbacks of \<open>slices.DeleteFunc\<close> record the deleted entries in order.\<close>

definition rm_matching :: "lib \<Rightarrow> time \<Rightarrow> (descriptor \<Rightarrow> bool) \<Rightarrow> layout_index \<Rightarrow> layout_index" where
  "rm_matching L now p li =
     (let gone = filter p (i_manifests li);
          li' = fold (\<lambda>cur. add_history L now cur True) gone li
      in li'\<lparr>i_manifests := delete_func p (i_manifests li)\<rparr>)"

definition rm_desc :: "lib \<Rightarrow> time \<Rightarrow> descriptor \<Rightarrow> layout_index \<Rightarrow> layout_index" where
  "rm_desc L now d li =
     (let tag = tag_of d in
      if tag \<noteq> [] then
        if index_func (\<lambda>cur. d_digest cur = d_digest d \<and> tag_of cur \<noteq> tag) (i_manifests li) \<noteq> None
        then rm_matching L now (\<lambda>cur. d_digest cur = d_digest d \<and> tag_of cur = tag) li
        else
          (case index_func (\<lambda>cur. d_digest cur = d_digest d \<and> tag_of cur = tag) (i_manifests li) of
             Some mi \<Rightarrow>
               let li' = add_history L now (i_manifests li ! mi) True li
               in li'\<lparr>i_manifests := (i_manifests li)[mi := untag (i_manifests li ! mi)]\<rparr>
           | None \<Rightarrow> li)
      else
        rm_matching L now (\<lambda>cur. d_digest cur = d_digest d)
          (li\<lparr>li_childManifests := delete_func (\<lambda>cur. d_digest cur = d_digest d) (li_childManifests li)\<rparr>))"

section \<open>Well-formed indexes\<close>

text \<open>
  Two entries are compatible when they do not share a tag, and when no bare entry (no annotation
  but the creation time) shares its digest with a tagged or another bare entry.  An index is
  well formed when its entries are pairwise compatible.
\<close>

definition compat :: "descriptor \<Rightarrow> descriptor \<Rightarrow> bool" where
  "compat a b \<longleftrightarrow>
     (tag_of a = tag_of b \<longrightarrow> tag_of a = []) \<and>
     (d_digest a = d_digest b \<longrightarrow>
        \<not> (annotationsEmpty a \<and> (tag_of b \<noteq> [] \<or> annotationsEmpty b)) \<and>
        \<not> (annotationsEmpty b \<and> (tag_of a \<noteq> [] \<or> annotationsEmpty a)))"

definition wf_manifests :: "descriptor list \<Rightarrow> bool" where
  "wf_manifests ms \<longleftrightarrow> sorted_wrt compat ms"

definition wf_index :: "'a index_scheme \<Rightarrow> bool" where
  "wf_index li \<longleftrightarrow> wf_manifests (i_manifests li)"

lemma compat_sym: "compat a b \<longleftrightarrow> compat b a"
  by (auto simp: compat_def)

lemma wf_mid:
  "wf_manifests (ys @ x # zs) \<longleftrightarrow>
     wf_manifests (ys @ zs) \<and> (\<forall>y\<in>set ys \<union> set zs. compat x y)"
  using compat_sym by (auto simp: wf_manifests_def sorted_wrt_mid)

lemma wf_delete_at [wf_intros]: "wf_manifests ms \<Longrightarrow> wf_manifests (delete_at i ms)"
  by (simp add: wf_manifests_def sorted_wrt_delete_at)

lemma wf_delete_func [wf_intros]: "wf_manifests ms \<Longrightarrow> wf_manifests (delete_func p ms)"
  by (simp add: wf_manifests_def sorted_wrt_delete_func)

lemma wf_unique_tag:
  assumes "wf_manifests (ys @ x # zs)" and "tag_of x \<noteq> []" and "c \<in> set ys \<union> set zs"
  shows "tag_of c \<noteq> tag_of x"
proof -
  have "compat x c" using assms by (simp add: wf_mid)
  with assms(2) show ?thesis by (auto simp: compat_def)
qed

text \<open>Replacing one entry by one that is compatible with all the others.\<close>

lemma wf_update:
  assumes "wf_manifests ms" and "i < length ms"
    and "\<And>ys zs y. ms = ys @ ms ! i # zs \<Longrightarrow> y \<in> set ys \<union> set zs \<Longrightarrow> compat x y"
  shows "wf_manifests (ms[i := x])"
  using update_append_Cons [OF assms(2), of x] assms(1,3) by (metis wf_mid)

section \<open>The history and the children leave the entries alone\<close>

lemma add_history_frame [simp, frame_simps]:
  "i_manifests (add_history L now d del li) = i_manifests li"
  "li_childManifests (add_history L now d del li) = li_childManifests li"
  "i_annotations (add_history L now d del li) = i_annotations li"
  by (simp_all add: add_history_def Let_def)

lemma fold_add_history_frame [simp, frame_simps]:
  "i_manifests (fold (\<lambda>cur. add_history L now cur del) gone li) = i_manifests li"
  "li_childManifests (fold (\<lambda>cur. add_history L now cur del) gone li) = li_childManifests li"
  "i_annotations (fold (\<lambda>cur. add_history L now cur del) gone li) = i_annotations li"
  by (induction gone arbitrary: li) simp_all

lemma rm_matching_frame [simp, frame_simps]:
  "i_manifests (rm_matching L now p li) = delete_func p (i_manifests li)"
  "li_childManifests (rm_matching L now p li) = li_childManifests li"
  "i_annotations (rm_matching L now p li) = i_annotations li"
  by (simp_all add: rm_matching_def Let_def)

lemma move_child_annotations [simp]: "i_annotations (move_child c li) = i_annotations li"
  by (simp add: move_child_def split: option.splits)

lemma fold_move_child_annotations [simp]:
  "i_annotations (fold move_child cs li) = i_annotations li"
  by (induction cs arbitrary: li) simp_all

section \<open>Moving children\<close>

text \<open>Digests the index knows, as an entry or as a nested manifest.\<close>

definition known_digests :: "layout_index \<Rightarrow> digest set" where
  "known_digests li = d_digest ` set (i_manifests li) \<union> d_digest ` set (li_childManifests li)"

lemma move_child_wf [wf_intros]:
  "wf_manifests (i_manifests li) \<Longrightarrow> wf_manifests (i_manifests (move_child c li))"
  by (auto simp: move_child_def intro: wf_delete_at split: option.splits)

lemma fold_move_child_wf [wf_intros]:
  "wf_manifests (i_manifests li) \<Longrightarrow> wf_manifests (i_manifests (fold move_child cs li))"
  by (induction cs arbitrary: li) (auto intro: move_child_wf)

lemma move_child_known: "known_digests (move_child c li) = known_digests li"
proof (cases "index_func (\<lambda>cur. d_digest cur = d_digest c \<and> annotationsEmpty cur) (i_manifests li)")
  case (Some mi)
  then obtain ys y zs where "i_manifests li = ys @ y # zs" "mi = length ys" "d_digest y = d_digest c"
    by (auto elim: index_func_split)
  with Some show ?thesis by (auto simp: move_child_def known_digests_def)
qed (simp add: move_child_def known_digests_def)

lemma fold_move_child_known: "known_digests (fold move_child cs li) = known_digests li"
  by (induction cs arbitrary: li) (simp_all add: move_child_known)

lemma move_child_tags:
  assumes "t \<noteq> []"
  shows "filter (\<lambda>c. tag_of c = t) (i_manifests (move_child c li)) =
         filter (\<lambda>c. tag_of c = t) (i_manifests li)"
proof (cases "index_func (\<lambda>cur. d_digest cur = d_digest c \<and> annotationsEmpty cur) (i_manifests li)")
  case (Some mi)
  then obtain ys y zs where "i_manifests li = ys @ y # zs" "mi = length ys" "annotationsEmpty y"
    by (auto elim: index_func_split)
  with Some assms show ?thesis by (simp add: move_child_def annotationsEmpty_tag)
qed (simp add: move_child_def)

lemma fold_move_child_tags:
  "t \<noteq> [] \<Longrightarrow> filter (\<lambda>c. tag_of c = t) (i_manifests (fold move_child cs li)) =
     filter (\<lambda>c. tag_of c = t) (i_manifests li)"
  by (induction cs arbitrary: li) (simp_all add: move_child_tags)

section \<open>Taking a tag away from other digests\<close>

text \<open>
  Whatever the two updates of the loop body keep, the loop keeps: the entry at the current index
  carries the tag for another digest, and it is deleted when its digest has an entry without the
  tag, and stripped of the tag otherwise.
\<close>

lemma length_untag_entry: "mi < length ms \<Longrightarrow> mi \<le> length (untag_entry tag mi ms)"
  by (auto simp: untag_entry_def)

lemma untag_entry_cases:
  assumes "mi < length ms"
  obtains (deleted) c where "c \<in> set ms" "d_digest c = d_digest (ms ! mi)" "tag_of c \<noteq> tag"
      "untag_entry tag mi ms = delete_at mi ms"
    | (stripped) "\<forall>c\<in>set ms. d_digest c = d_digest (ms ! mi) \<longrightarrow> tag_of c = tag"
      "untag_entry tag mi ms = ms[mi := untag (ms ! mi)]"
proof (cases "\<exists>c\<in>set ms. d_digest c = d_digest (ms ! mi) \<and> tag_of c \<noteq> tag")
  case True
  then have "untag_entry tag mi ms = delete_at mi ms"
    unfolding untag_entry_def index_func_not_None by simp
  with True show ?thesis using deleted by blast
next
  case False
  then have "index_func (\<lambda>c. d_digest c = d_digest (ms ! mi) \<and> tag_of c \<noteq> tag) ms = None"
    by (simp add: index_func_None)
  then show ?thesis using stripped False by (simp add: untag_entry_def)
qed

lemma untag_entry_nth:
  assumes "mi < length ms" and "tag \<noteq> []" and "\<forall>i<length ms. Suc mi \<le> i \<longrightarrow> Q (ms ! i)"
    and "Q (untag (ms ! mi))"
  shows "\<forall>i<length (untag_entry tag mi ms). mi \<le> i \<longrightarrow> Q (untag_entry tag mi ms ! i)"
  using assms(1)
proof (cases rule: untag_entry_cases [where tag = tag])
  case (deleted c)
  then show ?thesis using assms by (auto simp: delete_at_def nth_append min_def)
next
  case stripped
  then show ?thesis using assms by (auto simp: nth_list_update)
qed

lemma untag_loop_step:
  assumes "mi < length ms"
  shows "untag_loop tag dig (Suc mi) ms =
    untag_loop tag dig mi
      (if d_digest (ms ! mi) \<noteq> dig \<and> tag_of (ms ! mi) = tag then untag_entry tag mi ms else ms)"
  using length_untag_entry [OF assms, of tag] by (simp add: Let_def not_less)

declare untag_loop.simps(2) [simp del]

lemma untag_loop_inv:
  assumes "n \<le> length ms" and "P ms"
    and del: "\<And>ms mi c. P ms \<Longrightarrow> mi < length ms \<Longrightarrow> tag_of (ms ! mi) = tag \<Longrightarrow> c \<in> set ms \<Longrightarrow>
           d_digest c = d_digest (ms ! mi) \<Longrightarrow> tag_of c \<noteq> tag \<Longrightarrow> P (delete_at mi ms)"
    and upd: "\<And>ms mi. P ms \<Longrightarrow> mi < length ms \<Longrightarrow> tag_of (ms ! mi) = tag \<Longrightarrow>
           (\<forall>c\<in>set ms. d_digest c = d_digest (ms ! mi) \<longrightarrow> tag_of c = tag) \<Longrightarrow>
           P (ms[mi := untag (ms ! mi)])"
  shows "P (untag_loop tag dig n ms)"
  using assms(1,2)
proof (induction n arbitrary: ms)
  case (Suc mi)
  then have mi: "mi < length ms" by simp
  have "P (untag_entry tag mi ms)" if "tag_of (ms ! mi) = tag"
    using mi
  proof (cases rule: untag_entry_cases [where tag = tag])
    case (deleted c)
    then show ?thesis using del [OF Suc.prems(2) mi that] by simp
  next
    case stripped
    then show ?thesis using upd [OF Suc.prems(2) mi that] by simp
  qed
  with Suc mi length_untag_entry show ?case by (simp add: untag_loop_step)
qed simp

text \<open>After the loop the tag is on no other digest.\<close>

lemma untag_loop_clears:
  assumes "tag \<noteq> []" and "n \<le> length ms"
    and "\<forall>i<length ms. n \<le> i \<longrightarrow> \<not> (d_digest (ms ! i) \<noteq> dig \<and> tag_of (ms ! i) = tag)"
  shows "\<forall>c\<in>set (untag_loop tag dig n ms). tag_of c = tag \<longrightarrow> d_digest c = dig"
  using assms(2,3)
proof (induction n arbitrary: ms)
  case 0
  then show ?case by (auto simp: in_set_conv_nth)
next
  case (Suc mi)
  then have mi: "mi < length ms" by simp
  define ms' where "ms' = (if d_digest (ms ! mi) \<noteq> dig \<and> tag_of (ms ! mi) = tag
                           then untag_entry tag mi ms else ms)"
  have len: "mi \<le> length ms'" using mi length_untag_entry by (simp add: ms'_def)
  have "\<forall>i<length ms'. mi \<le> i \<longrightarrow> \<not> (d_digest (ms' ! i) \<noteq> dig \<and> tag_of (ms' ! i) = tag)"
  proof (cases "d_digest (ms ! mi) \<noteq> dig \<and> tag_of (ms ! mi) = tag")
    case True
    then show ?thesis
      using untag_entry_nth [OF mi assms(1) Suc.prems(2)] assms(1) by (simp add: ms'_def)
  next
    case False
    then have eq: "ms' = ms" unfolding ms'_def by (simp only: if_False)
    show ?thesis
    proof (intro allI impI)
      fix i assume "i < length ms'" "mi \<le> i"
      then show "\<not> (d_digest (ms' ! i) \<noteq> dig \<and> tag_of (ms' ! i) = tag)"
        using False Suc.prems(2) eq by (cases "i = mi") auto
    qed
  qed
  then have "\<forall>c\<in>set (untag_loop tag dig mi ms'). tag_of c = tag \<longrightarrow> d_digest c = dig"
    by (rule Suc.IH [OF len])
  then show ?case unfolding untag_loop_step [OF mi] ms'_def .
qed

lemma untag_loop_digests:
  assumes "n \<le> length ms"
  shows "d_digest ` set (untag_loop tag dig n ms) = d_digest ` set ms"
proof (rule untag_loop_inv [where P = "\<lambda>xs. d_digest ` set xs = d_digest ` set ms"])
  fix xs mi c
  assume P: "d_digest ` set xs = d_digest ` set ms" and mi: "mi < length xs" "tag_of (xs ! mi) = tag"
    and c: "c \<in> set xs" "d_digest c = d_digest (xs ! mi)" "tag_of c \<noteq> tag"
  obtain ys zs where xs: "xs = ys @ xs ! mi # zs" "delete_at mi xs = ys @ zs"
    using delete_at_append_Cons [OF mi(1)] by metis
  have "c \<in> set ys \<union> set zs"
    using c mi(2) xs(1) by (metis Un_iff set_ConsD set_append)
  then have "d_digest (xs ! mi) \<in> d_digest ` (set ys \<union> set zs)"
    using c(2) by (metis imageI)
  moreover have "set xs = insert (xs ! mi) (set ys \<union> set zs)"
    by (subst xs(1)) auto
  ultimately show "d_digest ` set (delete_at mi xs) = d_digest ` set ms"
    unfolding xs(2) P [symmetric] by auto
next
  fix xs :: "descriptor list" and mi
  assume P: "d_digest ` set xs = d_digest ` set ms" and mi: "mi < length xs"
  obtain ys zs where xs: "xs = ys @ xs ! mi # zs"
      "xs[mi := untag (xs ! mi)] = ys @ untag (xs ! mi) # zs"
    using update_append_Cons [OF mi] by metis
  have "set xs = insert (xs ! mi) (set ys \<union> set zs)"
    by (subst xs(1)) auto
  then show "d_digest ` set (xs[mi := untag (xs ! mi)]) = d_digest ` set ms"
    unfolding xs(2) P [symmetric] by auto
qed (use assms in auto)

lemma filter_tag_mid:
  assumes "tag_of x \<noteq> t"
  shows "filter (\<lambda>c. tag_of c = t) (ys @ x # zs) = filter (\<lambda>c. tag_of c = t) (ys @ zs)"
  using assms by simp

lemma untag_loop_tags:
  assumes "n \<le> length ms" and "t \<noteq> []" and "t \<noteq> tag"
  shows "filter (\<lambda>c. tag_of c = t) (untag_loop tag dig n ms) = filter (\<lambda>c. tag_of c = t) ms"
proof (rule untag_loop_inv [where P = "\<lambda>xs. filter (\<lambda>c. tag_of c = t) xs = filter (\<lambda>c. tag_of c = t) ms"])
  fix xs mi c
  assume P: "filter (\<lambda>c. tag_of c = t) xs = filter (\<lambda>c. tag_of c = t) ms"
    and mi: "mi < length xs" "tag_of (xs ! mi) = tag"
  obtain ys zs where "xs = ys @ xs ! mi # zs" "delete_at mi xs = ys @ zs"
    using delete_at_append_Cons [OF mi(1)] by metis
  then show "filter (\<lambda>c. tag_of c = t) (delete_at mi xs) = filter (\<lambda>c. tag_of c = t) ms"
    using P mi(2) assms(3) filter_tag_mid by metis
next
  fix xs mi
  assume P: "filter (\<lambda>c. tag_of c = t) xs = filter (\<lambda>c. tag_of c = t) ms"
    and mi: "mi < length xs" "tag_of (xs ! mi) = tag"
  obtain ys zs where "xs = ys @ xs ! mi # zs" "xs[mi := untag (xs ! mi)] = ys @ untag (xs ! mi) # zs"
    using update_append_Cons [OF mi(1)] by metis
  moreover have "tag_of (untag (xs ! mi)) \<noteq> t" using assms(2) by simp
  ultimately show "filter (\<lambda>c. tag_of c = t) (xs[mi := untag (xs ! mi)]) = filter (\<lambda>c. tag_of c = t) ms"
    using P mi(2) assms(3) filter_tag_mid by metis
qed (use assms in auto)

lemma untag_loop_wf [wf_intros]:
  assumes "n \<le> length ms" and "tag \<noteq> []" and "wf_manifests ms"
  shows "wf_manifests (untag_loop tag dig n ms)"
proof (rule untag_loop_inv [where P = wf_manifests])
  fix xs mi
  assume wf: "wf_manifests xs" and mi: "mi < length xs" "tag_of (xs ! mi) = tag"
    and alone: "\<forall>c\<in>set xs. d_digest c = d_digest (xs ! mi) \<longrightarrow> tag_of c = tag"
  show "wf_manifests (xs[mi := untag (xs ! mi)])"
  proof (rule wf_update [OF wf mi(1)])
    fix ys zs y
    assume xs: "xs = ys @ xs ! mi # zs" and y: "y \<in> set ys \<union> set zs"
    have "y \<in> set xs" using y by (subst xs) auto
    moreover have "tag_of y \<noteq> tag" using wf_unique_tag xs wf y mi(2) assms(2) by metis
    ultimately have "d_digest y \<noteq> d_digest (xs ! mi)" using alone by blast
    then show "compat (untag (xs ! mi)) y" by (auto simp: compat_def)
  qed
qed (use assms wf_delete_at in auto)

section \<open>Placing the new entry\<close>

lemma place_desc_cases:
  obtains (replaced) ys y zs where "ms = ys @ y # zs" "place_desc tag d ms = ys @ d # zs"
      "d_digest y = d_digest d" "annotationsEmpty y" "tag \<noteq> []"
    | (kept) c where "c \<in> set ms" "place_desc tag d ms = ms" "d_digest c = d_digest d"
      "tag \<noteq> [] \<Longrightarrow> tag_of c = tag"
    | (appended) "place_desc tag d ms = ms @ [d]"
      "\<forall>c\<in>set ms. d_digest c = d_digest d \<longrightarrow> tag \<noteq> [] \<and> \<not> annotationsEmpty c \<and> tag_of c \<noteq> tag"
proof -
  let ?p = "\<lambda>cur. d_digest cur = d_digest d \<and> (tag = [] \<or> annotationsEmpty cur \<or> tag_of cur = tag)"
  show ?thesis
  proof (cases "index_func ?p ms")
    case None
    then have "place_desc tag d ms = ms @ [d]" by (simp add: place_desc_def)
    with None show ?thesis using appended by (auto simp: index_func_None)
  next
    case (Some mi)
    then obtain ys y zs where s: "ms = ys @ y # zs" "mi = length ys" "?p y"
      by (elim index_func_split)
    show ?thesis
    proof (cases "tag \<noteq> [] \<and> annotationsEmpty y")
      case True
      with Some s replaced show ?thesis by (simp add: place_desc_def list_update_append)
    next
      case False
      with Some s kept [of y] show ?thesis by (auto simp: place_desc_def)
    qed
  qed
qed

lemma place_desc_digests: "d_digest ` set (place_desc tag d ms) = insert (d_digest d) (d_digest ` set ms)"
proof (cases rule: place_desc_cases [where ms = ms and tag = tag and d = d])
  case (replaced ys y zs)
  then show ?thesis by (auto simp: image_Un)
next
  case (kept c)
  then show ?thesis by (metis image_eqI insert_absorb)
qed auto

lemma place_desc_tags:
  assumes "t \<noteq> []" and "tag_of d \<noteq> t"
  shows "filter (\<lambda>c. tag_of c = t) (place_desc tag d ms) = filter (\<lambda>c. tag_of c = t) ms"
proof (cases rule: place_desc_cases [where ms = ms and tag = tag and d = d])
  case (replaced ys y zs)
  then show ?thesis using assms by (simp add: annotationsEmpty_tag)
qed (use assms in simp_all)

lemma place_desc_tagged:
  assumes "tag_of d = tag" and "tag \<noteq> []"
  shows "\<exists>c\<in>set (place_desc tag d ms). tag_of c = tag \<and> d_digest c = d_digest d"
proof (cases rule: place_desc_cases [where ms = ms and tag = tag and d = d])
  case (kept c)
  then show ?thesis using assms by auto
qed (use assms in simp_all)

lemma set_place_desc: "set (place_desc tag d ms) \<subseteq> insert d (set ms)"
  by (cases rule: place_desc_cases [where ms = ms and tag = tag and d = d]) auto

lemma place_desc_wf [wf_intros]:
  assumes wf: "wf_manifests ms" and tag: "tag_of d = tag"
    and moved: "\<forall>c\<in>set ms. tag \<noteq> [] \<longrightarrow> tag_of c = tag \<longrightarrow> d_digest c = d_digest d"
  shows "wf_manifests (place_desc tag d ms)"
proof (cases rule: place_desc_cases [where ms = ms and tag = tag and d = d])
  case (replaced ys y zs)
  have "compat d c" if c: "c \<in> set ys \<union> set zs" for c
  proof -
    have yc: "compat y c" using wf replaced(1) c by (simp add: wf_mid)
    have cms: "c \<in> set ms" using replaced(1) c by auto
    have d: "tag_of d \<noteq> []" "\<not> annotationsEmpty d" using tag replaced(5) annotationsEmpty_tag by auto
    have "tag_of c \<noteq> tag"
    proof
      assume t: "tag_of c = tag"
      then have "d_digest c = d_digest y" using moved cms replaced(3,5) by simp
      with yc replaced(4,5) t show False by (simp add: compat_def)
    qed
    moreover have "d_digest c = d_digest d \<Longrightarrow> \<not> annotationsEmpty c"
      using yc replaced(3,4) by (auto simp: compat_def)
    ultimately show ?thesis using d tag by (auto simp: compat_def)
  qed
  with wf replaced show ?thesis by (simp add: wf_mid)
next
  case (kept c)
  with wf show ?thesis by simp
next
  case appended
  have "compat d c" if "c \<in> set ms" for c
  proof -
    have "tag \<noteq> [] \<longrightarrow> tag_of c \<noteq> tag" using appended(2) moved that by blast
    moreover have "d_digest c = d_digest d \<longrightarrow> \<not> annotationsEmpty c \<and> \<not> annotationsEmpty d"
      using appended(2) that tag annotationsEmpty_tag by blast
    ultimately show ?thesis unfolding compat_def tag by metis
  qed
  then have "wf_manifests (ms @ d # [])" using wf by (subst wf_mid) simp
  with appended(1) show ?thesis by simp
qed

section \<open>AddDesc\<close>

lemma stamp_created_simps [simp]:
  "d_digest (stamp_created L now d) = d_digest d"
  "d_mediaType (stamp_created L now d) = d_mediaType d"
  "d_size (stamp_created L now d) = d_size d"
  "tag_of (stamp_created L now d) = tag_of d"
  "subject_of (stamp_created L now d) = subject_of d"
  by (auto simp: stamp_created_def annotationVal_def)

text \<open>The entries after \<open>AddDesc\<close> of a descriptor that is no referrers response.\<close>

lemma add_desc_manifests:
  assumes "subject_of d = []"
  shows "i_manifests (add_desc L now d cs li) =
    place_desc (tag_of d) (stamp_created L now d)
      (let ms = i_manifests (fold move_child cs li)
       in if tag_of d \<noteq> [] then untag_loop (tag_of d) (d_digest d) (length ms) ms else ms)"
  using assms by (simp add: add_desc_def Let_def)

lemma add_desc_children:
  "li_childManifests (add_desc L now d cs li) =
     delete_func (\<lambda>cur. d_digest cur = d_digest d) (li_childManifests (fold move_child cs li))"
  by (simp add: add_desc_def Let_def split: option.splits)

lemma add_desc_annotations [simp]: "i_annotations (add_desc L now d cs li) = i_annotations li"
  by (simp add: add_desc_def Let_def split: option.splits)

lemma add_desc_untagged_clear:
  assumes "tag_of d \<noteq> []"
  shows "\<forall>c\<in>set (untag_loop (tag_of d) (d_digest d) (length ms) ms).
           tag_of c = tag_of d \<longrightarrow> d_digest c = d_digest d"
  using untag_loop_clears [OF assms, of "length ms" ms] by simp

lemma add_desc_wf_plain:
  assumes "wf_index li" and "subject_of d = []"
  shows "wf_index (add_desc L now d cs li)"
  using assms add_desc_untagged_clear [of d]
  by (auto simp: wf_index_def add_desc_manifests Let_def intro!: place_desc_wf untag_loop_wf fold_move_child_wf)

lemma add_desc_wf_referrer:
  assumes wf: "wf_index li" and ref: "subject_of d \<noteq> []" and untagged: "tag_of d = []"
  shows "wf_index (add_desc L now d cs li)"
proof -
  let ?d = "stamp_created L now d" and ?ms = "i_manifests (fold move_child cs li)"
  have compat: "compat ?d c" for c
    using ref untagged annotationsEmpty_subject [of ?d] by (auto simp: compat_def)
  have wfms: "wf_manifests ?ms" using wf fold_move_child_wf by (simp add: wf_index_def)
  show ?thesis
  proof (cases "index_func (\<lambda>cur. subject_of cur = subject_of d) ?ms")
    case None
    have "wf_manifests (?ms @ ?d # [])" using wfms compat by (subst wf_mid) simp
    with None ref show ?thesis by (simp add: wf_index_def add_desc_def Let_def)
  next
    case (Some mi)
    then have "mi < length ?ms" using index_func_SomeD by blast
    then have "wf_manifests (?ms[mi := ?d])" using wf_update [OF wfms] compat by blast
    with Some ref show ?thesis by (simp add: wf_index_def add_desc_def Let_def)
  qed
qed

lemma add_desc_digests:
  assumes "subject_of d = []"
  shows "known_digests (add_desc L now d cs li) = insert (d_digest d) (known_digests li)"
proof -
  let ?li = "fold move_child cs li"
  have "d_digest ` set (i_manifests (add_desc L now d cs li)) =
        insert (d_digest d) (d_digest ` set (i_manifests ?li))"
    using assms by (simp add: add_desc_manifests place_desc_digests untag_loop_digests Let_def)
  moreover have "d_digest ` set (li_childManifests (add_desc L now d cs li)) =
        d_digest ` set (li_childManifests ?li) - {d_digest d}"
    by (auto simp: add_desc_children)
  ultimately show ?thesis
    using fold_move_child_known [of cs li] by (auto simp: known_digests_def)
qed

lemma add_desc_tags:
  assumes "subject_of d = []" and "t \<noteq> []" and "tag_of d \<noteq> t"
  shows "filter (\<lambda>c. tag_of c = t) (i_manifests (add_desc L now d cs li)) =
         filter (\<lambda>c. tag_of c = t) (i_manifests li)"
  using assms by (simp add: add_desc_manifests place_desc_tags untag_loop_tags fold_move_child_tags Let_def)

lemma add_desc_target:
  assumes "subject_of d = []" and "tag_of d \<noteq> []"
  shows "\<exists>c\<in>set (i_manifests (add_desc L now d cs li)). tag_of c = tag_of d"
    and "\<forall>c\<in>set (i_manifests (add_desc L now d cs li)). tag_of c = tag_of d \<longrightarrow> d_digest c = d_digest d"
proof -
  let ?ms = "i_manifests (fold move_child cs li)"
  let ?us = "untag_loop (tag_of d) (d_digest d) (length ?ms) ?ms"
  have eq: "i_manifests (add_desc L now d cs li) = place_desc (tag_of d) (stamp_created L now d) ?us"
    using assms by (simp add: add_desc_manifests Let_def)
  show "\<exists>c\<in>set (i_manifests (add_desc L now d cs li)). tag_of c = tag_of d"
    using place_desc_tagged [of "stamp_created L now d" "tag_of d" ?us] assms eq by auto
  show "\<forall>c\<in>set (i_manifests (add_desc L now d cs li)). tag_of c = tag_of d \<longrightarrow> d_digest c = d_digest d"
    unfolding eq using set_place_desc [of "tag_of d" "stamp_created L now d" ?us]
      add_desc_untagged_clear [OF assms(2), of ?ms] by auto
qed

section \<open>GetDesc\<close>

lemma get_desc_tag:
  assumes "refTagRE t"
  shows "get_desc L li t = (case find (\<lambda>c. tag_of c = t) (i_manifests li) of None \<Rightarrow> Inl ErrNotFound | Some d \<Rightarrow> Inr d)"
  using assms
  by (simp add: get_desc_def index_func_nth_find [symmetric] split: option.splits)

lemma get_desc_digest_known:
  assumes "\<not> refTagRE s" and "dig_parse L s = Some dig"
  shows "(\<exists>d. get_desc L li s = Inr d \<and> d_digest d = dig) \<longleftrightarrow> dig \<in> known_digests li"
proof (cases "index_func (\<lambda>cur. d_digest cur = dig) (i_manifests li)")
  case (Some mi)
  then have "mi < length (i_manifests li)" "d_digest (i_manifests li ! mi) = dig"
    using index_func_SomeD [OF Some] by auto
  with Some assms show ?thesis by (force simp: get_desc_def known_digests_def)
next
  case None
  then have none: "dig \<notin> d_digest ` set (i_manifests li)" by (auto simp: index_func_None)
  show ?thesis
  proof (cases "index_func (\<lambda>cur. d_digest cur = dig) (li_childManifests li)")
    case (Some mi)
    then have "mi < length (li_childManifests li)" "d_digest (li_childManifests li ! mi) = dig"
      using index_func_SomeD [OF Some] by auto
    with Some None assms show ?thesis by (force simp: get_desc_def known_digests_def)
  next
    case none': None
    then have "dig \<notin> d_digest ` set (li_childManifests li)" by (auto simp: index_func_None)
    with none none' None assms show ?thesis by (auto simp: get_desc_def known_digests_def)
  qed
qed

lemma get_desc_digest:
  assumes "get_desc L li s = Inr d" and "\<not> refTagRE s" and "dig_parse L s = Some dig"
  shows "d_digest d = dig"
  using assms by (auto simp: get_desc_def split: option.splits dest!: index_func_SomeD)

lemma get_desc_mem:
  assumes "get_desc L li s = Inr d"
  shows "d \<in> set (i_manifests li) \<or>
    (\<exists>c\<in>set (i_manifests li) \<union> set (li_childManifests li). d = strip_desc c)"
  using assms by (fastforce simp: get_desc_def split: if_splits option.splits dest!: index_func_SomeD)

section \<open>RmDesc\<close>

lemma rm_desc_untagged:
  assumes "tag_of d = []"
  shows "i_manifests (rm_desc L now d li) = delete_func (\<lambda>c. d_digest c = d_digest d) (i_manifests li)"
    and "li_childManifests (rm_desc L now d li) =
         delete_func (\<lambda>c. d_digest c = d_digest d) (li_childManifests li)"
  using assms by (simp_all add: rm_desc_def)

lemma rm_desc_annotations [simp]: "i_annotations (rm_desc L now d li) = i_annotations li"
  by (simp add: rm_desc_def Let_def split: option.splits)

lemma rm_desc_tagged_children:
  "tag_of d \<noteq> [] \<Longrightarrow> li_childManifests (rm_desc L now d li) = li_childManifests li"
  by (simp add: rm_desc_def Let_def split: option.splits)

lemma rm_desc_tagged_cases:
  assumes "tag_of d \<noteq> []"
  obtains (deleted) c where "c \<in> set (i_manifests li)" "d_digest c = d_digest d" "tag_of c \<noteq> tag_of d"
      "i_manifests (rm_desc L now d li) =
         delete_func (\<lambda>c. d_digest c = d_digest d \<and> tag_of c = tag_of d) (i_manifests li)"
    | (stripped) ys y zs where "i_manifests li = ys @ y # zs" "d_digest y = d_digest d" "tag_of y = tag_of d"
      "i_manifests (rm_desc L now d li) = ys @ untag y # zs"
      "\<forall>c\<in>set (i_manifests li). d_digest c = d_digest d \<longrightarrow> tag_of c = tag_of d"
    | (absent) "\<forall>c\<in>set (i_manifests li). d_digest c \<noteq> d_digest d" "rm_desc L now d li = li"
proof (cases "\<exists>c\<in>set (i_manifests li). d_digest c = d_digest d \<and> tag_of c \<noteq> tag_of d")
  case True
  then have "index_func (\<lambda>cur. d_digest cur = d_digest d \<and> tag_of cur \<noteq> tag_of d) (i_manifests li) \<noteq> None"
    unfolding index_func_not_None .
  with True deleted assms show ?thesis by (auto simp: rm_desc_def Let_def)
next
  case False
  then have none: "index_func (\<lambda>cur. d_digest cur = d_digest d \<and> tag_of cur \<noteq> tag_of d) (i_manifests li) = None"
    by (simp add: index_func_None)
  show ?thesis
  proof (cases "index_func (\<lambda>cur. d_digest cur = d_digest d \<and> tag_of cur = tag_of d) (i_manifests li)")
    case None
    have "rm_desc L now d li = li" using none None assms by (simp add: rm_desc_def Let_def)
    with None False absent show ?thesis by (auto simp: index_func_None)
  next
    case (Some mi)
    then obtain ys y zs where "i_manifests li = ys @ y # zs" "mi = length ys"
        "d_digest y = d_digest d" "tag_of y = tag_of d"
      by (auto elim!: index_func_split)
    with Some none assms stripped False show ?thesis
      by (auto simp: rm_desc_def Let_def list_update_append)
  qed
qed

lemma rm_desc_wf [wf_intros]:
  assumes wf: "wf_index li"
  shows "wf_index (rm_desc L now d li)"
proof (cases "tag_of d = []")
  case True
  with wf show ?thesis by (simp add: wf_index_def rm_desc_untagged wf_delete_func)
next
  case False
  then show ?thesis
  proof (cases rule: rm_desc_tagged_cases [where li = li and L = L and now = now])
    case (deleted c)
    with wf show ?thesis by (simp add: wf_index_def wf_delete_func)
  next
    case (stripped ys y zs)
    have "compat (untag y) c" if "c \<in> set ys \<union> set zs" for c
    proof -
      have "tag_of c \<noteq> tag_of y"
        using wf_unique_tag wf stripped(1,3) that False by (metis wf_index_def)
      then have "d_digest c \<noteq> d_digest d" using stripped(1,3,5) that by auto
      then show ?thesis using stripped(2) by (auto simp: compat_def)
    qed
    with wf stripped show ?thesis by (simp add: wf_index_def wf_mid)
  next
    case absent
    with wf show ?thesis by simp
  qed
qed

section \<open>The index as a tag map and a set of digests\<close>

text \<open>
  The contract of the index: a partial map from tags to digests, and the set of digests it knows.
  The four updates below refine updates of that pair.
\<close>

definition tag_map :: "layout_index \<Rightarrow> string \<Rightarrow> digest option" where
  "tag_map li t =
     (if t = [] then None else map_option d_digest (find (\<lambda>c. tag_of c = t) (i_manifests li)))"

lemma tag_map_filter:
  assumes "filter (\<lambda>c. tag_of c = t) (i_manifests li) = filter (\<lambda>c. tag_of c = t) (i_manifests li')"
  shows "tag_map li t = tag_map li' t"
  using find_cong_filter [OF assms] by (simp add: tag_map_def)

lemma tag_map_SomeI:
  assumes "t \<noteq> []" and "\<exists>c\<in>set (i_manifests li). tag_of c = t"
    and "\<forall>c\<in>set (i_manifests li). tag_of c = t \<longrightarrow> d_digest c = dig"
  shows "tag_map li t = Some dig"
proof -
  obtain c where c: "find (\<lambda>c. tag_of c = t) (i_manifests li) = Some c"
    using assms(2) find_None_iff [of "\<lambda>c. tag_of c = t" "i_manifests li"] by fastforce
  with assms(3) find_SomeD [OF c] assms(1) show ?thesis by (simp add: tag_map_def)
qed

lemma tag_map_NoneI:
  "\<forall>c\<in>set (i_manifests li). tag_of c \<noteq> t \<Longrightarrow> tag_map li t = None"
  by (auto simp: tag_map_def find_None_iff)

lemma tag_map_None_iff:
  "tag_map li t = None \<longleftrightarrow> t = [] \<or> (\<forall>c\<in>set (i_manifests li). tag_of c \<noteq> t)"
  by (auto simp: tag_map_def find_None_iff)

lemma tag_map_SomeD:
  "tag_map li t = Some dig \<Longrightarrow> t \<noteq> [] \<and> (\<exists>c\<in>set (i_manifests li). tag_of c = t \<and> d_digest c = dig)"
  by (auto simp: tag_map_def split: if_splits dest!: find_SomeD)

lemma tag_map_wf_iff:
  assumes "wf_index li" and "t \<noteq> []"
  shows "tag_map li t = Some dig \<longleftrightarrow> (\<exists>c\<in>set (i_manifests li). tag_of c = t \<and> d_digest c = dig)"
proof
  assume "\<exists>c\<in>set (i_manifests li). tag_of c = t \<and> d_digest c = dig"
  then obtain c where c: "c \<in> set (i_manifests li)" "tag_of c = t" "d_digest c = dig" by blast
  obtain ys zs where s: "i_manifests li = ys @ c # zs" using split_list [OF c(1)] by blast
  have "\<forall>x\<in>set ys \<union> set zs. tag_of x \<noteq> t"
    using wf_unique_tag [of ys c zs] assms c(2) s by (metis wf_index_def)
  with c s show "tag_map li t = Some dig" by (intro tag_map_SomeI) (use assms in auto)
qed (blast dest: tag_map_SomeD)

lemma get_desc_tag_map:
  assumes "refTagRE t"
  shows "(\<exists>d. get_desc L li t = Inr d \<and> d_digest d = dig) \<longleftrightarrow> tag_map li t = Some dig"
  using assms refTagRE_not_Nil [OF assms]
  by (auto simp: get_desc_tag tag_map_def split: option.splits)

lemma add_desc_tag_map:
  assumes "subject_of d = []" and "tag_of d \<noteq> []"
  shows "tag_map (add_desc L now d children li) = (tag_map li)(tag_of d \<mapsto> d_digest d)"
proof
  fix t
  show "tag_map (add_desc L now d children li) t = ((tag_map li)(tag_of d \<mapsto> d_digest d)) t"
  proof (cases "t = tag_of d")
    case True
    then show ?thesis using tag_map_SomeI [OF assms(2) add_desc_target [OF assms]] by simp
  next
    case False
    then show ?thesis
      using tag_map_filter [OF add_desc_tags [OF assms(1), of t L now children li]]
      by (cases "t = []") (auto simp: tag_map_def)
  qed
qed

text \<open>
  C25: Adding a tagged descriptor to any index points its tag to its digest, leaves every other tag
  as it was, and adds the digest to the digests the index knows without losing one.
\<close>

theorem add_desc_tagged_refines:
  assumes "subject_of d = []" and "tag_of d \<noteq> []"
  shows "tag_map (add_desc L now d children li) = (tag_map li)(tag_of d \<mapsto> d_digest d) \<and>
         known_digests (add_desc L now d children li) = insert (d_digest d) (known_digests li)"
  using add_desc_tag_map [OF assms] add_desc_digests [OF assms(1)] by simp

theorem add_desc_tagged_refines_witness:
  "let d = zero_descriptor\<lparr>d_digest := ''sha256:a'', d_annotations := fmupd annot_ref_name ''v1'' fmempty\<rparr>;
       li = \<lparr>i_schemaVersion = 2, i_mediaType = [], i_artifactType = [],
             i_manifests = [d\<lparr>d_digest := ''sha256:b''\<rparr>], i_subject = None, i_annotations = fmempty,
             li_history = fmempty, li_childManifests = []\<rparr>
   in tag_map li ''v1'' = Some ''sha256:b'' \<and> tag_map (add_desc demo_lib 1 d [] li) ''v1'' = Some ''sha256:a'' \<and>
      known_digests (add_desc demo_lib 1 d [] li) = {''sha256:a'', ''sha256:b''}"
proof -
  define d where "d = zero_descriptor\<lparr>d_digest := ''sha256:a'', d_annotations := fmupd annot_ref_name ''v1'' fmempty\<rparr>"
  have d: "subject_of d = []" "tag_of d = ''v1''" "d_digest d = ''sha256:a''"
    by (simp_all add: d_def zero_descriptor_def annotationVal_def)
  show ?thesis
    unfolding d_def [symmetric] Let_def
    using add_desc_tagged_refines [of d demo_lib 1 "[]"] d
    by (simp add: tag_map_def known_digests_def annotationVal_def)
qed

text \<open>
  Adding an untagged descriptor changes no tag and adds its digest to the known ones without
  losing one.
\<close>

theorem add_desc_untagged_refines:
  assumes "subject_of d = []" and "tag_of d = []"
  shows "tag_map (add_desc L now d children li) = tag_map li \<and>
         known_digests (add_desc L now d children li) = insert (d_digest d) (known_digests li)"
proof
  show "tag_map (add_desc L now d children li) = tag_map li"
  proof
    fix t
    show "tag_map (add_desc L now d children li) t = tag_map li t"
      using tag_map_filter [OF add_desc_tags [OF assms(1), of t L now children li]] assms(2)
      by (cases "t = []") (auto simp: tag_map_def)
  qed
qed (rule add_desc_digests [OF assms(1)])

theorem add_desc_untagged_refines_witness:
  "let d = zero_descriptor\<lparr>d_digest := ''sha256:a''\<rparr>;
       li = \<lparr>i_schemaVersion = 2, i_mediaType = [], i_artifactType = [],
             i_manifests = [], i_subject = None, i_annotations = fmempty,
             li_history = fmempty, li_childManifests = [d]\<rparr>
   in known_digests (add_desc demo_lib 1 d [] li) = {''sha256:a''} \<and> tag_map (add_desc demo_lib 1 d [] li) = tag_map li"
proof -
  define d where "d = zero_descriptor\<lparr>d_digest := ''sha256:a''\<rparr>"
  have d: "subject_of d = []" "tag_of d = []" "d_digest d = ''sha256:a''"
    by (simp_all add: d_def zero_descriptor_def annotationVal_def)
  show ?thesis
    unfolding d_def [symmetric] Let_def
    using add_desc_untagged_refines [OF d(1,2), of demo_lib 1 "[]"] d
    by (simp add: known_digests_def)
qed

text \<open>
  Removing a tagged descriptor from a well-formed index, where the tag points to the
  descriptor's digest, removes that tag and no other, and keeps every digest reachable.
\<close>

theorem rm_desc_tagged_refines:
  assumes wf: "wf_index li" and t: "tag_of d \<noteq> []" and m: "tag_map li (tag_of d) = Some (d_digest d)"
  shows "tag_map (rm_desc L now d li) = (tag_map li)(tag_of d := None) \<and>
         known_digests (rm_desc L now d li) = known_digests li"
  using t
proof (cases rule: rm_desc_tagged_cases [where li = li and L = L and now = now])
  case (deleted c)
  have own: "tag_of x = tag_of d \<longrightarrow> d_digest x = d_digest d" if "x \<in> set (i_manifests li)" for x
    using tag_map_wf_iff [OF wf t] m that by (metis option.inject)
  have "tag_map (rm_desc L now d li) x = ((tag_map li)(tag_of d := None)) x" for x
  proof (cases "x = tag_of d")
    case True
    then show ?thesis using own by (auto simp: deleted(4) intro!: tag_map_NoneI)
  next
    case False
    have "filter (\<lambda>c. tag_of c = x) (i_manifests (rm_desc L now d li)) =
          filter (\<lambda>c. tag_of c = x) (i_manifests li)"
      unfolding deleted(4) by (rule filter_disjoint_delete_func) (use False in blast)
    from tag_map_filter [OF this] False show ?thesis by simp
  qed
  moreover have "d_digest ` set (i_manifests (rm_desc L now d li)) = d_digest ` set (i_manifests li)"
  proof -
    have "d_digest x \<in> d_digest ` {x \<in> set (i_manifests li). \<not> (d_digest x = d_digest d \<and> tag_of x = tag_of d)}"
      if x: "x \<in> set (i_manifests li)" for x
    proof (cases "d_digest x = d_digest d")
      case True
      have "c \<in> {x \<in> set (i_manifests li). \<not> (d_digest x = d_digest d \<and> tag_of x = tag_of d)}"
        using deleted(1,3) by blast
      then show ?thesis by (rule image_eqI [rotated]) (simp only: True deleted(2))
    next
      case False
      with x show ?thesis by blast
    qed
    moreover have "set (i_manifests (rm_desc L now d li)) =
        {x \<in> set (i_manifests li). \<not> (d_digest x = d_digest d \<and> tag_of x = tag_of d)}"
      by (simp add: deleted(4))
    ultimately show ?thesis by blast
  qed
  ultimately show ?thesis using t by (auto simp: known_digests_def rm_desc_tagged_children)
next
  case (stripped ys y zs)
  have others: "\<forall>x\<in>set ys \<union> set zs. tag_of x \<noteq> tag_of d"
    using wf_unique_tag [of ys y zs] wf stripped(1,3) t by (metis wf_index_def)
  have "tag_map (rm_desc L now d li) x = ((tag_map li)(tag_of d := None)) x" for x
  proof (cases "x = tag_of d")
    case True
    then show ?thesis using others t by (auto simp: stripped(4) intro!: tag_map_NoneI)
  next
    case False
    show ?thesis
    proof (cases "x = []")
      case True
      then show ?thesis using t by (simp add: tag_map_def)
    next
      case xn: False
      have "filter (\<lambda>c. tag_of c = x) (i_manifests (rm_desc L now d li)) =
            filter (\<lambda>c. tag_of c = x) (i_manifests li)"
        unfolding stripped(1,4) using False xn stripped(3) by simp
      from tag_map_filter [OF this] False show ?thesis by simp
    qed
  qed
  moreover have "d_digest ` set (i_manifests (rm_desc L now d li)) = d_digest ` set (i_manifests li)"
    unfolding stripped(1,4) by (auto simp: image_Un)
  ultimately show ?thesis using t by (auto simp: known_digests_def rm_desc_tagged_children)
next
  case absent
  with tag_map_SomeD [OF m] show ?thesis by auto
qed

theorem rm_desc_tagged_refines_witness:
  "let d = zero_descriptor\<lparr>d_digest := ''sha256:a'', d_annotations := fmupd annot_ref_name ''v1'' fmempty\<rparr>;
       li = \<lparr>i_schemaVersion = 2, i_mediaType = [], i_artifactType = [],
             i_manifests = [d], i_subject = None, i_annotations = fmempty,
             li_history = fmempty, li_childManifests = []\<rparr>
   in tag_map (rm_desc demo_lib 1 d li) ''v1'' = None \<and> known_digests (rm_desc demo_lib 1 d li) = {''sha256:a''}"
proof -
  define d where "d = zero_descriptor\<lparr>d_digest := ''sha256:a'', d_annotations := fmupd annot_ref_name ''v1'' fmempty\<rparr>"
  have d: "tag_of d = ''v1''" "d_digest d = ''sha256:a''"
    by (simp_all add: d_def zero_descriptor_def annotationVal_def)
  show ?thesis
    unfolding d_def [symmetric] Let_def
    using rm_desc_tagged_refines [of "\<lparr>i_schemaVersion = 2, i_mediaType = [], i_artifactType = [],
             i_manifests = [d], i_subject = None, i_annotations = fmempty,
             li_history = fmempty, li_childManifests = []\<rparr>" d demo_lib 1] d
    by (simp add: tag_map_def known_digests_def wf_index_def wf_manifests_def)
qed

text \<open>
  Removing an untagged descriptor from a well-formed index removes its digest, and with it
  exactly the tags that pointed to it.
\<close>

theorem rm_desc_digest_refines:
  assumes wf: "wf_index li" and t: "tag_of d = []"
  shows "tag_map (rm_desc L now d li) =
           (\<lambda>t. if tag_map li t = Some (d_digest d) then None else tag_map li t) \<and>
         known_digests (rm_desc L now d li) = known_digests li - {d_digest d}"
proof
  have wf': "wf_index (rm_desc L now d li)" using wf by (rule rm_desc_wf)
  have mem: "c \<in> set (i_manifests (rm_desc L now d li)) \<longleftrightarrow>
        c \<in> set (i_manifests li) \<and> d_digest c \<noteq> d_digest d" for c
    using t by (auto simp: rm_desc_untagged)
  show "tag_map (rm_desc L now d li) =
           (\<lambda>t. if tag_map li t = Some (d_digest d) then None else tag_map li t)"
  proof (rule ext, rule option_eqI)
    fix t x
    show "tag_map (rm_desc L now d li) t = Some x \<longleftrightarrow>
          (if tag_map li t = Some (d_digest d) then None else tag_map li t) = Some x"
    proof (cases "t = []")
      case False
      then have "tag_map (rm_desc L now d li) t = Some x \<longleftrightarrow>
          tag_map li t = Some x \<and> x \<noteq> d_digest d"
        unfolding tag_map_wf_iff [OF wf False] tag_map_wf_iff [OF wf' False] Bex_def mem by blast
      then show ?thesis by auto
    qed (simp add: tag_map_def)
  qed
  show "known_digests (rm_desc L now d li) = known_digests li - {d_digest d}"
    using t by (auto simp: known_digests_def rm_desc_untagged)
qed

theorem rm_desc_digest_refines_witness:
  "let d = zero_descriptor\<lparr>d_digest := ''sha256:a'', d_annotations := fmupd annot_ref_name ''v1'' fmempty\<rparr>;
       li = \<lparr>i_schemaVersion = 2, i_mediaType = [], i_artifactType = [],
             i_manifests = [d], i_subject = None, i_annotations = fmempty,
             li_history = fmempty, li_childManifests = []\<rparr>
   in tag_map (rm_desc demo_lib 1 (strip_desc d) li) ''v1'' = None \<and>
      known_digests (rm_desc demo_lib 1 (strip_desc d) li) = {}"
proof -
  define d where "d = zero_descriptor\<lparr>d_digest := ''sha256:a'', d_annotations := fmupd annot_ref_name ''v1'' fmempty\<rparr>"
  have d: "tag_of d = ''v1''" "d_digest d = ''sha256:a''"
    by (simp_all add: d_def zero_descriptor_def annotationVal_def)
  show ?thesis
    unfolding d_def [symmetric] Let_def
    using rm_desc_digest_refines [of "\<lparr>i_schemaVersion = 2, i_mediaType = [], i_artifactType = [],
             i_manifests = [d], i_subject = None, i_annotations = fmempty,
             li_history = fmempty, li_childManifests = []\<rparr>" "strip_desc d" demo_lib 1] d
    by (simp add: tag_map_def known_digests_def wf_index_def wf_manifests_def)
qed

section \<open>Sequences of updates\<close>

datatype index_op = OpAdd time descriptor "descriptor list" | OpRemove time descriptor

fun index_step :: "lib \<Rightarrow> index_op \<Rightarrow> layout_index \<Rightarrow> layout_index" where
  "index_step L (OpAdd now d cs) li = add_desc L now d cs li"
| "index_step L (OpRemove now d) li = rm_desc L now d li"

text \<open>The descriptors the handlers insert: a referrers response carries no tag.\<close>

fun op_ok :: "index_op \<Rightarrow> bool" where
  "op_ok (OpAdd now d cs) \<longleftrightarrow> subject_of d = [] \<or> tag_of d = []"
| "op_ok (OpRemove now d) \<longleftrightarrow> True"

lemma add_desc_wf [wf_intros]:
  "wf_index li \<Longrightarrow> subject_of d = [] \<or> tag_of d = [] \<Longrightarrow> wf_index (add_desc L now d cs li)"
  using add_desc_wf_plain add_desc_wf_referrer by blast

lemma index_step_wf [wf_intros]: "wf_index li \<Longrightarrow> op_ok p \<Longrightarrow> wf_index (index_step L p li)"
  by (cases p) (auto intro: add_desc_wf rm_desc_wf)

text \<open>
  Every sequence of insertions and removals that starts from a well-formed index ends in one:
  each tag names at most one entry, and no digest has a bare entry beside a tagged one.
\<close>

theorem index_ops_wf:
  assumes "wf_index li" and "\<forall>p\<in>set ops. op_ok p"
  shows "wf_index (fold (index_step L) ops li)"
  using assms
proof (induction ops arbitrary: li)
  case (Cons p ops)
  then show ?case using index_step_wf by simp
qed simp

theorem index_ops_wf_witness:
  "let d = zero_descriptor\<lparr>d_digest := ''sha256:a'', d_annotations := fmupd annot_ref_name ''v1'' fmempty\<rparr>;
       li = \<lparr>i_schemaVersion = 2, i_mediaType = [], i_artifactType = [],
             i_manifests = [], i_subject = None, i_annotations = fmempty,
             li_history = fmempty, li_childManifests = []\<rparr>
   in wf_index (fold (index_step demo_lib)
        [OpAdd 1 d [], OpAdd 2 (d\<lparr>d_digest := ''sha256:b''\<rparr>) [], OpRemove 3 d] li)"
  unfolding Let_def
  by (rule index_ops_wf)
    (simp_all add: wf_index_def wf_manifests_def zero_descriptor_def annotationVal_def)

end
