(* ===== verification/Config.thy ===== *)
theory Config
  imports Go_Strings
begin

text \<open>
  The configuration (\<open>config/config.go\<close>): its records with Go's \<open>*bool\<close> as \<open>bool option\<close>, the
  defaults the server applies before anything else, and the names of the store types.  The logger
  and the authentication handlers of the Go structure have no counterpart here.
\<close>

datatype store_type = StoreUndef | StoreMem | StoreDir | StoreShared

record config_http =
  ch_addr :: string
  ch_certFile :: string
  ch_keyFile :: string

record config_gc =
  gc_frequency :: duration
  gc_gracePeriod :: duration
  gc_repoUploadMax :: int
  gc_untagged :: "bool option"
  gc_emptyRepo :: "bool option"
  gc_referrersDangling :: "bool option"
  gc_referrersWithSubj :: "bool option"

record config_storage =
  cs_storeType :: store_type
  cs_rootDir :: string
  cs_readOnly :: "bool option"
  cs_gc :: config_gc

record config_api =
  ca_pushEnabled :: "bool option"
  ca_deleteEnabled :: "bool option"
  ca_manifestLimit :: int
  ca_sparseImage :: "bool option"
  ca_sparseIndex :: "bool option"
  ca_blobDeleteEnabled :: "bool option"
  ca_referrerEnabled :: "bool option"
  ca_pageCacheExpire :: duration
  ca_pageCacheLimit :: int
  ca_referrerLimit :: int
  ca_warnings :: "string list"
  ca_rateLimit :: int

record config =
  c_http :: config_http
  c_storage :: config_storage
  c_api :: config_api

text \<open>
  The value behind a \<open>*bool\<close>.  Go panics on nil; after \<open>SetDefaults\<close> no pointer is nil
  (\<open>setDefaults_defined\<close>), and the server reads its configuration only after it.
\<close>

definition deref :: "bool option \<Rightarrow> bool" where
  "deref b = (b = Some True)"

lemma deref_simps [simp]: "deref (Some b) = b" "deref None = False"
  by (auto simp: deref_def)

definition boolDefault :: "bool option \<Rightarrow> bool \<Rightarrow> bool option" where
  "boolDefault cur def = (case cur of Some _ \<Rightarrow> cur | None \<Rightarrow> Some def)"

definition nano_second :: int where "nano_second = 1000000000"

definition nano_minute :: int where "nano_minute = 60 * nano_second"

definition setDefaults_api :: "config_api \<Rightarrow> config_api" where
  "setDefaults_api a = a\<lparr>
     ca_deleteEnabled := boolDefault (ca_deleteEnabled a) False,
     ca_pushEnabled := boolDefault (ca_pushEnabled a) True,
     ca_blobDeleteEnabled := boolDefault (ca_blobDeleteEnabled a) False,
     ca_referrerEnabled := boolDefault (ca_referrerEnabled a) True,
     ca_manifestLimit := (if ca_manifestLimit a \<le> 0 then 1024 * 1024 * 8 else ca_manifestLimit a),
     ca_sparseImage := boolDefault (ca_sparseImage a) False,
     ca_sparseIndex := boolDefault (ca_sparseIndex a) False,
     ca_pageCacheExpire := (if ca_pageCacheExpire a = 0 then 5 * nano_minute else ca_pageCacheExpire a),
     ca_pageCacheLimit := (if ca_pageCacheLimit a = 0 then 1000 else ca_pageCacheLimit a),
     ca_referrerLimit := (if ca_referrerLimit a = 0 then 1024 * 1024 * 4 else ca_referrerLimit a)\<rparr>"

definition setDefaults_gc :: "config_gc \<Rightarrow> config_gc" where
  "setDefaults_gc g = g\<lparr>
     gc_frequency := (if gc_frequency g = 0 then 15 * nano_minute else gc_frequency g),
     gc_gracePeriod := (if gc_gracePeriod g = 0 then 60 * nano_minute else gc_gracePeriod g),
     gc_repoUploadMax := (if gc_repoUploadMax g = 0 then 1000 else gc_repoUploadMax g),
     gc_untagged := boolDefault (gc_untagged g) False,
     gc_emptyRepo := boolDefault (gc_emptyRepo g) True,
     gc_referrersDangling := boolDefault (gc_referrersDangling g) False,
     gc_referrersWithSubj := boolDefault (gc_referrersWithSubj g) True\<rparr>"

definition setDefaults_storage :: "config_storage \<Rightarrow> config_storage" where
  "setDefaults_storage s = s\<lparr>
     cs_readOnly := boolDefault (cs_readOnly s) False,
     cs_rootDir := (case cs_storeType s of
                      StoreDir \<Rightarrow> if cs_rootDir s = [] then ''.'' else cs_rootDir s
                    | _ \<Rightarrow> cs_rootDir s),
     cs_gc := setDefaults_gc (cs_gc s)\<rparr>"

definition setDefaults :: "config \<Rightarrow> config" where
  "setDefaults c = c\<lparr>c_api := setDefaults_api (c_api c), c_storage := setDefaults_storage (c_storage c)\<rparr>"

text \<open>\<open>Store.MarshalText\<close> and \<open>UnmarshalText\<close>.\<close>

fun store_marshal :: "store_type \<Rightarrow> string res" where
  "store_marshal StoreMem = Inr ''mem''"
| "store_marshal StoreDir = Inr ''dir''"
| "store_marshal StoreShared = Inr ''shared''"
| "store_marshal StoreUndef = Inl (ErrOther ''unknown store value'')"

definition store_unmarshal :: "string \<Rightarrow> store_type res" where
  "store_unmarshal b =
     (let s = to_lower b in
      if s = ''mem'' then Inr StoreMem else if s = ''dir'' then Inr StoreDir
      else if s = ''shared'' then Inr StoreShared else Inl (ErrOther ''unknown store value''))"

section \<open>Properties\<close>

text \<open>No pointer is nil, and no limit is zero.\<close>

definition api_defined :: "config_api \<Rightarrow> bool" where
  "api_defined a \<longleftrightarrow>
     (\<forall>b \<in> {ca_pushEnabled a, ca_deleteEnabled a, ca_sparseImage a, ca_sparseIndex a,
            ca_blobDeleteEnabled a, ca_referrerEnabled a}. b \<noteq> None) \<and>
     0 < ca_manifestLimit a \<and> ca_pageCacheExpire a \<noteq> 0 \<and> ca_pageCacheLimit a \<noteq> 0 \<and> ca_referrerLimit a \<noteq> 0"

definition storage_defined :: "config_storage \<Rightarrow> bool" where
  "storage_defined s \<longleftrightarrow>
     (\<forall>b \<in> {cs_readOnly s, gc_untagged (cs_gc s), gc_emptyRepo (cs_gc s),
            gc_referrersDangling (cs_gc s), gc_referrersWithSubj (cs_gc s)}. b \<noteq> None) \<and>
     gc_frequency (cs_gc s) \<noteq> 0 \<and> gc_gracePeriod (cs_gc s) \<noteq> 0 \<and> gc_repoUploadMax (cs_gc s) \<noteq> 0 \<and>
     (cs_storeType s = StoreDir \<longrightarrow> cs_rootDir s \<noteq> [])"

lemma boolDefault_simps [simp]:
  "boolDefault cur d \<noteq> None" "boolDefault (Some b) d = Some b" "boolDefault None d = Some d"
  "boolDefault (boolDefault cur d) d' = boolDefault cur d" "\<exists>y. boolDefault cur d = Some y"
  by (auto simp: boolDefault_def split: option.splits)

lemma nano_pos [simp]: "nano_minute > 0" "nano_second > 0"
  by (simp_all add: nano_minute_def nano_second_def)

text \<open>
  After \<open>SetDefaults\<close> no boolean setting is nil and no limit is zero, and a second call changes
  nothing.
\<close>

theorem setDefaults_defined:
  "api_defined (c_api (setDefaults c)) \<and> storage_defined (c_storage (setDefaults c)) \<and>
   setDefaults (setDefaults c) = setDefaults c"
  using nano_pos(1)
  by (auto simp: setDefaults_def setDefaults_api_def setDefaults_storage_def setDefaults_gc_def
      api_defined_def storage_defined_def less_le split: store_type.splits)

lemma setDefaults_keeps:
  assumes "api_defined (c_api c)" and "storage_defined (c_storage c)"
  shows "setDefaults c = c"
  using assms
  by (auto simp: setDefaults_def setDefaults_api_def setDefaults_storage_def setDefaults_gc_def
      api_defined_def storage_defined_def boolDefault_def split: store_type.splits option.splits)

lemma setDefaults_shape [simp]:
  "cs_storeType (c_storage (setDefaults c)) = cs_storeType (c_storage c)"
  "ca_warnings (c_api (setDefaults c)) = ca_warnings (c_api c)"
  "ca_rateLimit (c_api (setDefaults c)) = ca_rateLimit (c_api c)"
  by (simp_all add: setDefaults_def setDefaults_api_def setDefaults_storage_def)

text \<open>A printed store type reads back.\<close>

lemma store_roundtrip: "store_marshal t = Inr b \<Longrightarrow> store_unmarshal b = Inr t"
  by (cases t) (auto simp: store_unmarshal_def to_lower_def lower_char_def Let_def)


text \<open>The configuration of a memory store in which nothing was set, for concrete runs.\<close>

definition demo_conf :: config where
  "demo_conf = setDefaults \<lparr>
     c_http = \<lparr>ch_addr = [], ch_certFile = [], ch_keyFile = []\<rparr>,
     c_storage = \<lparr>cs_storeType = StoreMem, cs_rootDir = [], cs_readOnly = None,
       cs_gc = \<lparr>gc_frequency = 0, gc_gracePeriod = 0, gc_repoUploadMax = 0, gc_untagged = None,
         gc_emptyRepo = None, gc_referrersDangling = None, gc_referrersWithSubj = None\<rparr>\<rparr>,
     c_api = \<lparr>ca_pushEnabled = None, ca_deleteEnabled = Some True, ca_manifestLimit = 0, ca_sparseImage = None,
       ca_sparseIndex = None, ca_blobDeleteEnabled = None, ca_referrerEnabled = None, ca_pageCacheExpire = 0,
       ca_pageCacheLimit = 0, ca_referrerLimit = 0, ca_warnings = [], ca_rateLimit = 0\<rparr>\<rparr>"

lemma demo_conf_simps [simp]:
  "cs_readOnly (c_storage demo_conf) = Some False" "cs_rootDir (c_storage demo_conf) = []"
  "gc_untagged (cs_gc (c_storage demo_conf)) = Some False"
  "gc_gracePeriod (cs_gc (c_storage demo_conf)) = 3600000000000"
  "gc_repoUploadMax (cs_gc (c_storage demo_conf)) = 1000"
  "gc_referrersDangling (cs_gc (c_storage demo_conf)) = Some False"
  "gc_referrersWithSubj (cs_gc (c_storage demo_conf)) = Some True"
  "ca_referrerEnabled (c_api demo_conf) = Some True" "ca_pushEnabled (c_api demo_conf) = Some True"
  "ca_deleteEnabled (c_api demo_conf) = Some True" "ca_blobDeleteEnabled (c_api demo_conf) = Some False"
  "ca_sparseImage (c_api demo_conf) = Some False" "ca_sparseIndex (c_api demo_conf) = Some False"
  "ca_manifestLimit (c_api demo_conf) = 8388608" "ca_referrerLimit (c_api demo_conf) = 4194304"
  "ca_warnings (c_api demo_conf) = []" "ca_rateLimit (c_api demo_conf) = 0"
  by (simp_all add: demo_conf_def setDefaults_def setDefaults_api_def setDefaults_storage_def
      setDefaults_gc_def boolDefault_def nano_minute_def nano_second_def)

lemma demo_conf_fixed: "setDefaults demo_conf = demo_conf" "cs_storeType (c_storage demo_conf) = StoreMem"
  by (simp_all add: demo_conf_def setDefaults_def setDefaults_api_def setDefaults_storage_def
      setDefaults_gc_def boolDefault_def nano_minute_def nano_second_def)

end
