(* ===== verification/Http.thy ===== *)
theory Http
  imports Types
begin

text \<open>
  Requests, the response writer and the error bodies (\<open>types/errors.go\<close>), with the parts of
  \<open>net/http\<close> and \<open>net/url\<close> the handlers use.  The response writer keeps what Go's keeps: a header
  map that may change until the status is written, a snapshot of status and headers taken at that
  moment, and the chunks of the body.  Header keys are compared without case, so the model stores
  them in lower case.
\<close>

section \<open>Error information\<close>

record error_info =
  ei_code :: string
  ei_message :: string
  ei_detail :: string

abbreviation mk_info :: "string \<Rightarrow> string \<Rightarrow> string \<Rightarrow> error_info" where
  "mk_info c m d \<equiv> \<lparr>ei_code = c, ei_message = m, ei_detail = d\<rparr>"

definition errInfoBlobUnknown :: "string \<Rightarrow> error_info" where
  "errInfoBlobUnknown d = mk_info ''BLOB_UNKNOWN'' ''blob unknown to registry'' d"
definition errInfoBlobUploadInvalid :: "string \<Rightarrow> error_info" where
  "errInfoBlobUploadInvalid d = mk_info ''BLOB_UPLOAD_INVALID'' ''blob upload invalid'' d"
definition errInfoBlobUploadUnknown :: "string \<Rightarrow> error_info" where
  "errInfoBlobUploadUnknown d = mk_info ''BLOB_UPLOAD_UNKNOWN'' ''blob upload unknown to registry'' d"
definition errInfoDigestInvalid :: "string \<Rightarrow> error_info" where
  "errInfoDigestInvalid d = mk_info ''DIGEST_INVALID'' ''provided digest did not match uploaded content'' d"
definition errInfoManifestBlobUnknown :: "string \<Rightarrow> error_info" where
  "errInfoManifestBlobUnknown d =
     mk_info ''MANIFEST_BLOB_UNKNOWN'' ''manifest references a manifest or blob unknown to registry'' d"
definition errInfoManifestInvalid :: "string \<Rightarrow> error_info" where
  "errInfoManifestInvalid d = mk_info ''MANIFEST_INVALID'' ''manifest invalid'' d"
definition errInfoManifestUnknown :: "string \<Rightarrow> error_info" where
  "errInfoManifestUnknown d = mk_info ''MANIFEST_UNKNOWN'' ''manifest unknown to registry'' d"
definition errInfoNameInvalid :: "string \<Rightarrow> error_info" where
  "errInfoNameInvalid d = mk_info ''NAME_INVALID'' ''invalid repository name'' d"
definition errInfoNameUnknown :: "string \<Rightarrow> error_info" where
  "errInfoNameUnknown d = mk_info ''repository name not known to registry'' ''NAME_UNKNOWN'' d"
definition errInfoSizeInvalid :: "string \<Rightarrow> error_info" where
  "errInfoSizeInvalid d = mk_info ''SIZE_INVALID'' ''provided length did not match content length'' d"
definition errInfoUnauthorized :: "string \<Rightarrow> error_info" where
  "errInfoUnauthorized d = mk_info ''UNAUTHORIZED'' ''authentication required'' d"
definition errInfoDenied :: "string \<Rightarrow> error_info" where
  "errInfoDenied d = mk_info ''DENIED'' ''requested access to the resource is denied'' d"
definition errInfoUnsupported :: "string \<Rightarrow> error_info" where
  "errInfoUnsupported d = mk_info ''UNSUPPORTED'' ''the operation is unsupported'' d"
definition errInfoTooManyRequests :: "string \<Rightarrow> error_info" where
  "errInfoTooManyRequests d = mk_info ''TOOMANYREQUESTS'' ''too many requests'' d"

section \<open>Requests and responses\<close>

type_synonym header = "(string, string list) fmap"

definition hdr_values :: "header \<Rightarrow> string \<Rightarrow> string list" where
  "hdr_values h k = (case fmlookup h (to_lower k) of None \<Rightarrow> [] | Some vs \<Rightarrow> vs)"

definition hdr_get :: "header \<Rightarrow> string \<Rightarrow> string" where
  "hdr_get h k = (case hdr_values h k of [] \<Rightarrow> [] | v # _ \<Rightarrow> v)"

definition hdr_add :: "string \<Rightarrow> string \<Rightarrow> header \<Rightarrow> header" where
  "hdr_add k v h = fmupd (to_lower k) (hdr_values h k @ [v]) h"

definition hdr_set :: "string \<Rightarrow> string \<Rightarrow> header \<Rightarrow> header" where
  "hdr_set k v h = fmupd (to_lower k) [v] h"

lemma hdr_values_set [simp]:
  "hdr_values (hdr_set k v h) k' = (if to_lower k' = to_lower k then [v] else hdr_values h k')"
  by (simp add: hdr_values_def hdr_set_def)

lemma hdr_values_empty [simp]: "hdr_values fmempty k = []"
  by (simp add: hdr_values_def)

lemma hdr_values_add [simp]:
  "hdr_values (hdr_add k v h) k' = (if to_lower k' = to_lower k then hdr_values h k' @ [v] else hdr_values h k')"
  by (simp add: hdr_values_def hdr_add_def)

text \<open>What a handler writes: bytes, or a value through \<open>json.NewEncoder(w).Encode\<close>.\<close>

datatype chunk =
    ChunkBytes bytes
  | ChunkErrors "error_info list"
  | ChunkIndex index
  | ChunkParts "(int \<times> int) list" bytes
  | ChunkToken string int time

record response_writer =
  rw_header :: header
  rw_sent :: "(nat \<times> header) option"
  rw_body :: "chunk list"

definition new_rw :: response_writer where
  "new_rw = \<lparr>rw_header = fmempty, rw_sent = None, rw_body = []\<rparr>"

definition header_add :: "string \<Rightarrow> string \<Rightarrow> response_writer \<Rightarrow> response_writer" where
  "header_add k v w = w\<lparr>rw_header := hdr_add k v (rw_header w)\<rparr>"

definition header_set :: "string \<Rightarrow> string \<Rightarrow> response_writer \<Rightarrow> response_writer" where
  "header_set k v w = w\<lparr>rw_header := hdr_set k v (rw_header w)\<rparr>"

text \<open>Only the first \<open>WriteHeader\<close> counts; a \<open>Write\<close> before it sends status 200.\<close>

definition writeHeader :: "nat \<Rightarrow> response_writer \<Rightarrow> response_writer" where
  "writeHeader code w =
     (case rw_sent w of None \<Rightarrow> w\<lparr>rw_sent := Some (code, rw_header w)\<rparr> | Some _ \<Rightarrow> w)"

definition writeBody :: "chunk \<Rightarrow> response_writer \<Rightarrow> response_writer" where
  "writeBody c w = (let w' = writeHeader 200 w in w'\<lparr>rw_body := rw_body w' @ [c]\<rparr>)"

text \<open>The status the client sees; a handler that writes nothing sends 200 too.\<close>

definition rw_status :: "response_writer \<Rightarrow> nat" where
  "rw_status w = (case rw_sent w of None \<Rightarrow> 200 | Some (c, _) \<Rightarrow> c)"

definition rw_sent_header :: "response_writer \<Rightarrow> header" where
  "rw_sent_header w = (case rw_sent w of None \<Rightarrow> rw_header w | Some (_, h) \<Rightarrow> h)"

text \<open>\<open>ErrRespJSON\<close>.\<close>

definition errRespJSON :: "error_info list \<Rightarrow> response_writer \<Rightarrow> response_writer" where
  "errRespJSON errList w = writeBody (ChunkErrors errList) (header_add ''content-type'' ''application/json'' w)"

text \<open>The pattern of every error branch of the handlers: the status, then the JSON body.\<close>

definition resp_err :: "nat \<Rightarrow> error_info list \<Rightarrow> response_writer \<Rightarrow> response_writer" where
  "resp_err code errList w = errRespJSON errList (writeHeader code w)"

lemma rw_sent_simps [simp]:
  "rw_sent (header_add k v w) = rw_sent w" "rw_sent (header_set k v w) = rw_sent w"
  "rw_sent (writeHeader c w) = (case rw_sent w of None \<Rightarrow> Some (c, rw_header w) | Some x \<Rightarrow> Some x)"
  "rw_sent (writeBody b w) = (case rw_sent w of None \<Rightarrow> Some (200, rw_header w) | Some x \<Rightarrow> Some x)"
  "rw_sent (errRespJSON es w) =
     (case rw_sent w of None \<Rightarrow> Some (200, hdr_add ''content-type'' ''application/json'' (rw_header w)) | Some x \<Rightarrow> Some x)"
  "rw_sent (resp_err c es w) = (case rw_sent w of None \<Rightarrow> Some (c, rw_header w) | Some x \<Rightarrow> Some x)"
  by (auto simp: header_add_def header_set_def writeHeader_def writeBody_def errRespJSON_def
      resp_err_def Let_def split: option.splits)

lemma rw_header_simps [simp]:
  "rw_header (header_add k v w) = hdr_add k v (rw_header w)"
  "rw_header (header_set k v w) = hdr_set k v (rw_header w)"
  "rw_header (writeHeader c w) = rw_header w" "rw_header (writeBody b w) = rw_header w"
  by (auto simp: header_add_def header_set_def writeHeader_def writeBody_def Let_def split: option.splits)

lemma rw_body_simps [simp]:
  "rw_body (header_add k v w) = rw_body w" "rw_body (header_set k v w) = rw_body w"
  "rw_body (writeHeader c w) = rw_body w" "rw_body (writeBody b w) = rw_body w @ [b]"
  "rw_body (errRespJSON es w) = rw_body w @ [ChunkErrors es]"
  "rw_body (resp_err c es w) = rw_body w @ [ChunkErrors es]"
  by (auto simp: header_add_def header_set_def writeHeader_def writeBody_def errRespJSON_def
      resp_err_def Let_def split: option.splits)

lemma new_rw_simps [simp]: "rw_sent new_rw = None" "rw_body new_rw = []" "rw_header new_rw = fmempty"
  by (simp_all add: new_rw_def)

lemma to_lower_content_type [simp]:
  "to_lower ''Content-Type'' = ''content-type''" "to_lower ''content-type'' = ''content-type''"
  by code_simp+

text \<open>
  An error response of a handler carries its JSON body, but not the content type that
  \<open>ErrRespJSON\<close> adds: the handlers write the status first, and the headers are sent with it.
  Called before the status, \<open>ErrRespJSON\<close> does send the content type.
\<close>

theorem resp_err_loses_content_type:
  "rw_body (resp_err code es new_rw) = [ChunkErrors es] \<and> rw_status (resp_err code es new_rw) = code \<and>
   hdr_values (rw_sent_header (resp_err code es new_rw)) ''Content-Type'' = [] \<and>
   hdr_values (rw_sent_header (errRespJSON es new_rw)) ''Content-Type'' = [''application/json'']"
  by (simp add: rw_status_def rw_sent_header_def)

text \<open>
  A request: \<open>rq_query\<close> is the parsed query in order, \<open>rq_body\<close> the non-empty chunks the body
  reader delivers, \<open>rq_body_fail\<close> whether it then fails instead of ending, and \<open>rq_basic\<close> the result
  of \<open>BasicAuth()\<close>.
\<close>

record request =
  rq_method :: string
  rq_path :: string
  rq_query :: "(string \<times> string) list"
  rq_header :: header
  rq_body :: "bytes list"
  rq_body_fail :: bool
  rq_contentLength :: int
  rq_remoteAddr :: string
  rq_basic :: "(string \<times> string) option"

definition query_values :: "request \<Rightarrow> string \<Rightarrow> string list" where
  "query_values r k = map snd (filter (\<lambda>kv. fst kv = k) (rq_query r))"

definition query_get :: "request \<Rightarrow> string \<Rightarrow> string" where
  "query_get r k = (case query_values r k of [] \<Rightarrow> [] | v # _ \<Rightarrow> v)"

text \<open>\<open>io.ReadAll\<close> and \<open>io.ReadAll(io.LimitReader(body, n))\<close>; \<open>None\<close> is a read error.\<close>

definition read_limited :: "int \<Rightarrow> request \<Rightarrow> bytes option" where
  "read_limited n r =
     (let b = concat (rq_body r)
      in if int (length b) \<ge> n then Some (take (nat n) b)
         else if rq_body_fail r then None else Some b)"

section \<open>URLs\<close>

definition hex_char :: "nat \<Rightarrow> char" where
  "hex_char n = (if n < 10 then char_of (48 + n) else char_of (55 + n))"

definition percent :: "char \<Rightarrow> string" where
  "percent c = (let n = of_char c :: nat in [CHR ''%'', hex_char (n div 16), hex_char (n mod 16)])"

definition unreserved :: "char \<Rightarrow> bool" where
  "unreserved c \<longleftrightarrow> alnum_char c \<or> c \<in> set ''-_.~''"

definition query_escape :: "string \<Rightarrow> string" where
  "query_escape s = concat (map (\<lambda>c. if unreserved c then [c] else if c = CHR '' '' then ''+'' else percent c) s)"

definition path_escape :: "string \<Rightarrow> string" where
  "path_escape s = concat (map (\<lambda>c. if unreserved c \<or> c \<in> set ''$&+,/:;=@'' then [c] else percent c) s)"

text \<open>\<open>Values.Set\<close>, \<open>Values.Encode\<close> (keys sorted) and \<open>URL.String\<close> of a path with a query.\<close>

definition query_set :: "string \<Rightarrow> string \<Rightarrow> (string \<times> string) list \<Rightarrow> (string \<times> string) list" where
  "query_set k v q = filter (\<lambda>kv. fst kv \<noteq> k) q @ [(k, v)]"

definition query_encode :: "(string \<times> string) list \<Rightarrow> string" where
  "query_encode q = join_char (CHR ''&'')
     (concat (map (\<lambda>k. map (\<lambda>kv. query_escape k @ CHR ''='' # query_escape (snd kv))
                          (filter (\<lambda>kv. fst kv = k) q))
                  (sort_strings (remdups (map fst q)))))"

definition url_string :: "string \<Rightarrow> (string \<times> string) list \<Rightarrow> string" where
  "url_string p q = path_escape p @ (if q = [] then [] else CHR ''?'' # query_encode q)"

text \<open>\<open>url.JoinPath\<close> on a rooted base: it cannot fail for the elements the handlers pass.\<close>

definition url_join :: "string list \<Rightarrow> string" where
  "url_join els = path_escape (path_clean (join_char (CHR ''/'') els))"

section \<open>Serving content with ranges\<close>

text \<open>
  \<open>http.ServeContent\<close> of a content without modification time and entity tag, for a response writer
  whose content type is set: the range header selects the whole content, one part, several parts
  (\<open>ChunkParts\<close>: the ranges of a multipart body), or is refused.  Requests with the conditional
  headers \<open>If-*\<close> are outside the model.
\<close>

definition cut_dash :: "string \<Rightarrow> (string \<times> string) option" where
  "cut_dash s = (if CHR ''-'' \<in> set s
     then Some (cut_before (CHR ''-'') s, tl (dropWhile (\<lambda>c. c \<noteq> CHR ''-'') s)) else None)"

datatype range_item = RangeBad | RangeSkip | RangePart int int

definition parse_range_item :: "int \<Rightarrow> string \<Rightarrow> range_item" where
  "parse_range_item sz ra =
     (case cut_dash ra of
        None \<Rightarrow> RangeBad
      | Some (a, b) \<Rightarrow>
        let start = trim_space a; fin = trim_space b in
        if start = [] then
          if fin = [] \<or> hd fin = CHR ''-'' then RangeBad
          else let (i, bad) = parse_int64 fin in
            if i < 0 \<or> bad then RangeBad
            else let i = min i sz in RangePart (sz - i) i
        else let (i, bad) = parse_int64 start in
          if bad \<or> i < 0 then RangeBad
          else if i \<ge> sz then RangeSkip
          else if fin = [] then RangePart i (sz - i)
          else let (j, bad2) = parse_int64 fin in
            if bad2 \<or> i > j then RangeBad
            else RangePart i ((if j \<ge> sz then sz - 1 else j) - i + 1))"

fun range_items :: "int \<Rightarrow> string list \<Rightarrow> bool \<Rightarrow> ((int \<times> int) list \<times> bool) option" where
  "range_items sz [] skipped = Some ([], skipped)"
| "range_items sz (ra # ras) skipped =
     (let ra = trim_space ra in
      if ra = [] then range_items sz ras skipped
      else case parse_range_item sz ra of
        RangeBad \<Rightarrow> None
      | RangeSkip \<Rightarrow> range_items sz ras True
      | RangePart i n \<Rightarrow> map_option (\<lambda>(rs, k). ((i, n) # rs, k)) (range_items sz ras skipped))"

datatype ranges = RangesInvalid | RangesNoOverlap | Ranges "(int \<times> int) list"

definition parse_ranges :: "string \<Rightarrow> int \<Rightarrow> ranges" where
  "parse_ranges s sz =
     (if s = [] then Ranges []
      else if \<not> has_prefix s ''bytes='' then RangesInvalid
      else case range_items sz (split_char (CHR '','') (drop 6 s)) False of
        None \<Rightarrow> RangesInvalid
      | Some (rs, skipped) \<Rightarrow> if skipped \<and> rs = [] then RangesNoOverlap else Ranges rs)"

definition content_range :: "int \<Rightarrow> int \<times> int \<Rightarrow> string" where
  "content_range sz r = ''bytes '' @ show_int (fst r) @ ''-'' @ show_int (fst r + snd r - 1) @ ''/'' @ show_int sz"

definition slice :: "int \<times> int \<Rightarrow> bytes \<Rightarrow> bytes" where
  "slice r b = take (nat (snd r)) (drop (nat (fst r)) b)"

definition send_content :: "request \<Rightarrow> nat \<Rightarrow> int \<Rightarrow> chunk \<Rightarrow> response_writer \<Rightarrow> response_writer" where
  "send_content r code n c w =
     (let w1 = writeHeader code
                 (header_set ''Content-Length'' (show_int n) (header_set ''Accept-Ranges'' ''bytes'' w))
      in if rq_method r \<noteq> ''HEAD'' then writeBody c w1 else w1)"

definition refuse_range :: "string \<Rightarrow> response_writer \<Rightarrow> response_writer" where
  "refuse_range msg w =
     writeBody (ChunkBytes msg)
       (writeHeader 416 (header_set ''Content-Type'' ''text/plain; charset=utf-8'' w))"

definition serve_content :: "request \<Rightarrow> bytes \<Rightarrow> response_writer \<Rightarrow> response_writer" where
  "serve_content r b w =
     (let sz = int (length b);
          whole = send_content r 200 sz (ChunkBytes b) w
      in case parse_ranges (hdr_get (rq_header r) ''Range'') sz of
           RangesInvalid \<Rightarrow> refuse_range ''invalid range'' w
         | RangesNoOverlap \<Rightarrow>
             if sz = 0 then whole
             else refuse_range ''invalid range: failed to overlap''
                    (header_set ''Content-Range'' (''bytes */'' @ show_int sz) w)
         | Ranges rs \<Rightarrow>
             if sum_list (map snd rs) > sz then whole
             else case rs of
               [] \<Rightarrow> whole
             | [ra] \<Rightarrow> send_content r 206 (snd ra) (ChunkBytes (slice ra b))
                         (header_set ''Content-Range'' (content_range sz ra) w)
             | _ \<Rightarrow> (let w1 = writeHeader 206 (header_set ''Content-Type'' ''multipart/byteranges''
                              (header_set ''Accept-Ranges'' ''bytes'' w))
                      in if rq_method r \<noteq> ''HEAD'' then writeBody (ChunkParts rs b) w1 else w1))"

lemma serve_content_whole:
  assumes "hdr_values (rq_header r) ''Range'' = []" and "rw_sent w = None"
  shows "rw_status (serve_content r b w) = 200"
    and "rq_method r \<noteq> ''HEAD'' \<Longrightarrow> rw_body (serve_content r b w) = rw_body w @ [ChunkBytes b]"
    and "rq_method r = ''HEAD'' \<Longrightarrow> rw_body (serve_content r b w) = rw_body w"
  using assms
  by (simp_all add: serve_content_def parse_ranges_def hdr_get_def send_content_def Let_def rw_status_def)

text \<open>A range that was accepted lies within the content.\<close>

lemma parse_range_item_bounds:
  assumes "parse_range_item sz ra = RangePart i n" and "0 \<le> sz"
  shows "0 \<le> i \<and> 0 \<le> n \<and> i + n \<le> sz"
  using assms
  by (auto simp: parse_range_item_def Let_def split: option.splits prod.splits if_splits)

lemma range_items_bounds:
  assumes "range_items sz ras k = Some (rs, k')" and "0 \<le> sz" and "(i, n) \<in> set rs"
  shows "0 \<le> i \<and> 0 \<le> n \<and> i + n \<le> sz"
  using assms
proof (induction sz ras k arbitrary: rs rule: range_items.induct)
  case (2 sz ra ras k)
  then show ?case
    by (auto simp: Let_def split: if_splits range_item.splits dest: parse_range_item_bounds)
qed simp

end
