(* ===== verification/Repo.thy ===== *)
theory Repo
  imports Layout Config Http
begin

text \<open>
  The interface between the request handlers and a backend store (\<open>Store\<close>, \<open>Repo\<close> and
  \<open>BlobCreator\<close> of \<open>internal/store/store.go\<close>).  A Go interface value is a record of its methods,
  each a function of the store's state \<open>'s\<close>; a \<open>Repo\<close> is named by its repository, a \<open>BlobCreator\<close>
  by the address of its upload.  A reader is what reading it to the end gives: its bytes or the
  error of the read.
\<close>

section \<open>Blob options\<close>

datatype blob_opt = BlobWithAlgorithm algorithm | BlobWithDigest digest

record blob_conf =
  bo_algo :: algorithm
  bo_expect :: digest

fun apply_blob_opt :: "lib \<Rightarrow> blob_opt \<Rightarrow> blob_conf \<Rightarrow> blob_conf res" where
  "apply_blob_opt L (BlobWithAlgorithm a) bc = Inr (bc\<lparr>bo_algo := a\<rparr>)"
| "apply_blob_opt L (BlobWithDigest d) bc =
     (if dig_is_zero d then Inl (ErrOther ''invalid digest'')
      else Inr (bc\<lparr>bo_expect := d, bo_algo := dig_algorithm L d\<rparr>))"

fun apply_blob_opts :: "lib \<Rightarrow> blob_opt list \<Rightarrow> blob_conf \<Rightarrow> blob_conf res" where
  "apply_blob_opts L [] bc = Inr bc"
| "apply_blob_opts L (p # ps) bc =
     (case apply_blob_opt L p bc of Inl e \<Rightarrow> Inl e | Inr bc' \<Rightarrow> apply_blob_opts L ps bc')"

section \<open>The interfaces\<close>

type_synonym reader = "bytes res"
type_synonym uid = nat

record 's store_ops =
  so_repoGet :: "string \<Rightarrow> 's \<Rightarrow> unit res \<times> 's"
  so_done :: "string \<Rightarrow> 's \<Rightarrow> 's"
  so_indexGet :: "string \<Rightarrow> 's \<Rightarrow> layout_index res \<times> 's"
  so_indexInsert :: "string \<Rightarrow> descriptor \<Rightarrow> descriptor list \<Rightarrow> 's \<Rightarrow> unit res \<times> 's"
  so_indexRemove :: "string \<Rightarrow> descriptor \<Rightarrow> 's \<Rightarrow> unit res \<times> 's"
  so_blobGet :: "string \<Rightarrow> digest \<Rightarrow> 's \<Rightarrow> reader res \<times> 's"
  so_blobCreate :: "string \<Rightarrow> blob_opt list \<Rightarrow> 's \<Rightarrow> (uid \<times> string) res \<times> 's"
  so_blobDelete :: "string \<Rightarrow> digest \<Rightarrow> 's \<Rightarrow> unit res \<times> 's"
  so_blobSession :: "string \<Rightarrow> string \<Rightarrow> 's \<Rightarrow> uid res \<times> 's"
  so_write :: "uid \<Rightarrow> bytes \<Rightarrow> 's \<Rightarrow> unit res \<times> 's"
  so_close :: "uid \<Rightarrow> 's \<Rightarrow> unit res \<times> 's"
  so_cancel :: "uid \<Rightarrow> 's \<Rightarrow> unit res \<times> 's"
  so_size :: "uid \<Rightarrow> 's \<Rightarrow> int"
  so_digest :: "uid \<Rightarrow> 's \<Rightarrow> digest"
  so_verify :: "uid \<Rightarrow> digest \<Rightarrow> 's \<Rightarrow> unit res \<times> 's"
  so_changeAlgorithm :: "uid \<Rightarrow> algorithm \<Rightarrow> 's \<Rightarrow> unit res \<times> 's"

section \<open>Uses of the interface the handlers share\<close>

text \<open>
  \<open>io.Copy(bc, body)\<close>: every chunk the body delivers is written, up to the first error of either
  side.
\<close>

fun copy_chunks :: "'s store_ops \<Rightarrow> uid \<Rightarrow> bytes list \<Rightarrow> 's \<Rightarrow> unit res \<times> 's" where
  "copy_chunks S u [] s = (Inr (), s)"
| "copy_chunks S u (c # cs) s =
     (case so_write S u c s of
        (Inl e, s1) \<Rightarrow> (Inl e, s1)
      | (Inr _, s1) \<Rightarrow> copy_chunks S u cs s1)"

definition io_copy :: "'s store_ops \<Rightarrow> uid \<Rightarrow> bytes list \<Rightarrow> bool \<Rightarrow> 's \<Rightarrow> unit res \<times> 's" where
  "io_copy S u cs fail s =
     (case copy_chunks S u cs s of
        (Inl e, s1) \<Rightarrow> (Inl e, s1)
      | (Inr _, s1) \<Rightarrow> if fail then (Inl (ErrOther ''read''), s1) else (Inr (), s1))"

text \<open>
  A manifest or a response is stored by \<open>BlobCreate(BlobWithDigest(d))\<close>, \<open>Write\<close> and \<open>Close\<close>; a
  blob that exists already is no error.  After a failed write the upload is closed.
\<close>

definition write_close :: "'s store_ops \<Rightarrow> uid \<Rightarrow> bytes \<Rightarrow> 's \<Rightarrow> unit res \<times> 's" where
  "write_close S u raw s =
     (case so_write S u raw s of
        (Inl e, s1) \<Rightarrow> (case so_close S u s1 of (_, s2) \<Rightarrow> (Inl e, s2))
      | (Inr _, s1) \<Rightarrow> so_close S u s1)"

definition push_blob :: "'s store_ops \<Rightarrow> string \<Rightarrow> digest \<Rightarrow> bytes \<Rightarrow> 's \<Rightarrow> unit res \<times> 's" where
  "push_blob S repo d raw s =
     (case so_blobCreate S repo [BlobWithDigest d] s of
        (Inl e, s1) \<Rightarrow> if e = ErrBlobExists then (Inr (), s1) else (Inl e, s1)
      | (Inr (u, _), s1) \<Rightarrow> write_close S u raw s1)"

section \<open>Invariants of a store\<close>

text \<open>
  A predicate on the store that every method keeps.  What only acts on the store through its
  methods keeps it too; the lemmas here and in the theories of the clients say so once for all
  stores and all such predicates.
\<close>

text \<open>The descriptors the handlers insert: a tagged one has a valid tag and is no referrers response.\<close>

definition insertable :: "descriptor \<Rightarrow> bool" where
  "insertable d \<longleftrightarrow> (tag_of d \<noteq> [] \<longrightarrow> refTagRE (tag_of d) \<and> subject_of d = [])"

locale store_invariant =
  fixes S :: "'s store_ops" and P :: "'s \<Rightarrow> bool"
  assumes keep_repoGet: "P s \<Longrightarrow> P (snd (so_repoGet S r s))"
    and keep_done: "P s \<Longrightarrow> P (so_done S r s)"
    and keep_indexGet: "P s \<Longrightarrow> P (snd (so_indexGet S r s))"
    and keep_indexInsert: "insertable d \<Longrightarrow> P s \<Longrightarrow> P (snd (so_indexInsert S r d cs s))"
    and keep_indexRemove: "P s \<Longrightarrow> P (snd (so_indexRemove S r d s))"
    and keep_blobGet: "P s \<Longrightarrow> P (snd (so_blobGet S r dig s))"
    and keep_blobCreate: "P s \<Longrightarrow> P (snd (so_blobCreate S r opts s))"
    and keep_blobDelete: "P s \<Longrightarrow> P (snd (so_blobDelete S r dig s))"
    and keep_blobSession: "P s \<Longrightarrow> P (snd (so_blobSession S r sid s))"
    and keep_write: "P s \<Longrightarrow> P (snd (so_write S u p s))"
    and keep_close: "P s \<Longrightarrow> P (snd (so_close S u s))"
    and keep_cancel: "P s \<Longrightarrow> P (snd (so_cancel S u s))"
    and keep_verify: "P s \<Longrightarrow> P (snd (so_verify S u dig s))"
    and keep_changeAlgorithm: "P s \<Longrightarrow> P (snd (so_changeAlgorithm S u a s))"
begin

lemmas keep_ops = keep_repoGet keep_done keep_indexGet keep_indexInsert keep_indexRemove keep_blobGet
  keep_blobCreate keep_blobDelete keep_blobSession keep_write keep_close keep_cancel keep_verify
  keep_changeAlgorithm

text \<open>The same, for a call whose result is known.\<close>

lemma keep_eq:
  "so_repoGet S r s = (x1, s') \<Longrightarrow> P s \<Longrightarrow> P s'" "so_indexGet S r s = (x2, s') \<Longrightarrow> P s \<Longrightarrow> P s'"
  "so_indexInsert S r d cs s = (x3, s') \<Longrightarrow> insertable d \<Longrightarrow> P s \<Longrightarrow> P s'" "so_indexRemove S r d s = (x4, s') \<Longrightarrow> P s \<Longrightarrow> P s'"
  "so_blobGet S r dig s = (x5, s') \<Longrightarrow> P s \<Longrightarrow> P s'" "so_blobCreate S r opts s = (x6, s') \<Longrightarrow> P s \<Longrightarrow> P s'"
  "so_blobDelete S r dig s = (x7, s') \<Longrightarrow> P s \<Longrightarrow> P s'" "so_blobSession S r sid s = (x8, s') \<Longrightarrow> P s \<Longrightarrow> P s'"
  "so_write S u p s = (x9, s') \<Longrightarrow> P s \<Longrightarrow> P s'" "so_close S u s = (x10, s') \<Longrightarrow> P s \<Longrightarrow> P s'"
  "so_cancel S u s = (x11, s') \<Longrightarrow> P s \<Longrightarrow> P s'" "so_verify S u dig s = (x12, s') \<Longrightarrow> P s \<Longrightarrow> P s'"
  "so_changeAlgorithm S u a s = (x13, s') \<Longrightarrow> P s \<Longrightarrow> P s'"
  using keep_ops by (metis snd_conv)+

lemma keep_copy_chunks: "copy_chunks S u cs s = (x, s') \<Longrightarrow> P s \<Longrightarrow> P s'"
  by (induction cs arbitrary: s) (auto split: prod.splits sum.splits dest: keep_eq)

lemma keep_io_copy: "io_copy S u cs fail s = (x, s') \<Longrightarrow> P s \<Longrightarrow> P s'"
  by (auto simp: io_copy_def split: prod.splits sum.splits if_splits dest: keep_copy_chunks)

lemma keep_write_close: "write_close S u raw s = (x, s') \<Longrightarrow> P s \<Longrightarrow> P s'"
  by (auto simp: write_close_def split: prod.splits sum.splits dest: keep_eq)

lemma keep_push_blob: "push_blob S r d raw s = (x, s') \<Longrightarrow> P s \<Longrightarrow> P s'"
  by (auto simp: push_blob_def split: prod.splits sum.splits if_splits dest: keep_eq keep_write_close)

end

end
