(* ===== verification/GC.thy ===== *)
theory GC
  imports Repo
begin

text \<open>
  Garbage collection of a repository (\<open>repoGarbageCollect\<close> of \<open>internal/store/store.go\<close>), for any
  implementation of the repository methods it calls.  The collector first selects the roots among
  the entries of the index and the referrers responses that live as long as their subject, then
  walks the manifests from the roots, then deletes the blobs it has not seen and drops the index
  entries without a blob.  The walk follows data that the repository serves, so nothing bounds it
  for an arbitrary repository: it is a partial function, and \<open>gc_repo\<close> shows that it ends for a
  repository with finitely many readable blobs.
\<close>

section \<open>Definitions\<close>

record 's gc_ops =
  go_get :: "digest \<Rightarrow> 's \<Rightarrow> reader res \<times> 's"
  go_meta :: "digest \<Rightarrow> 's \<Rightarrow> time res \<times> 's"
  go_list :: "'s \<Rightarrow> digest list res \<times> 's"
  go_delete :: "digest \<Rightarrow> 's \<Rightarrow> unit res \<times> 's"

text \<open>\<open>var cutoff\<close>, and the test \<open>GracePeriod >= 0 && mod.After(cutoff)\<close>.\<close>

definition gc_cutoff :: "config_gc \<Rightarrow> time \<Rightarrow> time" where
  "gc_cutoff g now = (if gc_gracePeriod g \<ge> 0 then now - gc_gracePeriod g else 0)"

definition gc_recent :: "config_gc \<Rightarrow> time \<Rightarrow> time \<Rightarrow> bool" where
  "gc_recent g now m \<longleftrightarrow> gc_gracePeriod g \<ge> 0 \<and> m > gc_cutoff g now"

record gc_build =
  gb_manifests :: "descriptor list"
  gb_subjects :: "(digest, descriptor) fmap"
  gb_inIndex :: "digest list"

definition add_subject :: "digest \<Rightarrow> descriptor \<Rightarrow> gc_build \<Rightarrow> gc_build" where
  "add_subject dig d gb = gb\<lparr>gb_subjects := fmupd dig d (gb_subjects gb)\<rparr>"

definition add_root :: "bool \<Rightarrow> descriptor \<Rightarrow> gc_build \<Rightarrow> gc_build" where
  "add_root keep d gb = (if keep then gb\<lparr>gb_manifests := gb_manifests gb @ [d]\<rparr> else gb)"

text \<open>One round of the loop over \<open>index.Manifests\<close>.\<close>

definition gc_keep :: "'s gc_ops \<Rightarrow> config_gc \<Rightarrow> time \<Rightarrow> descriptor \<Rightarrow> 's \<Rightarrow> bool \<times> 's" where
  "gc_keep G g now d s =
     (if \<not> deref (gc_untagged g) \<or> tag_of d \<noteq> [] then (True, s)
      else if gc_gracePeriod g \<ge> 0 then
        (case go_meta G (d_digest d) s of
           (Inr m, s1) \<Rightarrow> (m > gc_cutoff g now, s1)
         | (Inl _, s1) \<Rightarrow> (False, s1))
      else (False, s))"

definition gc_build_step ::
    "lib \<Rightarrow> 's gc_ops \<Rightarrow> config_gc \<Rightarrow> time \<Rightarrow> descriptor \<Rightarrow> gc_build \<times> 's \<Rightarrow> gc_build \<times> 's" where
  "gc_build_step L G g now d = (\<lambda>(gb0, s).
     let gb = gb0\<lparr>gb_inIndex := List.insert (d_digest d) (gb_inIndex gb0)\<rparr> in
     case gc_keep G g now d s of (keep, s1) \<Rightarrow>
     if subject_of d = [] then (add_root keep d gb, s1)
     else
       let dig = (case dig_parse L (subject_of d) of Some x \<Rightarrow> x | None \<Rightarrow> []) in
       case go_meta G dig s1 of (r, s2) \<Rightarrow>
       let subjExists = (\<not> dig_is_zero dig \<and> (case r of Inr _ \<Rightarrow> True | Inl _ \<Rightarrow> False)) in
       if deref (gc_referrersWithSubj g) \<and> subjExists then (add_subject dig d gb, s2)
       else if \<not> deref (gc_referrersDangling g) then (add_root True d gb, s2)
       else if subjExists then
         (case go_meta G (d_digest d) s2 of
            (Inr m, s3) \<Rightarrow> if gc_recent g now m then (add_root True d gb, s3) else (add_subject dig d gb, s3)
          | (Inl _, s3) \<Rightarrow> (add_subject dig d gb, s3))
       else (add_root keep d gb, s2))"

definition gc_build_all ::
    "lib \<Rightarrow> 's gc_ops \<Rightarrow> config_gc \<Rightarrow> time \<Rightarrow> descriptor list \<Rightarrow> 's \<Rightarrow> gc_build \<times> 's" where
  "gc_build_all L G g now ms s =
     fold (gc_build_step L G g now) ms
       (\<lparr>gb_manifests = [], gb_subjects = fmempty, gb_inIndex = []\<rparr>, s)"

text \<open>
  The body of the walk for one descriptor taken from the tail of \<open>manifests\<close>.  The model's stack has
  that tail as its head; the result has the descriptors pushed (a referrers response, pushed last,
  comes first), and the digests seen.
\<close>

definition gc_referrer :: "(digest, descriptor) fmap \<Rightarrow> descriptor \<Rightarrow> descriptor list" where
  "gc_referrer subjects d = (case fmlookup subjects (d_digest d) of None \<Rightarrow> [] | Some r \<Rightarrow> [r])"

definition gc_visit ::
    "lib \<Rightarrow> 's gc_ops \<Rightarrow> (digest, descriptor) fmap \<Rightarrow> descriptor \<Rightarrow> digest set \<Rightarrow> 's \<Rightarrow>
     descriptor list \<times> digest set \<times> 's" where
  "gc_visit L G subjects d seen s =
     (if d_digest d \<in> seen then ([], seen, s)
      else case go_get G (d_digest d) s of
        (Inl _, s1) \<Rightarrow> ([], seen, s1)
      | (Inr br, s1) \<Rightarrow>
        let seen1 = insert (d_digest d) seen in
        if mediaTypeIndex (d_mediaType d) then
          (case br of
             Inl _ \<Rightarrow> ([], seen1, s1)
           | Inr b \<Rightarrow>
             (case dec_index L b of
                None \<Rightarrow> ([], seen1, s1)
              | Some man \<Rightarrow> (gc_referrer subjects d @ rev (i_manifests man), seen1, s1)))
        else if mediaTypeImage (d_mediaType d) then
          (case br of
             Inl _ \<Rightarrow> ([], seen1, s1)
           | Inr b \<Rightarrow>
             (case dec_manifest L b of
                None \<Rightarrow> ([], seen1, s1)
              | Some man \<Rightarrow>
                (gc_referrer subjects d,
                 insert (d_digest (m_config man)) (d_digest ` set (m_layers man)) \<union> seen1, s1)))
        else (gc_referrer subjects d, seen1, s1))"

partial_function (option) gc_mark ::
    "lib \<Rightarrow> 's gc_ops \<Rightarrow> (digest, descriptor) fmap \<Rightarrow> descriptor list \<Rightarrow> digest set \<Rightarrow> digest list \<Rightarrow> 's \<Rightarrow>
     (digest set \<times> digest list \<times> 's) option" where
  "gc_mark L G subjects stack seen inIndex s =
     (case stack of
        [] \<Rightarrow> Some (seen, inIndex, s)
      | d # rest \<Rightarrow>
        (case gc_visit L G subjects d seen s of
           (push, seen1, s1) \<Rightarrow>
             gc_mark L G subjects (push @ rest) seen1 (List.insert (d_digest d) inIndex) s1))"

text \<open>One round of the loop over the blob list, and of the last loop.\<close>

definition gc_sweep_step ::
    "lib \<Rightarrow> 's gc_ops \<Rightarrow> config_gc \<Rightarrow> time \<Rightarrow> time \<Rightarrow> digest set \<Rightarrow> digest list \<Rightarrow> digest \<Rightarrow>
     layout_index \<times> bool \<times> 's \<Rightarrow> layout_index \<times> bool \<times> 's" where
  "gc_sweep_step L G g now rnow seen inIndex d = (\<lambda>(li, chg, s).
     if d \<in> seen then (li, chg, s)
     else case go_meta G d s of (r, s1) \<Rightarrow>
       if (case r of Inr m \<Rightarrow> gc_recent g now m | Inl _ \<Rightarrow> False) \<and> d \<notin> set inIndex then (li, chg, s1)
       else
         case (case get_desc L li d of
                 Inr _ \<Rightarrow> (rm_desc L rnow (zero_descriptor\<lparr>d_digest := d\<rparr>) li, True)
               | Inl _ \<Rightarrow> (li, chg)) of (li1, chg1) \<Rightarrow>
         (case go_delete G d s1 of (_, s2) \<Rightarrow> (li1, chg1, s2)))"

definition gc_clean_step :: "lib \<Rightarrow> time \<Rightarrow> digest set \<Rightarrow> digest \<Rightarrow> layout_index \<times> bool \<Rightarrow> layout_index \<times> bool" where
  "gc_clean_step L rnow blobExists d = (\<lambda>(li, chg).
     if d \<in> blobExists then (li, chg)
     else (rm_desc L rnow (zero_descriptor\<lparr>d_digest := d\<rparr>) li, True))"

text \<open>
  \<open>repoGarbageCollect\<close>: \<open>now\<close> is \<open>time.Now()\<close> and \<open>rnow\<close> is \<open>reproducible.TimeNow()\<close>.
\<close>

definition repoGarbageCollect ::
    "lib \<Rightarrow> 's gc_ops \<Rightarrow> config_gc \<Rightarrow> time \<Rightarrow> time \<Rightarrow> layout_index \<Rightarrow> 's \<Rightarrow>
     ((layout_index \<times> bool) res \<times> 's) option" where
  "repoGarbageCollect L G g now rnow li s =
     (case gc_build_all L G g now (i_manifests li) s of (gb, s1) \<Rightarrow>
      case gc_mark L G (gb_subjects gb) (rev (gb_manifests gb)) {} (gb_inIndex gb) s1 of
        None \<Rightarrow> None
      | Some (seen, inIndex, s2) \<Rightarrow>
        (case go_list G s2 of
           (Inl e, s3) \<Rightarrow> Some (Inl e, s3)
         | (Inr dl, s3) \<Rightarrow>
           (case fold (gc_sweep_step L G g now rnow seen inIndex) dl (li, False, s3) of
              (li1, chg1, s4) \<Rightarrow>
                (case fold (gc_clean_step L rnow (set dl)) (map_order L inIndex) (li1, chg1) of
                   (li2, chg2) \<Rightarrow> Some (Inr (li2, chg2), s4)))))"

text \<open>\<open>referrerListDedup\<close>: the loop keeps the entries before \<open>i\<close> and replaces a repeated one by the last.\<close>

function dedup_loop :: "digest set \<Rightarrow> nat \<Rightarrow> descriptor list \<Rightarrow> descriptor list" where
  "dedup_loop seen i rl =
     (if i < length rl then
        if d_digest (rl ! i) \<in> seen then dedup_loop seen i (butlast (rl[i := last rl]))
        else dedup_loop (insert (d_digest (rl ! i)) seen) (Suc i) rl
      else rl)"
  by pat_completeness auto
termination
  by (relation "measure (\<lambda>(_, i, rl). length rl - i)") auto

declare dedup_loop.simps [simp del]

definition referrerListDedup :: "descriptor list \<Rightarrow> descriptor list" where
  "referrerListDedup rl = dedup_loop {} 0 rl"

definition layoutVerify :: "lib \<Rightarrow> bytes \<Rightarrow> bool" where
  "layoutVerify L b \<longleftrightarrow> json_layout L b = Some ''1.0.0''"


section \<open>The walk over the contents\<close>

text \<open>The effect of the walk on one descriptor, when \<open>cont\<close> is what the blobs read as.\<close>

definition visit ::
    "lib \<Rightarrow> (digest, descriptor) fmap \<Rightarrow> (digest \<Rightarrow> reader option) \<Rightarrow> descriptor \<Rightarrow> digest set \<Rightarrow>
     descriptor list \<times> digest set" where
  "visit L subjects cont d seen =
     (if d_digest d \<in> seen \<or> cont (d_digest d) = None then ([], seen)
      else (let seen1 = insert (d_digest d) seen; br = the (cont (d_digest d)) in
        if mediaTypeIndex (d_mediaType d) then
          (case br of
             Inl _ \<Rightarrow> ([], seen1)
           | Inr b \<Rightarrow>
             (case dec_index L b of
                None \<Rightarrow> ([], seen1)
              | Some man \<Rightarrow> (gc_referrer subjects d @ rev (i_manifests man), seen1)))
        else if mediaTypeImage (d_mediaType d) then
          (case br of
             Inl _ \<Rightarrow> ([], seen1)
           | Inr b \<Rightarrow>
             (case dec_manifest L b of
                None \<Rightarrow> ([], seen1)
              | Some man \<Rightarrow>
                (gc_referrer subjects d,
                 insert (d_digest (m_config man)) (d_digest ` set (m_layers man)) \<union> seen1)))
        else (gc_referrer subjects d, seen1)))"

text \<open>
  The walk ends: a visit that pushes something marks a readable digest that was not marked, and
  there are finitely many of those.
\<close>

definition unmarked :: "(digest \<Rightarrow> reader option) \<Rightarrow> digest set \<Rightarrow> digest set" where
  "unmarked cont seen = dom cont - seen"

lemma visit_progress:
  assumes "finite (dom cont)" and "visit L subjects cont d seen = (push, seen1)"
  shows "(push = [] \<and> seen1 = seen) \<or> card (unmarked cont seen1) < card (unmarked cont seen)"
proof (cases "d_digest d \<in> seen \<or> cont (d_digest d) = None")
  case True
  then show ?thesis using assms(2) by (simp add: visit_def)
next
  case False
  have "insert (d_digest d) seen \<subseteq> seen1"
    using assms(2) False by (auto simp: visit_def Let_def split: if_splits sum.splits option.splits)
  then have "unmarked cont seen1 \<subset> unmarked cont seen"
    using False by (auto simp: unmarked_def)
  moreover have "finite (unmarked cont seen)" using assms(1) by (simp add: unmarked_def)
  ultimately show ?thesis by (simp add: psubset_card_mono)
qed

lemma mark_induct [consumes 1, case_names empty visit]:
  assumes "finite (dom cont)"
    and empty: "\<And>seen. P [] seen"
    and step: "\<And>d rest seen push seen1. visit L subjects cont d seen = (push, seen1) \<Longrightarrow>
                 P (push @ rest) seen1 \<Longrightarrow> P (d # rest) seen"
  shows "P stack seen"
proof (induction "card (unmarked cont seen)" arbitrary: stack seen rule: less_induct)
  case less
  show ?case
  proof (induction stack)
    case (Cons d rest)
    obtain push seen1 where v: "visit L subjects cont d seen = (push, seen1)" by force
    show ?case
    proof (rule step [OF v])
      show "P (push @ rest) seen1"
        using visit_progress [OF assms(1) v] less Cons.IH by auto
    qed
  qed (rule empty)
qed

text \<open>
  What the roots need: the descriptors reachable from them.  The roots are coherent when no digest
  is reached with two media types, and no digest of a reachable manifest is also listed as the
  config or a layer of a reachable image.
\<close>

inductive needed ::
    "lib \<Rightarrow> (digest, descriptor) fmap \<Rightarrow> (digest \<Rightarrow> reader option) \<Rightarrow> descriptor set \<Rightarrow> descriptor \<Rightarrow> bool"
  for L subjects cont roots where
  needed_root: "d \<in> roots \<Longrightarrow> needed L subjects cont roots d"
| needed_succ: "needed L subjects cont roots d \<Longrightarrow> c \<in> set (fst (visit L subjects cont d {})) \<Longrightarrow>
    needed L subjects cont roots c"

abbreviation marks :: "lib \<Rightarrow> (digest \<Rightarrow> reader option) \<Rightarrow> descriptor \<Rightarrow> digest set" where
  "marks L cont d \<equiv> snd (visit L fmempty cont d {})"

definition coherent ::
    "lib \<Rightarrow> (digest, descriptor) fmap \<Rightarrow> (digest \<Rightarrow> reader option) \<Rightarrow> descriptor set \<Rightarrow> bool" where
  "coherent L subjects cont roots \<longleftrightarrow>
     (\<forall>d d'. needed L subjects cont roots d \<longrightarrow> needed L subjects cont roots d' \<longrightarrow>
        d_digest d' \<in> marks L cont d \<longrightarrow> d_digest d' = d_digest d \<and> d_mediaType d' = d_mediaType d)"

lemma visit_marks: "snd (visit L subjects cont d {}) = marks L cont d"
  by (auto simp: visit_def Let_def split: sum.splits option.splits)

lemma visit_fresh:
  assumes "d_digest d \<notin> seen"
  shows "visit L subjects cont d seen = (fst (visit L subjects cont d {}), marks L cont d \<union> seen)"
  using assms by (auto simp: visit_def Let_def split: sum.splits option.splits)

lemma visit_unreadable: "cont (d_digest d) = None \<Longrightarrow> visit L subjects cont d seen = ([], seen)"
  by (simp add: visit_def)

lemma visit_seen: "d_digest d \<in> seen \<Longrightarrow> visit L subjects cont d seen = ([], seen)"
  by (simp add: visit_def)

lemma visit_same:
  "d_digest d = d_digest d' \<Longrightarrow> d_mediaType d = d_mediaType d' \<Longrightarrow>
   visit L subjects cont d seen = visit L subjects cont d' seen"
  unfolding visit_def gc_referrer_def by (elim subst) (rule refl)

text \<open>The invariant of the walk: \<open>V\<close> are the descriptors taken from the stack so far.\<close>

definition walk_inv ::
    "lib \<Rightarrow> (digest, descriptor) fmap \<Rightarrow> (digest \<Rightarrow> reader option) \<Rightarrow> descriptor set \<Rightarrow>
     descriptor set \<Rightarrow> descriptor list \<Rightarrow> digest set \<Rightarrow> bool" where
  "walk_inv L subjects cont roots V stack seen \<longleftrightarrow>
     (\<forall>v\<in>V \<union> set stack. needed L subjects cont roots v) \<and>
     (\<forall>v\<in>V. marks L cont v \<subseteq> seen \<and> set (fst (visit L subjects cont v {})) \<subseteq> V \<union> set stack) \<and>
     (\<forall>x\<in>seen. \<exists>v\<in>V. x \<in> marks L cont v)"

lemma walk_inv_step:
  assumes coh: "coherent L subjects cont roots"
    and inv: "walk_inv L subjects cont roots V (d # rest) seen"
    and v: "visit L subjects cont d seen = (push, seen1)"
  shows "walk_inv L subjects cont roots (insert d V) (push @ rest) seen1"
proof -
  have nd: "needed L subjects cont roots d" using inv by (simp add: walk_inv_def)
  consider (seen) "d_digest d \<in> seen" | (gone) "d_digest d \<notin> seen" "cont (d_digest d) = None"
    | (fresh) "d_digest d \<notin> seen" "cont (d_digest d) \<noteq> None" by blast
  then show ?thesis
  proof cases
    case seen
    then obtain w where w: "w \<in> V" "d_digest d \<in> marks L cont w" using inv by (auto simp: walk_inv_def)
    have "needed L subjects cont roots w" using inv w(1) by (simp add: walk_inv_def)
    then have "d_digest d = d_digest w \<and> d_mediaType d = d_mediaType w"
      using coh nd w(2) unfolding coherent_def by blast
    then have "visit L subjects cont d {} = visit L subjects cont w {}" "marks L cont d = marks L cont w"
      using visit_same by metis+
    moreover have "push = []" "seen1 = seen" using v seen by (simp_all add: visit_seen)
    moreover have "marks L cont w \<subseteq> seen" "set (fst (visit L subjects cont w {})) \<subseteq> insert d V \<union> set rest"
      using inv w(1) by (auto simp: walk_inv_def)
    ultimately show ?thesis using inv w by (auto simp: walk_inv_def)
  next
    case gone
    then have "push = []" "seen1 = seen" using v by (simp_all add: visit_unreadable)
    then show ?thesis using inv gone by (auto simp: walk_inv_def visit_unreadable)
  next
    case fresh
    then have p: "push = fst (visit L subjects cont d {})" "seen1 = marks L cont d \<union> seen"
      using v visit_fresh [OF fresh(1), of L subjects cont] by simp_all
    have "\<forall>c\<in>set push. needed L subjects cont roots c"
      using needed_succ [OF nd] p(1) by blast
    then show ?thesis using inv unfolding walk_inv_def p by auto
  qed
qed

lemma walk_inv_done:
  assumes "walk_inv L subjects cont roots V [] seen" and "roots \<subseteq> V"
    and "needed L subjects cont roots d"
  shows "marks L cont d \<subseteq> seen"
proof -
  have "d \<in> V" using assms(3,1,2)
    by (induction rule: needed.induct) (auto simp: walk_inv_def)
  then show ?thesis using assms(1) by (auto simp: walk_inv_def)
qed

text \<open>With untagged entries kept and no subjects in the index, the selection of the roots calls no operation.\<close>

lemma build_quiet:
  assumes "\<not> deref (gc_untagged g)" and "\<forall>d \<in> set ms. subject_of d = []"
  obtains ix where "gc_build_all L G g now ms s = (\<lparr>gb_manifests = ms, gb_subjects = fmempty, gb_inIndex = ix\<rparr>, s)"
    "set ix = d_digest ` set ms"
proof -
  have "\<exists>ix'. fold (gc_build_step L G g now) ms (\<lparr>gb_manifests = ds, gb_subjects = fmempty, gb_inIndex = ix\<rparr>, s) =
      (\<lparr>gb_manifests = ds @ ms, gb_subjects = fmempty, gb_inIndex = ix'\<rparr>, s) \<and> set ix' = set ix \<union> d_digest ` set ms" for ds ix
    using assms
  proof (induction ms arbitrary: ds ix)
    case (Cons d ms)
    then show ?case using Cons.IH [of "ds @ [d]" "List.insert (d_digest d) ix"]
      by (simp add: gc_build_step_def gc_keep_def add_root_def)
  qed simp
  from this [of "[]" "[]"] show ?thesis using that by (auto simp: gc_build_all_def)
qed

lemma build_inIndex:
  "gc_build_all L G g now ms s = (gb, s') \<Longrightarrow> set (gb_inIndex gb) = d_digest ` set ms"
proof -
  have "\<forall>gb s'. fold (gc_build_step L G g now) ms (\<lparr>gb_manifests = [], gb_subjects = fmempty, gb_inIndex = []\<rparr>, s) = (gb, s') \<longrightarrow>
      set (gb_inIndex gb) = d_digest ` set ms"
  proof (induction ms rule: rev_induct)
    case (snoc d ms)
    obtain gb1 s1 where r1: "fold (gc_build_step L G g now) ms (\<lparr>gb_manifests = [], gb_subjects = fmempty, gb_inIndex = []\<rparr>, s) = (gb1, s1)"
      by force
    have "gc_build_step L G g now d (gb1, s1) = (gb', s') \<Longrightarrow> gb_inIndex gb' = List.insert (d_digest d) (gb_inIndex gb1)" for gb' s'
      by (auto simp: gc_build_step_def Let_def add_root_def add_subject_def split: if_splits prod.splits sum.splits)
    then show ?case using snoc.IH r1 by auto
  qed simp
  then show "gc_build_all L G g now ms s = (gb, s') \<Longrightarrow> set (gb_inIndex gb) = d_digest ` set ms"
    by (simp add: gc_build_all_def)
qed

lemma restrict_map_UNIV [simp]: "m |` UNIV = m"
  by (simp add: restrict_map_def)

section \<open>The contract of a repository under collection\<close>

text \<open>
  \<open>content s d\<close> is the reader that opening blob \<open>d\<close> gives, if it opens.  Reading, statting and
  listing change no content; a list names every blob that opens; a delete touches one digest only.
\<close>

locale gc_repo =
  fixes G :: "'s gc_ops"
    and content :: "'s \<Rightarrow> digest \<Rightarrow> reader option"
    and ok :: "'s \<Rightarrow> bool"
  assumes get_content: "ok s \<Longrightarrow> go_get G d s = (r, s') \<Longrightarrow>
            ok s' \<and> content s' = content s \<and> content s d = (case r of Inr rd \<Rightarrow> Some rd | Inl _ \<Rightarrow> None)"
    and meta_content: "ok s \<Longrightarrow> go_meta G d s = (m, s') \<Longrightarrow> ok s' \<and> content s' = content s"
    and list_content: "ok s \<Longrightarrow> go_list G s = (l, s') \<Longrightarrow>
            ok s' \<and> content s' = content s \<and> (\<forall>dl. l = Inr dl \<longrightarrow> dom (content s) \<subseteq> set dl)"
    and delete_content: "ok s \<Longrightarrow> go_delete G d s = (u, s') \<Longrightarrow>
            ok s' \<and> (\<forall>d'. d' \<noteq> d \<longrightarrow> content s' d' = content s d') \<and>
            content s' d \<in> {None, content s d} \<and> (u = Inr () \<longrightarrow> content s' d = None)"
    and finite_content: "ok s \<Longrightarrow> finite (dom (content s))"
begin

lemma keep_content: "ok s \<Longrightarrow> gc_keep G g now d s = (k, s') \<Longrightarrow> ok s' \<and> content s' = content s"
  using meta_content by (fastforce simp: gc_keep_def split: if_splits prod.splits sum.splits)

lemma keep_tagged: "tag_of d \<noteq> [] \<Longrightarrow> gc_keep G g now d s = (True, s)"
  by (simp add: gc_keep_def)

lemma gc_visit_visit:
  assumes "ok s"
  obtains s1 where "gc_visit L G subjects d seen s =
      (fst (visit L subjects (content s) d seen), snd (visit L subjects (content s) d seen), s1)"
    "ok s1" "content s1 = content s"
proof (cases "d_digest d \<in> seen")
  case True
  then show ?thesis using that assms by (simp add: gc_visit_def visit_def)
next
  case False
  obtain r s1 where r: "go_get G (d_digest d) s = (r, s1)" by force
  note g = get_content [OF assms r]
  show ?thesis
  proof (rule that [of s1])
    show "gc_visit L G subjects d seen s =
      (fst (visit L subjects (content s) d seen), snd (visit L subjects (content s) d seen), s1)"
      using False r g by (auto simp: gc_visit_def visit_def Let_def split: sum.splits option.splits)
  qed (use g in simp_all)
qed

lemma gc_mark_Some:
  assumes "ok s"
  obtains seen' inIndex' s' where "gc_mark L G subjects stack seen inIndex s = Some (seen', inIndex', s')"
    "ok s'" "content s' = content s" "set inIndex \<subseteq> set inIndex'"
proof -
  have "\<forall>s inIndex. ok s \<longrightarrow> content s = cont \<longrightarrow>
      (\<exists>seen' inIndex' s'. gc_mark L G subjects stack seen inIndex s = Some (seen', inIndex', s') \<and>
         ok s' \<and> content s' = cont \<and> set inIndex \<subseteq> set inIndex')" if "finite (dom cont)" for cont
    using that
  proof (induction stack seen taking: L subjects rule: mark_induct)
    case (empty seen)
    then show ?case by (simp add: gc_mark.simps)
  next
    case (visit d rest seen push seen1)
    show ?case
    proof (intro allI impI)
      fix s inIndex assume s: "ok s" "content s = cont"
      obtain s1 where s1: "gc_visit L G subjects d seen s = (push, seen1, s1)" "ok s1" "content s1 = cont"
        using gc_visit_visit [OF s(1), of L subjects d seen] visit(1) s(2) by auto
      obtain seen' inIndex' s' where
        "gc_mark L G subjects (push @ rest) seen1 (List.insert (d_digest d) inIndex) s1 = Some (seen', inIndex', s')"
        "ok s'" "content s' = cont" "set (List.insert (d_digest d) inIndex) \<subseteq> set inIndex'"
        using visit(2) s1(2,3) by blast
      then show "\<exists>seen' inIndex' s'. gc_mark L G subjects (d # rest) seen inIndex s = Some (seen', inIndex', s') \<and>
         ok s' \<and> content s' = cont \<and> set inIndex \<subseteq> set inIndex'"
        by (subst gc_mark.simps) (auto simp: s1(1))
    qed
  qed
  from this [OF finite_content [OF assms]] show ?thesis using that assms by blast
qed

text \<open>The walk marks what the roots need.\<close>

lemma gc_mark_inv:
  assumes "ok s" and coh: "coherent L subjects (content s) roots"
    and "walk_inv L subjects (content s) roots V stack seen"
    and "gc_mark L G subjects stack seen inIndex s = Some (seen', inIndex', s')"
  shows "\<exists>V'. V \<union> set stack \<subseteq> V' \<and> walk_inv L subjects (content s) roots V' [] seen'"
proof -
  have "\<forall>s V inIndex. ok s \<longrightarrow> content s = cont \<longrightarrow> walk_inv L subjects cont roots V stack seen \<longrightarrow>
      gc_mark L G subjects stack seen inIndex s = Some (seen', inIndex', s') \<longrightarrow>
      (\<exists>V'. V \<union> set stack \<subseteq> V' \<and> walk_inv L subjects cont roots V' [] seen')"
    if fin: "finite (dom cont)" and co: "coherent L subjects cont roots" for cont
    using fin
  proof (induction stack seen taking: L subjects rule: mark_induct)
    case (empty seen)
    then show ?case by (auto simp: gc_mark.simps)
  next
    case (visit d rest seen push seen1)
    show ?case
    proof (intro allI impI)
      fix s V inIndex
      assume s: "ok s" "content s = cont" and inv: "walk_inv L subjects cont roots V (d # rest) seen"
        and m: "gc_mark L G subjects (d # rest) seen inIndex s = Some (seen', inIndex', s')"
      obtain s1 where s1: "gc_visit L G subjects d seen s = (push, seen1, s1)" "ok s1" "content s1 = cont"
        using gc_visit_visit [OF s(1), of L subjects d seen] visit(1) s(2) by auto
      have run: "gc_mark L G subjects (push @ rest) seen1 (List.insert (d_digest d) inIndex) s1 =
          Some (seen', inIndex', s')"
        using m by (subst (asm) gc_mark.simps) (simp add: s1(1))
      note IH = visit(2) [THEN spec, THEN spec, THEN spec, THEN mp, THEN mp, THEN mp, THEN mp,
          OF s1(2) s1(3) walk_inv_step [OF co inv visit(1)] run]
      then obtain V' where "insert d V \<union> set (push @ rest) \<subseteq> V'" "walk_inv L subjects cont roots V' [] seen'"
        by (elim exE conjE)
      then show "\<exists>V'. V \<union> set (d # rest) \<subseteq> V' \<and> walk_inv L subjects cont roots V' [] seen'"
        by auto
    qed
  qed
  from this [OF finite_content [OF assms(1)] coh] show ?thesis using assms by blast
qed

lemma gc_mark_needed:
  assumes "ok s" and "coherent L subjects (content s) (set stack)"
    and "gc_mark L G subjects stack {} inIndex s = Some (seen', inIndex', s')"
    and "needed L subjects (content s) (set stack) d"
  shows "marks L (content s) d \<subseteq> seen'"
proof -
  have "walk_inv L subjects (content s) (set stack) {} stack {}"
    by (auto simp: walk_inv_def needed_root)
  from gc_mark_inv [OF assms(1,2) this assms(3)] walk_inv_done [OF _ _ assms(4)] show ?thesis by auto
qed

text \<open>
  What the walk marks, also when the roots are not coherent: with the digests \<open>B\<close> marked from the start,
  no more than what is reached from the stack in the contents without them.
\<close>

lemma gc_mark_bound:
  assumes "ok s" and "gc_mark L G subjects stack seen inIndex s = Some (seen', inIndex', s')"
    and "B \<subseteq> seen" and "\<forall>v \<in> set stack. needed L subjects (content s |` (- B)) roots v"
  shows "seen \<subseteq> seen' \<and>
    (\<forall>x \<in> seen'. x \<in> seen \<or> (\<exists>v. needed L subjects (content s |` (- B)) roots v \<and> x \<in> marks L (content s |` (- B)) v))"
proof -
  have "\<forall>s inIndex. ok s \<longrightarrow> content s = cont \<longrightarrow> gc_mark L G subjects stack seen inIndex s = Some (seen', inIndex', s') \<longrightarrow>
      B \<subseteq> seen \<longrightarrow> (\<forall>v \<in> set stack. needed L subjects (cont |` (- B)) roots v) \<longrightarrow>
      seen \<subseteq> seen' \<and> (\<forall>x \<in> seen'. x \<in> seen \<or> (\<exists>v. needed L subjects (cont |` (- B)) roots v \<and> x \<in> marks L (cont |` (- B)) v))"
    if "finite (dom cont)" for cont
    using that
  proof (induction stack seen taking: L subjects rule: mark_induct)
    case (empty seen)
    then show ?case by (auto simp: gc_mark.simps)
  next
    case (visit d rest seen push seen1)
    let ?c = "cont |` (- B)"
    show ?case
    proof (intro allI impI)
      fix s inIndex
      assume s: "ok s" "content s = cont" and B: "B \<subseteq> seen"
        and m: "gc_mark L G subjects (d # rest) seen inIndex s = Some (seen', inIndex', s')"
        and st: "\<forall>v \<in> set (d # rest). needed L subjects ?c roots v"
      obtain s1 where s1: "gc_visit L G subjects d seen s = (push, seen1, s1)" "ok s1" "content s1 = cont"
        using gc_visit_visit [OF s(1), of L subjects d seen] visit(1) s(2) by auto
      have run: "gc_mark L G subjects (push @ rest) seen1 (List.insert (d_digest d) inIndex) s1 = Some (seen', inIndex', s')"
        using m by (subst (asm) gc_mark.simps) (simp add: s1(1))
      have v: "set push \<subseteq> set (fst (visit L subjects ?c d {})) \<and> seen \<subseteq> seen1 \<and> seen1 \<subseteq> seen \<union> marks L ?c d"
      proof (cases "d_digest d \<in> seen")
        case True
        then show ?thesis using visit(1) by (simp add: visit_seen)
      next
        case False
        then have "d_digest d \<in> - B" using B by blast
        then have "?c (d_digest d) = cont (d_digest d)" by simp
        then have "visit L subjects ?c d {} = visit L subjects cont d {}" by (simp add: visit_def)
        then show ?thesis using visit_fresh [OF False, of L subjects cont] visit(1) visit_marks [of L subjects ?c d] visit_marks [of L subjects cont d] by auto
      qed
      then have "\<forall>v \<in> set (push @ rest). needed L subjects ?c roots v" using st by (auto intro: needed_succ)
      moreover have "B \<subseteq> seen1" using B v by blast
      ultimately have IH: "seen1 \<subseteq> seen' \<and> (\<forall>x \<in> seen'. x \<in> seen1 \<or> (\<exists>v. needed L subjects ?c roots v \<and> x \<in> marks L ?c v))"
        using visit(2) [THEN spec, THEN spec, THEN mp, THEN mp, THEN mp, THEN mp, THEN mp, OF s1(2) s1(3) run] by blast
      have "needed L subjects ?c roots d" using st by simp
      then show "seen \<subseteq> seen' \<and> (\<forall>x \<in> seen'. x \<in> seen \<or> (\<exists>v. needed L subjects ?c roots v \<and> x \<in> marks L ?c v))"
        using IH v by blast
    qed
  qed
  from this [OF finite_content [OF assms(1)]] show ?thesis using assms by blast
qed


text \<open>
  What the first root lists is marked before anything else is walked: a manifest among it is not walked
  any more, and what only that manifest leads to is not marked.
\<close>

lemma gc_mark_hidden:
  assumes "ok s" and "gc_mark L G subjects (im # rest) {} inIndex s = Some (seen, inIndex', s')"
    and "z \<in> marks L (content s) im" and "z \<noteq> d_digest im" and "set (im # rest) \<subseteq> roots"
  shows "z \<in> seen"
    and "x \<in> seen \<Longrightarrow> \<exists>v. needed L subjects ((content s)(z := None)) roots v \<and> x \<in> marks L ((content s)(z := None)) v"
proof -
  let ?c = "(content s)(z := None)"
  have c: "?c = content s |` (- {z})" by (auto simp: restrict_map_def)
  obtain s1 where s1: "gc_visit L G subjects im {} s =
      (fst (visit L subjects (content s) im {}), snd (visit L subjects (content s) im {}), s1)"
    "ok s1" "content s1 = content s"
    using gc_visit_visit [OF assms(1)] by blast
  have same: "visit L subjects ?c im {} = visit L subjects (content s) im {}"
    using assms(4) by (simp add: visit_def)
  have m: "snd (visit L subjects (content s) im {}) = marks L (content s) im"
    using visit_marks [of L subjects "content s" im] by simp
  have m': "marks L ?c im = marks L (content s) im"
    using visit_marks [of L subjects ?c im] visit_marks [of L subjects "content s" im] same by simp
  have run: "gc_mark L G subjects (fst (visit L subjects ?c im {}) @ rest) (marks L (content s) im)
      (List.insert (d_digest im) inIndex) s1 = Some (seen, inIndex', s')"
    using assms(2) by (subst (asm) gc_mark.simps) (simp add: s1(1) same m)
  have root: "needed L subjects ?c roots im" using assms(5) by (simp add: needed_root)
  then have st: "\<forall>v \<in> set (fst (visit L subjects ?c im {}) @ rest). needed L subjects ?c roots v"
    using assms(5) by (auto intro: needed_succ needed_root)
  have z: "{z} \<subseteq> marks L (content s) im" using assms(3) by simp
  have K: "marks L (content s) im \<subseteq> seen \<and>
      (\<forall>x \<in> seen. x \<in> marks L (content s) im \<or> (\<exists>v. needed L subjects ?c roots v \<and> x \<in> marks L ?c v))"
    using gc_mark_bound [OF s1(2) run z, of roots, unfolded s1(3) c [symmetric], OF st] .
  then show "z \<in> seen" using assms(3) by blast
  show "\<exists>v. needed L subjects ?c roots v \<and> x \<in> marks L ?c v" if "x \<in> seen"
    using K that root m' by blast
qed

text \<open>The selection of the roots.\<close>

lemma build_step:
  assumes "ok s" and "gc_build_step L G g now d (gb, s) = (gb', s')"
  shows "ok s' \<and> content s' = content s"
    and "gb_inIndex gb' = List.insert (d_digest d) (gb_inIndex gb)"
    and "set (gb_manifests gb) \<subseteq> set (gb_manifests gb') \<and> set (gb_manifests gb') \<subseteq> insert d (set (gb_manifests gb))"
    and "subject_of d = [] \<Longrightarrow> tag_of d \<noteq> [] \<or> \<not> deref (gc_untagged g) \<Longrightarrow> d \<in> set (gb_manifests gb')"
proof -
  obtain k s1 where k: "gc_keep G g now d s = (k, s1)" by force
  note c1 = keep_content [OF assms(1) k]
  let ?dig = "case dig_parse L (subject_of d) of Some x \<Rightarrow> x | None \<Rightarrow> []"
  obtain r s2 where r: "go_meta G ?dig s1 = (r, s2)" by force
  note c2 = meta_content [OF conjunct1 [OF c1] r]
  obtain r' s3 where r': "go_meta G (d_digest d) s2 = (r', s3)" by force
  note c3 = meta_content [OF conjunct1 [OF c2] r']
  note step = assms(2) [unfolded gc_build_step_def Let_def split_conv k r r']
  show "ok s' \<and> content s' = content s"
    using step c1 c2 c3 r r' by (auto split: if_splits sum.splits)
  show "gb_inIndex gb' = List.insert (d_digest d) (gb_inIndex gb)"
    using step r r' by (auto simp: add_root_def add_subject_def split: if_splits sum.splits)
  show "set (gb_manifests gb) \<subseteq> set (gb_manifests gb') \<and> set (gb_manifests gb') \<subseteq> insert d (set (gb_manifests gb))"
    using step r r' by (auto simp: add_root_def add_subject_def split: if_splits sum.splits)
  show "d \<in> set (gb_manifests gb')" if "subject_of d = []" "tag_of d \<noteq> [] \<or> \<not> deref (gc_untagged g)"
    using step that k by (auto simp: add_root_def gc_keep_def split: if_splits)
qed

lemma build_all:
  assumes "ok s" and "gc_build_all L G g now ms s = (gb, s')"
  shows "ok s' \<and> content s' = content s \<and> set (gb_inIndex gb) = d_digest ` set ms \<and>
         set (gb_manifests gb) \<subseteq> set ms \<and>
         (\<forall>d\<in>set ms. subject_of d = [] \<longrightarrow> tag_of d \<noteq> [] \<or> \<not> deref (gc_untagged g) \<longrightarrow> d \<in> set (gb_manifests gb))"
proof -
  let ?init = "\<lparr>gb_manifests = [], gb_subjects = fmempty, gb_inIndex = []\<rparr>"
  have "\<forall>gb s'. fold (gc_build_step L G g now) ms (?init, s) = (gb, s') \<longrightarrow>
      ok s' \<and> content s' = content s \<and> set (gb_inIndex gb) = d_digest ` set ms \<and>
      set (gb_manifests gb) \<subseteq> set ms \<and>
      (\<forall>d\<in>set ms. subject_of d = [] \<longrightarrow> tag_of d \<noteq> [] \<or> \<not> deref (gc_untagged g) \<longrightarrow> d \<in> set (gb_manifests gb))"
  proof (induction ms rule: rev_induct)
    case Nil
    then show ?case using assms(1) by simp
  next
    case (snoc d ms)
    show ?case
    proof (intro allI impI)
      fix gb' s'
      assume run: "fold (gc_build_step L G g now) (ms @ [d]) (?init, s) = (gb', s')"
      obtain gb1 s1 where r1: "fold (gc_build_step L G g now) ms (?init, s) = (gb1, s1)" by force
      then have st: "gc_build_step L G g now d (gb1, s1) = (gb', s')" using run by simp
      note IH = snoc.IH [rule_format, OF r1]
      note S = build_step [OF conjunct1 [OF IH] st]
      show "ok s' \<and> content s' = content s \<and> set (gb_inIndex gb') = d_digest ` set (ms @ [d]) \<and>
          set (gb_manifests gb') \<subseteq> set (ms @ [d]) \<and>
          (\<forall>d\<in>set (ms @ [d]). subject_of d = [] \<longrightarrow> tag_of d \<noteq> [] \<or> \<not> deref (gc_untagged g) \<longrightarrow>
             d \<in> set (gb_manifests gb'))"
        using IH S by auto
    qed
  qed
  then show ?thesis using assms(2) by (simp add: gc_build_all_def)
qed

text \<open>The sweep over the blob list.\<close>

lemma rm_digest_manifests:
  "i_manifests (rm_desc L rnow (zero_descriptor\<lparr>d_digest := x\<rparr>) li) =
     delete_func (\<lambda>c. d_digest c = x) (i_manifests li)"
  by (simp add: rm_desc_untagged zero_descriptor_def annotationVal_def)

lemma sweep_step:
  assumes "ok s" and "gc_sweep_step L G g now rnow seen inIndex x (li, chg, s) = (li', chg', s')"
  shows "ok s' \<and> (\<forall>y. y \<noteq> x \<or> y \<in> seen \<longrightarrow> content s' y = content s y) \<and> content s' x \<in> {None, content s x}"
    and "i_manifests li' = i_manifests li \<or>
         x \<notin> seen \<and> i_manifests li' = delete_func (\<lambda>c. d_digest c = x) (i_manifests li)"
    and "x \<notin> seen \<Longrightarrow> x \<in> set inIndex \<Longrightarrow> dig_parse L x = Some x \<Longrightarrow> \<not> refTagRE x \<Longrightarrow>
         \<forall>c\<in>set (i_manifests li'). d_digest c \<noteq> x"
proof -
  obtain m s1 where m: "go_meta G x s = (m, s1)" by force
  note c1 = meta_content [OF assms(1) m]
  obtain u s2 where u: "go_delete G x s1 = (u, s2)" by force
  note c2 = delete_content [OF conjunct1 [OF c1] u]
  note step = assms(2) [unfolded gc_sweep_step_def split_conv m u]
  show "ok s' \<and> (\<forall>y. y \<noteq> x \<or> y \<in> seen \<longrightarrow> content s' y = content s y) \<and> content s' x \<in> {None, content s x}"
    using step assms(1) c1 c2 u by (auto split: if_splits sum.splits)
  show "i_manifests li' = i_manifests li \<or>
         x \<notin> seen \<and> i_manifests li' = delete_func (\<lambda>c. d_digest c = x) (i_manifests li)"
    using step u by (auto simp: rm_digest_manifests split: if_splits sum.splits)
  show "\<forall>c\<in>set (i_manifests li'). d_digest c \<noteq> x"
    if "x \<notin> seen" "x \<in> set inIndex" "dig_parse L x = Some x" "\<not> refTagRE x"
  proof (cases "get_desc L li x")
    case (Inl e)
    have "\<forall>c\<in>set (i_manifests li). d_digest c \<noteq> x"
      using Inl that(3,4) by (auto simp: get_desc_def index_func_None split: option.splits if_splits)
    then show ?thesis using step that Inl u by (auto split: if_splits sum.splits)
  next
    case (Inr d)
    then show ?thesis using step that u by (auto simp: rm_digest_manifests split: if_splits sum.splits)
  qed
qed

lemma sweep_all:
  assumes "ok s" and "fold (gc_sweep_step L G g now rnow seen inIndex) dl (li, chg, s) = (li', chg', s')"
  shows "ok s' \<and> (\<forall>y. y \<in> seen \<longrightarrow> content s' y = content s y) \<and> (\<forall>y. content s' y \<in> {None, content s y})"
    and "set (i_manifests li') \<subseteq> set (i_manifests li) \<and>
         (\<forall>c\<in>set (i_manifests li). d_digest c \<in> seen \<longrightarrow> c \<in> set (i_manifests li'))"
    and "x \<in> set dl \<Longrightarrow> x \<notin> seen \<Longrightarrow> x \<in> set inIndex \<Longrightarrow> dig_parse L x = Some x \<Longrightarrow> \<not> refTagRE x \<Longrightarrow>
         \<forall>c\<in>set (i_manifests li'). d_digest c \<noteq> x"
proof -
  define good where "good li1 s1 xs \<longleftrightarrow> ok s1 \<and> (\<forall>y. y \<in> seen \<longrightarrow> content s1 y = content s y) \<and>
      (\<forall>y. content s1 y \<in> {None, content s y}) \<and>
      set (i_manifests li1) \<subseteq> set (i_manifests li) \<and>
      (\<forall>c\<in>set (i_manifests li). d_digest c \<in> seen \<longrightarrow> c \<in> set (i_manifests li1)) \<and>
      (\<forall>x\<in>set xs. x \<notin> seen \<longrightarrow> x \<in> set inIndex \<longrightarrow> dig_parse L x = Some x \<longrightarrow> \<not> refTagRE x \<longrightarrow>
         (\<forall>c\<in>set (i_manifests li1). d_digest c \<noteq> x))" for li1 :: layout_index and s1 xs
  have "\<forall>li1 chg1 s1. fold (gc_sweep_step L G g now rnow seen inIndex) dl (li, chg, s) = (li1, chg1, s1) \<longrightarrow>
      good li1 s1 dl"
  proof (induction dl rule: rev_induct)
    case Nil
    then show ?case using assms(1) by (simp add: good_def)
  next
    case (snoc x xs)
    show ?case
    proof (intro allI impI)
      fix li2 chg2 s2
      assume run: "fold (gc_sweep_step L G g now rnow seen inIndex) (xs @ [x]) (li, chg, s) = (li2, chg2, s2)"
      obtain li1 chg1 s1 where r1: "fold (gc_sweep_step L G g now rnow seen inIndex) xs (li, chg, s) = (li1, chg1, s1)"
        using prod_cases3 by blast
      then have st: "gc_sweep_step L G g now rnow seen inIndex x (li1, chg1, s1) = (li2, chg2, s2)"
        using run by simp
      have IH: "good li1 s1 xs" using snoc.IH r1 by blast
      then have ok1: "ok s1" by (simp add: good_def)
      note S = sweep_step [OF ok1 st]
      have sub: "set (i_manifests li2) \<subseteq> set (i_manifests li1)" using S(2) by auto
      have keep: "c \<in> set (i_manifests li2)" if "c \<in> set (i_manifests li1)" "d_digest c \<in> seen" for c
        using S(2) that by auto
      have dom: "content s2 y \<in> {None, content s y}" for y
        using S(1) IH by (cases "y = x") (auto simp: good_def)
      have same: "content s2 y = content s y" if "y \<in> seen" for y
        using S(1) IH that by (auto simp: good_def)
      have gone: "\<forall>c\<in>set (i_manifests li2). d_digest c \<noteq> y"
        if y: "y \<in> set (xs @ [x])" "y \<notin> seen" "y \<in> set inIndex" "dig_parse L y = Some y" "\<not> refTagRE y" for y
      proof (cases "y = x")
        case True
        then show ?thesis using S(3) y by simp
      next
        case False
        then have "\<forall>c\<in>set (i_manifests li1). d_digest c \<noteq> y" using IH y by (simp add: good_def)
        then show ?thesis using sub by blast
      qed
      have mem: "set (i_manifests li2) \<subseteq> set (i_manifests li)"
        "\<forall>c\<in>set (i_manifests li). d_digest c \<in> seen \<longrightarrow> c \<in> set (i_manifests li2)"
        using IH sub keep by (auto simp: good_def)
      show "good li2 s2 (xs @ [x])"
        unfolding good_def using S(1) same dom mem gone by blast
    qed
  qed
  then have G: "good li' s' dl" using assms(2) by blast
  show "ok s' \<and> (\<forall>y. y \<in> seen \<longrightarrow> content s' y = content s y) \<and> (\<forall>y. content s' y \<in> {None, content s y})"
    using G by (simp add: good_def)
  show "set (i_manifests li') \<subseteq> set (i_manifests li) \<and>
         (\<forall>c\<in>set (i_manifests li). d_digest c \<in> seen \<longrightarrow> c \<in> set (i_manifests li'))"
    using G by (simp add: good_def)
  show "\<forall>c\<in>set (i_manifests li'). d_digest c \<noteq> x"
    if "x \<in> set dl" "x \<notin> seen" "x \<in> set inIndex" "dig_parse L x = Some x" "\<not> refTagRE x"
    using G that by (simp add: good_def)
qed

end

text \<open>An index is reported as changed whenever an entry was removed.\<close>

lemma sweep_unchanged:
  "fold (gc_sweep_step L G g now rnow seen inIndex) dl (li, chg, s) = (li', False, s') \<Longrightarrow> li' = li \<and> \<not> chg"
proof (induction dl arbitrary: li chg s)
  case (Cons x dl)
  obtain li1 chg1 s1 where st: "gc_sweep_step L G g now rnow seen inIndex x (li, chg, s) = (li1, chg1, s1)"
    using prod_cases3 by blast
  then have "li' = li1 \<and> \<not> chg1" using Cons.prems Cons.IH [of li1 chg1 s1] by simp
  then show ?case using st by (auto simp: gc_sweep_step_def split: if_splits prod.splits sum.splits)
qed simp

lemma clean_unchanged:
  "fold (gc_clean_step L rnow ex) xs (li, chg) = (li', False) \<Longrightarrow> li' = li \<and> \<not> chg"
proof (induction xs arbitrary: li chg)
  case (Cons x xs)
  obtain li1 chg1 where st: "gc_clean_step L rnow ex x (li, chg) = (li1, chg1)" by force
  then have "li' = li1 \<and> \<not> chg1" using Cons.prems Cons.IH [of li1 chg1] by simp
  then show ?case using st by (auto simp: gc_clean_step_def split: if_splits)
qed simp

lemma gc_unchanged:
  assumes "repoGarbageCollect L G g now rnow li s = Some (Inr (li', False), s')"
  shows "li' = li"
  using assms unfolding repoGarbageCollect_def
  by (auto split: prod.splits option.splits sum.splits dest!: clean_unchanged sweep_unchanged)

lemma clean_all:
  "i_manifests (fst (fold (gc_clean_step L rnow ex) xs (li, chg))) =
     filter (\<lambda>c. d_digest c \<in> ex \<or> d_digest c \<notin> set xs) (i_manifests li)"
proof (induction xs arbitrary: li chg)
  case (Cons x xs)
  have "i_manifests (fst (gc_clean_step L rnow ex x (li, chg))) =
      filter (\<lambda>c. d_digest c \<in> ex \<or> d_digest c \<noteq> x) (i_manifests li)"
    by (auto simp: gc_clean_step_def rm_desc_untagged zero_descriptor_def annotationVal_def delete_func_def
        intro!: filter_cong [OF refl] filter_True [symmetric])
  moreover obtain li1 chg1 where "gc_clean_step L rnow ex x (li, chg) = (li1, chg1)" by force
  ultimately show ?case using Cons.IH [of li1 chg1] by (auto intro!: filter_cong)
qed simp

context gc_repo
begin

text \<open>A collection always ends, with an error of the listing or with a result.\<close>

lemma gc_ends:
  assumes "ok s"
  shows "\<exists>r s'. repoGarbageCollect L G g now rnow li s = Some (r, s') \<and> ok s'"
proof -
  obtain gb s1 where b: "gc_build_all L G g now (i_manifests li) s = (gb, s1)" by force
  note B = build_all [OF assms b]
  obtain seen inIndex s2 where m: "gc_mark L G (gb_subjects gb) (rev (gb_manifests gb)) {} (gb_inIndex gb) s1 =
      Some (seen, inIndex, s2)" "ok s2"
    using gc_mark_Some B by metis
  obtain l s3 where l: "go_list G s2 = (l, s3)" by force
  have ok3: "ok s3" using list_content [OF m(2) l] by simp
  show ?thesis
  proof (cases l)
    case (Inl e)
    then show ?thesis using b m l ok3 by (simp add: repoGarbageCollect_def)
  next
    case (Inr dl)
    obtain li1 chg1 s4 where sw: "fold (gc_sweep_step L G g now rnow seen inIndex) dl (li, False, s3) = (li1, chg1, s4)"
      using prod_cases3 by blast
    obtain li2 chg2 where "fold (gc_clean_step L rnow (set dl)) (map_order L inIndex) (li1, chg1) = (li2, chg2)"
      by force
    then show ?thesis using b m l Inr sw sweep_all(1) [OF ok3 sw] by (simp add: repoGarbageCollect_def)
  qed
qed

text \<open>What the listing, the sweep and the last loop do, once the walk is over.\<close>

lemma gc_after_mark:
  assumes "ok s2" and "order_ok L" and "repoGarbageCollect L G g now rnow li s = Some (Inr (li', chg), s')"
    and "gc_build_all L G g now (i_manifests li) s = (gb, s1)"
    and "gc_mark L G (gb_subjects gb) (rev (gb_manifests gb)) {} (gb_inIndex gb) s1 = Some (seen, inIndex, s2)"
    and inx: "d_digest ` set (i_manifests li) \<subseteq> set inIndex"
  obtains dl s3 li1 chg1 where
    "go_list G s2 = (Inr dl, s3)" "dom (content s2) \<subseteq> set dl" "ok s'" "ok s3" "content s3 = content s2"
    "fold (gc_sweep_step L G g now rnow seen inIndex) dl (li, False, s3) = (li1, chg1, s')"
    "\<And>x. x \<in> seen \<Longrightarrow> content s' x = content s2 x"
    "\<And>x. content s' x \<in> {None, content s2 x}"
    "set (i_manifests li') \<subseteq> set (i_manifests li)"
    "\<And>c. c \<in> set (i_manifests li) \<Longrightarrow> d_digest c \<in> seen \<Longrightarrow> d_digest c \<in> set dl \<Longrightarrow> c \<in> set (i_manifests li')"
    "\<And>c. c \<in> set (i_manifests li') \<Longrightarrow> dig_parse L (d_digest c) = Some (d_digest c) \<Longrightarrow>
       \<not> refTagRE (d_digest c) \<Longrightarrow> d_digest c \<in> seen \<and> d_digest c \<in> set dl"
proof -
  note m = assms(5)
  obtain l s3 where l: "go_list G s2 = (l, s3)" by force
  note C = list_content [OF assms(1) l]
  obtain dl where dl: "l = Inr dl"
    using assms(3,4) m l by (cases l) (auto simp: repoGarbageCollect_def)
  obtain li1 chg1 s4 where sw: "fold (gc_sweep_step L G g now rnow seen inIndex) dl (li, False, s3) = (li1, chg1, s4)"
    using prod_cases3 by blast
  note S = sweep_all [OF conjunct1 [OF C] sw]
  obtain li2 chg2 where cl: "fold (gc_clean_step L rnow (set dl)) (map_order L inIndex) (li1, chg1) = (li2, chg2)"
    by force
  have res: "li' = li2" "s' = s4"
    using assms(3,4) m l dl sw cl by (auto simp: repoGarbageCollect_def)
  have set_ord: "set (map_order L inIndex) = set inIndex" using assms(2) by (simp add: order_ok_def)
  have ms: "i_manifests li' = filter (\<lambda>c. d_digest c \<in> set dl \<or> d_digest c \<notin> set inIndex) (i_manifests li1)"
    using clean_all [of L rnow "set dl" "map_order L inIndex" li1 chg1] cl res set_ord by simp
  show ?thesis
  proof (rule that [of dl s3 li1 chg1])
    show "ok s3" "content s3 = content s2" using C by simp_all
    show "fold (gc_sweep_step L G g now rnow seen inIndex) dl (li, False, s3) = (li1, chg1, s')"
      using sw res by simp
    show "go_list G s2 = (Inr dl, s3)" using l dl by simp
    show "dom (content s2) \<subseteq> set dl" using C dl by simp
    show "ok s'" using S(1) res by simp
    show "content s' x = content s2 x" if "x \<in> seen" for x
      using S(1) that res C by simp
    show "content s' x \<in> {None, content s2 x}" for x
      using S(1) res C by simp
    show "set (i_manifests li') \<subseteq> set (i_manifests li)" using S(2) by (auto simp: ms)
    show "c \<in> set (i_manifests li')"
      if "c \<in> set (i_manifests li)" "d_digest c \<in> seen" "d_digest c \<in> set dl" for c
      using S(2) that by (simp add: ms)
    show "d_digest c \<in> seen \<and> d_digest c \<in> set dl"
      if "c \<in> set (i_manifests li')" "dig_parse L (d_digest c) = Some (d_digest c)" "\<not> refTagRE (d_digest c)" for c
    proof -
      have c: "c \<in> set (i_manifests li1)" "d_digest c \<in> set dl \<or> d_digest c \<notin> set inIndex"
        using that(1) by (simp_all add: ms)
      have "d_digest c \<in> set inIndex" using c(1) S(2) inx by blast
      then have "d_digest c \<in> set dl" using c(2) by blast
      then show ?thesis using S(3) [of "d_digest c"] that(2,3) c(1) \<open>d_digest c \<in> set inIndex\<close> by blast
    qed
  qed
qed

lemma gc_result:
  assumes "ok s" and "order_ok L" and "repoGarbageCollect L G g now rnow li s = Some (Inr (li', chg), s')"
    and "gc_build_all L G g now (i_manifests li) s = (gb, s1)"
  obtains seen inIndex dl s2 s3 li1 chg1 where
    "gc_mark L G (gb_subjects gb) (rev (gb_manifests gb)) {} (gb_inIndex gb) s1 = Some (seen, inIndex, s2)"
    "ok s2" "content s2 = content s" "d_digest ` set (i_manifests li) \<subseteq> set inIndex"
    "go_list G s2 = (Inr dl, s3)" "dom (content s) \<subseteq> set dl" "ok s'" "ok s3" "content s3 = content s"
    "fold (gc_sweep_step L G g now rnow seen inIndex) dl (li, False, s3) = (li1, chg1, s')"
    "\<And>x. x \<in> seen \<Longrightarrow> content s' x = content s x"
    "\<And>x. content s' x \<in> {None, content s x}"
    "set (i_manifests li') \<subseteq> set (i_manifests li)"
    "\<And>c. c \<in> set (i_manifests li) \<Longrightarrow> d_digest c \<in> seen \<Longrightarrow> d_digest c \<in> set dl \<Longrightarrow> c \<in> set (i_manifests li')"
    "\<And>c. c \<in> set (i_manifests li') \<Longrightarrow> dig_parse L (d_digest c) = Some (d_digest c) \<Longrightarrow>
       \<not> refTagRE (d_digest c) \<Longrightarrow> d_digest c \<in> seen \<and> d_digest c \<in> set dl"
proof -
  note B = build_all [OF assms(1,4)]
  obtain seen inIndex s2 where m: "gc_mark L G (gb_subjects gb) (rev (gb_manifests gb)) {} (gb_inIndex gb) s1 =
      Some (seen, inIndex, s2)" "ok s2" "content s2 = content s1" "set (gb_inIndex gb) \<subseteq> set inIndex"
    using gc_mark_Some B by metis
  have inx: "d_digest ` set (i_manifests li) \<subseteq> set inIndex" using B m(4) by auto
  have c: "content s2 = content s" using m(3) B by simp
  from gc_after_mark [OF m(2) assms(2-4) m(1) inx, unfolded c] show ?thesis
    using that [OF m(1,2) c inx] by metis
qed

text \<open>
  A root that cannot be read at the start of the walk is lost: unless the other roots lead to it, no entry of
  the index keeps its digest.
\<close>

lemma gc_first_unread:
  assumes b: "gc_build_all L G g now (i_manifests li) s = (gb, s)" and ms: "gb_manifests gb = xs @ [d]"
    and get: "go_get G (d_digest d) s = (Inl e, s1)" and ok: "ok s1" "order_ok L"
    and gc: "repoGarbageCollect L G g now rnow li s = Some (Inr (li', chg), s')"
    and x: "dig_parse L (d_digest d) = Some (d_digest d)" "\<not> refTagRE (d_digest d)"
    and unneeded: "\<forall>c. needed L (gb_subjects gb) (content s1) (set xs) c \<longrightarrow> d_digest d \<notin> marks L (content s1) c"
  shows "\<forall>c\<in>set (i_manifests li'). d_digest c \<noteq> d_digest d" and "ok s'"
proof -
  let ?ix = "List.insert (d_digest d) (gb_inIndex gb)"
  obtain seen inIndex s2 where m: "gc_mark L G (gb_subjects gb) (rev xs) {} ?ix s1 = Some (seen, inIndex, s2)"
    "ok s2" "content s2 = content s1" "set ?ix \<subseteq> set inIndex"
    using gc_mark_Some [OF ok(1)] by metis
  have "gc_mark L G (gb_subjects gb) (rev (gb_manifests gb)) {} (gb_inIndex gb) s = Some (seen, inIndex, s2)"
    using m(1) by (subst gc_mark.simps) (simp add: ms gc_visit_def get)
  moreover have "d_digest ` set (i_manifests li) \<subseteq> set inIndex" using build_inIndex [OF b] m(4) by auto
  ultimately have r: "ok s' \<and> (\<forall>c\<in>set (i_manifests li'). dig_parse L (d_digest c) = Some (d_digest c) \<longrightarrow>
      \<not> refTagRE (d_digest c) \<longrightarrow> d_digest c \<in> seen)"
    using gc_after_mark [OF m(2) ok(2) gc b] by metis
  have "\<forall>v\<in>set (rev xs). needed L (gb_subjects gb) (content s1 |` (- {})) (set xs) v"
    by (simp add: needed_root)
  from gc_mark_bound [OF ok(1) m(1) empty_subsetI this] unneeded have "d_digest d \<notin> seen" by auto
  then show "\<forall>c\<in>set (i_manifests li'). d_digest c \<noteq> d_digest d" using r x by metis
  show "ok s'" using r by blast
qed

text \<open>The main facts: what the roots need survives, and the index that remains is backed by blobs.\<close>

lemma gc_keeps_needed:
  assumes "ok s" and "order_ok L" and "repoGarbageCollect L G g now rnow li s = Some (Inr (li', chg), s')"
    and "gc_build_all L G g now (i_manifests li) s = (gb, s1)"
    and "coherent L (gb_subjects gb) (content s) (set (gb_manifests gb))"
    and "needed L (gb_subjects gb) (content s) (set (gb_manifests gb)) d"
  shows "\<forall>x\<in>marks L (content s) d. content s' x = content s x"
    and "d \<in> set (i_manifests li) \<Longrightarrow> content s (d_digest d) \<noteq> None \<Longrightarrow> d \<in> set (i_manifests li')"
proof -
  note B = build_all [OF assms(1,4)]
  from gc_result [OF assms(1-4)] obtain seen inIndex dl s2 where
    m: "gc_mark L G (gb_subjects gb) (rev (gb_manifests gb)) {} (gb_inIndex gb) s1 = Some (seen, inIndex, s2)"
    and dl: "dom (content s) \<subseteq> set dl"
    and same: "\<And>x. x \<in> seen \<Longrightarrow> content s' x = content s x"
    and keep: "\<And>c. c \<in> set (i_manifests li) \<Longrightarrow> d_digest c \<in> seen \<Longrightarrow> d_digest c \<in> set dl \<Longrightarrow>
       c \<in> set (i_manifests li')"
    by metis
  have marked: "marks L (content s) d \<subseteq> seen"
    using gc_mark_needed [OF _ _ m, of d] assms(5,6) B by simp
  then show "\<forall>x\<in>marks L (content s) d. content s' x = content s x" using same by blast
  show "d \<in> set (i_manifests li')" if "d \<in> set (i_manifests li)" "content s (d_digest d) \<noteq> None"
  proof (rule keep [OF that(1)])
    have "d_digest d \<in> marks L (content s) d"
      using that(2) by (auto simp: visit_def Let_def split: sum.splits option.splits)
    then show "d_digest d \<in> seen" using marked by blast
    show "d_digest d \<in> set dl" using dl that(2) by blast
  qed
qed

end


text \<open>
  A repository whose list is exact and whose deletes succeed: the index that remains is backed by
  blobs, and what nothing needs is deleted.  \<open>T\<close> are the modification times of the blobs.
\<close>

locale gc_repo_live = gc_repo G content ok
  for G :: "'s gc_ops" and content :: "'s \<Rightarrow> digest \<Rightarrow> reader option" and ok :: "'s \<Rightarrow> bool" +
  fixes T :: "digest \<Rightarrow> time option"
  assumes list_exact: "ok s \<Longrightarrow> go_list G s = (Inr dl, s') \<Longrightarrow> set dl \<subseteq> dom (content s)"
    and delete_works: "ok s \<Longrightarrow> content s d \<noteq> None \<Longrightarrow> go_delete G d s = (u, s') \<Longrightarrow> content s' d = None"
    and meta_time: "ok s \<Longrightarrow> go_meta G d s = (Inr t, s') \<Longrightarrow> T d = Some t"
begin

lemma sweep_step_collects:
  assumes "ok s" and "gc_sweep_step L G g now rnow seen inIndex x (li, chg, s) = (li', chg', s')"
    and "x \<notin> seen" and "x \<in> set inIndex \<or> (\<forall>t. T x = Some t \<longrightarrow> \<not> gc_recent g now t)"
  shows "content s' x = None"
proof -
  obtain m s1 where m: "go_meta G x s = (m, s1)" by force
  note c1 = meta_content [OF assms(1) m]
  obtain u s2 where u: "go_delete G x s1 = (u, s2)" by force
  have gone: "content s2 x = None"
  proof (cases "content s1 x = None")
    case True
    then show ?thesis using delete_content [OF conjunct1 [OF c1] u] by auto
  next
    case False
    then show ?thesis using delete_works [OF conjunct1 [OF c1] _ u] by blast
  qed
  have "\<not> ((case m of Inr t \<Rightarrow> gc_recent g now t | Inl _ \<Rightarrow> False) \<and> x \<notin> set inIndex)"
    using meta_time [OF assms(1)] m assms(4) by (auto split: sum.splits)
  then have "s' = s2"
    using assms(2,3) m u by (auto simp: gc_sweep_step_def split: prod.splits)
  with gone show ?thesis by simp
qed

lemma sweep_collects:
  assumes "ok s" and "fold (gc_sweep_step L G g now rnow seen inIndex) dl (li, chg, s) = (li', chg', s')"
    and "x \<in> set dl" and "x \<notin> seen" and "x \<in> set inIndex \<or> (\<forall>t. T x = Some t \<longrightarrow> \<not> gc_recent g now t)"
  shows "content s' x = None"
proof -
  obtain xs ys where dl: "dl = xs @ x # ys" using assms(3) split_list by fastforce
  obtain li1 chg1 s1 where r1: "fold (gc_sweep_step L G g now rnow seen inIndex) xs (li, chg, s) = (li1, chg1, s1)"
    using prod_cases3 by blast
  obtain li2 chg2 s2 where r2: "gc_sweep_step L G g now rnow seen inIndex x (li1, chg1, s1) = (li2, chg2, s2)"
    using prod_cases3 by blast
  have r3: "fold (gc_sweep_step L G g now rnow seen inIndex) ys (li2, chg2, s2) = (li', chg', s')"
    using assms(2) by (simp add: dl r1 r2)
  have ok1: "ok s1" using sweep_all(1) [OF assms(1) r1] by simp
  have ok2: "ok s2" using sweep_step(1) [OF ok1 r2] by simp
  show ?thesis
    using sweep_step_collects [OF ok1 r2 assms(4,5)] sweep_all(1) [OF ok2 r3] by auto
qed

lemma gc_index_backed:
  assumes "ok s" and "order_ok L" and "repoGarbageCollect L G g now rnow li s = Some (Inr (li', chg), s')"
    and "c \<in> set (i_manifests li')" and "dig_parse L (d_digest c) = Some (d_digest c)"
    and "\<not> refTagRE (d_digest c)"
  shows "content s' (d_digest c) \<noteq> None"
proof -
  obtain gb s1 where b: "gc_build_all L G g now (i_manifests li) s = (gb, s1)" by force
  from gc_result [OF assms(1-3) b] obtain seen dl s2 s3 where
    "ok s2" "content s2 = content s" "go_list G s2 = (Inr dl, s3)"
    and same: "\<And>x. x \<in> seen \<Longrightarrow> content s' x = content s x"
    and kept: "d_digest c \<in> seen \<and> d_digest c \<in> set dl"
    using assms(4-6) by metis
  then have "d_digest c \<in> dom (content s)" using list_exact by fastforce
  then show ?thesis using same kept by auto
qed

lemma gc_unseen_deleted:
  assumes "ok s" and "order_ok L" and "repoGarbageCollect L G g now rnow li s = Some (Inr (li', chg), s')"
    and "gc_build_all L G g now (i_manifests li) s = (gb, s1)"
    and "gc_mark L G (gb_subjects gb) (rev (gb_manifests gb)) {} (gb_inIndex gb) s1 = Some (seen, inIndex, s2)"
    and "x \<notin> seen" and old: "x \<in> d_digest ` set (i_manifests li) \<or> (\<forall>t. T x = Some t \<longrightarrow> \<not> gc_recent g now t)"
  shows "content s' x = None"
proof -
  from gc_result [OF assms(1-4)] obtain dl s3 li1 chg1 where
    inx: "d_digest ` set (i_manifests li) \<subseteq> set inIndex"
    and dl: "dom (content s) \<subseteq> set dl" and ok3: "ok s3"
    and sw: "fold (gc_sweep_step L G g now rnow seen inIndex) dl (li, False, s3) = (li1, chg1, s')"
    and sub: "content s' x \<in> {None, content s x}"
    using assms(5) by (metis option.inject prod.inject)
  show ?thesis
  proof (cases "content s x = None")
    case True
    then show ?thesis using sub by auto
  next
    case False
    then have "x \<in> set dl" using dl by blast
    then show ?thesis using sweep_collects [OF ok3 sw _ assms(6)] old inx by blast
  qed
qed

lemma gc_collects_garbage:
  assumes "ok s" and "order_ok L" and "repoGarbageCollect L G g now rnow li s = Some (Inr (li', chg), s')"
    and "gc_build_all L G g now (i_manifests li) s = (gb, s1)"
    and "coherent L (gb_subjects gb) (content s) (set (gb_manifests gb))"
    and unneeded: "\<And>d. needed L (gb_subjects gb) (content s) (set (gb_manifests gb)) d \<Longrightarrow> x \<notin> marks L (content s) d"
    and old: "x \<in> d_digest ` set (i_manifests li) \<or> (\<forall>t. T x = Some t \<longrightarrow> \<not> gc_recent g now t)"
  shows "content s' x = None"
proof -
  note B = build_all [OF assms(1,4)]
  from gc_result [OF assms(1-4)] obtain seen inIndex s2 where
    m: "gc_mark L G (gb_subjects gb) (rev (gb_manifests gb)) {} (gb_inIndex gb) s1 = Some (seen, inIndex, s2)"
    by metis
  let ?roots = "set (gb_manifests gb)"
  have "walk_inv L (gb_subjects gb) (content s) ?roots {} (rev (gb_manifests gb)) {}"
    by (auto simp: walk_inv_def needed_root)
  from gc_mark_inv [OF _ _ _ m, of ?roots "{}"] this B assms(5)
  obtain V where V: "walk_inv L (gb_subjects gb) (content s) ?roots V [] seen" by auto
  have "x \<notin> seen"
  proof
    assume "x \<in> seen"
    then obtain v where "v \<in> V" "x \<in> marks L (content s) v" using V unfolding walk_inv_def by blast
    moreover have "needed L (gb_subjects gb) (content s) ?roots v"
      using V \<open>v \<in> V\<close> unfolding walk_inv_def by blast
    ultimately show False using unneeded by blast
  qed
  then show ?thesis using gc_unseen_deleted [OF assms(1-4) m _ old] by blast
qed

lemma gc_hidden_deleted:
  assumes "ok s" and "order_ok L" and "repoGarbageCollect L G g now rnow li s = Some (Inr (li', chg), s')"
    and "gc_build_all L G g now (i_manifests li) s = (gb, s1)"
    and "gb_manifests gb = xs @ [im]" and "z \<in> marks L (content s) im" and "z \<noteq> d_digest im"
    and unneeded: "\<forall>d. needed L (gb_subjects gb) ((content s)(z := None)) (set (gb_manifests gb)) d \<longrightarrow>
          x \<notin> marks L ((content s)(z := None)) d"
    and old: "x \<in> d_digest ` set (i_manifests li) \<or> (\<forall>t. T x = Some t \<longrightarrow> \<not> gc_recent g now t)"
  shows "content s' x = None" and "content s' z = content s z"
proof -
  note B = build_all [OF assms(1,4)]
  from gc_result [OF assms(1-4)] obtain seen inIndex s2 where
    m: "gc_mark L G (gb_subjects gb) (rev (gb_manifests gb)) {} (gb_inIndex gb) s1 = Some (seen, inIndex, s2)"
    and same: "\<And>x. x \<in> seen \<Longrightarrow> content s' x = content s x"
    by metis
  have ok1: "ok s1" "content s1 = content s" using B by simp_all
  have m': "gc_mark L G (gb_subjects gb) (im # rev xs) {} (gb_inIndex gb) s1 = Some (seen, inIndex, s2)"
    using m assms(5) by simp
  have roots: "set (im # rev xs) \<subseteq> set (gb_manifests gb)" by (simp add: assms(5))
  note H = gc_mark_hidden [OF ok1(1) m', unfolded ok1(2), OF assms(6,7) roots]
  have "x \<notin> seen" using H unneeded by blast
  then show "content s' x = None" using gc_unseen_deleted [OF assms(1-4) m _ old] by blast
  show "content s' z = content s z" using H(1) same by blast
qed

end

section \<open>Deduplication of a referrers list\<close>

lemma dedup_drop:
  assumes "i < length rl"
  shows "take i (butlast (rl[i := last rl])) = take i rl \<and>
         insert (rl ! i) (set (butlast (rl[i := last rl]))) = set rl"
proof -
  obtain ys zs where rl: "rl = ys @ rl ! i # zs" "rl[i := last rl] = ys @ last rl # zs" "length ys = i"
    using update_append_Cons [OF assms] by metis
  show ?thesis
  proof (cases zs rule: rev_cases)
    case Nil
    with rl(1) obtain z where z: "rl = ys @ [z]" by simp
    show ?thesis using rl(3) by (simp add: z list_update_append nth_append)
  next
    case (snoc vs v)
    with rl(1) obtain z where z: "rl = ys @ z # vs @ [v]" by simp
    show ?thesis using rl(3) by (auto simp: z list_update_append nth_append butlast_append)
  qed
qed

lemma dedup_loop_inv:
  assumes "i \<le> length rl" and "distinct (map d_digest (take i rl))" and "seen = d_digest ` set (take i rl)"
  shows "distinct (map d_digest (dedup_loop seen i rl)) \<and>
         d_digest ` set (dedup_loop seen i rl) = d_digest ` set rl \<and> set (dedup_loop seen i rl) \<subseteq> set rl"
  using assms
proof (induction seen i rl rule: dedup_loop.induct)
  case (1 seen i rl)
  show ?case
  proof (cases "i < length rl")
    case False
    then show ?thesis using "1.prems" by (simp add: dedup_loop.simps)
  next
    case True
    show ?thesis
    proof (cases "d_digest (rl ! i) \<in> seen")
      case dup: True
      let ?rl = "butlast (rl[i := last rl])"
      have d: "take i ?rl = take i rl" "insert (rl ! i) (set ?rl) = set rl"
        using dedup_drop [OF True] by simp_all
      have len: "i \<le> length ?rl" using True by simp
      have "seen \<subseteq> d_digest ` set ?rl" using "1.prems"(3) d(1) by (metis image_mono set_take_subset)
      then have dig: "d_digest ` set ?rl = d_digest ` set rl" using dup unfolding d(2) [symmetric] by auto
      have "distinct (map d_digest (dedup_loop seen i ?rl)) \<and>
         d_digest ` set (dedup_loop seen i ?rl) = d_digest ` set ?rl \<and> set (dedup_loop seen i ?rl) \<subseteq> set ?rl"
        using "1.IH"(1) [OF True dup len] "1.prems" d(1) by simp
      moreover have "dedup_loop seen i rl = dedup_loop seen i ?rl"
        using True dup by (subst dedup_loop.simps) simp
      ultimately show ?thesis using dig d(2) by auto
    next
      case new: False
      have "take (Suc i) rl = take i rl @ [rl ! i]" using True by (rule take_Suc_conv_app_nth)
      then have "distinct (map d_digest (take (Suc i) rl))"
        "insert (d_digest (rl ! i)) seen = d_digest ` set (take (Suc i) rl)"
        using "1.prems" new by auto
      moreover have "dedup_loop seen i rl = dedup_loop (insert (d_digest (rl ! i)) seen) (Suc i) rl"
        using True new by (subst dedup_loop.simps) simp
      ultimately show ?thesis using "1.IH"(2) [OF True new] True by simp
    qed
  qed
qed

text \<open>
  Deduplicating a referrers list keeps entries of the list only, loses no digest and leaves
  each digest once.
\<close>

theorem referrerListDedup_spec:
  "distinct (map d_digest (referrerListDedup rl)) \<and>
   d_digest ` set (referrerListDedup rl) = d_digest ` set rl \<and>
   set (referrerListDedup rl) \<subseteq> set rl"
  using dedup_loop_inv [of 0 rl "{}"] by (simp add: referrerListDedup_def)

end
