(* ===== verification/Ingest.thy ===== *)
theory Ingest
  imports GC
begin

text \<open>
  Loading an index (\<open>indexIngest\<close>, \<open>indexValidReferrer\<close> and \<open>repoGetIndex\<close> of
  \<open>internal/store/store.go\<close>): the schema fields are set, fallback tags of the referrers API are
  converted, and the descriptors of nested manifests are added.  A Go map that is ranged over is a
  list of pairs in the order of insertion, visited in the order \<open>map_order\<close> gives for its keys.
\<close>

section \<open>Ordered maps\<close>

fun al_get :: "(string \<times> 'b list) list \<Rightarrow> string \<Rightarrow> 'b list" where
  "al_get [] k = []"
| "al_get ((k', v) # m) k = (if k' = k then v else al_get m k)"

fun al_append :: "string \<Rightarrow> 'b list \<Rightarrow> (string \<times> 'b list) list \<Rightarrow> (string \<times> 'b list) list" where
  "al_append k vs [] = [(k, vs)]"
| "al_append k vs ((k', v) # m) = (if k' = k then (k', v @ vs) # m else (k', v) # al_append k vs m)"

lemma al_get_append [simp]: "al_get (al_append k vs m) k' = (if k' = k then al_get m k @ vs else al_get m k')"
  by (induction m) auto

lemma al_append_keys: "fst ` set (al_append k vs m) = insert k (fst ` set m)"
  by (induction k vs m rule: al_append.induct) (simp_all add: insert_commute)

section \<open>Reading an index from the store\<close>

definition repoGetIndex ::
    "lib \<Rightarrow> 's store_ops \<Rightarrow> string \<Rightarrow> descriptor \<Rightarrow> 's \<Rightarrow> (index \<times> bool) res \<times> 's" where
  "repoGetIndex L S repo d s =
     (case so_blobGet S repo (d_digest d) s of
        (Inl e, s1) \<Rightarrow> (Inl e, s1)
      | (Inr (Inl e), s1) \<Rightarrow> (Inl e, s1)
      | (Inr (Inr b), s1) \<Rightarrow>
        (case dec_index L b of
           None \<Rightarrow> (Inl (ErrOther ''json''), s1)
         | Some i \<Rightarrow> (Inr (i, dec_manifests_nil L b), s1)))"

text \<open>\<open>referrerTagRe\<close>: \<^verbatim>\<open>^(sha256|sha512)-([0-9a-f]{64})$\<close>.\<close>

definition hex_lower :: "char \<Rightarrow> bool" where
  "hex_lower c = (let n = of_char c :: nat in (48 \<le> n \<and> n \<le> 57) \<or> (97 \<le> n \<and> n \<le> 102))"

definition referrerTagRe :: "string \<Rightarrow> bool" where
  "referrerTagRe s \<longleftrightarrow> (has_prefix s ''sha256-'' \<or> has_prefix s ''sha512-'') \<and>
     length s = 71 \<and> list_all hex_lower (drop 7 s)"

section \<open>Checking a referrers response\<close>

record valid_state =
  vs_valid :: bool
  vs_subject :: digest
  vs_responses :: "(digest \<times> descriptor list) list"

definition annots_len :: "annots \<Rightarrow> nat" where
  "annots_len m = fcard (fmdom m)"

definition annots_differ :: "annots \<Rightarrow> annots \<Rightarrow> bool" where
  "annots_differ expected actual \<longleftrightarrow> \<not> fmpred (\<lambda>k v. map_get actual k = v) expected"

definition referrer_differs :: "descriptor \<Rightarrow> descriptor \<Rightarrow> bool" where
  "referrer_differs desc refDesc \<longleftrightarrow>
     d_mediaType desc \<noteq> d_mediaType refDesc \<or> d_size desc \<noteq> d_size refDesc \<or>
     d_artifactType desc \<noteq> d_artifactType refDesc \<or>
     annots_len (d_annotations desc) \<noteq> annots_len (d_annotations refDesc) \<or>
     annots_differ (d_annotations refDesc) (d_annotations desc)"

definition valid_step ::
    "lib \<Rightarrow> 's store_ops \<Rightarrow> string \<Rightarrow> descriptor \<Rightarrow> valid_state \<times> 's \<Rightarrow> valid_state \<times> 's" where
  "valid_step L S repo desc = (\<lambda>(v, s).
     case so_blobGet S repo (d_digest desc) s of
       (Inl _, s1) \<Rightarrow> (v\<lparr>vs_valid := False\<rparr>, s1)
     | (Inr (Inl _), s1) \<Rightarrow> (v\<lparr>vs_valid := False\<rparr>, s1)
     | (Inr (Inr raw), s1) \<Rightarrow>
       (case manifestReferrerDescriptor L raw desc of
          Inl _ \<Rightarrow> (v\<lparr>vs_valid := False\<rparr>, s1)
        | Inr (refSubj, refDesc) \<Rightarrow>
          let v1 = (if dig_is_zero (vs_subject v) then v\<lparr>vs_subject := d_digest refSubj\<rparr>
                    else if vs_subject v \<noteq> d_digest refSubj then v\<lparr>vs_valid := False\<rparr> else v);
              v2 = (if vs_valid v1 \<and> referrer_differs desc refDesc then v1\<lparr>vs_valid := False\<rparr> else v1)
          in (v2\<lparr>vs_responses := al_append (d_digest refSubj) [refDesc] (vs_responses v2)\<rparr>, s1)))"

definition indexValidReferrer ::
    "lib \<Rightarrow> 's store_ops \<Rightarrow> string \<Rightarrow> index \<Rightarrow> 's \<Rightarrow> valid_state \<times> 's" where
  "indexValidReferrer L S repo i s =
     (case fold (valid_step L S repo) (i_manifests i)
             (\<lparr>vs_valid = True, vs_subject = [], vs_responses = []\<rparr>, s) of
        (v, s1) \<Rightarrow> (if \<not> vs_valid v then v\<lparr>vs_subject := []\<rparr> else v, s1))"

section \<open>Ingesting an index\<close>

text \<open>The first loop over the entries.\<close>

record ingest_scan =
  is_seen :: "digest set"
  is_scanChildren :: "descriptor list"
  is_referrerResponse :: "(string, descriptor) fmap"
  is_digestTags :: "descriptor list"

definition scan_step :: "descriptor \<Rightarrow> ingest_scan \<Rightarrow> ingest_scan" where
  "scan_step desc a0 =
     (let a1 = a0\<lparr>is_seen := insert (d_digest desc) (is_seen a0)\<rparr>;
          a2 = (if d_mediaType desc = mt_oci1_manifest_list \<and> referrerTagRe (tag_of desc)
                then a1\<lparr>is_digestTags := is_digestTags a1 @ [desc]\<rparr> else a1);
          a3 = (if d_mediaType desc = mt_oci1_manifest_list \<and> subject_of desc \<noteq> []
                then a2\<lparr>is_referrerResponse := fmupd (subject_of desc) desc (is_referrerResponse a2)\<rparr> else a2)
      in if mediaTypeIndex (d_mediaType desc)
         then a3\<lparr>is_scanChildren := is_scanChildren a3 @ [desc]\<rparr> else a3)"

text \<open>The loop over the fallback tags.\<close>

record ingest_conv =
  ic_index :: layout_index
  ic_mod :: bool
  ic_addResp :: "(string \<times> descriptor list) list"
  ic_rmDesc :: "descriptor list"

definition convert_step ::
    "lib \<Rightarrow> 's store_ops \<Rightarrow> string \<Rightarrow> time \<Rightarrow> (string, descriptor) fmap \<Rightarrow> descriptor \<Rightarrow>
     ingest_conv \<times> 's \<Rightarrow> ingest_conv \<times> 's" where
  "convert_step L S repo now referrerResponse desc = (\<lambda>(c, s).
     case repoGetIndex L S repo desc s of
       (Inl _, s1) \<Rightarrow> (c, s1)
     | (Inr (curResp, is_nil), s1) \<Rightarrow>
       if is_nil then (c, s1)
       else case indexValidReferrer L S repo curResp s1 of (v, s2) \<Rightarrow>
         let valid = (vs_valid v \<and> (case fmlookup referrerResponse (vs_subject v) of
                         Some resp \<Rightarrow> d_digest resp = d_digest desc | None \<Rightarrow> True))
         in if valid then
              (c\<lparr>ic_index := add_desc L now
                    (desc\<lparr>d_annotations := fmupd annot_referrer_subject (vs_subject v) fmempty\<rparr>) [] (ic_index c),
                 ic_mod := True\<rparr>, s2)
            else
              (c\<lparr>ic_addResp := fold (\<lambda>subj m. al_append subj (al_get (vs_responses v) subj) m)
                                 (map_order L (map fst (vs_responses v))) (ic_addResp c),
                 ic_rmDesc := ic_rmDesc c @ [desc]\<rparr>, s2))"

text \<open>The loop that writes the merged responses; \<open>Inl\<close> is the error that ends the ingest.\<close>

definition store_response ::
    "lib \<Rightarrow> 's store_ops \<Rightarrow> string \<Rightarrow> digest \<Rightarrow> bytes \<Rightarrow> 's \<Rightarrow> unit res \<times> 's" where
  "store_response L S repo dig raw s =
     (case so_blobCreate S repo [BlobWithDigest dig] s of
        (Inl e, s1) \<Rightarrow> (Inl e, s1)
      | (Inr (u, _), s1) \<Rightarrow> write_close S u raw s1)"

definition new_response :: "descriptor list \<Rightarrow> index" where
  "new_response ds = \<lparr>i_schemaVersion = 2, i_mediaType = mt_oci1_manifest_list, i_artifactType = [],
     i_manifests = ds, i_subject = None, i_annotations = fmempty\<rparr>"

definition response_desc :: "digest \<Rightarrow> bytes \<Rightarrow> string \<Rightarrow> descriptor" where
  "response_desc dig raw subj = zero_descriptor\<lparr>d_mediaType := mt_oci1_manifest_list, d_digest := dig,
     d_size := int (length raw), d_annotations := fmupd annot_referrer_subject subj fmempty\<rparr>"

fun generate_loop ::
    "lib \<Rightarrow> 's store_ops \<Rightarrow> string \<Rightarrow> time \<Rightarrow> (string, descriptor) fmap \<Rightarrow>
     (string \<times> descriptor list) list \<Rightarrow> string list \<Rightarrow> layout_index \<Rightarrow> bool \<Rightarrow> 's \<Rightarrow>
     err option \<times> layout_index \<times> bool \<times> 's" where
  "generate_loop L S repo now refResp addResp [] li chg s = (None, li, chg, s)"
| "generate_loop L S repo now refResp addResp (subj # subjs) li chg s =
     (case (case fmlookup refResp subj of
              None \<Rightarrow> (al_get addResp subj, s)
            | Some refDesc \<Rightarrow>
              (case repoGetIndex L S repo refDesc s of
                 (Inr (resp, is_nil), s1) \<Rightarrow>
                   (if is_nil then al_get addResp subj else al_get addResp subj @ i_manifests resp, s1)
               | (Inl _, s1) \<Rightarrow> (al_get addResp subj, s1))) of
        (respList, s1) \<Rightarrow>
          (case enc_index L (new_response (referrerListDedup respList)) of
             None \<Rightarrow> (Some (ErrOther ''json''), li, chg, s1)
           | Some raw \<Rightarrow>
             (case dig_from_bytes L (dig_canonical L) raw of
                None \<Rightarrow> (Some (ErrOther ''digest''), li, chg, s1)
              | Some dig \<Rightarrow>
                (case store_response L S repo dig raw s1 of
                   (Inl e, s2) \<Rightarrow> (Some e, li, chg, s2)
                 | (Inr _, s2) \<Rightarrow>
                   generate_loop L S repo now refResp addResp subjs
                     (add_desc L now (response_desc dig raw subj) [] li) True s2))))"

definition ingest_convert ::
    "lib \<Rightarrow> 's store_ops \<Rightarrow> string \<Rightarrow> time \<Rightarrow> ingest_scan \<Rightarrow> layout_index \<Rightarrow> bool \<Rightarrow> 's \<Rightarrow>
     err option \<times> layout_index \<times> bool \<times> 's" where
  "ingest_convert L S repo now sc li chg s =
     (case fold (convert_step L S repo now (is_referrerResponse sc)) (is_digestTags sc)
             (\<lparr>ic_index = li, ic_mod = chg, ic_addResp = [], ic_rmDesc = []\<rparr>, s) of
        (c, s1) \<Rightarrow>
          (case generate_loop L S repo now (is_referrerResponse sc) (ic_addResp c)
                  (map_order L (map fst (ic_addResp c))) (ic_index c) (ic_mod c) s1 of
             (Some e, li1, chg1, s2) \<Rightarrow> (Some e, li1, chg1, s2)
           | (None, li1, chg1, s2) \<Rightarrow>
             let li2 = fold (rm_desc L now) (ic_rmDesc c) li1
             in (None, li2\<lparr>i_annotations := fmupd annot_referrer_convert ''true'' (i_annotations li2)\<rparr>, True, s2)))"

text \<open>The loop over the children; a digest that was seen is not added again.\<close>

definition child_step ::
    "descriptor \<Rightarrow> layout_index \<times> descriptor list \<times> digest set \<Rightarrow> layout_index \<times> descriptor list \<times> digest set" where
  "child_step desc = (\<lambda>(li, scan, seen).
     if d_digest desc \<in> seen then (li, scan, seen)
     else (add_children [desc] li,
           if mediaTypeIndex (d_mediaType desc) then scan @ [desc] else scan,
           insert (d_digest desc) seen))"

partial_function (option) child_loop ::
    "lib \<Rightarrow> 's store_ops \<Rightarrow> string \<Rightarrow> descriptor list \<Rightarrow> digest set \<Rightarrow> layout_index \<Rightarrow> 's \<Rightarrow>
     (layout_index \<times> 's) option" where
  "child_loop L S repo scan seen li s =
     (case scan of
        [] \<Rightarrow> Some (li, s)
      | d # rest \<Rightarrow>
        (case repoGetIndex L S repo d s of
           (Inl _, s1) \<Rightarrow> child_loop L S repo rest seen li s1
         | (Inr (childIndex, _), s1) \<Rightarrow>
           (case fold child_step (i_manifests childIndex) (li, rest, seen) of
              (li1, scan1, seen1) \<Rightarrow> child_loop L S repo scan1 seen1 li1 s1)))"

text \<open>\<open>indexIngest\<close>: the error if any, the index as it is then, and whether it was modified.\<close>

definition indexIngest ::
    "lib \<Rightarrow> 's store_ops \<Rightarrow> config \<Rightarrow> string \<Rightarrow> time \<Rightarrow> layout_index \<Rightarrow> 's \<Rightarrow>
     (err option \<times> layout_index \<times> bool \<times> 's) option" where
  "indexIngest L S conf repo now li s =
     (let enabled = deref (ca_referrerEnabled (c_api conf));
          converted = (map_get (i_annotations li) annot_referrer_convert = ''true'')
      in if \<not> enabled \<and> converted then
           Some (Some (ErrOther ''index.json has referrers converted with the API disabled''), li, False, s)
         else
           let (li1, chg1) = (if i_schemaVersion li \<noteq> 2 then (li\<lparr>i_schemaVersion := 2\<rparr>, True) else (li, False));
               (li2, chg2) = (if i_mediaType li1 \<noteq> mt_oci1_manifest_list
                              then (li1\<lparr>i_mediaType := mt_oci1_manifest_list\<rparr>, True) else (li1, chg1));
               sc = fold scan_step (i_manifests li2)
                      \<lparr>is_seen = {}, is_scanChildren = [], is_referrerResponse = fmempty, is_digestTags = []\<rparr>
           in case (if enabled \<and> \<not> converted then ingest_convert L S repo now sc li2 chg2 s
                    else (None, li2, chg2, s)) of
                (Some e, li3, chg3, s1) \<Rightarrow> Some (Some e, li3, chg3, s1)
              | (None, li3, chg3, s1) \<Rightarrow>
                map_option (\<lambda>(li4, s2). (None, li4, chg3, s2))
                  (child_loop L S repo (is_scanChildren sc) (is_seen sc) li3 s1))"

text \<open>The index of a repository that has none yet.\<close>

definition empty_layout :: "annots \<Rightarrow> layout_index" where
  "empty_layout a = \<lparr>i_schemaVersion = 2, i_mediaType = mt_oci1_manifest_list, i_artifactType = [],
     i_manifests = [], i_subject = None, i_annotations = a, li_history = fmempty, li_childManifests = []\<rparr>"

section \<open>Loading an index keeps the invariants of the store\<close>

context store_invariant
begin

lemma keep_repoGetIndex: "repoGetIndex L S repo d s = (x, s') \<Longrightarrow> P s \<Longrightarrow> P s'"
  by (auto simp: repoGetIndex_def split: prod.splits sum.splits option.splits dest: keep_eq)

lemma keep_valid_step: "P s \<Longrightarrow> P (snd (valid_step L S repo d (v, s)))"
  by (auto simp: valid_step_def Let_def split: prod.splits sum.splits dest: keep_eq)

lemma keep_fold: "(\<And>x a s. P s \<Longrightarrow> P (snd (f x (a, s)))) \<Longrightarrow> P s \<Longrightarrow> P (snd (fold f xs (a, s)))"
proof (induction xs arbitrary: a s)
  case (Cons x xs)
  then show ?case by (cases "f x (a, s)") (metis fold_simps(2) snd_conv)
qed simp

lemma keep_fold_valid: "P s \<Longrightarrow> P (snd (fold (valid_step L S repo) ds (v, s)))"
  by (rule keep_fold) (rule keep_valid_step)

lemma keep_indexValidReferrer:
  assumes "indexValidReferrer L S repo i s = (v, s')" and "P s"
  shows "P s'"
  using assms keep_fold_valid [of s L repo "i_manifests i" "\<lparr>vs_valid = True, vs_subject = [], vs_responses = []\<rparr>"]
  by (auto simp: indexValidReferrer_def split: prod.splits)

lemma keep_convert_step: "P s \<Longrightarrow> P (snd (convert_step L S repo now m d (c, s)))"
  by (auto simp: convert_step_def Let_def split: prod.splits sum.splits
      dest: keep_repoGetIndex keep_indexValidReferrer)

lemma keep_store_response: "store_response L S repo dig raw s = (x, s') \<Longrightarrow> P s \<Longrightarrow> P s'"
  by (auto simp: store_response_def split: prod.splits sum.splits dest: keep_eq keep_write_close)

lemma keep_generate_loop:
  "P s \<Longrightarrow> generate_loop L S repo now m add subjs li chg s = (e, li', chg', s') \<Longrightarrow> P s'"
proof (induction subjs arbitrary: li chg s)
  case (Cons subj subjs)
  obtain respList s1 where resp: "(case fmlookup m subj of
      None \<Rightarrow> (al_get add subj, s)
    | Some refDesc \<Rightarrow>
      (case repoGetIndex L S repo refDesc s of
         (Inr (resp, is_nil), s1) \<Rightarrow>
           (if is_nil then al_get add subj else al_get add subj @ i_manifests resp, s1)
       | (Inl _, s1) \<Rightarrow> (al_get add subj, s1))) = (respList, s1)" (is "?resp = _")
    by (cases ?resp) blast
  have s1: "P s1"
    using resp Cons.prems(1)
    by (auto split: option.splits prod.splits sum.splits dest: keep_repoGetIndex)
  show ?case
    using Cons.prems(2) s1 unfolding generate_loop.simps resp prod.case
    by (auto split: option.splits prod.splits sum.splits intro: Cons.IH dest: keep_store_response [OF _ s1])
qed simp

lemma keep_ingest_convert:
  assumes "ingest_convert L S repo now sc li chg s = (e, li', chg', s')" and "P s"
  shows "P s'"
proof -
  obtain c s1 where c: "fold (convert_step L S repo now (is_referrerResponse sc)) (is_digestTags sc)
      (\<lparr>ic_index = li, ic_mod = chg, ic_addResp = [], ic_rmDesc = []\<rparr>, s) = (c, s1)" (is "?f = _")
    by (cases ?f) blast
  have "P (snd ?f)" using assms(2) by (rule keep_fold [rotated]) (rule keep_convert_step)
  then have "P s1" using c by simp
  then show ?thesis
    using assms(1) c
    by (auto simp: ingest_convert_def Let_def split: prod.splits option.splits dest: keep_generate_loop)
qed

lemma keep_child_loop:
  "child_loop L S' repo scan seen li s = Some y \<Longrightarrow> S' = S \<longrightarrow> P s \<longrightarrow> P (snd y)"
proof (induct L S' repo scan seen li s y rule: child_loop.raw_induct [rotated -1, consumes 1])
  case (1 child_loop' L S' repo scan seen li s y)
  show ?case
  proof (intro impI)
    assume S: "S' = S" and s: "P s"
    show "P (snd y)"
      using "1.hyps"(2) s unfolding S
      by (auto split: list.splits prod.splits sum.splits dest: keep_repoGetIndex dest!: "1.hyps"(1))
  qed
qed

lemma keep_indexIngest:
  assumes "indexIngest L S conf repo now li s = Some (e, li', chg', s')" and "P s"
  shows "P s'"
  using assms keep_child_loop [where S' = S]
  by (fastforce simp: indexIngest_def Let_def split: if_splits prod.splits option.splits dest: keep_ingest_convert)

end

section \<open>Loading an index ends\<close>

text \<open>
  The measure of the loop over the children, for a set \<open>D\<close> of digests that covers what the store can
  read: the digests of \<open>D\<close> that were not seen, and the entries of the stack with a digest in \<open>D\<close>.
\<close>

definition child_measure :: "digest set \<Rightarrow> descriptor list \<Rightarrow> digest set \<Rightarrow> nat" where
  "child_measure D scan seen = card (D - seen) + length (filter (\<lambda>d. d_digest d \<in> D) scan)"

lemma child_measure_step:
  assumes "finite D" and "child_step d (li, scan, seen) = (li1, scan1, seen1)"
  shows "child_measure D scan1 seen1 \<le> child_measure D scan seen"
proof (cases "d_digest d \<in> D - seen")
  case True
  then have "D - insert (d_digest d) seen = (D - seen) - {d_digest d}" by auto
  then have "Suc (card (D - insert (d_digest d) seen)) = card (D - seen)"
    using True assms(1) by (simp add: card_Suc_Diff1 del: card_Diff_insert)
  then show ?thesis
    using assms(2) True by (auto simp: child_step_def child_measure_def split: if_splits)
next
  case False
  then have "D - insert (d_digest d) seen = D - seen" by auto
  then show ?thesis
    using assms(2) False by (auto simp: child_step_def child_measure_def split: if_splits)
qed

lemma child_measure_fold:
  assumes "finite D"
  shows "fold child_step ds (li, scan, seen) = (li1, scan1, seen1) \<Longrightarrow>
    child_measure D scan1 seen1 \<le> child_measure D scan seen"
proof (induction ds arbitrary: li scan seen)
  case (Cons d ds)
  obtain li2 scan2 seen2 where step: "child_step d (li, scan, seen) = (li2, scan2, seen2)"
    by (cases "child_step d (li, scan, seen)")
  with Cons.prems have "fold child_step ds (li2, scan2, seen2) = (li1, scan1, seen1)" by simp
  from Cons.IH [OF this] child_measure_step [OF assms step] show ?case by simp
qed simp

lemma child_loop_total:
  assumes fin: "finite D"
    and keep: "\<And>s d. P s \<Longrightarrow> P (snd (so_blobGet S repo d s))"
    and cover: "\<And>s d. P s \<Longrightarrow> d \<notin> D \<Longrightarrow> \<exists>e. fst (so_blobGet S repo d s) = Inl e"
  shows "P s \<Longrightarrow> \<exists>y. child_loop L S repo scan seen li s = Some y"
proof (induction "(child_measure D scan seen, length scan)" arbitrary: scan seen li s
    rule: wf_induct_rule [OF wf_lex_prod [OF wf_less wf_less]])
  case (1 scan seen li s)
  show ?case
  proof (cases scan)
    case Nil
    then show ?thesis by (simp add: child_loop.simps)
  next
    case (Cons d rest)
    obtain res s1 where get: "repoGetIndex L S repo d s = (res, s1)"
      by (cases "repoGetIndex L S repo d s")
    have s1: "P s1"
      using get keep [OF 1(2), of "d_digest d"]
      by (auto simp: repoGetIndex_def split: prod.splits sum.splits option.splits)
    have IH: "\<exists>y. child_loop L S repo scan' seen' li' s1 = Some y"
      if "child_measure D scan' seen' < child_measure D scan seen \<or>
          child_measure D scan' seen' = child_measure D scan seen \<and> length scan' < length scan"
      for scan' seen' li'
      using 1(1) [of scan' seen' s1 li'] that s1 by simp
    show ?thesis
    proof (cases res)
      case (Inl e)
      have "\<exists>y. child_loop L S repo rest seen li s1 = Some y"
        by (rule IH) (simp add: Cons child_measure_def)
      then show ?thesis
        using Cons get Inl by (subst child_loop.simps) simp
    next
      case (Inr ci)
      obtain childIndex n where ci: "ci = (childIndex, n)" by (cases ci)
      have "d_digest d \<in> D"
        using get Inr cover [OF 1(2), of "d_digest d"]
        by (cases "so_blobGet S repo (d_digest d) s") (auto simp: repoGetIndex_def split: sum.splits)
      then have less: "child_measure D rest seen < child_measure D scan seen"
        by (simp add: Cons child_measure_def)
      obtain li1 scan1 seen1
        where fold: "fold child_step (i_manifests childIndex) (li, rest, seen) = (li1, scan1, seen1)"
        by (cases "fold child_step (i_manifests childIndex) (li, rest, seen)")
      have "\<exists>y. child_loop L S repo scan1 seen1 li1 s1 = Some y"
        using child_measure_fold [OF fin fold] less by (intro IH) simp
      then show ?thesis
        using Cons get Inr ci fold by (subst child_loop.simps) simp
    qed
  qed
qed

end
