(* ===== verification/Cache.thy ===== *)
theory Cache
  imports Prelude
begin

text \<open>
  The cache with limits on age and count (\<open>internal/cache/cache.go\<close>).  A cache that is not nil is a
  record of its limits, the time its timer fires next, and its entries.  Each method takes the time
  \<open>time.Now()\<close> gives during the call.  The prune function and its two hooks act on the state \<open>'s\<close>
  of the cache's owner; where Go ranges over the entries the model takes the list of keys in the
  order of the visit.  \<open>Set\<close> returns whether it starts a \<open>pruneCount\<close> goroutine, whose run is a
  step of its own.
\<close>

section \<open>State\<close>

record 'v entry =
  en_used :: time
  en_value :: 'v

record ('k, 'v) cache =
  ca_minAge :: duration
  ca_maxAge :: duration
  ca_minCount :: int
  ca_maxCount :: int
  ca_timer :: "time option"
  ca_entries :: "('k, 'v entry) fmap"

record ('k, 'v, 's) prune_hooks =
  ph_fn :: "('k \<Rightarrow> 'v \<Rightarrow> 's \<Rightarrow> err option \<times> 's) option"
  ph_pre :: "('k \<Rightarrow> 'v \<Rightarrow> 's \<Rightarrow> 's) option"
  ph_post :: "('k \<Rightarrow> 'v \<Rightarrow> 's \<Rightarrow> 's) option"

definition no_hooks :: "('k, 'v, 's) prune_hooks" where
  "no_hooks = \<lparr>ph_fn = None, ph_pre = None, ph_post = None\<rparr>"

section \<open>Operations\<close>

text \<open>
  \<open>New\<close>: the ages with Go's division towards zero; \<open>int(float64(n) * 0.9)\<close> is the integer part of
  nine tenths, as the product does not fall below an integer it should reach.
\<close>

definition cache_new :: "duration \<Rightarrow> int \<Rightarrow> ('k, 'v) cache" where
  "cache_new age count =
     \<lparr>ca_minAge = age,
      ca_maxAge = age + (if age \<ge> 0 then age div 10 else - ((- age) div 10)),
      ca_minCount = (if count > 0 then 9 * count div 10 else 0),
      ca_maxCount = count, ca_timer = None, ca_entries = fmempty\<rparr>"

definition drop_key :: "'k \<Rightarrow> ('k, 'v) cache \<Rightarrow> ('k, 'v) cache" where
  "drop_key k c = c\<lparr>ca_entries := fmdrop k (ca_entries c)\<rparr>"

text \<open>The end of \<open>Delete\<close> and \<open>DeleteAll\<close>: no timer without entries.\<close>

definition stop_if_empty :: "('k, 'v) cache \<Rightarrow> ('k, 'v) cache" where
  "stop_if_empty c = (if ca_entries c = fmempty then c\<lparr>ca_timer := None\<rparr> else c)"

definition cache_delete ::
    "('k, 'v, 's) prune_hooks \<Rightarrow> 'k \<Rightarrow> ('k, 'v) cache \<Rightarrow> 's \<Rightarrow> err option \<times> ('k, 'v) cache \<times> 's" where
  "cache_delete H k c s =
     (case (ph_fn H, fmlookup (ca_entries c) k) of
        (Some f, Some e) \<Rightarrow>
          (case f k (en_value e) s of
             (Some err, s') \<Rightarrow> (Some err, c, s')
           | (None, s') \<Rightarrow> (None, stop_if_empty (drop_key k c), s'))
      | _ \<Rightarrow> (None, stop_if_empty (drop_key k c), s))"

fun delete_all_loop ::
    "('k, 'v, 's) prune_hooks \<Rightarrow> 'k list \<Rightarrow> ('k, 'v) cache \<Rightarrow> 's \<Rightarrow> err list \<Rightarrow>
     err list \<times> ('k, 'v) cache \<times> 's" where
  "delete_all_loop H [] c s errs = (errs, c, s)"
| "delete_all_loop H (k # ks) c s errs =
     (case (ph_fn H, fmlookup (ca_entries c) k) of
        (Some f, Some e) \<Rightarrow>
          (case f k (en_value e) s of
             (Some err, s') \<Rightarrow> delete_all_loop H ks c s' (errs @ [err])
           | (None, s') \<Rightarrow> delete_all_loop H ks (drop_key k c) s' errs)
      | _ \<Rightarrow> delete_all_loop H ks (drop_key k c) s errs)"

definition cache_deleteAll ::
    "('k, 'v, 's) prune_hooks \<Rightarrow> 'k list \<Rightarrow> ('k, 'v) cache \<Rightarrow> 's \<Rightarrow> err list \<times> ('k, 'v) cache \<times> 's" where
  "cache_deleteAll H ks c s =
     (case delete_all_loop H ks c s [] of (errs, c', s') \<Rightarrow> (errs, stop_if_empty c', s'))"

definition cache_get :: "time \<Rightarrow> 'k \<Rightarrow> ('k, 'v) cache \<Rightarrow> 'v res \<times> ('k, 'v) cache" where
  "cache_get now k c =
     (case fmlookup (ca_entries c) k of
        Some e \<Rightarrow> (Inr (en_value e), c\<lparr>ca_entries := fmupd k (e\<lparr>en_used := now\<rparr>) (ca_entries c)\<rparr>)
      | None \<Rightarrow> (Inl ErrNotFound, c))"

definition cache_isEmpty :: "('k, 'v) cache \<Rightarrow> bool" where
  "cache_isEmpty c \<longleftrightarrow> ca_entries c = fmempty"

definition cache_list :: "('k, 'v) cache \<Rightarrow> 'k set" where
  "cache_list c = fmdom' (ca_entries c)"

definition cache_set :: "time \<Rightarrow> 'k \<Rightarrow> 'v \<Rightarrow> ('k, 'v) cache \<Rightarrow> ('k, 'v) cache \<times> bool" where
  "cache_set now k v c =
     (let c1 = c\<lparr>ca_entries := fmupd k \<lparr>en_used = now, en_value = v\<rparr> (ca_entries c)\<rparr>;
          c2 = (if ca_timer c1 = None \<and> ca_maxAge c1 > 0 then c1\<lparr>ca_timer := Some (now + ca_maxAge c1)\<rparr> else c1)
      in (c2, ca_maxCount c2 > 0 \<and> int (fcard (fmdom (ca_entries c2))) > ca_maxCount c2))"

text \<open>The prune function between its two hooks.\<close>

definition run_prune :: "('k, 'v, 's) prune_hooks \<Rightarrow> 'k \<Rightarrow> 'v \<Rightarrow> 's \<Rightarrow> err option \<times> 's" where
  "run_prune H k v s =
     (case ph_fn H of
        None \<Rightarrow> (None, s)
      | Some f \<Rightarrow>
        let s1 = (case ph_pre H of None \<Rightarrow> s | Some g \<Rightarrow> g k v s) in
        case f k v s1 of (e, s2) \<Rightarrow> (e, case ph_post H of None \<Rightarrow> s2 | Some g \<Rightarrow> g k v s2))"

text \<open>The loop of \<open>pruneAge\<close>; its result has the entries, the oldest time of use and the owner's state.\<close>

fun age_loop ::
    "('k, 'v, 's) prune_hooks \<Rightarrow> time \<Rightarrow> time \<Rightarrow> 'k list \<Rightarrow> ('k, 'v entry) fmap \<Rightarrow> time \<Rightarrow> 's \<Rightarrow>
     ('k, 'v entry) fmap \<times> time \<times> 's" where
  "age_loop H now cutoff [] es oldest s = (es, oldest, s)"
| "age_loop H now cutoff (k # ks) es oldest s =
     (case fmlookup es k of
        None \<Rightarrow> age_loop H now cutoff ks es oldest s
      | Some e \<Rightarrow>
        if en_used e < cutoff then
          (case run_prune H k (en_value e) s of
             (Some _, s') \<Rightarrow> age_loop H now cutoff ks (fmupd k (e\<lparr>en_used := now\<rparr>) es) oldest s'
           | (None, s') \<Rightarrow> age_loop H now cutoff ks (fmdrop k es) oldest s')
        else age_loop H now cutoff ks es (if en_used e < oldest then en_used e else oldest) s)"

definition cache_pruneAge ::
    "('k, 'v, 's) prune_hooks \<Rightarrow> time \<Rightarrow> 'k list \<Rightarrow> ('k, 'v) cache \<Rightarrow> 's \<Rightarrow> ('k, 'v) cache \<times> 's" where
  "cache_pruneAge H now ks c s =
     (if ca_minAge c \<le> 0 then (c, s)
      else case age_loop H now (now - ca_minAge c) ks (ca_entries c) now s of
        (es, oldest, s') \<Rightarrow>
          (if es \<noteq> fmempty then
             let dur = ca_maxAge c - (now - oldest);
                 dur = (if dur \<le> 0 then 1000000 else dur)
             in c\<lparr>ca_entries := es, ca_timer := Some (now + dur)\<rparr>
           else c\<lparr>ca_entries := es, ca_timer := None\<rparr>, s'))"

fun count_loop ::
    "('k, 'v, 's) prune_hooks \<Rightarrow> time \<Rightarrow> nat \<Rightarrow> 'k list \<Rightarrow> ('k, 'v entry) fmap \<Rightarrow> nat \<Rightarrow> 's \<Rightarrow>
     ('k, 'v entry) fmap \<times> 's" where
  "count_loop H now delLen [] es n s = (es, s)"
| "count_loop H now delLen (k # ks) es n s =
     (case fmlookup es k of
        None \<Rightarrow> count_loop H now delLen ks es n s
      | Some e \<Rightarrow>
        (case run_prune H k (en_value e) s of
           (Some _, s') \<Rightarrow> count_loop H now delLen ks (fmupd k (e\<lparr>en_used := now\<rparr>) es) n s'
         | (None, s') \<Rightarrow>
             if n + 1 \<ge> delLen then (fmdrop k es, s')
             else count_loop H now delLen ks (fmdrop k es) (n + 1) s'))"

definition used_of :: "('k, 'v entry) fmap \<Rightarrow> 'k \<Rightarrow> time" where
  "used_of es k = (case fmlookup es k of None \<Rightarrow> 0 | Some e \<Rightarrow> en_used e)"

definition cache_pruneCount ::
    "('k, 'v, 's) prune_hooks \<Rightarrow> time \<Rightarrow> 'k list \<Rightarrow> ('k, 'v) cache \<Rightarrow> 's \<Rightarrow> ('k, 'v) cache \<times> 's" where
  "cache_pruneCount H now ks c s =
     (if ca_minCount c \<le> 0 \<or> int (length ks) \<le> ca_minCount c then (c, s)
      else case count_loop H now (length ks - nat (ca_minCount c))
                  (sort_key (used_of (ca_entries c)) ks) (ca_entries c) 0 s of
        (es, s') \<Rightarrow> (c\<lparr>ca_entries := es\<rparr>, s'))"

section \<open>The cache as a map\<close>

text \<open>What a client sees: the value under a key.\<close>

definition cache_val :: "('k, 'v) cache \<Rightarrow> 'k \<Rightarrow> 'v option" where
  "cache_val c k = map_option en_value (fmlookup (ca_entries c) k)"

lemma cache_val_new [simp]: "cache_val (cache_new a n) k = None"
  by (simp add: cache_val_def cache_new_def)

lemma cache_val_drop [simp]: "cache_val (drop_key k c) k' = (if k' = k then None else cache_val c k')"
  by (simp add: cache_val_def drop_key_def)

lemma cache_val_stop [simp]: "cache_val (stop_if_empty c) = cache_val c"
  by (auto simp: cache_val_def stop_if_empty_def)

lemma cache_val_set [simp]:
  "cache_val (fst (cache_set now k v c)) k' = (if k' = k then Some v else cache_val c k')"
  by (auto simp: cache_val_def cache_set_def Let_def)

lemma cache_val_get [simp]: "cache_val (snd (cache_get now k c)) k' = cache_val c k'"
  by (auto simp: cache_val_def cache_get_def split: option.splits)

lemma cache_get_result:
  "fst (cache_get now k c) = (case cache_val c k of None \<Rightarrow> Inl ErrNotFound | Some v \<Rightarrow> Inr v)"
  by (auto simp: cache_val_def cache_get_def split: option.splits)

lemma cache_val_delete [simp]:
  "cache_val (fst (snd (cache_delete no_hooks k c s))) k' = (if k' = k then None else cache_val c k')"
  by (simp add: cache_delete_def no_hooks_def)

lemma cache_delete_no_hooks [simp]:
  "cache_delete no_hooks k c s = (None, stop_if_empty (drop_key k c), s)"
  by (simp add: cache_delete_def no_hooks_def)


section \<open>The interface of a keyed store\<close>

text \<open>
  What the clients of a cache rely on: a lookup returns the last value set under the key, and no
  operation on one key changes what is found under another.
\<close>

locale keyed_store =
  fixes val :: "'c \<Rightarrow> 'k \<Rightarrow> 'v option"
    and put :: "'k \<Rightarrow> 'v \<Rightarrow> 'c \<Rightarrow> 'c"
    and get :: "'k \<Rightarrow> 'c \<Rightarrow> 'v res \<times> 'c"
    and del :: "'k \<Rightarrow> 'c \<Rightarrow> 'c"
  assumes val_put: "val (put k v c) k' = (if k' = k then Some v else val c k')"
    and get_result: "fst (get k c) = (case val c k of None \<Rightarrow> Inl ErrNotFound | Some v \<Rightarrow> Inr v)"
    and val_get: "val (snd (get k c)) k' = val c k'"
    and val_del: "val (del k c) k' = (if k' = k then None else val c k')"
begin

lemma get_after_put: "fst (get k (put k v c)) = Inr v"
  by (simp add: get_result val_put)

lemma get_after_put_other: "k' \<noteq> k \<Longrightarrow> fst (get k' (put k v c)) = fst (get k' c)"
  by (simp add: get_result val_put)

lemma get_after_get: "fst (get k' (snd (get k c))) = fst (get k' c)"
  by (simp add: get_result val_get)

lemma get_after_del: "fst (get k (del k c)) = Inl ErrNotFound"
  by (simp add: get_result val_del)

end

interpretation cache_store:
  keyed_store cache_val "\<lambda>k v c. fst (cache_set now k v c)" "cache_get now"
    "\<lambda>k c. fst (snd (cache_delete no_hooks k c ()))"
  by unfold_locales (simp_all add: cache_get_result)

text \<open>
  A lookup returns the value last set under the key, until the key is deleted; setting,
  deleting or reading one key does not change what is found under another.
\<close>

theorem cache_get_put:
  "fst (cache_get now k (fst (cache_set now k v c))) = Inr v \<and>
   fst (cache_get now k (fst (snd (cache_delete no_hooks k c ())))) = Inl ErrNotFound \<and>
   fst (cache_get now k2 (snd (cache_get now k c))) = fst (cache_get now k2 c) \<and>
   (k2 = k \<or> fst (cache_get now k2 (fst (cache_set now k v c))) = fst (cache_get now k2 c))"
  using cache_store.get_after_put cache_store.get_after_del cache_store.get_after_get
    cache_store.get_after_put_other by (metis (no_types, lifting))

section \<open>Pruning by age\<close>

lemma run_prune_no_hooks [simp]: "run_prune no_hooks k v s = (None, s)"
  by (simp add: run_prune_def no_hooks_def)

text \<open>What one visit leaves of an entry.\<close>

definition aged :: "time \<Rightarrow> time \<Rightarrow> bool \<Rightarrow> 'v entry option \<Rightarrow> 'v entry option set" where
  "aged now cutoff visited eo =
     (case eo of None \<Rightarrow> {None}
      | Some e \<Rightarrow> if visited \<and> en_used e < cutoff then {None, Some (e\<lparr>en_used := now\<rparr>)} else {Some e})"

lemma age_loop_lookup:
  assumes "distinct ks"
  shows "fmlookup (fst (age_loop H now cutoff ks es oldest s)) k \<in> aged now cutoff (k \<in> set ks) (fmlookup es k)"
  using assms
proof (induction ks arbitrary: es oldest s)
  case (Cons k1 ks)
  have IH: "fmlookup (fst (age_loop H now cutoff ks es oldest s)) k \<in>
      aged now cutoff (k \<in> set ks) (fmlookup es k)" for es oldest s
    using Cons by simp
  have notin: "k1 \<notin> set ks" using Cons.prems by simp
  show ?case
  proof (cases "fmlookup es k1")
    case None
    then show ?thesis using IH [of es oldest s] notin by (cases "k = k1") (simp_all add: aged_def)
  next
    case (Some e)
    show ?thesis
    proof (cases "en_used e < cutoff")
      case False
      then show ?thesis
        using Some notin IH [of es "if en_used e < oldest then en_used e else oldest" s]
        by (cases "k = k1") (simp_all add: aged_def)
    next
      case True
      obtain r s' where r: "run_prune H k1 (en_value e) s = (r, s')" by force
      show ?thesis
      proof (cases r)
        case None
        then show ?thesis
          using Some True r notin IH [of "fmdrop k1 es" oldest s']
          by (cases "k = k1") (simp_all add: aged_def)
      next
        case Err: (Some x)
        then show ?thesis
          using Some True r notin IH [of "fmupd k1 (e\<lparr>en_used := now\<rparr>) es" oldest s']
          by (cases "k = k1") (simp_all add: aged_def)
      qed
    qed
  qed
qed (simp add: aged_def split: option.split)

text \<open>The time the loop reports is at most the time of use of every entry it leaves.\<close>

lemma age_loop_oldest:
  assumes "age_loop H now cutoff ks es oldest s = (es', oldest', s')" and "oldest \<le> now" and "distinct ks"
    and "cutoff \<le> oldest"
  shows "oldest' \<le> oldest \<and> cutoff \<le> oldest' \<and>
         (\<forall>k\<in>set ks. \<forall>e. fmlookup es' k = Some e \<longrightarrow> oldest' \<le> en_used e)"
  using assms
proof (induction ks arbitrary: es oldest s)
  case (Cons k1 ks)
  have notin: "k1 \<notin> set ks" and dist: "distinct ks" using Cons.prems by simp_all
  have kept: "fmlookup es' k1 = fmlookup es1 k1"
    if "age_loop H now cutoff ks es1 o1 s1 = (es', oldest', s')" for es1 o1 s1
    using age_loop_lookup [OF dist, of H now cutoff es1 o1 s1 k1] notin that
    by (auto simp: aged_def split: option.splits)
  show ?case
  proof (cases "fmlookup es k1")
    case None
    then have run: "age_loop H now cutoff ks es oldest s = (es', oldest', s')" using Cons.prems by simp
    show ?thesis using Cons.IH [OF run] Cons.prems dist kept [OF run] None by simp
  next
    case (Some e)
    show ?thesis
    proof (cases "en_used e < cutoff")
      case False
      let ?o = "if en_used e < oldest then en_used e else oldest"
      have run: "age_loop H now cutoff ks es ?o s = (es', oldest', s')" using Cons.prems Some False by simp
      have o: "?o \<le> now" "cutoff \<le> ?o" "?o \<le> oldest" "?o \<le> en_used e" using Cons.prems False by simp_all
      have "oldest' \<le> ?o \<and> cutoff \<le> oldest' \<and>
          (\<forall>k\<in>set ks. \<forall>e. fmlookup es' k = Some e \<longrightarrow> oldest' \<le> en_used e)"
        using Cons.IH [OF run] o dist by blast
      then show ?thesis using o kept [OF run] Some by simp
    next
      case True
      obtain r s1 where r: "run_prune H k1 (en_value e) s = (r, s1)" by force
      show ?thesis
      proof (cases r)
        case None
        have run: "age_loop H now cutoff ks (fmdrop k1 es) oldest s1 = (es', oldest', s')"
          using Cons.prems Some True r None by simp
        show ?thesis using Cons.IH [OF run] Cons.prems dist kept [OF run] by simp
      next
        case Err: (Some x)
        have run: "age_loop H now cutoff ks (fmupd k1 (e\<lparr>en_used := now\<rparr>) es) oldest s1 = (es', oldest', s')"
          using Cons.prems Some True r Err by simp
        show ?thesis using Cons.IH [OF run] Cons.prems dist kept [OF run] by simp
      qed
    qed
  qed
qed simp


text \<open>
  The runs of a cache of one owner, each operation at a time of its own.  The timer fires when it
  is due: no operation runs at a later time while it is pending.
\<close>

inductive cache_reach ::
    "('k, 'v, 's) prune_hooks \<Rightarrow> duration \<Rightarrow> int \<Rightarrow> time \<Rightarrow> ('k, 'v) cache \<Rightarrow> 's \<Rightarrow> bool"
  for H :: "('k, 'v, 's) prune_hooks" and age :: duration and n :: int where
  reach_new: "cache_reach H age n now (cache_new age n) s"
| reach_wait: "cache_reach H age n now c s \<Longrightarrow> now \<le> t \<Longrightarrow> (\<And>d. ca_timer c = Some d \<Longrightarrow> t \<le> d) \<Longrightarrow>
    cache_reach H age n t c s"
| reach_get: "cache_reach H age n now c s \<Longrightarrow> cache_reach H age n now (snd (cache_get now k c)) s"
| reach_set: "cache_reach H age n now c s \<Longrightarrow> cache_reach H age n now (fst (cache_set now k v c)) s"
| reach_delete: "cache_reach H age n now c s \<Longrightarrow> cache_delete H k c s = (r, c', s') \<Longrightarrow>
    cache_reach H age n now c' s'"
| reach_age: "cache_reach H age n now c s \<Longrightarrow> distinct ks \<Longrightarrow> set ks = fmdom' (ca_entries c) \<Longrightarrow>
    cache_pruneAge H now ks c s = (c', s') \<Longrightarrow> cache_reach H age n now c' s'"
| reach_count: "cache_reach H age n now c s \<Longrightarrow> distinct ks \<Longrightarrow> set ks = fmdom' (ca_entries c) \<Longrightarrow>
    cache_pruneCount H now ks c s = (c', s') \<Longrightarrow> cache_reach H age n now c' s'"

text \<open>
  The timer invariant: entries were not used in the future, and while there are entries the timer is
  pending, due at most the maximal age after the last use of each of them.
\<close>

definition timer_inv :: "time \<Rightarrow> ('k, 'v) cache \<Rightarrow> bool" where
  "timer_inv now c \<longleftrightarrow>
     (case ca_timer c of
        None \<Rightarrow> ca_entries c = fmempty
      | Some d \<Rightarrow> d \<le> now + ca_maxAge c \<and>
          (\<forall>k e. fmlookup (ca_entries c) k = Some e \<longrightarrow> en_used e \<le> now \<and> d \<le> en_used e + ca_maxAge c))"

lemma timer_inv_get: "timer_inv now c \<Longrightarrow> timer_inv now (snd (cache_get now k c))"
  by (auto simp: timer_inv_def cache_get_def split: option.splits)

lemma timer_inv_set: "timer_inv now c \<Longrightarrow> ca_maxAge c > 0 \<Longrightarrow> timer_inv now (fst (cache_set now k v c))"
  by (auto simp: timer_inv_def cache_set_def Let_def split: option.splits if_splits)

lemma timer_inv_drop: "timer_inv now c \<Longrightarrow> timer_inv now (stop_if_empty (drop_key k c))"
  by (auto simp: timer_inv_def stop_if_empty_def drop_key_def split: option.splits if_splits)

lemma timer_inv_delete: "timer_inv now c \<Longrightarrow> cache_delete H k c s = (r, c', s') \<Longrightarrow> timer_inv now c'"
  by (auto simp: cache_delete_def timer_inv_drop split: option.splits prod.splits)

lemma count_loop_used:
  "fmlookup (fst (count_loop H now m ks es n s)) k = Some e \<Longrightarrow> fmlookup es k = Some e \<or> en_used e = now"
proof (induction ks arbitrary: es n s)
  case (Cons k1 ks)
  show ?case
  proof (cases "fmlookup es k1")
    case None
    then show ?thesis using Cons by simp
  next
    case (Some e1)
    obtain r s1 where r: "run_prune H k1 (en_value e1) s = (r, s1)" by force
    show ?thesis
    proof (cases r)
      case None
      show ?thesis
        using Cons.prems Cons.IH [of "fmdrop k1 es" "n + 1" s1] Some r None
        by (auto split: if_splits)
    next
      case Err: (Some x)
      show ?thesis
        using Cons.prems Cons.IH [of "fmupd k1 (e1\<lparr>en_used := now\<rparr>) es" n s1] Some r Err
        by (auto split: if_splits)
    qed
  qed
qed simp

lemma timer_inv_count:
  assumes "timer_inv now c" and "cache_pruneCount H now ks c s = (c', s')"
    and "distinct ks" and "set ks = fmdom' (ca_entries c)"
  shows "timer_inv now c'"
proof (cases "ca_minCount c \<le> 0 \<or> int (length ks) \<le> ca_minCount c")
  case True
  then show ?thesis using assms by (simp add: cache_pruneCount_def)
next
  case False
  obtain es where es: "count_loop H now (length ks - nat (ca_minCount c))
                  (sort_key (used_of (ca_entries c)) ks) (ca_entries c) 0 s = (es, s')"
    and c': "c' = c\<lparr>ca_entries := es\<rparr>"
    using assms(2) False by (auto simp: cache_pruneCount_def split: prod.splits)
  have "ks \<noteq> []" using False by auto
  then have "ca_entries c \<noteq> fmempty" using assms(4) by force
  then obtain d where d: "ca_timer c = Some d" "d \<le> now + ca_maxAge c"
      "\<forall>k e. fmlookup (ca_entries c) k = Some e \<longrightarrow> en_used e \<le> now \<and> d \<le> en_used e + ca_maxAge c"
    using assms(1) by (auto simp: timer_inv_def split: option.splits)
  have "fmlookup es k = Some e \<Longrightarrow> fmlookup (ca_entries c) k = Some e \<or> en_used e = now" for k e
    using count_loop_used [of H now _ _ "ca_entries c" 0 s k e] es by (metis fst_conv)
  then show ?thesis using d by (force simp: timer_inv_def c')
qed

lemma timer_inv_age:
  assumes "timer_inv now c" and "cache_pruneAge H now ks c s = (c', s')"
    and "distinct ks" and "set ks = fmdom' (ca_entries c)" and "ca_minAge c < ca_maxAge c"
  shows "timer_inv now c'"
proof (cases "ca_minAge c \<le> 0")
  case True
  then show ?thesis using assms by (simp add: cache_pruneAge_def)
next
  case False
  obtain es old where loop: "age_loop H now (now - ca_minAge c) ks (ca_entries c) now s = (es, old, s')"
    using assms(2) False by (auto simp: cache_pruneAge_def Let_def split: prod.splits if_splits)
  have old: "old \<le> now" "now - ca_minAge c \<le> old"
      "\<forall>k\<in>set ks. \<forall>e. fmlookup es k = Some e \<longrightarrow> old \<le> en_used e"
    using age_loop_oldest [OF loop] assms(3) False by auto
  have used: "en_used e \<le> now" and key: "k \<in> set ks" if "fmlookup es k = Some e" for k e
  proof -
    have "Some e \<in> aged now (now - ca_minAge c) (k \<in> set ks) (fmlookup (ca_entries c) k)"
      using age_loop_lookup [OF assms(3), of H now "now - ca_minAge c" "ca_entries c" now s k] loop that by simp
    then obtain e0 where "fmlookup (ca_entries c) k = Some e0" "en_used e \<le> now \<or> e = e0"
      by (auto simp: aged_def split: option.splits if_splits)
    moreover have "en_used e0 \<le> now" if "fmlookup (ca_entries c) k = Some e0"
      using assms(1) that by (auto simp: timer_inv_def split: option.splits)
    ultimately show "en_used e \<le> now" "k \<in> set ks" using assms(4) by (auto intro: fmdom'I)
  qed
  have dur: "\<not> ca_maxAge c - (now - old) \<le> 0" using old(2) assms(5) by simp
  show ?thesis
  proof (cases "es = fmempty")
    case True
    then have "c' = c\<lparr>ca_entries := es, ca_timer := None\<rparr>"
      using assms(2) False loop by (simp add: cache_pruneAge_def)
    then show ?thesis using True by (simp add: timer_inv_def)
  next
    case nonempty: False
    then have c': "c' = c\<lparr>ca_entries := es, ca_timer := Some (now + (ca_maxAge c - (now - old)))\<rparr>"
      using assms(2) False loop dur by (simp add: cache_pruneAge_def Let_def)
    show ?thesis using old used key by (fastforce simp: timer_inv_def c')
  qed
qed


lemma cache_limits [simp]:
  "ca_minAge (snd (cache_get now k c)) = ca_minAge c" "ca_maxAge (snd (cache_get now k c)) = ca_maxAge c"
  "ca_minAge (fst (cache_set now k v c)) = ca_minAge c" "ca_maxAge (fst (cache_set now k v c)) = ca_maxAge c"
  "ca_minAge (stop_if_empty c) = ca_minAge c" "ca_maxAge (stop_if_empty c) = ca_maxAge c"
  "ca_minAge (drop_key k c) = ca_minAge c" "ca_maxAge (drop_key k c) = ca_maxAge c"
  by (auto simp: cache_get_def cache_set_def stop_if_empty_def drop_key_def Let_def split: option.splits)

lemma prune_limits:
  "cache_pruneAge H now ks c s = (c', s') \<Longrightarrow> ca_minAge c' = ca_minAge c \<and> ca_maxAge c' = ca_maxAge c"
  "cache_pruneCount H now ks c s = (c', s') \<Longrightarrow> ca_minAge c' = ca_minAge c \<and> ca_maxAge c' = ca_maxAge c"
  "cache_delete H k c s = (r, c', s') \<Longrightarrow> ca_minAge c' = ca_minAge c \<and> ca_maxAge c' = ca_maxAge c"
  by (auto simp: cache_pruneAge_def cache_pruneCount_def cache_delete_def Let_def
      split: prod.splits if_splits option.splits)

lemma cache_reach_inv:
  assumes "cache_reach H age n now c s" and "age \<ge> 10"
  shows "ca_minAge c = age \<and> ca_maxAge c = age + age div 10 \<and> timer_inv now c"
  using assms
proof (induction rule: cache_reach.induct)
  case (reach_new now s)
  then show ?case by (simp add: cache_new_def timer_inv_def)
next
  case (reach_wait now c s t)
  then show ?case by (force simp: timer_inv_def split: option.splits)
next
  case (reach_age now c s ks c' s')
  then show ?case using prune_limits(1) [OF reach_age.hyps(4)]
      timer_inv_age [OF _ reach_age.hyps(4,2,3)] by simp
next
  case (reach_count now c s ks c' s')
  then show ?case using prune_limits(2) [OF reach_count.hyps(4)]
      timer_inv_count [OF _ reach_count.hyps(4,2,3)] by simp
next
  case (reach_delete now c s k r c' s')
  then show ?case using prune_limits(3) [OF reach_delete.hyps(2)]
      timer_inv_delete [OF _ reach_delete.hyps(2)] by simp
qed (simp_all add: timer_inv_get timer_inv_set)

text \<open>
  In every run in which the timer fires when it is due, no entry stays in the cache longer than
  the configured age plus a tenth after its last use, whatever the operations, the prune function
  and its failures do.
\<close>

theorem cache_age_bound:
  assumes "cache_reach H age n now c s" and "age \<ge> 10" and "fmlookup (ca_entries c) k = Some e"
    and "\<And>d. ca_timer c = Some d \<Longrightarrow> now \<le> d"
  shows "now - en_used e \<le> age + age div 10"
proof -
  have inv: "timer_inv now c" and lim: "ca_maxAge c = age + age div 10"
    using cache_reach_inv [OF assms(1,2)] by simp_all
  obtain d where d: "ca_timer c = Some d" "d \<le> en_used e + ca_maxAge c"
    using inv assms(3) by (auto simp: timer_inv_def split: option.splits)
  then show ?thesis using assms(4) lim by simp
qed

theorem cache_age_bound_witness:
  "let c = fst (cache_set 0 ''k'' True (cache_new 100 5))
   in fmlookup (ca_entries c) ''k'' = Some \<lparr>en_used = 0, en_value = True\<rparr> \<and> (110::int) - 0 \<le> 100 + 100 div 10"
proof -
  define c where "c = fst (cache_set 0 ''k'' True (cache_new 100 5))"
  have lk: "fmlookup (ca_entries c) ''k'' = Some \<lparr>en_used = 0, en_value = True\<rparr>"
    and tm: "ca_timer c = Some 110"
    by (simp_all add: c_def cache_set_def cache_new_def Let_def)
  have "cache_reach no_hooks 100 5 0 c ()"
    unfolding c_def by (rule reach_set, rule reach_new)
  then have "cache_reach no_hooks 100 5 110 c ()"
    by (rule reach_wait) (simp_all add: tm)
  from cache_age_bound [OF this _ lk] have "110 - en_used (\<lparr>en_used = 0, en_value = True\<rparr>) \<le> 100 + 100 div 10"
    using tm by simp
  then show ?thesis unfolding c_def [symmetric] Let_def using lk by simp
qed

section \<open>Pruning by count\<close>

text \<open>A prune function that never fails, or none.\<close>

definition prune_succeeds :: "('k, 'v, 's) prune_hooks \<Rightarrow> bool" where
  "prune_succeeds H \<longleftrightarrow> (\<forall>f. ph_fn H = Some f \<longrightarrow> (\<forall>k v s. fst (f k v s) = None))"

lemma run_prune_succeeds: "prune_succeeds H \<Longrightarrow> fst (run_prune H k v s) = None"
  by (auto simp: run_prune_def prune_succeeds_def Let_def split: option.split prod.split) (metis fst_conv)+

lemma count_loop_removes:
  assumes "prune_succeeds H" and "distinct ks" and "set ks \<subseteq> fmdom' es" and "n < m"
  shows "fst (count_loop H now m ks es n s) = fmfilter (\<lambda>k. k \<notin> set (take (m - n) ks)) es"
  using assms(2-)
proof (induction ks arbitrary: es n s)
  case (Cons k ks)
  obtain e where e: "fmlookup es k = Some e" using Cons.prems by (auto simp: fmlookup_dom'_iff)
  obtain d where d: "m - n = Suc d" using Cons.prems(3) by (metis Suc_diff_Suc)
  have drop: "fmdrop k es = fmfilter (\<lambda>x. x \<noteq> k) es" by (simp add: fmap_ext)
  obtain s1 where r: "run_prune H k (en_value e) s = (None, s1)"
    using run_prune_succeeds [OF assms(1)] by (metis prod.collapse)
  show ?case
  proof (cases "n + 1 \<ge> m")
    case True
    then have "d = 0" using d by simp
    then show ?thesis using True e d r by (simp add: drop)
  next
    case False
    have "set ks \<subseteq> fmdom' (fmdrop k es)" using Cons.prems by auto
    then have "fst (count_loop H now m ks (fmdrop k es) (n + 1) s1) =
        fmfilter (\<lambda>k'. k' \<notin> set (take (m - (n + 1)) ks)) (fmdrop k es)"
      using Cons.IH [of "fmdrop k es" "n + 1"] Cons.prems(1) False by simp
    moreover have "m - (n + 1) = d" using d by simp
    ultimately show ?thesis using False e d r by (auto simp: fmap_ext)
  qed
qed (simp add: fmap_ext)

text \<open>
  C30: When a cache with a positive lower limit holds more entries than it, \<open>pruneCount\<close> keeps exactly
  as many entries as that limit, and every entry it removed was used no later than every entry it kept,
  as long as the prune function of the cache, if it has one, never fails.
\<close>

theorem cache_pruneCount_lru:
  fixes now :: time and s :: 's
  assumes "prune_succeeds H" and "distinct ks" and "set ks = fmdom' (ca_entries c)"
    and "0 < ca_minCount c" and "ca_minCount c < int (length ks)"
  defines "c' \<equiv> fst (cache_pruneCount H now ks c s)"
  shows "int (card (fmdom' (ca_entries c'))) = ca_minCount c \<and>
         (\<forall>k\<in>fmdom' (ca_entries c'). fmlookup (ca_entries c') k = fmlookup (ca_entries c) k) \<and>
         (\<forall>gone\<in>fmdom' (ca_entries c) - fmdom' (ca_entries c'). \<forall>k\<in>fmdom' (ca_entries c').
            used_of (ca_entries c) gone \<le> used_of (ca_entries c) k)"
proof -
  let ?es = "ca_entries c"
  let ?sorted = "sort_key (used_of ?es) ks"
  let ?m = "length ks - nat (ca_minCount c)"
  have m: "0 < ?m" "?m \<le> length ks" using assms(4,5) by auto
  have "ca_entries c' = fmfilter (\<lambda>k. k \<notin> set (take ?m ?sorted)) ?es"
    using assms(2-5) m count_loop_removes [OF assms(1), of ?sorted ?es 0 ?m now s]
    by (simp add: c'_def cache_pruneCount_def case_prod_beta)
  then have es': "ca_entries c' = fmfilter (\<lambda>k. k \<notin> set (take ?m ?sorted)) ?es" .
  have split: "take ?m ?sorted @ drop ?m ?sorted = ?sorted" by simp
  have disj: "set (take ?m ?sorted) \<inter> set (drop ?m ?sorted) = {}" "distinct (drop ?m ?sorted)"
    using assms(2) by (simp_all add: set_take_disj_set_drop_if_distinct)
  have "set ?sorted = fmdom' ?es" using assms(3) by simp
  then have un: "set (take ?m ?sorted) \<union> set (drop ?m ?sorted) = fmdom' ?es"
    by (metis split set_append)
  have dom': "fmdom' (ca_entries c') = set (drop ?m ?sorted)"
    unfolding es' using un disj(1) by auto
  have "card (set (drop ?m ?sorted)) = length ks - ?m"
    using distinct_card [OF disj(2)] by simp
  also have "int \<dots> = ca_minCount c" using assms(4,5) by simp
  finally have "int (card (fmdom' (ca_entries c'))) = ca_minCount c" using dom' by simp
  moreover have "\<forall>k\<in>fmdom' (ca_entries c'). fmlookup (ca_entries c') k = fmlookup ?es k"
    unfolding dom' using disj(1) by (auto simp: es')
  moreover have "used_of ?es gone \<le> used_of ?es k"
    if "gone \<in> fmdom' ?es - fmdom' (ca_entries c')" "k \<in> fmdom' (ca_entries c')" for gone k
  proof -
    have "sorted (map (used_of ?es) (take ?m ?sorted @ drop ?m ?sorted))"
      unfolding split by (rule sorted_sort_key)
    then have "\<forall>x\<in>set (take ?m ?sorted). \<forall>y\<in>set (drop ?m ?sorted). used_of ?es x \<le> used_of ?es y"
      unfolding map_append sorted_append by simp
    moreover have "gone \<in> set (take ?m ?sorted)" "k \<in> set (drop ?m ?sorted)"
      using that un dom' by auto
    ultimately show ?thesis by blast
  qed
  ultimately show ?thesis by blast
qed

theorem cache_pruneCount_lru_witness:
  "let c = (cache_new 0 3 :: (nat, bool) cache)\<lparr>ca_entries :=
               fmupd 1 \<lparr>en_used = 5, en_value = True\<rparr> (fmupd 2 \<lparr>en_used = 9, en_value = True\<rparr>
                 (fmupd 3 \<lparr>en_used = 4, en_value = True\<rparr> (fmupd 4 \<lparr>en_used = 7, en_value = False\<rparr> fmempty)))\<rparr>
   in int (card (fmdom' (ca_entries (fst (cache_pruneCount no_hooks 10 [1, 2, 3, 4] c ()))))) = 2"
proof -
  define c where "c = (cache_new 0 3 :: (nat, bool) cache)\<lparr>ca_entries :=
               fmupd 1 \<lparr>en_used = 5, en_value = True\<rparr> (fmupd 2 \<lparr>en_used = 9, en_value = True\<rparr>
                 (fmupd 3 \<lparr>en_used = 4, en_value = True\<rparr> (fmupd 4 \<lparr>en_used = 7, en_value = False\<rparr> fmempty)))\<rparr>"
  have "ca_minCount c = 2" "set [1, 2, 3, 4] = fmdom' (ca_entries c)"
    by (auto simp: c_def cache_new_def)
  then show ?thesis unfolding c_def [symmetric] Let_def
    using cache_pruneCount_lru [of no_hooks "[1, 2, 3, 4]" c 10 "()"] by (simp add: prune_succeeds_def no_hooks_def)
qed

text \<open>
  A cache created with a count limit of one never removes an entry by count: its lower limit
  is the integer part of 0.9, and \<open>pruneCount\<close> does nothing for a lower limit of 0.
\<close>

theorem cache_limit_one_unbounded:
  "cache_pruneCount H now ks ((cache_new age 1)\<lparr>ca_timer := tm, ca_entries := es\<rparr>) s =
     ((cache_new age 1)\<lparr>ca_timer := tm, ca_entries := es\<rparr>, s)"
  by (simp add: cache_pruneCount_def cache_new_def)

section \<open>Pruning invents nothing\<close>

lemma age_loop_val:
  "fmlookup (fst (age_loop H now cutoff ks es m s)) k = Some e \<Longrightarrow>
     \<exists>e0. fmlookup es k = Some e0 \<and> en_value e0 = en_value e"
proof (induction H now cutoff ks es m s rule: age_loop.induct)
  case (2 H now cutoff k1 ks es oldest s)
  show ?case
  proof (cases "fmlookup es k1")
    case None
    then show ?thesis using 2 by simp
  next
    case (Some e1)
    obtain x s1 where "run_prune H k1 (en_value e1) s = (x, s1)" by force
    then show ?thesis
      using 2 Some by (cases x) (fastforce split: if_splits)+
  qed
qed simp

lemma count_loop_val:
  "fmlookup (fst (count_loop H now m ks es n s)) k = Some e \<Longrightarrow>
     \<exists>e0. fmlookup es k = Some e0 \<and> en_value e0 = en_value e"
proof (induction H now m ks es n s rule: count_loop.induct)
  case (2 H now m k1 ks es n s)
  show ?case
  proof (cases "fmlookup es k1")
    case None
    then show ?thesis using 2 by simp
  next
    case (Some e1)
    obtain x s1 where "run_prune H k1 (en_value e1) s = (x, s1)" by force
    then show ?thesis
      using 2 Some by (cases x) (fastforce split: if_splits)+
  qed
qed simp

lemma prune_val:
  "cache_val (fst (cache_pruneAge H now ks c s)) k = Some v \<Longrightarrow> cache_val c k = Some v"
  "cache_val (fst (cache_pruneCount H now ks c s)) k = Some v \<Longrightarrow> cache_val c k = Some v"
  by (auto simp: cache_val_def cache_pruneAge_def cache_pruneCount_def Let_def case_prod_unfold
      split: if_splits dest!: age_loop_val count_loop_val)

end
