(* ===== verification/Reproducible.thy ===== *)
theory Reproducible
  imports Go_Strings
begin

text \<open>
  The clock of the index (\<open>internal/reproducible/time.go\<close>): a fixed time when the environment sets
  one, the system clock otherwise.  Times count from Go's zero time.
\<close>

definition unix_epoch :: time where
  "unix_epoch = 62135596800 * 1000000000"

definition time_unix :: "int \<Rightarrow> time" where
  "time_unix sec = unix_epoch + sec * 1000000000"

text \<open>\<open>TimeProcEnv\<close>: the value of \<open>timeProcTime\<close> for the value of the environment variable.\<close>

definition timeProcEnv :: "string \<Rightarrow> time" where
  "timeProcEnv sec =
     (if sec = [] then 0
      else let (secI, bad) = parse_int64 sec in if bad then 0 else time_unix secI)"

text \<open>\<open>TimeNow\<close>.\<close>

definition timeNow :: "time \<Rightarrow> time \<Rightarrow> time" where
  "timeNow procTime now = (if procTime \<noteq> 0 then procTime else now)"

text \<open>
  With the variable set to a number of seconds, other than the one that names Go's zero time,
  the clock is stopped at that time; without it, or with an unreadable value, it is the system's.
\<close>

theorem timeNow_reproducible:
  assumes "- max_int64 - 1 \<le> sec" and "sec \<le> max_int64" and "sec \<noteq> - 62135596800"
  shows "timeNow (timeProcEnv (show_int sec)) now = time_unix sec \<and>
         timeNow (timeProcEnv []) now = now"
proof -
  have "show_int sec \<noteq> []" by (simp add: show_int_def)
  then show ?thesis
    using assms parse_show_int [OF assms(1,2)]
    by (auto simp: timeNow_def timeProcEnv_def time_unix_def unix_epoch_def)
qed

theorem timeNow_reproducible_witness:
  "timeNow (timeProcEnv (show_int 1700000000)) 5 = 63835596800 * 1000000000"
  using timeNow_reproducible [of 1700000000 5]
  by (simp add: max_int64_def time_unix_def unix_epoch_def)

end
