(* ===== verification/Files.thy ===== *)
theory Files
  imports Go_Strings "HOL-Library.List_Lexorder" "HOL-Library.Char_ord"
begin

text \<open>
  The calls of Go's package \<open>os\<close> the stores make, on a file system of paths and inodes.  A path is
  the list of its elements from the root.  A file keeps its inode when it is renamed, so an open
  file stays what it was; the program makes no hard links.  Every call may fail: \<open>fs_faults\<close> holds
  the outcome of the next calls, where \<open>Some e\<close> is an error (no space, too many open files, a
  process that is killed) after which the call has had no effect, and \<open>fs_reads\<close> in the same way the
  outcome of reading an upload again from its start.  \<open>fs_rand\<close> are the random
  suffixes \<open>os.CreateTemp\<close> draws.  Directories have no modification time of their own here.
\<close>

section \<open>State\<close>

datatype 'a os_res = OsOk 'a | OsNotExist | OsErr string

type_synonym path = "string list"

datatype fnode = NDir | NFile nat

record fsys =
  fs_tree :: "(path, fnode) fmap"
  fs_data :: "(nat, string \<times> int) fmap"
  fs_next :: nat
  fs_rand :: "string list"
  fs_faults :: "string option list"
  fs_reads :: "string option list"

definition is_file :: "fnode option \<Rightarrow> bool" where
  "is_file n \<longleftrightarrow> (case n of Some (NFile _) \<Rightarrow> True | _ \<Rightarrow> False)"

text \<open>The proper prefixes of a path but the root, and all of them with the path.\<close>

definition ancestors :: "path \<Rightarrow> path list" where
  "ancestors p = map (\<lambda>n. take n p) [1..<length p]"

definition os_look :: "fsys \<Rightarrow> path \<Rightarrow> fnode os_res" where
  "os_look F p =
     (if list_ex (\<lambda>q. is_file (fmlookup (fs_tree F) q)) (ancestors p) then OsErr ''not a directory''
      else if p = [] then OsOk NDir
      else case fmlookup (fs_tree F) p of None \<Rightarrow> OsNotExist | Some n \<Rightarrow> OsOk n)"

definition file_bytes :: "fsys \<Rightarrow> nat \<Rightarrow> string" where
  "file_bytes F i = (case fmlookup (fs_data F) i of None \<Rightarrow> [] | Some (b, _) \<Rightarrow> b)"

definition file_time :: "fsys \<Rightarrow> nat \<Rightarrow> int" where
  "file_time F i = (case fmlookup (fs_data F) i of None \<Rightarrow> 0 | Some (_, t) \<Rightarrow> t)"

definition node_time :: "fsys \<Rightarrow> fnode \<Rightarrow> int" where
  "node_time F n = (case n of NDir \<Rightarrow> 0 | NFile i \<Rightarrow> file_time F i)"

text \<open>Reading an open file to its end.\<close>

definition node_read :: "fsys \<Rightarrow> fnode \<Rightarrow> string res" where
  "node_read F n = (case n of NDir \<Rightarrow> Inl (ErrOther ''is a directory'') | NFile i \<Rightarrow> Inr (file_bytes F i))"

section \<open>Calls\<close>

definition os_call :: "(fsys \<Rightarrow> 'a os_res \<times> fsys) \<Rightarrow> fsys \<Rightarrow> 'a os_res \<times> fsys" where
  "os_call f F =
     (case fs_faults F of
        [] \<Rightarrow> f F
      | None # es \<Rightarrow> f (F\<lparr>fs_faults := es\<rparr>)
      | Some e # es \<Rightarrow> (OsErr e, F\<lparr>fs_faults := es\<rparr>))"

definition set_node :: "path \<Rightarrow> fnode \<Rightarrow> fsys \<Rightarrow> fsys" where
  "set_node p n F = F\<lparr>fs_tree := fmupd p n (fs_tree F)\<rparr>"

definition drop_node :: "path \<Rightarrow> fsys \<Rightarrow> fsys" where
  "drop_node p F = F\<lparr>fs_tree := fmdrop p (fs_tree F)\<rparr>"

definition set_data :: "nat \<Rightarrow> string \<Rightarrow> int \<Rightarrow> fsys \<Rightarrow> fsys" where
  "set_data i b t F = F\<lparr>fs_data := fmupd i (b, t) (fs_data F)\<rparr>"

text \<open>A new inode with the given content.\<close>

definition new_file :: "path \<Rightarrow> string \<Rightarrow> int \<Rightarrow> fsys \<Rightarrow> fsys" where
  "new_file p b t F = set_node p (NFile (fs_next F)) (set_data (fs_next F) b t (F\<lparr>fs_next := Suc (fs_next F)\<rparr>))"

text \<open>\<open>os.Stat\<close>: whether it is a directory, and the modification time.\<close>

definition os_stat :: "path \<Rightarrow> fsys \<Rightarrow> (bool \<times> int) os_res \<times> fsys" where
  "os_stat p = os_call (\<lambda>F.
     (case os_look F p of
        OsOk n \<Rightarrow> OsOk (n = NDir, node_time F n) | OsNotExist \<Rightarrow> OsNotExist | OsErr e \<Rightarrow> OsErr e, F))"

text \<open>\<open>os.Open\<close>, and \<open>Stat\<close> on the open file.\<close>

definition os_open :: "path \<Rightarrow> fsys \<Rightarrow> fnode os_res \<times> fsys" where
  "os_open p = os_call (\<lambda>F. (os_look F p, F))"

definition os_fstat :: "fnode \<Rightarrow> fsys \<Rightarrow> int os_res \<times> fsys" where
  "os_fstat n = os_call (\<lambda>F. (OsOk (node_time F n), F))"

definition os_readFile :: "path \<Rightarrow> fsys \<Rightarrow> string os_res \<times> fsys" where
  "os_readFile p = os_call (\<lambda>F.
     (case os_look F p of
        OsOk (NFile i) \<Rightarrow> OsOk (file_bytes F i) | OsOk NDir \<Rightarrow> OsErr ''is a directory''
      | OsNotExist \<Rightarrow> OsNotExist | OsErr e \<Rightarrow> OsErr e, F))"

definition os_writeFile :: "path \<Rightarrow> string \<Rightarrow> int \<Rightarrow> fsys \<Rightarrow> unit os_res \<times> fsys" where
  "os_writeFile p b now = os_call (\<lambda>F.
     case os_look F p of
       OsOk NDir \<Rightarrow> (OsErr ''is a directory'', F)
     | OsOk (NFile i) \<Rightarrow> (OsOk (), set_data i b now F)
     | OsNotExist \<Rightarrow>
         if os_look F (butlast p) = OsOk NDir then (OsOk (), new_file p b now F) else (OsNotExist, F)
     | OsErr e \<Rightarrow> (OsErr e, F))"

text \<open>\<open>os.MkdirAll\<close>.\<close>

definition make_dir :: "path \<Rightarrow> fsys \<Rightarrow> fsys" where
  "make_dir p F = (if fmlookup (fs_tree F) p = None then set_node p NDir F else F)"

definition os_mkdirAll :: "path \<Rightarrow> fsys \<Rightarrow> unit os_res \<times> fsys" where
  "os_mkdirAll p = os_call (\<lambda>F.
     let ps = ancestors p @ (if p = [] then [] else [p]) in
     if list_ex (\<lambda>q. is_file (fmlookup (fs_tree F) q)) ps then (OsErr ''not a directory'', F)
     else (OsOk (), fold make_dir ps F))"

text \<open>\<open>os.CreateTemp(dir, prefix + "*")\<close>: the name with the first suffix that is free.\<close>

fun temp_name :: "fsys \<Rightarrow> path \<Rightarrow> string \<Rightarrow> string list \<Rightarrow> (path \<times> string list) option" where
  "temp_name F dir pre [] = None"
| "temp_name F dir pre (x # xs) =
     (if fmlookup (fs_tree F) (dir @ [pre @ x]) = None then Some (dir @ [pre @ x], xs)
      else temp_name F dir pre xs)"

definition os_createTemp :: "path \<Rightarrow> string \<Rightarrow> int \<Rightarrow> fsys \<Rightarrow> (path \<times> nat) os_res \<times> fsys" where
  "os_createTemp dir pre now = os_call (\<lambda>F.
     case os_look F dir of
       OsOk NDir \<Rightarrow>
         (case temp_name F dir pre (fs_rand F) of
            None \<Rightarrow> (OsErr ''file exists'', F)
          | Some (p, xs) \<Rightarrow> (OsOk (p, fs_next F), new_file p [] now (F\<lparr>fs_rand := xs\<rparr>)))
     | OsOk (NFile _) \<Rightarrow> (OsErr ''not a directory'', F)
     | OsNotExist \<Rightarrow> (OsNotExist, F)
     | OsErr e \<Rightarrow> (OsErr e, F))"

text \<open>\<open>os.Remove\<close>: a file, or a directory that is empty.\<close>

definition has_entries :: "fsys \<Rightarrow> path \<Rightarrow> bool" where
  "has_entries F p \<longleftrightarrow> \<not> fmpred (\<lambda>q _. q = p \<or> take (length p) q \<noteq> p) (fs_tree F)"

definition os_remove :: "path \<Rightarrow> fsys \<Rightarrow> unit os_res \<times> fsys" where
  "os_remove p = os_call (\<lambda>F.
     case os_look F p of
       OsOk NDir \<Rightarrow>
         if p = [] \<or> has_entries F p then (OsErr ''directory not empty'', F) else (OsOk (), drop_node p F)
     | OsOk (NFile _) \<Rightarrow> (OsOk (), drop_node p F)
     | OsNotExist \<Rightarrow> (OsNotExist, F)
     | OsErr e \<Rightarrow> (OsErr e, F))"

text \<open>\<open>os.Rename\<close> of a file; the program renames nothing else.\<close>

definition os_rename :: "path \<Rightarrow> path \<Rightarrow> fsys \<Rightarrow> unit os_res \<times> fsys" where
  "os_rename a b = os_call (\<lambda>F.
     case os_look F a of
       OsOk NDir \<Rightarrow> (OsErr ''is a directory'', F)
     | OsOk (NFile i) \<Rightarrow>
         (case os_look F b of
            OsOk NDir \<Rightarrow> (OsErr ''file exists'', F)
          | OsErr e \<Rightarrow> (OsErr e, F)
          | OsOk (NFile _) \<Rightarrow> (OsOk (), set_node b (NFile i) (drop_node a F))
          | OsNotExist \<Rightarrow>
              if os_look F (butlast b) = OsOk NDir then (OsOk (), set_node b (NFile i) (drop_node a F))
              else (OsNotExist, F))
     | OsNotExist \<Rightarrow> (OsNotExist, F)
     | OsErr e \<Rightarrow> (OsErr e, F))"

text \<open>\<open>os.ReadDir\<close>: names and whether they are directories, in the order of the names.\<close>

definition dir_entries :: "fsys \<Rightarrow> path \<Rightarrow> (string \<times> bool) list" where
  "dir_entries F p =
     map (\<lambda>q. (List.last q, fmlookup (fs_tree F) q = Some NDir))
       (filter (\<lambda>q. q \<noteq> [] \<and> butlast q = p) (sorted_list_of_fset (fmdom (fs_tree F))))"

definition os_readDir :: "path \<Rightarrow> fsys \<Rightarrow> (string \<times> bool) list os_res \<times> fsys" where
  "os_readDir p = os_call (\<lambda>F.
     (case os_look F p of
        OsOk NDir \<Rightarrow> OsOk (dir_entries F p) | OsOk (NFile _) \<Rightarrow> OsErr ''not a directory''
      | OsNotExist \<Rightarrow> OsNotExist | OsErr e \<Rightarrow> OsErr e, F))"

text \<open>Methods of an open file: \<open>Write\<close> at its end, \<open>Close\<close>, and reading it from the start.\<close>

definition fh_write :: "nat \<Rightarrow> string \<Rightarrow> int \<Rightarrow> fsys \<Rightarrow> unit os_res \<times> fsys" where
  "fh_write i b now = os_call (\<lambda>F. (OsOk (), set_data i (file_bytes F i @ b) now F))"

definition fh_close :: "fsys \<Rightarrow> unit os_res \<times> fsys" where
  "fh_close = os_call (\<lambda>F. (OsOk (), F))"

definition fh_reread :: "nat \<Rightarrow> fsys \<Rightarrow> string os_res \<times> fsys" where
  "fh_reread i F =
     (case fs_reads F of
        [] \<Rightarrow> (OsOk (file_bytes F i), F)
      | None # es \<Rightarrow> (OsOk (file_bytes F i), F\<lparr>fs_reads := es\<rparr>)
      | Some e # es \<Rightarrow> (OsErr e, F\<lparr>fs_reads := es\<rparr>))"

section \<open>What the calls do\<close>

lemma faults_frame [simp]:
  "os_look (F\<lparr>fs_faults := es\<rparr>) = os_look F" "file_bytes (F\<lparr>fs_faults := es\<rparr>) = file_bytes F"
  "file_time (F\<lparr>fs_faults := es\<rparr>) = file_time F" "node_time (F\<lparr>fs_faults := es\<rparr>) = node_time F"
  "node_read (F\<lparr>fs_faults := es\<rparr>) = node_read F" "dir_entries (F\<lparr>fs_faults := es\<rparr>) = dir_entries F"
  "has_entries (F\<lparr>fs_faults := es\<rparr>) = has_entries F"
  by (auto simp: os_look_def file_bytes_def file_time_def node_time_def node_read_def dir_entries_def has_entries_def
      fun_eq_iff split: fnode.split)

lemma os_callE:
  assumes "os_call f F = (x, F')"
  obtains (fault) es e where "x = OsErr e" "F' = F\<lparr>fs_faults := es\<rparr>"
    | (ran) es where "f (F\<lparr>fs_faults := es\<rparr>) = (x, F')"
proof (cases "fs_faults F")
  case Nil
  then have "f (F\<lparr>fs_faults := []\<rparr>) = (x, F')"
    using assms unfolding os_call_def by (metis fsys.surjective fsys.update_convs(5) list.simps(4))
  then show ?thesis by (rule ran)
next
  case (Cons e es)
  then show ?thesis
    using assms fault [of _ es] ran [of es] by (cases e) (auto simp: os_call_def)
qed

text \<open>Calls that change nothing.\<close>

lemma quiet_calls:
  "os_stat p F = (x1, F') \<Longrightarrow> \<exists>es. F' = F\<lparr>fs_faults := es\<rparr>"
  "os_open p F = (x2, F') \<Longrightarrow> \<exists>es. F' = F\<lparr>fs_faults := es\<rparr>"
  "os_fstat n F = (x3, F') \<Longrightarrow> \<exists>es. F' = F\<lparr>fs_faults := es\<rparr>"
  "os_readFile p F = (x4, F') \<Longrightarrow> \<exists>es. F' = F\<lparr>fs_faults := es\<rparr>"
  "os_readDir p F = (x5, F') \<Longrightarrow> \<exists>es. F' = F\<lparr>fs_faults := es\<rparr>"
  "fh_close F = (x6, F') \<Longrightarrow> \<exists>es. F' = F\<lparr>fs_faults := es\<rparr>"
  by (auto simp: os_stat_def os_open_def os_fstat_def os_readFile_def os_readDir_def fh_close_def elim!: os_callE)

text \<open>The results of reads.\<close>

lemma os_open_OsOk: "os_open p F = (OsOk n, F') \<Longrightarrow> os_look F p = OsOk n"
  by (auto simp: os_open_def elim!: os_callE)

lemma fh_reread_no_error: "fs_reads F = [] \<Longrightarrow> fh_reread i F = (OsOk (file_bytes F i), F)"
  by (simp add: fh_reread_def)

lemma set_node_frame [simp]:
  "fs_tree (set_node p n F) = fmupd p n (fs_tree F)" "fs_data (set_node p n F) = fs_data F"
  "fs_next (set_node p n F) = fs_next F" "fs_rand (set_node p n F) = fs_rand F"
  "fs_faults (set_node p n F) = fs_faults F" "file_bytes (set_node p n F) = file_bytes F"
  "fs_reads (set_node p n F) = fs_reads F"
  by (simp_all add: set_node_def file_bytes_def fun_eq_iff)

lemma drop_node_frame [simp]:
  "fs_tree (drop_node p F) = fmdrop p (fs_tree F)" "fs_data (drop_node p F) = fs_data F"
  "fs_next (drop_node p F) = fs_next F" "fs_rand (drop_node p F) = fs_rand F"
  "fs_faults (drop_node p F) = fs_faults F" "file_bytes (drop_node p F) = file_bytes F"
  "fs_reads (drop_node p F) = fs_reads F"
  by (simp_all add: drop_node_def file_bytes_def fun_eq_iff)

lemma set_data_frame [simp]:
  "fs_tree (set_data i b t F) = fs_tree F" "fs_next (set_data i b t F) = fs_next F"
  "fs_rand (set_data i b t F) = fs_rand F" "fs_faults (set_data i b t F) = fs_faults F"
  "fs_reads (set_data i b t F) = fs_reads F"
  "file_bytes (set_data i b t F) j = (if j = i then b else file_bytes F j)"
  by (simp_all add: set_data_def file_bytes_def)

lemma new_file_frame [simp]:
  "fs_tree (new_file p b t F) = fmupd p (NFile (fs_next F)) (fs_tree F)" "fs_next (new_file p b t F) = Suc (fs_next F)"
  "fs_rand (new_file p b t F) = fs_rand F" "fs_faults (new_file p b t F) = fs_faults F"
  "fs_reads (new_file p b t F) = fs_reads F"
  "file_bytes (new_file p b t F) j = (if j = fs_next F then b else file_bytes F j)"
  by (simp_all add: new_file_def set_node_def set_data_def file_bytes_def)

text \<open>Directories come and go, files stay.\<close>

lemma make_dirs_frame:
  "fs_data (fold make_dir ps F) = fs_data F \<and> fs_next (fold make_dir ps F) = fs_next F \<and>
   fs_rand (fold make_dir ps F) = fs_rand F \<and> fs_reads (fold make_dir ps F) = fs_reads F \<and> file_bytes (fold make_dir ps F) = file_bytes F \<and>
   (fmlookup (fs_tree (fold make_dir ps F)) p = Some (NFile i) \<longleftrightarrow> fmlookup (fs_tree F) p = Some (NFile i))"
  by (induction ps arbitrary: F) (auto simp: make_dir_def)

lemma mkdirAll_files:
  assumes "os_mkdirAll p F = (x, F')"
  shows "fs_next F' = fs_next F" "fs_rand F' = fs_rand F" "fs_reads F' = fs_reads F" "file_bytes F' = file_bytes F"
    "fmlookup (fs_tree F') q = Some (NFile i) \<longleftrightarrow> fmlookup (fs_tree F) q = Some (NFile i)"
proof -
  have "\<exists>es ps. F' = fold make_dir ps (F\<lparr>fs_faults := es\<rparr>)"
    using assms unfolding os_mkdirAll_def Let_def
  proof (cases rule: os_callE)
    case (fault es e)
    then show ?thesis by (intro exI [of _ es] exI [of _ "[]"]) simp
  next
    case (ran es)
    then show ?thesis
      by (cases "F' = F\<lparr>fs_faults := es\<rparr>") (rule exI [of _ es], rule exI [of _ "[]"], simp, metis prod.inject)
  qed
  then show "fs_next F' = fs_next F" "fs_rand F' = fs_rand F" "fs_reads F' = fs_reads F" "file_bytes F' = file_bytes F"
    "fmlookup (fs_tree F') q = Some (NFile i) \<longleftrightarrow> fmlookup (fs_tree F) q = Some (NFile i)"
    using make_dirs_frame by auto
qed

lemma os_removeE:
  assumes "os_remove p F = (x, F')"
  obtains es where "F' = F\<lparr>fs_faults := es\<rparr>" | es where "F' = drop_node p (F\<lparr>fs_faults := es\<rparr>)"
  using assms by (auto simp: os_remove_def elim!: os_callE split: os_res.splits fnode.splits if_splits)

lemma os_renameE:
  assumes "os_rename a b F = (x, F')"
  obtains (failed) es where "x \<noteq> OsOk ()" "F' = F\<lparr>fs_faults := es\<rparr>"
    | (moved) es i where "x = OsOk ()" "fmlookup (fs_tree F) a = Some (NFile i)"
        "F' = set_node b (NFile i) (drop_node a (F\<lparr>fs_faults := es\<rparr>))"
  using assms
  by (auto simp: os_rename_def os_look_def elim!: os_callE
      split: os_res.splits fnode.splits if_splits option.splits)

lemma temp_name_faults [simp]: "temp_name (F\<lparr>fs_faults := es\<rparr>) dir pre xs = temp_name F dir pre xs"
  by (induction xs) simp_all

lemma temp_name_Some:
  "temp_name F dir pre xs = Some (p, ys) \<Longrightarrow>
     \<exists>x zs. xs = zs @ x # ys \<and> p = dir @ [pre @ x] \<and> fmlookup (fs_tree F) p = None"
proof (induction xs)
  case (Cons x xs)
  show ?case
  proof (cases "fmlookup (fs_tree F) (dir @ [pre @ x]) = None")
    case True
    then show ?thesis using Cons.prems by (auto intro: exI [of _ "[]"])
  next
    case False
    then obtain y zs where "xs = zs @ y # ys \<and> p = dir @ [pre @ y] \<and> fmlookup (fs_tree F) p = None"
      using Cons by auto
    then show ?thesis by (intro exI [of _ y] exI [of _ "x # zs"]) auto
  qed
qed simp

lemma os_createTempE:
  assumes "os_createTemp dir pre now F = (x, F')"
  obtains (failed) es where "\<And>v. x \<noteq> OsOk v" "F' = F\<lparr>fs_faults := es\<rparr>"
    | (made) es p y ys zs where "x = OsOk (p, fs_next F)" "fs_rand F = zs @ y # ys" "p = dir @ [pre @ y]"
        "fmlookup (fs_tree F) p = None" "F' = new_file p [] now (F\<lparr>fs_faults := es, fs_rand := ys\<rparr>)"
  using assms unfolding os_createTemp_def
proof (cases rule: os_callE)
  case (fault es e)
  then show ?thesis by (intro failed) simp_all
next
  case (ran es)
  show ?thesis
  proof (cases "os_look F dir = OsOk NDir \<and> temp_name F dir pre (fs_rand F) \<noteq> None")
    case False
    then show ?thesis
      using ran by (intro failed [of es]) (auto split: os_res.splits fnode.splits option.splits)
  next
    case True
    then obtain p ys where n: "temp_name F dir pre (fs_rand F) = Some (p, ys)" by auto
    then have "x = OsOk (p, fs_next F)" "F' = new_file p [] now (F\<lparr>fs_faults := es, fs_rand := ys\<rparr>)"
      using ran True n by simp_all
    moreover obtain y zs where "fs_rand F = zs @ y # ys \<and> p = dir @ [pre @ y] \<and> fmlookup (fs_tree F) p = None"
      using temp_name_Some [OF n] by blast
    ultimately show ?thesis by (intro made) auto
  qed
qed

lemma fh_writeE:
  assumes "fh_write i b now F = (x, F')"
  obtains (failed) es where "x \<noteq> OsOk ()" "F' = F\<lparr>fs_faults := es\<rparr>"
    | (written) es where "x = OsOk ()" "F' = set_data i (file_bytes F i @ b) now (F\<lparr>fs_faults := es\<rparr>)"
  using assms by (auto simp: fh_write_def elim!: os_callE)

lemma os_writeFileE:
  assumes "os_writeFile p b now F = (x, F')"
  obtains (failed) es where "F' = F\<lparr>fs_faults := es\<rparr>"
    | (old) es i where "fmlookup (fs_tree F) p = Some (NFile i)" "F' = set_data i b now (F\<lparr>fs_faults := es\<rparr>)"
    | (fresh) es where "fmlookup (fs_tree F) p = None" "F' = new_file p b now (F\<lparr>fs_faults := es\<rparr>)"
  using assms
  by (auto simp: os_writeFile_def os_look_def elim!: os_callE
      split: os_res.splits fnode.splits if_splits option.splits)

end
