(* ===== verification/Mem_Store.thy ===== *)
theory Mem_Store
  imports Ingest Cache Reproducible Files
begin

text \<open>
  The memory store (\<open>internal/store/mem.go\<close>).  The state holds the repositories, the upload objects
  behind their addresses (an upload outlives the session that leads to it), the clock, the source of
  session IDs, and the backing directory, which the store only reads.  Every method is one
  definition.  The mutexes are not part of the sequential model, with one exception: \<open>mr_stuck\<close>
  records that a method returned without unlocking the repository.
\<close>

section \<open>State\<close>

record backing =
  bd_open :: "string \<Rightarrow> digest \<Rightarrow> reader os_res"
  bd_stat :: "string \<Rightarrow> digest \<Rightarrow> time os_res"
  bd_list :: "string \<Rightarrow> string list"
  bd_indexIsDir :: "string \<Rightarrow> bool os_res"
  bd_layoutFile :: "string \<Rightarrow> bytes os_res"
  bd_indexFile :: "string \<Rightarrow> layout_index option os_res"

record mem_blob =
  mb_bytes :: bytes
  mb_mod :: time

record mem_repo =
  mr_block :: bool
  mr_wg :: nat
  mr_stuck :: bool
  mr_timeMod :: time
  mr_index :: layout_index
  mr_blobs :: "(digest, mem_blob option) fmap"
  mr_uploads :: "(string, uid) cache"
  mr_path :: string

record upload =
  mu_repo :: string
  mu_sessionID :: string
  mu_buffer :: bytes
  mu_alg :: algorithm
  mu_w :: "algorithm \<times> bytes"
  mu_expect :: digest

record mem_store =
  ms_repos :: "(string, mem_repo) fmap"
  ms_heap :: "(uid, upload) fmap"
  ms_next :: uid
  ms_conf :: config
  ms_stop :: bool
  ms_now :: time
  ms_procTime :: time
  ms_rand :: "string list"
  ms_dir :: backing

abbreviation ms_rnow :: "mem_store \<Rightarrow> time" where
  "ms_rnow s \<equiv> timeNow (ms_procTime s) (ms_now s)"

abbreviation ms_readOnly :: "mem_store \<Rightarrow> bool" where
  "ms_readOnly s \<equiv> deref (cs_readOnly (c_storage (ms_conf s)))"

abbreviation ms_gc :: "mem_store \<Rightarrow> config_gc" where
  "ms_gc s \<equiv> cs_gc (c_storage (ms_conf s))"

definition upd_repo :: "string \<Rightarrow> (mem_repo \<Rightarrow> mem_repo) \<Rightarrow> mem_store \<Rightarrow> mem_store" where
  "upd_repo r f s =
     (case fmlookup (ms_repos s) r of
        None \<Rightarrow> s
      | Some mr \<Rightarrow> s\<lparr>ms_repos := fmupd r (f mr) (ms_repos s)\<rparr>)"

definition upd_upload :: "uid \<Rightarrow> (upload \<Rightarrow> upload) \<Rightarrow> mem_store \<Rightarrow> mem_store" where
  "upd_upload u f s =
     (case fmlookup (ms_heap s) u of
        None \<Rightarrow> s
      | Some mu \<Rightarrow> s\<lparr>ms_heap := fmupd u (f mu) (ms_heap s)\<rparr>)"

section \<open>Index methods\<close>

definition mem_indexGet :: "string \<Rightarrow> mem_store \<Rightarrow> layout_index res \<times> mem_store" where
  "mem_indexGet r s =
     (case fmlookup (ms_repos s) r of
        None \<Rightarrow> (Inl ErrNotFound, s)
      | Some mr \<Rightarrow> (Inr (mr_index mr), s))"

definition mem_indexInsert ::
    "lib \<Rightarrow> string \<Rightarrow> descriptor \<Rightarrow> descriptor list \<Rightarrow> mem_store \<Rightarrow> unit res \<times> mem_store" where
  "mem_indexInsert L r desc children s =
     (if ms_readOnly s then (Inl ErrReadOnly, s)
      else (Inr (), upd_repo r (\<lambda>mr. mr\<lparr>mr_timeMod := ms_now s,
              mr_index := add_desc L (ms_rnow s) desc children (mr_index mr)\<rparr>) s))"

definition mem_indexRemove :: "lib \<Rightarrow> string \<Rightarrow> descriptor \<Rightarrow> mem_store \<Rightarrow> unit res \<times> mem_store" where
  "mem_indexRemove L r desc s =
     (if ms_readOnly s then (Inl ErrReadOnly, s)
      else (Inr (), upd_repo r (\<lambda>mr. mr\<lparr>mr_timeMod := ms_now s,
              mr_index := rm_desc L (ms_rnow s) desc (mr_index mr)\<rparr>) s))"

section \<open>Blob methods\<close>

definition note_missing :: "string \<Rightarrow> digest \<Rightarrow> mem_store \<Rightarrow> mem_store" where
  "note_missing r d s = upd_repo r (\<lambda>mr. mr\<lparr>mr_blobs := fmupd d None (mr_blobs mr)\<rparr>) s"

definition mem_blobGet :: "string \<Rightarrow> digest \<Rightarrow> mem_store \<Rightarrow> reader res \<times> mem_store" where
  "mem_blobGet r d s =
     (if dig_is_zero d then (Inl (ErrOther ''invalid digest''), s)
      else case fmlookup (ms_repos s) r of
        None \<Rightarrow> (Inl ErrNotFound, s)
      | Some mr \<Rightarrow>
        (case fmlookup (mr_blobs mr) d of
           Some (Some b) \<Rightarrow> (Inr (Inr (mb_bytes b)), s)
         | Some None \<Rightarrow> (Inl ErrNotFound, s)
         | None \<Rightarrow>
           if mr_path mr \<noteq> [] then
             (case bd_open (ms_dir s) (mr_path mr) d of
                OsOk rd \<Rightarrow> (Inr rd, s)
              | OsNotExist \<Rightarrow> (Inl ErrNotFound, note_missing r d s)
              | OsErr e \<Rightarrow> (Inl (ErrOther e), s))
           else (Inl ErrNotFound, s)))"

definition mem_blobMeta :: "string \<Rightarrow> digest \<Rightarrow> mem_store \<Rightarrow> time res \<times> mem_store" where
  "mem_blobMeta r d s =
     (if dig_is_zero d then (Inl (ErrOther ''invalid digest''), s)
      else case fmlookup (ms_repos s) r of
        None \<Rightarrow> (Inl ErrNotFound, s)
      | Some mr \<Rightarrow>
        (case fmlookup (mr_blobs mr) d of
           Some (Some b) \<Rightarrow> (Inr (mb_mod b), s)
         | Some None \<Rightarrow> (Inl ErrNotFound, s)
         | None \<Rightarrow>
           if mr_path mr \<noteq> [] then
             (case bd_stat (ms_dir s) (mr_path mr) d of
                OsOk t \<Rightarrow> (Inr t, s)
              | OsNotExist \<Rightarrow> (Inl ErrNotFound, note_missing r d s)
              | OsErr e \<Rightarrow> (Inl (ErrOther e), s))
           else (Inl ErrNotFound, s)))"

text \<open>
  \<open>BlobCreate\<close>.  \<open>genSessionID\<close> takes the next random ID; no ID left is an error of the random
  source.  The \<open>pruneCount\<close> goroutine that \<open>Set\<close> may start is the step \<open>mem_prune_uploads\<close>.
\<close>

definition start_upload ::
    "string \<Rightarrow> mem_repo \<Rightarrow> blob_conf \<Rightarrow> string \<Rightarrow> mem_store \<Rightarrow> (uid \<times> string) res \<times> mem_store" where
  "start_upload r mr bc sid s =
     (case cache_get (ms_now s) sid (mr_uploads mr) of
        (Inr _, c) \<Rightarrow> (Inl (ErrOther ''session ID collision''), upd_repo r (\<lambda>m. m\<lparr>mr_uploads := c\<rparr>) s)
      | (Inl _, c) \<Rightarrow>
        let u = ms_next s;
            mu = \<lparr>mu_repo = r, mu_sessionID = sid, mu_buffer = [], mu_alg = bo_algo bc,
                  mu_w = (bo_algo bc, []), mu_expect = bo_expect bc\<rparr>;
            s1 = s\<lparr>ms_next := Suc u, ms_heap := fmupd u mu (ms_heap s)\<rparr>
        in (Inr (u, sid),
            upd_repo r (\<lambda>m. m\<lparr>mr_timeMod := ms_now s,
                              mr_uploads := fst (cache_set (ms_now s) sid u c)\<rparr>) s1))"

definition mem_blobCreate ::
    "lib \<Rightarrow> string \<Rightarrow> blob_opt list \<Rightarrow> mem_store \<Rightarrow> (uid \<times> string) res \<times> mem_store" where
  "mem_blobCreate L r opts s =
     (if ms_readOnly s then (Inl ErrReadOnly, s)
      else case apply_blob_opts L opts \<lparr>bo_algo = dig_canonical L, bo_expect = []\<rparr> of
        Inl e \<Rightarrow> (Inl e, s)
      | Inr bc \<Rightarrow>
        (case fmlookup (ms_repos s) r of
           None \<Rightarrow> (Inl ErrNotFound, s)
         | Some mr \<Rightarrow>
           if \<not> dig_is_zero (bo_expect bc) \<and> (\<exists>b. fmlookup (mr_blobs mr) (bo_expect bc) = Some (Some b))
           then (Inl ErrBlobExists, s)
           else (case ms_rand s of
               [] \<Rightarrow> (Inl (ErrOther ''failed generating sessionID''), s)
             | sid # ids \<Rightarrow> start_upload r mr bc sid (s\<lparr>ms_rand := ids\<rparr>))))"

definition mem_blobDelete :: "string \<Rightarrow> digest \<Rightarrow> mem_store \<Rightarrow> unit res \<times> mem_store" where
  "mem_blobDelete r d s =
     (if ms_readOnly s then (Inl ErrReadOnly, s)
      else if dig_is_zero d then (Inl (ErrOther ''invalid digest''), s)
      else case fmlookup (ms_repos s) r of
        None \<Rightarrow> (Inl ErrNotFound, s)
      | Some mr \<Rightarrow>
        (case fmlookup (mr_blobs mr) d of
           Some _ \<Rightarrow>
             (Inr (), upd_repo r (\<lambda>m. m\<lparr>mr_blobs := (if mr_path m \<noteq> [] then fmupd d None (mr_blobs m)
                                                else fmdrop d (mr_blobs m)), mr_timeMod := ms_now s\<rparr>) s)
         | None \<Rightarrow>
             if mr_path mr = [] then (Inl ErrNotFound, s)
             else if bd_stat (ms_dir s) (mr_path mr) d = OsNotExist then (Inl ErrNotFound, s)
             else (Inr (), upd_repo r (\<lambda>m. m\<lparr>mr_blobs := fmupd d None (mr_blobs m), mr_timeMod := ms_now s\<rparr>) s)))"

text \<open>\<open>blobList\<close>: the blobs in memory, then those of the backing directory that memory does not shadow.\<close>

definition mem_blobList :: "lib \<Rightarrow> string \<Rightarrow> mem_store \<Rightarrow> digest list res \<times> mem_store" where
  "mem_blobList L r s =
     (case fmlookup (ms_repos s) r of
        None \<Rightarrow> (Inr [], s)
      | Some mr \<Rightarrow>
        let known = filter (\<lambda>d. fmlookup (mr_blobs mr) d \<noteq> Some None)
                      (map_order L (sorted_list_of_fset (fmdom (mr_blobs mr))));
            files = (if mr_path mr \<noteq> [] then
                       filter (\<lambda>d. fmlookup (mr_blobs mr) d = None)
                         (List.map_filter (dig_parse L) (bd_list (ms_dir s) (mr_path mr)))
                     else [])
        in (Inr (known @ files), s))"

definition mem_blobSession :: "string \<Rightarrow> string \<Rightarrow> mem_store \<Rightarrow> uid res \<times> mem_store" where
  "mem_blobSession r sid s =
     (case fmlookup (ms_repos s) r of
        None \<Rightarrow> (Inl ErrNotFound, s)
      | Some mr \<Rightarrow>
        (case cache_get (ms_now s) sid (mr_uploads mr) of
           (Inr u, c) \<Rightarrow> (Inr u, upd_repo r (\<lambda>m. m\<lparr>mr_uploads := c\<rparr>) s)
         | (Inl _, c) \<Rightarrow> (Inl ErrNotFound, s)))"

section \<open>Upload methods\<close>

definition drop_session :: "upload \<Rightarrow> mem_store \<Rightarrow> mem_store" where
  "drop_session mu s =
     upd_repo (mu_repo mu)
       (\<lambda>m. m\<lparr>mr_uploads := fst (snd (cache_delete no_hooks (mu_sessionID mu) (mr_uploads m) ()))\<rparr>) s"

definition mem_write :: "uid \<Rightarrow> bytes \<Rightarrow> mem_store \<Rightarrow> unit res \<times> mem_store" where
  "mem_write u p s =
     (case fmlookup (ms_heap s) u of
        None \<Rightarrow> (Inl ErrNotFound, s)
      | Some mu \<Rightarrow>
        (case fmlookup (ms_repos s) (mu_repo mu) of
           None \<Rightarrow> (Inl ErrNotFound, s)
         | Some mr \<Rightarrow>
           (case cache_get (ms_now s) (mu_sessionID mu) (mr_uploads mr) of
              (Inl e, c) \<Rightarrow> (Inl e, s)
            | (Inr _, c) \<Rightarrow>
              (Inr (), upd_upload u (\<lambda>m. m\<lparr>mu_buffer := mu_buffer m @ p,
                                          mu_w := (fst (mu_w m), snd (mu_w m) @ p)\<rparr>)
                         (upd_repo (mu_repo mu) (\<lambda>m. m\<lparr>mr_uploads := c\<rparr>) s)))))"

definition mem_close :: "lib \<Rightarrow> uid \<Rightarrow> mem_store \<Rightarrow> unit res \<times> mem_store" where
  "mem_close L u s =
     (case fmlookup (ms_heap s) u of
        None \<Rightarrow> (Inl ErrNotFound, s)
      | Some mu \<Rightarrow>
        if \<not> dig_is_zero (mu_expect mu) \<and> \<not> wr_verify L (fst (mu_w mu)) (snd (mu_w mu)) (mu_expect mu)
        then (Inl (ErrOther ''digest mismatch''), s)
        else
          let s1 = upd_repo (mu_repo mu) (\<lambda>m. m\<lparr>mr_timeMod := ms_now s\<rparr>) s
          in case wr_digest L (fst (mu_w mu)) (snd (mu_w mu)) of
               None \<Rightarrow> (Inl (ErrOther ''failed to compute digest''),
                        upd_repo (mu_repo mu) (\<lambda>m. m\<lparr>mr_stuck := True\<rparr>) s1)
             | Some d \<Rightarrow>
               (Inr (), drop_session mu
                  (upd_repo (mu_repo mu)
                     (\<lambda>m. m\<lparr>mr_blobs := fmupd d (Some \<lparr>mb_bytes = mu_buffer mu, mb_mod = ms_now s\<rparr>) (mr_blobs m)\<rparr>) s1)))"

definition mem_cancel :: "uid \<Rightarrow> mem_store \<Rightarrow> unit res \<times> mem_store" where
  "mem_cancel u s =
     (case fmlookup (ms_heap s) u of
        None \<Rightarrow> (Inl ErrNotFound, s)
      | Some mu \<Rightarrow> (Inr (), drop_session mu s))"

definition mem_size :: "uid \<Rightarrow> mem_store \<Rightarrow> int" where
  "mem_size u s = (case fmlookup (ms_heap s) u of None \<Rightarrow> 0 | Some mu \<Rightarrow> int (length (mu_buffer mu)))"

definition mem_digest :: "lib \<Rightarrow> uid \<Rightarrow> mem_store \<Rightarrow> digest" where
  "mem_digest L u s =
     (case fmlookup (ms_heap s) u of
        None \<Rightarrow> []
      | Some mu \<Rightarrow> (case wr_digest L (fst (mu_w mu)) (snd (mu_w mu)) of None \<Rightarrow> [] | Some d \<Rightarrow> d))"

definition mem_changeAlgorithm :: "uid \<Rightarrow> algorithm \<Rightarrow> mem_store \<Rightarrow> unit res \<times> mem_store" where
  "mem_changeAlgorithm u algo s =
     (if algo = [] then (Inl (ErrOther ''algorithm not available''), s)
      else case fmlookup (ms_heap s) u of
        None \<Rightarrow> (Inl ErrNotFound, s)
      | Some mu \<Rightarrow>
        if algo = mu_alg mu then (Inr (), s)
        else if mu_buffer mu \<noteq> [] then (Inl (ErrOther ''unable to change algorithm after first write''), s)
        else (Inr (), upd_upload u (\<lambda>m. m\<lparr>mu_alg := algo, mu_w := (algo, [])\<rparr>) s))"

definition mem_verify :: "lib \<Rightarrow> uid \<Rightarrow> digest \<Rightarrow> mem_store \<Rightarrow> unit res \<times> mem_store" where
  "mem_verify L u expect s =
     (case fmlookup (ms_heap s) u of
        None \<Rightarrow> (Inl ErrNotFound, s)
      | Some mu \<Rightarrow>
        if wr_verify L (fst (mu_w mu)) (snd (mu_w mu)) expect then (Inr (), s)
        else if dig_is_zero expect then (Inl (ErrOther ''invalid digest''), s)
        else if mu_alg mu \<noteq> dig_algorithm L expect then
          let a = dig_algorithm L expect;
              s1 = upd_upload u (\<lambda>m. m\<lparr>mu_alg := a, mu_w := (a, mu_buffer m)\<rparr>) s
          in if wr_verify L a (mu_buffer mu) expect then (Inr (), s1)
             else (Inl (ErrOther ''digest mismatch''), s1)
        else (Inl (ErrOther ''digest mismatch''), s))"


section \<open>The store's methods\<close>

definition mem_done :: "string \<Rightarrow> mem_store \<Rightarrow> mem_store" where
  "mem_done r s = upd_repo r (\<lambda>m. m\<lparr>mr_wg := mr_wg m - 1\<rparr>) s"

text \<open>The methods of a repository; \<open>mem_ops\<close> adds \<open>RepoGet\<close>, which uses some of them.\<close>

definition mem_repo_ops :: "lib \<Rightarrow> mem_store store_ops" where
  "mem_repo_ops L = \<lparr>
     so_repoGet = (\<lambda>r s. (Inl (ErrOther ''not a store method''), s)),
     so_done = mem_done,
     so_indexGet = mem_indexGet,
     so_indexInsert = mem_indexInsert L,
     so_indexRemove = mem_indexRemove L,
     so_blobGet = mem_blobGet,
     so_blobCreate = mem_blobCreate L,
     so_blobDelete = mem_blobDelete,
     so_blobSession = mem_blobSession,
     so_write = mem_write,
     so_close = mem_close L,
     so_cancel = mem_cancel,
     so_size = mem_size,
     so_digest = mem_digest L,
     so_verify = mem_verify L,
     so_changeAlgorithm = mem_changeAlgorithm\<rparr>"

text \<open>
  \<open>repoInit\<close>: nothing is loaded unless the directory holds an \<open>index.json\<close> file and a valid
  \<open>oci-layout\<close> file.  \<open>None\<close> would be an ingest that does not end.
\<close>

definition mem_repoInit :: "lib \<Rightarrow> string \<Rightarrow> mem_repo \<Rightarrow> mem_store \<Rightarrow> (unit res \<times> mem_store) option" where
  "mem_repoInit L r mr s =
     (case (bd_indexIsDir (ms_dir s) (mr_path mr), bd_layoutFile (ms_dir s) (mr_path mr)) of
        (OsOk False, OsOk layoutBytes) \<Rightarrow>
          if \<not> layoutVerify L layoutBytes then Some (Inr (), s)
          else (case bd_indexFile (ms_dir s) (mr_path mr) of
             OsNotExist \<Rightarrow> Some (Inr (), s)
           | OsErr e \<Rightarrow> Some (Inl (ErrOther e), s)
           | OsOk None \<Rightarrow> Some (Inl (ErrOther ''json''), s)
           | OsOk (Some parseIndex) \<Rightarrow>
             (case indexIngest L (mem_repo_ops L) (ms_conf s) r (ms_rnow s) parseIndex s of
                None \<Rightarrow> None
              | Some (Some e, li, _, s1) \<Rightarrow> Some (Inl e, upd_repo r (\<lambda>m. m\<lparr>mr_index := li\<rparr>) s1)
              | Some (None, li, _, s1) \<Rightarrow> Some (Inr (), upd_repo r (\<lambda>m. m\<lparr>mr_index := li\<rparr>) s1)))
      | _ \<Rightarrow> Some (Inr (), s))"

definition new_mem_repo :: "config \<Rightarrow> string \<Rightarrow> mem_repo" where
  "new_mem_repo conf path =
     (let g = cs_gc (c_storage conf);
          count = (if gc_repoUploadMax g > 0 then gc_repoUploadMax g else 0);
          age = (if gc_gracePeriod g > 0 then gc_gracePeriod g else 0)
      in \<lparr>mr_block = True, mr_wg = 0, mr_stuck = False, mr_timeMod = 0,
          mr_index = empty_layout (if deref (ca_referrerEnabled (c_api conf))
                                   then fmupd annot_referrer_convert ''true'' fmempty else fmempty),
          mr_blobs = fmempty, mr_uploads = cache_new age count, mr_path = path\<rparr>)"

text \<open>
  \<open>RepoGet\<close>.  For a known repository Go waits for the block token or for the end of the request's
  context: while a collection holds the token, the call returns only with the context's error.  A
  new repository is entered before it is initialised, and taken out again after an error; the
  store's lock is held meanwhile.  \<open>filepath.Join\<close> of the clean root and a repository name only
  puts a slash between them.
\<close>

definition mem_repoGet :: "lib \<Rightarrow> string \<Rightarrow> mem_store \<Rightarrow> unit res \<times> mem_store" where
  "mem_repoGet L r s =
     (if ms_stop s then (Inl (ErrOther ''cannot get repo after Close''), s)
      else case fmlookup (ms_repos s) r of
        Some mr \<Rightarrow>
          if mr_block mr then (Inr (), upd_repo r (\<lambda>m. m\<lparr>mr_wg := mr_wg m + 1\<rparr>) s)
          else (Inl (ErrOther ''context''), s)
      | None \<Rightarrow>
        let root = cs_rootDir (c_storage (ms_conf s));
            mr = new_mem_repo (ms_conf s) (if root \<noteq> [] then root @ CHR ''/'' # r else []);
            s1 = s\<lparr>ms_repos := fmupd r mr (ms_repos s)\<rparr>
        in case (if root \<noteq> [] then mem_repoInit L r mr s1 else Some (Inr (), s1)) of
             None \<Rightarrow> (Inl (ErrOther ''does not return''), s)
           | Some (Inl e, s2) \<Rightarrow> (Inl e, s2\<lparr>ms_repos := fmdrop r (ms_repos s2)\<rparr>)
           | Some (Inr _, s2) \<Rightarrow> (Inr (), upd_repo r (\<lambda>m. m\<lparr>mr_wg := mr_wg m + 1\<rparr>) s2))"

definition mem_ops :: "lib \<Rightarrow> mem_store store_ops" where
  "mem_ops L = (mem_repo_ops L)\<lparr>so_repoGet := mem_repoGet L\<rparr>"

lemma mem_ops_simps [simp]:
  "so_repoGet (mem_ops L) = mem_repoGet L" "so_done (mem_ops L) = mem_done"
  "so_indexGet (mem_ops L) = mem_indexGet" "so_indexInsert (mem_ops L) = mem_indexInsert L"
  "so_indexRemove (mem_ops L) = mem_indexRemove L" "so_blobGet (mem_ops L) = mem_blobGet"
  "so_blobCreate (mem_ops L) = mem_blobCreate L" "so_blobDelete (mem_ops L) = mem_blobDelete"
  "so_blobSession (mem_ops L) = mem_blobSession" "so_write (mem_ops L) = mem_write"
  "so_close (mem_ops L) = mem_close L" "so_cancel (mem_ops L) = mem_cancel"
  "so_size (mem_ops L) = mem_size" "so_digest (mem_ops L) = mem_digest L"
  "so_verify (mem_ops L) = mem_verify L" "so_changeAlgorithm (mem_ops L) = mem_changeAlgorithm"
  by (simp_all add: mem_ops_def mem_repo_ops_def)

text \<open>\<open>NewMem\<close>: the store without repositories.\<close>

definition newMem :: "config \<Rightarrow> time \<Rightarrow> time \<Rightarrow> string list \<Rightarrow> backing \<Rightarrow> mem_store" where
  "newMem conf procTime now rand dir =
     \<lparr>ms_repos = fmempty, ms_heap = fmempty, ms_next = 0, ms_conf = conf, ms_stop = False,
      ms_now = now, ms_procTime = procTime, ms_rand = rand, ms_dir = dir\<rparr>"

text \<open>\<open>Close\<close>, once every request is done: it waits for each repository, cancels its uploads, forgets it.\<close>

definition close_repo :: "lib \<Rightarrow> string \<Rightarrow> mem_store \<Rightarrow> mem_store" where
  "close_repo L r s =
     (case fmlookup (ms_repos s) r of
        None \<Rightarrow> s
      | Some mr \<Rightarrow> s\<lparr>ms_repos := fmdrop r (ms_repos s)\<rparr>)"

definition mem_storeClose :: "lib \<Rightarrow> mem_store \<Rightarrow> mem_store" where
  "mem_storeClose L s =
     fold (close_repo L) (map_order L (sorted_list_of_fset (fmdom (ms_repos s)))) (s\<lparr>ms_stop := True\<rparr>)"

section \<open>Garbage collection\<close>

definition mem_gc_ops :: "lib \<Rightarrow> string \<Rightarrow> mem_store gc_ops" where
  "mem_gc_ops L r = \<lparr>go_get = mem_blobGet r, go_meta = mem_blobMeta r, go_list = mem_blobList L r,
     go_delete = mem_blobDelete r\<rparr>"

text \<open>
  \<open>memRepo.gc\<close>, with the block token in its hand and the wait group at zero; it puts the token
  back at the end.
\<close>

definition mem_repo_gc :: "lib \<Rightarrow> string \<Rightarrow> mem_store \<Rightarrow> (unit res \<times> mem_store) option" where
  "mem_repo_gc L r s =
     (case fmlookup (ms_repos s) r of
        None \<Rightarrow> Some (Inr (), s)
      | Some mr \<Rightarrow>
        (case repoGarbageCollect L (mem_gc_ops L r) (ms_gc s) (ms_now s) (ms_rnow s) (mr_index mr) s of
           None \<Rightarrow> None
         | Some (Inl e, s1) \<Rightarrow> Some (Inl e, s1)
         | Some (Inr (i, chg), s1) \<Rightarrow>
             Some (Inr (), if chg then upd_repo r (\<lambda>m. m\<lparr>mr_index := i, mr_timeMod := ms_now s1\<rparr>) s1 else s1)))"

text \<open>\<open>mem.gc\<close>: the repositories changed since the previous run, offset by the grace period.\<close>

fun mem_gc_loop :: "lib \<Rightarrow> time \<Rightarrow> string list \<Rightarrow> mem_store \<Rightarrow> (unit res \<times> mem_store) option" where
  "mem_gc_loop L start [] s = Some (Inr (), s)"
| "mem_gc_loop L start (r # rs) s =
     (if ms_stop s then Some (Inl (ErrOther ''stop signal received''), s)
      else case fmlookup (ms_repos s) r of
        None \<Rightarrow> mem_gc_loop L start rs s
      | Some mr \<Rightarrow>
        if mr_timeMod mr < start then mem_gc_loop L start rs s
        else (case mem_repo_gc L r s of
            None \<Rightarrow> None
          | Some (Inl e, s1) \<Rightarrow> Some (Inl e, s1)
          | Some (Inr _, s1) \<Rightarrow> mem_gc_loop L start rs s1))"

definition mem_gc :: "lib \<Rightarrow> time \<Rightarrow> mem_store \<Rightarrow> (unit res \<times> mem_store) option" where
  "mem_gc L prev s =
     (let g = gc_gracePeriod (ms_gc s);
          start = (if g > 0 then prev - g else prev)
      in mem_gc_loop L start (map_order L (sorted_list_of_fset (fmdom (ms_repos s)))) s)"

text \<open>The pruning of the upload cache, by its timer and by the goroutine of \<open>Set\<close>.\<close>

definition mem_prune_uploads :: "string \<Rightarrow> string list \<Rightarrow> bool \<Rightarrow> mem_store \<Rightarrow> mem_store" where
  "mem_prune_uploads r ks by_age s =
     upd_repo r (\<lambda>m. m\<lparr>mr_uploads :=
       fst ((if by_age then cache_pruneAge else cache_pruneCount) no_hooks (ms_now s) ks (mr_uploads m) ())\<rparr>) s"

end
