(* ===== verification/Mem_GC.thy ===== *)
theory Mem_GC
  imports Mem_Store
begin

text \<open>
  Garbage collection of the memory store: the repository satisfies the collector's contract, so a
  collection ends, keeps what the roots need, and leaves an index whose entries have their blobs.
\<close>

section \<open>Frames\<close>

lemma upd_repo_lookup [simp]:
  "fmlookup (ms_repos (upd_repo r f s)) r' =
     (if r' = r then map_option f (fmlookup (ms_repos s) r) else fmlookup (ms_repos s) r')"
  by (auto simp: upd_repo_def split: option.splits)

lemma upd_repo_frame [simp, frame_simps]:
  "ms_heap (upd_repo r f s) = ms_heap s" "ms_next (upd_repo r f s) = ms_next s"
  "ms_conf (upd_repo r f s) = ms_conf s" "ms_stop (upd_repo r f s) = ms_stop s"
  "ms_now (upd_repo r f s) = ms_now s" "ms_procTime (upd_repo r f s) = ms_procTime s"
  "ms_rand (upd_repo r f s) = ms_rand s" "ms_dir (upd_repo r f s) = ms_dir s"
  by (auto simp: upd_repo_def split: option.splits)

lemma upd_upload_lookup [simp]:
  "fmlookup (ms_heap (upd_upload u f s)) u' =
     (if u' = u then map_option f (fmlookup (ms_heap s) u) else fmlookup (ms_heap s) u')"
  by (auto simp: upd_upload_def split: option.splits)

lemma upd_upload_frame [simp, frame_simps]:
  "ms_repos (upd_upload u f s) = ms_repos s" "ms_next (upd_upload u f s) = ms_next s"
  "ms_conf (upd_upload u f s) = ms_conf s" "ms_stop (upd_upload u f s) = ms_stop s"
  "ms_now (upd_upload u f s) = ms_now s" "ms_procTime (upd_upload u f s) = ms_procTime s"
  "ms_rand (upd_upload u f s) = ms_rand s" "ms_dir (upd_upload u f s) = ms_dir s"
  by (auto simp: upd_upload_def split: option.splits)

lemma note_missing_lookup [simp]:
  "fmlookup (ms_repos (note_missing r d s)) r' =
     (if r' = r then map_option (\<lambda>mr. mr\<lparr>mr_blobs := fmupd d None (mr_blobs mr)\<rparr>) (fmlookup (ms_repos s) r)
      else fmlookup (ms_repos s) r')"
  by (simp add: note_missing_def)

lemma note_missing_frame [simp, frame_simps]:
  "ms_heap (note_missing r d s) = ms_heap s" "ms_next (note_missing r d s) = ms_next s"
  "ms_conf (note_missing r d s) = ms_conf s" "ms_stop (note_missing r d s) = ms_stop s"
  "ms_now (note_missing r d s) = ms_now s" "ms_procTime (note_missing r d s) = ms_procTime s"
  "ms_rand (note_missing r d s) = ms_rand s" "ms_dir (note_missing r d s) = ms_dir s"
  by (simp_all add: note_missing_def)

section \<open>The contents of a repository\<close>

text \<open>What the blob of a digest reads as: from memory, or from the backing directory.\<close>

definition repo_content :: "backing \<Rightarrow> mem_repo \<Rightarrow> digest \<Rightarrow> reader option" where
  "repo_content D mr d =
     (if d = [] then None
      else case fmlookup (mr_blobs mr) d of
        Some (Some b) \<Rightarrow> Some (Inr (mb_bytes b))
      | Some None \<Rightarrow> None
      | None \<Rightarrow> if mr_path mr \<noteq> [] then (case bd_open D (mr_path mr) d of OsOk rd \<Rightarrow> Some rd | _ \<Rightarrow> None) else None)"

definition mem_content :: "string \<Rightarrow> mem_store \<Rightarrow> digest \<Rightarrow> reader option" where
  "mem_content r s d =
     (case fmlookup (ms_repos s) r of None \<Rightarrow> None | Some mr \<Rightarrow> repo_content (ms_dir s) mr d)"

text \<open>A backing directory whose listing is complete, and whose \<open>open\<close> and \<open>stat\<close> agree on what exists.\<close>

definition backing_ok :: "lib \<Rightarrow> backing \<Rightarrow> string \<Rightarrow> bool" where
  "backing_ok L D p \<longleftrightarrow>
     finite {d. \<exists>rd. bd_open D p d = OsOk rd} \<and>
     (\<forall>d. bd_stat D p d = OsNotExist \<longleftrightarrow> bd_open D p d = OsNotExist) \<and>
     (\<forall>d rd. bd_open D p d = OsOk rd \<longrightarrow> (\<exists>n\<in>set (bd_list D p). dig_parse L n = Some d))"

definition mem_gc_ok :: "lib \<Rightarrow> string \<Rightarrow> mem_store \<Rightarrow> bool" where
  "mem_gc_ok L r s \<longleftrightarrow> order_ok L \<and>
     (\<forall>mr. fmlookup (ms_repos s) r = Some mr \<longrightarrow> mr_path mr = [] \<or> backing_ok L (ms_dir s) (mr_path mr))"

lemma mem_gc_ok_note_missing [simp]: "mem_gc_ok L r (note_missing r d s) = mem_gc_ok L r s"
  by (cases "fmlookup (ms_repos s) r") (simp_all add: mem_gc_ok_def)

lemma repo_content_cong:
  assumes "mr_path m' = mr_path m" and "fmlookup (mr_blobs m') d = fmlookup (mr_blobs m) d"
  shows "repo_content D m' d = repo_content D m d"
  unfolding repo_content_def assms ..

lemma repo_content_missing: "fmlookup (mr_blobs m) d = Some None \<Longrightarrow> repo_content D m d = None"
  by (simp add: repo_content_def)

lemma mem_content_note_missing [simp]: "mem_content r (note_missing r d s) = (mem_content r s)(d := None)"
proof
  fix x
  show "mem_content r (note_missing r d s) x = ((mem_content r s)(d := None)) x"
  proof (cases "fmlookup (ms_repos s) r")
    case (Some mr)
    have "repo_content D (mr\<lparr>mr_blobs := fmupd d None (mr_blobs mr)\<rparr>) x =
        (if x = d then None else repo_content D mr x)" for D
    proof (cases "x = d")
      case False
      then have "repo_content D (mr\<lparr>mr_blobs := fmupd d None (mr_blobs mr)\<rparr>) x = repo_content D mr x"
        by (intro repo_content_cong) simp_all
      with False show ?thesis by simp
    qed (simp add: repo_content_missing)
    then show ?thesis using Some by (simp add: mem_content_def)
  qed (simp add: mem_content_def)
qed

lemma mem_content_known:
  assumes "d \<noteq> []" and "fmlookup (ms_repos s) r = Some mr"
  shows "mem_content r s d =
     (case fmlookup (mr_blobs mr) d of
        Some (Some b) \<Rightarrow> Some (Inr (mb_bytes b))
      | Some None \<Rightarrow> None
      | None \<Rightarrow> if mr_path mr \<noteq> [] then
                  (case bd_open (ms_dir s) (mr_path mr) d of OsOk rd \<Rightarrow> Some rd | _ \<Rightarrow> None) else None)"
  using assms by (simp add: mem_content_def repo_content_def)

lemma mem_content_zero [simp]: "mem_content r s [] = None"
  by (simp add: mem_content_def repo_content_def split: option.split)

lemma mem_content_no_repo: "fmlookup (ms_repos s) r = None \<Longrightarrow> mem_content r s d = None"
  by (simp add: mem_content_def)

text \<open>Opening a blob gives its content, and at most notes that it is missing.\<close>

lemma mem_blobGet_cases:
  obtains (same) res where "mem_blobGet r d s = (res, s)"
      "mem_content r s d = (case res of Inr rd \<Rightarrow> Some rd | Inl _ \<Rightarrow> None)"
    | (missing) "mem_blobGet r d s = (Inl ErrNotFound, note_missing r d s)" "mem_content r s d = None"
proof (cases "d = [] \<or> fmlookup (ms_repos s) r = None")
  case True
  show ?thesis
    by (rule same [of "fst (mem_blobGet r d s)"])
      (use True in \<open>auto simp: mem_blobGet_def dig_is_zero_def mem_content_no_repo split: option.splits\<close>)
next
  case False
  then obtain mr where mr: "d \<noteq> []" "fmlookup (ms_repos s) r = Some mr" by auto
  note known = mem_content_known [OF mr]
  consider (mem) x where "fmlookup (mr_blobs mr) d = Some x" | (nodir) "fmlookup (mr_blobs mr) d = None" "mr_path mr = []"
    | (dir) "fmlookup (mr_blobs mr) d = None" "mr_path mr \<noteq> []" by fastforce
  then show ?thesis
  proof cases
    case mem
    then show ?thesis using same mr known
      by (cases x) (simp_all add: mem_blobGet_def dig_is_zero_def)
  next
    case nodir
    then show ?thesis using same mr known by (simp add: mem_blobGet_def dig_is_zero_def)
  next
    case dir
    show ?thesis
    proof (cases "bd_open (ms_dir s) (mr_path mr) d")
      case OsNotExist
      show ?thesis by (rule missing) (use dir mr known OsNotExist in \<open>simp_all add: mem_blobGet_def dig_is_zero_def\<close>)
    qed (use dir mr known same in \<open>simp_all add: mem_blobGet_def dig_is_zero_def\<close>)
  qed
qed

lemma mem_blobMeta_cases:
  assumes "mem_gc_ok L r s"
  obtains (same) res where "mem_blobMeta r d s = (res, s)"
    | (missing) "mem_blobMeta r d s = (Inl ErrNotFound, note_missing r d s)" "mem_content r s d = None"
proof (cases "d = [] \<or> fmlookup (ms_repos s) r = None")
  case True
  show ?thesis
    by (rule same [of "fst (mem_blobMeta r d s)"])
      (use True in \<open>auto simp: mem_blobMeta_def dig_is_zero_def split: option.splits\<close>)
next
  case False
  then obtain mr where mr: "d \<noteq> []" "fmlookup (ms_repos s) r = Some mr" by auto
  note known = mem_content_known [OF mr]
  consider (mem) x where "fmlookup (mr_blobs mr) d = Some x" | (nodir) "fmlookup (mr_blobs mr) d = None" "mr_path mr = []"
    | (dir) "fmlookup (mr_blobs mr) d = None" "mr_path mr \<noteq> []" by fastforce
  then show ?thesis
  proof cases
    case mem
    then show ?thesis using same mr by (cases x) (simp_all add: mem_blobMeta_def dig_is_zero_def)
  next
    case nodir
    then show ?thesis using same mr by (simp add: mem_blobMeta_def dig_is_zero_def)
  next
    case dir
    show ?thesis
    proof (cases "bd_stat (ms_dir s) (mr_path mr) d")
      case OsNotExist
      then have "bd_open (ms_dir s) (mr_path mr) d = OsNotExist"
        using assms mr dir by (simp add: mem_gc_ok_def backing_ok_def)
      then show ?thesis
        by (intro missing) (use dir mr known OsNotExist in \<open>simp_all add: mem_blobMeta_def dig_is_zero_def\<close>)
    qed (use dir mr same in \<open>simp_all add: mem_blobMeta_def dig_is_zero_def\<close>)
  qed
qed

lemma mem_blobGet_content:
  assumes "mem_gc_ok L r s" and "mem_blobGet r d s = (res, s')"
  shows "mem_gc_ok L r s' \<and> mem_content r s' = mem_content r s \<and>
         mem_content r s d = (case res of Inr rd \<Rightarrow> Some rd | Inl _ \<Rightarrow> None)"
  by (rule mem_blobGet_cases [of r d s]) (use assms in auto)

lemma mem_blobMeta_content:
  assumes "mem_gc_ok L r s" and "mem_blobMeta r d s = (res, s')"
  shows "mem_gc_ok L r s' \<and> mem_content r s' = mem_content r s"
  by (rule mem_blobMeta_cases [OF assms(1), of d]) (use assms in auto)

text \<open>A delete either fails and changes nothing, or the blob is gone.\<close>

lemma upd_blobs_content:
  assumes "\<And>m. mr_path (f m) = mr_path m" and "\<And>m d'. d' \<noteq> d \<Longrightarrow> fmlookup (mr_blobs (f m)) d' = fmlookup (mr_blobs m) d'"
  shows "mem_gc_ok L r (upd_repo r f s) = mem_gc_ok L r s"
    and "d' \<noteq> d \<Longrightarrow> mem_content r (upd_repo r f s) d' = mem_content r s d'"
proof -
  show "mem_gc_ok L r (upd_repo r f s) = mem_gc_ok L r s"
    by (cases "fmlookup (ms_repos s) r") (simp_all add: mem_gc_ok_def assms(1))
  show "mem_content r (upd_repo r f s) d' = mem_content r s d'" if "d' \<noteq> d"
  proof (cases "fmlookup (ms_repos s) r")
    case (Some mr)
    then show ?thesis using repo_content_cong [OF assms(1), of mr d'] assms(2) [OF that]
      by (simp add: mem_content_def)
  qed (simp add: mem_content_def)
qed

lemma mem_blobDelete_cases:
  obtains (failed) e where "mem_blobDelete r d s = (Inl e, s)"
    | (deleted) f where "mem_blobDelete r d s = (Inr (), upd_repo r f s)" "d \<noteq> []"
      "\<And>m. mr_path (f m) = mr_path m" "\<And>m. mr_index (f m) = mr_index m"
      "\<And>m d'. d' \<noteq> d \<Longrightarrow> fmlookup (mr_blobs (f m)) d' = fmlookup (mr_blobs m) d'"
      "mem_content r (upd_repo r f s) d = None"
proof (cases "ms_readOnly s \<or> d = [] \<or> fmlookup (ms_repos s) r = None")
  case True
  then show ?thesis
    by (intro failed [of "projl (fst (mem_blobDelete r d s))"]) (auto simp: mem_blobDelete_def dig_is_zero_def)
next
  case False
  then obtain mr where mr: "\<not> ms_readOnly s" "d \<noteq> []" "fmlookup (ms_repos s) r = Some mr" by auto
  show ?thesis
  proof (cases "fmlookup (mr_blobs mr) d")
    case (Some x)
    show ?thesis
      by (rule deleted [of "\<lambda>m. m\<lparr>mr_blobs := (if mr_path m \<noteq> [] then fmupd d None (mr_blobs m)
            else fmdrop d (mr_blobs m)), mr_timeMod := ms_now s\<rparr>"])
        (use Some mr in \<open>simp_all add: mem_blobDelete_def dig_is_zero_def mem_content_def repo_content_def\<close>)
  next
    case None
    show ?thesis
    proof (cases "mr_path mr = [] \<or> bd_stat (ms_dir s) (mr_path mr) d = OsNotExist")
      case True
      then show ?thesis using None mr by (intro failed [of ErrNotFound]) (auto simp: mem_blobDelete_def dig_is_zero_def)
    next
      case False
      then show ?thesis
        by (intro deleted [of "\<lambda>m. m\<lparr>mr_blobs := fmupd d None (mr_blobs m), mr_timeMod := ms_now s\<rparr>"])
          (use None mr in \<open>simp_all add: mem_blobDelete_def dig_is_zero_def mem_content_def repo_content_def\<close>)
    qed
  qed
qed

lemma mem_blobDelete_content:
  assumes "mem_gc_ok L r s" and "mem_blobDelete r d s = (res, s')"
  shows "mem_gc_ok L r s' \<and> (\<forall>d'. d' \<noteq> d \<longrightarrow> mem_content r s' d' = mem_content r s d') \<and>
         mem_content r s' d \<in> {None, mem_content r s d} \<and> (res = Inr () \<longrightarrow> mem_content r s' d = None)"
proof (cases rule: mem_blobDelete_cases [of r d s])
  case (failed e)
  then show ?thesis using assms by simp
next
  case (deleted f)
  note C = upd_blobs_content [of f d, OF deleted(3,5)]
  show ?thesis using deleted(1,6) assms C by simp
qed

lemma set_blobList:
  assumes "order_ok L" and "fmlookup (ms_repos s) r = Some mr"
  shows "\<exists>dl. mem_blobList L r s = (Inr dl, s) \<and>
     set dl = {d. \<exists>b. fmlookup (mr_blobs mr) d = Some (Some b)} \<union>
       (if mr_path mr \<noteq> [] then {d. fmlookup (mr_blobs mr) d = None \<and>
            (\<exists>n\<in>set (bd_list (ms_dir s) (mr_path mr)). dig_parse L n = Some d)} else {})"
proof -
  have "set (map_order L (sorted_list_of_fset (fmdom (mr_blobs mr)))) = fset (fmdom (mr_blobs mr))"
    using assms(1) by (simp add: order_ok_def)
  then have known: "set (filter (\<lambda>d. fmlookup (mr_blobs mr) d \<noteq> Some None)
        (map_order L (sorted_list_of_fset (fmdom (mr_blobs mr))))) =
      {d. \<exists>b. fmlookup (mr_blobs mr) d = Some (Some b)}"
    by (auto simp: fmlookup_dom_iff)
  have files: "set (filter (\<lambda>d. fmlookup (mr_blobs mr) d = None) (List.map_filter (dig_parse L) ns)) =
      {d. fmlookup (mr_blobs mr) d = None \<and> (\<exists>n\<in>set ns. dig_parse L n = Some d)}" for ns
    by (force simp: List.map_filter_def)
  show ?thesis
    unfolding mem_blobList_def assms(2) option.case Let_def
    by (rule exI, rule conjI, rule refl) (simp only: set_append known files set_simps split: if_split; simp)
qed

lemma mem_blobList_content:
  assumes "mem_gc_ok L r s" and "mem_blobList L r s = (res, s')"
  shows "mem_gc_ok L r s' \<and> mem_content r s' = mem_content r s \<and>
         (\<forall>dl. res = Inr dl \<longrightarrow> dom (mem_content r s) \<subseteq> set dl)"
proof (cases "fmlookup (ms_repos s) r")
  case None
  then show ?thesis using assms by (auto simp: mem_blobList_def mem_content_def)
next
  case (Some mr)
  obtain dl where "mem_blobList L r s = (Inr dl, s)" and
    dl: "set dl = {d. \<exists>b. fmlookup (mr_blobs mr) d = Some (Some b)} \<union>
       (if mr_path mr \<noteq> [] then {d. fmlookup (mr_blobs mr) d = None \<and>
            (\<exists>n\<in>set (bd_list (ms_dir s) (mr_path mr)). dig_parse L n = Some d)} else {})"
    using set_blobList [OF _ Some, of L] assms(1) unfolding mem_gc_ok_def by blast
  then have "s' = s" "res = Inr dl" using assms(2) by simp_all
  moreover have "dom (mem_content r s) \<subseteq> set dl"
    using assms(1) Some
    by (auto simp: dl mem_content_def repo_content_def mem_gc_ok_def backing_ok_def
        split: if_splits option.splits os_res.splits)
  ultimately show ?thesis using assms(1) by simp
qed

lemma mem_content_finite:
  assumes "mem_gc_ok L r s"
  shows "finite (dom (mem_content r s))"
proof (cases "fmlookup (ms_repos s) r")
  case None
  then show ?thesis by (simp add: mem_content_def dom_def)
next
  case (Some mr)
  have "dom (mem_content r s) \<subseteq> fmdom' (mr_blobs mr) \<union>
      (if mr_path mr \<noteq> [] then {d. \<exists>rd. bd_open (ms_dir s) (mr_path mr) d = OsOk rd} else {})"
    using Some by (auto simp: mem_content_def repo_content_def fmlookup_dom'_iff
        split: if_splits option.splits os_res.splits)
  moreover have "finite \<dots>" using assms Some by (auto simp: mem_gc_ok_def backing_ok_def)
  ultimately show ?thesis by (rule finite_subset)
qed

interpretation mem_gc: gc_repo "mem_gc_ops L r" "mem_content r" "mem_gc_ok L r" for L r
proof unfold_locales
  show "mem_gc_ok L r s' \<and> mem_content r s' = mem_content r s \<and>
      mem_content r s d = (case res of Inr rd \<Rightarrow> Some rd | Inl _ \<Rightarrow> None)"
    if "mem_gc_ok L r s" "go_get (mem_gc_ops L r) d s = (res, s')" for s d res s'
    using mem_blobGet_content that by (simp add: mem_gc_ops_def)
  show "mem_gc_ok L r s' \<and> mem_content r s' = mem_content r s"
    if "mem_gc_ok L r s" "go_meta (mem_gc_ops L r) d s = (m, s')" for s d m s'
    using mem_blobMeta_content that by (simp add: mem_gc_ops_def)
  show "mem_gc_ok L r s' \<and> mem_content r s' = mem_content r s \<and>
      (\<forall>dl. l = Inr dl \<longrightarrow> dom (mem_content r s) \<subseteq> set dl)"
    if "mem_gc_ok L r s" "go_list (mem_gc_ops L r) s = (l, s')" for s l s'
    using mem_blobList_content that by (simp add: mem_gc_ops_def)
  show "mem_gc_ok L r s' \<and> (\<forall>d'. d' \<noteq> d \<longrightarrow> mem_content r s' d' = mem_content r s d') \<and>
      mem_content r s' d \<in> {None, mem_content r s d} \<and> (u = Inr () \<longrightarrow> mem_content r s' d = None)"
    if "mem_gc_ok L r s" "go_delete (mem_gc_ops L r) d s = (u, s')" for s d u s'
    using mem_blobDelete_content that by (simp add: mem_gc_ops_def)
  show "finite (dom (mem_content r s))" if "mem_gc_ok L r s" for s
    using mem_content_finite that .
qed


text \<open>
  A repository in memory only, of a store that is not read-only, with \<open>T\<close> as the times of its blobs.
\<close>

definition mem_live_ok :: "lib \<Rightarrow> string \<Rightarrow> (digest \<Rightarrow> time option) \<Rightarrow> mem_store \<Rightarrow> bool" where
  "mem_live_ok L r T s \<longleftrightarrow> order_ok L \<and> \<not> ms_readOnly s \<and>
     (\<forall>mr. fmlookup (ms_repos s) r = Some mr \<longrightarrow> mr_path mr = [] \<and>
        (\<forall>d b. fmlookup (mr_blobs mr) d = Some (Some b) \<longrightarrow> d \<noteq> [] \<and> T d = Some (mb_mod b)))"

lemma mem_live_gc_ok: "mem_live_ok L r T s \<Longrightarrow> mem_gc_ok L r s"
  by (auto simp: mem_live_ok_def mem_gc_ok_def)

lemma mem_live_note_missing [simp]: "mem_live_ok L r T s \<Longrightarrow> mem_live_ok L r T (note_missing r d s)"
  by (cases "fmlookup (ms_repos s) r") (auto simp: mem_live_ok_def split: if_splits)

lemma mem_live_delete:
  assumes "mem_live_ok L r T s" and "mem_blobDelete r d s = (u, s')"
  shows "mem_live_ok L r T s'"
proof (cases rule: mem_blobDelete_cases [of r d s])
  case (failed e)
  then show ?thesis using assms by simp
next
  case (deleted f)
  then have s': "s' = upd_repo r f s" using assms(2) by simp
  show ?thesis
  proof (cases "fmlookup (ms_repos s) r")
    case (Some mr)
    have "d' \<noteq> [] \<and> T d' = Some (mb_mod b)" if b: "fmlookup (mr_blobs (f mr)) d' = Some (Some b)" for d' b
    proof -
      have "d' \<noteq> d"
        using deleted(2,6) b Some by (auto simp: mem_content_def repo_content_def)
      then show ?thesis using b deleted(5) assms(1) Some by (auto simp: mem_live_ok_def)
    qed
    then show ?thesis using assms(1) Some deleted(3) by (auto simp: mem_live_ok_def s')
  qed (use assms(1) in \<open>simp add: mem_live_ok_def s'\<close>)
qed

interpretation mem_live: gc_repo_live "mem_gc_ops L r" "mem_content r" "mem_live_ok L r T" T for L r T
proof unfold_locales
  fix s s' :: mem_store and d :: digest and res m l u and t :: time and dl :: "digest list"
  assume ok: "mem_live_ok L r T s"
  note ok1 = mem_live_gc_ok [OF ok]
  show "mem_live_ok L r T s' \<and> mem_content r s' = mem_content r s \<and>
      mem_content r s d = (case res of Inr rd \<Rightarrow> Some rd | Inl _ \<Rightarrow> None)"
    if "go_get (mem_gc_ops L r) d s = (res, s')"
    using mem_blobGet_content [OF ok1, of d res s'] that ok
    by (rule_tac mem_blobGet_cases [of r d s]) (auto simp: mem_gc_ops_def)
  show "mem_live_ok L r T s' \<and> mem_content r s' = mem_content r s"
    if "go_meta (mem_gc_ops L r) d s = (m, s')"
    using mem_blobMeta_content [OF ok1, of d m s'] that ok
    by (rule_tac mem_blobMeta_cases [OF ok1, of d]) (auto simp: mem_gc_ops_def)
  show "mem_live_ok L r T s' \<and> mem_content r s' = mem_content r s \<and>
      (\<forall>dl. l = Inr dl \<longrightarrow> dom (mem_content r s) \<subseteq> set dl)"
    if "go_list (mem_gc_ops L r) s = (l, s')"
  proof -
    have "s' = s" using that by (auto simp: mem_gc_ops_def mem_blobList_def Let_def split: option.splits)
    then show ?thesis using mem_blobList_content [OF ok1, of l s'] that ok by (simp add: mem_gc_ops_def)
  qed
  show "mem_live_ok L r T s' \<and> (\<forall>d'. d' \<noteq> d \<longrightarrow> mem_content r s' d' = mem_content r s d') \<and>
      mem_content r s' d \<in> {None, mem_content r s d} \<and> (u = Inr () \<longrightarrow> mem_content r s' d = None)"
    if "go_delete (mem_gc_ops L r) d s = (u, s')"
    using mem_blobDelete_content [OF ok1, of d u s'] mem_live_delete [OF ok, of d u s'] that
    by (simp add: mem_gc_ops_def)
  show "finite (dom (mem_content r s))" by (rule mem_content_finite [OF ok1])
  show "set dl \<subseteq> dom (mem_content r s)" if "go_list (mem_gc_ops L r) s = (Inr dl, s')"
  proof (cases "fmlookup (ms_repos s) r")
    case None
    then show ?thesis using that by (auto simp: mem_gc_ops_def mem_blobList_def)
  next
    case (Some mr)
    have "set dl = {d. \<exists>b. fmlookup (mr_blobs mr) d = Some (Some b)}"
      using set_blobList [OF _ Some, of L] that ok Some by (auto simp: mem_gc_ops_def mem_live_ok_def)
    then show ?thesis using ok Some by (auto simp: mem_live_ok_def mem_content_known)
  qed
  show "mem_content r s' d = None"
    if present: "mem_content r s d \<noteq> None" and del: "go_delete (mem_gc_ops L r) d s = (u, s')"
  proof -
    obtain mr where mr: "fmlookup (ms_repos s) r = Some mr"
      using present mem_content_no_repo [of s r d] by (cases "fmlookup (ms_repos s) r") auto
    have d: "d \<noteq> []" using present by (cases "d = []") simp_all
    obtain b where "fmlookup (mr_blobs mr) d = Some (Some b)"
      using present mr d ok by (auto simp: mem_content_known mem_live_ok_def split: option.splits)
    then have "u = Inr ()" using del mr d ok
      by (simp add: mem_gc_ops_def mem_blobDelete_def dig_is_zero_def mem_live_ok_def)
    then show ?thesis using mem_blobDelete_content [OF ok1, of d u s'] del by (simp add: mem_gc_ops_def)
  qed
  show "T d = Some t" if "go_meta (mem_gc_ops L r) d s = (Inr t, s')"
    using that ok
    by (auto simp: mem_gc_ops_def mem_blobMeta_def mem_live_ok_def split: if_splits option.splits)
qed


section \<open>Properties of a collection\<close>

lemma mem_repo_gc_outcome:
  assumes "mem_repo_gc L r s = Some (Inr (), s')" and "fmlookup (ms_repos s) r = Some mr"
  obtains i chg s1 where
    "repoGarbageCollect L (mem_gc_ops L r) (ms_gc s) (ms_now s) (ms_rnow s) (mr_index mr) s = Some (Inr (i, chg), s1)"
    "s' = (if chg then upd_repo r (\<lambda>m. m\<lparr>mr_index := i, mr_timeMod := ms_now s1\<rparr>) s1 else s1)"
  using assms by (auto simp: mem_repo_gc_def split: option.splits sum.splits prod.splits)

lemma mem_content_index_update [simp]:
  "mem_content r (upd_repo r (\<lambda>m. m\<lparr>mr_index := i, mr_timeMod := t\<rparr>) s) = mem_content r s"
proof
  fix d
  show "mem_content r (upd_repo r (\<lambda>m. m\<lparr>mr_index := i, mr_timeMod := t\<rparr>) s) d = mem_content r s d"
  proof (cases "fmlookup (ms_repos s) r")
    case (Some mr)
    have "repo_content D (mr\<lparr>mr_index := i, mr_timeMod := t\<rparr>) d = repo_content D mr d" for D
      by (rule repo_content_cong) simp_all
    with Some show ?thesis by (simp add: mem_content_def)
  qed (simp add: mem_content_def)
qed

text \<open>
  C28: A garbage collection of a repository of the memory store ends, whatever the index and the
  blobs contain (also manifests that refer to each other in circles), if the listing of the backing
  directory is finite and consistent.
\<close>

theorem mem_gc_terminates:
  assumes "mem_gc_ok L r s"
  shows "\<exists>res s'. mem_repo_gc L r s = Some (res, s')"
proof (cases "fmlookup (ms_repos s) r")
  case None
  then show ?thesis by (simp add: mem_repo_gc_def)
next
  case (Some mr)
  obtain res s1 where
    "repoGarbageCollect L (mem_gc_ops L r) (ms_gc s) (ms_now s) (ms_rnow s) (mr_index mr) s = Some (res, s1)"
    using mem_gc.gc_ends [OF assms] by blast
  then show ?thesis using Some by (auto simp: mem_repo_gc_def split: sum.splits prod.splits)
qed

text \<open>
  C1: A collection deletes nothing that is needed, if the roots it selects are coherent: no digest is
  reached with two media types, and none of a reachable manifest is also the config or a layer of a
  reachable image (without this, blobs can be lost: see the theorem on a layer that hides an index).
  Every blob that a needed descriptor stands for or lists (children, config, layers, referrers
  responses) then reads after the collection as before.  Needed is what can be reached from the roots,
  and every entry of the index without subject is a root if it has a tag, or if untagged entries are kept.
\<close>

theorem mem_gc_keeps_needed:
  assumes "mem_gc_ok L r s" and "fmlookup (ms_repos s) r = Some mr"
    and "gc_build_all L (mem_gc_ops L r) (ms_gc s) (ms_now s) (i_manifests (mr_index mr)) s = (gb, s1)"
    and "coherent L (gb_subjects gb) (mem_content r s) (set (gb_manifests gb))"
    and "mem_repo_gc L r s = Some (Inr (), s')"
    and "needed L (gb_subjects gb) (mem_content r s) (set (gb_manifests gb)) d"
    and "x \<in> marks L (mem_content r s) d"
  shows "mem_content r s' x = mem_content r s x \<and>
    (\<forall>c\<in>set (i_manifests (mr_index mr)). subject_of c = [] \<longrightarrow> tag_of c \<noteq> [] \<or> \<not> deref (gc_untagged (ms_gc s)) \<longrightarrow>
       c \<in> set (gb_manifests gb))"
proof
  obtain i chg s2 where gc:
    "repoGarbageCollect L (mem_gc_ops L r) (ms_gc s) (ms_now s) (ms_rnow s) (mr_index mr) s = Some (Inr (i, chg), s2)"
    "s' = (if chg then upd_repo r (\<lambda>m. m\<lparr>mr_index := i, mr_timeMod := ms_now s2\<rparr>) s2 else s2)"
    by (rule mem_repo_gc_outcome [OF assms(5,2)])
  have "order_ok L" using assms(1) by (simp add: mem_gc_ok_def)
  from mem_gc.gc_keeps_needed(1) [OF assms(1) this gc(1) assms(3,4,6)] assms(7) gc(2)
  show "mem_content r s' x = mem_content r s x" by simp
qed (use mem_gc.build_all [OF assms(1,3)] in blast)

text \<open>
  C27: A collection of a repository in memory deletes what is not needed: when the roots are coherent,
  a blob that no needed descriptor stands for or lists is gone afterwards, if the index names it or
  its last change is not within the grace period.
\<close>

theorem mem_gc_deletes_garbage:
  assumes "mem_live_ok L r T s" and "fmlookup (ms_repos s) r = Some mr"
    and "gc_build_all L (mem_gc_ops L r) (ms_gc s) (ms_now s) (i_manifests (mr_index mr)) s = (gb, s1)"
    and "coherent L (gb_subjects gb) (mem_content r s) (set (gb_manifests gb))"
    and "mem_repo_gc L r s = Some (Inr (), s')"
    and "\<forall>d. needed L (gb_subjects gb) (mem_content r s) (set (gb_manifests gb)) d \<longrightarrow>
           x \<notin> marks L (mem_content r s) d"
    and "x \<in> d_digest ` set (i_manifests (mr_index mr)) \<or>
           (\<forall>t. T x = Some t \<longrightarrow> \<not> gc_recent (ms_gc s) (ms_now s) t)"
  shows "mem_content r s' x = None"
proof -
  obtain i chg s2 where gc:
    "repoGarbageCollect L (mem_gc_ops L r) (ms_gc s) (ms_now s) (ms_rnow s) (mr_index mr) s = Some (Inr (i, chg), s2)"
    "s' = (if chg then upd_repo r (\<lambda>m. m\<lparr>mr_index := i, mr_timeMod := ms_now s2\<rparr>) s2 else s2)"
    by (rule mem_repo_gc_outcome [OF assms(5,2)])
  have "order_ok L" using assms(1) by (simp add: mem_live_ok_def)
  from mem_live.gc_collects_garbage [OF assms(1) this gc(1) assms(3,4) _ assms(7)] assms(6) gc(2)
  show ?thesis by simp
qed

text \<open>
  C31: The walk marks the config and the layers of an image in the same set as the manifests it has
  walked, and starts with the last root.  If that is an image \<open>im\<close> that lists the digest \<open>z\<close> of another
  manifest, then \<open>z\<close> is kept but never walked: the collection deletes every blob \<open>x\<close> that the roots reach
  only through \<open>z\<close> (that nothing needed marks in the contents without \<open>z\<close>), if the index names \<open>x\<close> or its
  last change is not within the grace period.  That \<open>z\<close> is the digest of a tagged index and \<open>x\<close> one of
  its children makes no difference: the witness loses the child of a tagged index.
\<close>

theorem mem_gc_layer_hides_index:
  assumes "mem_live_ok L r T s" and "fmlookup (ms_repos s) r = Some mr"
    and "gc_build_all L (mem_gc_ops L r) (ms_gc s) (ms_now s) (i_manifests (mr_index mr)) s = (gb, s1)"
    and "gb_manifests gb = xs @ [im]" and "z \<in> marks L (mem_content r s) im" and "z \<noteq> d_digest im"
    and "mem_repo_gc L r s = Some (Inr (), s')"
    and "\<forall>d. needed L (gb_subjects gb) ((mem_content r s)(z := None)) (set (gb_manifests gb)) d \<longrightarrow>
           x \<notin> marks L ((mem_content r s)(z := None)) d"
    and "x \<in> d_digest ` set (i_manifests (mr_index mr)) \<or>
           (\<forall>t. T x = Some t \<longrightarrow> \<not> gc_recent (ms_gc s) (ms_now s) t)"
  shows "mem_content r s' x = None \<and> mem_content r s' z = mem_content r s z"
proof -
  obtain i chg s2 where gc:
    "repoGarbageCollect L (mem_gc_ops L r) (ms_gc s) (ms_now s) (ms_rnow s) (mr_index mr) s = Some (Inr (i, chg), s2)"
    "s' = (if chg then upd_repo r (\<lambda>m. m\<lparr>mr_index := i, mr_timeMod := ms_now s2\<rparr>) s2 else s2)"
    by (rule mem_repo_gc_outcome [OF assms(7,2)])
  have "order_ok L" using assms(1) by (simp add: mem_live_ok_def)
  from mem_live.gc_hidden_deleted [OF assms(1) this gc(1) assms(3-6,8,9)] gc(2)
  show ?thesis by simp
qed


text \<open>
  In the index a collection of a repository in memory computes, every entry has its blob in the
  store it leaves.
\<close>

theorem mem_gc_index_backed:
  assumes "mem_live_ok L r T s" and "fmlookup (ms_repos s) r = Some mr"
    and "repoGarbageCollect L (mem_gc_ops L r) (ms_gc s) (ms_now s) (ms_rnow s) (mr_index mr) s = Some (Inr (i, chg), s')"
    and "c \<in> set (i_manifests i)" and "dig_parse L (d_digest c) = Some (d_digest c)"
    and "\<not> refTagRE (d_digest c)"
  shows "mem_content r s' (d_digest c) \<noteq> None"
  using mem_live.gc_index_backed [OF assms(1) _ assms(3-6)] assms(1) by (simp add: mem_live_ok_def)


section \<open>Concrete collections\<close>

text \<open>
  A store with one repository: the tag \<open>a\<close> names the index \<open>s:I\<close>, whose child is the image \<open>s:M\<close>
  with the config \<open>s:c\<close>; \<open>s:x\<close> belongs to nothing.  All blobs are older than the grace period.
\<close>

definition demo_child :: descriptor where
  "demo_child = zero_descriptor\<lparr>d_mediaType := mt_oci1_manifest, d_digest := ''s:M''\<rparr>"

definition demo_image :: "descriptor list \<Rightarrow> manifest" where
  "demo_image layers = \<lparr>m_schemaVersion = 2, m_mediaType = mt_oci1_manifest, m_artifactType = [],
     m_config = zero_descriptor\<lparr>d_digest := ''s:c''\<rparr>, m_layers = layers, m_subject = None,
     m_annotations = fmempty\<rparr>"

definition gc_lib :: lib where
  "gc_lib = demo_lib\<lparr>
     dec_index := (\<lambda>b. if b = ''I'' then Some (new_response [demo_child]) else None),
     dec_manifest := (\<lambda>b. if b = ''M'' then Some (demo_image [])
                          else if b = ''N'' then Some (demo_image [zero_descriptor\<lparr>d_digest := ''s:I''\<rparr>]) else None)\<rparr>"

definition demo_tagged :: "string \<Rightarrow> string \<Rightarrow> digest \<Rightarrow> descriptor" where
  "demo_tagged tag mt d = zero_descriptor\<lparr>d_mediaType := mt, d_digest := d,
     d_annotations := fmupd annot_ref_name tag fmempty\<rparr>"

definition no_backing :: backing where
  "no_backing = \<lparr>bd_open = (\<lambda>_ _. OsNotExist), bd_stat = (\<lambda>_ _. OsNotExist), bd_list = (\<lambda>_. []),
     bd_indexIsDir = (\<lambda>_. OsNotExist), bd_layoutFile = (\<lambda>_. OsNotExist), bd_indexFile = (\<lambda>_. OsNotExist)\<rparr>"

definition old_blob :: "bytes \<Rightarrow> mem_blob option" where
  "old_blob b = Some \<lparr>mb_bytes = b, mb_mod = 0\<rparr>"

definition demo_repo :: "descriptor list \<Rightarrow> mem_repo" where
  "demo_repo ds = (new_mem_repo demo_conf [])\<lparr>
     mr_index := (empty_layout fmempty)\<lparr>i_manifests := ds\<rparr>,
     mr_blobs := fmupd ''s:I'' (old_blob ''I'') (fmupd ''s:M'' (old_blob ''M'') (fmupd ''s:c'' (old_blob ''c'')
       (fmupd ''s:x'' (old_blob ''x'') (fmupd ''s:N'' (old_blob ''N'') fmempty))))\<rparr>"

definition demo_store :: "descriptor list \<Rightarrow> mem_store" where
  "demo_store ds = (newMem demo_conf 0 10000000000000 [''sid1'', ''sid2''] no_backing)\<lparr>
     ms_repos := fmupd ''r'' (demo_repo ds) fmempty\<rparr>"

abbreviation demo_index :: descriptor where
  "demo_index \<equiv> demo_tagged ''a'' mt_oci1_manifest_list ''s:I''"

lemma demo_tagged_simps [simp]:
  "d_digest (demo_tagged t mt d) = d" "d_mediaType (demo_tagged t mt d) = mt"
  "tag_of (demo_tagged t mt d) = t" "subject_of (demo_tagged t mt d) = []"
  "d_digest demo_child = ''s:M''" "d_mediaType demo_child = mt_oci1_manifest"
  by (simp_all add: demo_tagged_def demo_child_def zero_descriptor_def annotationVal_def)

lemma demo_repo_simps [simp]:
  "mr_path (demo_repo ds) = []" "i_manifests (mr_index (demo_repo ds)) = ds"
  by (simp_all add: demo_repo_def new_mem_repo_def Let_def empty_layout_def)

lemma demo_store_simps [simp]:
  "fmlookup (ms_repos (demo_store ds)) ''r'' = Some (demo_repo ds)"
  "ms_conf (demo_store ds) = demo_conf" "ms_now (demo_store ds) = 10000000000000"
  by (simp_all add: demo_store_def newMem_def)

lemma demo_blobs:
  "fmlookup (mr_blobs (demo_repo ds)) d =
     (if d = ''s:I'' then Some (old_blob ''I'') else if d = ''s:M'' then Some (old_blob ''M'')
      else if d = ''s:c'' then Some (old_blob ''c'') else if d = ''s:x'' then Some (old_blob ''x'')
      else if d = ''s:N'' then Some (old_blob ''N'') else None)"
  by (simp add: demo_repo_def)

definition demo_content :: "digest \<Rightarrow> reader option" where
  "demo_content d =
     (if d = ''s:I'' then Some (Inr ''I'') else if d = ''s:M'' then Some (Inr ''M'')
      else if d = ''s:c'' then Some (Inr ''c'') else if d = ''s:x'' then Some (Inr ''x'')
      else if d = ''s:N'' then Some (Inr ''N'') else None)"

lemma demo_mem_content: "mem_content ''r'' (demo_store ds) = demo_content"
proof
  fix d
  show "mem_content ''r'' (demo_store ds) d = demo_content d"
    by (cases "d = []") (simp_all add: mem_content_known demo_blobs old_blob_def demo_content_def)
qed

definition demo_times :: "digest \<Rightarrow> time option" where
  "demo_times d = (if demo_content d = None then None else Some 0)"

lemma gc_lib_simps [simp]:
  "dec_index gc_lib b = (if b = ''I'' then Some (new_response [demo_child]) else None)"
  "dec_manifest gc_lib b = (if b = ''M'' then Some (demo_image [])
     else if b = ''N'' then Some (demo_image [zero_descriptor\<lparr>d_digest := ''s:I''\<rparr>]) else None)"
  "order_ok gc_lib" "dig_parse gc_lib = dig_parse demo_lib"
  using demo_lib_ok(3) by (simp_all add: gc_lib_def order_ok_def)

lemma demo_live: "mem_live_ok gc_lib ''r'' demo_times (demo_store ds)"
proof -
  have "d \<noteq> [] \<and> demo_times d = Some (mb_mod b)" if "fmlookup (mr_blobs (demo_repo ds)) d = Some (Some b)" for d b
    using that by (auto simp: demo_blobs demo_times_def demo_content_def old_blob_def split: if_splits)
  then show ?thesis by (simp add: mem_live_ok_def)
qed

lemma demo_build:
  assumes "\<forall>d\<in>set ds. subject_of d = []"
  shows "\<exists>ix. gc_build_all L G (cs_gc (c_storage demo_conf)) now ds s =
     (\<lparr>gb_manifests = ds, gb_subjects = fmempty, gb_inIndex = ix\<rparr>, s)"
proof -
  have "\<not> deref (gc_untagged (cs_gc (c_storage demo_conf)))" by simp
  then show ?thesis using build_quiet [OF _ assms] by metis
qed

lemma demo_content_at [simp]: "demo_content ''s:I'' = Some (Inr ''I'')" "demo_content ''s:M'' = Some (Inr ''M'')"
  by (simp_all add: demo_content_def)

lemma demo_visits:
  "cont ''s:I'' = Some (Inr ''I'') \<Longrightarrow> visit gc_lib fmempty cont demo_index {} = ([demo_child], {''s:I''})"
  "cont ''s:M'' = Some (Inr ''M'') \<Longrightarrow> visit gc_lib fmempty cont demo_child {} = ([], {''s:M'', ''s:c''})"
  by (simp_all add: visit_def gc_referrer_def new_response_def demo_image_def insert_commute zero_descriptor_def)

lemma demo_needed:
  assumes "cont ''s:I'' = Some (Inr ''I'')" "cont ''s:M'' = Some (Inr ''M'')"
  shows "needed gc_lib fmempty cont {demo_index} d \<longleftrightarrow> d = demo_index \<or> d = demo_child"
proof
  show "d = demo_index \<or> d = demo_child" if "needed gc_lib fmempty cont {demo_index} d"
    using that by (induction rule: needed.induct) (auto simp: demo_visits assms)
  have "needed gc_lib fmempty cont {demo_index} demo_index" by (rule needed_root) simp
  moreover from this have "needed gc_lib fmempty cont {demo_index} demo_child"
    by (rule needed_succ) (simp add: demo_visits assms)
  ultimately show "needed gc_lib fmempty cont {demo_index} d" if "d = demo_index \<or> d = demo_child"
    using that by blast
qed

lemma demo_coherent:
  assumes "cont ''s:I'' = Some (Inr ''I'')" "cont ''s:M'' = Some (Inr ''M'')"
  shows "coherent gc_lib fmempty cont {demo_index}"
  unfolding coherent_def demo_needed [OF assms] by (auto simp: demo_visits assms)

theorem mem_gc_terminates_witness:
  "\<exists>res s'. mem_repo_gc gc_lib ''r'' (demo_store [demo_index]) = Some (res, s')"
  by (rule mem_gc_terminates, rule mem_live_gc_ok, rule demo_live)

lemma demo_gc_runs:
  "\<exists>s'. mem_repo_gc gc_lib ''r'' (demo_store ds) = Some (Inr (), s')"
proof -
  let ?s = "demo_store ds"
  have ok: "mem_gc_ok gc_lib ''r'' ?s" by (rule mem_live_gc_ok, rule demo_live)
  obtain res s1 where gc: "repoGarbageCollect gc_lib (mem_gc_ops gc_lib ''r'') (ms_gc ?s) (ms_now ?s) (ms_rnow ?s)
      (mr_index (demo_repo ds)) ?s = Some (res, s1)"
    using mem_gc.gc_ends [OF ok] by blast
  have "\<exists>dl. mem_blobList gc_lib ''r'' s = (Inr dl, s)" for s
    by (cases "fmlookup (ms_repos s) ''r''") (simp_all add: mem_blobList_def Let_def)
  then have list: "go_list (mem_gc_ops gc_lib ''r'') s = (Inl e, s') \<Longrightarrow> False" for s e s'
    by (simp add: mem_gc_ops_def) (metis Inl_Inr_False prod.inject)
  have "\<exists>x. res = Inr x"
    using gc list by (auto simp: repoGarbageCollect_def split: prod.splits option.splits sum.splits)
  then show ?thesis using gc by (auto simp: mem_repo_gc_def)
qed

theorem mem_gc_keeps_needed_witness:
  "\<exists>s'. mem_repo_gc gc_lib ''r'' (demo_store [demo_index]) = Some (Inr (), s') \<and>
        mem_content ''r'' s' ''s:M'' = Some (Inr ''M'')"
proof -
  obtain s' where s': "mem_repo_gc gc_lib ''r'' (demo_store [demo_index]) = Some (Inr (), s')"
    using demo_gc_runs by blast
  let ?s = "demo_store [demo_index]"
  obtain ix where b: "gc_build_all gc_lib (mem_gc_ops gc_lib ''r'') (ms_gc ?s) (ms_now ?s)
       (i_manifests (mr_index (demo_repo [demo_index]))) ?s =
      (\<lparr>gb_manifests = [demo_index], gb_subjects = fmempty, gb_inIndex = ix\<rparr>, ?s)"
    using demo_build [of "[demo_index]"] by fastforce
  have "mem_content ''r'' s' ''s:M'' = mem_content ''r'' ?s ''s:M''"
    by (rule mem_gc_keeps_needed [THEN conjunct1, OF mem_live_gc_ok [OF demo_live] demo_store_simps(1) b _ s', of demo_child])
      (simp_all add: demo_mem_content demo_coherent demo_needed demo_visits)
  then show ?thesis using s' by (simp add: demo_mem_content demo_content_def)
qed

theorem mem_gc_deletes_garbage_witness:
  "\<exists>s'. mem_repo_gc gc_lib ''r'' (demo_store [demo_index]) = Some (Inr (), s') \<and>
        mem_content ''r'' (demo_store [demo_index]) ''s:x'' = Some (Inr ''x'') \<and>
        mem_content ''r'' s' ''s:x'' = None"
proof -
  obtain s' where s': "mem_repo_gc gc_lib ''r'' (demo_store [demo_index]) = Some (Inr (), s')"
    using demo_gc_runs by blast
  let ?s = "demo_store [demo_index]"
  obtain ix where b: "gc_build_all gc_lib (mem_gc_ops gc_lib ''r'') (ms_gc ?s) (ms_now ?s)
       (i_manifests (mr_index (demo_repo [demo_index]))) ?s =
      (\<lparr>gb_manifests = [demo_index], gb_subjects = fmempty, gb_inIndex = ix\<rparr>, ?s)"
    using demo_build [of "[demo_index]"] by fastforce
  have "mem_content ''r'' s' ''s:x'' = None"
    by (rule mem_gc_deletes_garbage [OF demo_live demo_store_simps(1) b _ s'])
      (auto simp: demo_mem_content demo_coherent demo_needed demo_visits gc_recent_def gc_cutoff_def
        demo_times_def split: if_splits)
  then show ?thesis using s' by (simp add: demo_mem_content demo_content_def)
qed

theorem mem_gc_index_backed_witness:
  "\<exists>i chg s'. repoGarbageCollect gc_lib (mem_gc_ops gc_lib ''r'') (cs_gc (c_storage demo_conf)) 10000000000000
      (ms_rnow (demo_store [demo_index])) (mr_index (demo_repo [demo_index])) (demo_store [demo_index]) =
      Some (Inr (i, chg), s') \<and>
    demo_index \<in> set (i_manifests i) \<and> mem_content ''r'' s' ''s:I'' \<noteq> None"
proof -
  let ?s = "demo_store [demo_index]"
  obtain s' where s': "mem_repo_gc gc_lib ''r'' ?s = Some (Inr (), s')"
    using demo_gc_runs by blast
  obtain i chg s2 where gc:
    "repoGarbageCollect gc_lib (mem_gc_ops gc_lib ''r'') (ms_gc ?s) (ms_now ?s) (ms_rnow ?s)
       (mr_index (demo_repo [demo_index])) ?s = Some (Inr (i, chg), s2)"
    using mem_repo_gc_outcome [OF s' demo_store_simps(1)] by metis
  obtain ix where b: "gc_build_all gc_lib (mem_gc_ops gc_lib ''r'') (ms_gc ?s) (ms_now ?s)
       (i_manifests (mr_index (demo_repo [demo_index]))) ?s =
      (\<lparr>gb_manifests = [demo_index], gb_subjects = fmempty, gb_inIndex = ix\<rparr>, ?s)"
    using demo_build [of "[demo_index]"] by fastforce
  have "demo_index \<in> set (i_manifests i)"
    by (rule mem_gc.gc_keeps_needed(2) [OF mem_live_gc_ok [OF demo_live] _ gc b])
      (simp_all add: demo_mem_content demo_coherent demo_needed demo_content_def)
  then show ?thesis
    using mem_gc_index_backed [OF demo_live demo_store_simps(1) gc, of demo_index] gc
    by (auto simp: demo_lib_def refTagRE_def tag_start_char_def alnum_char_def tag_char_def)
qed

theorem mem_gc_layer_hides_index_witness:
  "let s = demo_store [demo_index, demo_tagged ''b'' mt_oci1_manifest ''s:N''] in
   \<exists>s'. mem_repo_gc gc_lib ''r'' s = Some (Inr (), s') \<and>
        mem_content ''r'' s' ''s:I'' = Some (Inr ''I'') \<and>
        mem_content ''r'' s ''s:M'' = Some (Inr ''M'') \<and> mem_content ''r'' s' ''s:M'' = None"
proof -
  let ?im = "demo_tagged ''b'' mt_oci1_manifest ''s:N''"
  let ?s = "demo_store [demo_index, ?im]"
  obtain s' where s': "mem_repo_gc gc_lib ''r'' ?s = Some (Inr (), s')"
    using demo_gc_runs by blast
  obtain ix where b: "gc_build_all gc_lib (mem_gc_ops gc_lib ''r'') (ms_gc ?s) (ms_now ?s)
       (i_manifests (mr_index (demo_repo [demo_index, ?im]))) ?s =
      (\<lparr>gb_manifests = [demo_index, ?im], gb_subjects = fmempty, gb_inIndex = ix\<rparr>, ?s)"
    using demo_build [of "[demo_index, ?im]"] by fastforce
  let ?c = "demo_content(''s:I'' := None)"
  have V: "visit gc_lib fmempty ?c demo_index {} = ([], {})"
    "visit gc_lib fmempty ?c ?im {} = ([], {''s:N'', ''s:I'', ''s:c''})"
    "visit gc_lib fmempty demo_content ?im {} = ([], {''s:N'', ''s:I'', ''s:c''})"
    by (simp_all add: visit_def demo_content_def gc_referrer_def demo_image_def zero_descriptor_def insert_commute)
  have N: "d = demo_index \<or> d = ?im" if "needed gc_lib fmempty ?c {demo_index, ?im} d" for d
    using that by (induction rule: needed.induct) (auto simp: V)
  have "''s:M'' \<notin> marks gc_lib ?c d" if "needed gc_lib fmempty ?c {demo_index, ?im} d" for d
    using N [OF that] V(1,2) visit_marks [of gc_lib fmempty ?c d] by auto
  moreover have "''s:I'' \<in> marks gc_lib demo_content ?im"
    using V(3) visit_marks [of gc_lib fmempty demo_content ?im] by auto
  ultimately have "mem_content ''r'' s' ''s:M'' = None \<and> mem_content ''r'' s' ''s:I'' = mem_content ''r'' ?s ''s:I''"
    by (intro mem_gc_layer_hides_index [OF demo_live demo_store_simps(1) b _ _ _ s', of "[demo_index]"])
      (auto simp: demo_mem_content gc_recent_def gc_cutoff_def demo_times_def split: if_splits)
  then show ?thesis unfolding Let_def using s' by (auto simp: demo_mem_content demo_content_def)
qed

end
