(* ===== verification/Regex.thy ===== *)
theory Regex
  imports Prelude
begin

text \<open>
  Regular expressions over bytes with a matcher by derivatives, for the anchored patterns the registry
  compiles with Go's \<open>regexp\<close> package (whose matches of an anchored pattern are those of its
  language).  A set of characters is a predicate.
\<close>

datatype regex =
    RNone
  | REmpty
  | RChars "char \<Rightarrow> bool"
  | RAlt regex regex
  | RSeq regex regex
  | RStar regex

abbreviation RPlus :: "regex \<Rightarrow> regex" where "RPlus r \<equiv> RSeq r (RStar r)"

fun rstring :: "string \<Rightarrow> regex" where
  "rstring [] = REmpty"
| "rstring (c # cs) = RSeq (RChars (\<lambda>x. x = c)) (rstring cs)"

inductive in_lang :: "regex \<Rightarrow> string \<Rightarrow> bool" where
  empty: "in_lang REmpty []"
| chars: "p c \<Longrightarrow> in_lang (RChars p) [c]"
| alt_left: "in_lang r s \<Longrightarrow> in_lang (RAlt r q) s"
| alt_right: "in_lang q s \<Longrightarrow> in_lang (RAlt r q) s"
| seq: "in_lang r s \<Longrightarrow> in_lang q t \<Longrightarrow> in_lang (RSeq r q) (s @ t)"
| star_empty: "in_lang (RStar r) []"
| star_step: "in_lang r s \<Longrightarrow> in_lang (RStar r) t \<Longrightarrow> in_lang (RStar r) (s @ t)"

inductive_cases in_lang_NoneE [elim!]: "in_lang RNone s"
inductive_cases in_lang_EmptyE [elim!]: "in_lang REmpty s"
inductive_cases in_lang_CharsE [elim!]: "in_lang (RChars p) s"
inductive_cases in_lang_AltE [elim!]: "in_lang (RAlt r q) s"
inductive_cases in_lang_SeqE [elim]: "in_lang (RSeq r q) s"

fun nullable :: "regex \<Rightarrow> bool" where
  "nullable RNone = False"
| "nullable REmpty = True"
| "nullable (RChars p) = False"
| "nullable (RAlt r q) = (nullable r \<or> nullable q)"
| "nullable (RSeq r q) = (nullable r \<and> nullable q)"
| "nullable (RStar r) = True"

fun deriv :: "char \<Rightarrow> regex \<Rightarrow> regex" where
  "deriv c RNone = RNone"
| "deriv c REmpty = RNone"
| "deriv c (RChars p) = (if p c then REmpty else RNone)"
| "deriv c (RAlt r q) = RAlt (deriv c r) (deriv c q)"
| "deriv c (RSeq r q) =
     (if nullable r then RAlt (RSeq (deriv c r) q) (deriv c q) else RSeq (deriv c r) q)"
| "deriv c (RStar r) = RSeq (deriv c r) (RStar r)"

definition matches :: "regex \<Rightarrow> string \<Rightarrow> bool" where
  "matches r s = nullable (fold deriv s r)"

lemma in_lang_seq_Nil: "in_lang (RSeq r q) [] \<longleftrightarrow> in_lang r [] \<and> in_lang q []"
proof
  assume "in_lang (RSeq r q) []"
  then obtain u v where "[] = u @ v" "in_lang r u" "in_lang q v" by (rule in_lang_SeqE)
  then show "in_lang r [] \<and> in_lang q []" by simp
next
  assume "in_lang r [] \<and> in_lang q []"
  then show "in_lang (RSeq r q) []" using in_lang.seq [of r "[]" q "[]"] by simp
qed

lemma nullable_iff: "nullable r \<longleftrightarrow> in_lang r []"
proof (induction r)
  case (RSeq r q)
  then show ?case by (simp add: in_lang_seq_Nil)
qed (auto intro: in_lang.empty in_lang.alt_left in_lang.alt_right in_lang.star_empty)

lemma star_Cons:
  "in_lang (RStar r) s \<Longrightarrow> s = c # t \<Longrightarrow>
     \<exists>u v. t = u @ v \<and> in_lang r (c # u) \<and> in_lang (RStar r) v"
proof (induction "RStar r" s arbitrary: c t rule: in_lang.induct)
  case (star_step s v)
  then show ?case by (cases s) auto
qed simp

lemma deriv_iff: "in_lang (deriv c r) s \<longleftrightarrow> in_lang r (c # s)"
proof (induction r arbitrary: s)
  case (RSeq r q)
  show ?case
  proof
    assume "in_lang (deriv c (RSeq r q)) s"
    then consider u v where "s = u @ v" "in_lang (deriv c r) u" "in_lang q v"
      | "nullable r" "in_lang (deriv c q) s"
      by (auto split: if_splits)
    then show "in_lang (RSeq r q) (c # s)"
    proof cases
      case 1
      then show ?thesis using RSeq.IH(1) in_lang.seq [of r "c # u" q v] by simp
    next
      case 2
      then show ?thesis using RSeq.IH(2) in_lang.seq [of r "[]" q "c # s"] by (simp add: nullable_iff)
    qed
  next
    assume "in_lang (RSeq r q) (c # s)"
    then obtain u v where uv: "c # s = u @ v" "in_lang r u" "in_lang q v" by auto
    show "in_lang (deriv c (RSeq r q)) s"
    proof (cases u)
      case Nil
      then have "nullable r" "in_lang (deriv c q) s" using uv RSeq.IH(2) by (auto simp: nullable_iff)
      then show ?thesis by (auto intro: in_lang.intros)
    next
      case (Cons d u')
      then have "in_lang (deriv c r) u'" "s = u' @ v" using uv RSeq.IH(1) by auto
      then show ?thesis using uv(3) by (auto intro: in_lang.intros)
    qed
  qed
next
  case (RStar r)
  show ?case
  proof
    assume "in_lang (deriv c (RStar r)) s"
    then obtain u v where "s = u @ v" "in_lang r (c # u)" "in_lang (RStar r) v"
      using RStar.IH by auto
    then show "in_lang (RStar r) (c # s)" using in_lang.star_step [of r "c # u" v] by simp
  next
    assume "in_lang (RStar r) (c # s)"
    then obtain u v where "s = u @ v" "in_lang r (c # u)" "in_lang (RStar r) v"
      using star_Cons by blast
    then show "in_lang (deriv c (RStar r)) s" using RStar.IH by (auto intro: in_lang.seq)
  qed
qed (auto intro: in_lang.intros)

text \<open>The matcher decides the language.\<close>

lemma matches_iff: "matches r s \<longleftrightarrow> in_lang r s"
  unfolding matches_def
  by (induction s arbitrary: r) (simp_all add: nullable_iff deriv_iff)

section \<open>Consequences for the strings of a language\<close>

text \<open>A property of single characters that every set of the expression implies.\<close>

fun chars_in :: "(char \<Rightarrow> bool) \<Rightarrow> regex \<Rightarrow> bool" where
  "chars_in P (RChars p) \<longleftrightarrow> (\<forall>c. p c \<longrightarrow> P c)"
| "chars_in P (RAlt r q) \<longleftrightarrow> chars_in P r \<and> chars_in P q"
| "chars_in P (RSeq r q) \<longleftrightarrow> chars_in P r \<and> chars_in P q"
| "chars_in P (RStar r) \<longleftrightarrow> chars_in P r"
| "chars_in P _ \<longleftrightarrow> True"

lemma in_lang_chars: "in_lang r s \<Longrightarrow> chars_in P r \<Longrightarrow> c \<in> set s \<Longrightarrow> P c"
  by (induction rule: in_lang.induct) auto

end
