(* ===== verification/Blob_Handlers.thy ===== *)
theory Blob_Handlers
  imports Repo
begin

text \<open>
  The handlers of the blob API (\<open>blob.go\<close>).  A handler takes the request and turns the pair of
  store and response writer into a new pair; it reaches the store through its methods only.  Log
  messages are left out.
\<close>

type_synonym 's handler = "request \<Rightarrow> 's \<times> response_writer \<Rightarrow> 's \<times> response_writer"

section \<open>Common branches\<close>

text \<open>The error branch of \<open>RepoGet\<close>, the same in every handler but \<open>referrerGet\<close>.\<close>

definition repoGet_err :: "err \<Rightarrow> response_writer \<Rightarrow> response_writer" where
  "repoGet_err e w =
     (if e = ErrRepoNotAllowed then resp_err 400 [errInfoNameInvalid ''repository name is not allowed''] w
      else writeHeader 500 w)"

definition with_repo ::
    "'s store_ops \<Rightarrow> string \<Rightarrow> ('s \<times> response_writer \<Rightarrow> 's \<times> response_writer) \<Rightarrow>
     's \<times> response_writer \<Rightarrow> 's \<times> response_writer" where
  "with_repo S repoStr k = (\<lambda>(s, w).
     case so_repoGet S repoStr s of
       (Inl e, s1) \<Rightarrow> (s1, repoGet_err e w)
     | (Inr _, s1) \<Rightarrow> k (s1, w))"

definition read_only :: "config \<Rightarrow> bool" where
  "read_only conf = deref (cs_readOnly (c_storage conf))"

abbreviation deny_read_only :: "response_writer \<Rightarrow> response_writer" where
  "deny_read_only w \<equiv> resp_err 403 [errInfoDenied ''repository is read-only''] w"

text \<open>
  \<open>http.ServeContent\<close> of a reader; one that cannot be read at all is answered as ServeContent
  answers a failing seek.
\<close>

definition serve_reader :: "request \<Rightarrow> reader \<Rightarrow> response_writer \<Rightarrow> response_writer" where
  "serve_reader r rd w =
     (case rd of
        Inr b \<Rightarrow> serve_content r b w
      | Inl _ \<Rightarrow> writeBody (ChunkBytes ''seeker can't seek'')
                  (writeHeader 500 (header_set ''Content-Type'' ''text/plain; charset=utf-8'' w)))"

definition created_at :: "string list \<Rightarrow> digest \<Rightarrow> response_writer \<Rightarrow> response_writer" where
  "created_at path d w =
     writeHeader 201 (header_add ''Docker-Content-Digest'' d (header_set ''location'' (url_join path) w))"

section \<open>Blobs\<close>

definition blobGet :: "lib \<Rightarrow> 's store_ops \<Rightarrow> string \<Rightarrow> string \<Rightarrow> 's handler" where
  "blobGet L S repoStr arg r = (\<lambda>(s, w).
     case dig_parse L arg of
       None \<Rightarrow> (s, resp_err 400 [errInfoDigestInvalid ''digest cannot be parsed''] w)
     | Some d \<Rightarrow>
       with_repo S repoStr (\<lambda>(s, w).
         case so_blobGet S repoStr d s of (res, s1) \<Rightarrow>
         let s2 = so_done S repoStr s1 in
         (s2, case res of
            Inl e \<Rightarrow> if e = ErrNotFound then resp_err 404 [errInfoBlobUnknown ''blob was not found''] w
                     else writeHeader 500 w
          | Inr rdr \<Rightarrow> serve_reader r rdr
              (header_add ''Docker-Content-Digest'' d (header_add ''Content-Type'' ''application/octet-stream'' w)))) (s, w))"

definition blobDelete :: "lib \<Rightarrow> 's store_ops \<Rightarrow> config \<Rightarrow> string \<Rightarrow> string \<Rightarrow> 's handler" where
  "blobDelete L S conf repoStr arg r = (\<lambda>(s, w).
     if read_only conf then (s, deny_read_only w)
     else case dig_parse L arg of
       None \<Rightarrow> (s, resp_err 400 [errInfoDigestInvalid ''digest cannot be parsed''] w)
     | Some d \<Rightarrow>
       with_repo S repoStr (\<lambda>(s, w).
         case so_blobDelete S repoStr d s of (res, s1) \<Rightarrow>
         let s2 = so_done S repoStr s1 in
         (s2, case res of
            Inl e \<Rightarrow> if e = ErrNotFound then resp_err 404 [errInfoBlobUnknown ''blob was not found''] w
                     else writeHeader 500 w
          | Inr _ \<Rightarrow> writeHeader 202 w)) (s, w))"

section \<open>Upload sessions\<close>

text \<open>The session a request names, with the repository released at once.\<close>

definition with_session ::
    "'s store_ops \<Rightarrow> string \<Rightarrow> string \<Rightarrow> (uid \<Rightarrow> 's \<times> response_writer \<Rightarrow> 's \<times> response_writer) \<Rightarrow>
     's \<times> response_writer \<Rightarrow> 's \<times> response_writer" where
  "with_session S repoStr sessionID k =
     with_repo S repoStr (\<lambda>(s, w).
       case so_blobSession S repoStr sessionID s of (res, s1) \<Rightarrow>
       let s2 = so_done S repoStr s1 in
       case res of
         Inl _ \<Rightarrow> (s2, resp_err 400 [errInfoBlobUploadUnknown ''upload session not found''] w)
       | Inr u \<Rightarrow> k u (s2, w))"

definition blobUploadDelete :: "'s store_ops \<Rightarrow> string \<Rightarrow> string \<Rightarrow> 's handler" where
  "blobUploadDelete S repoStr sessionID r =
     with_session S repoStr sessionID (\<lambda>bc (s, w).
       case so_cancel S bc s of
         (Inl _, s1) \<Rightarrow> (s1, writeHeader 500 w)
       | (Inr _, s1) \<Rightarrow> (s1, writeHeader 204 w))"

text \<open>The location of an upload, with the state the next request has to present.\<close>

definition upload_location :: "lib \<Rightarrow> string \<Rightarrow> int \<Rightarrow> response_writer \<Rightarrow> response_writer" where
  "upload_location L p offset w = header_add ''Location'' (url_string p [(''state'', enc_state L offset)]) w"

definition range_header :: "int \<Rightarrow> string" where
  "range_header sz = ''0-'' @ show_int (sz - 1)"

definition blobUploadGet :: "lib \<Rightarrow> 's store_ops \<Rightarrow> string \<Rightarrow> string \<Rightarrow> 's handler" where
  "blobUploadGet L S repoStr sessionID r =
     with_session S repoStr sessionID (\<lambda>bc (s, w).
       let curEnd = so_size S bc s in
       (s, writeHeader 204 (header_add ''Range'' (range_header curEnd) (upload_location L (rq_path r) curEnd w))))"

text \<open>
  \<open>blobUploadMount\<close>: \<open>None\<close> is the nil error, after which the response is complete.  The content
  of the source blob is copied in one write, as the memory reader's \<open>WriteTo\<close> does; an empty content
  is no write.
\<close>

definition blobUploadMount ::
    "lib \<Rightarrow> 's store_ops \<Rightarrow> string \<Rightarrow> string \<Rightarrow> string \<Rightarrow> 's \<times> response_writer \<Rightarrow>
     err option \<times> 's \<times> response_writer" where
  "blobUploadMount L S repoSrcStr repoTgtStr digStr = (\<lambda>(s, w).
     case dig_parse L digStr of
       None \<Rightarrow> (Some (ErrOther ''digest''), s, w)
     | Some dig \<Rightarrow>
       (case so_repoGet S repoTgtStr s of
          (Inl e, s1) \<Rightarrow> (Some e, s1, w)
        | (Inr _, s1) \<Rightarrow>
          (case so_blobCreate S repoTgtStr [BlobWithDigest dig] s1 of (res, s2) \<Rightarrow>
           let s3 = so_done S repoTgtStr s2 in
           case res of
             Inl e \<Rightarrow> if e = ErrBlobExists then (None, s3, created_at [''/v2'', repoTgtStr, ''blobs'', dig] dig w)
                      else (Some e, s3, w)
           | Inr (bc, _) \<Rightarrow>
             (case so_repoGet S repoSrcStr s3 of
                (Inl e, s4) \<Rightarrow> (case so_cancel S bc s4 of (_, s5) \<Rightarrow> (Some e, s5, w))
              | (Inr _, s4) \<Rightarrow>
                (case so_blobGet S repoSrcStr dig s4 of (res, s5) \<Rightarrow>
                 let s6 = so_done S repoSrcStr s5 in
                 case res of
                   Inl e \<Rightarrow> (case so_cancel S bc s6 of (_, s7) \<Rightarrow> (Some e, s7, w))
                 | Inr rdr \<Rightarrow>
                   (case (case rdr of
                            Inl e \<Rightarrow> (Inl e, s6)
                          | Inr b \<Rightarrow> io_copy S bc (if b = [] then [] else [b]) False s6) of
                      (Inl e, s7) \<Rightarrow> (case so_cancel S bc s7 of (_, s8) \<Rightarrow> (Some e, s8, w))
                    | (Inr _, s7) \<Rightarrow>
                      (case so_close S bc s7 of
                         (Inl e, s8) \<Rightarrow> (Some e, s8, w)
                       | (Inr _, s8) \<Rightarrow>
                         (None, s8, created_at [''/v2'', repoTgtStr, ''blobs'', dig] dig w))))))))"

text \<open>The part of \<open>blobUploadPost\<close> after the mount attempt.\<close>

definition post_options :: "lib \<Rightarrow> request \<Rightarrow> (error_info list + blob_opt list \<times> digest)" where
  "post_options L r =
     (let algoStr = query_get r ''digest-algorithm''; dStr = query_get r ''digest'';
          mountStr = query_get r ''mount'' in
      case (if algoStr = [] then Inr []
            else case alg_lookup L algoStr of
              None \<Rightarrow> Inl [errInfoDigestInvalid ''unsupported digest algorithm'']
            | Some a \<Rightarrow> Inr [BlobWithAlgorithm a]) of
        Inl es \<Rightarrow> Inl es
      | Inr bOpts \<Rightarrow>
        if dStr \<noteq> [] \<or> mountStr \<noteq> [] then
          (case dig_parse L (if dStr \<noteq> [] then dStr else mountStr) of
             None \<Rightarrow> Inl [errInfoDigestInvalid ''invalid digest format'']
           | Some d \<Rightarrow> Inr (bOpts @ [BlobWithDigest d], d))
        else Inr (bOpts, []))"

text \<open>A monolithic upload in the POST: copy, verify or cancel, close.\<close>

definition post_monolithic ::
    "lib \<Rightarrow> 's store_ops \<Rightarrow> string \<Rightarrow> digest \<Rightarrow> uid \<Rightarrow> 's handler" where
  "post_monolithic L S repoStr d bc r = (\<lambda>(s, w).
     case io_copy S bc (rq_body r) (rq_body_fail r) s of
       (Inl _, s1) \<Rightarrow> (s1, writeHeader 500 w)
     | (Inr _, s1) \<Rightarrow>
       (case so_verify S bc d s1 of
          (Inl _, s2) \<Rightarrow>
            (case so_cancel S bc s2 of (_, s3) \<Rightarrow>
             (s3, resp_err 400 [errInfoBlobUploadInvalid ''digest mismatch''] w))
        | (Inr _, s2) \<Rightarrow>
          (case so_close S bc s2 of
             (Inl _, s3) \<Rightarrow> (s3, writeHeader 500 w)
           | (Inr _, s3) \<Rightarrow> (s3, created_at [''/v2'', repoStr, ''blobs'', d] d w))))"

definition post_upload :: "lib \<Rightarrow> 's store_ops \<Rightarrow> string \<Rightarrow> 's handler" where
  "post_upload L S repoStr r = (\<lambda>(s, w).
     case post_options L r of
       Inl es \<Rightarrow> (s, resp_err 400 es w)
     | Inr (bOpts, d) \<Rightarrow>
       with_repo S repoStr (\<lambda>(s, w).
         case so_blobCreate S repoStr bOpts s of (res, s1) \<Rightarrow>
         let s2 = so_done S repoStr s1 in
         case res of
           Inl e \<Rightarrow> (s2, if e = ErrBlobExists then created_at [''/v2'', repoStr, ''blobs'', d] d w
                         else writeHeader 500 w)
         | Inr (bc, sessionID) \<Rightarrow>
           if query_get r ''digest'' \<noteq> [] then post_monolithic L S repoStr d bc r (s2, w)
           else (s2, writeHeader 202
                       (upload_location L (path_clean (rq_path r @ CHR ''/'' # sessionID)) 0 w))) (s, w))"

definition blobUploadPost :: "lib \<Rightarrow> 's store_ops \<Rightarrow> config \<Rightarrow> string \<Rightarrow> 's handler" where
  "blobUploadPost L S conf repoStr r = (\<lambda>(s, w).
     if read_only conf then (s, deny_read_only w)
     else
       let mountStr = query_get r ''mount''; fromStr = query_get r ''from'' in
       if mountStr \<noteq> [] \<and> fromStr \<noteq> [] then
         (case blobUploadMount L S fromStr repoStr mountStr (s, w) of
            (None, s1, w1) \<Rightarrow> (s1, w1)
          | (Some _, s1, w1) \<Rightarrow> post_upload L S repoStr r (s1, w1))
       else post_upload L S repoStr r (s, w))"

text \<open>\<open>blobValidRange\<close>: the start of the range has to be the current size.\<close>

definition blobValidRange :: "string \<Rightarrow> int \<Rightarrow> bool" where
  "blobValidRange cr curSize =
     (if cr = [] then True
      else case index_func (\<lambda>c. c = CHR ''-'') cr of
        None \<Rightarrow> False
      | Some i \<Rightarrow>
        if i < 1 then False
        else let (crStart, bad) = parse_int64 (take i cr) in \<not> bad \<and> crStart = curSize)"

definition bad_range :: "int \<Rightarrow> response_writer \<Rightarrow> response_writer" where
  "bad_range sz w =
     resp_err 416 [errInfoSizeInvalid (''range is not valid, current range is '' @ range_header sz)]
       (header_set ''range'' (range_header sz) w)"

definition upload_state_ok :: "lib \<Rightarrow> request \<Rightarrow> int \<Rightarrow> bool" where
  "upload_state_ok L r sz =
     (case dec_state L (query_get r ''state'') of None \<Rightarrow> False | Some offset \<Rightarrow> offset = sz)"

definition blobUploadPatch :: "lib \<Rightarrow> 's store_ops \<Rightarrow> string \<Rightarrow> string \<Rightarrow> 's handler" where
  "blobUploadPatch L S repoStr sessionID r =
     with_session S repoStr sessionID (\<lambda>bc (s, w).
       if \<not> blobValidRange (hdr_get (rq_header r) ''content-range'') (so_size S bc s) then
         (s, bad_range (so_size S bc s) w)
       else if \<not> upload_state_ok L r (so_size S bc s) then
         (s, resp_err 400 [errInfoBlobUploadInvalid ''invalid state''] w)
       else
         (case io_copy S bc (rq_body r) (rq_body_fail r) s of
            (Inl _, s1) \<Rightarrow> (s1, writeHeader 500 w)
          | (Inr _, s1) \<Rightarrow>
            let curEnd = so_size S bc s1 in
            (s1, writeHeader 202 (header_add ''Range'' (range_header curEnd)
                   (upload_location L (rq_path r) curEnd w)))))"

text \<open>The end of \<open>blobUploadPut\<close>: copy the rest, verify or cancel, close.\<close>

definition put_content :: "lib \<Rightarrow> 's store_ops \<Rightarrow> string \<Rightarrow> digest \<Rightarrow> uid \<Rightarrow> 's handler" where
  "put_content L S repoStr d bc r = (\<lambda>(s, w).
     case io_copy S bc (rq_body r) (rq_body_fail r) s of
       (Inl _, s1) \<Rightarrow> (s1, writeHeader 500 w)
     | (Inr _, s1) \<Rightarrow>
       (case so_verify S bc d s1 of
          (Inl _, s2) \<Rightarrow>
            (case so_cancel S bc s2 of (_, s3) \<Rightarrow>
             (s3, resp_err 400 [errInfoBlobUploadInvalid (''invalid digest, expected: '' @ so_digest S bc s3)] w))
        | (Inr _, s2) \<Rightarrow>
          (case so_close S bc s2 of
             (Inl _, s3) \<Rightarrow> (s3, writeHeader 500 w)
           | (Inr _, s3) \<Rightarrow> (s3, created_at [''/v2'', repoStr, ''blobs'', d] d w))))"

definition blobUploadPut :: "lib \<Rightarrow> 's store_ops \<Rightarrow> string \<Rightarrow> string \<Rightarrow> 's handler" where
  "blobUploadPut L S repoStr sessionID r =
     with_session S repoStr sessionID (\<lambda>bc (s, w).
       if \<not> blobValidRange (hdr_get (rq_header r) ''content-range'') (so_size S bc s) then
         (s, bad_range (so_size S bc s) w)
       else case dig_parse L (query_get r ''digest'') of
         None \<Rightarrow> (s, resp_err 400 [errInfoDigestInvalid ''invalid or missing digest''] w)
       | Some d \<Rightarrow>
         let s1 = (if so_size S bc s = 0 \<and> dig_algorithm L d \<noteq> dig_algorithm L (so_digest S bc s)
                   then snd (so_changeAlgorithm S bc (dig_algorithm L d) s) else s) in
         if \<not> upload_state_ok L r (so_size S bc s1) then
           (s1, resp_err 400 [errInfoBlobUploadInvalid ''invalid state''] w)
         else put_content L S repoStr d bc r (s1, w))"

section \<open>The handlers keep the invariants of the store\<close>

context store_invariant
begin

lemma keep_with_repo:
  assumes "P s" and "\<And>s w. P s \<Longrightarrow> P (fst (k (s, w)))"
  shows "P (fst (with_repo S repoStr k (s, w)))"
  using assms by (auto simp: with_repo_def split: prod.splits sum.splits dest: keep_eq)

lemma keep_with_session:
  assumes "P s" and "\<And>u s w. P s \<Longrightarrow> P (fst (k u (s, w)))"
  shows "P (fst (with_session S repoStr sid k (s, w)))"
  unfolding with_session_def
  by (rule keep_with_repo [OF assms(1)])
    (auto simp: Let_def split: prod.splits sum.splits dest: keep_eq intro: keep_done assms(2))

lemma keep_blobGet_handler: "P s \<Longrightarrow> P (fst (blobGet L S repoStr arg r (s, w)))"
  by (auto simp: blobGet_def Let_def split: option.splits prod.splits
      intro!: keep_with_repo keep_done dest: keep_eq)

lemma keep_blobDelete_handler: "P s \<Longrightarrow> P (fst (blobDelete L S conf repoStr arg r (s, w)))"
  by (auto simp: blobDelete_def Let_def split: option.splits prod.splits
      intro!: keep_with_repo keep_done dest: keep_eq)

lemma keep_blobUploadDelete: "P s \<Longrightarrow> P (fst (blobUploadDelete S repoStr sid r (s, w)))"
  by (auto simp: blobUploadDelete_def split: prod.splits sum.splits intro!: keep_with_session dest: keep_eq)

lemma keep_blobUploadGet: "P s \<Longrightarrow> P (fst (blobUploadGet L S repoStr sid r (s, w)))"
  by (auto simp: blobUploadGet_def Let_def intro!: keep_with_session)

lemma keep_post_monolithic: "P s \<Longrightarrow> P (fst (post_monolithic L S repoStr d bc r (s, w)))"
  by (auto simp: post_monolithic_def split: prod.splits sum.splits dest: keep_eq keep_io_copy)

lemma keep_put_content: "P s \<Longrightarrow> P (fst (put_content L S repoStr d bc r (s, w)))"
  by (auto simp: put_content_def split: prod.splits sum.splits dest: keep_eq keep_io_copy)

lemma keep_post_upload: "P s \<Longrightarrow> P (fst (post_upload L S repoStr r (s, w)))"
  by (auto simp: post_upload_def Let_def split: sum.splits prod.splits
      intro!: keep_with_repo keep_done keep_post_monolithic dest: keep_eq)

lemma keep_blobUploadMount: "P s \<Longrightarrow> P (fst (snd (blobUploadMount L S src tgt dig (s, w))))"
  by (auto simp: blobUploadMount_def Let_def split: option.splits prod.splits sum.splits if_splits
      intro: keep_done dest!: keep_eq keep_io_copy)

lemma keep_blobUploadPost: "P s \<Longrightarrow> P (fst (blobUploadPost L S conf repoStr r (s, w)))"
  using keep_blobUploadMount [of s L "query_get r ''from''" repoStr "query_get r ''mount''" w]
  by (auto simp: blobUploadPost_def Let_def split: prod.splits option.splits intro: keep_post_upload)

lemma keep_blobUploadPatch: "P s \<Longrightarrow> P (fst (blobUploadPatch L S repoStr sid r (s, w)))"
  by (auto simp: blobUploadPatch_def Let_def split: prod.splits sum.splits
      intro!: keep_with_session dest: keep_io_copy)

lemma keep_blobUploadPut: "P s \<Longrightarrow> P (fst (blobUploadPut L S repoStr sid r (s, w)))"
  by (auto simp: blobUploadPut_def Let_def split: prod.splits option.splits
      intro!: keep_with_session keep_put_content keep_changeAlgorithm)

end

end
