(* ===== verification/Referrers.thy ===== *)
theory Referrers
  imports Blob_Handlers Ingest Cache
begin

text \<open>
  The referrers API (\<open>referrer.go\<close>): the response of a subject is an index in the blob store, named
  by an entry of the repository's index with the subject in an annotation.  A push with a subject
  adds to it, a delete removes from it, and a request serves it filtered and in pages, which a cache
  of the server keeps.
\<close>

section \<open>Filtering and splitting a response\<close>

definition referrerFilter :: "lib \<Rightarrow> bytes \<Rightarrow> string \<Rightarrow> bytes option" where
  "referrerFilter L inBytes filterArtifactType =
     (case json_index L inBytes of
        None \<Rightarrow> None
      | Some i \<Rightarrow>
        enc_index L (i\<lparr>i_manifests := filter (\<lambda>d. d_artifactType d = filterArtifactType) (i_manifests i)\<rparr>))"

text \<open>
  The loop of \<open>referrerSplit\<close> with the pages so far, the last page that fitted, its entries, and
  whether an entry was too large; \<open>None\<close> is an error of the encoder.
\<close>

fun split_loop ::
    "lib \<Rightarrow> int \<Rightarrow> index \<Rightarrow> descriptor list \<Rightarrow> bytes list \<Rightarrow> bytes \<Rightarrow> descriptor list \<Rightarrow> bool \<Rightarrow>
     (bytes list \<times> bytes \<times> bool) option" where
  "split_loop L limit i [] result lastp cur errs = Some (result, lastp, errs)"
| "split_loop L limit i (d # ds) result lastp cur errs =
     (case enc_index L (i\<lparr>i_manifests := cur @ [d]\<rparr>) of
        None \<Rightarrow> None
      | Some nextp \<Rightarrow>
        if int (length nextp) > limit then
          let result' = (if lastp \<noteq> [] \<and> int (length lastp) \<le> limit then result @ [lastp] else result) in
          (case enc_index L (i\<lparr>i_manifests := [d]\<rparr>) of
             None \<Rightarrow> None
           | Some nextp \<Rightarrow>
             if int (length nextp) > limit then split_loop L limit i ds result' [] [] True
             else split_loop L limit i ds result' nextp [d] errs)
        else split_loop L limit i ds result nextp (cur @ [d]) errs)"

definition referrerSplit :: "lib \<Rightarrow> bytes \<Rightarrow> int \<Rightarrow> (bytes list \<times> bool) option" where
  "referrerSplit L inBytes limit =
     (case json_index L inBytes of
        None \<Rightarrow> None
      | Some i \<Rightarrow>
        (case split_loop L limit i (i_manifests i) [] [] [] False of
           None \<Rightarrow> None
         | Some (result, lastp, errs) \<Rightarrow>
             Some (if lastp \<noteq> [] \<and> int (length lastp) \<le> limit then result @ [lastp] else result, errs)))"

section \<open>Updating a response\<close>

text \<open>The replacement or addition of an entry in \<open>referrerAdd\<close>.\<close>

definition put_referrer :: "descriptor \<Rightarrow> descriptor list \<Rightarrow> descriptor list" where
  "put_referrer desc ds =
     (case index_func (\<lambda>cur. d_digest desc = d_digest cur) ds of
        Some mi \<Rightarrow> ds[mi := desc]
      | None \<Rightarrow> ds @ [desc])"

text \<open>The end of both updates: store the response and name it in the index.\<close>

definition save_response ::
    "lib \<Rightarrow> 's store_ops \<Rightarrow> string \<Rightarrow> digest \<Rightarrow> index \<Rightarrow> 's \<Rightarrow> unit res \<times> 's" where
  "save_response L S repo subject refResp s =
     (case enc_index L refResp of
        None \<Rightarrow> (Inl (ErrOther ''json''), s)
      | Some raw \<Rightarrow>
        (case dig_from_bytes L (dig_canonical L) raw of
           None \<Rightarrow> (Inl (ErrOther ''digest''), s)
         | Some dig \<Rightarrow>
           (case push_blob S repo dig raw s of
              (Inl e, s1) \<Rightarrow> (Inl e, s1)
            | (Inr _, s1) \<Rightarrow>
              so_indexInsert S repo (response_desc dig raw subject) (i_manifests refResp) s1)))"

definition old_response ::
    "lib \<Rightarrow> 's store_ops \<Rightarrow> string \<Rightarrow> digest \<Rightarrow> layout_index \<Rightarrow> 's \<Rightarrow> index \<times> 's" where
  "old_response L S repo subject li s =
     (case getByAnnotation (index.truncate li) annot_referrer_subject subject of
        Inl _ \<Rightarrow> (new_response [], s)
      | Inr dOld \<Rightarrow>
        (case so_blobGet S repo (d_digest dOld) s of
           (Inr (Inr b), s1) \<Rightarrow> (fst (dec_index_into L (new_response []) b), s1)
         | (_, s1) \<Rightarrow> (new_response [], s1)))"

definition referrerAdd ::
    "lib \<Rightarrow> 's store_ops \<Rightarrow> string \<Rightarrow> digest \<Rightarrow> descriptor \<Rightarrow> 's \<Rightarrow> unit res \<times> 's" where
  "referrerAdd L S repo subject desc s =
     (case so_indexGet S repo s of
        (Inl e, s1) \<Rightarrow> (Inl e, s1)
      | (Inr li, s1) \<Rightarrow>
        (case old_response L S repo subject li s1 of
           (refResp, s2) \<Rightarrow>
             save_response L S repo subject
               (refResp\<lparr>i_manifests := put_referrer desc (i_manifests refResp)\<rparr>) s2))"

definition referrerDelete ::
    "lib \<Rightarrow> 's store_ops \<Rightarrow> string \<Rightarrow> digest \<Rightarrow> descriptor \<Rightarrow> 's \<Rightarrow> unit res \<times> 's" where
  "referrerDelete L S repo subject desc s =
     (case so_indexGet S repo s of
        (Inl e, s1) \<Rightarrow> (Inl e, s1)
      | (Inr li, s1) \<Rightarrow>
        (case getByAnnotation (index.truncate li) annot_referrer_subject subject of
           Inl e \<Rightarrow> if e = ErrNotFound then (Inr (), s1) else (Inl e, s1)
         | Inr dOld \<Rightarrow>
           (case so_blobGet S repo (d_digest dOld) s1 of
              (Inl e, s2) \<Rightarrow> (Inl e, s2)
            | (Inr (Inl e), s2) \<Rightarrow> (Inl e, s2)
            | (Inr (Inr b), s2) \<Rightarrow>
              (case json_index L b of
                 None \<Rightarrow> (Inl (ErrOther ''json''), s2)
               | Some refResp \<Rightarrow>
                 save_response L S repo subject
                   (refResp\<lparr>i_manifests := delete_func (\<lambda>cur. d_digest desc = d_digest cur) (i_manifests refResp)\<rparr>) s2))))"

section \<open>Serving a response\<close>

type_synonym referrer_cache = "(digest \<times> string, bytes list) cache"

definition empty_referrers :: "response_writer \<Rightarrow> response_writer" where
  "empty_referrers w = writeBody (ChunkIndex (new_response [])) (writeHeader 200 w)"

definition next_link :: "request \<Rightarrow> (string \<times> string) list \<Rightarrow> response_writer \<Rightarrow> response_writer" where
  "next_link r q w = header_add ''Link'' (''<'' @ url_string (rq_path r) q @ ''>; rel=next'') w"

text \<open>Serving page \<open>page\<close> with a link to the next one; the link of a continued listing keeps its cache key.\<close>

definition page_query :: "request \<Rightarrow> digest option \<Rightarrow> int \<Rightarrow> (string \<times> string) list" where
  "page_query r cacheKey page =
     query_set ''page'' (show_int (page + 1))
       (case cacheKey of None \<Rightarrow> rq_query r | Some d \<Rightarrow> query_set ''cache'' d (rq_query r))"

definition page_link ::
    "request \<Rightarrow> digest option \<Rightarrow> int \<Rightarrow> bytes list \<Rightarrow> response_writer \<Rightarrow> response_writer" where
  "page_link r cacheKey page pages w =
     (if page + 1 < int (length pages) then next_link r (page_query r cacheKey page) w else w)"

definition ct_index :: "response_writer \<Rightarrow> response_writer" where
  "ct_index w = header_add ''content-type'' mt_oci1_manifest_list w"

text \<open>The end of \<open>referrerGet\<close>: the response blob is filtered, split if it is too large, and cached.\<close>

definition referrer_fresh ::
    "lib \<Rightarrow> config \<Rightarrow> time \<Rightarrow> request \<Rightarrow> int \<Rightarrow> digest \<Rightarrow> bytes \<Rightarrow> referrer_cache \<times> response_writer \<Rightarrow>
     referrer_cache \<times> response_writer" where
  "referrer_fresh L conf now r page dig raw = (\<lambda>(c, w).
     let filterAT = query_get r ''artifactType''; limit = ca_referrerLimit (c_api conf) in
     case (if filterAT \<noteq> [] then referrerFilter L raw filterAT else Some raw) of
       None \<Rightarrow> (c, empty_referrers w)
     | Some out \<Rightarrow>
       let w1 = (if filterAT \<noteq> [] then header_add ''OCI-Filters-Applied'' ''artifactType'' w else w);
           finish = (\<lambda>out w. writeBody (ChunkBytes out)
                       (writeHeader 200 (header_add ''content-length'' (show_int (int (length out))) w)))
       in if int (length out) > limit then
            (let pages = (case referrerSplit L out limit of None \<Rightarrow> [] | Some (ps, _) \<Rightarrow> ps) in
             if pages = [] then (c, empty_referrers w1)
             else
               let c1 = fst (cache_set now (dig, filterAT) pages c);
                   page1 = (if page > 0 \<and> (query_get r ''cache'' \<noteq> dig \<or> page \<ge> int (length pages)) then 0 else page)
               in (c1, finish (pages ! nat page1) (page_link r (Some dig) page1 pages w1)))
          else (fst (cache_set now (dig, filterAT) [out] c), finish out w1))"

definition referrer_serve ::
    "lib \<Rightarrow> 's store_ops \<Rightarrow> config \<Rightarrow> time \<Rightarrow> string \<Rightarrow> string \<Rightarrow> request \<Rightarrow> int \<Rightarrow>
     ('s \<times> referrer_cache) \<times> response_writer \<Rightarrow> ('s \<times> referrer_cache) \<times> response_writer" where
  "referrer_serve L S conf now repoStr arg r page = (\<lambda>((s, c), w).
     case so_indexGet S repoStr s of
       (Inl _, s1) \<Rightarrow> ((s1, c), empty_referrers (ct_index w))
     | (Inr li, s1) \<Rightarrow>
       if map_get (i_annotations li) annot_referrer_convert \<noteq> ''true'' then ((s1, c), writeHeader 404 w)
       else
         let w1 = ct_index w in
         case getByAnnotation (index.truncate li) annot_referrer_subject arg of
           Inl _ \<Rightarrow> ((s1, c), empty_referrers w1)
         | Inr d \<Rightarrow>
           (case cache_get now (d_digest d, query_get r ''artifactType'') c of
              (Inr pages, c1) \<Rightarrow>
                let page1 = (if page \<ge> int (length pages) then 0 else page) in
                ((s1, c1), writeBody (ChunkBytes (pages ! nat page1))
                   (writeHeader 200 (page_link r (Some (d_digest d)) page1 pages w1)))
            | (Inl _, c1) \<Rightarrow>
                (case so_blobGet S repoStr (d_digest d) s1 of
                   (Inr (Inr raw), s2) \<Rightarrow>
                     (case referrer_fresh L conf now r page (d_digest d) raw (c1, w1) of
                        (c2, w2) \<Rightarrow> ((s2, c2), w2))
                 | (_, s2) \<Rightarrow> ((s2, c1), empty_referrers w1))))"

definition referrerGet ::
    "lib \<Rightarrow> 's store_ops \<Rightarrow> config \<Rightarrow> time \<Rightarrow> string \<Rightarrow> string \<Rightarrow> ('s \<times> referrer_cache) handler" where
  "referrerGet L S conf now repoStr arg r = (\<lambda>((s, c), w).
     let cacheDig = query_get r ''cache''; page = max 0 (fst (parse_int64 (query_get r ''page''))) in
     case so_repoGet S repoStr s of
       (Inl _, s1) \<Rightarrow> ((s1, c), empty_referrers (ct_index w))
     | (Inr _, s1) \<Rightarrow>
       let done = (\<lambda>((s, c), w). ((so_done S repoStr s, c), w)) in
       if cacheDig \<noteq> [] \<and> page \<noteq> 0 then
         (case dig_parse L cacheDig of
            None \<Rightarrow> done ((s1, c), resp_err 400 [errInfoUnsupported ''requested digest is not valid''] w)
          | Some dig \<Rightarrow>
            (case cache_get now (dig, query_get r ''artifactType'') c of
               (Inr pages, c1) \<Rightarrow>
                 if page < int (length pages) then
                   done ((s1, c1), writeBody (ChunkBytes (pages ! nat page))
                     (writeHeader 200 (ct_index (page_link r None page pages w))))
                 else done (referrer_serve L S conf now repoStr arg r page ((s1, c1), w))
             | (Inl _, c1) \<Rightarrow> done (referrer_serve L S conf now repoStr arg r page ((s1, c1), w))))
       else done (referrer_serve L S conf now repoStr arg r page ((s1, c), w)))"

section \<open>The pages of a response\<close>

abbreviation enc_page :: "lib \<Rightarrow> index \<Rightarrow> descriptor list \<Rightarrow> bytes option" where
  "enc_page L i ds \<equiv> enc_index L (i\<lparr>i_manifests := ds\<rparr>)"

text \<open>A page of the result: some entries that fit.  An open page may also be empty.\<close>

definition page_of :: "lib \<Rightarrow> int \<Rightarrow> index \<Rightarrow> bytes \<Rightarrow> descriptor list \<Rightarrow> bool" where
  "page_of L limit i b ds \<longleftrightarrow> ds \<noteq> [] \<and> enc_page L i ds = Some b \<and> int (length b) \<le> limit"

definition open_page :: "lib \<Rightarrow> int \<Rightarrow> index \<Rightarrow> bytes \<Rightarrow> descriptor list \<Rightarrow> bool" where
  "open_page L limit i b ds \<longleftrightarrow> b = [] \<and> ds = [] \<or> page_of L limit i b ds"

definition too_large :: "lib \<Rightarrow> int \<Rightarrow> index \<Rightarrow> descriptor \<Rightarrow> bool" where
  "too_large L limit i d \<longleftrightarrow> (\<exists>b. enc_page L i [d] = Some b \<and> limit < int (length b))"

definition enc_nonempty :: "lib \<Rightarrow> bool" where
  "enc_nonempty L \<longleftrightarrow> (\<forall>i. enc_index L i \<noteq> Some [])"

lemma shuffles_prepend: "xs \<in> shuffles ys zs \<Longrightarrow> as @ xs \<in> shuffles (as @ ys) zs"
  by (induction as) (auto intro: Cons_in_shuffles_leftI)

lemma open_page_flush:
  assumes "enc_nonempty L" and "open_page L limit i b ds"
  shows "if b \<noteq> [] \<and> int (length b) \<le> limit then page_of L limit i b ds else ds = []"
  using assms by (auto simp: open_page_def page_of_def enc_nonempty_def)

text \<open>What the loop adds to its result, and the entries it leaves out.\<close>

definition split_post ::
    "lib \<Rightarrow> int \<Rightarrow> index \<Rightarrow> descriptor list \<Rightarrow> bytes list \<Rightarrow> bool \<Rightarrow> bytes list \<times> bytes \<times> bool \<Rightarrow> bool" where
  "split_post L limit i todo result errs = (\<lambda>(result', b, errs').
     \<exists>pages dss cur dropped.
       result' = result @ pages \<and> list_all2 (page_of L limit i) pages dss \<and> open_page L limit i b cur \<and>
       todo \<in> shuffles (concat dss @ cur) dropped \<and> (\<forall>d\<in>set dropped. too_large L limit i d) \<and>
       (errs' \<longleftrightarrow> errs \<or> dropped \<noteq> []))"

lemma split_post_page:
  assumes "split_post L limit i todo (result @ [b]) errs out" and "page_of L limit i b ds"
  shows "split_post L limit i (ds @ todo) result errs out"
proof -
  obtain result' b' errs' where out: "out = (result', b', errs')" by (cases out)
  then obtain pages dss cur dropped where *: "result' = (result @ [b]) @ pages"
    "list_all2 (page_of L limit i) pages dss" "open_page L limit i b' cur"
    "todo \<in> shuffles (concat dss @ cur) dropped" "\<forall>d\<in>set dropped. too_large L limit i d"
    "errs' \<longleftrightarrow> errs \<or> dropped \<noteq> []"
    using assms(1) by (auto simp: split_post_def)
  have "result' = result @ b # pages" "list_all2 (page_of L limit i) (b # pages) (ds # dss)"
    "ds @ todo \<in> shuffles (concat (ds # dss) @ cur) dropped"
    using * assms(2) by (simp_all add: shuffles_prepend)
  then show ?thesis using * out unfolding split_post_def by blast
qed

lemma split_post_drop:
  assumes "split_post L limit i todo result True out" and "too_large L limit i d"
  shows "split_post L limit i (d # todo) result errs out"
proof -
  obtain result' b' errs' where out: "out = (result', b', errs')" by (cases out)
  then obtain pages dss cur dropped where *: "result' = result @ pages"
    "list_all2 (page_of L limit i) pages dss" "open_page L limit i b' cur"
    "todo \<in> shuffles (concat dss @ cur) dropped" "\<forall>d\<in>set dropped. too_large L limit i d" "errs'"
    using assms(1) by (auto simp: split_post_def)
  have "d # todo \<in> shuffles (concat dss @ cur) (d # dropped)" "\<forall>x\<in>set (d # dropped). too_large L limit i x"
    using * assms(2) by (auto intro: Cons_in_shuffles_rightI)
  then show ?thesis using * out unfolding split_post_def by blast
qed

lemma split_loop_post:
  assumes "enc_nonempty L"
  shows "split_loop L limit i ds result b cur errs = Some out \<Longrightarrow> open_page L limit i b cur \<Longrightarrow>
     split_post L limit i (cur @ ds) result errs out"
proof (induction ds arbitrary: result b cur errs)
  case Nil
  then have out: "out = (result, b, errs)" by simp
  have "split_post L limit i cur result errs (result, b, errs)"
    unfolding split_post_def prod.case
    by (rule exI [of _ "[]"], rule exI [of _ "[]"], rule exI [of _ cur], rule exI [of _ "[]"])
      (simp add: Nil.prems(2))
  then show ?case using out by simp
next
  case (Cons d ds)
  obtain n1 where n1: "enc_page L i (cur @ [d]) = Some n1"
    using Cons.prems(1) by (auto split: option.splits)
  show ?case
  proof (cases "int (length n1) \<le> limit")
    case True
    then have "open_page L limit i n1 (cur @ [d])"
      using n1 by (simp add: open_page_def page_of_def)
    then show ?thesis
      using Cons.IH [of result n1 "cur @ [d]" errs] Cons.prems(1) n1 True by simp
  next
    case False
    define result' where "result' = (if b \<noteq> [] \<and> int (length b) \<le> limit then result @ [b] else result)"
    have flush: "split_post L limit i (cur @ todo) result e out"
      if "split_post L limit i todo result' e out" for todo e
      using open_page_flush [OF assms Cons.prems(2)] that
      by (auto simp: result'_def split: if_splits dest: split_post_page)
    obtain n2 where n2: "enc_page L i [d] = Some n2"
      using Cons.prems(1) n1 False by (auto simp: Let_def split: option.splits)
    show ?thesis
    proof (cases "int (length n2) \<le> limit")
      case True
      then have "open_page L limit i n2 [d]"
        using n2 by (simp add: open_page_def page_of_def)
      then have "split_post L limit i ([d] @ ds) result' errs out"
        using Cons.IH [of result' n2 "[d]" errs] Cons.prems(1) n1 n2 False True
        by (simp add: result'_def Let_def)
      then show ?thesis using flush [of "d # ds" errs] by simp
    next
      case False2: False
      then have "split_post L limit i ([] @ ds) result' True out"
        using Cons.IH [of result' "[]" "[]" True] Cons.prems(1) n1 n2 False
        by (simp add: result'_def Let_def open_page_def)
      then have "split_post L limit i (d # ds) result' errs out"
        using split_post_drop n2 False2 by (auto simp: too_large_def)
      then show ?thesis using flush [of "d # ds" errs] by simp
    qed
  qed
qed

text \<open>
  C39: The pages of a split referrers response: each is the encoding of at least one entry and within
  the limit, together they hold the entries of the response in order, and what is left out are
  entries that exceed the limit alone; there is an error exactly if something was left out.
\<close>

theorem referrerSplit_spec:
  assumes "enc_nonempty L" and "referrerSplit L inBytes limit = Some (pages, errs)"
  shows "\<exists>i dss dropped. json_index L inBytes = Some i \<and> list_all2 (page_of L limit i) pages dss \<and>
           i_manifests i \<in> shuffles (concat dss) dropped \<and> (\<forall>d\<in>set dropped. too_large L limit i d) \<and>
           (errs \<longleftrightarrow> dropped \<noteq> [])"
proof -
  obtain i result b where i: "json_index L inBytes = Some i"
    and loop: "split_loop L limit i (i_manifests i) [] [] [] False = Some (result, b, errs)"
    and pages: "pages = (if b \<noteq> [] \<and> int (length b) \<le> limit then result @ [b] else result)"
    using assms(2) by (auto simp: referrerSplit_def split: option.splits prod.splits)
  obtain dss cur dropped where *: "list_all2 (page_of L limit i) result dss" "open_page L limit i b cur"
    "i_manifests i \<in> shuffles (concat dss @ cur) dropped" "\<forall>d\<in>set dropped. too_large L limit i d"
    "errs \<longleftrightarrow> dropped \<noteq> []"
    using split_loop_post [OF assms(1) loop] by (auto simp: open_page_def split_post_def)
  show ?thesis
  proof (cases "b \<noteq> [] \<and> int (length b) \<le> limit")
    case True
    then have "list_all2 (page_of L limit i) pages (dss @ [cur])" "concat (dss @ [cur]) = concat dss @ cur"
      using * pages open_page_flush [OF assms(1) *(2)] by (simp_all add: list_all2_appendI)
    with * i show ?thesis by metis
  next
    case False
    then have "cur = []" "pages = result"
      using * pages open_page_flush [OF assms(1) *(2)] by (simp_all split: if_splits)
    with * i show ?thesis by auto
  qed
qed

text \<open>A codec for concrete runs: an index is encoded as one byte for each of its entries and one more.\<close>

definition page_lib :: lib where
  "page_lib = demo_lib\<lparr>enc_index := (\<lambda>i. Some (CHR ''['' # map (\<lambda>d. CHR ''d'') (i_manifests i))),
     json_index := (\<lambda>b. Some (new_response (map (\<lambda>c. zero_descriptor) (tl b))))\<rparr>"

theorem referrerSplit_spec_witness:
  "enc_nonempty page_lib \<and> referrerSplit page_lib ''[ddddd'' 3 = Some ([''[dd'', ''[dd'', ''[d''], False) \<and>
   (\<exists>i dss dropped. json_index page_lib ''[ddddd'' = Some i \<and>
      list_all2 (page_of page_lib 3 i) [''[dd'', ''[dd'', ''[d''] dss \<and>
      i_manifests i \<in> shuffles (concat dss) dropped \<and> (\<forall>d\<in>set dropped. too_large page_lib 3 i d) \<and>
      (False \<longleftrightarrow> dropped \<noteq> []))"
proof -
  have 1: "enc_nonempty page_lib" by (simp add: enc_nonempty_def page_lib_def)
  have 2: "referrerSplit page_lib ''[ddddd'' 3 = Some ([''[dd'', ''[dd'', ''[d''], False)"
    by (simp add: referrerSplit_def page_lib_def new_response_def Let_def)
  show ?thesis using referrerSplit_spec [OF 1 2] 1 2 by blast
qed

section \<open>The invariants of the store are kept\<close>

context store_invariant
begin

lemma insertable_response: "insertable (response_desc dig raw subj)"
  by (simp add: insertable_def response_desc_def zero_descriptor_def annotationVal_def)

lemma keep_save_response: "save_response L S repo subject i s = (x, s') \<Longrightarrow> P s \<Longrightarrow> P s'"
  by (auto simp: save_response_def insertable_response split: option.splits prod.splits sum.splits
      dest: keep_eq keep_push_blob)

lemma keep_old_response: "old_response L S repo subject li s = (x, s') \<Longrightarrow> P s \<Longrightarrow> P s'"
  by (auto simp: old_response_def split: prod.splits sum.splits dest: keep_eq)

lemma keep_referrerAdd: "referrerAdd L S repo subject d s = (x, s') \<Longrightarrow> P s \<Longrightarrow> P s'"
  by (auto simp: referrerAdd_def split: prod.splits sum.splits
      dest: keep_eq keep_old_response keep_save_response)

lemma keep_referrerDelete: "referrerDelete L S repo subject d s = (x, s') \<Longrightarrow> P s \<Longrightarrow> P s'"
  by (auto simp: referrerDelete_def split: prod.splits sum.splits option.splits if_splits
      dest: keep_eq keep_save_response)

lemma keep_referrer_serve:
  "P s \<Longrightarrow> P (fst (fst (referrer_serve L S conf now repoStr arg r page ((s, c), w))))"
  by (auto simp: referrer_serve_def Let_def split: prod.splits sum.splits dest: keep_eq)

lemma keep_referrerGet: "P s \<Longrightarrow> P (fst (fst (referrerGet L S conf now repoStr arg r ((s, c), w))))"
proof -
  assume s: "P s"
  obtain x s1 where get: "so_repoGet S repoStr s = (x, s1)" by (cases "so_repoGet S repoStr s")
  then have s1: "P s1" using s keep_eq by blast
  have serve: "P (fst (fst (referrer_serve L S conf now repoStr arg r page ((s1, c), w))))" for page c w
    using s1 by (rule keep_referrer_serve)
  show ?thesis
    unfolding referrerGet_def prod.case get Let_def
    using s1 serve
    by (auto split: sum.splits option.splits prod.splits intro: keep_done) (metis fst_conv keep_done)+
qed

end

end
