(* ===== verification/Manifest_Handlers.thy ===== *)
theory Manifest_Handlers
  imports Referrers Media_Type
begin

text \<open>
  The handlers of the manifest API (\<open>manifest.go\<close>).  A pull resolves a tag or digest in the
  repository's index and serves the blob; a push checks the content before anything is written, then
  stores the blob, enters it in the index under its tags, and adds it to the referrers response of
  its subject; a delete does the reverse on the index.
\<close>

section \<open>Delete\<close>

text \<open>The removal from the referrers response; its error is only logged.\<close>

definition delete_referrer ::
    "lib \<Rightarrow> 's store_ops \<Rightarrow> string \<Rightarrow> descriptor \<Rightarrow> 's \<Rightarrow> unit res \<times> 's" where
  "delete_referrer L S repoStr desc s =
     (case so_blobGet S repoStr (d_digest desc) s of
        (Inl e, s1) \<Rightarrow> (Inl e, s1)
      | (Inr (Inl e), s1) \<Rightarrow> (Inl e, s1)
      | (Inr (Inr raw), s1) \<Rightarrow>
        (case manifestReferrerDescriptor L raw desc of
           Inl e \<Rightarrow> (if e = ErrNotFound then Inr () else Inl e, s1)
         | Inr (subject, refDesc) \<Rightarrow> referrerDelete L S repoStr (d_digest subject) refDesc s1))"

definition manifestDelete :: "lib \<Rightarrow> 's store_ops \<Rightarrow> config \<Rightarrow> string \<Rightarrow> string \<Rightarrow> 's handler" where
  "manifestDelete L S conf repoStr arg r = (\<lambda>(s, w).
     if read_only conf then (s, deny_read_only w)
     else with_repo S repoStr (\<lambda>(s, w).
       case so_indexGet S repoStr s of
         (Inl _, s1) \<Rightarrow>
           (so_done S repoStr s1, resp_err 404 [errInfoNameUnknown ''repository does not exist''] w)
       | (Inr li, s1) \<Rightarrow>
         (case get_desc L li arg of
            Inl _ \<Rightarrow> (so_done S repoStr s1,
                      resp_err 404 [errInfoManifestUnknown ''tag or digest was not found in repository''] w)
          | Inr desc \<Rightarrow>
            if d_digest desc = [] then
              (so_done S repoStr s1,
               resp_err 404 [errInfoManifestUnknown ''tag or digest was not found in repository''] w)
            else
              let s2 = (if deref (ca_referrerEnabled (c_api conf))
                        then snd (delete_referrer L S repoStr desc s1) else s1) in
              (case so_indexRemove S repoStr desc s2 of
                 (Inl _, s3) \<Rightarrow> (so_done S repoStr s3, writeHeader 500 w)
               | (Inr _, s3) \<Rightarrow> (so_done S repoStr s3, writeHeader 202 w)))) (s, w))"

section \<open>Get\<close>

definition unknown_media_type :: "descriptor \<Rightarrow> response_writer \<Rightarrow> response_writer" where
  "unknown_media_type desc w =
     resp_err 404 [errInfoManifestUnknown
       (''requested media type not found, available media type is '' @ d_mediaType desc)] w"

text \<open>
  Content negotiation: the descriptor that is served, or the status of the refusal, 404 with the
  error body or 500 without.
\<close>

definition negotiate ::
    "lib \<Rightarrow> 's store_ops \<Rightarrow> string \<Rightarrow> string \<Rightarrow> string list \<Rightarrow> descriptor \<Rightarrow> 's \<Rightarrow> (nat + descriptor) \<times> 's" where
  "negotiate L S repoStr arg acceptList desc s =
     (if mediaTypeAccepts (d_mediaType desc) acceptList then (Inr desc, s)
      else if acceptList \<noteq> [] \<and> mediaTypeIndex (d_mediaType desc) \<and> refTagRE arg then
        (case so_blobGet S repoStr (d_digest desc) s of
           (Inl _, s1) \<Rightarrow> (Inl 500, s1)
         | (Inr (Inl _), s1) \<Rightarrow> (Inl 500, s1)
         | (Inr (Inr b), s1) \<Rightarrow>
           (case dec_index L b of
              None \<Rightarrow> (Inl 500, s1)
            | Some i \<Rightarrow>
              (case find (\<lambda>d. mediaTypeAccepts (d_mediaType d) acceptList) (i_manifests i) of
                 None \<Rightarrow> (Inl 404, s1)
               | Some d \<Rightarrow> (Inr d, s1))))
      else (Inl 404, s))"

definition serve_manifest ::
    "'s store_ops \<Rightarrow> string \<Rightarrow> descriptor \<Rightarrow> 's handler" where
  "serve_manifest S repoStr desc r = (\<lambda>(s, w).
     case so_blobGet S repoStr (d_digest desc) s of (res, s1) \<Rightarrow>
     (s1, case res of
        Inl e \<Rightarrow>
          if e = ErrNotFound then
            resp_err 404 [errInfoManifestBlobUnknown ''requested manifest was not found in blob store''] w
          else writeHeader 500 w
      | Inr rdr \<Rightarrow> serve_reader r rdr
          (header_add ''Docker-Content-Digest'' (d_digest desc) (header_add ''Content-Type'' (d_mediaType desc) w))))"

definition manifestGet :: "lib \<Rightarrow> 's store_ops \<Rightarrow> string \<Rightarrow> string \<Rightarrow> 's handler" where
  "manifestGet L S repoStr arg r =
     with_repo S repoStr (\<lambda>(s, w).
       case so_indexGet S repoStr s of
         (Inl _, s1) \<Rightarrow>
           (so_done S repoStr s1, resp_err 404 [errInfoNameUnknown ''repository does not exist''] w)
       | (Inr li, s1) \<Rightarrow>
         (case get_desc L li arg of
            Inl _ \<Rightarrow> (so_done S repoStr s1,
                      resp_err 404 [errInfoManifestUnknown ''tag or digest was not found in repository''] w)
          | Inr desc \<Rightarrow>
            if d_digest desc = [] then
              (so_done S repoStr s1,
               resp_err 404 [errInfoManifestUnknown ''tag or digest was not found in repository''] w)
            else
              (case negotiate L S repoStr arg (hdr_values (rq_header r) ''Accept'') desc s1 of
                 (Inl code, s2) \<Rightarrow>
                   (so_done S repoStr s2, if code = 404 then unknown_media_type desc w else writeHeader code w)
               | (Inr served, s2) \<Rightarrow>
                 (case serve_manifest S repoStr served r (s2, w) of
                    (s3, w1) \<Rightarrow> (so_done S repoStr s3, w1)))))"

section \<open>Put: the request\<close>

type_synonym refusal = "nat \<times> error_info list"

definition refuse :: "refusal \<Rightarrow> response_writer \<Rightarrow> response_writer" where
  "refuse f w = (case f of (code, es) \<Rightarrow> if es = [] then writeHeader code w else resp_err code es w)"

text \<open>The media type of the header, the expected digest and the tags, or the first refusal.\<close>

definition put_tags :: "lib \<Rightarrow> string \<Rightarrow> digest \<Rightarrow> string list \<Rightarrow> refusal + digest \<times> string list" where
  "put_tags L arg dExpect tags =
     (if \<not> list_all refTagRE tags then Inl (400, [errInfoUnsupported ''invalid tag''])
      else if refTagRE arg then
        (if tags \<noteq> [] then Inl (400, [errInfoUnsupported ''tag query parameter requires a digest''])
         else Inr (dExpect, [arg]))
      else case dig_parse L arg of
        None \<Rightarrow> Inl (400, [errInfoDigestInvalid ''tag or digest invalid''])
      | Some d \<Rightarrow> Inr (d, tags))"

definition put_params ::
    "lib \<Rightarrow> config \<Rightarrow> string \<Rightarrow> request \<Rightarrow> refusal + string \<times> digest \<times> string list" where
  "put_params L conf arg r =
     (let mt = mediaTypeBase (hdr_get (rq_header r) ''content-type'');
          limit = ca_manifestLimit (c_api conf);
          dStr = query_get r ''digest'' in
      if mt \<noteq> [] \<and> \<not> mediaTypeImage mt \<and> \<not> mediaTypeIndex mt then
        Inl (400, [errInfoManifestInvalid (''unsupported media type: '' @ mt)])
      else if rq_contentLength r > limit then
        Inl (413, [errInfoManifestInvalid (''manifest too large, limited to '' @ show_int limit @ '' bytes'')])
      else case (if dStr = [] then Some [] else dig_parse L dStr) of
        None \<Rightarrow> Inl (400, [errInfoDigestInvalid ''digest invalid''])
      | Some dExpect \<Rightarrow>
        (case put_tags L arg dExpect (query_values r ''tag'') of
           Inl f \<Rightarrow> Inl f
         | Inr (d, tags) \<Rightarrow> Inr (mt, d, tags)))"

definition put_read :: "lib \<Rightarrow> config \<Rightarrow> digest \<Rightarrow> request \<Rightarrow> refusal + bytes \<times> digest" where
  "put_read L conf dExpect r =
     (case read_limited (ca_manifestLimit (c_api conf)) r of
        None \<Rightarrow> Inl (500, [])
      | Some mRaw \<Rightarrow>
        (case dig_from_bytes L (if dig_is_zero dExpect then dig_canonical L else dig_algorithm L dExpect) mRaw of
           None \<Rightarrow> Inl (500, [])
         | Some d \<Rightarrow>
           if \<not> dig_is_zero dExpect \<and> d \<noteq> dExpect then
             Inl (400, [errInfoDigestInvalid (''digest mismatch, expected '' @ d)])
           else Inr (mRaw, d)))"

section \<open>Put: the content\<close>

text \<open>One lookup of a blob the manifest names; the list collects what is missing.\<close>

definition verify_blob ::
    "'s store_ops \<Rightarrow> string \<Rightarrow> string \<Rightarrow> digest \<Rightarrow> error_info list \<times> 's \<Rightarrow> error_info list \<times> 's" where
  "verify_blob S repoStr msg d = (\<lambda>(es, s).
     case so_blobGet S repoStr d s of
       (Inl _, s1) \<Rightarrow> (es @ [errInfoManifestBlobUnknown (msg @ d)], s1)
     | (Inr _, s1) \<Rightarrow> (es, s1))"

definition verify_layer ::
    "'s store_ops \<Rightarrow> string \<Rightarrow> descriptor \<Rightarrow> error_info list \<times> 's \<Rightarrow> error_info list \<times> 's" where
  "verify_layer S repoStr d x =
     (if mediaTypeForeign (d_mediaType d) \<or> d_urls d \<noteq> [] then x
      else verify_blob S repoStr ''layer not found: '' (d_digest d) x)"

definition manifestVerifyImage ::
    "'s store_ops \<Rightarrow> config \<Rightarrow> string \<Rightarrow> manifest \<Rightarrow> 's \<Rightarrow> error_info list \<times> 's" where
  "manifestVerifyImage S conf repoStr m s =
     (if deref (ca_sparseImage (c_api conf)) then ([], s)
      else fold (verify_layer S repoStr) (m_layers m)
             (if d_urls (m_config m) = []
              then verify_blob S repoStr ''config not found: '' (d_digest (m_config m)) ([], s) else ([], s)))"

definition manifestVerifyIndex ::
    "'s store_ops \<Rightarrow> config \<Rightarrow> string \<Rightarrow> index \<Rightarrow> 's \<Rightarrow> error_info list \<times> 's" where
  "manifestVerifyIndex S conf repoStr m s =
     (if deref (ca_sparseIndex (c_api conf)) then ([], s)
      else fold (\<lambda>d. verify_blob S repoStr ''manifest not found: '' (d_digest d)) (i_manifests m) ([], s))"

text \<open>The entry for the referrers response of a subject, when there is one and the API is enabled.\<close>

definition put_referrer_desc ::
    "config \<Rightarrow> descriptor option \<Rightarrow> string \<Rightarrow> string \<Rightarrow> bytes \<Rightarrow> digest \<Rightarrow> annots \<Rightarrow> (digest \<times> descriptor) option" where
  "put_referrer_desc conf subj mt artifactType mRaw d annots =
     (case subj of
        None \<Rightarrow> None
      | Some sd \<Rightarrow>
        if dig_is_zero (d_digest sd) \<or> \<not> deref (ca_referrerEnabled (c_api conf)) then None
        else Some (d_digest sd, zero_descriptor\<lparr>d_mediaType := mt, d_artifactType := artifactType,
                     d_size := int (length mRaw), d_digest := d, d_annotations := annots\<rparr>))"

text \<open>The result: the children of an index and the referrer.\<close>

definition put_check ::
    "lib \<Rightarrow> 's store_ops \<Rightarrow> config \<Rightarrow> string \<Rightarrow> string \<Rightarrow> bytes \<Rightarrow> digest \<Rightarrow> 's \<Rightarrow>
     (refusal + descriptor list \<times> (digest \<times> descriptor) option) \<times> 's" where
  "put_check L S conf repoStr mt mRaw d s =
     (if mediaTypeImage mt then
        (case json_manifest L mRaw of
           None \<Rightarrow> (Inl (400, [errInfoManifestInvalid ''manifest could not be parsed'']), s)
         | Some m \<Rightarrow>
           (case manifestVerifyImage S conf repoStr m s of (es, s1) \<Rightarrow>
            if es \<noteq> [] then (Inl (400, es), s1)
            else (Inr ([], put_referrer_desc conf (m_subject m) mt
                    (if m_artifactType m = [] then d_mediaType (m_config m) else m_artifactType m)
                    mRaw d (m_annotations m)), s1)))
      else if mediaTypeIndex mt then
        (case json_index L mRaw of
           None \<Rightarrow> (Inl (400, [errInfoManifestInvalid ''manifest could not be parsed'']), s)
         | Some m \<Rightarrow>
           (case manifestVerifyIndex S conf repoStr m s of (es, s1) \<Rightarrow>
            if es \<noteq> [] then (Inl (400, es), s1)
            else (Inr (i_manifests m, put_referrer_desc conf (i_subject m) mt (i_artifactType m)
                    mRaw d (i_annotations m)), s1)))
      else (Inl (400, [errInfoManifestInvalid (''unsupported media type: '' @ mt)]), s))"

section \<open>Put: the updates\<close>

text \<open>The entries of the index, with the header of each tag; the flag tells of an error.\<close>

fun insert_tags ::
    "'s store_ops \<Rightarrow> string \<Rightarrow> descriptor \<Rightarrow> descriptor list \<Rightarrow> string list \<Rightarrow> 's \<times> response_writer \<Rightarrow>
     bool \<times> 's \<times> response_writer" where
  "insert_tags S repoStr desc cs [] (s, w) = (True, s, w)"
| "insert_tags S repoStr desc cs (tag # tags) (s, w) =
     (case so_indexInsert S repoStr (desc\<lparr>d_annotations := fmupd annot_ref_name tag fmempty\<rparr>) cs s of
        (Inl _, s1) \<Rightarrow> (False, s1, w)
      | (Inr _, s1) \<Rightarrow> insert_tags S repoStr desc cs tags (s1, header_add ''OCI-Tag'' tag w))"

definition put_index ::
    "'s store_ops \<Rightarrow> string \<Rightarrow> descriptor \<Rightarrow> descriptor list \<Rightarrow> string list \<Rightarrow> 's \<times> response_writer \<Rightarrow>
     bool \<times> 's \<times> response_writer" where
  "put_index S repoStr desc cs tags = (\<lambda>(s, w).
     if tags = [] then
       (case so_indexInsert S repoStr desc cs s of
          (Inl _, s1) \<Rightarrow> (False, s1, w)
        | (Inr _, s1) \<Rightarrow> (True, s1, w))
     else insert_tags S repoStr desc cs tags (s, w))"

definition put_store ::
    "lib \<Rightarrow> 's store_ops \<Rightarrow> string \<Rightarrow> string \<Rightarrow> bytes \<Rightarrow> digest \<Rightarrow> string list \<Rightarrow>
     descriptor list \<times> (digest \<times> descriptor) option \<Rightarrow> 's \<times> response_writer \<Rightarrow> 's \<times> response_writer" where
  "put_store L S repoStr mt mRaw d tags checked = (\<lambda>(s, w).
     case checked of (children, referrer) \<Rightarrow>
     (case push_blob S repoStr d mRaw s of
        (Inl _, s1) \<Rightarrow> (s1, writeHeader 500 w)
      | (Inr _, s1) \<Rightarrow>
        (case put_index S repoStr
                (zero_descriptor\<lparr>d_mediaType := mt, d_size := int (length mRaw), d_digest := d\<rparr>)
                children tags (s1, w) of
           (False, s2, w1) \<Rightarrow> (s2, writeHeader 500 w1)
         | (True, s2, w1) \<Rightarrow>
           (case referrer of
              None \<Rightarrow> (s2, created_at [''/v2'', repoStr, ''manifests'', d] d w1)
            | Some (subject, refDesc) \<Rightarrow>
              (case referrerAdd L S repoStr subject refDesc s2 of
                 (Inl _, s3) \<Rightarrow> (s3, writeHeader 500 w1)
               | (Inr _, s3) \<Rightarrow>
                 (s3, created_at [''/v2'', repoStr, ''manifests'', d] d (header_set ''OCI-Subject'' subject w1)))))))"

definition manifestPut :: "lib \<Rightarrow> 's store_ops \<Rightarrow> config \<Rightarrow> string \<Rightarrow> string \<Rightarrow> 's handler" where
  "manifestPut L S conf repoStr arg r = (\<lambda>(s, w).
     if read_only conf then (s, deny_read_only w)
     else with_repo S repoStr (\<lambda>(s, w).
       case put_params L conf arg r of
         Inl f \<Rightarrow> (so_done S repoStr s, refuse f w)
       | Inr (mt, dExpect, tags) \<Rightarrow>
         (case put_read L conf dExpect r of
            Inl f \<Rightarrow> (so_done S repoStr s, refuse f w)
          | Inr (mRaw, d) \<Rightarrow>
            let mt = (if mt = [] then mediaTypeDetect L mRaw else mt) in
            (case put_check L S conf repoStr mt mRaw d s of
               (Inl f, s1) \<Rightarrow> (so_done S repoStr s1, refuse f w)
             | (Inr checked, s1) \<Rightarrow>
               (case put_store L S repoStr mt mRaw d tags checked (s1, w) of
                  (s2, w1) \<Rightarrow> (so_done S repoStr s2, w1))))) (s, w))"

lemma put_params_tags: "put_params L conf arg r = Inr (mt, d, tags) \<Longrightarrow> \<forall>t \<in> set tags. refTagRE t"
  by (auto simp: put_params_def put_tags_def Let_def list_all_iff split: if_splits option.splits sum.splits)

section \<open>The invariants of the store are kept\<close>

context store_invariant
begin

lemma keep_delete_referrer: "delete_referrer L S repo d s = (x, s') \<Longrightarrow> P s \<Longrightarrow> P s'"
  by (auto simp: delete_referrer_def split: prod.splits sum.splits dest: keep_eq keep_referrerDelete)

lemma keep_delete_referrer_snd: "P s \<Longrightarrow> P (snd (delete_referrer L S repo d s))"
  using keep_delete_referrer by (metis prod.collapse)

lemma keep_manifestDelete: "P s \<Longrightarrow> P (fst (manifestDelete L S conf repo arg r (s, w)))"
  by (auto simp: manifestDelete_def Let_def split: prod.splits sum.splits
      intro!: keep_with_repo keep_done dest!: keep_eq intro: keep_delete_referrer_snd)

lemma keep_negotiate: "negotiate L S repo arg al d s = (x, s') \<Longrightarrow> P s \<Longrightarrow> P s'"
  by (auto simp: negotiate_def split: if_splits prod.splits sum.splits option.splits dest: keep_eq)

lemma keep_serve_manifest: "serve_manifest S repo d r (s, w) = (s', w') \<Longrightarrow> P s \<Longrightarrow> P s'"
  by (auto simp: serve_manifest_def split: prod.splits dest: keep_eq)

lemma keep_manifestGet: "P s \<Longrightarrow> P (fst (manifestGet L S repo arg r (s, w)))"
  by (auto simp: manifestGet_def split: prod.splits sum.splits
      intro!: keep_with_repo keep_done dest!: keep_eq keep_negotiate keep_serve_manifest)

lemma keep_verify_blob: "P (snd x) \<Longrightarrow> P (snd (verify_blob S repo msg d x))"
  by (cases x) (auto simp: verify_blob_def split: prod.splits sum.splits dest: keep_eq)

lemma keep_verify_layer: "P (snd x) \<Longrightarrow> P (snd (verify_layer S repo d x))"
  by (simp add: verify_layer_def keep_verify_blob)

lemma keep_fold_snd: "(\<And>d x. P (snd x) \<Longrightarrow> P (snd (f d x))) \<Longrightarrow> P (snd x) \<Longrightarrow> P (snd (fold f ds x))"
  by (induction ds arbitrary: x) auto

lemma keep_manifestVerifyImage: "manifestVerifyImage S conf repo m s = (x, s') \<Longrightarrow> P s \<Longrightarrow> P s'"
  using keep_fold_snd [where f = "verify_layer S repo", OF keep_verify_layer,
      of "(if d_urls (m_config m) = [] then verify_blob S repo ''config not found: '' (d_digest (m_config m)) ([], s) else ([], s))" "m_layers m"]
  by (auto simp: manifestVerifyImage_def keep_verify_blob split: if_splits)

lemma keep_manifestVerifyIndex:
  assumes "manifestVerifyIndex S conf repo m s = (x, s')" and "P s"
  shows "P s'"
proof -
  have "P (snd (fold (\<lambda>d. verify_blob S repo ''manifest not found: '' (d_digest d)) (i_manifests m) ([], s)))"
    by (rule keep_fold_snd) (use assms(2) in \<open>simp_all add: keep_verify_blob\<close>)
  then show ?thesis using assms by (simp add: manifestVerifyIndex_def split: if_splits)
qed

lemma keep_put_check: "put_check L S conf repo mt raw d s = (x, s') \<Longrightarrow> P s \<Longrightarrow> P s'"
  by (auto simp: put_check_def split: if_splits option.splits prod.splits
      dest: keep_manifestVerifyImage keep_manifestVerifyIndex)

lemma keep_insert_tags:
  assumes "insert_tags S repo d cs tags (s, w) = (x, s', w')" and "\<forall>t \<in> set tags. refTagRE t" and "P s"
  shows "P s'"
proof -
  have "insertable (d\<lparr>d_annotations := fmupd annot_ref_name t fmempty\<rparr>)" if "refTagRE t" for t
    using that by (simp add: insertable_def annotationVal_def)
  then show ?thesis using assms
    by (induction tags arbitrary: s w) (auto split: prod.splits sum.splits dest: keep_eq)
qed

lemma keep_put_index:
  assumes "put_index S repo d cs tags (s, w) = (x, s', w')" and "\<forall>t \<in> set tags. refTagRE t"
    and "d_annotations d = fmempty" and "P s"
  shows "P s'"
proof -
  have "insertable d" using assms(3) by (simp add: insertable_def annotationVal_def)
  then show ?thesis using assms
    by (auto simp: put_index_def split: if_splits prod.splits sum.splits dest: keep_eq keep_insert_tags)
qed

lemma keep_put_store:
  assumes "put_store L S repo mt raw d tags ck (s, w) = (s', w')" and "\<forall>t \<in> set tags. refTagRE t" and "P s"
  shows "P s'"
proof -
  have ann: "d_annotations (zero_descriptor\<lparr>d_mediaType := mt, d_size := n, d_digest := d\<rparr>) = fmempty" for n
    by (simp add: zero_descriptor_def)
  show ?thesis using assms
    by (auto simp: put_store_def ann split: prod.splits sum.splits bool.splits option.splits
        dest: keep_push_blob keep_put_index keep_referrerAdd)
qed

lemma keep_put_params:
  "put_store L S repo mt raw d tags ck (s, w) = (s', w') \<Longrightarrow> put_params L conf arg r = Inr (mt', dE, tags) \<Longrightarrow>
    P s \<Longrightarrow> P s'"
  using keep_put_store put_params_tags by blast

lemma keep_manifestPut: "P s \<Longrightarrow> P (fst (manifestPut L S conf repo arg r (s, w)))"
  by (auto simp: manifestPut_def Let_def split: sum.splits prod.splits
      intro!: keep_with_repo keep_done dest!: keep_put_check keep_put_params)

end

end
