(* ===== verification/Tag_Handler.thy ===== *)
theory Tag_Handler
  imports Blob_Handlers
begin

text \<open>
  The listing of tags (\<open>tag.go\<close>).  A panic of the handler, which ends the request without a
  response, is a \<open>None\<close>.
\<close>

section \<open>The JSON body\<close>

text \<open>
  A string as \<open>json.Marshal\<close> writes it, for names in ASCII: quotes, control characters and the three
  characters special to HTML are escaped.
\<close>

definition hex_lower_char :: "nat \<Rightarrow> char" where
  "hex_lower_char n = (if n < 10 then char_of (48 + n) else char_of (87 + n))"

definition json_char :: "char \<Rightarrow> string" where
  "json_char c =
     (let n = of_char c :: nat; bs = char_of (92::nat) in
      if n = 34 \<or> n = 92 then [bs, c]
      else if n = 8 then [bs, CHR ''b''] else if n = 9 then [bs, CHR ''t'']
      else if n = 10 then [bs, CHR ''n''] else if n = 12 then [bs, CHR ''f'']
      else if n = 13 then [bs, CHR ''r'']
      else if n < 32 \<or> n = 60 \<or> n = 62 \<or> n = 38
        then [bs, CHR ''u'', CHR ''0'', CHR ''0'', hex_lower_char (n div 16), hex_lower_char (n mod 16)]
      else [c])"

definition json_string :: "string \<Rightarrow> string" where
  "json_string s = (let q = char_of (34::nat) in q # concat (map json_char s) @ [q])"

text \<open>\<open>TagList\<close> as JSON.\<close>

definition json_tag_list :: "string \<Rightarrow> string list \<Rightarrow> bytes" where
  "json_tag_list name tags =
     ''{'' @ json_string ''name'' @ '':'' @ json_string name @ '','' @ json_string ''tags'' @ '':['' @
     join_char (CHR '','') (map json_string tags) @ '']}''"

section \<open>The listing\<close>

definition tags_after :: "layout_index \<Rightarrow> string \<Rightarrow> string list" where
  "tags_after li lastp = sort_strings
     (map tag_of (filter (\<lambda>d. tag_of d \<noteq> [] \<and> str_less lastp (tag_of d)) (i_manifests li)))"

text \<open>
  The page of \<open>n\<close> tags and whether there are more.  A number that does not parse is ignored, one that
  is negative, or 0 with a tag to list, makes the slice operations panic.
\<close>

definition tag_page :: "string \<Rightarrow> string list \<Rightarrow> (string list \<times> bool) option" where
  "tag_page n tags =
     (case parse_int64 n of (nInt, bad) \<Rightarrow>
      if n \<noteq> [] \<and> \<not> bad \<and> int (length tags) > nInt then
        (if nInt < 0 then None
         else let page = take (nat nInt) tags in if page = [] then None else Some (page, True))
      else Some (tags, False))"

definition send_tags :: "string \<Rightarrow> request \<Rightarrow> string list \<times> bool \<Rightarrow> response_writer \<Rightarrow> response_writer" where
  "send_tags repoStr r page w =
     (case page of (tags, rest) \<Rightarrow>
      let body = json_tag_list repoStr tags;
          w1 = (if rest then header_add ''Link''
                  (''<'' @ url_string (rq_path r) (query_set ''last'' (last tags) (rq_query r)) @ ''>; rel=next'') w
                else w);
          w2 = writeHeader 200 (header_add ''Content-Length'' (show_int (int (length body))) w1)
      in if rq_method r \<noteq> ''HEAD'' then writeBody (ChunkBytes body) w2 else w2)"

definition tagList ::
    "'s store_ops \<Rightarrow> string \<Rightarrow> request \<Rightarrow> 's \<times> response_writer \<Rightarrow> ('s \<times> response_writer) option" where
  "tagList S repoStr r = (\<lambda>(s, w).
     case so_repoGet S repoStr s of
       (Inl e, s1) \<Rightarrow> Some (s1, repoGet_err e w)
     | (Inr _, s1) \<Rightarrow>
       (case so_indexGet S repoStr s1 of (res, s2) \<Rightarrow>
        let s3 = so_done S repoStr s2 in
        case res of
          Inl _ \<Rightarrow> Some (s3, resp_err 404 [errInfoNameUnknown ''repository does not exist''] w)
        | Inr li \<Rightarrow>
          map_option (\<lambda>page. (s3, send_tags repoStr r page (header_add ''Content-Type'' ''application/json'' w)))
            (tag_page (query_get r ''n'') (tags_after li (query_get r ''last'')))))"

section \<open>Walking through the pages\<close>

lemma sorted_last_max:
  assumes "sorted_wrt str_le xs" and "x \<in> set xs"
  shows "str_le x (last xs)"
  using assms
proof (induction xs)
  case (Cons y ys)
  then show ?case by (cases "ys = []") (auto dest: last_in_set)
qed simp

lemma filter_after_page:
  assumes "sorted_wrt str_le xs" and "distinct xs" and "take n xs \<noteq> []"
  shows "filter (str_less (last (take n xs))) xs = drop n xs"
proof -
  let ?l = "last (take n xs)"
  have srt: "sorted_wrt str_le (take n xs @ drop n xs)" and dst: "distinct (take n xs @ drop n xs)"
    using assms(1,2) by simp_all
  have "filter (str_less ?l) (take n xs) = []"
    unfolding filter_empty_conv
  proof (intro ballI notI)
    fix x assume "x \<in> set (take n xs)" "str_less ?l x"
    then have "str_le x ?l" "str_le ?l x" "str_less ?l x"
      using sorted_last_max [of "take n xs" x] srt by (auto simp: sorted_wrt_append str_le_def)
    then show False using str_le_antisym [of x ?l] by simp
  qed
  moreover have "filter (str_less ?l) (drop n xs) = drop n xs"
  proof (rule filter_True, rule ballI)
    fix x assume x: "x \<in> set (drop n xs)"
    have l: "?l \<in> set (take n xs)" using assms(3) by (rule last_in_set)
    then have "str_le ?l x" using srt x unfolding sorted_wrt_append by blast
    moreover have "?l \<noteq> x" using dst l x unfolding distinct_append by blast
    ultimately show "str_less ?l x" by (simp add: str_le_def)
  qed
  ultimately show ?thesis
    by (metis append_self_conv2 append_take_drop_id filter_append)
qed

text \<open>Two sorted lists without repetition are equal when they have the same elements.\<close>

lemma sorted_eqI:
  assumes "sorted_wrt str_le xs" "distinct xs" "sorted_wrt str_le ys" "distinct ys" "set xs = set ys"
  shows "xs = ys"
  using assms
proof (induction xs arbitrary: ys)
  case (Cons x xs)
  then obtain y ys' where ys: "ys = y # ys'" by (cases ys) auto
  have "x \<in> set ys" "y \<in> set (x # xs)" using Cons.prems(5) ys by auto
  then have "str_le x y" "str_le y x" using Cons.prems(1,3) ys by auto
  then have "x = y" by (rule str_le_antisym)
  moreover have "xs = ys'"
    using Cons.prems ys \<open>x = y\<close> by (intro Cons.IH) (auto simp: insert_ident)
  ultimately show ?case using ys by simp
qed simp

lemma wf_tags_distinct:
  "wf_manifests ms \<Longrightarrow> (\<And>d. q d \<Longrightarrow> tag_of d \<noteq> []) \<Longrightarrow> distinct (map tag_of (filter q ms))"
  by (induction ms) (auto simp: wf_manifests_def compat_def)

definition all_tags :: "layout_index \<Rightarrow> string list" where
  "all_tags li = sort_strings (map tag_of (filter (\<lambda>d. tag_of d \<noteq> []) (i_manifests li)))"

lemma tags_after_facts:
  assumes "wf_index li"
  shows "sorted_wrt str_le (tags_after li l)" "distinct (tags_after li l)"
    "set (tags_after li l) = {t \<in> tag_of ` set (i_manifests li). t \<noteq> [] \<and> str_less l t}"
  using assms wf_tags_distinct [of "i_manifests li" "\<lambda>d. tag_of d \<noteq> [] \<and> str_less l (tag_of d)"]
  by (auto simp: tags_after_def sorted_sort_strings wf_index_def)

lemma all_tags_facts:
  assumes "wf_index li"
  shows "sorted_wrt str_le (all_tags li)" "distinct (all_tags li)"
    "set (all_tags li) = {t \<in> tag_of ` set (i_manifests li). t \<noteq> []}"
  using assms wf_tags_distinct [of "i_manifests li" "\<lambda>d. tag_of d \<noteq> []"]
  by (auto simp: all_tags_def sorted_sort_strings wf_index_def)

lemma tags_after_filter:
  assumes "wf_index li"
  shows "tags_after li l = filter (str_less l) (all_tags li)"
  using tags_after_facts [OF assms] all_tags_facts [OF assms]
  by (intro sorted_eqI) (auto simp: sorted_wrt_filter)

lemma tags_after_drop:
  assumes "wf_index li" and "tags_after li l = drop k (all_tags li)" and "take n (tags_after li l) \<noteq> []"
  shows "tags_after li (last (take n (tags_after li l))) = drop (k + n) (all_tags li)"
proof -
  let ?xs = "tags_after li l"
  let ?m = "last (take n ?xs)"
  have "?m \<in> set ?xs" using last_in_set [OF assms(3)] in_set_takeD by fast
  then have "str_less l ?m" using tags_after_facts(3) [OF assms(1), of l] by auto
  then have "filter (str_less ?m) (all_tags li) = filter (str_less ?m) ?xs"
    unfolding tags_after_filter [OF assms(1)] by (auto intro!: filter_cong dest: str_less_trans)
  also have "\<dots> = drop n ?xs"
    using tags_after_facts [OF assms(1)] assms(3) by (intro filter_after_page) auto
  finally show ?thesis using assms(1,2) by (simp add: tags_after_filter add.commute)
qed

text \<open>
  A client that asks for pages of \<open>n\<close> tags and goes on after the last tag it got, as the \<open>Link\<close>
  header says; \<open>None\<close> when it panics or the fuel, a number of requests, ends first.
\<close>

fun walk_tags :: "nat \<Rightarrow> layout_index \<Rightarrow> string \<Rightarrow> string \<Rightarrow> string list list option" where
  "walk_tags 0 li n l = None"
| "walk_tags (Suc fuel) li n l =
     (case tag_page n (tags_after li l) of
        None \<Rightarrow> None
      | Some (page, False) \<Rightarrow> Some [page]
      | Some (page, True) \<Rightarrow> map_option (\<lambda>pages. page # pages) (walk_tags fuel li n (last page)))"

lemma tag_page_show:
  assumes "0 < n" and "int n \<le> max_int64"
  shows "tag_page (show_int (int n)) tags =
    (if n < length tags then Some (take n tags, True) else Some (tags, False))"
proof -
  have "parse_int64 (show_int (int n)) = (int n, False)"
    using assms by (intro parse_show_int) (auto simp: max_int64_def)
  then show ?thesis using assms by (auto simp: tag_page_def show_int_def)
qed

lemma walk_tags_from:
  assumes "wf_index li" and "0 < n" and "int n \<le> max_int64"
  shows "tags_after li l = drop k (all_tags li) \<Longrightarrow> length (tags_after li l) < fuel \<Longrightarrow>
    \<exists>pages. walk_tags fuel li (show_int (int n)) l = Some pages \<and>
      concat pages = tags_after li l \<and> (\<forall>p\<in>set pages. length p \<le> n)"
proof (induction fuel arbitrary: l k)
  case (Suc fuel)
  show ?case
  proof (cases "n < length (tags_after li l)")
    case True
    let ?p = "take n (tags_after li l)"
    have p: "?p \<noteq> []" using True assms(2) by auto
    have rest: "tags_after li (last ?p) = drop n (tags_after li l)"
      using tags_after_drop [OF assms(1) Suc.prems(1) p] Suc.prems(1) by (simp add: add.commute)
    have "tags_after li (last ?p) = drop (n + k) (all_tags li)"
      using rest Suc.prems(1) by simp
    moreover have "length (tags_after li (last ?p)) < fuel"
      unfolding rest using Suc.prems(2) True assms(2) by simp
    ultimately obtain pages where pages: "walk_tags fuel li (show_int (int n)) (last ?p) = Some pages"
      "concat pages = tags_after li (last ?p)" "\<forall>p\<in>set pages. length p \<le> n"
      using Suc.IH by blast
    have "walk_tags (Suc fuel) li (show_int (int n)) l = Some (?p # pages)"
      using True pages(1) tag_page_show [OF assms(2,3)] by simp
    moreover have "concat (?p # pages) = tags_after li l"
      using pages(2) rest by simp
    ultimately show ?thesis using pages(3) by fastforce
  next
    case False
    then show ?thesis using assms tag_page_show by auto
  qed
qed simp

text \<open>
  C40: A client that walks through the tag list in pages of \<open>n\<close> tags, with a page size that is
  positive and fits an integer, ends after at most one request per tag and one more, and has then
  seen all the tags of a well-formed index in order, each once, in pages of at most \<open>n\<close>.
\<close>

theorem tag_pages_complete:
  assumes "wf_index li" and "0 < n" and "int n \<le> max_int64"
  shows "\<exists>pages. walk_tags (Suc (length (i_manifests li))) li (show_int (int n)) [] = Some pages \<and>
      (\<forall>p\<in>set pages. length p \<le> n) \<and> sorted_wrt str_le (concat pages) \<and> distinct (concat pages) \<and>
      set (concat pages) = {t. tag_map li t \<noteq> None}"
proof -
  have eq: "tags_after li [] = all_tags li"
    unfolding tags_after_def all_tags_def by (rule arg_cong [of _ _ sort_strings])
      (auto intro!: arg_cong [of _ _ "map tag_of"] filter_cong elim: str_less.elims simp: neq_Nil_conv)
  have "length (all_tags li) \<le> length (i_manifests li)"
    by (simp add: all_tags_def)
  then obtain pages where pages: "walk_tags (Suc (length (i_manifests li))) li (show_int (int n)) [] = Some pages"
    "concat pages = all_tags li" "\<forall>p\<in>set pages. length p \<le> n"
    using walk_tags_from [OF assms, of "[]" 0 "Suc (length (i_manifests li))"] eq by auto
  moreover have "set (all_tags li) = {t. tag_map li t \<noteq> None}"
    using all_tags_facts(3) [OF assms(1)] by (auto simp: tag_map_None_iff)
  ultimately show ?thesis using all_tags_facts [OF assms(1)] by metis
qed

theorem tag_pages_complete_witness:
  "let d = \<lambda>t. zero_descriptor\<lparr>d_digest := ''sha256:a'', d_annotations := fmupd annot_ref_name t fmempty\<rparr>;
       li = \<lparr>i_schemaVersion = 2, i_mediaType = [], i_artifactType = [],
             i_manifests = [d ''v2'', d ''v1''], i_subject = None, i_annotations = fmempty,
             li_history = fmempty, li_childManifests = []\<rparr>
   in wf_index li \<and> (\<exists>pages. walk_tags 3 li ''1'' [] = Some pages \<and> (\<forall>p\<in>set pages. length p \<le> 1) \<and>
        sorted_wrt str_le (concat pages) \<and> distinct (concat pages) \<and> set (concat pages) = {t. tag_map li t \<noteq> None})"
proof -
  define d where "d = (\<lambda>t. zero_descriptor\<lparr>d_digest := ''sha256:a'', d_annotations := fmupd annot_ref_name t fmempty\<rparr>)"
  define li where "li = \<lparr>i_schemaVersion = 2, i_mediaType = [], i_artifactType = [],
             i_manifests = [d ''v2'', d ''v1''], i_subject = None, i_annotations = fmempty,
             li_history = fmempty, li_childManifests = []\<rparr>"
  have wf: "wf_index li"
    by (auto simp: wf_index_def wf_manifests_def compat_def li_def d_def zero_descriptor_def annotationVal_def
        annotationsEmpty_def)
  have one: "show_int (int 1) = ''1''" by (simp add: show_int_def show_nat.simps digit_char_def) code_simp?
  have len: "Suc (length (i_manifests li)) = 3" by (simp add: li_def)
  show ?thesis
    unfolding d_def [symmetric] Let_def li_def [symmetric]
    using tag_pages_complete [OF wf, of 1] wf unfolding one len by (simp add: max_int64_def)
qed

text \<open>
  The page sizes a client must not send: with a negative page size, or a page size of 0 and at
  least one tag to list, the handler panics.
\<close>

theorem tag_page_panics:
  "tag_page n tags = None \<longleftrightarrow>
     n \<noteq> [] \<and> \<not> snd (parse_int64 n) \<and> fst (parse_int64 n) < int (length tags) \<and> fst (parse_int64 n) \<le> 0"
  by (auto simp: tag_page_def Let_def split: prod.splits)

context store_invariant
begin

lemma keep_tagList: "tagList S repo r (s, w) = Some (s', w') \<Longrightarrow> P s \<Longrightarrow> P s'"
  by (auto simp: tagList_def Let_def split: prod.splits sum.splits dest: keep_eq intro: keep_done)

end

end
