(* ===== verification/Auth.thy ===== *)
theory Auth
  imports Http Config "HOL-Library.List_Lexorder" "HOL-Library.Char_ord"
begin

text \<open>
  Authentication and authorisation (\<open>config/auth.go\<close>): the configuration of users, groups and access
  rules with its polling of a file, the decision for a request, the handlers that wrap the registry's
  handlers, and the server of opaque tokens.  The controller is a state; \<open>next\<close> is the handler that
  is wrapped.  A panic is a \<open>None\<close>.
\<close>

section \<open>Types\<close>

datatype auth_access = AuthUnknown | AuthRead | AuthWrite | AuthDelete | AuthAll

fun access_marshal :: "auth_access \<Rightarrow> string" where
  "access_marshal AuthUnknown = []"
| "access_marshal AuthRead = ''read''"
| "access_marshal AuthWrite = ''write''"
| "access_marshal AuthDelete = ''delete''"
| "access_marshal AuthAll = ''*''"

definition access_unmarshal :: "string \<Rightarrow> auth_access res" where
  "access_unmarshal b =
     (let s = to_lower b in
      if s = [] then Inr AuthUnknown else if s = ''read'' then Inr AuthRead
      else if s = ''write'' then Inr AuthWrite else if s = ''delete'' then Inr AuthDelete
      else if s = ''*'' then Inr AuthAll else Inl (ErrOther ''unknown value''))"

text \<open>A missing map of groups and an empty one behave alike; a null entry of the file is a \<open>None\<close>.\<close>

record auth_user =
  au_cred :: string
  au_groups :: "string fset"

record auth_group =
  ag_members :: "string list"

record auth_acl =
  acl_repo :: string
  acl_access :: "auth_access list"
  acl_members :: "string list"
  acl_anonymous :: bool

record auth_conf =
  ac_users :: "(string, auth_user option) fmap"
  ac_groups :: "(string, auth_group option) fmap"
  ac_acls :: "auth_acl list"

record auth_token =
  at_user :: string
  at_expires :: time

record auth_controller =
  ac_filename :: string
  ac_mod :: time
  ac_poll :: time
  ac_conf :: auth_conf
  ac_realm :: string
  ac_service :: string
  ac_opaque :: "(string, auth_token) fmap"
  ac_cleanup :: bool

text \<open>
  What comes from outside: bcrypt, the YAML decoder (\<open>None\<close> is an error other than the end of an
  empty file), the resolution of the realm against the request's URL, and the file as it is during
  the call.
\<close>

record auth_lib =
  al_compare :: "string \<Rightarrow> string \<Rightarrow> bool"
  al_generate :: "string \<Rightarrow> string option"
  al_yaml :: "bytes \<Rightarrow> auth_conf option"
  al_url :: "string \<Rightarrow> string \<Rightarrow> string option"

record auth_file =
  af_stat :: "time option"
  af_open :: "bytes option"

definition pollFreq :: duration where "pollFreq = 5 * nano_second"
definition tokenExpire :: duration where "tokenExpire = 5 * nano_minute"
definition authDescription :: string where "authDescription = ''olareg registry''"

definition newAuthConf :: auth_conf where
  "newAuthConf = \<lparr>ac_users = fmempty, ac_groups = fmempty, ac_acls = []\<rparr>"

text \<open>\<open>newAuthController\<close>; the error only tells of a file that is missing.\<close>

definition newAuthController :: "string \<Rightarrow> auth_file \<Rightarrow> auth_controller \<times> err option" where
  "newAuthController filename f =
     (\<lparr>ac_filename = filename, ac_mod = 0, ac_poll = 0, ac_conf = newAuthConf, ac_realm = [],
       ac_service = [], ac_opaque = fmempty, ac_cleanup = False\<rparr>,
      if filename \<noteq> [] \<and> af_stat f = None then Some ErrNotFound else None)"

section \<open>Passwords\<close>

definition passValidate :: "auth_lib \<Rightarrow> string \<Rightarrow> string \<Rightarrow> bool" where
  "passValidate A input hash =
     (if has_prefix hash ''$2y$'' \<or> has_prefix hash ''$2a$'' \<or> has_prefix hash ''$2b$'' \<or> has_prefix hash ''$2x$''
      then al_compare A input hash else False)"

definition checkCreds :: "auth_lib \<Rightarrow> auth_conf \<Rightarrow> string \<Rightarrow> string \<Rightarrow> bool option" where
  "checkCreds A conf user pass =
     (case fmlookup (ac_users conf) user of
        None \<Rightarrow> Some False
      | Some None \<Rightarrow> None
      | Some (Some creds) \<Rightarrow> Some (passValidate A pass (au_cred creds)))"

section \<open>Access rules\<close>

definition acl_matches :: "string \<Rightarrow> auth_acl \<Rightarrow> bool" where
  "acl_matches repo acl \<longleftrightarrow> acl_repo acl = repo \<or>
     (has_suffix (acl_repo acl) ''*'' \<and> has_prefix repo (take (length (acl_repo acl) - 1) (acl_repo acl)))"

definition user_groups :: "auth_conf \<Rightarrow> string \<Rightarrow> string fset" where
  "user_groups conf user =
     (case fmlookup (ac_users conf) user of Some (Some u) \<Rightarrow> au_groups u | _ \<Rightarrow> {||})"

definition acl_user :: "auth_conf \<Rightarrow> string \<Rightarrow> auth_acl \<Rightarrow> bool" where
  "acl_user conf user acl \<longleftrightarrow>
     (if user = [] then acl_anonymous acl
      else user \<in> set (acl_members acl) \<or> fBex (user_groups conf user) (\<lambda>g. g \<in> set (acl_members acl)))"

definition acl_grants :: "auth_access \<Rightarrow> auth_acl \<Rightarrow> bool" where
  "acl_grants access acl \<longleftrightarrow> access \<in> set (acl_access acl) \<or> AuthAll \<in> set (acl_access acl)"

text \<open>One round of the loop of \<open>checkAccess\<close>, on the best repository so far and the result.\<close>

definition acl_step :: "auth_conf \<Rightarrow> string \<Rightarrow> auth_access \<Rightarrow> string \<Rightarrow> auth_acl \<Rightarrow> string \<times> bool \<Rightarrow> string \<times> bool" where
  "acl_step conf repo access user acl = (\<lambda>(bestRepo, result).
     if length (acl_repo acl) < length bestRepo \<or> \<not> acl_matches repo acl then (bestRepo, result)
     else if \<not> acl_user conf user acl then (bestRepo, result)
     else (acl_repo acl, acl_grants access acl))"

definition checkAccess :: "auth_conf \<Rightarrow> string \<Rightarrow> auth_access \<Rightarrow> string \<Rightarrow> bool" where
  "checkAccess conf repo access user = snd (fold (acl_step conf repo access user) (ac_acls conf) ([], False))"

section \<open>Groups\<close>

text \<open>
  \<open>groupMap\<close>: the members of a group that are users get the group and its parents, the others are
  taken for groups.  A group that is its own parent ends the recursion.
\<close>

definition add_groups :: "string list \<Rightarrow> auth_user option \<Rightarrow> auth_user" where
  "add_groups gs u =
     (let u' = (case u of None \<Rightarrow> \<lparr>au_cred = [], au_groups = {||}\<rparr> | Some u' \<Rightarrow> u')
      in u'\<lparr>au_groups := au_groups u' |\<union>| fset_of_list gs\<rparr>)"

function groupMap ::
    "(string, auth_group option) fmap \<Rightarrow> string list \<Rightarrow> string \<Rightarrow> (string, auth_user option) fmap \<Rightarrow>
     (string, auth_user option) fmap" where
  "groupMap groups parents name users =
     (if name \<in> set parents then users
      else case fmlookup groups name of
        Some (Some g) \<Rightarrow>
          fold (\<lambda>member users.
                 case fmlookup users member of
                   Some u \<Rightarrow> fmupd member (Some (add_groups (parents @ [name]) u)) users
                 | None \<Rightarrow> groupMap groups (parents @ [name]) member users)
            (ag_members g) users
      | _ \<Rightarrow> users)"
  by pat_completeness auto
termination
proof (relation "measure (\<lambda>(groups, parents, name, users). card (fmdom' groups - set parents))", simp)
  fix groups :: "(string, auth_group option) fmap" and parents :: "string list"
    and name :: string and users :: "(string, auth_user option) fmap"
    and a g member users'
  assume "name \<notin> set parents" "fmlookup groups name = Some a"
  then have "name \<in> fmdom' groups - set parents" by (auto simp: fmlookup_dom'_iff)
  then have "card (fmdom' groups - insert name (set parents)) < card (fmdom' groups - set parents)"
    by (intro psubset_card_mono) auto
  then show "((groups, parents @ [name], member, users'), groups, parents, name, users)
      \<in> measure (\<lambda>(groups, parents, name, users). card (fmdom' groups - set parents))"
    by simp
qed

declare groupMap.simps [simp del]

text \<open>The loop over all groups after the file was read.\<close>

definition mapGroups :: "lib \<Rightarrow> auth_conf \<Rightarrow> auth_conf" where
  "mapGroups L conf =
     conf\<lparr>ac_users := fold (groupMap (ac_groups conf) [])
                       (map_order L (sorted_list_of_fset (fmdom (ac_groups conf)))) (ac_users conf)\<rparr>"

section \<open>The configuration file\<close>

text \<open>
  \<open>getConf\<close>: at most one poll of the file every \<open>pollFreq\<close>; an error leaves the configuration as it
  is, and a file whose modification time is the known one is not read again.
\<close>

definition getConf ::
    "lib \<Rightarrow> auth_lib \<Rightarrow> auth_file \<Rightarrow> time \<Rightarrow> auth_controller \<Rightarrow> (auth_conf \<times> err option) \<times> auth_controller" where
  "getConf L A f now ac =
     (if ac_filename ac = [] \<or> now - ac_poll ac < pollFreq then ((ac_conf ac, None), ac)
      else
        let ac1 = ac\<lparr>ac_poll := now\<rparr> in
        case af_stat f of
          None \<Rightarrow> ((ac_conf ac1, Some ErrNotFound), ac1)
        | Some mtime \<Rightarrow>
          if ac_mod ac1 = mtime then ((ac_conf ac1, None), ac1)
          else
            let ac2 = ac1\<lparr>ac_mod := mtime\<rparr> in
            (case af_open f of
               None \<Rightarrow> ((ac_conf ac2, Some (ErrOther ''open'')), ac2)
             | Some b \<Rightarrow>
               (case al_yaml A b of
                  None \<Rightarrow> ((ac_conf ac2, Some ErrParsingFailed), ac2)
                | Some afc \<Rightarrow>
                  let ac3 = ac2\<lparr>ac_conf := mapGroups L afc\<rparr> in ((ac_conf ac3, None), ac3))))"

section \<open>Refusals\<close>

text \<open>\<open>%q\<close> of a string in ASCII.\<close>

definition go_quote_char :: "char \<Rightarrow> string" where
  "go_quote_char c =
     (let n = of_char c :: nat; bs = char_of (92::nat) in
      if n = 34 \<or> n = 92 then [bs, c]
      else if n = 7 then [bs, CHR ''a''] else if n = 8 then [bs, CHR ''b'']
      else if n = 9 then [bs, CHR ''t''] else if n = 10 then [bs, CHR ''n'']
      else if n = 11 then [bs, CHR ''v''] else if n = 12 then [bs, CHR ''f'']
      else if n = 13 then [bs, CHR ''r'']
      else if n < 32 \<or> n = 127 then
        bs # CHR ''x'' # map (\<lambda>k. if k < 10 then char_of (48 + k) else char_of (87 + k)) [n div 16, n mod 16]
      else [c])"

definition go_quote :: "string \<Rightarrow> string" where
  "go_quote s = (let q = char_of (34::nat) in q # concat (map go_quote_char s) @ [q])"

definition scope_of :: "string \<Rightarrow> auth_access \<Rightarrow> string" where
  "scope_of repo access =
     (if repo = [] then ''registry:'' else ''repository:'' @ repo) @
     (case access of AuthRead \<Rightarrow> '':pull'' | AuthWrite \<Rightarrow> '':push'' | AuthDelete \<Rightarrow> '':delete'' | _ \<Rightarrow> [])"

definition unauthorized ::
    "string \<Rightarrow> string \<Rightarrow> string \<Rightarrow> string \<Rightarrow> string \<Rightarrow> response_writer \<Rightarrow> response_writer option" where
  "unauthorized authType realm service scope errMsg w =
     (if authType = [] \<or> realm = [] then None
      else
        let h0 = authType @ '' realm='' @ go_quote realm;
            h1 = (if service \<noteq> [] then h0 @ '',service='' @ go_quote service else h0);
            h2 = (if scope \<noteq> [] then h1 @ '',scope='' @ go_quote scope else h1);
            h3 = (if errMsg \<noteq> [] then h2 @ '',error='' @ go_quote errMsg else h2)
        in Some (resp_err 401 [errInfoUnauthorized (''scope = '' @ scope)]
                   (header_add ''WWW-Authenticate'' h3 w)))"

definition refuse_auth ::
    "string \<Rightarrow> string \<Rightarrow> string \<Rightarrow> string \<Rightarrow> string \<Rightarrow> response_writer \<Rightarrow> response_writer" where
  "refuse_auth authType realm service scope errMsg w =
     (case unauthorized authType realm service scope errMsg w of
        None \<Rightarrow> writeHeader 500 w
      | Some w' \<Rightarrow> w')"

section \<open>The handlers\<close>

text \<open>A handler that may panic, with the controller in front of the state of the handler it wraps.\<close>

type_synonym 's phandler = "request \<Rightarrow> 's \<times> response_writer \<Rightarrow> ('s \<times> response_writer) option"

definition lift_auth :: "'s phandler \<Rightarrow> auth_controller \<Rightarrow> (auth_controller \<times> 's) phandler" where
  "lift_auth next_h ac r = (\<lambda>((_, s), w).
     map_option (\<lambda>(s', w'). ((ac, s'), w')) (next_h r (s, w)))"

text \<open>The user of a request with the password checked: \<open>Some None\<close> is a wrong password.\<close>

definition basic_user :: "auth_lib \<Rightarrow> auth_conf \<Rightarrow> request \<Rightarrow> string option option" where
  "basic_user A conf r =
     (case rq_basic r of
        None \<Rightarrow> Some (Some [])
      | Some (user, passwd) \<Rightarrow>
        if user \<noteq> [] \<or> passwd \<noteq> [] then
          map_option (\<lambda>valid. if valid then Some user else None) (checkCreds A conf user passwd)
        else Some (Some user))"

definition basicHandler ::
    "lib \<Rightarrow> auth_lib \<Rightarrow> auth_file \<Rightarrow> time \<Rightarrow> string \<Rightarrow> auth_access \<Rightarrow> 's phandler \<Rightarrow>
     (auth_controller \<times> 's) phandler" where
  "basicHandler L A f now repo access next_h r = (\<lambda>((ac, s), w).
     case getConf L A f now ac of ((conf, _), ac1) \<Rightarrow>
     let scope = scope_of repo access in
     case basic_user A conf r of
       None \<Rightarrow> None
     | Some None \<Rightarrow>
         Some ((ac1, s), refuse_auth ''Basic'' (ac_realm ac1) [] scope ''invalid username or password'' w)
     | Some (Some user) \<Rightarrow>
       if \<not> checkAccess conf repo access user then
         Some ((ac1, s), refuse_auth ''Basic'' (ac_realm ac1) [] scope ''unauthorized'' w)
       else lift_auth next_h ac1 r ((ac1, s), w))"

text \<open>The user of a bearer token; an unknown or expired token is an anonymous request.\<close>

definition token_user :: "time \<Rightarrow> auth_controller \<Rightarrow> string \<Rightarrow> string" where
  "token_user now ac token =
     (case fmlookup (ac_opaque ac) token of
        None \<Rightarrow> []
      | Some ato \<Rightarrow> if now - at_expires ato \<le> 0 then at_user ato else [])"

definition cut_prefix :: "string \<Rightarrow> string \<Rightarrow> string option" where
  "cut_prefix s p = (if has_prefix s p then Some (drop (length p) s) else None)"

definition tokenOpaqueHandler ::
    "lib \<Rightarrow> auth_lib \<Rightarrow> auth_file \<Rightarrow> time \<Rightarrow> string \<Rightarrow> auth_access \<Rightarrow> 's phandler \<Rightarrow>
     (auth_controller \<times> 's) phandler" where
  "tokenOpaqueHandler L A f now repo access next_h r = (\<lambda>((ac, s), w).
     case getConf L A f now ac of ((conf, _), ac1) \<Rightarrow>
     (case al_url A (rq_path r) (ac_realm ac1) of
        None \<Rightarrow> Some ((ac1, s), writeHeader 500 w)
      | Some realmURL \<Rightarrow>
        let scope = scope_of repo access in
        (case cut_prefix (hdr_get (rq_header r) ''Authorization'') ''Bearer '' of
           None \<Rightarrow> Some ((ac1, s), refuse_auth ''Bearer'' realmURL (ac_service ac1) scope ''unauthorized'' w)
         | Some token \<Rightarrow>
           if \<not> checkAccess conf repo access (token_user now ac1 token) then
             Some ((ac1, s), refuse_auth ''Bearer'' realmURL (ac_service ac1) scope ''unauthorized'' w)
           else lift_auth next_h ac1 r ((ac1, s), w))))"

text \<open>
  The token server: \<open>rand\<close> is the encoded random token, or the failure of the random source.  A
  background job is started unless one is running (\<open>ac_cleanup\<close>).
\<close>

definition tokenOpaqueCleanup :: "auth_controller \<Rightarrow> auth_controller" where
  "tokenOpaqueCleanup ac = ac\<lparr>ac_cleanup := True\<rparr>"

definition tokenOpaqueGenerate ::
    "lib \<Rightarrow> auth_lib \<Rightarrow> auth_file \<Rightarrow> time \<Rightarrow> string option \<Rightarrow> request \<Rightarrow>
     auth_controller \<times> response_writer \<Rightarrow> (auth_controller \<times> response_writer) option" where
  "tokenOpaqueGenerate L A f now rand r = (\<lambda>(ac, w).
     if rq_method r \<noteq> ''GET'' then Some (ac, writeHeader 405 w)
     else case getConf L A f now ac of ((conf, _), ac1) \<Rightarrow>
       if query_get r ''service'' \<noteq> ac_service ac1 then Some (ac1, writeHeader 403 w)
       else (case basic_user A conf r of
           None \<Rightarrow> None
         | Some None \<Rightarrow> Some (ac1, writeHeader 403 w)
         | Some (Some user) \<Rightarrow>
           (case rand of
              None \<Rightarrow> Some (ac1, writeHeader 500 w)
            | Some token \<Rightarrow>
              let ac2 = ac1\<lparr>ac_opaque := fmupd token \<lparr>at_user = user, at_expires = now + tokenExpire\<rparr> (ac_opaque ac1)\<rparr>
              in Some (tokenOpaqueCleanup ac2,
                   writeBody (ChunkToken token tokenExpire now)
                     (writeHeader 200 (header_set ''Content-Type'' ''application/json'' w))))))"

text \<open>One round of the background job; it stops, and may be started again, when no token is left.\<close>

definition cleanup_round :: "time \<Rightarrow> auth_controller \<Rightarrow> auth_controller" where
  "cleanup_round now ac =
     (let delList = ffilter (\<lambda>t. case fmlookup (ac_opaque ac) t of Some ato \<Rightarrow> now - at_expires ato > 0 | None \<Rightarrow> False)
                      (fmdom (ac_opaque ac));
          left = fmfilter (\<lambda>t. t |\<notin>| delList) (ac_opaque ac)
      in if delList = {||} then ac
         else if fmdom left = {||} then ac\<lparr>ac_opaque := left, ac_cleanup := False\<rparr>
         else ac\<lparr>ac_opaque := left\<rparr>)"

section \<open>The constructors\<close>

datatype auth_opt = WithAuthRealm string | WithAuthService string

fun apply_auth_opt :: "auth_opt \<Rightarrow> auth_controller \<Rightarrow> auth_controller" where
  "apply_auth_opt (WithAuthRealm realm) ac = ac\<lparr>ac_realm := realm\<rparr>"
| "apply_auth_opt (WithAuthService service) ac = ac\<lparr>ac_service := service\<rparr>"

definition newAuthBasicFile :: "string \<Rightarrow> auth_opt list \<Rightarrow> auth_file \<Rightarrow> auth_controller" where
  "newAuthBasicFile filename opts f =
     fold apply_auth_opt opts (fst (newAuthController filename f)\<lparr>ac_realm := authDescription\<rparr>)"

definition newAuthTokenOpaque :: "string \<Rightarrow> auth_opt list \<Rightarrow> auth_file \<Rightarrow> auth_controller" where
  "newAuthTokenOpaque filename opts f =
     fold apply_auth_opt opts
       (fst (newAuthController filename f)\<lparr>ac_realm := ''/token'', ac_service := authDescription\<rparr>)"

text \<open>The users of the static logins in the order of the range, or \<open>None\<close> when a password cannot be hashed.\<close>

fun static_users ::
    "auth_lib \<Rightarrow> (string, string) fmap \<Rightarrow> string list \<Rightarrow> (string, auth_user option) fmap \<Rightarrow>
     (string, auth_user option) fmap option" where
  "static_users A logins [] users = Some users"
| "static_users A logins (user # us) users =
     (case al_generate A (case fmlookup logins user of Some p \<Rightarrow> p | None \<Rightarrow> []) of
        None \<Rightarrow> None
      | Some hash \<Rightarrow> static_users A logins us (fmupd user (Some \<lparr>au_cred = hash, au_groups = {||}\<rparr>) users))"

definition newAuthBasicStatic ::
    "lib \<Rightarrow> auth_lib \<Rightarrow> (string, string) fmap \<Rightarrow> bool \<Rightarrow> auth_opt list \<Rightarrow> auth_file \<Rightarrow> auth_controller res" where
  "newAuthBasicStatic L A logins allowAnonymousRead opts f =
     (let ac = fold apply_auth_opt opts (fst (newAuthController [] f)\<lparr>ac_realm := authDescription\<rparr>);
          userList = map_order L (sorted_list_of_fset (fmdom logins)) in
      case static_users A logins userList fmempty of
        None \<Rightarrow> Inl (ErrOther ''failed to hash password'')
      | Some users \<Rightarrow>
        let acls = ac_acls (ac_conf ac) @
                   [\<lparr>acl_repo = ''*'', acl_access = [AuthRead, AuthWrite, AuthDelete],
                     acl_members = userList, acl_anonymous = False\<rparr>] @
                   (if allowAnonymousRead
                    then [\<lparr>acl_repo = ''*'', acl_access = [AuthRead], acl_members = [], acl_anonymous = True\<rparr>]
                    else [])
        in Inr (ac\<lparr>ac_conf := (ac_conf ac)\<lparr>ac_users := users, ac_acls := acls\<rparr>\<rparr>))"

section \<open>The decision of the access rules\<close>

definition acl_applies :: "auth_conf \<Rightarrow> string \<Rightarrow> string \<Rightarrow> auth_acl \<Rightarrow> bool" where
  "acl_applies conf repo user acl \<longleftrightarrow> acl_matches repo acl \<and> acl_user conf user acl"

text \<open>The rules that apply with the longest repository pattern among those that apply.\<close>

definition best_acls :: "auth_conf \<Rightarrow> string \<Rightarrow> string \<Rightarrow> auth_acl list \<Rightarrow> auth_acl list" where
  "best_acls conf repo user acls =
     (let app = filter (acl_applies conf repo user) acls
      in filter (\<lambda>a. \<forall>b\<in>set app. length (acl_repo b) \<le> length (acl_repo a)) app)"

lemma best_acls_skip: "\<not> acl_applies conf repo user x \<Longrightarrow> best_acls conf repo user (xs @ [x]) = best_acls conf repo user xs"
  by (simp add: best_acls_def)

lemma best_acls_length:
  assumes "a \<in> set (best_acls conf repo user xs)" and "b \<in> set xs" and "acl_applies conf repo user b"
  shows "length (acl_repo b) \<le> length (acl_repo a)"
  using assms by (auto simp: best_acls_def)

lemma best_acls_empty: "best_acls conf repo user xs = [] \<longleftrightarrow> filter (acl_applies conf repo user) xs = []"
proof -
  let ?app = "filter (acl_applies conf repo user) xs"
  have "\<exists>a\<in>set ?app. \<forall>b\<in>set ?app. length (acl_repo b) \<le> length (acl_repo a)" if ne: "?app \<noteq> []"
  proof -
    have "Max ((\<lambda>a. length (acl_repo a)) ` set ?app) \<in> (\<lambda>a. length (acl_repo a)) ` set ?app"
      by (intro Max_in) (use ne in \<open>auto simp: filter_empty_conv\<close>)
    then obtain a where "a \<in> set ?app" "length (acl_repo a) = Max ((\<lambda>a. length (acl_repo a)) ` set ?app)" by auto
    then show ?thesis by (intro bexI [of _ a]) auto
  qed
  then show ?thesis by (fastforce simp: best_acls_def filter_empty_conv)
qed

lemma acl_loop_best:
  "fold (acl_step conf repo access user) acls ([], False) =
     (case rev (best_acls conf repo user acls) of
        [] \<Rightarrow> ([], False)
      | a # _ \<Rightarrow> (acl_repo a, acl_grants access a))"
proof (induction acls rule: rev_induct)
  case (snoc x xs)
  let ?best = "best_acls conf repo user"
  show ?case
  proof (cases "acl_applies conf repo user x")
    case False
    then show ?thesis
      using snoc best_acls_skip [OF False]
      by (auto simp: acl_step_def acl_applies_def split: list.splits)
  next
    case applies: True
    define longer where "longer \<longleftrightarrow> (\<exists>b\<in>set xs. acl_applies conf repo user b \<and> length (acl_repo x) < length (acl_repo b))"
    show ?thesis
    proof (cases longer)
      case True
      then obtain b where b: "b \<in> set xs" "acl_applies conf repo user b" "length (acl_repo x) < length (acl_repo b)"
        unfolding longer_def by blast
      then have "?best xs \<noteq> []" by (auto simp: best_acls_empty filter_empty_conv)
      then obtain a as where a: "rev (?best xs) = a # as" by (cases "rev (?best xs)") auto
      then have "a \<in> set (?best xs)" by (metis list.set_intros(1) set_rev)
      then have len: "length (acl_repo b) \<le> length (acl_repo a)" using b by (intro best_acls_length)
      have "?best (xs @ [x]) = ?best xs"
        using b applies by (auto simp: best_acls_def intro!: filter_cong)
      then show ?thesis using snoc a len b(3) by (simp add: acl_step_def)
    next
      case False
      then have "last (?best (xs @ [x])) = x" "?best (xs @ [x]) \<noteq> []"
        using applies by (auto simp: best_acls_def longer_def not_less)
      then obtain as where "rev (?best (xs @ [x])) = x # as"
        by (metis hd_rev list.collapse rev_is_Nil_conv)
      moreover have "\<not> length (acl_repo x) < length (fst (fold (acl_step conf repo access user) xs ([], False)))"
      proof (cases "rev (?best xs)")
        case (Cons a as)
        then have "a \<in> set (?best xs)" by (metis list.set_intros(1) set_rev)
        then have "a \<in> set xs" "acl_applies conf repo user a" by (auto simp: best_acls_def)
        then show ?thesis using False snoc Cons by (auto simp: longer_def)
      qed (use snoc in simp)
      moreover obtain r b where rb: "fold (acl_step conf repo access user) xs ([], False) = (r, b)"
        by (cases "fold (acl_step conf repo access user) xs ([], False)")
      moreover have "fold (acl_step conf repo access user) (xs @ [x]) ([], False) =
          acl_step conf repo access user x (r, b)"
        using rb by simp
      ultimately show ?thesis
        using applies unfolding acl_step_def acl_applies_def by simp
    qed
  qed
qed (simp add: best_acls_def)

text \<open>
  C32: A request is allowed exactly if some access rule applies to the repository and the user, and
  the last of those with the longest repository pattern grants the access.
\<close>

theorem checkAccess_best:
  "checkAccess conf repo access user \<longleftrightarrow>
     best_acls conf repo user (ac_acls conf) \<noteq> [] \<and>
     acl_grants access (last (best_acls conf repo user (ac_acls conf)))"
proof (cases "rev (best_acls conf repo user (ac_acls conf))")
  case Nil
  then show ?thesis by (simp add: checkAccess_def acl_loop_best)
next
  case (Cons a as)
  then have "best_acls conf repo user (ac_acls conf) \<noteq> []" "last (best_acls conf repo user (ac_acls conf)) = a"
    by (auto simp: rev_eq_Cons_iff)
  then show ?thesis using Cons by (simp add: checkAccess_def acl_loop_best)
qed

section \<open>The groups of a user\<close>

abbreviation members :: "(string, auth_group option) fmap \<Rightarrow> string \<Rightarrow> string set" where
  "members groups g \<equiv> (case fmlookup groups g of Some (Some gr) \<Rightarrow> set (ag_members gr) | _ \<Rightarrow> {})"

text \<open>A user is in a group as its member, or as one of a group that is a member.\<close>

inductive in_group :: "(string, auth_group option) fmap \<Rightarrow> string fset \<Rightarrow> string \<Rightarrow> string \<Rightarrow> bool"
  for groups :: "(string, auth_group option) fmap" and users :: "string fset" where
  direct: "u \<in> members groups g \<Longrightarrow> u |\<in>| users \<Longrightarrow> in_group groups users g u"
| nested: "m \<in> members groups g \<Longrightarrow> m |\<notin>| users \<Longrightarrow> in_group groups users m u \<Longrightarrow> in_group groups users g u"

fun chain :: "(string, auth_group option) fmap \<Rightarrow> string fset \<Rightarrow> string \<Rightarrow> string list \<Rightarrow> bool" where
  "chain groups users u [] \<longleftrightarrow> False"
| "chain groups users u [g] \<longleftrightarrow> u \<in> members groups g \<and> u |\<in>| users"
| "chain groups users u (g # h # gs) \<longleftrightarrow>
     h \<in> members groups g \<and> h |\<notin>| users \<and> chain groups users u (h # gs)"

lemma chain_suffix: "chain groups users u (xs @ y # ys) \<Longrightarrow> chain groups users u (y # ys)"
proof (induction xs)
  case (Cons x xs)
  then show ?case by (cases xs) auto
qed simp

lemma chain_replace:
  "chain groups users u (xs @ y # ys) \<Longrightarrow> chain groups users u (y # zs) \<Longrightarrow> chain groups users u (xs @ y # zs)"
proof (induction xs)
  case (Cons x xs)
  then show ?case by (cases xs) auto
qed simp

lemma chain_distinct:
  "chain groups users u (g # gs) \<Longrightarrow> \<exists>gs'. chain groups users u (g # gs') \<and> distinct (g # gs')"
proof (induction "length gs" arbitrary: gs rule: less_induct)
  case less
  show ?case
  proof (cases "distinct (g # gs)")
    case False
    then obtain xs ys zs y where split: "g # gs = xs @ [y] @ ys @ [y] @ zs"
      using not_distinct_decomp by blast
    have "chain groups users u (xs @ y # (ys @ y # zs))" using less.prems split by simp
    moreover from this have "chain groups users u (y # zs)"
      using chain_suffix [of groups users u "xs @ y # ys" y zs] by simp
    ultimately have c: "chain groups users u (xs @ y # zs)" by (rule chain_replace)
    obtain gs' where gs': "xs @ y # zs = g # gs'" "length gs' < length gs"
      using split by (cases xs) auto
    then show ?thesis using less.hyps [of gs'] c by simp
  qed (use less.prems in blast)
qed

lemma in_group_chain: "in_group groups users g u \<Longrightarrow> \<exists>gs. chain groups users u (g # gs)"
proof (induction rule: in_group.induct)
  case (direct u g)
  then show ?case by (intro exI [of _ "[]"]) simp
next
  case (nested m g u)
  then obtain gs where "chain groups users u (m # gs)" by blast
  with nested show ?case by (intro exI [of _ "m # gs"]) simp
qed

abbreviation groups_of :: "(string, auth_user option) fmap \<Rightarrow> string \<Rightarrow> string fset" where
  "groups_of users u \<equiv> (case fmlookup users u of Some (Some x) \<Rightarrow> au_groups x | _ \<Rightarrow> {||})"

lemma groups_of_add [simp]:
  "fmlookup users u = Some x \<Longrightarrow>
     au_groups (add_groups gs x) = groups_of users u |\<union>| fset_of_list gs"
  by (auto simp: add_groups_def Let_def split: option.splits)

text \<open>What one call adds: the loop over the members keeps the users and only adds groups.\<close>

definition map_member ::
    "(string, auth_group option) fmap \<Rightarrow> string list \<Rightarrow> string \<Rightarrow> (string, auth_user option) fmap \<Rightarrow>
     (string, auth_user option) fmap" where
  "map_member groups ps member users =
     (case fmlookup users member of
        Some u \<Rightarrow> fmupd member (Some (add_groups ps u)) users
      | None \<Rightarrow> groupMap groups ps member users)"

lemma groupMap_unfold:
  "groupMap groups parents name users =
     (if name \<in> set parents then users
      else case fmlookup groups name of
        Some (Some g) \<Rightarrow> fold (map_member groups (parents @ [name])) (ag_members g) users
      | _ \<Rightarrow> users)"
  unfolding groupMap.simps [of groups parents name users] map_member_def [abs_def] by simp

text \<open>The relation between the users before and after: the same names, no group lost, and every new group allowed by \<open>Q\<close>.\<close>

definition grows ::
    "(string \<Rightarrow> string \<Rightarrow> bool) \<Rightarrow> (string, auth_user option) fmap \<Rightarrow> (string, auth_user option) fmap \<Rightarrow> bool" where
  "grows Q users users' \<longleftrightarrow> fmdom users' = fmdom users \<and>
     (\<forall>u. groups_of users u |\<subseteq>| groups_of users' u) \<and>
     (\<forall>u g. g |\<in>| groups_of users' u \<longrightarrow> g |\<in>| groups_of users u \<or> Q g u)"

lemma grows_refl [simp]: "grows Q users users"
  by (simp add: grows_def)

lemma grows_trans: "grows Q a b \<Longrightarrow> grows Q b c \<Longrightarrow> grows Q a c"
  unfolding grows_def by (metis (no_types, lifting) fsubset_trans)

lemma grows_mono: "grows Q a b \<Longrightarrow> (\<And>g u. Q g u \<Longrightarrow> R g u) \<Longrightarrow> grows R a b"
  unfolding grows_def by blast

lemma grows_fold:
  "(\<And>x us. x \<in> set xs \<Longrightarrow> fmdom us = fmdom users \<Longrightarrow> grows Q us (f x us)) \<Longrightarrow> grows Q users (fold f xs users)"
proof (induction xs arbitrary: users)
  case (Cons x xs)
  have 1: "grows Q users (f x users)" using Cons.prems [of x users] by simp
  then have dom: "fmdom (f x users) = fmdom users" by (simp add: grows_def)
  have "grows Q (f x users) (fold f xs (f x users))"
    by (rule Cons.IH) (use Cons.prems dom in simp)
  with 1 show ?case by (auto intro: grows_trans)
qed simp

lemma groupMap_grows:
  "grows (\<lambda>g u. in_group groups (fmdom users) name u \<and> g \<in> set parents \<or> in_group groups (fmdom users) g u)
     users (groupMap groups parents name users)"
proof (induction groups parents name users rule: groupMap.induct)
  case (1 groups parents name users)
  let ?D = "fmdom users"
  let ?Q = "\<lambda>g u. in_group groups ?D name u \<and> g \<in> set parents \<or> in_group groups ?D g u"
  show ?case
  proof (cases "name \<notin> set parents \<and> (\<exists>g. fmlookup groups name = Some (Some g))")
    case True
    then obtain gr where gr: "name \<notin> set parents" "fmlookup groups name = Some (Some gr)" by blast
    have step: "grows ?Q us (map_member groups (parents @ [name]) m us)"
      if m: "m \<in> set (ag_members gr)" and us: "fmdom us = ?D" for m us
    proof (cases "fmlookup us m")
      case None
      have nd: "m |\<notin>| ?D" using None us by (metis fmdom_notD fmlookup_dom_iff option.distinct(1))
      have "in_group groups ?D name u" if "in_group groups ?D m u" for u
        using that m gr nd by (auto intro: in_group.nested)
      then have "grows ?Q us (groupMap groups (parents @ [name]) m us)"
        using 1 [OF gr(1) gr(2) _ m None] us
        by (auto elim!: grows_mono)
      then show ?thesis by (simp add: map_member_def None)
    next
      case (Some x)
      have "m |\<in>| ?D" using Some us by (metis fmdomI)
      then have "in_group groups ?D name m" using m gr by (auto intro: in_group.direct)
      then show ?thesis using Some by (auto simp: map_member_def grows_def fmdomI fset_of_list_elem split: if_splits)
    qed
    show ?thesis
      unfolding groupMap_unfold using gr step by (simp add: grows_fold)
  next
    case False
    then show ?thesis by (auto simp: groupMap_unfold split: option.splits)
  qed
qed

lemma groups_of_grows: "grows Q a b \<Longrightarrow> g |\<in>| groups_of a u \<Longrightarrow> g |\<in>| groups_of b u"
  by (auto simp: grows_def)

lemma map_member_grows: "grows (\<lambda>g u. True) us (map_member groups ps m us)"
proof (cases "fmlookup us m")
  case None
  then show ?thesis using groupMap_grows grows_mono by (fastforce simp: map_member_def)
next
  case (Some x)
  then show ?thesis by (auto simp: map_member_def grows_def fmdomI split: if_splits)
qed

lemma map_members_grow: "grows (\<lambda>g u. True) us (fold (map_member groups ps) ms us)"
  by (rule grows_fold) (rule map_member_grows)

lemma groupMap_complete:
  "chain groups (fmdom users) u (g # gs) \<Longrightarrow> distinct (parents @ g # gs) \<Longrightarrow> x \<in> insert g (set parents) \<Longrightarrow>
     x |\<in>| groups_of (groupMap groups parents g users) u"
proof (induction gs arbitrary: g parents users)
  case Nil
  then obtain gr where gr: "fmlookup groups g = Some (Some gr)" "u \<in> set (ag_members gr)"
    by (auto split: option.splits)
  obtain ys zs where ms: "ag_members gr = ys @ u # zs" using split_list [OF gr(2)] by blast
  let ?us = "fold (map_member groups (parents @ [g])) ys users"
  have "fmdom ?us = fmdom users" using map_members_grow by (auto simp: grows_def)
  then obtain y where y: "fmlookup ?us u = Some y" using Nil.prems(1) by (metis chain.simps(2) fmlookup_dom_iff)
  have "x |\<in>| groups_of (map_member groups (parents @ [g]) u ?us) u"
    using y Nil.prems(3) by (auto simp: map_member_def fset_of_list_elem)
  from groups_of_grows [OF map_members_grow this, of groups "parents @ [g]" zs]
  show ?case using Nil.prems(2) gr(1) by (simp add: groupMap_unfold ms)
next
  case (Cons h gs)
  then obtain gr where gr: "fmlookup groups g = Some (Some gr)" "h \<in> set (ag_members gr)"
    by (auto split: option.splits)
  obtain ys zs where ms: "ag_members gr = ys @ h # zs" using split_list [OF gr(2)] by blast
  let ?us = "fold (map_member groups (parents @ [g])) ys users"
  have dom: "fmdom ?us = fmdom users" using map_members_grow by (auto simp: grows_def)
  then have h: "fmlookup ?us h = None"
    using Cons.prems(1) by (metis chain.simps(3) fmdom_notI fmdom_notD)
  have "x |\<in>| groups_of (groupMap groups (parents @ [g]) h ?us) u"
    by (rule Cons.IH) (use Cons.prems dom in auto)
  then have "x |\<in>| groups_of (map_member groups (parents @ [g]) h ?us) u"
    by (simp add: map_member_def h)
  from groups_of_grows [OF map_members_grow this, of groups "parents @ [g]" zs]
  show ?case using Cons.prems(2) gr(1) by (simp add: groupMap_unfold ms)
qed

lemma groupMap_all_grows:
  "grows (\<lambda>g u. in_group groups (fmdom users) g u) users (fold (groupMap groups []) names users)"
proof (rule grows_fold)
  fix name and us :: "(string, auth_user option) fmap"
  assume "fmdom us = fmdom users"
  then show "grows (\<lambda>g u. in_group groups (fmdom users) g u) us (groupMap groups [] name us)"
    using groupMap_grows [of groups us name "[]"] by simp
qed

text \<open>
  C34: After a configuration file was read, the groups of each of its users are exactly the groups
  the user is a member of, directly or through other groups; groups that contain each other are no
  obstacle.
\<close>

theorem mapGroups_closure:
  assumes "order_ok L" and "u |\<in>| fmdom (ac_users conf)" and "user_groups conf u = {||}"
  shows "g |\<in>| user_groups (mapGroups L conf) u \<longleftrightarrow> in_group (ac_groups conf) (fmdom (ac_users conf)) g u"
proof
  let ?names = "map_order L (sorted_list_of_fset (fmdom (ac_groups conf)))"
  let ?users' = "fold (groupMap (ac_groups conf) []) ?names (ac_users conf)"
  have eq: "user_groups (mapGroups L conf) u = groups_of ?users' u"
    by (simp add: user_groups_def mapGroups_def)
  note all = groupMap_all_grows [of "ac_groups conf" "ac_users conf" ?names]
  {
    assume "g |\<in>| user_groups (mapGroups L conf) u"
    then have "g |\<in>| groups_of ?users' u" by (simp add: eq)
    moreover have "g |\<notin>| groups_of (ac_users conf) u" using assms(3) by (simp add: user_groups_def)
    ultimately show "in_group (ac_groups conf) (fmdom (ac_users conf)) g u"
      using all by (auto simp: grows_def)
  }
  assume g: "in_group (ac_groups conf) (fmdom (ac_users conf)) g u"
  then obtain gs where c: "chain (ac_groups conf) (fmdom (ac_users conf)) u (g # gs)" "distinct (g # gs)"
    using in_group_chain chain_distinct by blast
  have "g |\<in>| fmdom (ac_groups conf)"
    using g by cases (auto split: option.splits intro: fmdomI)
  then have "g \<in> set ?names"
    using assms(1) by (simp add: order_ok_def)
  then obtain ys zs where names: "?names = ys @ g # zs" using split_list by fast
  let ?us = "fold (groupMap (ac_groups conf) []) ys (ac_users conf)"
  have "fmdom ?us = fmdom (ac_users conf)"
    using groupMap_all_grows by (auto simp: grows_def)
  then have "g |\<in>| groups_of (groupMap (ac_groups conf) [] g ?us) u"
    using c by (intro groupMap_complete) auto
  from groups_of_grows [OF groupMap_all_grows this, of "ac_groups conf" zs]
  show "g |\<in>| user_groups (mapGroups L conf) u"
    unfolding eq names by simp
qed

definition demo_auth :: auth_conf where
  "demo_auth = \<lparr>ac_users = fmupd ''alice'' (Some \<lparr>au_cred = ''$2a$pw'', au_groups = {||}\<rparr>) fmempty,
     ac_groups = fmupd ''a'' (Some \<lparr>ag_members = [''b'']\<rparr>)
                   (fmupd ''b'' (Some \<lparr>ag_members = [''a'', ''alice'']\<rparr>) fmempty),
     ac_acls = [\<lparr>acl_repo = ''pub/*'', acl_access = [AuthRead], acl_members = [''a''], acl_anonymous = False\<rparr>]\<rparr>"

theorem mapGroups_closure_witness:
  "user_groups demo_auth ''alice'' = {||} \<and> ''a'' |\<in>| user_groups (mapGroups demo_lib demo_auth) ''alice''"
proof -
  have 1: "''alice'' |\<in>| fmdom (ac_users demo_auth)" "user_groups demo_auth ''alice'' = {||}"
    by (simp_all add: demo_auth_def user_groups_def)
  have "in_group (ac_groups demo_auth) (fmdom (ac_users demo_auth)) ''b'' ''alice''"
    by (rule in_group.direct) (simp_all add: demo_auth_def)
  then have "in_group (ac_groups demo_auth) (fmdom (ac_users demo_auth)) ''a'' ''alice''"
    by (rule in_group.nested [rotated 2]) (simp_all add: demo_auth_def)
  then show ?thesis using mapGroups_closure [OF demo_lib_ok(3) 1] 1 by simp
qed

section \<open>What reaches the registry\<close>

lemma refuse_auth_status:
  "rw_sent w = None \<Longrightarrow> rw_status (refuse_auth t realm srv scope e w) \<noteq> 500 \<Longrightarrow>
     rw_status (refuse_auth t realm srv scope e w) = 401"
  by (auto simp: refuse_auth_def unauthorized_def rw_status_def Let_def)

lemma basicHandler_cases:
  assumes "rw_sent w = None"
    and "basicHandler L A f now repo access next_h r ((ac, s), w) = Some ((ac', s'), w')"
  shows "(\<exists>user. basic_user A (ac_conf ac') r = Some (Some user) \<and>
            checkAccess (ac_conf ac') repo access user \<and> next_h r (s, w) = Some (s', w')) \<or>
         (s' = s \<and> rw_status w' \<in> {401, 500})"
proof -
  obtain conf e ac1 where get: "getConf L A f now ac = ((conf, e), ac1)"
    by (cases "getConf L A f now ac") auto
  then have conf: "conf = ac_conf ac1"
    by (auto simp: getConf_def Let_def split: if_splits option.splits)
  show ?thesis
    using assms(2) get conf
    by (auto simp: basicHandler_def lift_auth_def Let_def split: option.splits if_splits
        intro: refuse_auth_status [OF assms(1)])
qed

text \<open>
  The basic authentication handler calls the handler it wraps only for a request whose password,
  if it has one, was verified, and whose user the current access rules allow; every other
  request ends with status 401, or 500 without a realm, and leaves the state of the wrapped handler
  alone.
\<close>

theorem basicHandler_guards:
  assumes "rw_sent w = None"
    and "basicHandler L A f now repo access next_h r ((ac, s), w) = Some ((ac', s'), w')"
  shows "(\<exists>user. basic_user A (ac_conf ac') r = Some (Some user) \<and>
            checkAccess (ac_conf ac') repo access user \<and> next_h r (s, w) = Some (s', w')) \<or>
         (s' = s \<and> rw_status w' \<in> {401, 500})"
  using assms by (rule basicHandler_cases)

text \<open>A handler for concrete runs: it counts its calls and answers with status 204.\<close>

definition counting :: "nat phandler" where
  "counting r = (\<lambda>(n, w). Some (Suc n, writeHeader 204 w))"

definition demo_auth_lib :: auth_lib where
  "demo_auth_lib = \<lparr>al_compare = (\<lambda>p h. h = ''$2a$'' @ p), al_generate = (\<lambda>p. Some (''$2a$'' @ p)),
     al_yaml = (\<lambda>b. None), al_url = (\<lambda>p u. Some u)\<rparr>"

definition demo_controller :: auth_controller where
  "demo_controller = (newAuthBasicFile [] [] \<lparr>af_stat = None, af_open = None\<rparr>)\<lparr>ac_conf :=
     demo_auth\<lparr>ac_acls := [\<lparr>acl_repo = ''*'', acl_access = [AuthRead], acl_members = [''alice''], acl_anonymous = False\<rparr>]\<rparr>\<rparr>"

definition alice_request :: request where
  "alice_request = \<lparr>rq_method = ''GET'', rq_path = ''/v2/'', rq_query = [], rq_header = fmempty, rq_body = [],
     rq_body_fail = False, rq_contentLength = 0, rq_remoteAddr = [], rq_basic = Some (''alice'', ''pw'')\<rparr>"

lemma demo_basic_run:
  "basicHandler L demo_auth_lib f 0 ''r'' AuthRead counting alice_request ((demo_controller, 0), new_rw) =
     Some ((demo_controller, 1), writeHeader 204 new_rw)"
  by (simp add: basicHandler_def getConf_def demo_controller_def newAuthBasicFile_def newAuthController_def
      demo_auth_def basic_user_def alice_request_def checkCreds_def passValidate_def has_prefix_def
      demo_auth_lib_def checkAccess_def acl_step_def acl_matches_def has_suffix_def acl_user_def
      acl_grants_def lift_auth_def counting_def)

theorem basicHandler_guards_witness:
  "basicHandler demo_lib demo_auth_lib \<lparr>af_stat = None, af_open = None\<rparr> 0 ''r'' AuthRead counting alice_request
     ((demo_controller, 0), new_rw) = Some ((demo_controller, 1), writeHeader 204 new_rw) \<and>
   (\<exists>user. basic_user demo_auth_lib (ac_conf demo_controller) alice_request = Some (Some user) \<and>
      checkAccess (ac_conf demo_controller) ''r'' AuthRead user)"
  using basicHandler_guards [OF _ demo_basic_run [of demo_lib "\<lparr>af_stat = None, af_open = None\<rparr>"]] demo_basic_run
  by auto

section \<open>The lifetime of a token\<close>

text \<open>What may happen to the controller between two requests.\<close>

datatype auth_event =
    EvPoll auth_file
  | EvGenerate auth_file "string option" request
  | EvCleanup

fun auth_step :: "lib \<Rightarrow> auth_lib \<Rightarrow> time \<times> auth_event \<Rightarrow> auth_controller \<Rightarrow> auth_controller" where
  "auth_step L A (t, EvPoll f) ac = snd (getConf L A f t ac)"
| "auth_step L A (t, EvGenerate f rand r) ac =
     (case tokenOpaqueGenerate L A f t rand r (ac, new_rw) of None \<Rightarrow> ac | Some (ac', _) \<Rightarrow> ac')"
| "auth_step L A (t, EvCleanup) ac = cleanup_round t ac"

text \<open>The event does not draw the token again.\<close>

fun draws :: "string \<Rightarrow> auth_event \<Rightarrow> bool" where
  "draws token (EvGenerate f rand r) \<longleftrightarrow> rand = Some token"
| "draws token _ \<longleftrightarrow> False"

lemma getConf_opaque [simp]: "ac_opaque (snd (getConf L A f now ac)) = ac_opaque ac"
  by (auto simp: getConf_def Let_def split: option.splits)

lemma generate_opaque:
  assumes "tokenOpaqueGenerate L A f now rand r (ac, w) = Some (ac', w')" and "rand \<noteq> Some token"
  shows "fmlookup (ac_opaque ac') token = fmlookup (ac_opaque ac) token"
proof -
  obtain ce ac1 where get: "getConf L A f now ac = (ce, ac1)" by (cases "getConf L A f now ac")
  then have "ac_opaque ac1 = ac_opaque ac" using getConf_opaque [of L A f now ac] by simp
  then show ?thesis
    using assms get
    by (auto simp: tokenOpaqueGenerate_def tokenOpaqueCleanup_def Let_def split: if_splits prod.splits option.splits)
qed

lemma cleanup_opaque:
  "fmlookup (ac_opaque (cleanup_round t ac)) token =
     (case fmlookup (ac_opaque ac) token of
        Some ato \<Rightarrow> if t - at_expires ato > 0 then None else Some ato
      | None \<Rightarrow> None)"
proof -
  let ?del = "ffilter (\<lambda>t'. case fmlookup (ac_opaque ac) t' of Some ato \<Rightarrow> t - at_expires ato > 0 | None \<Rightarrow> False)
                      (fmdom (ac_opaque ac))"
  have del: "token |\<in>| ?del \<longleftrightarrow>
      (\<exists>ato. fmlookup (ac_opaque ac) token = Some ato \<and> t - at_expires ato > 0)"
    by (auto split: option.splits intro: fmdomI)
  show ?thesis
  proof (cases "?del = {||}")
    case True
    then have "token |\<notin>| ?del" by simp
    with True del show ?thesis by (auto simp: cleanup_round_def split: option.splits)
  next
    case False
    then have "ac_opaque (cleanup_round t ac) = fmfilter (\<lambda>t. t |\<notin>| ?del) (ac_opaque ac)"
      by (simp add: cleanup_round_def Let_def)
    then show ?thesis using del by (auto split: option.splits)
  qed
qed

definition token_kept :: "time \<Rightarrow> string \<Rightarrow> auth_token \<Rightarrow> auth_controller \<Rightarrow> bool" where
  "token_kept now token ato ac \<longleftrightarrow>
     fmlookup (ac_opaque ac) token \<in> {None, Some ato} \<and>
     (now \<le> at_expires ato \<longrightarrow> fmlookup (ac_opaque ac) token = Some ato)"

lemma auth_step_token:
  assumes "token_kept now token ato ac" and "t \<le> now" and "\<not> draws token e"
  shows "token_kept now token ato (auth_step L A (t, e) ac)"
proof (cases e)
  case (EvGenerate f rand r)
  then show ?thesis
    using assms by (auto simp: token_kept_def split: option.splits dest!: generate_opaque [where token = token])
qed (use assms in \<open>auto simp: token_kept_def cleanup_opaque split: option.splits\<close>)

lemma auth_steps_token:
  "token_kept now token ato ac \<Longrightarrow> \<forall>(t, e)\<in>set evs. t \<le> now \<and> \<not> draws token e \<Longrightarrow>
     token_kept now token ato (fold (auth_step L A) evs ac)"
  by (induction evs arbitrary: ac) (auto intro: auth_step_token)

text \<open>
  C35: A token stands for its user from the moment it was generated until \<open>tokenExpire\<close> later, through
  every sequence of polls, of other tokens generated and of rounds of the cleanup job, and for
  nobody afterwards.
\<close>

theorem token_lifetime:
  assumes gen: "tokenOpaqueGenerate L A f t0 (Some token) r (ac0, w) = Some (ac1, w')"
    and ok: "rw_sent w = None" "rw_status w' = 200"
    and evs: "\<forall>(t, e)\<in>set evs. t \<le> now \<and> \<not> draws token e"
  shows "\<exists>user. basic_user A (ac_conf ac1) r = Some (Some user) \<and>
           token_user now (fold (auth_step L A) evs ac1) token = (if now \<le> t0 + tokenExpire then user else [])"
proof -
  obtain ce ac' where get: "getConf L A f t0 ac0 = (ce, ac')" by (cases "getConf L A f t0 ac0")
  then have conf: "fst ce = ac_conf ac'"
    by (auto simp: getConf_def Let_def split: if_splits option.splits)
  obtain user where user: "basic_user A (ac_conf ac1) r = Some (Some user)"
    and tok: "fmlookup (ac_opaque ac1) token = Some \<lparr>at_user = user, at_expires = t0 + tokenExpire\<rparr>"
    using gen ok get conf
    by (auto simp: tokenOpaqueGenerate_def tokenOpaqueCleanup_def Let_def rw_status_def
        split: if_splits prod.splits option.splits)
  let ?ato = "\<lparr>at_user = user, at_expires = t0 + tokenExpire\<rparr>"
  have "token_kept now token ?ato ac1" using tok by (simp add: token_kept_def)
  then have "token_kept now token ?ato (fold (auth_step L A) evs ac1)" using evs by (rule auth_steps_token)
  then show ?thesis using user by (auto simp: token_kept_def token_user_def)
qed

theorem token_lifetime_witness:
  "\<exists>ac1 w'. tokenOpaqueGenerate demo_lib demo_auth_lib \<lparr>af_stat = None, af_open = None\<rparr> 0 (Some ''tok'')
       alice_request (demo_controller, new_rw) = Some (ac1, w') \<and>
     token_user 7 (auth_step demo_lib demo_auth_lib (5, EvCleanup) ac1) ''tok'' = ''alice'' \<and>
     token_user (tokenExpire + 1) (auth_step demo_lib demo_auth_lib (5, EvCleanup) ac1) ''tok'' = []"
proof -
  let ?f = "\<lparr>af_stat = None, af_open = None\<rparr> :: auth_file"
  let ?run = "tokenOpaqueGenerate demo_lib demo_auth_lib ?f 0 (Some ''tok'') alice_request (demo_controller, new_rw)"
  have user: "basic_user demo_auth_lib (ac_conf demo_controller) alice_request = Some (Some ''alice'')"
    by (simp add: demo_controller_def demo_auth_def basic_user_def alice_request_def checkCreds_def
        passValidate_def has_prefix_def demo_auth_lib_def)
  have get: "getConf demo_lib demo_auth_lib ?f 0 demo_controller = ((ac_conf demo_controller, None), demo_controller)"
    by (simp add: getConf_def demo_controller_def newAuthBasicFile_def newAuthController_def)
  have svc: "query_get alice_request ''service'' = ac_service demo_controller" "rq_method alice_request = ''GET''"
    by (simp_all add: query_get_def query_values_def alice_request_def demo_controller_def newAuthBasicFile_def
        newAuthController_def)
  obtain ac1 w' where run: "?run = Some (ac1, w')" "rw_status w' = 200" "ac_conf ac1 = ac_conf demo_controller"
    by (simp add: tokenOpaqueGenerate_def get user svc Let_def tokenOpaqueCleanup_def rw_status_def)
  have "token_user now (auth_step demo_lib demo_auth_lib (5, EvCleanup) ac1) ''tok'' =
      (if now \<le> tokenExpire then ''alice'' else [])" if "5 \<le> now" for now
    using token_lifetime [OF run(1) _ run(2), of "[(5, EvCleanup)]" now] user run(3) that by auto
  then show ?thesis using run(1) by (auto simp: tokenExpire_def nano_minute_def nano_second_def)
qed

section \<open>Static logins\<close>

text \<open>
  What the code relies on in bcrypt.  It keys its cipher with the password, a zero byte after it, over
  and over, up to 72 bytes; a longer password is refused when the hash is made, but not when one is
  compared.  A hash has one of the known prefixes and accepts the inputs that give the key it was made
  with.
\<close>

definition bcrypt_key :: "string \<Rightarrow> string" where
  "bcrypt_key p = take 72 (concat (replicate 72 (p @ [CHR 0x00])))"

definition bcrypt_ok :: "auth_lib \<Rightarrow> bool" where
  "bcrypt_ok A \<longleftrightarrow> (\<forall>p h. al_generate A p = Some h \<longrightarrow>
     length p \<le> 72 \<and> has_prefix h ''$2a$'' \<and>
     (\<forall>q. al_compare A q h \<longleftrightarrow> bcrypt_key q = bcrypt_key p))"

text \<open>Passwords without a zero byte that leave room for the one at the end are told apart.\<close>

lemma takeWhile_take: "takeWhile P (take n xs) = take n (takeWhile P xs)"
  by (induction xs arbitrary: n) (auto simp: take_Cons split: nat.split)

lemma takeWhile_bcrypt_key: "CHR 0x00 \<notin> set p \<Longrightarrow> takeWhile (\<lambda>c. c \<noteq> CHR 0x00) (bcrypt_key p) = take 72 p"
proof -
  assume p: "CHR 0x00 \<notin> set p"
  have "concat (replicate 72 (p @ [CHR 0x00])) = p @ CHR 0x00 # concat (replicate 71 (p @ [CHR 0x00]))"
    by (simp add: numeral_eq_Suc del: replicate_Suc) (simp add: replicate_Suc)
  moreover have "takeWhile (\<lambda>c. c \<noteq> CHR 0x00) p = p" using p by (auto simp: takeWhile_eq_all_conv)
  ultimately show ?thesis using p by (auto simp: bcrypt_key_def takeWhile_take takeWhile_append dest: in_set_takeD)
qed

lemma bcrypt_key_eq_iff:
  assumes "CHR 0x00 \<notin> set p" and "CHR 0x00 \<notin> set q" and "length p < 72"
  shows "bcrypt_key q = bcrypt_key p \<longleftrightarrow> q = p"
proof
  assume "bcrypt_key q = bcrypt_key p"
  then have eq: "take 72 q = p" using takeWhile_bcrypt_key [OF assms(1)] takeWhile_bcrypt_key [OF assms(2)] assms(3) by simp
  then have "length q < 72" using assms(3) by (auto simp: min_def split: if_splits dest: arg_cong [of _ _ length])
  then show "q = p" using eq by simp
qed simp

text \<open>An instance, for concrete runs: the hash is the key.\<close>

definition bcrypt_demo_lib :: "auth_lib" where
  "bcrypt_demo_lib = demo_auth_lib\<lparr>al_compare := \<lambda>q h. h = ''$2a$'' @ bcrypt_key q,
     al_generate := \<lambda>p. if length p \<le> 72 then Some (''$2a$'' @ bcrypt_key p) else None\<rparr>"

lemma bcrypt_demo_ok: "bcrypt_ok bcrypt_demo_lib"
  by (auto simp: bcrypt_ok_def bcrypt_demo_lib_def has_prefix_def)

text \<open>The input \<open>q\<close> stands for the password of the login \<open>u\<close>.\<close>

definition static_pass :: "(string, string) fmap \<Rightarrow> string \<Rightarrow> string \<Rightarrow> bool" where
  "static_pass logins u q \<longleftrightarrow> (\<exists>p. fmlookup logins u = Some p \<and> bcrypt_key q = bcrypt_key p)"

definition static_user_ok :: "auth_lib \<Rightarrow> (string, string) fmap \<Rightarrow> (string, auth_user option) fmap \<Rightarrow> string \<Rightarrow> bool" where
  "static_user_ok A logins users u \<longleftrightarrow>
     (\<exists>x. fmlookup users u = Some (Some x) \<and> au_groups x = {||} \<and>
          (\<forall>q. passValidate A q (au_cred x) \<longleftrightarrow> static_pass logins u q))"

lemma static_users_lookup:
  assumes "bcrypt_ok A"
  shows "static_users A logins us users = Some users' \<Longrightarrow> distinct us \<Longrightarrow> set us \<subseteq> fmdom' logins \<Longrightarrow>
    (u \<in> set us \<longrightarrow> static_user_ok A logins users' u) \<and> (u \<notin> set us \<longrightarrow> fmlookup users' u = fmlookup users u)"
proof (induction us arbitrary: users)
  case (Cons v us)
  obtain p where p: "fmlookup logins v = Some p" using Cons.prems(3) by (auto simp: fmlookup_dom'_iff)
  obtain hash where hash: "al_generate A p = Some hash"
    and rest: "static_users A logins us (fmupd v (Some \<lparr>au_cred = hash, au_groups = {||}\<rparr>) users) = Some users'"
    using Cons.prems(1) p by (auto split: option.splits)
  have IH: "(u \<in> set us \<longrightarrow> static_user_ok A logins users' u) \<and>
      (u \<notin> set us \<longrightarrow> fmlookup users' u = fmlookup (fmupd v (Some \<lparr>au_cred = hash, au_groups = {||}\<rparr>) users) u)"
    by (rule Cons.IH [OF rest]) (use Cons.prems in auto)
  have "static_user_ok A logins users' v" if "u = v"
  proof -
    have "fmlookup users' v = Some (Some \<lparr>au_cred = hash, au_groups = {||}\<rparr>)"
      using IH that Cons.prems(2) by simp
    moreover have "passValidate A q hash \<longleftrightarrow> static_pass logins v q" for q
      using assms hash p by (auto simp: bcrypt_ok_def passValidate_def static_pass_def)
    ultimately show ?thesis by (simp add: static_user_ok_def)
  qed
  then show ?case using IH by auto
qed simp

lemma fold_auth_opts [simp]:
  "ac_conf (fold apply_auth_opt opts ac) = ac_conf ac" "ac_filename (fold apply_auth_opt opts ac) = ac_filename ac"
proof (induction opts arbitrary: ac)
  case (Cons p opts)
  { case 1 show ?case using Cons by (cases p) simp_all }
  { case 2 show ?case using Cons by (cases p) simp_all }
qed simp_all

text \<open>
  With static logins, a request reaches the registry exactly if it comes with the name of a login and
  its password, as far as bcrypt reads it, and needs read, write or delete access, or comes without credentials, needs
  read access, and anonymous reads are allowed.
\<close>

theorem static_logins:
  assumes "order_ok L" and "bcrypt_ok A" and "newAuthBasicStatic L A logins anon opts f = Inr ac"
    and "[] |\<notin>| fmdom logins"
  shows "(\<exists>user. basic_user A (fst (fst (getConf L A f now ac))) r = Some (Some user) \<and>
            checkAccess (fst (fst (getConf L A f now ac))) repo access user) \<longleftrightarrow>
         (if rq_basic r = None \<or> rq_basic r = Some ([], []) then anon \<and> access = AuthRead
          else access \<in> {AuthRead, AuthWrite, AuthDelete} \<and>
               (\<exists>u q. rq_basic r = Some (u, q) \<and> static_pass logins u q))"
proof -
  let ?list = "map_order L (sorted_list_of_fset (fmdom logins))"
  obtain users where users: "static_users A logins ?list fmempty = Some users"
    and conf: "ac_users (ac_conf ac) = users" "ac_acls (ac_conf ac) =
        [\<lparr>acl_repo = ''*'', acl_access = [AuthRead, AuthWrite, AuthDelete],
          acl_members = ?list, acl_anonymous = False\<rparr>] @
        (if anon then [\<lparr>acl_repo = ''*'', acl_access = [AuthRead], acl_members = [], acl_anonymous = True\<rparr>] else [])"
    and no_file: "ac_filename ac = []"
    using assms(3)
    by (auto simp: newAuthBasicStatic_def newAuthController_def newAuthConf_def Let_def split: option.splits)
  have get: "fst (fst (getConf L A f now ac)) = ac_conf ac" using no_file by (simp add: getConf_def)
  have list: "set ?list = fset (fmdom logins)" "distinct ?list"
    using assms(1) by (auto simp: order_ok_def sorted_list_of_fset.rep_eq)
  have u: "(u |\<in>| fmdom logins \<longrightarrow> static_user_ok A logins users u) \<and> (u |\<notin>| fmdom logins \<longrightarrow> fmlookup users u = None)" for u
    using static_users_lookup [OF assms(2) users list(2), of u] list(1) by (auto simp: fmdom'_alt_def)
  have creds: "checkCreds A (ac_conf ac) u q = Some (static_pass logins u q)" for u q
  proof (cases "u |\<in>| fmdom logins")
    case True
    then show ?thesis using u [of u] by (auto simp: checkCreds_def conf(1) static_user_ok_def)
  next
    case False
    then show ?thesis using u [of u] by (auto simp: checkCreds_def conf(1) fmdom_notD static_pass_def)
  qed
  have groups: "user_groups (ac_conf ac) u = {||}" for u
    using u [of u] by (cases "u |\<in>| fmdom logins") (auto simp: user_groups_def conf(1) static_user_ok_def)
  have any: "acl_matches repo (\<lparr>acl_repo = ''*'', acl_access = as, acl_members = ms, acl_anonymous = a\<rparr>)" for as ms a
    by (simp add: acl_matches_def has_suffix_def has_prefix_def)
  have access: "checkAccess (ac_conf ac) repo access u \<longleftrightarrow>
      (if u = [] then anon \<and> access = AuthRead
       else u |\<in>| fmdom logins \<and> access \<in> {AuthRead, AuthWrite, AuthDelete})" for u
    using list(1) by (auto simp: checkAccess_def conf(2) acl_step_def any acl_user_def groups acl_grants_def)
  show ?thesis
    unfolding get using assms(4)
    by (auto simp: basic_user_def creds access fmdom_notD static_pass_def split: option.splits dest: fmdomI)
qed

theorem static_logins_witness:
  "\<exists>ac. newAuthBasicStatic demo_lib bcrypt_demo_lib (fmupd ''alice'' ''pw'' fmempty) False [] \<lparr>af_stat = None, af_open = None\<rparr> = Inr ac \<and>
     (\<exists>user. basic_user bcrypt_demo_lib (fst (fst (getConf demo_lib bcrypt_demo_lib \<lparr>af_stat = None, af_open = None\<rparr> 0 ac))) alice_request = Some (Some user) \<and>
        checkAccess (fst (fst (getConf demo_lib bcrypt_demo_lib \<lparr>af_stat = None, af_open = None\<rparr> 0 ac))) ''r'' AuthWrite user)"
proof -
  obtain ac where ac: "newAuthBasicStatic demo_lib bcrypt_demo_lib (fmupd ''alice'' ''pw'' fmempty) False [] \<lparr>af_stat = None, af_open = None\<rparr> = Inr ac"
    by (simp add: newAuthBasicStatic_def demo_lib_def bcrypt_demo_lib_def sorted_list_of_fset.rep_eq Let_def)
  show ?thesis
    using static_logins [OF demo_lib_ok(3) bcrypt_demo_ok ac, of 0 alice_request "''r''" AuthWrite] ac
    by (simp add: alice_request_def static_pass_def)
qed

text \<open>
  A user whose entry in the configuration file is null makes every request with that name and a
  password panic.
\<close>

theorem null_user_panics:
  assumes "fmlookup (ac_users (fst (fst (getConf L A f now ac)))) user = Some None" and "user \<noteq> []"
  shows "basicHandler L A f now repo access next_h (r\<lparr>rq_basic := Some (user, passwd)\<rparr>) ((ac, s), w) = None"
  using assms
  by (auto simp: basicHandler_def basic_user_def checkCreds_def Let_def split: prod.splits)

theorem null_user_panics_witness:
  "basicHandler demo_lib demo_auth_lib \<lparr>af_stat = None, af_open = None\<rparr> 0 ''r'' AuthRead counting
     (alice_request\<lparr>rq_basic := Some (''bob'', ''x'')\<rparr>)
     ((demo_controller\<lparr>ac_conf := demo_auth\<lparr>ac_users := fmupd ''bob'' None fmempty\<rparr>\<rparr>, 0), new_rw) = None"
  by (rule null_user_panics) (simp_all add: getConf_def demo_controller_def newAuthBasicFile_def newAuthController_def)

end
