(* ===== verification/Router.thy ===== *)
theory Router
  imports Regex Manifest_Handlers Tag_Handler Auth Mem_Store
begin

text \<open>
  The server (\<open>olareg.go\<close>): construction, rate limit, routing by path and method, the check of the
  access, and shutdown.  The state of the server holds the store (nil after a close), the two
  caches, and the authentication that was configured.
\<close>

section \<open>Paths\<close>

text \<open>The regular expression of repository names.\<close>

definition lower_alnum :: "char \<Rightarrow> bool" where
  "lower_alnum c = (let n = of_char c :: nat in (97 \<le> n \<and> n \<le> 122) \<or> (48 \<le> n \<and> n \<le> 57))"

definition pathPart :: regex where
  "pathPart = RSeq (RPlus (RChars lower_alnum))
     (RStar (RSeq
        (RAlt (rstring ''.'') (RAlt (rstring ''_'') (RAlt (rstring ''__'') (RPlus (rstring ''-'')))))
        (RPlus (RChars lower_alnum))))"

definition rePath :: regex where
  "rePath = RSeq pathPart (RStar (RSeq (rstring ''/'') pathPart))"

text \<open>The loop of \<open>matchV2\<close> with the position in the path, the matches and the repository so far.\<close>

fun match_loop :: "string list \<Rightarrow> nat \<Rightarrow> string list \<Rightarrow> string list \<Rightarrow> string \<Rightarrow> (nat \<times> string list \<times> string) option" where
  "match_loop el i [] ms repoStr = Some (i, ms, repoStr)"
| "match_loop el i (p # ps) ms repoStr =
     (if p = ''...'' then
        let repoStr' = join_char (CHR ''/'') (take (length el - length ps - i) (drop i el))
        in match_loop el (length el - length ps) ps (ms @ [repoStr']) repoStr'
      else if p = ''*'' then match_loop el (Suc i) ps (ms @ [el ! i]) repoStr
      else if el ! i \<noteq> p then None
      else match_loop el (Suc i) ps ms repoStr)"

definition matchV2 :: "string list \<Rightarrow> string list \<Rightarrow> string list option" where
  "matchV2 el params =
     (if el ! 0 \<noteq> ''v2'' \<or> length el < length params + 1 then None
      else case match_loop el 1 params [] [] of
        None \<Rightarrow> None
      | Some (i, ms, repoStr) \<Rightarrow>
        if length el \<noteq> i then None
        else if repoStr \<noteq> [] \<and> \<not> matches rePath repoStr then None
        else Some ms)"

text \<open>The elements of the request's path, cleaned and without the outer slashes.\<close>

definition path_elements :: "string \<Rightarrow> string list" where
  "path_elements p = split_char (CHR ''/'') (trim_by (\<lambda>c. c = CHR ''/'') (path_clean (CHR ''/'' # p)))"

section \<open>Server state\<close>

record rate_entry =
  re_first :: time
  re_count :: int

datatype auth_setup = NoAuth | BasicAuth auth_controller | TokenAuth auth_controller

record 's server =
  sv_conf :: config
  sv_store :: "'s option"
  sv_refs :: referrer_cache
  sv_rate :: "(string, rate_entry) cache"
  sv_auth :: auth_setup

text \<open>\<open>New\<close>, for the store that the configured type stands for; a server without rate limit has no such cache.\<close>

definition new_server :: "config \<Rightarrow> auth_setup \<Rightarrow> (config \<Rightarrow> 's option) \<Rightarrow> 's server" where
  "new_server conf0 auth mk =
     (let conf = setDefaults conf0
      in \<lparr>sv_conf = conf, sv_store = mk conf,
          sv_refs = cache_new (ca_pageCacheExpire (c_api conf)) (ca_pageCacheLimit (c_api conf)),
          sv_rate = cache_new (10 * nano_second) 0, sv_auth = auth\<rparr>)"

definition new_mem_server ::
    "config \<Rightarrow> auth_setup \<Rightarrow> time \<Rightarrow> time \<Rightarrow> string list \<Rightarrow> backing \<Rightarrow> mem_store server" where
  "new_mem_server conf auth procTime now rand dir =
     new_server conf auth (\<lambda>conf. case cs_storeType (c_storage conf) of
       StoreMem \<Rightarrow> Some (newMem conf procTime now rand dir) | _ \<Rightarrow> None)"

text \<open>\<open>Close\<close>, with the close of the store.\<close>

definition server_close :: "('s \<Rightarrow> err option) \<Rightarrow> 's server \<Rightarrow> err option \<times> 's server" where
  "server_close close sv =
     (case sv_store sv of
        None \<Rightarrow> (Some (ErrOther ''backend store was already closed''), sv)
      | Some s \<Rightarrow> (close s, sv\<lparr>sv_store := None\<rparr>))"

section \<open>Rate limit\<close>

text \<open>The part before the first \<open>", "\<close>.\<close>

fun cut_comma :: "string \<Rightarrow> string" where
  "cut_comma [] = []"
| "cut_comma (c # cs) = (if c = CHR '','' \<and> take 1 cs = '' '' then [] else c # cut_comma cs)"

definition last_index :: "char \<Rightarrow> string \<Rightarrow> nat option" where
  "last_index c s = map_option (\<lambda>i. length s - 1 - i) (index_func (\<lambda>x. x = c) (rev s))"

definition client_ip :: "request \<Rightarrow> string" where
  "client_ip r =
     (let ip = hdr_get (rq_header r) ''X-Forwarded-For'' in
      if ip \<noteq> [] then cut_comma ip
      else case last_index (CHR '':'') (rq_remoteAddr r) of
        Some i \<Rightarrow> if i > 0 then take i (rq_remoteAddr r) else rq_remoteAddr r
      | None \<Rightarrow> rq_remoteAddr r)"

definition rate_count :: "time \<Rightarrow> string \<Rightarrow> (string, rate_entry) cache \<Rightarrow> int \<times> (string, rate_entry) cache" where
  "rate_count now ip c =
     (case cache_get now ip c of
        (Inl _, c1) \<Rightarrow>
          let limit = \<lparr>re_first = now, re_count = 1\<rparr>
          in (1, fst (cache_set now ip limit (fst (cache_set now ip limit c1))))
      | (Inr limit, c1) \<Rightarrow>
          if now - re_first limit > nano_second then
            (1, fst (cache_set now ip (limit\<lparr>re_count := 1, re_first := now\<rparr>) c1))
          else
            (re_count limit + 1, fst (cache_set now ip (limit\<lparr>re_count := re_count limit + 1\<rparr>) c1)))"

section \<open>Routing\<close>

type_synonym 's shandler = "('s \<times> referrer_cache) phandler"

definition lift_store :: "'s handler \<Rightarrow> 's shandler" where
  "lift_store h r = (\<lambda>((s, c), w). case h r (s, w) of (s', w') \<Rightarrow> Some ((s', c), w'))"

definition lift_tags :: "(request \<Rightarrow> 's \<times> response_writer \<Rightarrow> ('s \<times> response_writer) option) \<Rightarrow> 's shandler" where
  "lift_tags h r = (\<lambda>((s, c), w). map_option (\<lambda>(s', w'). ((s', c), w')) (h r (s, w)))"

definition lift_referrers :: "('s \<times> referrer_cache) handler \<Rightarrow> 's shandler" where
  "lift_referrers h r x = Some (h r x)"

definition methodNotAllowed :: "'s handler" where
  "methodNotAllowed r = (\<lambda>(s, w). (s, resp_err 405 [errInfoUnsupported ''method not allowed''] w))"

definition v2Ping :: "'s handler" where
  "v2Ping r = (\<lambda>(s, w).
     let w1 = writeHeader 200 (header_add ''Content-Length'' ''2'' (header_add ''Content-Type'' ''application/json'' w))
     in (s, if rq_method r \<noteq> ''HEAD'' then writeBody (ChunkBytes ''{}'') w1 else w1))"

definition is_get :: "request \<Rightarrow> bool" where
  "is_get r \<longleftrightarrow> rq_method r = ''GET'' \<or> rq_method r = ''HEAD''"

abbreviation deny :: "'s shandler" where
  "deny \<equiv> lift_store methodNotAllowed"

text \<open>The branches of \<open>ServeHTTP\<close>, one per kind of path: repository, access, handler.\<close>

definition route_manifests ::
    "lib \<Rightarrow> 's store_ops \<Rightarrow> config \<Rightarrow> request \<Rightarrow> string \<Rightarrow> string \<Rightarrow> string \<times> auth_access \<times> 's shandler" where
  "route_manifests L S conf r repo arg =
     (if is_get r then (repo, AuthRead, lift_store (manifestGet L S repo arg))
      else if rq_method r = ''PUT'' then
        (repo, AuthWrite, if deref (ca_pushEnabled (c_api conf)) then lift_store (manifestPut L S conf repo arg) else deny)
      else if rq_method r = ''DELETE'' then
        (repo, AuthDelete, if deref (ca_deleteEnabled (c_api conf)) then lift_store (manifestDelete L S conf repo arg) else deny)
      else (repo, AuthUnknown, deny))"

definition route_blobs ::
    "lib \<Rightarrow> 's store_ops \<Rightarrow> config \<Rightarrow> request \<Rightarrow> string \<Rightarrow> string \<Rightarrow> string \<times> auth_access \<times> 's shandler" where
  "route_blobs L S conf r repo arg =
     (if is_get r then (repo, AuthRead, lift_store (blobGet L S repo arg))
      else if rq_method r = ''DELETE'' then
        (repo, AuthDelete,
         if deref (ca_deleteEnabled (c_api conf)) \<and> deref (ca_blobDeleteEnabled (c_api conf))
         then lift_store (blobDelete L S conf repo arg) else deny)
      else if arg = ''uploads'' \<and> rq_method r = ''POST'' then
        (repo, AuthWrite, if deref (ca_pushEnabled (c_api conf)) then lift_store (blobUploadPost L S conf repo) else deny)
      else (repo, AuthUnknown, deny))"

definition route_referrers ::
    "lib \<Rightarrow> 's store_ops \<Rightarrow> config \<Rightarrow> time \<Rightarrow> request \<Rightarrow> string \<Rightarrow> string \<Rightarrow> string \<times> auth_access \<times> 's shandler" where
  "route_referrers L S conf now r repo arg =
     (if is_get r then
        (repo, AuthRead,
         if deref (ca_referrerEnabled (c_api conf)) then lift_referrers (referrerGet L S conf now repo arg) else deny)
      else (repo, AuthUnknown, deny))"

definition route_uploads ::
    "lib \<Rightarrow> 's store_ops \<Rightarrow> config \<Rightarrow> request \<Rightarrow> string \<Rightarrow> string \<Rightarrow> string \<times> auth_access \<times> 's shandler" where
  "route_uploads L S conf r repo sid =
     (repo, AuthWrite,
      if \<not> deref (ca_pushEnabled (c_api conf)) then deny
      else if rq_method r = ''PATCH'' then lift_store (blobUploadPatch L S repo sid)
      else if rq_method r = ''PUT'' then lift_store (blobUploadPut L S repo sid)
      else if rq_method r = ''GET'' then lift_store (blobUploadGet L S repo sid)
      else if rq_method r = ''DELETE'' then lift_store (blobUploadDelete S repo sid)
      else deny)"

text \<open>The whole dispatch; \<open>None\<close> is the unknown path.\<close>

definition route ::
    "lib \<Rightarrow> 's store_ops \<Rightarrow> config \<Rightarrow> time \<Rightarrow> request \<Rightarrow> string list \<Rightarrow> (string \<times> auth_access \<times> 's shandler) option" where
  "route L S conf now r el =
     (if matchV2 el [] \<noteq> None \<and> is_get r then Some ([], AuthRead, lift_store v2Ping)
      else case matchV2 el [''...'', ''manifests'', ''*''] of
        Some ms \<Rightarrow> Some (route_manifests L S conf r (ms ! 0) (ms ! 1))
      | None \<Rightarrow>
      case matchV2 el [''...'', ''blobs'', ''*''] of
        Some ms \<Rightarrow> Some (route_blobs L S conf r (ms ! 0) (ms ! 1))
      | None \<Rightarrow>
      case matchV2 el [''...'', ''referrers'', ''*''] of
        Some ms \<Rightarrow> Some (route_referrers L S conf now r (ms ! 0) (ms ! 1))
      | None \<Rightarrow>
      case (if is_get r then matchV2 el [''...'', ''tags'', ''list''] else None) of
        Some ms \<Rightarrow> Some (ms ! 0, AuthRead, lift_tags (tagList S (ms ! 0)))
      | None \<Rightarrow>
      case matchV2 el [''...'', ''blobs'', ''uploads'', ''*''] of
        Some ms \<Rightarrow> Some (route_uploads L S conf r (ms ! 0) (ms ! 1))
      | None \<Rightarrow> None)"

section \<open>Serving a request\<close>

text \<open>The wrap with the configured authentication, on the states of the store and the caches.\<close>

definition serve_auth ::
    "lib \<Rightarrow> auth_lib \<Rightarrow> auth_file \<Rightarrow> time \<Rightarrow> string \<times> auth_access \<times> 's shandler \<Rightarrow> auth_setup \<Rightarrow> request \<Rightarrow>
     ('s \<times> referrer_cache) \<times> response_writer \<Rightarrow> (auth_setup \<times> ('s \<times> referrer_cache) \<times> response_writer) option" where
  "serve_auth L A f now route_h auth r = (\<lambda>(x, w).
     case route_h of (repo, access, h) \<Rightarrow>
     (case auth of
        NoAuth \<Rightarrow> map_option (\<lambda>(x', w'). (NoAuth, x', w')) (h r (x, w))
      | BasicAuth ac \<Rightarrow>
          map_option (\<lambda>((ac', x'), w'). (BasicAuth ac', x', w'))
            (basicHandler L A f now repo access h r ((ac, x), w))
      | TokenAuth ac \<Rightarrow>
          map_option (\<lambda>((ac', x'), w'). (TokenAuth ac', x', w'))
            (tokenOpaqueHandler L A f now repo access h r ((ac, x), w))))"

definition standard_headers :: "config \<Rightarrow> response_writer \<Rightarrow> response_writer" where
  "standard_headers conf w =
     (let q = char_of (34::nat) in
      fold (\<lambda>msg. header_add ''Warning'' (''299 - '' @ q # msg @ [q])) (ca_warnings (c_api conf))
        (header_set ''Docker-Distribution-API-Version'' ''registry/2.0'' w))"

text \<open>The part of \<open>ServeHTTP\<close> after the rate limit.\<close>

definition dispatch ::
    "lib \<Rightarrow> 's store_ops \<Rightarrow> auth_lib \<Rightarrow> auth_file \<Rightarrow> string option \<Rightarrow> time \<Rightarrow> request \<Rightarrow> string list \<Rightarrow>
     's server \<Rightarrow> 's \<Rightarrow> response_writer \<Rightarrow> ('s server \<times> response_writer) option" where
  "dispatch L S A f rand now r el sv s w =
     (case route L S (sv_conf sv) now r el of
        Some route_h \<Rightarrow>
          map_option (\<lambda>(auth', (s', c'), w'). (sv\<lparr>sv_auth := auth', sv_store := Some s', sv_refs := c'\<rparr>, w'))
            (serve_auth L A f now route_h (sv_auth sv) r ((s, sv_refs sv), w))
      | None \<Rightarrow>
        (case (sv_auth sv, el = [''token'']) of
           (TokenAuth ac, True) \<Rightarrow>
             map_option (\<lambda>(ac', w'). (sv\<lparr>sv_auth := TokenAuth ac'\<rparr>, w'))
               (tokenOpaqueGenerate L A f now rand r (ac, w))
         | _ \<Rightarrow> Some (sv, writeHeader 404 w)))"

definition serveHTTP ::
    "lib \<Rightarrow> 's store_ops \<Rightarrow> auth_lib \<Rightarrow> auth_file \<Rightarrow> string option \<Rightarrow> time \<Rightarrow> request \<Rightarrow>
     's server \<Rightarrow> response_writer \<Rightarrow> ('s server \<times> response_writer) option" where
  "serveHTTP L S A f rand now r sv w =
     (case sv_store sv of
        None \<Rightarrow> Some (sv, writeHeader 500 w)
      | Some s \<Rightarrow>
        let el = path_elements (rq_path r);
            w1 = standard_headers (sv_conf sv) w;
            limit = ca_rateLimit (c_api (sv_conf sv)) in
        if limit > 0 then
          (case rate_count now (client_ip r) (sv_rate sv) of
             (count, c) \<Rightarrow>
               let sv1 = sv\<lparr>sv_rate := c\<rparr> in
               if count > limit then Some (sv1, writeHeader 429 (header_add ''Retry-After'' ''1'' w1))
               else dispatch L S A f rand now r el sv1 s w1)
        else dispatch L S A f rand now r el sv s w1)"

section \<open>Repository names\<close>

definition part_char :: "char \<Rightarrow> bool" where
  "part_char c \<longleftrightarrow> lower_alnum c \<or> c \<in> {CHR ''.'', CHR ''_'', CHR ''-''}"

text \<open>A part of a repository name: its characters, and that it begins with a letter or digit.\<close>

definition name_part :: "string \<Rightarrow> bool" where
  "name_part s \<longleftrightarrow> s \<noteq> [] \<and> lower_alnum (hd s) \<and> list_all part_char s"

lemma lower_alnum_special [simp]:
  "\<not> lower_alnum (CHR ''.'')" "\<not> lower_alnum (CHR ''/'')" "\<not> part_char (CHR ''/'')"
  by (simp_all add: lower_alnum_def part_char_def)

lemma name_part_proper: "name_part s \<Longrightarrow> proper_seg s"
  by (auto simp: name_part_def proper_seg_def list_all_iff)

lemma plus_hd: "in_lang (RPlus (RChars p)) s \<Longrightarrow> s \<noteq> [] \<and> p (hd s)"
  by (auto elim!: in_lang_SeqE)

lemma pathPart_name: "in_lang pathPart s \<Longrightarrow> name_part s"
proof -
  assume s: "in_lang pathPart s"
  have "chars_in part_char pathPart"
    by (simp add: pathPart_def part_char_def)
  then have "list_all part_char s" using in_lang_chars [OF s, of part_char] by (auto simp: list_all_iff)
  moreover obtain u v where "s = u @ v" "in_lang (RPlus (RChars lower_alnum)) u"
    using s unfolding pathPart_def by (auto elim!: in_lang_SeqE [where r = "RPlus (RChars lower_alnum)"])
  ultimately show ?thesis using plus_hd [of lower_alnum u] by (simp add: name_part_def)
qed

lemma slash_part:
  assumes "in_lang (RSeq (rstring ''/'') pathPart) s"
  obtains p where "s = CHR ''/'' # p" "in_lang pathPart p"
proof -
  obtain u p where "s = u @ p" "in_lang (rstring ''/'') u" "in_lang pathPart p"
    using assms by (rule in_lang_SeqE)
  moreover from this have "u = ''/''" by (auto elim!: in_lang_SeqE)
  ultimately show ?thesis using that by simp
qed

lemma name_part_no_slash: "name_part s \<Longrightarrow> CHR ''/'' \<notin> set s"
  using name_part_proper by (auto simp: proper_seg_def)

lemma rePath_tail:
  "in_lang (RStar (RSeq (rstring ''/'') pathPart)) s \<Longrightarrow> name_part u \<Longrightarrow>
     \<forall>seg\<in>set (split_char (CHR ''/'') (u @ s)). name_part seg"
proof (induction "RStar (RSeq (rstring ''/'') pathPart)" s arbitrary: u rule: in_lang.induct)
  case star_empty
  then show ?case using name_part_no_slash by (simp add: split_char_free)
next
  case (star_step s t)
  then obtain p where p: "s = CHR ''/'' # p" "in_lang pathPart p"
    using slash_part by blast
  have "split_char (CHR ''/'') (u @ s @ t) = u # split_char (CHR ''/'') (p @ t)"
    using star_step.prems name_part_no_slash p by (simp add: split_char_append)
  moreover have "\<forall>seg\<in>set (split_char (CHR ''/'') (p @ t)). name_part seg"
    using star_step.hyps(3) [OF pathPart_name [OF p(2)]] by simp
  ultimately show ?case using star_step.prems by (simp del: rstring.simps)
qed

lemma rePath_parts:
  assumes "matches rePath repo"
  shows "\<forall>seg\<in>set (split_char (CHR ''/'') repo). name_part seg"
proof -
  obtain u v where "repo = u @ v" "in_lang pathPart u" "in_lang (RStar (RSeq (rstring ''/'') pathPart)) v"
    using assms unfolding matches_iff rePath_def by (auto elim!: in_lang_SeqE [where r = pathPart])
  then show ?thesis using rePath_tail pathPart_name by blast
qed

section \<open>The match of a path\<close>

text \<open>A pattern without a repository against the elements at its place, and what it captures.\<close>

fun fits :: "string list \<Rightarrow> string list \<Rightarrow> bool" where
  "fits [] xs \<longleftrightarrow> xs = []"
| "fits (p # ps) [] \<longleftrightarrow> False"
| "fits (p # ps) (x # xs) \<longleftrightarrow> (p = ''*'' \<or> x = p) \<and> fits ps xs"

fun captures :: "string list \<Rightarrow> string list \<Rightarrow> string list" where
  "captures (p # ps) (x # xs) = (if p = ''*'' then x # captures ps xs else captures ps xs)"
| "captures _ _ = []"

lemma fits_length: "fits ps xs \<Longrightarrow> length xs = length ps"
  by (induction ps xs rule: fits.induct) auto

lemma match_loop_fits:
  "''...'' \<notin> set ps \<Longrightarrow> i + length ps = length el \<Longrightarrow>
     match_loop el i ps ms repoStr =
       (if fits ps (drop i el) then Some (length el, ms @ captures ps (drop i el), repoStr) else None)"
proof (induction ps arbitrary: i ms)
  case (Cons p ps)
  then have i: "i < length el" by simp
  then have d: "drop i el = el ! i # drop (Suc i) el" by (rule Cons_nth_drop_Suc [symmetric])
  show ?case
    unfolding d using Cons by (auto simp: Cons.IH)
qed simp

lemma matchV2_repo:
  assumes "''...'' \<notin> set ps" and "el \<noteq> []"
  shows "matchV2 el (''...'' # ps) = Some ms \<longleftrightarrow>
     (\<exists>segs xs. segs \<noteq> [] \<and> el = ''v2'' # segs @ xs \<and> fits ps xs \<and>
        ms = join_char (CHR ''/'') segs # captures ps xs \<and>
        (join_char (CHR ''/'') segs = [] \<or> matches rePath (join_char (CHR ''/'') segs)))"
proof
  let ?n = "length el - length ps"
  let ?segs = "take (?n - 1) (drop 1 el)"
  assume m: "matchV2 el (''...'' # ps) = Some ms"
  then have el: "el ! 0 = ''v2''" "length ps + 2 \<le> length el" by (auto simp: matchV2_def split: if_splits)
  have loop: "match_loop el 1 (''...'' # ps) [] [] =
      (if fits ps (drop ?n el) then Some (length el, join_char (CHR ''/'') ?segs # captures ps (drop ?n el),
         join_char (CHR ''/'') ?segs) else None)"
    using match_loop_fits [OF assms(1), of ?n el "[join_char (CHR ''/'') ?segs]"] el(2) by (simp add: Let_def)
  have "el = ''v2'' # drop 1 el" using el(1) assms(2) by (cases el) auto
  also have "drop 1 el = ?segs @ drop ?n el"
    using el(2) append_take_drop_id [of "?n - 1" "drop 1 el"] by (simp add: Suc_diff_Suc)
  finally have "el = ''v2'' # ?segs @ drop ?n el" .
  moreover have "?segs \<noteq> []" using el(2) by (simp add: Suc_le_eq)
  ultimately show "\<exists>segs xs. segs \<noteq> [] \<and> el = ''v2'' # segs @ xs \<and> fits ps xs \<and>
        ms = join_char (CHR ''/'') segs # captures ps xs \<and>
        (join_char (CHR ''/'') segs = [] \<or> matches rePath (join_char (CHR ''/'') segs))"
    using m el loop by (intro exI [of _ ?segs] exI [of _ "drop ?n el"]) (auto simp: matchV2_def split: if_splits)
next
  assume "\<exists>segs xs. segs \<noteq> [] \<and> el = ''v2'' # segs @ xs \<and> fits ps xs \<and>
        ms = join_char (CHR ''/'') segs # captures ps xs \<and>
        (join_char (CHR ''/'') segs = [] \<or> matches rePath (join_char (CHR ''/'') segs))"
  then obtain segs xs where segs: "segs \<noteq> []" and el: "el = ''v2'' # segs @ xs" and fit: "fits ps xs"
    and ms: "ms = join_char (CHR ''/'') segs # captures ps xs"
    and re: "join_char (CHR ''/'') segs = [] \<or> matches rePath (join_char (CHR ''/'') segs)"
    by blast
  have "match_loop el (Suc (length segs)) ps [join_char (CHR ''/'') segs] (join_char (CHR ''/'') segs) =
      Some (length el, ms, join_char (CHR ''/'') segs)"
    using match_loop_fits [OF assms(1), of "Suc (length segs)" el] fits_length [OF fit] el fit ms by simp
  then have "match_loop el 1 (''...'' # ps) [] [] = Some (length el, ms, join_char (CHR ''/'') segs)"
    using fits_length [OF fit] el by (simp add: Let_def)
  then show "matchV2 el (''...'' # ps) = Some ms"
    using fits_length [OF fit] el segs re by (cases segs) (auto simp: matchV2_def)
qed

lemma path_elements_not_Nil [simp]: "path_elements p \<noteq> []"
  by (simp add: path_elements_def)

lemma trim_slash:
  assumes "list_all proper_seg segs"
  shows "trim_by (\<lambda>c. c = CHR ''/'') (CHR ''/'' # join_char (CHR ''/'') segs) = join_char (CHR ''/'') segs"
proof (cases "segs = []")
  case False
  have hd: "join_char (CHR ''/'') segs \<noteq> [] \<and> hd (join_char (CHR ''/'') segs) \<noteq> CHR ''/'' \<and>
      last (join_char (CHR ''/'') segs) \<noteq> CHR ''/''"
    using assms False
  proof (induction "CHR ''/''" segs rule: join_char.induct)
    case (2 x)
    then have "x \<noteq> []" "CHR ''/'' \<notin> set x" by (auto simp: proper_seg_def)
    then show ?case using hd_in_set [of x] last_in_set [of x] by (metis join_char.simps(2))
  next
    case (3 x y ys)
    then have "x \<noteq> []" "CHR ''/'' \<notin> set x" by (auto simp: proper_seg_def)
    moreover have "hd x \<noteq> CHR ''/''" using calculation hd_in_set [of x] by metis
    ultimately show ?case using 3 by simp
  qed simp
  let ?j = "join_char (CHR ''/'') segs"
  have "dropWhile (\<lambda>c. c = CHR ''/'') ?j = ?j" "dropWhile (\<lambda>c. c = CHR ''/'') (rev ?j) = rev ?j"
    using hd by (simp_all add: dropWhile_eq_self_iff hd_rev)
  then show ?thesis by (simp add: trim_by_def)
qed (simp add: trim_by_def)

text \<open>The elements are those of the cleaned path: proper, or the single empty one of the root.\<close>

lemma path_elements_proper:
  "path_elements p = [[]] \<or> list_all proper_seg (path_elements p)"
proof -
  let ?segs = "clean_segs [] (split_char (CHR ''/'') (CHR ''/'' # p))"
  have proper: "list_all proper_seg ?segs"
    using clean_segs_proper [of "[]" "split_char (CHR ''/'') (CHR ''/'' # p)"] split_char_parts_free
    by (fastforce simp: list_all_iff)
  then have "path_elements p = split_char (CHR ''/'') (join_char (CHR ''/'') ?segs)"
    unfolding path_elements_def path_clean_def by (simp only: trim_slash)
  moreover have "split_char (CHR ''/'') (join_char (CHR ''/'') ?segs) = ?segs" if "?segs \<noteq> []"
    using that proper by (intro split_join_char) (auto simp: list_all_iff proper_seg_def)
  ultimately show ?thesis using proper by (cases "?segs = []") auto
qed

lemma dots_not_in [simp]:
  "''...'' \<notin> set [''manifests'', ''*'']" "''...'' \<notin> set [''blobs'', ''*'']" "''...'' \<notin> set [''referrers'', ''*'']"
  "''...'' \<notin> set [''tags'', ''list'']" "''...'' \<notin> set [''blobs'', ''uploads'', ''*'']"
  by simp_all

lemma route_cases:
  assumes "route L S conf now r el = Some (repo, access, h)"
  obtains (ping) "matchV2 el [] \<noteq> None" "is_get r" "repo = []" "access = AuthRead" "h = lift_store v2Ping"
  | (manifests) ms where "matchV2 el [''...'', ''manifests'', ''*''] = Some ms"
      "(repo, access, h) = route_manifests L S conf r (ms ! 0) (ms ! 1)"
  | (blobs) ms where "matchV2 el [''...'', ''blobs'', ''*''] = Some ms"
      "(repo, access, h) = route_blobs L S conf r (ms ! 0) (ms ! 1)"
  | (referrers) ms where "matchV2 el [''...'', ''referrers'', ''*''] = Some ms"
      "(repo, access, h) = route_referrers L S conf now r (ms ! 0) (ms ! 1)"
  | (tags) ms where "matchV2 el [''...'', ''tags'', ''list''] = Some ms"
      "repo = ms ! 0" "access = AuthRead" "h = lift_tags (tagList S (ms ! 0))"
  | (uploads) ms where "matchV2 el [''...'', ''blobs'', ''uploads'', ''*''] = Some ms"
      "(repo, access, h) = route_uploads L S conf r (ms ! 0) (ms ! 1)"
  using assms by (auto simp: route_def split: if_splits option.splits)

lemma route_branch_repo:
  "(repo, access, h) = route_manifests L S conf r repo' arg \<Longrightarrow> repo = repo'"
  "(repo, access, h) = route_blobs L S conf r repo' arg \<Longrightarrow> repo = repo'"
  "(repo, access, h) = route_referrers L S conf now r repo' arg \<Longrightarrow> repo = repo'"
  "(repo, access, h) = route_uploads L S conf r repo' arg \<Longrightarrow> repo = repo'"
  by (auto simp: route_manifests_def route_blobs_def route_referrers_def route_uploads_def split: if_splits)

lemma route_matched:
  assumes "route L S conf now r el = Some (repo, access, h)"
  shows "matchV2 el [] \<noteq> None \<and> repo = [] \<and> access = AuthRead \<or>
    (\<exists>ps ms. ''...'' \<notin> set ps \<and> matchV2 el (''...'' # ps) = Some ms \<and> repo = ms ! 0)"
  using assms
proof (cases rule: route_cases)
  case (manifests ms)
  then show ?thesis using route_branch_repo(1) dots_not_in(1) by blast
next
  case (blobs ms)
  then show ?thesis using route_branch_repo(2) dots_not_in(2) by blast
next
  case (referrers ms)
  then show ?thesis using route_branch_repo(3) dots_not_in(3) by blast
next
  case (tags ms)
  then show ?thesis using dots_not_in(4) by blast
next
  case (uploads ms)
  then show ?thesis using route_branch_repo(4) dots_not_in(5) by blast
qed simp

lemma join_proper_not_Nil: "list_all proper_seg segs \<Longrightarrow> segs \<noteq> [] \<Longrightarrow> join_char c segs \<noteq> []"
  by (induction c segs rule: join_char.induct) (auto simp: proper_seg_def)

text \<open>
  C37: A request reaches a handler only with a repository name that the name grammar accepts and that
  is the part of the cleaned path after \<open>v2\<close>: each of its elements begins with a letter or digit and
  has no slash, so none is empty or a step to a parent directory.  The one exception is the ping.
\<close>

theorem route_repo_name:
  assumes "route L S conf now r (path_elements p) = Some (repo, access, h)"
  shows "path_elements p = [''v2''] \<and> repo = [] \<and> access = AuthRead \<or>
    matches rePath repo \<and> (\<exists>rest. path_elements p = ''v2'' # split_char (CHR ''/'') repo @ rest) \<and>
    (\<forall>seg\<in>set (split_char (CHR ''/'') repo). name_part seg \<and> proper_seg seg)"
  using route_matched [OF assms]
proof (elim disjE exE conjE)
  assume "matchV2 (path_elements p) [] \<noteq> None" "repo = []" "access = AuthRead"
  then show ?thesis by (cases "path_elements p") (auto simp: matchV2_def split: if_splits)
next
  fix ps ms
  assume ps: "''...'' \<notin> set ps" and m: "matchV2 (path_elements p) (''...'' # ps) = Some ms" and repo: "repo = ms ! 0"
  obtain segs xs where segs: "segs \<noteq> []" "path_elements p = ''v2'' # segs @ xs"
      "ms = join_char (CHR ''/'') segs # captures ps xs"
      "join_char (CHR ''/'') segs = [] \<or> matches rePath (join_char (CHR ''/'') segs)"
    using m matchV2_repo [OF ps path_elements_not_Nil] by blast
  have proper: "list_all proper_seg segs"
    using path_elements_proper [of p] segs(1,2) by auto
  then have "split_char (CHR ''/'') repo = segs"
    using repo segs(1,3) by (auto intro!: split_join_char simp: list_all_iff proper_seg_def)
  moreover have re: "matches rePath repo"
    using segs repo join_proper_not_Nil [OF proper segs(1)] by auto
  moreover have "\<forall>seg\<in>set (split_char (CHR ''/'') repo). name_part seg \<and> proper_seg seg"
    using rePath_parts [OF re] name_part_proper by blast
  ultimately show ?thesis using segs(2) by auto
qed

lemma matchV2_code: "matchV2 [''v2'', ''a'', ''manifests'', ''v1''] [''...'', ''manifests'', ''*''] = Some [''a'', ''v1'']"
  by (simp add: matchV2_def Let_def matches_def rePath_def pathPart_def lower_alnum_def)

theorem route_repo_name_witness:
  "\<exists>h. route demo_lib (mem_ops demo_lib) demo_conf 0 alice_request (path_elements ''/v2/x/../a//manifests/v1'') =
         Some (''a'', AuthRead, h) \<and> matches rePath ''a'' \<and> name_part ''a''"
proof -
  have el: "path_elements ''/v2/x/../a//manifests/v1'' = [''v2'', ''a'', ''manifests'', ''v1'']"
    by (simp add: path_elements_def path_clean_def trim_by_def)
  have "is_get alice_request" by (simp add: is_get_def alice_request_def)
  then have "route demo_lib (mem_ops demo_lib) demo_conf 0 alice_request (path_elements ''/v2/x/../a//manifests/v1'') =
      Some (''a'', AuthRead, lift_store (manifestGet demo_lib (mem_ops demo_lib) ''a'' ''v1''))"
    unfolding el by (simp add: route_def matchV2_code route_manifests_def) (simp add: matchV2_def)
  from route_repo_name [OF this] show ?thesis
    using \<open>route _ _ _ _ _ _ = _\<close> by (auto simp: el)
qed

section \<open>Requests and the store\<close>

lemma lift_storeD: "lift_store h r ((s, c), w) = Some ((s', c'), w') \<Longrightarrow> c' = c \<and> (s', w') = h r (s, w)"
  by (auto simp: lift_store_def split: prod.splits)

context store_invariant
begin

text \<open>A handler that keeps the invariant.\<close>

definition keeps :: "'s shandler \<Rightarrow> bool" where
  "keeps h \<longleftrightarrow> (\<forall>r s c w s' c' w'. P s \<longrightarrow> h r ((s, c), w) = Some ((s', c'), w') \<longrightarrow> P s')"

lemma keepsD: "keeps h \<Longrightarrow> h r ((s, c), w) = Some ((s', c'), w') \<Longrightarrow> P s \<Longrightarrow> P s'"
  unfolding keeps_def by blast

lemma keeps_lift_store: "(\<And>r s w. P s \<Longrightarrow> P (fst (h r (s, w)))) \<Longrightarrow> keeps (lift_store h)"
  unfolding keeps_def by (metis fst_conv lift_storeD)

lemma keeps_lift_tags: "keeps (lift_tags (tagList S repo))"
  by (auto simp: keeps_def lift_tags_def dest: keep_tagList)

lemma keeps_lift_referrers: "keeps (lift_referrers (referrerGet L S conf now repo arg))"
  unfolding keeps_def lift_referrers_def by (metis fst_conv keep_referrerGet option.inject)

lemma keeps_deny: "keeps deny" "keeps (lift_store v2Ping)"
  by (rule keeps_lift_store; simp add: methodNotAllowed_def v2Ping_def Let_def)+

lemma keeps_handlers:
  "keeps (lift_store (manifestGet L S repo arg))" "keeps (lift_store (manifestPut L S conf repo arg))"
  "keeps (lift_store (manifestDelete L S conf repo arg))" "keeps (lift_store (blobGet L S repo arg))"
  "keeps (lift_store (blobDelete L S conf repo arg))" "keeps (lift_store (blobUploadPost L S conf repo))"
  "keeps (lift_store (blobUploadPatch L S repo sid))" "keeps (lift_store (blobUploadPut L S repo sid))"
  "keeps (lift_store (blobUploadGet L S repo sid))" "keeps (lift_store (blobUploadDelete S repo sid))"
  by (rule keeps_lift_store, erule keep_manifestGet keep_manifestPut keep_manifestDelete keep_blobGet_handler
      keep_blobDelete_handler keep_blobUploadPost keep_blobUploadPatch keep_blobUploadPut
      keep_blobUploadGet keep_blobUploadDelete)+

lemma keeps_route: "route L S conf now r el = Some (repo, access, h) \<Longrightarrow> keeps h"
  by (cases rule: route_cases)
    (auto simp: route_manifests_def route_blobs_def route_referrers_def route_uploads_def
      intro: keeps_handlers keeps_deny keeps_lift_tags keeps_lift_referrers split: if_splits)

lemma keep_lift_auth:
  "keeps h \<Longrightarrow> P s \<Longrightarrow> lift_auth h ac r ((ac0, s, c), w) = Some ((ac', s', c'), w') \<Longrightarrow> P s'"
  by (auto simp: lift_auth_def dest: keepsD)

lemma keep_serve_auth:
  assumes "keeps h" and "P s"
    and "serve_auth L A f now (repo, access, h) auth r ((s, c), w) = Some (auth', (s', c'), w')"
  shows "P s'"
proof (cases auth)
  case NoAuth
  then show ?thesis using assms by (auto simp: serve_auth_def dest: keepsD)
next
  case (BasicAuth ac)
  then show ?thesis
    using assms by (auto simp: serve_auth_def basicHandler_def Let_def
        split: prod.splits option.splits if_splits dest: keep_lift_auth)
next
  case (TokenAuth ac)
  then show ?thesis
    using assms by (auto simp: serve_auth_def tokenOpaqueHandler_def Let_def
        split: prod.splits option.splits if_splits dest: keep_lift_auth)
qed

lemma keep_dispatch:
  assumes "P s" and "sv_store sv = Some s" and "dispatch L S A f rand now r el sv s w = Some (sv', w')"
  shows "\<exists>s'. sv_store sv' = Some s' \<and> P s'"
proof (cases "route L S (sv_conf sv) now r el")
  case None
  then show ?thesis
    using assms by (auto simp: dispatch_def split: auth_setup.splits bool.splits)
next
  case (Some rh)
  obtain repo access h where rh: "rh = (repo, access, h)" by (cases rh)
  obtain auth' s' c' where "serve_auth L A f now rh (sv_auth sv) r ((s, sv_refs sv), w) = Some (auth', (s', c'), w')"
    "sv' = sv\<lparr>sv_auth := auth', sv_store := Some s', sv_refs := c'\<rparr>"
    using assms(3) Some by (auto simp: dispatch_def)
  then show ?thesis using keep_serve_auth keeps_route Some rh assms(1) by fastforce
qed

text \<open>The invariant of a store holds after every request.\<close>

lemma keep_serveHTTP:
  assumes "sv_store sv = Some s" and "P s" and "serveHTTP L S A f rand now r sv w = Some (sv', w')"
  shows "\<exists>s'. sv_store sv' = Some s' \<and> P s'"
proof -
  have "\<exists>s'. sv_store sv' = Some s' \<and> P s'"
    if "dispatch L S A f rand now r el (sv\<lparr>sv_rate := c\<rparr>) s w1 = Some (sv', w')" for el c w1
    by (rule keep_dispatch [OF assms(2) _ that]) (simp add: assms(1))
  then show ?thesis
    using assms keep_dispatch [OF assms(2,1)]
    by (auto simp: serveHTTP_def Let_def split: if_splits prod.splits)
qed

end

end
