(* ===== verification/Mem_Invariant.thy ===== *)
theory Mem_Invariant
  imports Mem_GC Router
begin

text \<open>
  The invariant of the memory store, proved once per method and lifted to whole requests by the
  interface of stores: what the store holds under a digest hashes to it, an upload has hashed what it
  has buffered, and a session belongs to its repository.
\<close>

section \<open>The invariant\<close>

definition blob_ok :: "lib \<Rightarrow> digest \<Rightarrow> mem_blob \<Rightarrow> bool" where
  "blob_ok L d b \<longleftrightarrow> dig_from_bytes L (dig_algorithm L d) (mb_bytes b) = Some d"

definition owns :: "(uid, upload) fmap \<Rightarrow> string \<Rightarrow> uid \<Rightarrow> bool" where
  "owns H r u \<longleftrightarrow> (\<exists>mu. fmlookup H u = Some mu \<and> mu_repo mu = r)"

text \<open>A repository that is open, with its blobs and its sessions.\<close>

definition repo_ok :: "lib \<Rightarrow> (uid, upload) fmap \<Rightarrow> string \<Rightarrow> mem_repo \<Rightarrow> bool" where
  "repo_ok L H r mr \<longleftrightarrow> mr_block mr \<and>
     (\<forall>d b. fmlookup (mr_blobs mr) d = Some (Some b) \<longrightarrow> blob_ok L d b) \<and>
     (\<forall>sid u. cache_val (mr_uploads mr) sid = Some u \<longrightarrow> owns H r u)"

definition upload_ok :: "upload \<Rightarrow> bool" where
  "upload_ok mu \<longleftrightarrow> mu_w mu = (mu_alg mu, mu_buffer mu)"

text \<open>The backing directory is \<open>D\<close>, and addresses from \<open>ms_next\<close> on are free.\<close>

definition mem_inv :: "lib \<Rightarrow> backing \<Rightarrow> mem_store \<Rightarrow> bool" where
  "mem_inv L D s \<longleftrightarrow> ms_dir s = D \<and> \<not> ms_stop s \<and>
     (\<forall>r mr. fmlookup (ms_repos s) r = Some mr \<longrightarrow> repo_ok L (ms_heap s) r mr) \<and>
     (\<forall>u mu. fmlookup (ms_heap s) u = Some mu \<longrightarrow> upload_ok mu \<and> u < ms_next s)"

lemma repo_ok_frame [simp]:
  "repo_ok L H r (mr\<lparr>mr_index := i\<rparr>) = repo_ok L H r mr" "repo_ok L H r (mr\<lparr>mr_wg := n\<rparr>) = repo_ok L H r mr"
  "repo_ok L H r (mr\<lparr>mr_stuck := b\<rparr>) = repo_ok L H r mr" "repo_ok L H r (mr\<lparr>mr_timeMod := t\<rparr>) = repo_ok L H r mr"
  by (simp_all add: repo_ok_def)

lemma repo_ok_blobs:
  "repo_ok L H r mr \<Longrightarrow> repo_ok L H r (mr\<lparr>mr_blobs := fmupd d None (mr_blobs mr)\<rparr>)"
  "repo_ok L H r mr \<Longrightarrow> repo_ok L H r (mr\<lparr>mr_blobs := fmdrop d (mr_blobs mr)\<rparr>)"
  "repo_ok L H r mr \<Longrightarrow> blob_ok L d b \<Longrightarrow> repo_ok L H r (mr\<lparr>mr_blobs := fmupd d (Some b) (mr_blobs mr)\<rparr>)"
  by (auto simp: repo_ok_def)

lemma repo_ok_uploads:
  "repo_ok L H r mr \<Longrightarrow> (\<And>sid u. cache_val c sid = Some u \<Longrightarrow> owns H r u) \<Longrightarrow> repo_ok L H r (mr\<lparr>mr_uploads := c\<rparr>)"
  by (simp add: repo_ok_def)

lemma repo_ok_sessions: "repo_ok L H r mr \<Longrightarrow> cache_val (mr_uploads mr) sid = Some u \<Longrightarrow> owns H r u"
  by (auto simp: repo_ok_def)

lemma repo_ok_heap:
  "repo_ok L H r mr \<Longrightarrow> (\<And>u. owns H r u \<Longrightarrow> owns H' r u) \<Longrightarrow> repo_ok L H' r mr"
  by (auto simp: repo_ok_def)

lemma mem_invD:
  "mem_inv L D s \<Longrightarrow> fmlookup (ms_repos s) r = Some mr \<Longrightarrow> repo_ok L (ms_heap s) r mr"
  "mem_inv L D s \<Longrightarrow> fmlookup (ms_heap s) u = Some mu \<Longrightarrow> upload_ok mu"
  by (auto simp: mem_inv_def)

lemma mem_inv_upd_repo:
  "mem_inv L D s \<Longrightarrow>
   (\<And>mr. fmlookup (ms_repos s) r = Some mr \<Longrightarrow> repo_ok L (ms_heap s) r mr \<Longrightarrow> repo_ok L (ms_heap s) r (f mr)) \<Longrightarrow>
     mem_inv L D (upd_repo r f s)"
  by (auto simp: mem_inv_def)

lemma mem_inv_heap:
  assumes "mem_inv L D s" and "\<And>r u. owns (ms_heap s) r u \<Longrightarrow> owns (fmupd v mu (ms_heap s)) r u"
    and "upload_ok mu" and "v < n" and "ms_next s \<le> n"
  shows "mem_inv L D (s\<lparr>ms_next := n, ms_heap := fmupd v mu (ms_heap s)\<rparr>)"
  using assms(1,3-5) repo_ok_heap [OF _ assms(2)]
  by (simp add: mem_inv_def) (metis order_less_le_trans)

lemma mem_inv_upload:
  assumes "mem_inv L D s" and "fmlookup (ms_heap s) u = Some mu" and "upload_ok mu'" and "mu_repo mu' = mu_repo mu"
  shows "mem_inv L D (s\<lparr>ms_heap := fmupd u mu' (ms_heap s)\<rparr>)"
proof -
  have "u < ms_next s" using assms(1,2) by (auto simp: mem_inv_def)
  moreover have "owns (fmupd u mu' (ms_heap s)) r v" if "owns (ms_heap s) r v" for r v
    using that assms(2,4) by (auto simp: owns_def)
  ultimately show ?thesis using mem_inv_heap [OF assms(1) _ assms(3), of u "ms_next s"] by simp
qed

lemma mem_inv_upd_upload:
  assumes "mem_inv L D s" and "\<And>mu. upload_ok mu \<Longrightarrow> upload_ok (f mu) \<and> mu_repo (f mu) = mu_repo mu"
  shows "mem_inv L D (upd_upload u f s)"
  using assms by (auto simp: upd_upload_def mem_invD intro: mem_inv_upload split: option.split)

lemma mem_inv_note_missing: "mem_inv L D s \<Longrightarrow> mem_inv L D (note_missing r d s)"
  unfolding note_missing_def by (rule mem_inv_upd_repo) (auto intro: repo_ok_blobs)

lemma mem_inv_drop_session: "mem_inv L D s \<Longrightarrow> mem_inv L D (drop_session mu s)"
  unfolding drop_session_def
  by (rule mem_inv_upd_repo) (auto intro!: repo_ok_uploads dest: repo_ok_sessions split: if_splits)

lemma mem_inv_rand [simp]: "mem_inv L D (s\<lparr>ms_rand := ids\<rparr>) = mem_inv L D s"
  by (simp add: mem_inv_def)

lemma mem_inv_new_upload:
  assumes "mem_inv L D s" and "upload_ok mu"
  shows "mem_inv L D (s\<lparr>ms_next := Suc (ms_next s), ms_heap := fmupd (ms_next s) mu (ms_heap s)\<rparr>)"
proof -
  have "owns (fmupd (ms_next s) mu (ms_heap s)) r u" if "owns (ms_heap s) r u" for r u
    using that assms(1) by (auto simp: owns_def mem_inv_def)
  then show ?thesis using mem_inv_heap [OF assms(1) _ assms(2)] by simp
qed

lemma cache_get_val: "cache_get now k c = (x, c') \<Longrightarrow> cache_val c' k' = cache_val c k'"
  by (metis cache_val_get snd_conv)

text \<open>A use of a session.\<close>

lemma mem_inv_session:
  assumes "mem_inv L D s" and "fmlookup (ms_repos s) r = Some mr" and "cache_get now sid (mr_uploads mr) = (x, c)"
  shows "mem_inv L D (upd_repo r (\<lambda>m. m\<lparr>mr_uploads := c\<rparr>) s)"
  using assms
  by (auto intro!: mem_inv_upd_repo repo_ok_uploads simp: cache_get_val [OF assms(3)] dest: repo_ok_sessions)

lemmas mem_inv_intros = mem_inv_upd_repo mem_inv_upd_upload mem_inv_note_missing mem_inv_drop_session

section \<open>The methods\<close>

lemma mem_inv_done: "mem_inv L D s \<Longrightarrow> mem_inv L D (mem_done r s)"
  by (simp add: mem_done_def mem_inv_upd_repo)

lemma mem_inv_indexGet: "mem_inv L D s \<Longrightarrow> mem_inv L D (snd (mem_indexGet r s))"
  by (simp add: mem_indexGet_def split: option.split)

lemma mem_inv_index:
  "mem_inv L D s \<Longrightarrow> mem_inv L D (snd (mem_indexInsert L r d cs s))"
  "mem_inv L D s \<Longrightarrow> mem_inv L D (snd (mem_indexRemove L r d s))"
  by (simp_all add: mem_indexInsert_def mem_indexRemove_def mem_inv_upd_repo)

lemma mem_inv_blobGet: "mem_inv L D s \<Longrightarrow> mem_inv L D (snd (mem_blobGet r d s))"
  by (cases rule: mem_blobGet_cases [of r d s]) (simp_all add: mem_inv_note_missing)

lemma mem_inv_start_upload:
  assumes "mem_inv L D s" and "fmlookup (ms_repos s) r = Some mr"
  shows "mem_inv L D (snd (start_upload r mr bc sid s))"
proof -
  obtain x c where get: "cache_get (ms_now s) sid (mr_uploads mr) = (x, c)" by fastforce
  define mu where "mu = \<lparr>mu_repo = r, mu_sessionID = sid, mu_buffer = [], mu_alg = bo_algo bc,
                  mu_w = (bo_algo bc, []), mu_expect = bo_expect bc\<rparr>"
  define s1 where "s1 = s\<lparr>ms_next := Suc (ms_next s), ms_heap := fmupd (ms_next s) mu (ms_heap s)\<rparr>"
  have s1: "mem_inv L D s1" "fmlookup (ms_repos s1) r = Some mr" "owns (ms_heap s1) r (ms_next s)"
    using mem_inv_new_upload [OF assms(1), of mu] assms(2) by (auto simp: s1_def mu_def upload_ok_def owns_def)
  have "mem_inv L D (upd_repo r (\<lambda>m. m\<lparr>mr_timeMod := ms_now s,
        mr_uploads := fst (cache_set (ms_now s) sid (ms_next s) c)\<rparr>) s1)"
    using s1 by (auto intro!: mem_inv_upd_repo repo_ok_uploads simp: cache_get_val [OF get]
        dest: repo_ok_sessions split: if_splits)
  then show ?thesis
    using mem_inv_session [OF assms get]
    by (simp add: start_upload_def get Let_def s1_def mu_def split: sum.split)
qed

lemma mem_inv_blobCreate: "mem_inv L D s \<Longrightarrow> mem_inv L D (snd (mem_blobCreate L r opts s))"
  by (auto simp: mem_blobCreate_def intro: mem_inv_start_upload split: sum.split option.split list.split)

lemma mem_inv_blobDelete: "mem_inv L D s \<Longrightarrow> mem_inv L D (snd (mem_blobDelete r d s))"
  by (auto simp: mem_blobDelete_def intro!: mem_inv_upd_repo repo_ok_blobs split: option.split)

lemma mem_inv_blobSession: "mem_inv L D s \<Longrightarrow> mem_inv L D (snd (mem_blobSession r sid s))"
  by (auto simp: mem_blobSession_def intro: mem_inv_session split: option.split prod.split sum.split)

lemma mem_inv_write: "mem_inv L D s \<Longrightarrow> mem_inv L D (snd (mem_write u p s))"
  by (auto simp: mem_write_def upload_ok_def intro!: mem_inv_upd_upload intro: mem_inv_session
      split: option.split prod.split sum.split)

lemma mem_inv_cancel: "mem_inv L D s \<Longrightarrow> mem_inv L D (snd (mem_cancel u s))"
  by (auto simp: mem_cancel_def intro!: mem_inv_drop_session split: option.split)

lemma mem_inv_close:
  assumes "writer_ok L" and "digest_ok L" and "mem_inv L D s"
  shows "mem_inv L D (snd (mem_close L u s))"
proof (cases "fmlookup (ms_heap s) u")
  case (Some mu)
  then have w: "snd (mu_w mu) = mu_buffer mu"
    using mem_invD(2) [OF assms(3)] by (simp add: upload_ok_def)
  have "blob_ok L d \<lparr>mb_bytes = mu_buffer mu, mb_mod = t\<rparr>"
    if "wr_digest L (fst (mu_w mu)) (snd (mu_w mu)) = Some d" for d t
    using that assms(1,2) w by (auto simp: blob_ok_def writer_ok_def digest_ok_def)
  then show ?thesis
    using Some assms(3)
    by (auto simp: mem_close_def Let_def intro!: mem_inv_drop_session mem_inv_upd_repo repo_ok_blobs split: option.split)
qed (use assms(3) in \<open>simp add: mem_close_def\<close>)

lemma mem_inv_changeAlgorithm: "mem_inv L D s \<Longrightarrow> mem_inv L D (snd (mem_changeAlgorithm u a s))"
  unfolding mem_changeAlgorithm_def
  by (cases "fmlookup (ms_heap s) u") (auto simp: upd_upload_def upload_ok_def intro!: mem_inv_upload)

lemma mem_inv_verify: "mem_inv L D s \<Longrightarrow> mem_inv L D (snd (mem_verify L u d s))"
  by (auto simp: mem_verify_def Let_def upload_ok_def intro!: mem_inv_upd_upload split: option.split)

text \<open>The invariant under what the library promises.\<close>

definition mem_safe :: "lib \<Rightarrow> backing \<Rightarrow> mem_store \<Rightarrow> bool" where
  "mem_safe L D s \<longleftrightarrow> (writer_ok L \<and> digest_ok L \<longrightarrow> mem_inv L D s)"

lemmas mem_inv_ops = mem_inv_done mem_inv_indexGet mem_inv_index mem_inv_blobGet mem_inv_blobCreate
  mem_inv_blobDelete mem_inv_blobSession mem_inv_write mem_inv_cancel mem_inv_close
  mem_inv_changeAlgorithm mem_inv_verify

interpretation repo_safe: store_invariant "mem_repo_ops L" "mem_safe L D" for L D
  by unfold_locales (auto simp: mem_safe_def mem_repo_ops_def intro: mem_inv_ops)

lemma repo_ok_new [simp]: "repo_ok L H r (new_mem_repo conf p)"
  by (simp add: repo_ok_def new_mem_repo_def Let_def)

lemma mem_inv_new_repo: "mem_inv L D s \<Longrightarrow> mem_inv L D (s\<lparr>ms_repos := fmupd r (new_mem_repo conf p) (ms_repos s)\<rparr>)"
  by (auto simp: mem_inv_def)

lemma mem_inv_drop_repo: "mem_inv L D s \<Longrightarrow> mem_inv L D (s\<lparr>ms_repos := fmdrop r (ms_repos s)\<rparr>)"
  by (auto simp: mem_inv_def)

lemma mem_safe_repoInit:
  assumes "mem_repoInit L r mr s = Some (x, s')" and "mem_safe L D s"
  shows "mem_safe L D s'"
proof -
  have upd: "mem_safe L D s1 \<Longrightarrow> mem_safe L D (upd_repo r (\<lambda>m. m\<lparr>mr_index := li\<rparr>) s1)" for s1 li
    by (simp add: mem_safe_def mem_inv_upd_repo)
  show ?thesis
    using assms
    by (auto simp: mem_repoInit_def split: prod.splits os_res.splits bool.splits if_splits option.splits
        intro!: upd dest: repo_safe.keep_indexIngest)
qed

lemma mem_safe_repoGet: "mem_safe L D s \<Longrightarrow> mem_safe L D (snd (mem_repoGet L r s))"
proof -
  assume s: "mem_safe L D s"
  let ?p = "if cs_rootDir (c_storage (ms_conf s)) \<noteq> [] then cs_rootDir (c_storage (ms_conf s)) @ CHR ''/'' # r else []"
  let ?s1 = "s\<lparr>ms_repos := fmupd r (new_mem_repo (ms_conf s) ?p) (ms_repos s)\<rparr>"
  have s1: "mem_safe L D ?s1" using s mem_inv_new_repo by (simp add: mem_safe_def)
  have upd: "mem_safe L D s1 \<Longrightarrow> mem_safe L D (upd_repo r (\<lambda>m. m\<lparr>mr_wg := mr_wg m + 1\<rparr>) s1)" for s1
    by (simp add: mem_safe_def mem_inv_upd_repo)
  have drop: "mem_safe L D s1 \<Longrightarrow> mem_safe L D (s1\<lparr>ms_repos := fmdrop r (ms_repos s1)\<rparr>)" for s1
    by (simp add: mem_safe_def mem_inv_drop_repo)
  have init: "mem_repoInit L r mr ?s1 = Some (x, s2) \<Longrightarrow> mem_safe L D s2" for x s2 mr
    using mem_safe_repoInit s1 by blast
  show ?thesis
    using s s1 upd init drop
    by (auto simp: mem_repoGet_def Let_def split: option.split sum.split prod.split)
qed

interpretation mem_safe: store_invariant "mem_ops L" "mem_safe L D" for L D
  by unfold_locales
    (auto simp: mem_safe_def intro: mem_inv_ops mem_safe_repoGet [unfolded mem_safe_def, rule_format])

section \<open>Collections keep the invariant\<close>

lemma mem_inv_blobMeta: "mem_inv L D s \<Longrightarrow> mem_inv L D (snd (mem_blobMeta r d s))"
  by (auto simp: mem_blobMeta_def intro: mem_inv_note_missing split: option.split os_res.split)

lemma mem_inv_blobList: "snd (mem_blobList L r s) = s"
  by (simp add: mem_blobList_def Let_def split: option.split)

interpretation mem_gc_inv: gc_repo "mem_gc_ops L r" "mem_content r" "\<lambda>s. mem_gc_ok L r s \<and> mem_inv L D s" for L r D
proof unfold_locales
  fix s s' :: mem_store and d :: digest and res m l u
  assume ok: "mem_gc_ok L r s \<and> mem_inv L D s"
  show "(mem_gc_ok L r s' \<and> mem_inv L D s') \<and> mem_content r s' = mem_content r s \<and>
      mem_content r s d = (case res of Inr rd \<Rightarrow> Some rd | Inl _ \<Rightarrow> None)"
    if g: "go_get (mem_gc_ops L r) d s = (res, s')"
    using mem_gc.get_content [OF _ g] ok g mem_inv_blobGet [of L D s r d] by (simp add: mem_gc_ops_def)
  show "(mem_gc_ok L r s' \<and> mem_inv L D s') \<and> mem_content r s' = mem_content r s"
    if g: "go_meta (mem_gc_ops L r) d s = (m, s')"
    using mem_gc.meta_content [OF _ g] ok g mem_inv_blobMeta [of L D s r d] by (simp add: mem_gc_ops_def)
  show "(mem_gc_ok L r s' \<and> mem_inv L D s') \<and> mem_content r s' = mem_content r s \<and>
      (\<forall>dl. l = Inr dl \<longrightarrow> dom (mem_content r s) \<subseteq> set dl)"
    if g: "go_list (mem_gc_ops L r) s = (l, s')"
    using mem_gc.list_content [OF _ g] ok g mem_inv_blobList [of L r s] by (simp add: mem_gc_ops_def)
  show "(mem_gc_ok L r s' \<and> mem_inv L D s') \<and> (\<forall>d'. d' \<noteq> d \<longrightarrow> mem_content r s' d' = mem_content r s d') \<and>
      mem_content r s' d \<in> {None, mem_content r s d} \<and> (u = Inr () \<longrightarrow> mem_content r s' d = None)"
    if g: "go_delete (mem_gc_ops L r) d s = (u, s')"
    using mem_gc.delete_content [OF _ g] ok g mem_inv_blobDelete [of L D s r d] by (simp add: mem_gc_ops_def)
  show "finite (dom (mem_content r s))"
    using ok mem_gc.finite_content by blast
qed

definition dirs_ok :: "lib \<Rightarrow> backing \<Rightarrow> bool" where
  "dirs_ok L D \<longleftrightarrow> order_ok L \<and> (\<forall>p. backing_ok L D p)"

lemma mem_repo_gc_inv:
  assumes "dirs_ok L D" and "mem_inv L D s"
  shows "\<exists>x s'. mem_repo_gc L r s = Some (x, s') \<and> mem_inv L D s'"
proof (cases "fmlookup (ms_repos s) r")
  case None
  then show ?thesis using assms(2) by (simp add: mem_repo_gc_def)
next
  case (Some mr)
  have ok: "mem_gc_ok L r s \<and> mem_inv L D s"
    using assms by (auto simp: dirs_ok_def mem_gc_ok_def mem_inv_def)
  obtain res s' where gc: "repoGarbageCollect L (mem_gc_ops L r) (ms_gc s) (ms_now s) (ms_rnow s) (mr_index mr) s =
      Some (res, s')" and inv: "mem_inv L D s'"
    using mem_gc_inv.gc_ends [OF ok] by blast
  show ?thesis
  proof (cases res)
    case (Inl e)
    then show ?thesis using Some gc inv by (simp add: mem_repo_gc_def)
  next
    case (Inr ic)
    then show ?thesis using Some gc inv by (cases ic) (simp add: mem_repo_gc_def mem_inv_upd_repo)
  qed
qed

lemma mem_gc_loop_inv:
  assumes "dirs_ok L D"
  shows "mem_inv L D s \<Longrightarrow> \<exists>x s'. mem_gc_loop L start rs s = Some (x, s') \<and> mem_inv L D s'"
proof (induction rs arbitrary: s)
  case (Cons r rs)
  obtain x s1 where gc: "mem_repo_gc L r s = Some (x, s1)" "mem_inv L D s1"
    using mem_repo_gc_inv [OF assms Cons.prems] by blast
  show ?case
    using Cons.IH [OF Cons.prems] Cons.IH [OF gc(2)] gc Cons.prems
    by (auto split: option.split sum.split)
qed simp

section \<open>Everything a server does\<close>

text \<open>A request at a time, a collection with the time of the previous one, and the pruning of uploads.\<close>

datatype server_event =
    SrvRequest auth_file "string option" time request
  | SrvCollect time time
  | SrvPrune time string "string list" bool

definition at_time :: "time \<Rightarrow> mem_store server \<Rightarrow> mem_store server" where
  "at_time now sv = sv\<lparr>sv_store := map_option (\<lambda>s. s\<lparr>ms_now := now\<rparr>) (sv_store sv)\<rparr>"

text \<open>\<open>None\<close>: a panic.\<close>

fun server_step :: "lib \<Rightarrow> auth_lib \<Rightarrow> server_event \<Rightarrow> mem_store server \<Rightarrow> mem_store server option" where
  "server_step L A (SrvRequest f rand now r) sv =
     map_option fst (serveHTTP L (mem_ops L) A f rand now r (at_time now sv) new_rw)"
| "server_step L A (SrvCollect now prev) sv =
     (case sv_store (at_time now sv) of
        None \<Rightarrow> Some sv
      | Some s \<Rightarrow> map_option (\<lambda>(_, s'). sv\<lparr>sv_store := Some s'\<rparr>) (mem_gc L prev s))"
| "server_step L A (SrvPrune now r ks by_age) sv =
     Some (sv\<lparr>sv_store := map_option (mem_prune_uploads r ks by_age) (sv_store (at_time now sv))\<rparr>)"

fun server_run :: "lib \<Rightarrow> auth_lib \<Rightarrow> server_event list \<Rightarrow> mem_store server \<Rightarrow> mem_store server option" where
  "server_run L A [] sv = Some sv"
| "server_run L A (e # es) sv =
     (case server_step L A e sv of None \<Rightarrow> None | Some sv' \<Rightarrow> server_run L A es sv')"

text \<open>The store of a server, while there is one, has the invariant.\<close>

definition server_inv :: "lib \<Rightarrow> backing \<Rightarrow> mem_store server \<Rightarrow> bool" where
  "server_inv L D sv \<longleftrightarrow> (\<forall>s. sv_store sv = Some s \<longrightarrow> mem_inv L D s)"

lemma server_inv_at_time: "server_inv L D sv \<Longrightarrow> server_inv L D (at_time now sv)"
  by (auto simp: server_inv_def at_time_def mem_inv_def)

lemma mem_inv_prune: "mem_inv L D s \<Longrightarrow> mem_inv L D (mem_prune_uploads r ks by_age s)"
  unfolding mem_prune_uploads_def
  by (rule mem_inv_upd_repo) (auto intro!: repo_ok_uploads dest!: prune_val dest: repo_ok_sessions)

lemma server_step_inv:
  assumes "writer_ok L" "digest_ok L" "dirs_ok L D" and "server_inv L D sv" and "server_step L A e sv = Some sv'"
  shows "server_inv L D sv'"
proof (cases e)
  case (SrvRequest f rand now r)
  then obtain w where run: "serveHTTP L (mem_ops L) A f rand now r (at_time now sv) new_rw = Some (sv', w)"
    using assms(5) by auto
  show ?thesis
  proof (cases "sv_store (at_time now sv)")
    case None
    then have "sv_store sv' = None" using run by (simp add: serveHTTP_def)
    then show ?thesis by (simp add: server_inv_def)
  next
    case (Some s)
    then have "mem_safe L D s" using server_inv_at_time [OF assms(4), of now] by (simp add: server_inv_def mem_safe_def)
    from mem_safe.keep_serveHTTP [OF Some this run] show ?thesis
      using assms(1,2) by (auto simp: server_inv_def mem_safe_def)
  qed
next
  case (SrvCollect now prev)
  have "mem_inv L D s'" if "sv_store (at_time now sv) = Some s" "mem_gc L prev s = Some (x, s')" for s x s'
  proof -
    have "mem_inv L D s" using server_inv_at_time [OF assms(4), of now] that(1) by (simp add: server_inv_def)
    from mem_gc_loop_inv [OF assms(3) this] that(2) show ?thesis
      unfolding mem_gc_def Let_def by (metis option.inject prod.inject)
  qed
  then show ?thesis
    using assms(4,5) SrvCollect by (auto simp: server_inv_def split: option.splits)
next
  case (SrvPrune now r ks by_age)
  then show ?thesis
    using assms(5) server_inv_at_time [OF assms(4), of now] mem_inv_prune by (auto simp: server_inv_def)
qed

lemma server_run_inv:
  assumes "writer_ok L" "digest_ok L" "dirs_ok L D"
  shows "server_inv L D sv \<Longrightarrow> server_run L A es sv = Some sv' \<Longrightarrow> server_inv L D sv'"
  by (induction es arbitrary: sv) (auto split: option.splits dest: server_step_inv [OF assms])

lemma new_server_inv: "server_inv L D (new_mem_server conf auth procTime now rand D)"
  by (auto simp: server_inv_def new_mem_server_def new_server_def newMem_def mem_inv_def Let_def split: store_type.splits)

text \<open>
  C2: Whatever requests a memory store serves from its start on, with collections and prunings of
  uploads in between: every blob it holds hashes to the digest it is stored under.
\<close>

theorem served_content_addressed:
  assumes "writer_ok L" and "digest_ok L" and "dirs_ok L D"
    and "server_run L A es (new_mem_server conf auth procTime now rand D) = Some sv"
    and "sv_store sv = Some s" and "fmlookup (ms_repos s) r = Some mr"
    and "fmlookup (mr_blobs mr) d = Some (Some b)"
  shows "dig_from_bytes L (dig_algorithm L d) (mb_bytes b) = Some d"
  using server_run_inv [OF assms(1-3) new_server_inv assms(4)] assms(5-7)
  by (auto simp: server_inv_def mem_inv_def repo_ok_def blob_ok_def)

text \<open>A store without a directory, and a push to it: the content of the digest \<open>sha256:x\<close> is \<open>x\<close>.\<close>

lemma no_backing_ok: "dirs_ok demo_lib no_backing"
  by (simp add: dirs_ok_def backing_ok_def no_backing_def demo_lib_ok)

definition blank_store :: mem_store where
  "blank_store = newMem demo_conf 0 0 [''sid''] no_backing"

lemma blank_store_inv: "mem_inv L no_backing blank_store"
  by (simp add: mem_inv_def blank_store_def newMem_def)

definition demo_post :: request where
  "demo_post = alice_request\<lparr>rq_method := ''POST'', rq_path := ''/v2/a/blobs/uploads/'',
     rq_query := [(''digest'', ''sha256:x'')], rq_body := [''x'']\<rparr>"

lemma demo_post_run:
  "\<exists>s1 w1. blobUploadPost demo_lib (mem_ops demo_lib) demo_conf ''a'' demo_post (blank_store, w) = (s1, w1) \<and>
     w1 = created_at [''/v2'', ''a'', ''blobs'', ''sha256:x''] ''sha256:x'' w \<and>
     (\<exists>mr b. fmlookup (ms_repos s1) ''a'' = Some mr \<and> fmlookup (mr_blobs mr) ''sha256:x'' = Some (Some b) \<and>
        mb_bytes b = ''x'')"
  by (simp add: blobUploadPost_def read_only_def query_get_def query_values_def demo_post_def alice_request_def
      post_upload_def post_options_def demo_lib_def with_repo_def mem_repoGet_def blank_store_def newMem_def
      Let_def mem_blobCreate_def dig_is_zero_def new_mem_repo_def start_upload_def cache_get_def cache_new_def
      cache_set_def mem_done_def upd_repo_def post_monolithic_def io_copy_def mem_write_def upd_upload_def
      mem_verify_def mem_close_def drop_session_def)

lemma demo_post_route:
  assumes "ca_pushEnabled (c_api conf) = Some True"
  shows "route L S conf now demo_post (path_elements ''/v2/a/blobs/uploads/'') =
     Some (''a'', AuthWrite, lift_store (blobUploadPost L S conf ''a''))"
proof -
  have el: "path_elements ''/v2/a/blobs/uploads/'' = [''v2'', ''a'', ''blobs'', ''uploads'']"
    by (simp add: path_elements_def path_clean_def trim_by_def)
  have m: "matchV2 [''v2'', ''a'', ''blobs'', ''uploads''] [''...'', ''blobs'', ''*''] = Some [''a'', ''uploads'']"
    "matchV2 [''v2'', ''a'', ''blobs'', ''uploads''] [''...'', ''manifests'', ''*''] = None"
    by (simp_all add: matchV2_def Let_def matches_def rePath_def pathPart_def lower_alnum_def)
  show ?thesis
    unfolding el by (simp add: route_def m route_blobs_def is_get_def demo_post_def assms)
qed

lemma demo_server_run:
  "\<exists>sv s mr b. server_run demo_lib demo_auth_lib [SrvRequest \<lparr>af_stat = None, af_open = None\<rparr> None 0 demo_post]
       (new_mem_server demo_conf NoAuth 0 0 [''sid''] no_backing) = Some sv \<and> sv_store sv = Some s \<and>
     fmlookup (ms_repos s) ''a'' = Some mr \<and> fmlookup (mr_blobs mr) ''sha256:x'' = Some (Some b) \<and> mb_bytes b = ''x''"
proof -
  have sv: "new_mem_server demo_conf NoAuth 0 0 [''sid''] no_backing =
      \<lparr>sv_conf = demo_conf, sv_store = Some blank_store, sv_refs = sv_refs (new_mem_server demo_conf NoAuth 0 0 [''sid''] no_backing),
       sv_rate = sv_rate (new_mem_server demo_conf NoAuth 0 0 [''sid''] no_backing), sv_auth = NoAuth\<rparr>"
    by (simp add: new_mem_server_def new_server_def Let_def blank_store_def demo_conf_fixed)
  have now: "blank_store\<lparr>ms_now := 0\<rparr> = blank_store" by (simp add: blank_store_def newMem_def)
  have path: "rq_path demo_post = ''/v2/a/blobs/uploads/''" by (simp add: demo_post_def)
  show ?thesis
    using demo_post_run [of "standard_headers demo_conf new_rw"]
    by (subst sv)
      (auto simp: at_time_def now serveHTTP_def path Let_def dispatch_def demo_post_route serve_auth_def lift_store_def)
qed

theorem served_content_addressed_witness:
  "\<exists>sv s mr b. server_run demo_lib demo_auth_lib [SrvRequest \<lparr>af_stat = None, af_open = None\<rparr> None 0 demo_post]
       (new_mem_server demo_conf NoAuth 0 0 [''sid''] no_backing) = Some sv \<and> sv_store sv = Some s \<and>
     fmlookup (ms_repos s) ''a'' = Some mr \<and> fmlookup (mr_blobs mr) ''sha256:x'' = Some (Some b) \<and>
     dig_from_bytes demo_lib (dig_algorithm demo_lib ''sha256:x'') (mb_bytes b) = Some ''sha256:x''"
  using demo_server_run served_content_addressed [OF demo_lib_ok(2,1) no_backing_ok] by blast

end
