(* ===== verification/Push_Pull.thy ===== *)
theory Push_Pull
  imports Mem_Invariant
begin

text \<open>
  Round trips through the handlers on the memory store: what a push acknowledges, a pull returns.
\<close>

section \<open>Uploads keep their repository\<close>

text \<open>The upload behind \<open>u\<close> is one for repository \<open>r\<close>, with the expected digest \<open>e\<close>; the repository is loaded.\<close>

definition upload_of :: "uid \<Rightarrow> string \<Rightarrow> digest \<Rightarrow> mem_store \<Rightarrow> bool" where
  "upload_of u r e s \<longleftrightarrow> u < ms_next s \<and> fmlookup (ms_repos s) r \<noteq> None \<and>
     (\<exists>mu. fmlookup (ms_heap s) u = Some mu \<and> mu_repo mu = r \<and> mu_expect mu = e)"

lemma upload_of_upd [simp]:
  "upload_of u r e (upd_repo r' f s) = upload_of u r e s"
  "upload_of u r e (s\<lparr>ms_rand := ids\<rparr>) = upload_of u r e s"
  "upload_of u r e (note_missing r' d s) = upload_of u r e s"
  "upload_of u r e (drop_session mu s) = upload_of u r e s"
  by (auto simp: upload_of_def note_missing_def drop_session_def)

lemma upload_of_upd_upload:
  "upload_of u r e s \<Longrightarrow> (\<And>mu. mu_repo (f mu) = mu_repo mu \<and> mu_expect (f mu) = mu_expect mu) \<Longrightarrow>
     upload_of u r e (upd_upload u' f s)"
  by (auto simp: upload_of_def)

lemma upload_of_start: "upload_of u r e s \<Longrightarrow> upload_of u r e (snd (start_upload r' mr bc sid s))"
  by (auto simp: start_upload_def Let_def split: prod.split sum.split) (auto simp: upload_of_def)

lemma upload_of_create: "upload_of u r e s \<Longrightarrow> upload_of u r e (snd (mem_blobCreate L r' opts s))"
  by (auto simp: mem_blobCreate_def intro: upload_of_start split: sum.split option.split list.split)

lemma upload_of_write: "upload_of u r e s \<Longrightarrow> upload_of u r e (snd (mem_write u' p s))"
  by (auto simp: mem_write_def intro!: upload_of_upd_upload split: option.split prod.split sum.split)

lemma upload_of_changeAlgorithm: "upload_of u r e s \<Longrightarrow> upload_of u r e (snd (mem_changeAlgorithm u' a s))"
  by (auto simp: mem_changeAlgorithm_def intro!: upload_of_upd_upload split: option.split)

lemma upload_of_verify: "upload_of u r e s \<Longrightarrow> upload_of u r e (snd (mem_verify L u' d s))"
  by (auto simp: mem_verify_def Let_def intro!: upload_of_upd_upload split: option.split)

lemma upload_of_rest:
  "upload_of u r e s \<Longrightarrow> upload_of u r e (mem_done r' s)"
  "upload_of u r e s \<Longrightarrow> upload_of u r e (snd (mem_indexGet r' s))"
  "upload_of u r e s \<Longrightarrow> upload_of u r e (snd (mem_indexInsert L r' desc cs s))"
  "upload_of u r e s \<Longrightarrow> upload_of u r e (snd (mem_indexRemove L r' desc s))"
  "upload_of u r e s \<Longrightarrow> upload_of u r e (snd (mem_blobDelete r' d s))"
  "upload_of u r e s \<Longrightarrow> upload_of u r e (snd (mem_blobSession r' sid s))"
  "upload_of u r e s \<Longrightarrow> upload_of u r e (snd (mem_cancel u' s))"
  "upload_of u r e s \<Longrightarrow> upload_of u r e (snd (mem_close L u' s))"
  by (simp_all add: mem_done_def mem_indexGet_def mem_indexInsert_def mem_indexRemove_def mem_blobDelete_def
      mem_blobSession_def mem_cancel_def mem_close_def Let_def split: option.split sum.split prod.split)

lemma upload_of_blobGet: "upload_of u r e s \<Longrightarrow> upload_of u r e (snd (mem_blobGet r' d s))"
  by (cases rule: mem_blobGet_cases [of r' d s]) simp_all

lemmas upload_of_ops = upload_of_create upload_of_write upload_of_changeAlgorithm upload_of_verify
  upload_of_rest upload_of_blobGet

interpretation repo_upload: store_invariant "mem_repo_ops L" "upload_of u r e" for L u r e
  by unfold_locales (auto simp: mem_repo_ops_def intro: upload_of_ops)

lemma upload_of_repoInit:
  "mem_repoInit L r' mr s = Some (x, s') \<Longrightarrow> upload_of u r e s \<Longrightarrow> upload_of u r e s'"
  by (auto simp: mem_repoInit_def split: prod.splits os_res.splits bool.splits if_splits option.splits
      dest: repo_upload.keep_indexIngest)

lemma upload_of_repoGet:
  assumes "upload_of u r e s"
  shows "upload_of u r e (snd (mem_repoGet L r' s))"
proof (cases "fmlookup (ms_repos s) r'")
  case None
  have new: "upload_of u r e (s\<lparr>ms_repos := fmupd r' mr (ms_repos s)\<rparr>)" for mr
    using assms by (simp add: upload_of_def)
  have drop: "upload_of u r e s2 \<Longrightarrow> upload_of u r e (s2\<lparr>ms_repos := fmdrop r' (ms_repos s2)\<rparr>)" for s2
    using assms None by (auto simp: upload_of_def)
  show ?thesis
    using assms new drop None
    by (auto simp: mem_repoGet_def Let_def split: option.split sum.split prod.split dest: upload_of_repoInit [OF _ new])
qed (use assms in \<open>simp add: mem_repoGet_def\<close>)

interpretation mem_upload: store_invariant "mem_ops L" "upload_of u r e" for L u r e
  by unfold_locales (auto intro: upload_of_ops upload_of_repoGet)

section \<open>A closed upload is a blob\<close>

lemma parsed_digest: "digest_ok L \<Longrightarrow> dig_parse L s = Some d \<Longrightarrow> d = s \<and> d \<noteq> []"
  unfolding digest_ok_def by (metis empty_iff list.set(1))

definition mem_has :: "mem_store \<Rightarrow> string \<Rightarrow> digest \<Rightarrow> bool" where
  "mem_has s r d \<longleftrightarrow> (\<exists>mr b. fmlookup (ms_repos s) r = Some mr \<and> fmlookup (mr_blobs mr) d = Some (Some b))"

lemma mem_has_done [simp]: "mem_has (mem_done r' s) r d = mem_has s r d"
  by (auto simp: mem_has_def mem_done_def)

definition verified :: "lib \<Rightarrow> uid \<Rightarrow> digest \<Rightarrow> mem_store \<Rightarrow> bool" where
  "verified L u d s \<longleftrightarrow> (\<exists>mu. fmlookup (ms_heap s) u = Some mu \<and> wr_verify L (fst (mu_w mu)) (snd (mu_w mu)) d)"

lemma mem_verify_verified: "mem_verify L u d s = (Inr x, s') \<Longrightarrow> verified L u d s'"
  by (auto simp: mem_verify_def verified_def Let_def split: option.splits if_splits)

lemma mem_close_has:
  assumes "writer_ok L" and "upload_of u r e s" and "verified L u d s" and "mem_close L u s = (Inr x, s')"
  shows "mem_has s' r d"
proof -
  obtain mu mr where mu: "fmlookup (ms_heap s) u = Some mu" "mu_repo mu = r" "fmlookup (ms_repos s) r = Some mr"
    "wr_digest L (fst (mu_w mu)) (snd (mu_w mu)) = Some d"
    using assms(1-3) by (auto simp: upload_of_def verified_def writer_ok_def)
  then show ?thesis
    using assms(4) by (auto simp: mem_close_def mem_has_def Let_def drop_session_def split: if_splits)
qed

text \<open>With an expected digest the close itself verifies.\<close>

lemma mem_close_expected:
  assumes "upload_of u r e s" and "e \<noteq> []" and "mem_close L u s = (Inr x, s')"
  shows "verified L u e s"
  using assms by (auto simp: upload_of_def mem_close_def verified_def dig_is_zero_def split: if_splits)

text \<open>A new upload has the digest of the last option; \<open>ErrBlobExists\<close> tells the truth.\<close>

lemma apply_blob_opts_digest:
  "apply_blob_opts L (opts @ [BlobWithDigest d]) bc = Inr bc' \<Longrightarrow> bo_expect bc' = d"
  by (induction opts arbitrary: bc) (auto split: sum.splits if_splits)

lemma mem_create_upload:
  assumes "mem_blobCreate L r (opts @ [BlobWithDigest d]) s = (Inr (u, sid), s')"
  shows "upload_of u r d s'"
  using assms
  by (auto simp: mem_blobCreate_def start_upload_def Let_def upload_of_def dest!: apply_blob_opts_digest
      split: sum.splits option.splits if_splits list.splits prod.splits)

lemma mem_create_exists:
  assumes "mem_blobCreate L r (opts @ [BlobWithDigest d]) s = (Inl ErrBlobExists, s')"
  shows "mem_has s' r d"
proof -
  have "e \<noteq> ErrBlobExists" if "apply_blob_opts L os bc = Inl e" for os bc e
    using that by (induction os arbitrary: bc; simp) (auto elim: apply_blob_opt.elims split: sum.splits if_splits)
  then show ?thesis
    using assms
    by (auto simp: mem_blobCreate_def start_upload_def Let_def mem_has_def dest!: apply_blob_opts_digest
        split: sum.splits option.splits if_splits list.splits prod.splits)
qed

section \<open>What a response acknowledges\<close>

definition acked :: "response_writer \<Rightarrow> digest \<Rightarrow> bool" where
  "acked w d \<longleftrightarrow> rw_status w = 201 \<and> hdr_values (rw_sent_header w) ''Docker-Content-Digest'' = [d]"

lemma to_lower_created [simp]:
  "to_lower ''location'' = ''location''" "to_lower ''Docker-Content-Digest'' = ''docker-content-digest''"
  by code_simp+

lemma acked_created_at:
  "rw_sent w = None \<Longrightarrow> hdr_values (rw_header w) ''Docker-Content-Digest'' = [] \<Longrightarrow>
     acked (created_at path d w) d' \<longleftrightarrow> d' = d"
  by (auto simp: acked_def created_at_def rw_status_def rw_sent_header_def)

text \<open>No other response of the blob handlers is an acknowledgement.\<close>

lemma not_acked [simp]:
  "rw_sent w = None \<Longrightarrow> c \<noteq> 201 \<Longrightarrow> \<not> acked (writeHeader c w) d"
  "rw_sent w = None \<Longrightarrow> c \<noteq> 201 \<Longrightarrow> \<not> acked (resp_err c es w) d"
  by (simp_all add: acked_def rw_status_def)

lemma not_acked_repo [simp]: "rw_sent w = None \<Longrightarrow> \<not> acked (repoGet_err e w) d"
  by (simp add: repoGet_err_def)

lemma not_acked_range [simp]: "rw_sent w = None \<Longrightarrow> \<not> acked (bad_range n w) d"
  by (simp add: bad_range_def)

text \<open>Nothing written yet.\<close>

definition unsent :: "response_writer \<Rightarrow> bool" where
  "unsent w \<longleftrightarrow> rw_sent w = None \<and> hdr_values (rw_header w) ''Docker-Content-Digest'' = []"

lemma unsent_new: "unsent new_rw"
  by (simp add: unsent_def hdr_values_def)

lemmas upload_keeps = mem_upload.keep_eq [simplified] mem_upload.keep_io_copy

lemma post_monolithic_ack:
  assumes "writer_ok L" and "upload_of u r e s" and "unsent w"
    and "post_monolithic L (mem_ops L) r d u req (s, w) = (s', w')" and "acked w' d'"
  shows "d' = d \<and> mem_has s' r d"
  using assms
  by (auto simp: post_monolithic_def unsent_def acked_created_at split: prod.splits sum.splits
      intro: mem_close_has mem_verify_verified dest: upload_keeps)

lemma put_content_ack:
  assumes "writer_ok L" and "upload_of u r e s" and "unsent w"
    and "put_content L (mem_ops L) r d u req (s, w) = (s', w')" and "acked w' d'"
  shows "d' = d \<and> mem_has s' r d"
  using assms
  by (auto simp: put_content_def unsent_def acked_created_at split: prod.splits sum.splits
      intro: mem_close_has mem_verify_verified dest: upload_keeps)

lemma post_options_digest:
  "post_options L req = Inr (opts, d) \<Longrightarrow>
     (\<exists>opts0. opts = opts0 @ [BlobWithDigest d]) \<or> query_get req ''digest'' = [] \<and>
      (\<forall>p\<in>set opts. \<exists>a. p = BlobWithAlgorithm a)"
  by (auto simp: post_options_def Let_def split: if_splits option.splits sum.splits)

text \<open>Without a digest nothing exists already.\<close>

lemma create_algorithms_not_exists:
  assumes "\<forall>p\<in>set opts. \<exists>a. p = BlobWithAlgorithm a" and "mem_blobCreate L r opts s = (Inl e, s')"
  shows "e \<noteq> ErrBlobExists"
proof -
  have "\<exists>bc'. apply_blob_opts L opts bc = Inr bc' \<and> bo_expect bc' = bo_expect bc" for bc
    using assms(1) by (induction opts arbitrary: bc) fastforce+
  from this [of "\<lparr>bo_algo = dig_canonical L, bo_expect = []\<rparr>"] show ?thesis
    using assms(2)
    by (auto simp: mem_blobCreate_def dig_is_zero_def start_upload_def Let_def
        split: if_splits option.splits list.splits prod.splits sum.splits)
qed

lemma post_upload_ack:
  assumes "writer_ok L" and "unsent w"
    and "post_upload L (mem_ops L) r req (s, w) = (s', w')" and "acked w' d'"
  shows "mem_has s' r d'"
proof (cases "post_options L req")
  case (Inl es)
  then show ?thesis using assms(2-4) by (auto simp: post_upload_def unsent_def)
next
  case (Inr od)
  obtain opts d where od: "od = (opts, d)" by (cases od)
  note opts = post_options_digest [OF Inr [unfolded od]]
  obtain x s1 where get: "mem_repoGet L r s = (x, s1)" by force
  obtain res s2 where create: "mem_blobCreate L r opts s1 = (res, s2)" by force
  have run: "x = Inr ()"
    using assms(2-4) Inr od get by (cases x) (auto simp: post_upload_def unsent_def with_repo_def)
  show ?thesis
  proof (cases res)
    case (Inl e)
    then have "e = ErrBlobExists" "d' = d" "s' = mem_done r s2"
      using assms(2-4) Inr od get create run
      by (auto simp: post_upload_def unsent_def with_repo_def Let_def acked_created_at split: if_splits)
    then show ?thesis
      using opts create Inl mem_create_exists create_algorithms_not_exists by fastforce
  next
    case (Inr usid)
    obtain u sid where usid: "usid = (u, sid)" by (cases usid)
    have dig: "query_get req ''digest'' \<noteq> []"
      and mono: "post_monolithic L (mem_ops L) r d u req (mem_done r s2, w) = (s', w')"
      using assms(2-4) \<open>post_options L req = _\<close> od get create run Inr usid
      by (auto simp: post_upload_def unsent_def with_repo_def Let_def upload_location_def split: if_splits)
    from dig opts obtain opts0 where "opts = opts0 @ [BlobWithDigest d]" by blast
    then have "upload_of u r d (mem_done r s2)"
      using create Inr usid mem_create_upload by (auto intro: upload_of_rest)
    from post_monolithic_ack [OF assms(1) this assms(2) mono assms(4)] show ?thesis by blast
  qed
qed

lemma mount_ack:
  assumes "writer_ok L" and "digest_ok L" and "unsent w"
    and "blobUploadMount L (mem_ops L) src r dig (s, w) = (None, s', w')" and "acked w' d'"
  shows "mem_has s' r d'"
proof -
  obtain d where d: "dig_parse L dig = Some d"
    using assms(4) by (auto simp: blobUploadMount_def split: option.splits)
  then have "d \<noteq> []" using parsed_digest [OF assms(2)] by blast
  have new: "upload_of u r d s2" if "mem_blobCreate L r [BlobWithDigest d] s1 = (Inr (u, sid), s2)" for u sid s1 s2
    using mem_create_upload [of L r "[]"] that by simp
  have closed: "mem_has s' r d"
    if "mem_blobCreate L r [BlobWithDigest d] s1 = (Inr (u, sid), s2)" "mem_repoGet L src (mem_done r s2) = (x, s4)" "mem_blobGet src d s4 = (y, s5)"
      "io_copy (mem_ops L) u cs f (mem_done src s5) = (z, s7)" "mem_close L u s7 = (Inr (), s')" for u sid s1 s2 x s4 y s5 cs f z s7
  proof -
    have "upload_of u r d (mem_done src s5)"
      using new [OF that(1)] that(2,3) by (metis upload_keeps(1,5) upload_of_rest(1))
    then have "upload_of u r d s7" by (rule mem_upload.keep_io_copy [OF that(4)])
    then show ?thesis using mem_close_expected mem_close_has assms(1) \<open>d \<noteq> []\<close> that(5) by blast
  qed
  have exists: "mem_has s2 r d" if "mem_blobCreate L r [BlobWithDigest d] s1 = (Inl ErrBlobExists, s2)" for s1 s2
    using mem_create_exists [of L r "[]"] that by simp
  show ?thesis
    using assms(3-5) d
    by (auto simp: blobUploadMount_def Let_def unsent_def acked_created_at split: sum.splits prod.splits if_splits
        intro: exists closed)
qed

text \<open>A session of the repository is one of its uploads.\<close>

lemma session_upload:
  assumes "mem_inv L D s" and "mem_blobSession r sid s = (Inr u, s')"
  shows "\<exists>e. upload_of u r e s'"
proof -
  obtain mr c where mr: "fmlookup (ms_repos s) r = Some mr" "cache_get (ms_now s) sid (mr_uploads mr) = (Inr u, c)"
    "s' = upd_repo r (\<lambda>m. m\<lparr>mr_uploads := c\<rparr>) s"
    using assms(2) by (auto simp: mem_blobSession_def split: option.splits sum.splits prod.splits)
  then have "cache_val (mr_uploads mr) sid = Some u"
    using cache_get_result [of "ms_now s" sid "mr_uploads mr"] by (simp split: option.splits)
  then have "owns (ms_heap s) r u" using mem_invD(1) [OF assms(1) mr(1)] repo_ok_sessions by blast
  then show ?thesis
    using assms(1) mr by (auto simp: upload_of_def owns_def mem_inv_def)
qed

lemma mem_inv_repoGet:
  assumes "writer_ok L" and "digest_ok L" and "mem_inv L D s" and "mem_repoGet L r s = (x, s')"
  shows "mem_inv L D s'"
  using mem_safe_repoGet [of L D s r] assms by (simp add: mem_safe_def)

lemma put_ack:
  assumes "writer_ok L" and "digest_ok L" and "mem_inv L D s" and "unsent w"
    and "blobUploadPut L (mem_ops L) r sid req (s, w) = (s', w')" and "acked w' d'"
  shows "mem_has s' r d'"
proof -
  obtain x s1 where get: "mem_repoGet L r s = (x, s1)" by force
  have x: "x = Inr ()"
    using assms(4-6) get by (cases x) (auto simp: blobUploadPut_def with_session_def with_repo_def unsent_def)
  obtain y s2 where sess: "mem_blobSession r sid s1 = (y, s2)" by force
  obtain u where u: "y = Inr u"
    using assms(4-6) get x sess
    by (cases y) (auto simp: blobUploadPut_def with_session_def with_repo_def unsent_def Let_def)
  obtain e where up: "upload_of u r e (mem_done r s2)"
    using session_upload mem_inv_repoGet [OF assms(1-3) get] sess u upload_of_rest(1) by blast
  have up': "upload_of u r e (snd (mem_changeAlgorithm u a (mem_done r s2)))" for a
    using up by (rule upload_of_changeAlgorithm)
  have put: "mem_has s' r d'" if "put_content L (mem_ops L) r d u req (t, w) = (s', w')" "upload_of u r e t" for d t
    using put_content_ack [OF assms(1) that(2) assms(4) that(1) assms(6)] by blast
  show ?thesis
    using assms(4-6) get x sess u up up'
    by (auto simp: blobUploadPut_def with_session_def with_repo_def unsent_def Let_def
        split: if_splits option.splits intro: put)
qed

section \<open>The round trip\<close>

text \<open>The requests that can upload a blob.\<close>

datatype blob_push = PushPost | PushPut string

fun push_request ::
    "lib \<Rightarrow> 's store_ops \<Rightarrow> config \<Rightarrow> string \<Rightarrow> blob_push \<Rightarrow> 's handler" where
  "push_request L S conf r PushPost = blobUploadPost L S conf r"
| "push_request L S conf r (PushPut sid) = blobUploadPut L S r sid"

lemma push_ack:
  assumes "writer_ok L" and "digest_ok L" and "mem_inv L D s"
    and "push_request L (mem_ops L) conf r p req (s, new_rw) = (s', w')" and "acked w' d'"
  shows "mem_has s' r d'"
proof (cases p)
  case PushPost
  have new: "unsent new_rw" by (rule unsent_new)
  have mount: "w1 = w" if "blobUploadMount L (mem_ops L) src r dig (s, w) = (Some e, s1, w1)" for src dig e s1 w w1
    using that by (auto simp: blobUploadMount_def Let_def split: option.splits prod.splits sum.splits if_splits)
  show ?thesis
    using assms(4,5) PushPost
    by (auto simp: blobUploadPost_def Let_def split: if_splits prod.splits option.splits
        dest: mount intro: post_upload_ack [OF assms(1) new] mount_ack [OF assms(1,2) new])
next
  case (PushPut sid)
  then show ?thesis
    using put_ack [OF assms(1-3) unsent_new _ assms(5)] assms(4) by simp
qed

text \<open>A blob in memory is served.\<close>

lemma mem_has_served:
  assumes "mem_inv L D s" and "mem_has s r d" and "dig_parse L d = Some d" and "d \<noteq> []"
    and "hdr_values (rq_header g) ''Range'' = []" and "rq_method g = ''GET''"
    and "blobGet L (mem_ops L) r d g (s, new_rw) = (s', w')"
  shows "rw_status w' = 200 \<and> (\<exists>b. rw_body w' = [ChunkBytes b] \<and> dig_from_bytes L (dig_algorithm L d) b = Some d)"
proof -
  obtain mr b where mr: "fmlookup (ms_repos s) r = Some mr" "fmlookup (mr_blobs mr) d = Some (Some b)"
    using assms(2) by (auto simp: mem_has_def)
  have ok: "mr_block mr" "blob_ok L d b" "\<not> ms_stop s"
    using mem_invD(1) [OF assms(1) mr(1)] mr(2) assms(1) by (auto simp: repo_ok_def mem_inv_def)
  have w: "w' = serve_content g (mb_bytes b)
      (header_add ''Docker-Content-Digest'' d (header_add ''Content-Type'' ''application/octet-stream'' new_rw))"
    using assms(3,4,7) mr ok
    by (auto simp: blobGet_def with_repo_def mem_repoGet_def mem_blobGet_def Let_def dig_is_zero_def serve_reader_def)
  then show ?thesis
    using serve_content_whole [OF assms(5)] ok(2) assms(6) by (simp add: blob_ok_def)
qed

text \<open>
  C24: A blob push that is acknowledged with status 201, by a monolithic or mounting POST or by the PUT
  that ends a session: the next pull of the digest in the response succeeds, with a content that
  hashes to the digest.
\<close>

theorem blob_push_pull:
  assumes "writer_ok L" and "digest_ok L" and "mem_inv L D s"
    and "push_request L (mem_ops L) conf r p req (s, new_rw) = (s1, w1)" and "acked w1 d"
    and "dig_parse L d = Some d"
    and "hdr_values (rq_header g) ''Range'' = []" and "rq_method g = ''GET''"
    and "blobGet L (mem_ops L) r d g (s1, new_rw) = (s2, w2)"
  shows "rw_status w2 = 200 \<and> (\<exists>b. rw_body w2 = [ChunkBytes b] \<and> dig_from_bytes L (dig_algorithm L d) b = Some d)"
proof -
  have "mem_inv L D s1"
  proof (cases p)
    case PushPost
    then show ?thesis
      using mem_safe.keep_blobUploadPost [of L D s L conf r req new_rw] assms(1-4) by (simp add: mem_safe_def)
  next
    case (PushPut sid)
    then show ?thesis
      using mem_safe.keep_blobUploadPut [of L D s L r sid req new_rw] assms(1-4) by (simp add: mem_safe_def)
  qed
  moreover have "d \<noteq> []" using parsed_digest [OF assms(2,6)] by simp
  ultimately show ?thesis
    using mem_has_served [OF _ push_ack [OF assms(1-5)] assms(6) _ assms(7-9)] by blast
qed

theorem blob_push_pull_witness:
  "\<exists>s1 w1 s2 w2. push_request demo_lib (mem_ops demo_lib) demo_conf ''a'' PushPost demo_post (blank_store, new_rw) = (s1, w1) \<and>
     acked w1 ''sha256:x'' \<and> blobGet demo_lib (mem_ops demo_lib) ''a'' ''sha256:x'' alice_request (s1, new_rw) = (s2, w2) \<and>
     rw_status w2 = 200 \<and>
     (\<exists>b. rw_body w2 = [ChunkBytes b] \<and> dig_from_bytes demo_lib (dig_algorithm demo_lib ''sha256:x'') b = Some ''sha256:x'')"
proof -
  obtain s1 w1 where push:
    "push_request demo_lib (mem_ops demo_lib) demo_conf ''a'' PushPost demo_post (blank_store, new_rw) = (s1, w1)"
    "w1 = created_at [''/v2'', ''a'', ''blobs'', ''sha256:x''] ''sha256:x'' new_rw"
    using demo_post_run [of new_rw] by auto
  have ack: "acked w1 ''sha256:x''"
    using push(2) unsent_new by (simp add: acked_created_at unsent_def)
  have parse: "dig_parse demo_lib ''sha256:x'' = Some ''sha256:x''" by (simp add: demo_lib_def)
  have get: "hdr_values (rq_header alice_request) ''Range'' = []" "rq_method alice_request = ''GET''"
    by (simp_all add: alice_request_def hdr_values_def)
  obtain s2 w2 where pull: "blobGet demo_lib (mem_ops demo_lib) ''a'' ''sha256:x'' alice_request (s1, new_rw) = (s2, w2)"
    by force
  show ?thesis
    using blob_push_pull [OF demo_lib_ok(2,1) blank_store_inv push(1) ack parse get pull] push(1) ack pull by blast
qed

end
