(* ===== verification/Manifest_Push.thy ===== *)
theory Manifest_Push
  imports Push_Pull
begin

text \<open>
  Pushing a manifest to the memory store: what an acknowledged push has checked, and that a tag it
  sets can be pulled.
\<close>

section \<open>A store that only grows\<close>

text \<open>Once it has the repository, a push of a manifest uses neither \<open>RepoGet\<close> nor \<open>BlobDelete\<close>.\<close>

definition grow_ops :: "lib \<Rightarrow> mem_store store_ops" where
  "grow_ops L = (mem_repo_ops L)\<lparr>so_blobDelete := (\<lambda>_ _ s. (Inl ErrNotFound, s))\<rparr>"

lemma grow_ops_simps [simp]:
  "so_repoGet (grow_ops L) = (\<lambda>_ s. (Inl (ErrOther ''not a store method''), s))" "so_done (grow_ops L) = mem_done"
  "so_indexGet (grow_ops L) = mem_indexGet" "so_indexInsert (grow_ops L) = mem_indexInsert L"
  "so_indexRemove (grow_ops L) = mem_indexRemove L" "so_blobGet (grow_ops L) = mem_blobGet"
  "so_blobCreate (grow_ops L) = mem_blobCreate L" "so_blobSession (grow_ops L) = mem_blobSession"
  "so_write (grow_ops L) = mem_write" "so_close (grow_ops L) = mem_close L"
  "so_cancel (grow_ops L) = mem_cancel" "so_size (grow_ops L) = mem_size"
  "so_digest (grow_ops L) = mem_digest L" "so_verify (grow_ops L) = mem_verify L"
  "so_changeAlgorithm (grow_ops L) = mem_changeAlgorithm"
  "so_blobDelete (grow_ops L) = (\<lambda>_ _ s. (Inl ErrNotFound, s))"
  by (simp_all add: grow_ops_def mem_repo_ops_def)

text \<open>A blob that is there, in memory or behind it, and one in memory.\<close>

definition stored :: "string \<Rightarrow> digest \<Rightarrow> mem_store \<Rightarrow> bool" where
  "stored r d s \<longleftrightarrow> mem_content r s d \<noteq> None"

definition in_mem :: "string \<Rightarrow> digest \<Rightarrow> mem_store \<Rightarrow> bool" where
  "in_mem r d s \<longleftrightarrow> d \<noteq> [] \<and> mem_has s r d"

lemma in_mem_stored: "in_mem r d s \<Longrightarrow> stored r d s"
  by (auto simp: in_mem_def mem_has_def stored_def mem_content_known)

text \<open>An update of a repository that at most adds blobs.\<close>

definition adds_blobs :: "(mem_repo \<Rightarrow> mem_repo) \<Rightarrow> bool" where
  "adds_blobs f \<longleftrightarrow> (\<forall>m. mr_path (f m) = mr_path m \<and>
     (\<forall>d. fmlookup (mr_blobs (f m)) d = fmlookup (mr_blobs m) d \<or> (\<exists>b. fmlookup (mr_blobs (f m)) d = Some (Some b))))"

lemma adds_blobs_intros [simp]:
  "adds_blobs (\<lambda>m. m\<lparr>mr_wg := n m\<rparr>)" "adds_blobs (\<lambda>m. m\<lparr>mr_index := i\<rparr>)" "adds_blobs (\<lambda>m. m\<lparr>mr_stuck := b\<rparr>)"
  "adds_blobs (\<lambda>m. m\<lparr>mr_timeMod := t\<rparr>)" "adds_blobs (\<lambda>m. m\<lparr>mr_uploads := c m\<rparr>)"
  "adds_blobs (\<lambda>m. m\<lparr>mr_timeMod := t, mr_uploads := c m\<rparr>)" "adds_blobs (\<lambda>m. m\<lparr>mr_timeMod := t, mr_index := g m\<rparr>)"
  "adds_blobs (\<lambda>m. m\<lparr>mr_blobs := fmupd d (Some mb) (mr_blobs m)\<rparr>)"
  by (auto simp: adds_blobs_def)

lemma in_mem_upd [simp]: "adds_blobs f \<Longrightarrow> in_mem r d s \<Longrightarrow> in_mem r d (upd_repo r' f s)"
  by (auto simp: in_mem_def mem_has_def adds_blobs_def) metis

lemma stored_upd [simp]:
  assumes "adds_blobs f" and "stored r d s"
  shows "stored r d (upd_repo r' f s)"
proof (cases "fmlookup (ms_repos s) r")
  case (Some mr)
  have path: "mr_path (f mr) = mr_path mr" using assms(1) by (simp add: adds_blobs_def)
  have old: "repo_content (ms_dir s) mr d \<noteq> None" "d \<noteq> []"
    using assms(2) Some by (auto simp: stored_def mem_content_def repo_content_def)
  have "repo_content (ms_dir s) (f mr) d \<noteq> None"
  proof (cases "fmlookup (mr_blobs (f mr)) d = fmlookup (mr_blobs mr) d")
    case True
    then show ?thesis using repo_content_cong [of "f mr" mr, OF path True] old(1) by simp
  next
    case False
    then obtain b where "fmlookup (mr_blobs (f mr)) d = Some (Some b)"
      using assms(1) unfolding adds_blobs_def by blast
    then show ?thesis using old(2) by (simp add: repo_content_def)
  qed
  then show ?thesis
    using old(1) Some by (auto simp: stored_def mem_content_def)
qed (use assms(2) in \<open>simp add: stored_def mem_content_no_repo\<close>)

lemma kept_frame [simp]:
  "stored r d (s\<lparr>ms_rand := ids\<rparr>) = stored r d s" "in_mem r d (s\<lparr>ms_rand := ids\<rparr>) = in_mem r d s"
  "stored r d (s\<lparr>ms_next := n, ms_heap := H\<rparr>) = stored r d s" "in_mem r d (s\<lparr>ms_next := n, ms_heap := H\<rparr>) = in_mem r d s"
  "stored r d (upd_upload u f s) = stored r d s" "in_mem r d (upd_upload u f s) = in_mem r d s"
  by (auto simp: stored_def in_mem_def mem_has_def mem_content_def split: option.split)

lemma mem_blobGet_keeps:
  "stored r d s \<Longrightarrow> stored r d (snd (mem_blobGet r' d' s))"
  "in_mem r d s \<Longrightarrow> in_mem r d (snd (mem_blobGet r' d' s))"
proof -
  have other: "mem_content r (note_missing r' d' s) d = (if r = r' \<and> d = d' then None else mem_content r s d)"
    by (cases "r = r'") (simp_all add: mem_content_def split: option.split)
  show "stored r d s \<Longrightarrow> stored r d (snd (mem_blobGet r' d' s))"
    by (rule mem_blobGet_cases [of r' d' s]) (auto simp: stored_def other)
  show "in_mem r d (snd (mem_blobGet r' d' s))" if s: "in_mem r d s"
  proof (rule mem_blobGet_cases [of r' d' s])
    assume "mem_blobGet r' d' s = (Inl ErrNotFound, note_missing r' d' s)" "mem_content r' s d' = None"
    moreover have "r \<noteq> r' \<or> d \<noteq> d'"
      using in_mem_stored [OF s] \<open>mem_content r' s d' = None\<close> by (auto simp: stored_def)
    ultimately show ?thesis using s by (auto simp: in_mem_def mem_has_def)
  qed (use s in auto)
qed

text \<open>Every method but the delete keeps what is there.\<close>

definition kept_by :: "(mem_store \<Rightarrow> bool) \<Rightarrow> bool" where
  "kept_by P \<longleftrightarrow>
     (\<forall>r f s. adds_blobs f \<longrightarrow> P s \<longrightarrow> P (upd_repo r f s)) \<and> (\<forall>u f s. P s \<longrightarrow> P (upd_upload u f s)) \<and>
     (\<forall>s ids. P s \<longrightarrow> P (s\<lparr>ms_rand := ids\<rparr>)) \<and> (\<forall>s n H. P s \<longrightarrow> P (s\<lparr>ms_next := n, ms_heap := H\<rparr>)) \<and>
     (\<forall>r d s. P s \<longrightarrow> P (snd (mem_blobGet r d s)))"

lemma kept_by_both: "kept_by (stored r d)" "kept_by (in_mem r d)"
  by (auto simp: kept_by_def mem_blobGet_keeps)

lemma kept_ops:
  assumes "kept_by P" and "P s"
  shows "P (mem_done r s)" "P (snd (mem_indexGet r s))" "P (snd (mem_indexInsert L r desc cs s))"
    "P (snd (mem_indexRemove L r desc s))" "P (snd (mem_blobSession r sid s))" "P (snd (mem_cancel u s))"
    "P (snd (mem_write u p s))" "P (snd (mem_changeAlgorithm u a s))" "P (snd (mem_verify L u d s))"
    "P (snd (mem_close L u s))" "P (snd (mem_blobGet r d s))" "P (snd (mem_blobCreate L r opts s))"
  using assms
  by (auto simp: kept_by_def mem_done_def mem_indexGet_def mem_indexInsert_def mem_indexRemove_def
      mem_blobSession_def mem_cancel_def drop_session_def mem_write_def mem_changeAlgorithm_def mem_verify_def
      mem_close_def mem_blobCreate_def start_upload_def Let_def
      split: option.split sum.split prod.split list.split)

interpretation grow: store_invariant "grow_ops L" "\<lambda>s. kept_by P \<longrightarrow> P s" for L P
  by unfold_locales (simp_all add: kept_ops)

lemma verify_grow:
  "verify_blob (mem_ops L) = verify_blob (grow_ops L)" "verify_layer (mem_ops L) = verify_layer (grow_ops L)"
  by (intro ext; unfold verify_layer_def verify_blob_def mem_ops_simps grow_ops_simps; rule refl)+

lemma verify_manifest_grow:
  "manifestVerifyImage (mem_ops L) = manifestVerifyImage (grow_ops L)"
  "manifestVerifyIndex (mem_ops L) = manifestVerifyIndex (grow_ops L)"
  by (intro ext; unfold manifestVerifyImage_def manifestVerifyIndex_def verify_grow; rule refl)+

lemma put_check_grow: "put_check L (mem_ops L) = put_check L (grow_ops L)"
  by (intro ext; unfold put_check_def verify_manifest_grow; rule refl)

lemma insert_tags_grow: "insert_tags (mem_ops L) = insert_tags (grow_ops L)"
proof (intro ext)
  fix r desc cs tags x
  show "insert_tags (mem_ops L) r desc cs tags x = insert_tags (grow_ops L) r desc cs tags x"
    by (induction tags arbitrary: x) (auto split: sum.split prod.split)
qed

lemma push_blob_grow: "push_blob (mem_ops L) = push_blob (grow_ops L)"
  by (intro ext; unfold push_blob_def write_close_def mem_ops_simps grow_ops_simps; rule refl)

lemma referrerAdd_grow: "referrerAdd L (mem_ops L) = referrerAdd L (grow_ops L)"
  by (intro ext; unfold referrerAdd_def old_response_def save_response_def push_blob_grow mem_ops_simps grow_ops_simps; rule refl)

lemma put_index_grow: "put_index (mem_ops L) = put_index (grow_ops L)"
  by (intro ext; unfold put_index_def insert_tags_grow mem_ops_simps grow_ops_simps; rule refl)

lemma put_store_grow: "put_store L (mem_ops L) = put_store L (grow_ops L)"
  by (intro ext; unfold put_store_def push_blob_grow referrerAdd_grow put_index_grow mem_ops_simps grow_ops_simps; rule refl)

text \<open>What was there before the updates of a push is there after them.\<close>

lemma put_store_keeps:
  assumes "kept_by P" and "put_store L (mem_ops L) r mt raw d tags ck (s, w) = (s', w')"
    and "\<forall>t\<in>set tags. refTagRE t" and "P s"
  shows "P s'"
  using grow.keep_put_store [of L L r mt raw d tags ck s w s' w' P] assms by (simp add: put_store_grow)

lemma put_check_keeps:
  assumes "kept_by P" and "put_check L (mem_ops L) conf r mt raw d s = (x, s')" and "P s"
  shows "P s'"
  using grow.keep_put_check [of L L conf r mt raw d s x s' P] assms by (simp add: put_check_grow)

section \<open>A repository that is there\<close>

definition loaded :: "string \<Rightarrow> mem_store \<Rightarrow> bool" where
  "loaded r s \<longleftrightarrow> fmlookup (ms_repos s) r \<noteq> None"

lemma loaded_frame [simp]:
  "loaded r (upd_repo r' f s) = loaded r s" "loaded r (upd_upload u g s) = loaded r s"
  "loaded r (s\<lparr>ms_rand := ids\<rparr>) = loaded r s" "loaded r (s\<lparr>ms_next := n, ms_heap := H\<rparr>) = loaded r s"
  "loaded r (note_missing r' d s) = loaded r s"
  by (auto simp: loaded_def)

lemma loaded_blobGet [simp]: "loaded r (snd (mem_blobGet r' d s)) = loaded r s"
  by (cases rule: mem_blobGet_cases [of r' d s]) simp_all

lemma kept_by_loaded: "kept_by (loaded r)"
  by (simp add: kept_by_def)

lemma loaded_blobDelete: "loaded r s \<Longrightarrow> loaded r (snd (mem_blobDelete r' d s))"
  by (simp add: mem_blobDelete_def split: option.split)

interpretation repo_loaded: store_invariant "mem_repo_ops L" "loaded r" for L r
  by unfold_locales (simp_all add: mem_repo_ops_def kept_ops [OF kept_by_loaded] loaded_blobDelete)

lemma repoGet_loaded: "mem_repoGet L r s = (Inr x, s') \<Longrightarrow> loaded r s'"
proof -
  have init: "mem_repoInit L r mr s = Some (x, s') \<Longrightarrow> loaded r s \<Longrightarrow> loaded r s'" for mr s x s'
    by (auto simp: mem_repoInit_def split: prod.splits os_res.splits bool.splits if_splits option.splits
        dest: repo_loaded.keep_indexIngest)
  have new: "loaded r (s\<lparr>ms_repos := fmupd r mr (ms_repos s)\<rparr>)" for mr
    by (simp add: loaded_def)
  have "loaded r s" if "fmlookup (ms_repos s) r \<noteq> None" for s using that by (simp add: loaded_def)
  then show "mem_repoGet L r s = (Inr x, s') \<Longrightarrow> loaded r s'"
    using new by (auto simp: mem_repoGet_def Let_def split: option.splits sum.splits prod.splits if_splits dest!: init)
qed

section \<open>What an acknowledged push has checked\<close>

lemma verify_blob_ok:
  assumes "verify_blob (mem_ops L) r msg d (es, s) = ([], s')"
  shows "es = [] \<and> s' = s \<and> stored r d s"
proof (rule mem_blobGet_cases [of r d s])
  fix res
  assume "mem_blobGet r d s = (res, s)" "mem_content r s d = (case res of Inr rd \<Rightarrow> Some rd | Inl _ \<Rightarrow> None)"
  then show ?thesis using assms by (cases res) (auto simp: verify_blob_def stored_def)
qed (use assms in \<open>simp add: verify_blob_def\<close>)

definition layer_there :: "string \<Rightarrow> mem_store \<Rightarrow> descriptor \<Rightarrow> bool" where
  "layer_there r s d \<longleftrightarrow> mediaTypeForeign (d_mediaType d) \<or> d_urls d \<noteq> [] \<or> stored r (d_digest d) s"

lemma verify_layer_ok:
  "verify_layer (mem_ops L) r d (es, s) = ([], s') \<Longrightarrow> es = [] \<and> s' = s \<and> layer_there r s d"
  by (auto simp: verify_layer_def layer_there_def split: if_splits dest: verify_blob_ok)

lemma verify_fold_ok:
  assumes "\<And>d es s s'. f d (es, s) = ([], s') \<Longrightarrow> es = [] \<and> s' = s \<and> Q s d"
  shows "fold f ds (es, s) = ([], s') \<Longrightarrow> es = [] \<and> s' = s \<and> (\<forall>d\<in>set ds. Q s d)"
proof (induction ds arbitrary: es s)
  case (Cons d ds)
  obtain es1 s1 where f: "f d (es, s) = (es1, s1)" by force
  then have "es1 = [] \<and> s' = s1 \<and> (\<forall>d\<in>set ds. Q s1 d)" using Cons by simp
  then show ?case using assms [of d es s s1] f by simp
qed simp

text \<open>The content of a manifest or index whose references are all there.\<close>

definition complete :: "lib \<Rightarrow> config \<Rightarrow> string \<Rightarrow> mem_store \<Rightarrow> string \<Rightarrow> bytes \<Rightarrow> bool" where
  "complete L conf r s mt raw \<longleftrightarrow>
     mediaTypeImage mt \<and> (\<exists>m. json_manifest L raw = Some m \<and> (deref (ca_sparseImage (c_api conf)) \<or>
        (d_urls (m_config m) = [] \<longrightarrow> stored r (d_digest (m_config m)) s) \<and> (\<forall>d\<in>set (m_layers m). layer_there r s d))) \<or>
     mediaTypeIndex mt \<and> (\<exists>m. json_index L raw = Some m \<and> (deref (ca_sparseIndex (c_api conf)) \<or>
        (\<forall>d\<in>set (i_manifests m). stored r (d_digest d) s)))"

lemma complete_mono:
  assumes "complete L conf r s mt raw" and "\<And>d. stored r d s \<Longrightarrow> stored r d s'"
  shows "complete L conf r s' mt raw"
  using assms unfolding complete_def layer_there_def by blast

lemma put_check_complete:
  assumes "put_check L (mem_ops L) conf r mt raw d s = (Inr ck, s')"
  shows "complete L conf r s' mt raw"
proof (cases "mediaTypeImage mt")
  case True
  obtain m where m: "json_manifest L raw = Some m" "manifestVerifyImage (mem_ops L) conf r m s = ([], s')"
    using assms True by (auto simp: put_check_def split: option.splits prod.splits if_splits)
  show ?thesis
  proof (cases "deref (ca_sparseImage (c_api conf))")
    case False
    then have "fold (verify_layer (mem_ops L) r) (m_layers m)
       (if d_urls (m_config m) = []
        then verify_blob (mem_ops L) r ''config not found: '' (d_digest (m_config m)) ([], s) else ([], s)) = ([], s')"
      using m(2) by (simp add: manifestVerifyImage_def)
    moreover obtain es1 s1 where c: "(if d_urls (m_config m) = []
        then verify_blob (mem_ops L) r ''config not found: '' (d_digest (m_config m)) ([], s) else ([], s)) = (es1, s1)"
      by force
    ultimately have "es1 = [] \<and> s' = s1 \<and> (\<forall>d\<in>set (m_layers m). layer_there r s1 d)"
      using verify_fold_ok [where f = "verify_layer (mem_ops L) r" and Q = "layer_there r", OF verify_layer_ok] by simp
    then show ?thesis
      using c m True by (auto simp: complete_def split: if_splits dest: verify_blob_ok)
  qed (use True m in \<open>simp add: complete_def\<close>)
next
  case False
  then obtain m where m: "mediaTypeIndex mt" "json_index L raw = Some m" "manifestVerifyIndex (mem_ops L) conf r m s = ([], s')"
    using assms by (auto simp: put_check_def split: option.splits prod.splits if_splits)
  show ?thesis
  proof (cases "deref (ca_sparseIndex (c_api conf))")
    case False
    then have "fold (\<lambda>d. verify_blob (mem_ops L) r ''manifest not found: '' (d_digest d)) (i_manifests m) ([], s) = ([], s')"
      using m(3) by (simp add: manifestVerifyIndex_def)
    from verify_fold_ok [OF _ this, where Q = "\<lambda>s d. stored r (d_digest d) s", OF verify_blob_ok]
    show ?thesis using m by (auto simp: complete_def)
  qed (use m in \<open>simp add: complete_def\<close>)
qed

section \<open>The round trip of a tag\<close>

text \<open>A stored manifest is in memory.\<close>

lemma push_blob_in_mem:
  assumes "writer_ok L" and "d \<noteq> []" and "push_blob (mem_ops L) r d raw s = (Inr x, s')"
  shows "in_mem r d s'"
proof -
  obtain res s1 where create: "mem_blobCreate L r [BlobWithDigest d] s = (res, s1)" by force
  show ?thesis
  proof (cases res)
    case (Inl e)
    then show ?thesis
      using assms create mem_create_exists [of L r "[]"] by (auto simp: push_blob_def in_mem_def split: if_splits)
  next
    case (Inr usid)
    obtain u sid where usid: "usid = (u, sid)" by (cases usid)
    then have up: "upload_of u r d s1" using create Inr mem_create_upload [of L r "[]"] by simp
    obtain y s2 where w: "mem_write u raw s1 = (y, s2)" by force
    then have up2: "upload_of u r d s2" using up upload_of_write by (metis snd_conv)
    have "mem_close L u s2 = (Inr x, s')"
      using assms(3) create Inr usid w by (auto simp: push_blob_def write_close_def split: sum.splits prod.splits)
    then show ?thesis
      using mem_close_has [OF assms(1) up2] mem_close_expected [OF up2 assms(2)] assms(2) by (auto simp: in_mem_def)
  qed
qed

text \<open>The repository, with the index left by the updates of a push.\<close>

definition tag_at :: "string \<Rightarrow> string \<Rightarrow> mem_store \<Rightarrow> digest option" where
  "tag_at r t s = (case fmlookup (ms_repos s) r of None \<Rightarrow> None | Some mr \<Rightarrow> tag_map (mr_index mr) t)"

lemma insert_tags_result:
  assumes "insert_tags (mem_ops L) r desc cs tags (s, w) = (True, s', w')"
    and "fmlookup (ms_repos s) r \<noteq> None" and "\<forall>t\<in>set tags. t \<noteq> []"
  shows "(\<forall>t\<in>set tags. tag_at r t s' = Some (d_digest desc)) \<and>
     (\<forall>t. tag_at r t s = Some (d_digest desc) \<longrightarrow> tag_at r t s' = Some (d_digest desc)) \<and>
     rw_sent w' = rw_sent w \<and> (\<forall>k. hdr_values (rw_header w') k =
        hdr_values (rw_header w) k @ (if to_lower k = to_lower ''OCI-Tag'' then tags else []))"
  using assms
proof (induction tags arbitrary: s w)
  case (Cons t ts)
  let ?d = "desc\<lparr>d_annotations := fmupd annot_ref_name t fmempty\<rparr>"
  obtain s1 where s1: "mem_indexInsert L r ?d cs s = (Inr (), s1)"
    "insert_tags (mem_ops L) r desc cs ts (s1, header_add ''OCI-Tag'' t w) = (True, s', w')"
    using Cons.prems(1) by (auto split: sum.splits prod.splits)
  obtain mr where mr: "fmlookup (ms_repos s) r = Some mr" using Cons.prems(2) by blast
  have "subject_of ?d = []" "tag_of ?d = t" "t \<noteq> []"
    using Cons.prems(3) by (auto simp: annotationVal_def)
  then have "tag_map (add_desc L now ?d cs li) = (tag_map li)(t \<mapsto> d_digest desc)" for now li
    using add_desc_tag_map [of ?d L now cs li] by simp
  then have tags: "tag_at r x s1 = (if x = t then Some (d_digest desc) else tag_at r x s)" for x
    using s1(1) mr by (auto simp: mem_indexInsert_def tag_at_def split: if_splits)
  have "fmlookup (ms_repos s1) r \<noteq> None"
    using s1(1) mr by (auto simp: mem_indexInsert_def split: if_splits)
  from Cons.IH [OF s1(2) this] Cons.prems(3) show ?case
    by (auto simp: tags)
qed simp

lemma to_lower_oci [simp]:
  "to_lower ''OCI-Tag'' = ''oci-tag''" "to_lower ''OCI-Subject'' = ''oci-subject''"
  by code_simp+

lemma put_index_result:
  assumes "put_index (mem_ops L) r desc cs tags (s, w) = (True, s', w')"
    and "fmlookup (ms_repos s) r \<noteq> None" and "\<forall>t\<in>set tags. t \<noteq> []"
  shows "(\<forall>t\<in>set tags. tag_at r t s' = Some (d_digest desc)) \<and> rw_sent w' = rw_sent w \<and>
     (\<forall>k. hdr_values (rw_header w') k = hdr_values (rw_header w) k @ (if to_lower k = ''oci-tag'' then tags else []))"
  using assms insert_tags_result [of L r desc cs tags s w s' w']
  by (cases "tags = []") (auto simp: put_index_def split: prod.splits sum.splits)

lemma put_index_sent: "put_index S r desc cs tags (s, w) = (ok, s', w') \<Longrightarrow> rw_sent w' = rw_sent w"
proof -
  have "insert_tags S r desc cs tags (s, w) = (ok, s', w') \<Longrightarrow> rw_sent w' = rw_sent w" for s w
    by (induction tags arbitrary: s w) (auto split: sum.splits prod.splits)
  then show "put_index S r desc cs tags (s, w) = (ok, s', w') \<Longrightarrow> rw_sent w' = rw_sent w"
    by (auto simp: put_index_def split: if_splits sum.splits prod.splits)
qed

lemma sent_created_at:
  "rw_sent w = None \<Longrightarrow> to_lower k \<noteq> ''location'' \<Longrightarrow> to_lower k \<noteq> ''docker-content-digest'' \<Longrightarrow>
     hdr_values (rw_sent_header (created_at path d w)) k = hdr_values (rw_header w) k"
  by (simp add: created_at_def rw_sent_header_def)

section \<open>Tags and responses are separate entries\<close>

text \<open>
  No entry of an index has both a tag and a subject.  The handlers keep this, so the update of a response
  never takes the place of a tag.
\<close>

definition separate :: "descriptor list \<Rightarrow> bool" where
  "separate ms \<longleftrightarrow> (\<forall>c\<in>set ms. tag_of c = [] \<or> subject_of c = [])"

lemma separate_subset: "separate ms \<Longrightarrow> set ms' \<subseteq> set ms \<Longrightarrow> separate ms'"
  by (auto simp: separate_def)

lemma separate_delete_at: "separate ms \<Longrightarrow> separate (delete_at i ms)"
  by (auto simp: separate_def delete_at_def dest: in_set_takeD in_set_dropD)

lemma separate_update: "separate ms \<Longrightarrow> tag_of d = [] \<or> subject_of d = [] \<Longrightarrow> separate (ms[i := d])"
  unfolding separate_def using set_update_subset_insert [of ms i d] by blast

lemma separate_move: "separate (i_manifests li) \<Longrightarrow> separate (i_manifests (fold move_child cs li))"
proof (induction cs arbitrary: li)
  case (Cons c cs)
  have "separate (i_manifests (move_child c li))"
    using Cons.prems separate_delete_at by (auto simp: move_child_def split: option.split)
  then show ?case using Cons.IH by simp
qed simp

lemma separate_add:
  assumes "separate (i_manifests li)" and "insertable d"
  shows "separate (i_manifests (add_desc L now d cs li))"
proof -
  let ?d = "stamp_created L now d" and ?ms = "i_manifests (fold move_child cs li)"
  have d: "tag_of ?d = [] \<or> subject_of ?d = []" using assms(2) by (auto simp: insertable_def)
  have ms: "separate ?ms" using assms(1) by (rule separate_move)
  show ?thesis
  proof (cases "subject_of d = []")
    case True
    have place: "separate (place_desc t ?d xs)" if "separate xs" for t xs
      using that d set_place_desc [of t ?d xs] unfolding separate_def by blast
    have "separate (untag_loop t dig (length ?ms) ?ms)" for t dig
      by (rule untag_loop_inv [where P = separate]) (use ms in \<open>auto intro: separate_update separate_delete_at\<close>)
    then show ?thesis unfolding add_desc_manifests [OF True] Let_def using ms place by simp
  next
    case False
    have "separate (?ms @ [?d])" using ms d by (auto simp: separate_def)
    moreover have "separate (?ms[i := ?d])" for i using separate_update [OF ms d] .
    ultimately show ?thesis using False by (simp add: add_desc_def Let_def split: option.split)
  qed
qed

lemma separate_rm:
  assumes "separate (i_manifests li)"
  shows "separate (i_manifests (rm_desc L now d li))"
proof (cases "tag_of d = []")
  case True
  then show ?thesis using assms by (auto simp: rm_desc_untagged separate_def delete_func_def)
next
  case False
  show ?thesis
  proof (cases rule: rm_desc_tagged_cases [OF False, where li = li and L = L and now = now])
    case (2 ys y zs)
    then show ?thesis using assms by (auto simp: separate_def)
  qed (use assms in \<open>auto simp: separate_def delete_func_def\<close>)
qed

text \<open>The update of a response leaves the tags of such an index.\<close>

lemma response_keeps_tags:
  assumes "separate (i_manifests li)" and "tag_of d = []" and "subject_of d \<noteq> []" and "tag_map li t = Some x"
  shows "tag_map (add_desc L now d cs li) t = Some x"
proof -
  let ?ms = "i_manifests (fold move_child cs li)" and ?d = "stamp_created L now d"
  have t: "t \<noteq> []" using assms(4) by (auto simp: tag_map_def split: if_splits)
  have "filter (\<lambda>c. tag_of c = t) (?ms[i := ?d]) = filter (\<lambda>c. tag_of c = t) ?ms"
    if "index_func (\<lambda>cur. subject_of cur = subject_of d) ?ms = Some i" for i
  proof -
    have i: "i < length ?ms" "subject_of (?ms ! i) = subject_of d" using index_func_SomeD [OF that] by simp_all
    then have "tag_of (?ms ! i) = []" using separate_move [OF assms(1), of cs] assms(3) by (auto simp: separate_def)
    then show ?thesis
      using i(1) assms(2) t by (subst (2) id_take_nth_drop [OF i(1)]) (simp add: upd_conv_take_nth_drop)
  qed
  then have "filter (\<lambda>c. tag_of c = t) (i_manifests (add_desc L now d cs li)) = filter (\<lambda>c. tag_of c = t) (i_manifests li)"
    using assms(2,3) t fold_move_child_tags [OF t, of cs li] by (auto simp: add_desc_def Let_def split: option.split)
  then show ?thesis using tag_map_filter assms(4) by metis
qed

text \<open>The index of a repository in the store, and what leaves it alone.\<close>

definition index_of :: "string \<Rightarrow> mem_store \<Rightarrow> layout_index option" where
  "index_of r s = map_option mr_index (fmlookup (ms_repos s) r)"

definition tags_apart :: "string \<Rightarrow> mem_store \<Rightarrow> bool" where
  "tags_apart r s \<longleftrightarrow> (\<exists>li. index_of r s = Some li \<and> separate (i_manifests li))"

lemma index_of_frame [simp]:
  "index_of r (upd_upload u g s) = index_of r s" "index_of r (s\<lparr>ms_rand := ids\<rparr>) = index_of r s"
  "index_of r (s\<lparr>ms_next := n, ms_heap := H\<rparr>) = index_of r s"
  by (simp_all add: index_of_def)

lemma index_of_upd: "(\<And>m. mr_index (f m) = mr_index m) \<Longrightarrow> index_of r (upd_repo r' f s) = index_of r s"
  by (simp add: index_of_def option.map_comp comp_def)

lemma index_of_note_missing [simp]: "index_of r (note_missing r' d s) = index_of r s"
  by (auto simp: index_of_def option.map_comp comp_def)

lemma index_of_ops [simp]:
  "index_of r (mem_done r' s) = index_of r s" "index_of r (snd (mem_indexGet r' s)) = index_of r s"
  "index_of r (snd (mem_blobGet r' d s)) = index_of r s" "index_of r (snd (mem_blobCreate L r' opts s)) = index_of r s"
  "index_of r (snd (mem_blobSession r' sid s)) = index_of r s" "index_of r (snd (mem_write u p s)) = index_of r s"
  "index_of r (snd (mem_close L u s)) = index_of r s" "index_of r (snd (mem_cancel u s)) = index_of r s"
  "index_of r (snd (mem_verify L u d s)) = index_of r s" "index_of r (snd (mem_changeAlgorithm u a s)) = index_of r s"
  by (auto simp: mem_done_def mem_indexGet_def mem_blobGet_def mem_blobCreate_def mem_blobSession_def mem_write_def mem_close_def
      mem_cancel_def mem_verify_def mem_changeAlgorithm_def drop_session_def start_upload_def Let_def index_of_upd
      split: option.split sum.split prod.split list.split os_res.split)

lemma tags_apart_upd: "(\<And>m. mr_index (f m) = g (mr_index m)) \<Longrightarrow> (\<And>li. separate (i_manifests li) \<Longrightarrow> separate (i_manifests (g li))) \<Longrightarrow>
    tags_apart r s \<Longrightarrow> tags_apart r (upd_repo r' f s)"
  by (auto simp: tags_apart_def index_of_def)

interpretation apart: store_invariant "grow_ops L" "tags_apart r" for L r
proof unfold_locales
  show "tags_apart r (snd (so_indexInsert (grow_ops L) r' d cs s))" if "insertable d" "tags_apart r s" for r' d cs s
    using that separate_add tags_apart_upd by (auto simp: mem_indexInsert_def)
  show "tags_apart r (snd (so_indexRemove (grow_ops L) r' d s))" if "tags_apart r s" for r' d s
    using that separate_rm tags_apart_upd by (auto simp: mem_indexRemove_def)
qed (simp_all add: tags_apart_def)

definition quiet_ops :: "lib \<Rightarrow> mem_store store_ops" where
  "quiet_ops L = (grow_ops L)\<lparr>so_indexInsert := (\<lambda>_ _ _ s. (Inl ErrNotFound, s)),
     so_indexRemove := (\<lambda>_ _ s. (Inl ErrNotFound, s))\<rparr>"

lemma quiet_ops_simps [simp]:
  "so_repoGet (quiet_ops L) = so_repoGet (grow_ops L)" "so_done (quiet_ops L) = mem_done"
  "so_indexGet (quiet_ops L) = mem_indexGet" "so_indexInsert (quiet_ops L) = (\<lambda>_ _ _ s. (Inl ErrNotFound, s))"
  "so_indexRemove (quiet_ops L) = (\<lambda>_ _ s. (Inl ErrNotFound, s))" "so_blobGet (quiet_ops L) = mem_blobGet"
  "so_blobCreate (quiet_ops L) = mem_blobCreate L" "so_blobSession (quiet_ops L) = mem_blobSession"
  "so_write (quiet_ops L) = mem_write" "so_close (quiet_ops L) = mem_close L"
  "so_cancel (quiet_ops L) = mem_cancel" "so_verify (quiet_ops L) = mem_verify L"
  "so_changeAlgorithm (quiet_ops L) = mem_changeAlgorithm" "so_blobDelete (quiet_ops L) = so_blobDelete (grow_ops L)"
  by (simp_all add: quiet_ops_def)

interpretation quiet: store_invariant "quiet_ops L" "\<lambda>s. index_of r s = x" for L r x
  by unfold_locales simp_all

lemma push_blob_index: "push_blob (mem_ops L) r d raw s = (y, s') \<Longrightarrow> index_of r' s' = index_of r' s"
proof -
  have "push_blob (mem_ops L) = push_blob (quiet_ops L)"
    by (intro ext; unfold push_blob_def write_close_def mem_ops_simps quiet_ops_simps; rule refl)
  then show "push_blob (mem_ops L) r d raw s = (y, s') \<Longrightarrow> index_of r' s' = index_of r' s"
    using quiet.keep_push_blob [of L r d raw s y s' r' "index_of r' s"] by simp
qed

text \<open>So the addition of a referrer keeps the tags.\<close>

lemma referrerAdd_tags:
  assumes "referrerAdd L (mem_ops L) r subject d s = (Inr (), s')" and "tags_apart r s" and "tag_at r t s = Some x"
  shows "tag_at r t s' = Some x"
proof -
  obtain li where li: "mem_indexGet r s = (Inr li, s)"
    using assms(1) by (auto simp: referrerAdd_def mem_indexGet_def split: option.splits sum.splits prod.splits)
  obtain old s2 where old: "old_response L (mem_ops L) r subject li s = (old, s2)" by force
  have ix2: "index_of r s2 = index_of r s"
    using old by (auto simp: old_response_def split: sum.splits prod.splits) (metis index_of_ops(3) snd_conv)+
  obtain raw dig s3 ms where
    save: "push_blob (mem_ops L) r dig raw s2 = (Inr (), s3)" "mem_indexInsert L r (response_desc dig raw subject) ms s3 = (Inr (), s')"
    using assms(1) li old by (auto simp: referrerAdd_def save_response_def split: option.splits sum.splits prod.splits)
  have ix3: "index_of r s3 = index_of r s" using push_blob_index [OF save(1)] ix2 by simp
  then obtain mr where mr: "fmlookup (ms_repos s3) r = Some mr" "separate (i_manifests (mr_index mr))" "tag_map (mr_index mr) t = Some x"
    using assms(2,3) by (auto simp: tags_apart_def index_of_def tag_at_def split: option.splits)
  have d: "tag_of (response_desc dig raw subject) = []" "subject_of (response_desc dig raw subject) = subject"
    by (simp_all add: response_desc_def annotationVal_def)
  have "tag_map (add_desc L now (response_desc dig raw subject) ms (mr_index mr)) t = Some x" for now
  proof (cases "subject = []")
    case True
    then show ?thesis using add_desc_untagged_refines [of "response_desc dig raw subject" L now ms "mr_index mr"] d mr(3) by simp
  next
    case False
    then show ?thesis using response_keeps_tags [OF mr(2) d(1) _ mr(3)] d(2) by simp
  qed
  then show ?thesis using save(2) mr(1) by (auto simp: mem_indexInsert_def tag_at_def split: if_splits)
qed

section \<open>What an acknowledged push has stored\<close>

lemma put_store_ack:
  assumes "writer_ok L" and "d \<noteq> []" and "fmlookup (ms_repos s) r \<noteq> None" and "\<forall>t\<in>set tags. refTagRE t"
    and "put_store L (mem_ops L) r mt raw d tags ck (s, new_rw) = (s', w')" and "acked w' d'"
  shows "d' = d \<and> in_mem r d s' \<and> hdr_values (rw_sent_header w') ''OCI-Tag'' = tags \<and>
     (hdr_values (rw_sent_header w') ''OCI-Subject'' = [] \<or> tags_apart r s \<longrightarrow> (\<forall>t\<in>set tags. tag_at r t s' = Some d))"
proof -
  obtain children referrer where ck: "ck = (children, referrer)" by (cases ck)
  let ?desc = "zero_descriptor\<lparr>d_mediaType := mt, d_size := int (length raw), d_digest := d\<rparr>"
  have desc: "d_annotations ?desc = fmempty" by (simp add: zero_descriptor_def)
  have named: "\<forall>t\<in>set tags. t \<noteq> []" using assms(4) refTagRE_not_Nil by blast
  obtain x s1 where push: "push_blob (mem_ops L) r d raw s = (x, s1)" by force
  have x: "x = Inr ()" using assms(5,6) push ck by (cases x) (auto simp: put_store_def)
  have mem: "in_mem r d s1" using push_blob_in_mem [OF assms(1,2)] push x by blast
  then have loaded: "fmlookup (ms_repos s1) r \<noteq> None" by (auto simp: in_mem_def mem_has_def)
  obtain ok s2 w1 where index: "put_index (mem_ops L) r ?desc children tags (s1, new_rw) = (ok, s2, w1)"
    by (metis prod_cases3)
  have sent: "rw_sent w1 = None" "hdr_values (rw_header w1) ''Docker-Content-Digest'' = []" if ok
  proof -
    from index that have "put_index (mem_ops L) r ?desc children tags (s1, new_rw) = (True, s2, w1)" by simp
    from put_index_result [OF this loaded named]
    show "rw_sent w1 = None" "hdr_values (rw_header w1) ''Docker-Content-Digest'' = []" by simp_all
  qed
  have ok: ok
  proof (rule ccontr)
    assume "\<not> ok"
    then have "w' = writeHeader 500 w1" using assms(5) push x ck index by (simp add: put_store_def)
    then show False using assms(6) put_index_sent [OF index] by simp
  qed
  note tags = put_index_result [OF index [unfolded eqTrueI [OF ok]] loaded named]
  have mem2: "in_mem r d s2"
    using grow.keep_put_index [of L r ?desc children tags s1 new_rw ok s2 w1 "in_mem r d"] index assms(4) desc mem kept_by_both(2)
    by (simp add: put_index_grow)
  show ?thesis
  proof (cases referrer)
    case None
    then have run: "s' = s2" "w' = created_at [''/v2'', r, ''manifests'', d] d w1"
      using assms(5) push x ck index ok by (simp_all add: put_store_def)
    then show ?thesis
      using run assms(6) sent [OF ok] tags mem2 by (auto simp: acked_created_at sent_created_at)
  next
    case (Some sr)
    obtain subject refDesc where sr: "sr = (subject, refDesc)" by (cases sr)
    obtain y s3 where add: "referrerAdd L (mem_ops L) r subject refDesc s2 = (y, s3)" by force
    have y: "y = Inr ()"
      using assms(5,6) push x ck index ok Some sr add sent [OF ok] by (cases y) (auto simp: put_store_def)
    have run: "s' = s3" "w' = created_at [''/v2'', r, ''manifests'', d] d (header_set ''OCI-Subject'' subject w1)"
      using assms(5) push x ck index ok Some sr add y by (simp_all add: put_store_def)
    have "in_mem r d s'"
      using grow.keep_referrerAdd [of L L r subject refDesc s2 y s3 "in_mem r d"] add mem2 kept_by_both(2) run(1)
      by (simp add: referrerAdd_grow)
    moreover have "tag_at r t s' = Some d" if "tags_apart r s" "t \<in> set tags" for t
    proof -
      have "tags_apart r s2"
        using apart.keep_push_blob [of L r d raw s x s1 r] apart.keep_put_index [of L r ?desc children tags s1 new_rw ok s2 w1 r]
          push index assms(4) desc that(1) by (simp add: put_index_grow push_blob_grow)
      then show ?thesis using referrerAdd_tags [OF add [unfolded y]] tags that(2) run(1) by simp
    qed
    ultimately show ?thesis
      using run assms(6) sent [OF ok] tags by (auto simp: acked_created_at sent_created_at)
  qed
qed

text \<open>An acknowledged push went all the way.\<close>

lemma not_acked_refuse: "fst f \<noteq> 201 \<Longrightarrow> rw_sent w = None \<Longrightarrow> \<not> acked (refuse f w) d"
  by (cases f) (simp add: refuse_def)

lemma refusals:
  "put_params L conf arg req = Inl f \<Longrightarrow> fst f \<noteq> 201"
  "put_read L conf dExpect req = Inl f \<Longrightarrow> fst f \<noteq> 201"
  "put_check L S conf r mt raw d s = (Inl f, s') \<Longrightarrow> fst f \<noteq> 201"
  by (auto simp: put_params_def put_tags_def put_read_def put_check_def Let_def
      split: if_splits option.splits sum.splits prod.splits)

lemma manifestPut_run:
  assumes "manifestPut L (mem_ops L) conf r arg req (s, new_rw) = (s', w')" and "acked w' d'"
  obtains s0 mt0 dExpect tags raw d ck s1 s2 where "mem_repoGet L r s = (Inr (), s0)"
    "put_params L conf arg req = Inr (mt0, dExpect, tags)" "put_read L conf dExpect req = Inr (raw, d)"
    "put_check L (mem_ops L) conf r (if mt0 = [] then mediaTypeDetect L raw else mt0) raw d s0 = (Inr ck, s1)"
    "put_store L (mem_ops L) r (if mt0 = [] then mediaTypeDetect L raw else mt0) raw d tags ck (s1, new_rw) = (s2, w')"
    "s' = mem_done r s2"
proof -
  obtain x s0 where get: "mem_repoGet L r s = (x, s0)" by force
  have rw: "\<not> read_only conf" "x = Inr ()"
    using assms get by (cases x; auto simp: manifestPut_def with_repo_def split: if_splits)+
  obtain mt0 dExpect tags where params: "put_params L conf arg req = Inr (mt0, dExpect, tags)"
    using assms get rw refusals(1) [of L conf arg req]
    by (cases "put_params L conf arg req") (auto simp: manifestPut_def with_repo_def not_acked_refuse)
  obtain raw d where read: "put_read L conf dExpect req = Inr (raw, d)"
    using assms get rw params refusals(2) [of L conf dExpect req]
    by (cases "put_read L conf dExpect req") (auto simp: manifestPut_def with_repo_def not_acked_refuse)
  let ?mt = "if mt0 = [] then mediaTypeDetect L raw else mt0"
  obtain c s1 where check: "put_check L (mem_ops L) conf r ?mt raw d s0 = (c, s1)" by force
  obtain ck where c: "c = Inr ck"
    using assms get rw params read check refusals(3) [of L "mem_ops L" conf r ?mt raw d s0]
    by (cases c) (auto simp: manifestPut_def with_repo_def Let_def not_acked_refuse)
  obtain s2 w2 where store: "put_store L (mem_ops L) r ?mt raw d tags ck (s1, new_rw) = (s2, w2)" by force
  have "s' = mem_done r s2" "w' = w2"
    using assms(1) get rw params read check c store by (simp_all add: manifestPut_def with_repo_def Let_def)
  then show thesis using that get rw params read check c store by blast
qed

lemma put_read_digest:
  assumes "digest_ok L" and "put_read L conf dExpect req = Inr (raw, d)"
  shows "dig_from_bytes L (dig_algorithm L d) raw = Some d \<and> d \<noteq> [] \<and> dig_parse L d = Some d \<and>
     read_limited (ca_manifestLimit (c_api conf)) req = Some raw"
proof -
  obtain a where a: "dig_from_bytes L a raw = Some d" "read_limited (ca_manifestLimit (c_api conf)) req = Some raw"
    using assms(2) by (auto simp: put_read_def split: option.splits if_splits)
  then have "dig_parse L d = Some d \<and> dig_algorithm L d = a" using assms(1) unfolding digest_ok_def by blast
  then show ?thesis using a parsed_digest [OF assms(1)] by blast
qed

text \<open>A store that holds the blob \<open>x\<close>, and an image manifest \<open>M\<close> that names it as config and layer.\<close>

definition image_x :: descriptor where
  "image_x = zero_descriptor\<lparr>d_digest := ''sha256:x''\<rparr>"

definition image_lib :: lib where
  "image_lib = demo_lib\<lparr>json_manifest := (\<lambda>b. if b = ''M'' then Some ((demo_image [image_x])\<lparr>m_config := image_x\<rparr>) else None)\<rparr>"

definition image_store :: mem_store where
  "image_store = blank_store\<lparr>ms_repos := fmupd ''a'' ((new_mem_repo demo_conf [])\<lparr>
     mr_blobs := fmupd ''sha256:x'' (Some \<lparr>mb_bytes = ''x'', mb_mod = 0\<rparr>) fmempty\<rparr>) fmempty\<rparr>"

definition image_put :: request where
  "image_put = alice_request\<lparr>rq_method := ''PUT'', rq_body := [''M''], rq_query := [],
     rq_header := hdr_add ''content-type'' mt_oci1_manifest fmempty\<rparr>"

lemma image_lib_ok: "writer_ok image_lib" "digest_ok image_lib"
  using demo_lib_ok by (simp_all add: image_lib_def writer_ok_def digest_ok_def)

lemma image_store_inv: "mem_inv L no_backing image_store \<longleftrightarrow> blob_ok L ''sha256:x'' \<lparr>mb_bytes = ''x'', mb_mod = 0\<rparr>"
  using blank_store_inv [of L]
  by (auto simp: image_store_def mem_inv_def repo_ok_def blank_store_def newMem_def new_mem_repo_def Let_def)

lemma image_put_request:
  "put_params image_lib demo_conf ''v1'' image_put = Inr (mt_oci1_manifest, [], [''v1''])"
  "put_read image_lib demo_conf [] image_put = Inr (''M'', ''sha256:M'')"
  "put_check image_lib (mem_ops image_lib) demo_conf ''a'' mt_oci1_manifest ''M'' ''sha256:M''
     (upd_repo ''a'' (\<lambda>m. m\<lparr>mr_wg := Suc (mr_wg m)\<rparr>) image_store) =
   (Inr ([], None), upd_repo ''a'' (\<lambda>m. m\<lparr>mr_wg := Suc (mr_wg m)\<rparr>) image_store)"
proof -
  have base: "mediaTypeBase mt_oci1_manifest = mt_oci1_manifest" by code_simp
  have tag: "refTagRE ''v1''" by code_simp
  show "put_params image_lib demo_conf ''v1'' image_put = Inr (mt_oci1_manifest, [], [''v1''])"
    by (simp add: put_params_def put_tags_def image_put_def alice_request_def hdr_get_def base mediaTypeImage_def
        query_get_def query_values_def tag Let_def)
  show "put_read image_lib demo_conf [] image_put = Inr (''M'', ''sha256:M'')"
    by (simp add: put_read_def read_limited_def image_put_def alice_request_def image_lib_def demo_lib_def dig_is_zero_def)
  show "put_check image_lib (mem_ops image_lib) demo_conf ''a'' mt_oci1_manifest ''M'' ''sha256:M''
     (upd_repo ''a'' (\<lambda>m. m\<lparr>mr_wg := Suc (mr_wg m)\<rparr>) image_store) =
   (Inr ([], None), upd_repo ''a'' (\<lambda>m. m\<lparr>mr_wg := Suc (mr_wg m)\<rparr>) image_store)"
    by (simp add: put_check_def mediaTypeImage_def image_lib_def manifestVerifyImage_def demo_image_def image_x_def
        verify_layer_def verify_blob_def mem_blobGet_def dig_is_zero_def image_store_def zero_descriptor_def
        mediaTypeForeign_def put_referrer_desc_def)
qed

lemma image_put_store:
  "\<exists>s1. put_store image_lib (mem_ops image_lib) ''a'' mt_oci1_manifest ''M'' ''sha256:M'' [''v1''] ([], None)
     (upd_repo ''a'' (\<lambda>m. m\<lparr>mr_wg := Suc (mr_wg m)\<rparr>) image_store, new_rw) =
     (s1, created_at [''/v2'', ''a'', ''manifests'', ''sha256:M''] ''sha256:M'' (header_add ''OCI-Tag'' ''v1'' new_rw))"
  by (simp add: put_store_def push_blob_def mem_blobCreate_def image_store_def blank_store_def newMem_def dig_is_zero_def
      start_upload_def new_mem_repo_def cache_new_def cache_get_def Let_def cache_set_def write_close_def mem_write_def
      mem_close_def image_lib_def demo_lib_def put_index_def mem_indexInsert_def upd_repo_def upd_upload_def drop_session_def)

lemma image_put_run:
  "\<exists>s1 w1. manifestPut image_lib (mem_ops image_lib) demo_conf ''a'' ''v1'' image_put (image_store, new_rw) = (s1, w1) \<and>
     w1 = created_at [''/v2'', ''a'', ''manifests'', ''sha256:M''] ''sha256:M'' (header_add ''OCI-Tag'' ''v1'' new_rw)"
proof -
  have get: "mem_repoGet image_lib ''a'' image_store =
      (Inr (), upd_repo ''a'' (\<lambda>m. m\<lparr>mr_wg := Suc (mr_wg m)\<rparr>) image_store)"
    by (simp add: mem_repoGet_def image_store_def blank_store_def newMem_def new_mem_repo_def Let_def)
  have mt: "mt_oci1_manifest \<noteq> []" by (simp add: mt_oci1_manifest_def)
  obtain s1 where "put_store image_lib (mem_ops image_lib) ''a'' mt_oci1_manifest ''M'' ''sha256:M'' [''v1''] ([], None)
     (upd_repo ''a'' (\<lambda>m. m\<lparr>mr_wg := Suc (mr_wg m)\<rparr>) image_store, new_rw) =
     (s1, created_at [''/v2'', ''a'', ''manifests'', ''sha256:M''] ''sha256:M'' (header_add ''OCI-Tag'' ''v1'' new_rw))"
    using image_put_store by blast
  then show ?thesis
    by (simp add: manifestPut_def read_only_def with_repo_def get image_put_request mt Let_def)
qed

lemma image_put_acked:
  "acked (created_at [''/v2'', ''a'', ''manifests'', ''sha256:M''] ''sha256:M'' (header_add ''OCI-Tag'' ''v1'' new_rw)) ''sha256:M''"
  by (simp add: acked_created_at)

lemma put_params_type:
  "put_params L conf arg req = Inr (mt, d, tags) \<Longrightarrow> mt = mediaTypeBase (hdr_get (rq_header req) ''content-type'')"
  by (auto simp: put_params_def Let_def split: if_splits option.splits sum.splits)

text \<open>The media type a manifest is read with: that of the request, or what its content looks like.\<close>

definition pushed_type :: "lib \<Rightarrow> request \<Rightarrow> bytes \<Rightarrow> string" where
  "pushed_type L req raw =
     (let mt = mediaTypeBase (hdr_get (rq_header req) ''content-type'') in if mt = [] then mediaTypeDetect L raw else mt)"

text \<open>
  C19: A push of a manifest that the memory store acknowledges with status 201 and digest \<open>d\<close>: the body
  hashes to \<open>d\<close> and is stored; under the media type of the request, or the detected one when it names
  none, it parses as an image or as an index; and unless the configuration allows sparse pushes of its
  kind, its config and its layers, or its child manifests, are in the repository after the push.  What
  may be missing is a config or a layer with URLs, a layer of a foreign media type, and the subject.
\<close>

theorem manifest_push_complete:
  assumes "writer_ok L" and "digest_ok L"
    and "manifestPut L (mem_ops L) conf r arg req (s, new_rw) = (s', w')" and "acked w' d"
  shows "stored r d s' \<and> (\<exists>raw. read_limited (ca_manifestLimit (c_api conf)) req = Some raw \<and>
           dig_from_bytes L (dig_algorithm L d) raw = Some d \<and> complete L conf r s' (pushed_type L req raw) raw)"
proof (rule manifestPut_run [OF assms(3,4)])
  fix s0 mt0 dExpect tags raw d0 ck s1 s2
  let ?mt = "if mt0 = [] then mediaTypeDetect L raw else mt0"
  assume run: "put_params L conf arg req = Inr (mt0, dExpect, tags)" "put_read L conf dExpect req = Inr (raw, d0)"
    "put_check L (mem_ops L) conf r ?mt raw d0 s0 = (Inr ck, s1)"
    "put_store L (mem_ops L) r ?mt raw d0 tags ck (s1, new_rw) = (s2, w')" "s' = mem_done r s2"
    and get: "mem_repoGet L r s = (Inr (), s0)"
  note dig = put_read_digest [OF assms(2) run(2)]
  have "fmlookup (ms_repos s1) r \<noteq> None"
    using put_check_keeps [OF kept_by_loaded run(3) repoGet_loaded [OF get]] by (simp add: loaded_def)
  then have "d = d0 \<and> in_mem r d0 s2"
    using put_store_ack [OF assms(1) _ _ put_params_tags [OF run(1)] run(4) assms(4)] dig by blast
  moreover have "stored r x s'" if "stored r x s1" for x
    using put_store_keeps [OF kept_by_both(1) run(4) put_params_tags [OF run(1)] that] run(5) kept_ops(1) [OF kept_by_both(1)] by blast
  moreover have mt: "?mt = pushed_type L req raw"
    using put_params_type [OF run(1)] by (simp add: pushed_type_def)
  ultimately have "complete L conf r s' (pushed_type L req raw) raw" "d = d0" "stored r d0 s'"
    using complete_mono [OF put_check_complete [OF run(3)], unfolded mt] run(5) in_mem_stored kept_ops(1) [OF kept_by_both(1)]
    by blast+
  then show ?thesis using dig by blast
qed

theorem manifest_push_complete_witness:
  "\<exists>s1 w1. manifestPut image_lib (mem_ops image_lib) demo_conf ''a'' ''v1'' image_put (image_store, new_rw) = (s1, w1) \<and>
     acked w1 ''sha256:M'' \<and> stored ''a'' ''sha256:M'' s1"
proof -
  obtain s1 w1 where run:
    "manifestPut image_lib (mem_ops image_lib) demo_conf ''a'' ''v1'' image_put (image_store, new_rw) = (s1, w1)"
    "acked w1 ''sha256:M''"
    using image_put_run image_put_acked by blast
  then show ?thesis using manifest_push_complete [OF image_lib_ok run] by blast
qed

text \<open>A tag that points to a blob in memory is served with it.\<close>

lemma manifest_served:
  assumes "mem_inv L D s" and "in_mem r d s" and "tag_at r t s = Some d" and "refTagRE t"
    and "hdr_values (rq_header g) ''Range'' = []" and "hdr_values (rq_header g) ''Accept'' = []"
    and "rq_method g = ''GET''" and "manifestGet L (mem_ops L) r t g (s, new_rw) = (s', w')"
  shows "rw_status w' = 200 \<and> (\<exists>b. rw_body w' = [ChunkBytes b] \<and> dig_from_bytes L (dig_algorithm L d) b = Some d)"
proof -
  obtain mr b where mr: "fmlookup (ms_repos s) r = Some mr" "fmlookup (mr_blobs mr) d = Some (Some b)" "d \<noteq> []"
    using assms(2) by (auto simp: in_mem_def mem_has_def)
  have ok: "mr_block mr" "blob_ok L d b" "\<not> ms_stop s"
    using mem_invD(1) [OF assms(1) mr(1)] mr(2) assms(1) by (auto simp: repo_ok_def mem_inv_def)
  obtain desc where desc: "get_desc L (mr_index mr) t = Inr desc" "d_digest desc = d"
    using assms(3) mr(1) get_desc_tag_map [OF assms(4), of L "mr_index mr" d] by (auto simp: tag_at_def)
  have "w' = serve_content g (mb_bytes b)
      (header_add ''Docker-Content-Digest'' d (header_add ''Content-Type'' (d_mediaType desc) new_rw))"
    using assms(6,8) mr ok desc
    by (auto simp: manifestGet_def with_repo_def mem_repoGet_def mem_indexGet_def negotiate_def
        mediaTypeAccepts_def serve_manifest_def mem_blobGet_def dig_is_zero_def serve_reader_def)
  then show ?thesis
    using serve_content_whole [OF assms(5)] ok(2) assms(7) by (simp add: blob_ok_def)
qed

text \<open>
  C20: The tags that an acknowledged push to the memory store reports in its \<open>OCI-Tag\<close> headers can be
  pulled next: the response has status 200 and a content that hashes to the digest of the push.  A push
  of a manifest with a subject also updates the response with its referrers; for such a push the
  repository has to be in the store already, with an index in which no entry has both a tag and a
  subject, which is how the handlers build them.
\<close>

theorem manifest_push_pull:
  assumes "writer_ok L" and "digest_ok L" and "mem_inv L D s"
    and "manifestPut L (mem_ops L) conf r arg req (s, new_rw) = (s1, w1)" and "acked w1 d"
    and "hdr_values (rw_sent_header w1) ''OCI-Subject'' = [] \<or> tags_apart r s"
    and "t \<in> set (hdr_values (rw_sent_header w1) ''OCI-Tag'')"
    and "hdr_values (rq_header g) ''Range'' = []" and "hdr_values (rq_header g) ''Accept'' = []"
    and "rq_method g = ''GET''"
    and "manifestGet L (mem_ops L) r t g (s1, new_rw) = (s2, w2)"
  shows "rw_status w2 = 200 \<and> (\<exists>b. rw_body w2 = [ChunkBytes b] \<and> dig_from_bytes L (dig_algorithm L d) b = Some d)"
proof (rule manifestPut_run [OF assms(4,5)])
  fix s0 mt0 dExpect tags raw d0 ck sa sb
  let ?mt = "if mt0 = [] then mediaTypeDetect L raw else mt0"
  assume run: "put_params L conf arg req = Inr (mt0, dExpect, tags)" "put_read L conf dExpect req = Inr (raw, d0)"
    "put_check L (mem_ops L) conf r ?mt raw d0 s0 = (Inr ck, sa)"
    "put_store L (mem_ops L) r ?mt raw d0 tags ck (sa, new_rw) = (sb, w1)" "s1 = mem_done r sb"
    and get: "mem_repoGet L r s = (Inr (), s0)"
  note dig = put_read_digest [OF assms(2) run(2)]
  have inv: "mem_inv L D s1"
    using mem_safe.keep_manifestPut [of L D s L conf r arg req new_rw] assms(1-4) by (simp add: mem_safe_def)
  have "fmlookup (ms_repos sa) r \<noteq> None"
    using put_check_keeps [OF kept_by_loaded run(3) repoGet_loaded [OF get]] by (simp add: loaded_def)
  moreover have "tags_apart r sa" if apart: "tags_apart r s"
  proof -
    have "tags_apart r s0"
      using get apart by (auto simp: mem_repoGet_def tags_apart_def index_of_def split: if_splits)
    then show ?thesis using apart.keep_put_check [of L L conf r ?mt raw d0 s0 "Inr ck" sa r] run(3) by (simp add: put_check_grow)
  qed
  ultimately have ack: "d = d0" "in_mem r d s1" "t \<in> set tags" "tag_at r t sb = Some d"
    using put_store_ack [OF assms(1) _ _ put_params_tags [OF run(1)] run(4) assms(5)] dig assms(6,7) run(5) kept_ops(1) [OF kept_by_both(2)]
    by auto
  show ?thesis
    by (rule manifest_served [OF inv ack(2) _ _ assms(8-11)])
      (use ack put_params_tags [OF run(1)] run(5) in \<open>auto simp: tag_at_def mem_done_def split: option.splits\<close>)
qed

theorem manifest_push_pull_witness:
  "\<exists>s1 w1 s2 w2. manifestPut image_lib (mem_ops image_lib) demo_conf ''a'' ''v1'' image_put (image_store, new_rw) = (s1, w1) \<and>
     manifestGet image_lib (mem_ops image_lib) ''a'' ''v1'' alice_request (s1, new_rw) = (s2, w2) \<and>
     rw_status w2 = 200 \<and>
     (\<exists>b. rw_body w2 = [ChunkBytes b] \<and> dig_from_bytes image_lib (dig_algorithm image_lib ''sha256:M'') b = Some ''sha256:M'')"
proof -
  obtain s1 w1 where run:
    "manifestPut image_lib (mem_ops image_lib) demo_conf ''a'' ''v1'' image_put (image_store, new_rw) = (s1, w1)"
    "w1 = created_at [''/v2'', ''a'', ''manifests'', ''sha256:M''] ''sha256:M'' (header_add ''OCI-Tag'' ''v1'' new_rw)"
    using image_put_run by blast
  have heads: "hdr_values (rw_sent_header w1) ''OCI-Subject'' = [] \<or> tags_apart ''a'' image_store" "''v1'' \<in> set (hdr_values (rw_sent_header w1) ''OCI-Tag'')"
    using run(2) by (simp_all add: sent_created_at)
  have inv: "mem_inv image_lib no_backing image_store"
    by (simp add: image_store_inv blob_ok_def image_lib_def demo_lib_def)
  have get: "hdr_values (rq_header alice_request) ''Range'' = []" "hdr_values (rq_header alice_request) ''Accept'' = []"
    "rq_method alice_request = ''GET''"
    by (simp_all add: alice_request_def)
  obtain s2 w2 where pull: "manifestGet image_lib (mem_ops image_lib) ''a'' ''v1'' alice_request (s1, new_rw) = (s2, w2)"
    by force
  show ?thesis
    using manifest_push_pull [OF image_lib_ok inv run(1) _ heads get pull, of "''sha256:M''"] image_put_acked run pull
    by blast
qed

end
