(* ===== verification/Server_Access.thy ===== *)
theory Server_Access
  imports Mem_Invariant
begin

text \<open>
  What a server lets through: access control over whole requests, and the read-only setting.
\<close>

section \<open>Access control\<close>

lemma standard_headers_unsent [simp]: "rw_sent (standard_headers conf w) = rw_sent w"
proof -
  have "rw_sent (fold (\<lambda>msg. header_add ''Warning'' (''299 - '' @ char_of (34::nat) # msg @ [char_of (34::nat)])) ms w) = rw_sent w" for ms w
    by (induction ms arbitrary: w) simp_all
  then show ?thesis by (simp add: standard_headers_def Let_def)
qed

text \<open>The kind of access a route asks for does not depend on the store, and a refused request does not reach it.\<close>

lemma route_access:
  "map_option (\<lambda>(repo, access, h). (repo, access)) (route L S conf now r el) =
   map_option (\<lambda>(repo, access, h). (repo, access)) (route L S' conf now r el)"
  by (simp add: route_def route_manifests_def route_blobs_def route_referrers_def route_uploads_def Let_def split: option.split)

lemma basicHandler_refuses:
  assumes "rw_sent w = None" and "basicHandler L A f now repo access h r ((ac, x), w) = Some ((ac', x'), w')"
  shows "(\<exists>user. basic_user A (ac_conf ac') r = Some (Some user) \<and> checkAccess (ac_conf ac') repo access user) \<or>
     (\<forall>h'. basicHandler L A f now repo access h' r ((ac, x), w) = Some ((ac', x), w')) \<and> x' = x \<and> rw_status w' \<in> {401, 500}"
proof -
  obtain conf e ac1 where get: "getConf L A f now ac = ((conf, e), ac1)"
    by (cases "getConf L A f now ac") auto
  then have conf: "conf = ac_conf ac1"
    by (auto simp: getConf_def Let_def split: if_splits option.splits)
  show ?thesis
    using assms(2) get conf
    by (auto simp: basicHandler_def lift_auth_def Let_def split: option.splits if_splits
        intro: refuse_auth_status [OF assms(1)])
qed

lemma basic_user_verified:
  "basic_user A conf r = Some (Some user) \<Longrightarrow>
   user = [] \<and> rq_basic r \<in> {None, Some ([], [])} \<or> (\<exists>pw. rq_basic r = Some (user, pw) \<and> checkCreds A conf user pw = Some True)"
  by (auto simp: basic_user_def split: option.splits if_splits)

lemma dispatch_access:
  fixes sv sv' :: "'s server"
  assumes "sv_auth sv = BasicAuth ac" and "sv_store sv = Some s" and "rw_sent w = None"
    and "dispatch L S A f rand now r el sv s w = Some (sv', w')"
  shows "(\<forall>S'. dispatch L S' A f rand now r el sv s w = Some (sv', w')) \<and>
        sv_store sv' = Some s \<and> sv_refs sv' = sv_refs sv \<and> rw_status w' \<in> {401, 404, 500} \<or>
     (\<exists>repo access h ac' user. route L S (sv_conf sv) now r el = Some (repo, access, h) \<and> sv_auth sv' = BasicAuth ac' \<and>
        basic_user A (ac_conf ac') r = Some (Some user) \<and> checkAccess (ac_conf ac') repo access user)"
proof (cases "route L S (sv_conf sv) now r el")
  case None
  then have "route L S' (sv_conf sv) now r el = None" for S' :: "'s store_ops"
    using route_access [of L S "sv_conf sv" now r el S'] by simp
  then show ?thesis using assms None by (auto simp: dispatch_def rw_status_def)
next
  case (Some rh)
  obtain repo access h where rh: "rh = (repo, access, h)" by (cases rh)
  obtain ac' s1 c1 where run: "basicHandler L A f now repo access h r ((ac, s, sv_refs sv), w) = Some ((ac', s1, c1), w')"
    "sv' = sv\<lparr>sv_auth := BasicAuth ac', sv_store := Some s1, sv_refs := c1\<rparr>"
    using assms(1,4) Some rh by (auto simp: dispatch_def serve_auth_def)
  have other: "\<exists>h'. route L S' (sv_conf sv) now r el = Some (repo, access, h')" for S' :: "'s store_ops"
    using route_access [of L S' "sv_conf sv" now r el S] Some rh by auto
  from basicHandler_refuses [OF assms(3) run(1)] show ?thesis
  proof
    assume "\<exists>user. basic_user A (ac_conf ac') r = Some (Some user) \<and> checkAccess (ac_conf ac') repo access user"
    then show ?thesis using run(2) Some rh by auto
  next
    assume ref: "(\<forall>h'. basicHandler L A f now repo access h' r ((ac, s, sv_refs sv), w) = Some ((ac', s, sv_refs sv), w')) \<and>
       (s1, c1) = (s, sv_refs sv) \<and> rw_status w' \<in> {401, 500}"
    then have same: "s1 = s" "c1 = sv_refs sv" by simp_all
    have "dispatch L S' A f rand now r el sv s w = Some (sv', w')" for S'
    proof -
      obtain h' where "route L S' (sv_conf sv) now r el = Some (repo, access, h')" using other by blast
      then show ?thesis using ref assms(1) run(2) by (simp add: dispatch_def serve_auth_def)
    qed
    then show ?thesis using ref run(2) same by auto
  qed
qed

text \<open>
  C22: On a server with basic authentication, a request is either answered with status 401, 404, 429 or
  500 without a call of any operation of a store (the answer is the same for every set of operations
  \<open>S'\<close>), leaving the store and the cache of referrers as they are; or its path names a route whose
  repository and kind of access the access lists grant to its user, who is either the one whose password
  has been verified, or the anonymous user of a request without credentials.
\<close>

theorem server_access:
  fixes sv sv' :: "'s server"
  assumes "sv_auth sv = BasicAuth ac" and "sv_store sv = Some s"
    and "serveHTTP L S A f rand now r sv new_rw = Some (sv', w')"
  shows "(\<forall>S'. serveHTTP L S' A f rand now r sv new_rw = Some (sv', w')) \<and>
        sv_store sv' = Some s \<and> sv_refs sv' = sv_refs sv \<and> rw_status w' \<in> {401, 404, 429, 500} \<or>
     (\<exists>repo access h ac' user. route L S (sv_conf sv) now r (path_elements (rq_path r)) = Some (repo, access, h) \<and>
        sv_auth sv' = BasicAuth ac' \<and> checkAccess (ac_conf ac') repo access user \<and>
        (user = [] \<and> rq_basic r \<in> {None, Some ([], [])} \<or>
         (\<exists>pw. rq_basic r = Some (user, pw) \<and> checkCreds A (ac_conf ac') user pw = Some True)))"
proof -
  let ?el = "path_elements (rq_path r)" and ?w = "standard_headers (sv_conf sv) new_rw"
  obtain n c where count: "rate_count now (client_ip r) (sv_rate sv) = (n, c)" by force
  let ?limit = "ca_rateLimit (c_api (sv_conf sv))"
  define sv1 where "sv1 = (if ?limit > 0 then sv\<lparr>sv_rate := c\<rparr> else sv)"
  have sv1: "sv_auth sv1 = BasicAuth ac" "sv_store sv1 = Some s" "sv_conf sv1 = sv_conf sv" "sv_refs sv1 = sv_refs sv"
    using assms(1,2) by (simp_all add: sv1_def)
  show ?thesis
  proof (cases "?limit > 0 \<and> n > ?limit")
    case True
    then show ?thesis using assms count by (auto simp: serveHTTP_def rw_status_def Let_def)
  next
    case False
    have run: "serveHTTP L S' A f rand now r sv new_rw = dispatch L S' A f rand now r ?el sv1 s ?w" for S' :: "'s store_ops"
      using False assms(2) count by (simp add: serveHTTP_def Let_def sv1_def)
    have "rw_sent ?w = None" by simp
    from dispatch_access [OF sv1(1,2) this assms(3) [unfolded run], unfolded sv1(3,4)] show ?thesis
    proof
      assume "(\<forall>S'. dispatch L S' A f rand now r ?el sv1 s ?w = Some (sv', w')) \<and>
        sv_store sv' = Some s \<and> sv_refs sv' = sv_refs sv \<and> rw_status w' \<in> {401, 404, 500}"
      then show ?thesis by (intro disjI1) (auto simp: run)
    next
      assume "\<exists>repo access h ac' user. route L S (sv_conf sv) now r ?el = Some (repo, access, h) \<and>
        sv_auth sv' = BasicAuth ac' \<and> basic_user A (ac_conf ac') r = Some (Some user) \<and>
        checkAccess (ac_conf ac') repo access user"
      then obtain repo access h ac' user where ok: "route L S (sv_conf sv) now r ?el = Some (repo, access, h)"
        "sv_auth sv' = BasicAuth ac'" "basic_user A (ac_conf ac') r = Some (Some user)"
        "checkAccess (ac_conf ac') repo access user" by (elim exE conjE)
      show ?thesis
        by (rule disjI2, intro exI conjI) (rule ok basic_user_verified [OF ok(3)])+
    qed
  qed
qed

lemma ping_route: "route L S conf now alice_request (path_elements (rq_path alice_request)) = Some ([], AuthRead, lift_store v2Ping)"
proof -
  have "path_elements (rq_path alice_request) = [''v2'']"
    by (simp add: path_elements_def path_clean_def trim_by_def alice_request_def)
  then show ?thesis by (simp add: route_def matchV2_def is_get_def alice_request_def)
qed

lemma ping_run:
  fixes sv :: "mem_store server"
  assumes "sv = \<lparr>sv_conf = demo_conf, sv_store = Some blank_store, sv_refs = cache_new 0 0, sv_rate = cache_new 0 0,
     sv_auth = BasicAuth demo_controller\<rparr>"
  shows "\<exists>sv' w'. serveHTTP L (mem_ops L) demo_auth_lib f None 0 alice_request sv new_rw = Some (sv', w') \<and> rw_status w' = 200"
proof -
  have user: "basic_user demo_auth_lib (ac_conf demo_controller) alice_request = Some (Some ''alice'')"
    by (simp add: demo_controller_def demo_auth_def basic_user_def alice_request_def checkCreds_def
        passValidate_def has_prefix_def demo_auth_lib_def)
  have get: "getConf L demo_auth_lib f 0 demo_controller = ((ac_conf demo_controller, None), demo_controller)"
    by (simp add: getConf_def demo_controller_def newAuthBasicFile_def newAuthController_def)
  have grant: "checkAccess (ac_conf demo_controller) [] AuthRead ''alice''"
    by (simp add: demo_controller_def demo_auth_def checkAccess_def acl_step_def acl_matches_def has_suffix_def
        has_prefix_def acl_user_def acl_grants_def)
  show ?thesis
    by (simp add: assms serveHTTP_def dispatch_def ping_route serve_auth_def basicHandler_def get user grant lift_auth_def
        lift_store_def v2Ping_def Let_def rw_status_def standard_headers_def)
qed

theorem server_access_witness:
  "\<exists>sv' w' repo access user (ac' :: auth_controller). serveHTTP demo_lib (mem_ops demo_lib) demo_auth_lib \<lparr>af_stat = None, af_open = None\<rparr> None 0 alice_request
      \<lparr>sv_conf = demo_conf, sv_store = Some blank_store, sv_refs = cache_new 0 0, sv_rate = cache_new 0 0,
       sv_auth = BasicAuth demo_controller\<rparr> new_rw = Some (sv', w') \<and> rw_status w' = 200 \<and>
     checkAccess (ac_conf ac') repo access user \<and>
     (\<exists>pw. rq_basic alice_request = Some (user, pw) \<and> checkCreds demo_auth_lib (ac_conf ac') user pw = Some True)"
proof -
  let ?sv = "\<lparr>sv_conf = demo_conf, sv_store = Some blank_store, sv_refs = cache_new 0 0, sv_rate = cache_new 0 0,
       sv_auth = BasicAuth demo_controller\<rparr> :: mem_store server"
  obtain sv' w' where run:
    "serveHTTP demo_lib (mem_ops demo_lib) demo_auth_lib \<lparr>af_stat = None, af_open = None\<rparr> None 0 alice_request ?sv new_rw = Some (sv', w')"
    "rw_status w' = 200"
    using ping_run [OF refl] by blast
  have "sv_auth ?sv = BasicAuth demo_controller" "sv_store ?sv = Some blank_store" by simp_all
  from server_access [OF this run(1)] obtain repo access user and ac' :: auth_controller where
    "checkAccess (ac_conf ac') repo access user"
    "user = [] \<and> rq_basic alice_request \<in> {None, Some ([], [])} \<or>
     (\<exists>pw. rq_basic alice_request = Some (user, pw) \<and> checkCreds demo_auth_lib (ac_conf ac') user pw = Some True)"
    using run(2) by auto
  moreover have "rq_basic alice_request \<notin> {None, Some ([], [])}" by (simp add: alice_request_def)
  ultimately show ?thesis using run by blast
qed

section \<open>A read-only server\<close>

text \<open>The part of a store that a read-only server must not change: the uploads, the index and the contents of a repository.\<close>

definition frozen :: "backing \<Rightarrow> string \<Rightarrow> layout_index \<Rightarrow> (digest \<Rightarrow> reader option) \<Rightarrow> mem_store \<Rightarrow> bool" where
  "frozen D r li c s \<longleftrightarrow> ms_readOnly s \<and> ms_dir s = D \<and> ms_heap s = fmempty \<and> mem_content r s = c \<and>
     (\<exists>mr. fmlookup (ms_repos s) r = Some mr \<and> mr_index mr = li)"

definition same_blobs :: "(mem_repo \<Rightarrow> mem_repo) \<Rightarrow> bool" where
  "same_blobs f \<longleftrightarrow> (\<forall>m. mr_path (f m) = mr_path m \<and> mr_blobs (f m) = mr_blobs m \<and> mr_index (f m) = mr_index m)"

lemma frozen_upd:
  assumes "same_blobs f" and "frozen D r li c s"
  shows "frozen D r li c (upd_repo r' f s)"
proof -
  have "repo_content D' (f mr) d = repo_content D' mr d" for D' mr d
    using assms(1) by (intro repo_content_cong) (simp_all add: same_blobs_def)
  then have "mem_content r (upd_repo r' f s) = mem_content r s"
    by (auto simp: mem_content_def fun_eq_iff split: option.split)
  then show ?thesis using assms by (auto simp: frozen_def same_blobs_def)
qed

lemma frozen_blobGet: "frozen D r li c s \<Longrightarrow> frozen D r li c (snd (mem_blobGet r' d s))"
proof (rule mem_blobGet_cases [of r' d s])
  assume *: "frozen D r li c s" "mem_blobGet r' d s = (Inl ErrNotFound, note_missing r' d s)" "mem_content r' s d = None"
  then have "mem_content r (note_missing r' d s) = mem_content r s"
  proof (cases "r = r'")
    case True
    then show ?thesis using *(3) by (simp add: fun_upd_idem)
  next
    case False
    then show ?thesis by (simp add: mem_content_def fun_eq_iff split: option.split)
  qed
  note content = this
  have "frozen D r li c (note_missing r' d s)"
    unfolding frozen_def content using *(1) by (auto simp: frozen_def)
  then show ?thesis using *(2) by simp
qed simp

lemma same_blobs_intros [simp]:
  "same_blobs (\<lambda>m. m\<lparr>mr_wg := n m\<rparr>)" "same_blobs (\<lambda>m. m\<lparr>mr_uploads := c m\<rparr>)"
  by (simp_all add: same_blobs_def)

lemma frozen_ops:
  assumes "frozen D r li c s"
  shows "frozen D r li c (mem_done r' s)" "frozen D r li c (snd (mem_indexGet r' s))"
    "frozen D r li c (snd (mem_indexInsert L r' desc cs s))" "frozen D r li c (snd (mem_indexRemove L r' desc s))"
    "frozen D r li c (snd (mem_blobCreate L r' opts s))" "frozen D r li c (snd (mem_blobDelete r' d s))"
    "frozen D r li c (snd (mem_blobSession r' sid s))" "frozen D r li c (snd (mem_write u p s))"
    "frozen D r li c (snd (mem_close L u s))" "frozen D r li c (snd (mem_cancel u s))"
    "frozen D r li c (snd (mem_verify L u d s))" "frozen D r li c (snd (mem_changeAlgorithm u a s))"
proof -
  have ro: "ms_readOnly s" "ms_heap s = fmempty" using assms by (simp_all add: frozen_def)
  show "frozen D r li c (mem_done r' s)"
    by (simp add: mem_done_def frozen_upd assms)
  show "frozen D r li c (snd (mem_indexGet r' s))" "frozen D r li c (snd (mem_blobSession r' sid s))"
    using assms by (simp_all add: mem_indexGet_def mem_blobSession_def frozen_upd split: option.split sum.split prod.split)
  show "frozen D r li c (snd (mem_indexInsert L r' desc cs s))" "frozen D r li c (snd (mem_indexRemove L r' desc s))"
    "frozen D r li c (snd (mem_blobCreate L r' opts s))" "frozen D r li c (snd (mem_blobDelete r' d s))"
    using assms ro(1) by (simp_all add: mem_indexInsert_def mem_indexRemove_def mem_blobCreate_def mem_blobDelete_def)
  show "frozen D r li c (snd (mem_write u p s))" "frozen D r li c (snd (mem_close L u s))"
    "frozen D r li c (snd (mem_cancel u s))" "frozen D r li c (snd (mem_verify L u d s))"
    "frozen D r li c (snd (mem_changeAlgorithm u a s))"
    using assms ro(2) by (simp_all add: mem_write_def mem_close_def mem_cancel_def mem_verify_def mem_changeAlgorithm_def)
qed

interpretation repo_frozen: store_invariant "mem_repo_ops L" "frozen D r li c" for L D r li c
  by unfold_locales (simp_all add: mem_repo_ops_def frozen_ops frozen_blobGet)

text \<open>Loading another repository.\<close>

lemma frozen_other:
  assumes "r' \<noteq> r"
  shows "frozen D r li c (s\<lparr>ms_repos := fmupd r' mr (ms_repos s)\<rparr>) = frozen D r li c s"
    and "frozen D r li c (s\<lparr>ms_repos := fmdrop r' (ms_repos s)\<rparr>) = frozen D r li c s"
  using assms by (auto simp: frozen_def mem_content_def fun_eq_iff)

lemma frozen_set_index: "r' \<noteq> r \<Longrightarrow> frozen D r li c s \<Longrightarrow> frozen D r li c (upd_repo r' (\<lambda>m. m\<lparr>mr_index := i\<rparr>) s)"
  by (auto simp: frozen_def mem_content_def fun_eq_iff)

lemma frozen_repoInit:
  assumes "mem_repoInit L r' mr s = Some (x, s')" and "r' \<noteq> r" and "frozen D r li c s"
  shows "frozen D r li c s'"
  using assms
  by (auto simp: mem_repoInit_def split: prod.splits os_res.splits bool.splits if_splits option.splits
      intro!: frozen_set_index dest: repo_frozen.keep_indexIngest)

lemma frozen_repoGet:
  assumes "frozen D r li c s"
  shows "frozen D r li c (snd (mem_repoGet L r' s))"
proof (cases "fmlookup (ms_repos s) r'")
  case None
  then have ne: "r' \<noteq> r" using assms by (auto simp: frozen_def)
  show ?thesis
    using assms None
    by (auto simp: mem_repoGet_def Let_def frozen_upd frozen_other [OF ne] split: option.split sum.split prod.split
        dest!: frozen_repoInit [OF _ ne])
next
  case (Some mr)
  then show ?thesis using assms by (simp add: mem_repoGet_def frozen_upd)
qed

interpretation mem_frozen: store_invariant "mem_ops L" "frozen D r li c" for L D r li c
  by unfold_locales (simp_all add: frozen_ops frozen_blobGet frozen_repoGet)

text \<open>A store that is read-only runs no collections: \<open>NewMem\<close> starts the ticker for others only.\<close>

fun no_collect :: "server_event \<Rightarrow> bool" where
  "no_collect (SrvCollect now prev) = False"
| "no_collect _ = True"

lemma frozen_at_time: "frozen D r li c (s\<lparr>ms_now := now\<rparr>) = frozen D r li c s"
  by (simp add: frozen_def mem_content_def fun_eq_iff cong: option.case_cong)

lemma frozen_step:
  assumes "no_collect e" and "server_step L A e sv = Some sv'" and "sv_store sv = Some s" and "frozen D r li c s"
  shows "\<exists>s'. sv_store sv' = Some s' \<and> frozen D r li c s'"
proof (cases e)
  case (SrvRequest f rand now q)
  then obtain w where run: "serveHTTP L (mem_ops L) A f rand now q (at_time now sv) new_rw = Some (sv', w)"
    using assms(2) by auto
  have "sv_store (at_time now sv) = Some (s\<lparr>ms_now := now\<rparr>)" using assms(3) by (simp add: at_time_def)
  from mem_frozen.keep_serveHTTP [OF this _ run] show ?thesis using assms(4) by (simp add: frozen_at_time)
next
  case (SrvPrune now r' ks by_age)
  then show ?thesis
    using assms(2-4) by (auto simp: at_time_def mem_prune_uploads_def frozen_at_time intro!: frozen_upd)
qed (use assms(1) in simp)

lemma frozen_run:
  "server_run L A es sv = Some sv' \<Longrightarrow> list_all no_collect es \<Longrightarrow> sv_store sv = Some s \<Longrightarrow> frozen D r li c s \<Longrightarrow>
     \<exists>s'. sv_store sv' = Some s' \<and> frozen D r li c s'"
proof (induction es arbitrary: sv s)
  case (Cons e es)
  then show ?case using frozen_step by (auto split: option.splits) blast
qed simp

text \<open>
  C23: A read-only server: whatever requests it serves, no upload ever starts, and a repository that
  it has loaded keeps its index and the contents of all its blobs.
\<close>

theorem read_only_server:
  assumes "server_run L A es sv = Some sv'" and "list_all no_collect es" and "sv_store sv = Some s"
    and "ms_readOnly s" and "ms_heap s = fmempty" and "fmlookup (ms_repos s) r = Some mr"
  shows "\<exists>s' mr'. sv_store sv' = Some s' \<and> ms_heap s' = fmempty \<and> fmlookup (ms_repos s') r = Some mr' \<and>
     mr_index mr' = mr_index mr \<and> mem_content r s' = mem_content r s"
proof -
  have "frozen (ms_dir s) r (mr_index mr) (mem_content r s) s"
    using assms(4-6) by (simp add: frozen_def)
  from frozen_run [OF assms(1-3) this] show ?thesis by (auto simp: frozen_def)
qed

definition ro_conf :: config where
  "ro_conf = demo_conf\<lparr>c_storage := (c_storage demo_conf)\<lparr>cs_readOnly := Some True\<rparr>\<rparr>"

definition ro_store :: mem_store where
  "ro_store = (newMem ro_conf 0 0 [''sid''] no_backing)\<lparr>ms_repos := fmupd ''a'' (new_mem_repo ro_conf []) fmempty\<rparr>"

lemma ro_run:
  "\<exists>sv'. server_run demo_lib demo_auth_lib [SrvRequest f None 0 demo_post]
      \<lparr>sv_conf = ro_conf, sv_store = Some ro_store, sv_refs = cache_new 0 0, sv_rate = cache_new 0 0, sv_auth = NoAuth\<rparr> = Some sv'"
proof -
  have push: "ca_pushEnabled (c_api ro_conf) = Some True" by (simp add: ro_conf_def)
  have path: "rq_path demo_post = ''/v2/a/blobs/uploads/''" by (simp add: demo_post_def)
  have limit: "ca_rateLimit (c_api ro_conf) = 0" "read_only ro_conf" by (simp_all add: ro_conf_def read_only_def)
  show ?thesis
    by (simp add: at_time_def serveHTTP_def path Let_def limit dispatch_def demo_post_route [OF push] serve_auth_def
        lift_store_def blobUploadPost_def)
qed

theorem read_only_server_witness:
  "\<exists>sv' s' mr'. server_run demo_lib demo_auth_lib [SrvRequest \<lparr>af_stat = None, af_open = None\<rparr> None 0 demo_post]
      \<lparr>sv_conf = ro_conf, sv_store = Some ro_store, sv_refs = cache_new 0 0, sv_rate = cache_new 0 0, sv_auth = NoAuth\<rparr> = Some sv' \<and>
     sv_store sv' = Some s' \<and> ms_heap s' = fmempty \<and> fmlookup (ms_repos s') ''a'' = Some mr' \<and>
     mem_content ''a'' s' = mem_content ''a'' ro_store"
proof -
  let ?sv = "\<lparr>sv_conf = ro_conf, sv_store = Some ro_store, sv_refs = cache_new 0 0, sv_rate = cache_new 0 0, sv_auth = NoAuth\<rparr>"
  obtain sv' where run: "server_run demo_lib demo_auth_lib
      [SrvRequest \<lparr>af_stat = None, af_open = None\<rparr> None 0 demo_post] ?sv = Some sv'"
    using ro_run by blast
  have store: "sv_store ?sv = Some ro_store" "ms_readOnly ro_store" "ms_heap ro_store = fmempty"
    "fmlookup (ms_repos ro_store) ''a'' = Some (new_mem_repo ro_conf [])"
    by (simp_all add: ro_store_def newMem_def ro_conf_def)
  from read_only_server [OF run _ store] show ?thesis using run by (auto simp del: server_run.simps)
qed

end
