(* ===== verification/Upload_Session.thy ===== *)
theory Upload_Session
  imports Push_Pull
begin

text \<open>
  Uploads in chunks on the memory store: a session is an offset-checked append-only file, and the
  PUT that ends it stores the concatenation.
\<close>

section \<open>A session and what it holds\<close>

definition session_holds :: "mem_store \<Rightarrow> string \<Rightarrow> string \<Rightarrow> uid \<Rightarrow> bytes \<Rightarrow> bool" where
  "session_holds s r sid u b \<longleftrightarrow> (\<exists>mr mu. fmlookup (ms_repos s) r = Some mr \<and> cache_val (mr_uploads mr) sid = Some u \<and>
     fmlookup (ms_heap s) u = Some mu \<and> mu_repo mu = r \<and> mu_sessionID mu = sid \<and> mu_buffer mu = b)"

lemma session_holdsE:
  assumes "session_holds s r sid u b"
  obtains mr mu where "fmlookup (ms_repos s) r = Some mr" "cache_val (mr_uploads mr) sid = Some u"
    "fmlookup (ms_heap s) u = Some mu" "mu_repo mu = r" "mu_sessionID mu = sid" "mu_buffer mu = b"
  using assms by (auto simp: session_holds_def)

lemma session_holds_upd:
  assumes "session_holds s r sid u b" and "\<And>mr. cache_val (mr_uploads (f mr)) sid = cache_val (mr_uploads mr) sid"
  shows "session_holds (upd_repo r' f s) r sid u b"
  using assms by (auto simp: session_holds_def)

lemma session_get:
  assumes "cache_val c sid = Some u"
  shows "\<exists>c'. cache_get now sid c = (Inr u, c') \<and> (\<forall>k. cache_val c' k = cache_val c k)"
  using assms cache_get_result [of now sid c] cache_val_get [of now sid c] by (metis option.simps(5) prod.collapse)

lemma session_size: "session_holds s r sid u b \<Longrightarrow> mem_size u s = int (length b)"
  by (auto simp: session_holds_def mem_size_def)

lemma session_write:
  assumes "session_holds s r sid u b"
  shows "\<exists>s'. mem_write u p s = (Inr (), s') \<and> session_holds s' r sid u (b @ p)"
proof (rule session_holdsE [OF assms])
  fix mr mu
  assume *: "fmlookup (ms_repos s) r = Some mr" "cache_val (mr_uploads mr) sid = Some u"
    "fmlookup (ms_heap s) u = Some mu" "mu_repo mu = r" "mu_sessionID mu = sid" "mu_buffer mu = b"
  obtain c' where c': "cache_get (ms_now s) sid (mr_uploads mr) = (Inr u, c')" "\<forall>k. cache_val c' k = cache_val (mr_uploads mr) k"
    using session_get [OF *(2)] by blast
  show ?thesis using * c' by (auto simp: mem_write_def session_holds_def)
qed

lemma session_copy:
  "session_holds s r sid u b \<Longrightarrow>
     \<exists>s'. copy_chunks (mem_ops L) u cs s = (Inr (), s') \<and> session_holds s' r sid u (b @ concat cs)"
proof (induction cs arbitrary: s b)
  case (Cons c cs)
  obtain s1 where s1: "mem_write u c s = (Inr (), s1)" "session_holds s1 r sid u (b @ c)"
    using session_write [OF Cons.prems] by blast
  from Cons.IH [OF s1(2)] show ?case using s1(1) by simp
qed simp

lemma session_io_copy:
  assumes "session_holds s r sid u b"
  shows "\<exists>s'. io_copy (mem_ops L) u cs fail s = (if fail then Inl (ErrOther ''read'') else Inr (), s') \<and>
     session_holds s' r sid u (b @ concat cs)"
  using session_copy [OF assms, of L cs] by (auto simp: io_copy_def)

text \<open>A request finds the session.\<close>

lemma with_session_mem:
  assumes "mem_inv L D s" and "session_holds s r sid u b"
  shows "\<exists>s1. with_session (mem_ops L) r sid k (s, w) = k u (s1, w) \<and> session_holds s1 r sid u b \<and> mem_inv L D s1"
proof (rule session_holdsE [OF assms(2)])
  fix mr mu
  assume *: "fmlookup (ms_repos s) r = Some mr" "cache_val (mr_uploads mr) sid = Some u"
  have open_repo: "mr_block mr" "\<not> ms_stop s"
    using mem_invD(1) [OF assms(1) *(1)] assms(1) by (auto simp: repo_ok_def mem_inv_def)
  define s1 where "s1 = upd_repo r (\<lambda>m. m\<lparr>mr_wg := mr_wg m + 1\<rparr>) s"
  have get: "mem_repoGet L r s = (Inr (), s1)" using * open_repo by (simp add: mem_repoGet_def s1_def)
  obtain c' where c': "cache_get (ms_now s1) sid (mr_uploads mr) = (Inr u, c')" "\<forall>k. cache_val c' k = cache_val (mr_uploads mr) k"
    using session_get [OF *(2)] by blast
  define s2 where "s2 = upd_repo r (\<lambda>m. m\<lparr>mr_uploads := c'\<rparr>) s1"
  have sess: "mem_blobSession r sid s1 = (Inr u, s2)"
    using * c' by (simp add: mem_blobSession_def s1_def s2_def)
  have inv1: "mem_inv L D s1" unfolding s1_def by (rule mem_inv_upd_repo [OF assms(1)]) simp
  have "mem_inv L D s2" using mem_inv_blobSession [OF inv1, of r sid] sess by simp
  moreover have "session_holds s2 r sid u b"
    using assms(2) * c'(2) by (auto simp: session_holds_def s1_def s2_def)
  ultimately show ?thesis
    using get sess mem_inv_done
    by (auto simp: with_session_def with_repo_def Let_def mem_done_def intro!: session_holds_upd)
qed

lemma with_session_memE:
  assumes "with_session (mem_ops L) r sid k (s, w) = x" and "mem_inv L D s" and "session_holds s r sid u b"
  obtains s1 where "k u (s1, w) = x" "session_holds s1 r sid u b" "mem_inv L D s1"
  using with_session_mem [OF assms(2,3), of k w] assms(1) by auto

section \<open>One chunk\<close>

lemma patch_result:
  assumes "mem_inv L D s" and "session_holds s r sid u b"
    and "blobUploadPatch L (mem_ops L) r sid req (s, new_rw) = (s', w')"
  shows "(rw_status w' = 202 \<longleftrightarrow> blobValidRange (hdr_get (rq_header req) ''content-range'') (int (length b)) \<and>
            dec_state L (query_get req ''state'') = Some (int (length b)) \<and> \<not> rq_body_fail req) \<and>
         (rw_status w' = 202 \<longrightarrow> session_holds s' r sid u (b @ concat (rq_body req))) \<and>
         (rw_status w' \<in> {400, 416} \<longrightarrow> session_holds s' r sid u b)"
proof (rule with_session_memE [OF assms(3) [unfolded blobUploadPatch_def] assms(1,2)])
  fix s1
  assume run: "(case (s1, new_rw) of (s, w) \<Rightarrow>
       if \<not> blobValidRange (hdr_get (rq_header req) ''content-range'') (so_size (mem_ops L) u s) then
         (s, bad_range (so_size (mem_ops L) u s) w)
       else if \<not> upload_state_ok L req (so_size (mem_ops L) u s) then
         (s, resp_err 400 [errInfoBlobUploadInvalid ''invalid state''] w)
       else
         (case io_copy (mem_ops L) u (rq_body req) (rq_body_fail req) s of
            (Inl _, s1) \<Rightarrow> (s1, writeHeader 500 w)
          | (Inr _, s1) \<Rightarrow>
            let curEnd = so_size (mem_ops L) u s1 in
            (s1, writeHeader 202 (header_add ''Range'' (range_header curEnd)
                   (upload_location L (rq_path req) curEnd w))))) = (s', w')"
    and holds: "session_holds s1 r sid u b"
  obtain s2 where "io_copy (mem_ops L) u (rq_body req) (rq_body_fail req) s1 =
      (if rq_body_fail req then Inl (ErrOther ''read'') else Inr (), s2)" "session_holds s2 r sid u (b @ concat (rq_body req))"
    using session_io_copy [OF holds] by blast
  then show ?thesis
    using run holds session_size [OF holds]
    by (auto simp: upload_state_ok_def rw_status_def bad_range_def upload_location_def Let_def
        split: if_splits option.splits)
qed

text \<open>
  A PATCH on a session that holds \<open>b\<close>.  Status 202: the range, if there is one, starts at the end
  of \<open>b\<close>, the state is the offset the server gave out, and the session holds \<open>b\<close> and the body after
  it.  Status 416 or 400: the session still holds \<open>b\<close>.  With the right range and state, and a body
  that can be read, the answer is 202.
\<close>

theorem patch_appends:
  assumes "mem_inv L D s" and "session_holds s r sid u b"
    and "blobUploadPatch L (mem_ops L) r sid req (s, new_rw) = (s', w')"
  shows "(rw_status w' = 202 \<longleftrightarrow> blobValidRange (hdr_get (rq_header req) ''content-range'') (int (length b)) \<and>
            dec_state L (query_get req ''state'') = Some (int (length b)) \<and> \<not> rq_body_fail req) \<and>
         (rw_status w' = 202 \<longrightarrow> session_holds s' r sid u (b @ concat (rq_body req))) \<and>
         (rw_status w' \<in> {400, 416} \<longrightarrow> session_holds s' r sid u b)"
  using assms by (rule patch_result)

section \<open>The whole upload\<close>

lemma session_changeAlgorithm:
  "session_holds s r sid u b \<Longrightarrow> session_holds (snd (mem_changeAlgorithm u a s)) r sid u b"
  by (auto simp: mem_changeAlgorithm_def session_holds_def)

lemma session_verify:
  "mem_verify L u d s = (x, s') \<Longrightarrow> session_holds s r sid u b \<Longrightarrow> session_holds s' r sid u b"
  by (auto simp: mem_verify_def session_holds_def Let_def split: if_splits option.splits)

lemma session_close:
  assumes "writer_ok L" and "session_holds s r sid u b" and "mem_inv L D s" and "verified L u d s" and "d \<noteq> []"
    and "mem_close L u s = (Inr x, s')"
  shows "mem_content r s' d = Some (Inr b)"
proof (rule session_holdsE [OF assms(2)])
  fix mr mu
  assume *: "fmlookup (ms_repos s) r = Some mr" "fmlookup (ms_heap s) u = Some mu" "mu_repo mu = r" "mu_buffer mu = b"
  have "wr_digest L (fst (mu_w mu)) (snd (mu_w mu)) = Some d"
    using assms(1,4) * by (auto simp: verified_def writer_ok_def)
  then show ?thesis
    using assms(5,6) * by (auto simp: mem_close_def Let_def drop_session_def mem_content_def repo_content_def split: if_splits)
qed

lemma put_result:
  assumes "writer_ok L" and "digest_ok L" and "mem_inv L D s" and "session_holds s r sid u b"
    and "blobUploadPut L (mem_ops L) r sid req (s, new_rw) = (s', w')" and "acked w' d'"
  shows "mem_content r s' d' = Some (Inr (b @ concat (rq_body req)))"
proof (rule with_session_memE [OF assms(5) [unfolded blobUploadPut_def] assms(3,4)])
  fix s1
  assume holds: "session_holds s1 r sid u b" and inv: "mem_inv L D s1"
  have content: "mem_content r s' d' = Some (Inr (b @ concat (rq_body req)))"
    if put: "put_content L (mem_ops L) r d u req (t, new_rw) = (s', w')" and t: "session_holds t r sid u b" "mem_inv L D t"
      and d: "d \<noteq> []" for d t
  proof -
    obtain x t1 where copy: "io_copy (mem_ops L) u (rq_body req) (rq_body_fail req) t = (x, t1)"
      "session_holds t1 r sid u (b @ concat (rq_body req))"
      using session_io_copy [OF t(1)] by blast
    obtain y t2 where ver: "mem_verify L u d t1 = (y, t2)" by force
    obtain z t3 where close: "mem_close L u t2 = (z, t3)" by force
    have ok: "x = Inr ()" "y = Inr ()" "z = Inr ()" "s' = t3" "d' = d"
      using put assms(6) copy ver close unsent_new
      by (cases x; cases y; cases z; auto simp: put_content_def acked_created_at unsent_def split: prod.splits)+
    have "mem_inv L D t1"
      using mem_safe.keep_io_copy [OF copy(1), of D] t(2) assms(1,2) by (simp add: mem_safe_def)
    then have "mem_inv L D t2" using mem_inv_verify [of L D t1 u d] ver by simp
    then show ?thesis
      using session_close [OF assms(1) session_verify [OF ver copy(2)]] mem_verify_verified ver close ok d by blast
  qed
  assume run: "(case (s1, new_rw) of (s, w) \<Rightarrow>
       if \<not> blobValidRange (hdr_get (rq_header req) ''content-range'') (so_size (mem_ops L) u s) then
         (s, bad_range (so_size (mem_ops L) u s) w)
       else case dig_parse L (query_get req ''digest'') of
         None \<Rightarrow> (s, resp_err 400 [errInfoDigestInvalid ''invalid or missing digest''] w)
       | Some d \<Rightarrow>
         let s1 = (if so_size (mem_ops L) u s = 0 \<and> dig_algorithm L d \<noteq> dig_algorithm L (so_digest (mem_ops L) u s)
                   then snd (so_changeAlgorithm (mem_ops L) u (dig_algorithm L d) s) else s) in
         if \<not> upload_state_ok L req (so_size (mem_ops L) u s1) then
           (s1, resp_err 400 [errInfoBlobUploadInvalid ''invalid state''] w)
         else put_content L (mem_ops L) r d u req (s1, w)) = (s', w')"
  show ?thesis
    using run assms(6) content holds inv parsed_digest [OF assms(2)] session_changeAlgorithm [OF holds]
      mem_inv_changeAlgorithm [OF inv]
    by (auto simp: Let_def split: if_splits option.splits)
qed

fun run_patches :: "lib \<Rightarrow> 's store_ops \<Rightarrow> string \<Rightarrow> string \<Rightarrow> request list \<Rightarrow> 's \<Rightarrow> 's option" where
  "run_patches L S r sid [] s = Some s"
| "run_patches L S r sid (q # qs) s =
     (case blobUploadPatch L S r sid q (s, new_rw) of
        (s1, w1) \<Rightarrow> if rw_status w1 = 202 then run_patches L S r sid qs s1 else None)"

abbreviation sent_bytes :: "request \<Rightarrow> bytes" where
  "sent_bytes q \<equiv> concat (rq_body q)"

lemma run_patches_result:
  assumes "writer_ok L" and "digest_ok L"
  shows "mem_inv L D s \<Longrightarrow> session_holds s r sid u b \<Longrightarrow> run_patches L (mem_ops L) r sid qs s = Some s' \<Longrightarrow>
     mem_inv L D s' \<and> session_holds s' r sid u (b @ concat (map sent_bytes qs))"
proof (induction qs arbitrary: s b)
  case (Cons q qs)
  obtain s1 w1 where run: "blobUploadPatch L (mem_ops L) r sid q (s, new_rw) = (s1, w1)" by force
  have "mem_inv L D s1"
    using mem_safe.keep_blobUploadPatch [of L D s L r sid q new_rw] run Cons.prems(1) assms by (simp add: mem_safe_def)
  moreover have "rw_status w1 = 202" "run_patches L (mem_ops L) r sid qs s1 = Some s'"
    using Cons.prems(3) run by (simp_all split: if_splits)
  moreover have "session_holds s1 r sid u (b @ sent_bytes q)"
    using patch_result [OF Cons.prems(1,2) run] \<open>rw_status w1 = 202\<close> by blast
  ultimately show ?case using Cons.IH [of s1 "b @ sent_bytes q"] by simp
qed simp

text \<open>A POST without a digest opens an empty session and gives its name and offset away.\<close>

definition session_location :: "lib \<Rightarrow> request \<Rightarrow> string \<Rightarrow> string" where
  "session_location L q sid = url_string (path_clean (rq_path q @ CHR ''/'' # sid)) [(''state'', enc_state L 0)]"

lemma create_session:
  assumes "mem_blobCreate L r opts s = (Inr (u, sid), s')"
  shows "session_holds s' r sid u []"
  using assms
  by (auto simp: mem_blobCreate_def start_upload_def Let_def session_holds_def
      split: sum.splits option.splits if_splits list.splits prod.splits)

lemma post_opens:
  assumes "post_upload L (mem_ops L) r q (s, new_rw) = (s', w')" and "rw_status w' = 202"
  shows "\<exists>sid u. session_holds s' r sid u [] \<and> hdr_values (rw_sent_header w') ''Location'' = [session_location L q sid]"
proof -
  obtain opts d where opts: "post_options L q = Inr (opts, d)"
    using assms by (cases "post_options L q") (auto simp: post_upload_def rw_status_def)
  obtain x s1 where get: "mem_repoGet L r s = (x, s1)" by force
  have x: "x = Inr ()"
    using assms opts get by (cases x) (auto simp: post_upload_def with_repo_def rw_status_def repoGet_err_def split: if_splits)
  obtain res s2 where create: "mem_blobCreate L r opts s1 = (res, s2)" by force
  obtain u sid where res: "res = Inr (u, sid)"
    using assms opts get x create
    by (cases res) (auto simp: post_upload_def with_repo_def rw_status_def created_at_def Let_def split: if_splits)
  have "query_get q ''digest'' = []"
  proof (rule ccontr)
    assume "query_get q ''digest'' \<noteq> []"
    then have "post_monolithic L (mem_ops L) r d u q (mem_done r s2, new_rw) = (s', w')"
      using assms(1) opts get x create res by (simp add: post_upload_def with_repo_def Let_def)
    then show False
      using assms(2) by (auto simp: post_monolithic_def rw_status_def created_at_def split: prod.splits sum.splits)
  qed
  then have "s' = mem_done r s2" "w' = writeHeader 202 (upload_location L (path_clean (rq_path q @ CHR ''/'' # sid)) 0 new_rw)"
    using assms(1) opts get x create res by (simp_all add: post_upload_def with_repo_def Let_def)
  moreover have "session_holds (mem_done r s2) r sid u []"
    unfolding mem_done_def by (rule session_holds_upd) (use create create_session res in auto)
  ultimately show ?thesis
    by (auto simp: upload_location_def rw_sent_header_def session_location_def)
qed

text \<open>A concrete upload: \<open>x\<close> by PATCH, then \<open>y\<close> by the PUT that names the digest of \<open>xy\<close>.\<close>

definition open_request :: request where
  "open_request = demo_post\<lparr>rq_query := [], rq_body := []\<rparr>"

definition chunk_request :: "string \<Rightarrow> (string \<times> string) list \<Rightarrow> bytes \<Rightarrow> request" where
  "chunk_request m query b = demo_post\<lparr>rq_method := m, rq_query := query, rq_body := [b]\<rparr>"

lemmas upload_eval = post_upload_def post_options_def query_get_def query_values_def demo_post_def alice_request_def
  with_repo_def mem_repoGet_def blank_store_def newMem_def Let_def mem_blobCreate_def dig_is_zero_def new_mem_repo_def
  start_upload_def cache_get_def cache_new_def cache_set_def mem_done_def upd_repo_def upd_upload_def io_copy_def
  mem_write_def mem_verify_def mem_close_def drop_session_def open_request_def chunk_request_def demo_lib_def
  upload_location_def with_session_def mem_blobSession_def upload_state_ok_def mem_size_def blobValidRange_def
  hdr_get_def range_header_def put_content_def mem_digest_def mem_changeAlgorithm_def

definition opened :: mem_store where
  "opened = fst (post_upload demo_lib (mem_ops demo_lib) ''a'' open_request (blank_store, new_rw))"

lemma open_run: "\<exists>w. post_upload demo_lib (mem_ops demo_lib) ''a'' open_request (blank_store, new_rw) = (opened, w) \<and>
    rw_status w = 202 \<and> hdr_values (rw_sent_header w) ''Location'' = [session_location demo_lib open_request ''sid'']"
  by (simp add: opened_def upload_eval rw_status_def rw_sent_header_def session_location_def)

lemma patch_run: "\<exists>s1 w1 s2 w2. blobUploadPatch demo_lib (mem_ops demo_lib) ''a'' ''sid'' (chunk_request ''PATCH'' [(''state'', ''0'')] ''x'') (opened, new_rw) = (s1, w1) \<and>
     rw_status w1 = 202 \<and> blobUploadPut demo_lib (mem_ops demo_lib) ''a'' ''sid'' (chunk_request ''PUT'' [(''state'', ''1''), (''digest'', ''sha256:xy'')] ''y'') (s1, new_rw) = (s2, w2) \<and>
     w2 = created_at [''/v2'', ''a'', ''blobs'', ''sha256:xy''] ''sha256:xy'' new_rw"
  by (simp add: opened_def blobUploadPatch_def blobUploadPut_def upload_eval rw_status_def parse_int64_def max_int64_def is_digit_def digit_val_def)

lemma opened_ok: "mem_inv demo_lib no_backing opened" "session_holds opened ''a'' ''sid'' 0 []"
proof -
  show "mem_inv demo_lib no_backing opened"
    using mem_safe.keep_post_upload [of demo_lib no_backing blank_store demo_lib "''a''" open_request new_rw] blank_store_inv
    by (simp add: mem_safe_def demo_lib_ok opened_def)
  show "session_holds opened ''a'' ''sid'' 0 []"
    by (simp add: opened_def upload_eval session_holds_def cache_val_def)
qed

theorem patch_appends_witness:
  "\<exists>s1 w1. blobUploadPatch demo_lib (mem_ops demo_lib) ''a'' ''sid'' (chunk_request ''PATCH'' [(''state'', ''0'')] ''x'') (opened, new_rw) = (s1, w1) \<and>
     rw_status w1 = 202 \<and> session_holds s1 ''a'' ''sid'' 0 ''x''"
proof -
  obtain s1 w1 where run:
    "blobUploadPatch demo_lib (mem_ops demo_lib) ''a'' ''sid'' (chunk_request ''PATCH'' [(''state'', ''0'')] ''x'') (opened, new_rw) = (s1, w1)"
    "rw_status w1 = 202"
    using patch_run by blast
  from patch_appends [OF opened_ok run(1)] show ?thesis using run by (simp add: chunk_request_def)
qed

text \<open>
  C21: A blob uploaded in chunks: from a session that holds \<open>b\<close>, empty after the POST that opens it,
  after any number of accepted PATCH requests and an acknowledged PUT the repository holds under the
  digest of the response exactly \<open>b\<close> and the bodies of all the requests in order.
\<close>

theorem chunked_upload:
  assumes "writer_ok L" and "digest_ok L" and "mem_inv L D s" and "session_holds s r sid u b"
    and "run_patches L (mem_ops L) r sid qs s = Some s1"
    and "blobUploadPut L (mem_ops L) r sid q (s1, new_rw) = (s2, w2)" and "acked w2 d"
  shows "mem_content r s2 d = Some (Inr (b @ concat (map sent_bytes qs) @ sent_bytes q))"
  using run_patches_result [OF assms(1-5)] put_result [OF assms(1,2) _ _ assms(6,7)] by auto

theorem chunked_upload_witness:
  "\<exists>w s1 s2 w2. post_upload demo_lib (mem_ops demo_lib) ''a'' open_request (blank_store, new_rw) = (opened, w) \<and>
     run_patches demo_lib (mem_ops demo_lib) ''a'' ''sid'' [chunk_request ''PATCH'' [(''state'', ''0'')] ''x''] opened = Some s1 \<and>
     blobUploadPut demo_lib (mem_ops demo_lib) ''a'' ''sid''
       (chunk_request ''PUT'' [(''state'', ''1''), (''digest'', ''sha256:xy'')] ''y'') (s1, new_rw) = (s2, w2) \<and>
     mem_content ''a'' s2 ''sha256:xy'' = Some (Inr ''xy'')"
proof -
  obtain w where open_run: "post_upload demo_lib (mem_ops demo_lib) ''a'' open_request (blank_store, new_rw) = (opened, w)"
    "rw_status w = 202" "hdr_values (rw_sent_header w) ''Location'' = [session_location demo_lib open_request ''sid'']"
    using open_run by blast
  obtain s1 w1 s2 w2 where run:
    "blobUploadPatch demo_lib (mem_ops demo_lib) ''a'' ''sid'' (chunk_request ''PATCH'' [(''state'', ''0'')] ''x'') (opened, new_rw) = (s1, w1)"
    "rw_status w1 = 202"
    "blobUploadPut demo_lib (mem_ops demo_lib) ''a'' ''sid''
       (chunk_request ''PUT'' [(''state'', ''1''), (''digest'', ''sha256:xy'')] ''y'') (s1, new_rw) = (s2, w2)"
    "w2 = created_at [''/v2'', ''a'', ''blobs'', ''sha256:xy''] ''sha256:xy'' new_rw"
    using patch_run by blast
  have ack: "acked w2 ''sha256:xy''" using run(4) by (simp add: acked_created_at)
  have patches: "run_patches demo_lib (mem_ops demo_lib) ''a'' ''sid'' [chunk_request ''PATCH'' [(''state'', ''0'')] ''x''] opened = Some s1"
    using run(1,2) by simp
  show ?thesis
    using chunked_upload [OF demo_lib_ok(2,1) opened_ok patches run(3) ack] open_run(1) patches run(3)
    by (auto simp: chunk_request_def)
qed

end
