(* ===== verification/Mem_Load.thy ===== *)
theory Mem_Load
  imports Mem_Invariant
begin

text \<open>Loading a repository of the memory store from its directory ends, also when indexes refer to each other.\<close>

lemma dir_ops [simp]:
  "ms_dir (mem_done r s) = ms_dir s" "ms_dir (snd (mem_indexGet r s)) = ms_dir s"
  "ms_dir (snd (mem_indexInsert L r desc cs s)) = ms_dir s" "ms_dir (snd (mem_indexRemove L r desc s)) = ms_dir s"
  "ms_dir (snd (mem_blobDelete r d s)) = ms_dir s" "ms_dir (snd (mem_blobSession r sid s)) = ms_dir s"
  "ms_dir (snd (mem_write u p s)) = ms_dir s" "ms_dir (snd (mem_close L u s)) = ms_dir s"
  "ms_dir (snd (mem_cancel u s)) = ms_dir s" "ms_dir (snd (mem_verify L u d s)) = ms_dir s"
  "ms_dir (snd (mem_changeAlgorithm u a s)) = ms_dir s"
  by (simp_all add: mem_done_def mem_indexGet_def mem_indexInsert_def mem_indexRemove_def mem_blobDelete_def
      mem_blobSession_def mem_write_def mem_close_def drop_session_def mem_cancel_def mem_verify_def
      mem_changeAlgorithm_def Let_def split: option.split sum.split prod.split)

lemma dir_blobGet [simp]: "ms_dir (snd (mem_blobGet r d s)) = ms_dir s"
  by (cases rule: mem_blobGet_cases [of r d s]) simp_all

lemma dir_blobCreate [simp]: "ms_dir (snd (mem_blobCreate L r opts s)) = ms_dir s"
  by (simp add: mem_blobCreate_def start_upload_def Let_def split: option.split sum.split prod.split list.split)

interpretation repo_dir: store_invariant "mem_repo_ops L" "\<lambda>s. ms_dir s = D" for L D
  by unfold_locales (simp_all add: mem_repo_ops_def)

definition finite_dir :: "backing \<Rightarrow> bool" where
  "finite_dir D \<longleftrightarrow> (\<forall>p. finite {d. \<exists>rd. bd_open D p d = OsOk rd})"

lemma finite_mem_content:
  assumes "finite_dir (ms_dir s)"
  shows "finite (dom (mem_content r s))"
proof (cases "fmlookup (ms_repos s) r")
  case (Some mr)
  have "dom (mem_content r s) \<subseteq> fmdom' (mr_blobs mr) \<union> {d. \<exists>rd. bd_open (ms_dir s) (mr_path mr) d = OsOk rd}"
    using Some by (auto simp: mem_content_def repo_content_def fmlookup_dom'_iff split: if_splits option.splits os_res.splits)
  then show ?thesis using assms finite_subset unfolding finite_dir_def by (metis finite_Un finite_fmdom')
qed (simp add: mem_content_def dom_def)

lemma child_loop_mem:
  assumes "finite_dir (ms_dir s)"
  shows "\<exists>y. child_loop L (mem_repo_ops L) r scan seen li s = Some y"
proof (rule child_loop_total [where D = "dom (mem_content r s)" and P = "\<lambda>s'. dom (mem_content r s') \<subseteq> dom (mem_content r s)"])
  show "finite (dom (mem_content r s))" using assms by (rule finite_mem_content)
  show "dom (mem_content r (snd (so_blobGet (mem_repo_ops L) r d s'))) \<subseteq> dom (mem_content r s)"
    if "dom (mem_content r s') \<subseteq> dom (mem_content r s)" for s' d
    using that by (cases rule: mem_blobGet_cases [of r d s']) (auto simp: mem_repo_ops_def split: if_splits)
  show "\<exists>e. fst (so_blobGet (mem_repo_ops L) r d s') = Inl e"
    if "dom (mem_content r s') \<subseteq> dom (mem_content r s)" "d \<notin> dom (mem_content r s)" for s' d
    using that by (cases rule: mem_blobGet_cases [of r d s']) (auto simp: mem_repo_ops_def split: sum.splits)
qed simp

lemma dir_ingest_convert:
  assumes "ingest_convert L (mem_repo_ops L) r now sc li chg s = (e, li', chg', s')"
  shows "ms_dir s' = ms_dir s"
  using assms by (rule repo_dir.keep_ingest_convert) (rule refl)

lemma indexIngest_mem:
  assumes "finite_dir (ms_dir s)"
  shows "\<exists>y. indexIngest L (mem_repo_ops L) conf r now li s = Some y"
proof -
  obtain li1 chg1 where p1: "(if i_schemaVersion li \<noteq> 2 then (li\<lparr>i_schemaVersion := 2\<rparr>, True) else (li, False)) = (li1, chg1)"
    (is "?p1 = _") by (cases ?p1) blast
  obtain li2 chg2 where p2: "(if i_mediaType li1 \<noteq> mt_oci1_manifest_list
      then (li1\<lparr>i_mediaType := mt_oci1_manifest_list\<rparr>, True) else (li1, chg1)) = (li2, chg2)"
    (is "?p2 = _") by (cases ?p2) blast
  define sc where "sc = fold scan_step (i_manifests li2)
    \<lparr>is_seen = {}, is_scanChildren = [], is_referrerResponse = fmempty, is_digestTags = []\<rparr>"
  obtain e li3 chg3 s1 where x: "(if deref (ca_referrerEnabled (c_api conf)) \<and>
        \<not> map_get (i_annotations li) annot_referrer_convert = ''true''
      then ingest_convert L (mem_repo_ops L) r now sc li2 chg2 s else (None, li2, chg2, s)) = (e, li3, chg3, s1)"
    (is "?x = _") by (cases ?x) blast
  have "ms_dir s1 = ms_dir s" using x by (auto dest: dir_ingest_convert split: if_split_asm)
  with assms obtain y where y: "child_loop L (mem_repo_ops L) r (is_scanChildren sc) (is_seen sc) li3 s1 = Some y"
    using child_loop_mem [of s1] by fastforce
  show ?thesis
    unfolding indexIngest_def Let_def p1 prod.case p2 sc_def [symmetric] x y
    by (cases e; cases y) auto
qed

text \<open>
  C29: Loading a repository of the memory store returns, with a success or an error: the walk over the children of the
  index visits finitely many when finitely many blobs can be opened in the directory, whatever they
  contain, also indexes that refer to each other in circles.
\<close>

theorem repo_load_ends:
  assumes "finite_dir (ms_dir s)"
  shows "\<exists>x s'. mem_repoInit L r mr s = Some (x, s')"
proof -
  have "indexIngest L (mem_repo_ops L) (ms_conf s) r (ms_rnow s) li s \<noteq> None" for li
    using indexIngest_mem [OF assms, of L "ms_conf s" r "ms_rnow s" li] by auto
  then have "mem_repoInit L r mr s \<noteq> None"
    unfolding mem_repoInit_def by (simp del: not_None_eq split: os_res.split bool.split option.split prod.split)
  then show ?thesis by auto
qed

text \<open>A directory whose index file names an index that names itself.\<close>

definition circle_lib :: lib where
  "circle_lib = demo_lib\<lparr>json_layout := (\<lambda>b. Some ''1.0.0''),
     dec_index := (\<lambda>b. if b = ''I'' then Some (new_response [demo_index]) else None), dec_manifests_nil := (\<lambda>b. False)\<rparr>"

definition circle_backing :: backing where
  "circle_backing = no_backing\<lparr>bd_open := (\<lambda>p d. if d = ''s:I'' then OsOk (Inr ''I'') else OsNotExist),
     bd_indexIsDir := (\<lambda>p. OsOk False), bd_layoutFile := (\<lambda>p. OsOk ''L''),
     bd_indexFile := (\<lambda>p. OsOk (Some ((empty_layout fmempty)\<lparr>i_manifests := [demo_index]\<rparr>)))\<rparr>"

definition circle_repo :: mem_repo where
  "circle_repo = new_mem_repo demo_conf ''/r''"

definition circle_store :: mem_store where
  "circle_store = (newMem demo_conf 0 0 [] circle_backing)\<lparr>ms_repos := fmupd ''r'' circle_repo fmempty\<rparr>"

theorem repo_load_ends_witness:
  "repoGetIndex circle_lib (mem_repo_ops circle_lib) ''r'' demo_index circle_store =
     (Inr (new_response [demo_index], False), circle_store) \<and>
   (\<exists>x s'. mem_repoInit circle_lib ''r'' circle_repo circle_store = Some (x, s'))"
proof
  have "finite_dir (ms_dir circle_store)"
    by (simp add: finite_dir_def circle_store_def newMem_def circle_backing_def)
  then show "\<exists>x s'. mem_repoInit circle_lib ''r'' circle_repo circle_store = Some (x, s')"
    by (rule repo_load_ends)
  show "repoGetIndex circle_lib (mem_repo_ops circle_lib) ''r'' demo_index circle_store =
     (Inr (new_response [demo_index], False), circle_store)"
    by (simp add: repoGetIndex_def mem_repo_ops_def mem_blobGet_def dig_is_zero_def circle_store_def newMem_def
        circle_repo_def new_mem_repo_def Let_def circle_backing_def circle_lib_def)
qed

end
