(* ===== verification/Rate_Limit.thy ===== *)
theory Rate_Limit
  imports Router
begin

text \<open>
  The bound the rate limit of the server gives: counting starts anew one second after the first
  request of a count, so that a window of one second can hold the end of one count and the whole of
  the next.  The rounds of the cache that drop old entries do not weaken the bound.
\<close>

datatype rate_event = RateRequest time string | RatePrune time "string list"

text \<open>How many requests of a client get through, and the cache afterwards.\<close>

fun rate_run ::
    "int \<Rightarrow> string \<Rightarrow> rate_event list \<Rightarrow> (string, rate_entry) cache \<Rightarrow> nat \<times> (string, rate_entry) cache" where
  "rate_run limit ip [] c = (0, c)"
| "rate_run limit ip (RateRequest t i # es) c =
     (case rate_count t i c of (n, c1) \<Rightarrow>
      case rate_run limit ip es c1 of (k, c2) \<Rightarrow>
        (if i = ip \<and> \<not> n > limit then Suc k else k, c2))"
| "rate_run limit ip (RatePrune t ks # es) c =
     rate_run limit ip es (fst (cache_pruneAge no_hooks t ks c ()))"

text \<open>The events of a window of one second that begins at \<open>a\<close>.\<close>

fun in_window :: "time \<Rightarrow> rate_event \<Rightarrow> bool" where
  "in_window a (RateRequest t i) \<longleftrightarrow> a \<le> t \<and> t \<le> a + nano_second"
| "in_window a (RatePrune t ks) \<longleftrightarrow> a \<le> t \<and> t \<le> a + nano_second \<and> distinct ks"

fun well_pruned :: "rate_event \<Rightarrow> bool" where
  "well_pruned (RateRequest t i) \<longleftrightarrow> True"
| "well_pruned (RatePrune t ks) \<longleftrightarrow> distinct ks"

definition rate_ok :: "(string, rate_entry) cache \<Rightarrow> bool" where
  "rate_ok c \<longleftrightarrow> ca_minAge c = 10 * nano_second \<and>
     (\<forall>ip e. fmlookup (ca_entries c) ip = Some e \<longrightarrow> 0 \<le> re_count (en_value e))"

text \<open>What is left of a client's allowance in the window.\<close>

definition allowance :: "int \<Rightarrow> time \<Rightarrow> rate_entry entry option \<Rightarrow> int" where
  "allowance limit a eo =
     (case eo of
        None \<Rightarrow> limit
      | Some e \<Rightarrow> max 0 (limit - re_count (en_value e)) +
          (if a \<le> re_first (en_value e) \<and> a \<le> en_used e then 0 else limit))"

lemma rate_count_other:
  "i \<noteq> ip \<Longrightarrow> fmlookup (ca_entries (snd (rate_count t i c))) ip = fmlookup (ca_entries c) ip"
  by (auto simp: rate_count_def cache_get_def cache_set_def Let_def split: option.splits)

lemma rate_count_ok: "rate_ok c \<Longrightarrow> rate_ok (snd (rate_count t i c))"
  by (auto simp: rate_ok_def rate_count_def cache_get_def cache_set_def Let_def split: option.splits)

lemma rate_count_allowance:
  assumes "0 \<le> limit" and "a \<le> t" and "t \<le> a + nano_second"
  shows "(if fst (rate_count t ip c) \<le> limit then 1 else 0) +
      allowance limit a (fmlookup (ca_entries (snd (rate_count t ip c))) ip) \<le>
      allowance limit a (fmlookup (ca_entries c) ip)"
  using assms
  by (auto simp: rate_count_def cache_get_def cache_set_def allowance_def Let_def split: option.splits)

lemma prune_lookup:
  assumes "distinct ks"
  shows "fmlookup (ca_entries (fst (cache_pruneAge no_hooks t ks c ()))) ip
      \<in> aged t (t - ca_minAge c) (0 < ca_minAge c \<and> ip \<in> set ks) (fmlookup (ca_entries c) ip)"
proof (cases "ca_minAge c \<le> 0")
  case True
  then show ?thesis by (auto simp: cache_pruneAge_def aged_def split: option.splits)
next
  case False
  obtain es old s' where loop: "age_loop no_hooks t (t - ca_minAge c) ks (ca_entries c) t () = (es, old, s')"
    using prod_cases3 by blast
  have "ca_entries (fst (cache_pruneAge no_hooks t ks c ())) = es"
    using False by (simp add: cache_pruneAge_def loop Let_def)
  then show ?thesis
    using age_loop_lookup [OF assms, of no_hooks t "t - ca_minAge c" "ca_entries c" t "()" ip] loop False by simp
qed

lemma prune_ok:
  assumes "rate_ok c" and "distinct ks"
  shows "rate_ok (fst (cache_pruneAge no_hooks t ks c ()))"
proof -
  have "ca_minAge (fst (cache_pruneAge no_hooks t ks c ())) = ca_minAge c"
    using prune_limits(1) [of no_hooks t ks c "()"] by (metis prod.collapse)
  moreover have "0 \<le> re_count (en_value e)"
    if "fmlookup (ca_entries (fst (cache_pruneAge no_hooks t ks c ()))) ip = Some e" for ip e
    using prune_lookup [OF assms(2), of t c ip] that assms(1)
    by (auto simp: aged_def rate_ok_def split: option.splits if_splits)
  ultimately show ?thesis using assms(1) by (auto simp: rate_ok_def)
qed

lemma prune_allowance:
  assumes "rate_ok c" and "distinct ks" and "0 \<le> limit" and "a \<le> t" and "t \<le> a + nano_second"
  shows "allowance limit a (fmlookup (ca_entries (fst (cache_pruneAge no_hooks t ks c ()))) ip) \<le>
      allowance limit a (fmlookup (ca_entries c) ip)"
  using prune_lookup [OF assms(2), of t c ip] assms
  by (auto simp: aged_def allowance_def rate_ok_def nano_second_def split: option.splits if_splits)

lemma rate_run_allowance:
  "rate_ok c \<Longrightarrow> 0 \<le> limit \<Longrightarrow> \<forall>e\<in>set es. in_window a e \<Longrightarrow>
     int (fst (rate_run limit ip es c)) \<le> allowance limit a (fmlookup (ca_entries c) ip)"
proof (induction limit ip es c rule: rate_run.induct)
  case (1 limit ip c)
  then show ?case by (auto simp: allowance_def split: option.splits)
next
  case (2 limit ip t i es c)
  obtain n c1 where n: "rate_count t i c = (n, c1)" by (cases "rate_count t i c")
  obtain k c2 where k: "rate_run limit ip es c1 = (k, c2)" by (cases "rate_run limit ip es c1")
  have IH: "int k \<le> allowance limit a (fmlookup (ca_entries c1) ip)"
    using "2.IH" [OF n [symmetric]] "2.prems" rate_count_ok [of c t i] n k by simp
  show ?case
  proof (cases "i = ip")
    case True
    then show ?thesis
      using IH rate_count_allowance [of limit a t ip c] "2.prems" n k by (auto split: if_splits)
  next
    case False
    then show ?thesis using IH rate_count_other [OF False, of t c] n k by simp
  qed
next
  case (3 limit ip t ks es c)
  let ?c1 = "fst (cache_pruneAge no_hooks t ks c ())"
  have "int (fst (rate_run limit ip es ?c1)) \<le> allowance limit a (fmlookup (ca_entries ?c1) ip)"
    using "3.IH" "3.prems" prune_ok by simp
  also have "\<dots> \<le> allowance limit a (fmlookup (ca_entries c) ip)"
    using "3.prems" by (intro prune_allowance) auto
  finally show ?case by simp
qed

lemma allowance_le:
  assumes "rate_ok c" and "0 \<le> limit"
  shows "allowance limit a (fmlookup (ca_entries c) ip) \<le> 2 * limit"
proof (cases "fmlookup (ca_entries c) ip")
  case (Some e)
  then have "0 \<le> re_count (en_value e)" using assms(1) by (auto simp: rate_ok_def)
  then show ?thesis using Some assms(2) by (simp add: allowance_def)
qed (use assms(2) in \<open>simp add: allowance_def\<close>)

lemma rate_run_ok:
  "rate_ok c \<Longrightarrow> \<forall>e\<in>set es. well_pruned e \<Longrightarrow> rate_ok (snd (rate_run limit ip es c))"
proof (induction limit ip es c rule: rate_run.induct)
  case (2 limit ip t i es c)
  then show ?case using rate_count_ok [of c t i] by (auto split: prod.splits)
qed (auto intro: prune_ok)

text \<open>
  C38: Whatever came before, in every window of one second at most twice the limit of the requests of one
  client address gets past the rate limit, also when the cache drops old entries meanwhile.  More than
  the limit can pass: a count ends a second after its first request, so a window can touch two counts.
\<close>

theorem rate_limit_window:
  assumes "0 \<le> limit" and "\<forall>e\<in>set before. well_pruned e" and "\<forall>e\<in>set es. in_window a e"
  shows "int (fst (rate_run limit ip es (snd (rate_run limit ip before (cache_new (10 * nano_second) 0))))) \<le> 2 * limit"
proof -
  have "rate_ok (cache_new (10 * nano_second) 0)"
    by (simp add: rate_ok_def cache_new_def)
  then have ok: "rate_ok (snd (rate_run limit ip before (cache_new (10 * nano_second) 0)))" (is "rate_ok ?c")
    using assms(2) by (rule rate_run_ok)
  have "int (fst (rate_run limit ip es ?c)) \<le> allowance limit a (fmlookup (ca_entries ?c) ip)"
    using ok assms(1,3) by (rule rate_run_allowance)
  also have "\<dots> \<le> 2 * limit"
    using ok assms(1) by (rule allowance_le)
  finally show ?thesis .
qed

lemma rate_run_demo:
  "fst (rate_run 2 ''x'' [RateRequest (9 * nano_second div 10) ''x'', RateRequest (nano_second + 1) ''x'', RateRequest (nano_second + 2) ''x'', RateRequest (nano_second + 3) ''x'']
     (snd (rate_run 2 ''x'' [RateRequest 0 ''x''] (cache_new (10 * nano_second) 0)))) = 3"
  by (simp add: rate_count_def cache_get_def cache_set_def cache_new_def nano_second_def Let_def)

theorem rate_limit_window_witness:
  "int (fst (rate_run 2 ''x'' [RateRequest (9 * nano_second div 10) ''x'', RateRequest (nano_second + 1) ''x'', RateRequest (nano_second + 2) ''x'', RateRequest (nano_second + 3) ''x'']
     (snd (rate_run 2 ''x'' [RateRequest 0 ''x''] (cache_new (10 * nano_second) 0))))) = 3 \<and> (3::int) \<le> 2 * 2"
  using rate_limit_window [of 2 "[RateRequest 0 ''x'']"
      "[RateRequest (9 * nano_second div 10) ''x'', RateRequest (nano_second + 1) ''x'', RateRequest (nano_second + 2) ''x'', RateRequest (nano_second + 3) ''x'']"
      "9 * nano_second div 10" "''x''"]
  by (simp add: rate_run_demo nano_second_def del: rate_run.simps) (simp add: rate_run_demo [unfolded nano_second_def, simplified])

end
