(* ===== verification/Dir_Store.thy ===== *)
theory Dir_Store
  imports Ingest Cache Reproducible Files
begin

text \<open>
  The directory store (\<open>internal/store/dir.go\<close>): every repository is an OCI layout in the file system,
  with its blobs and its \<open>index.json\<close> in files; the store keeps in memory the parsed index, the open
  uploads and the cache of repositories.  Every method is one definition.

  The mutex of a repository is a field, because one path of the code takes it twice: what waits for a
  mutex that is held never returns, and \<open>ds_hung\<close> records that the call under way does not.  Behind
  the interface a call after that point does nothing.  The goroutine an upload starts when it is
  deleted is a step of its own: \<open>ds_touch\<close> lists the repositories it will touch.
\<close>

section \<open>State\<close>

text \<open>
  Outside the repository: \<open>Encoded\<close> of a digest, and the codec of \<open>encoding/json\<close> for the structs
  \<open>LayoutIndex\<close> and \<open>Layout\<close>.
\<close>

record dir_lib =
  dl_encoded :: "digest \<Rightarrow> string"
  dl_dec_index :: "bytes \<Rightarrow> layout_index option"
  dl_enc_index :: "layout_index \<Rightarrow> bytes option"
  dl_enc_layout :: "string \<Rightarrow> bytes option"

record dir_repo =
  dr_mu :: bool
  dr_block :: bool
  dr_wg :: nat
  dr_timeCheck :: time
  dr_timeMod :: time
  dr_path :: path
  dr_exists :: bool
  dr_index :: layout_index
  dr_uploads :: "(string, uid) cache"

record dir_upload =
  du_repo :: string
  du_sessionID :: string
  du_fh :: "nat option"
  du_alg :: algorithm
  du_w :: "algorithm \<times> bytes"
  du_size :: int
  du_expect :: digest
  du_path :: path
  du_filename :: path

record dir_store =
  ds_repos :: "(string, dir_repo) fmap"
  ds_cache :: "(string, string) cache"
  ds_heap :: "(uid, dir_upload) fmap"
  ds_next :: uid
  ds_conf :: config
  ds_stop :: bool
  ds_now :: time
  ds_procTime :: time
  ds_rand :: "string list"
  ds_fs :: fsys
  ds_touch :: "string list"
  ds_hung :: bool

abbreviation ds_rnow :: "dir_store \<Rightarrow> time" where
  "ds_rnow s \<equiv> timeNow (ds_procTime s) (ds_now s)"

abbreviation ds_readOnly :: "dir_store \<Rightarrow> bool" where
  "ds_readOnly s \<equiv> deref (cs_readOnly (c_storage (ds_conf s)))"

abbreviation ds_gc :: "dir_store \<Rightarrow> config_gc" where
  "ds_gc s \<equiv> cs_gc (c_storage (ds_conf s))"

definition upd_dr :: "string \<Rightarrow> (dir_repo \<Rightarrow> dir_repo) \<Rightarrow> dir_store \<Rightarrow> dir_store" where
  "upd_dr r f s =
     (case fmlookup (ds_repos s) r of
        None \<Rightarrow> s
      | Some dr \<Rightarrow> s\<lparr>ds_repos := fmupd r (f dr) (ds_repos s)\<rparr>)"

definition upd_du :: "uid \<Rightarrow> (dir_upload \<Rightarrow> dir_upload) \<Rightarrow> dir_store \<Rightarrow> dir_store" where
  "upd_du u f s =
     (case fmlookup (ds_heap s) u of
        None \<Rightarrow> s
      | Some du \<Rightarrow> s\<lparr>ds_heap := fmupd u (f du) (ds_heap s)\<rparr>)"

definition fs_do :: "(fsys \<Rightarrow> 'a \<times> fsys) \<Rightarrow> dir_store \<Rightarrow> 'a \<times> dir_store" where
  "fs_do f s = (case f (ds_fs s) of (x, F) \<Rightarrow> (x, s\<lparr>ds_fs := F\<rparr>))"

definition hang :: "dir_store \<Rightarrow> dir_store" where
  "hang s = s\<lparr>ds_hung := True\<rparr>"

definition live :: "'a \<Rightarrow> (dir_store \<Rightarrow> 'a \<times> dir_store) \<Rightarrow> dir_store \<Rightarrow> 'a \<times> dir_store" where
  "live x f s = (if ds_hung s then (x, s) else f s)"

abbreviation err_hung :: err where
  "err_hung \<equiv> ErrOther ''does not return''"

text \<open>\<open>dr.mu.Lock()\<close> with \<open>defer dr.mu.Unlock()\<close>.\<close>

definition with_mu :: "string \<Rightarrow> 'a \<Rightarrow> (dir_store \<Rightarrow> 'a \<times> dir_store) \<Rightarrow> dir_store \<Rightarrow> 'a \<times> dir_store" where
  "with_mu r x f s =
     (case fmlookup (ds_repos s) r of
        None \<Rightarrow> (x, s)
      | Some dr \<Rightarrow>
        if dr_mu dr then (x, hang s)
        else case f (upd_dr r (\<lambda>m. m\<lparr>dr_mu := True\<rparr>) s) of
            (y, s1) \<Rightarrow> (y, if ds_hung s1 then s1 else upd_dr r (\<lambda>m. m\<lparr>dr_mu := False\<rparr>) s1))"

text \<open>The error that wraps what the operating system reports.\<close>

definition os_err :: "'a os_res \<Rightarrow> err" where
  "os_err x = (case x of OsErr e \<Rightarrow> ErrOther e | _ \<Rightarrow> ErrOther ''no such file or directory'')"

abbreviation index_file :: string where "index_file \<equiv> ''index.json''"
abbreviation layout_file :: string where "layout_file \<equiv> ''oci-layout''"
abbreviation blobs_dir :: string where "blobs_dir \<equiv> ''blobs''"
abbreviation upload_dir :: string where "upload_dir \<equiv> ''_uploads''"

definition blob_file :: "lib \<Rightarrow> dir_lib \<Rightarrow> path \<Rightarrow> digest \<Rightarrow> path" where
  "blob_file L DL p d = p @ [blobs_dir, dig_algorithm L d, dl_encoded DL d]"

section \<open>The index file\<close>

text \<open>
  \<open>indexSave\<close>, with the mutex held: the index goes to a temporary file that then takes the place of
  \<open>index.json\<close>.
\<close>

definition minimal_index :: "layout_index \<Rightarrow> layout_index" where
  "minimal_index li = li\<lparr>i_schemaVersion := 2, i_mediaType := mt_oci1_manifest_list\<rparr>"

definition discard_temp :: "path \<Rightarrow> err \<Rightarrow> dir_store \<Rightarrow> unit res \<times> dir_store" where
  "discard_temp tmp e s = (case fs_do (os_remove tmp) s of (_, s1) \<Rightarrow> (Inl e, s1))"

definition replace_index :: "string \<Rightarrow> path \<Rightarrow> nat \<Rightarrow> path \<Rightarrow> dir_store \<Rightarrow> unit res \<times> dir_store" where
  "replace_index r tmp i p s =
     (case fs_do (os_rename tmp (p @ [index_file])) s of
        (OsOk _, s1) \<Rightarrow>
          (case fs_do (os_fstat (NFile i)) s1 of
             (OsOk t, s2) \<Rightarrow> (Inr (), upd_dr r (\<lambda>m. m\<lparr>dr_timeMod := t\<rparr>) s2)
           | (e, s2) \<Rightarrow> (Inl (os_err e), s2))
      | (e, s1) \<Rightarrow> discard_temp tmp (os_err e) s1)"

definition dir_indexSave :: "dir_lib \<Rightarrow> string \<Rightarrow> dir_store \<Rightarrow> unit res \<times> dir_store" where
  "dir_indexSave DL r s =
     (if ds_readOnly s then (Inl ErrReadOnly, s)
      else case fmlookup (ds_repos s) r of
        None \<Rightarrow> (Inl ErrNotFound, s)
      | Some dr \<Rightarrow>
        let li = minimal_index (dr_index dr);
            s0 = upd_dr r (\<lambda>m. m\<lparr>dr_index := li\<rparr>) s in
        (case fs_do (os_createTemp (dr_path dr) (index_file @ ''.'') (ds_now s)) s0 of
           (OsOk (tmp, i), s1) \<Rightarrow>
             (case dl_enc_index DL li of
                None \<Rightarrow> discard_temp tmp (ErrOther ''json'') s1
              | Some b \<Rightarrow>
                (case fs_do (fh_write i b (ds_now s)) s1 of
                   (OsOk _, s2) \<Rightarrow> replace_index r tmp i (dr_path dr) s2
                 | (e, s2) \<Rightarrow> discard_temp tmp (os_err e) s2))
         | (e, s1) \<Rightarrow> (Inl (os_err e), s1)))"

section \<open>Creating a repository\<close>

text \<open>The part of \<open>repoInit\<close> that creates the directory and the \<open>oci-layout\<close> file.\<close>

definition init_directory :: "path \<Rightarrow> dir_store \<Rightarrow> unit res \<times> dir_store" where
  "init_directory p s =
     (case fs_do (os_stat p) s of
        (OsOk (isdir, _), s1) \<Rightarrow> if isdir then (Inr (), s1) else (Inl (ErrOther ''repo is not a directory''), s1)
      | (_, s1) \<Rightarrow>
        (case fs_do (os_mkdirAll p) s1 of
           (OsOk _, s2) \<Rightarrow> (Inr (), s2)
         | (e, s2) \<Rightarrow> (Inl (os_err e), s2)))"

definition init_layout :: "lib \<Rightarrow> dir_lib \<Rightarrow> path \<Rightarrow> dir_store \<Rightarrow> unit res \<times> dir_store" where
  "init_layout L DL p s =
     (case fs_do (os_readFile (p @ [layout_file])) s of (x, s1) \<Rightarrow>
      if (case x of OsOk b \<Rightarrow> layoutVerify L b | _ \<Rightarrow> False) then (Inr (), s1)
      else (case dl_enc_layout DL ''1.0.0'' of
          None \<Rightarrow> (Inl (ErrOther ''json''), s1)
        | Some b \<Rightarrow>
          (case fs_do (os_writeFile (p @ [layout_file]) b (ds_now s)) s1 of
             (OsOk _, s2) \<Rightarrow> (Inr (), s2)
           | (e, s2) \<Rightarrow> (Inl (os_err e), s2))))"

definition init_index :: "dir_lib \<Rightarrow> string \<Rightarrow> path \<Rightarrow> dir_store \<Rightarrow> unit res \<times> dir_store" where
  "init_index DL r p s =
     (case fs_do (os_stat (p @ [index_file])) s of
        (OsOk (isdir, _), s1) \<Rightarrow> if isdir then (Inl (ErrOther ''index.json is a directory''), s1) else (Inr (), s1)
      | (OsNotExist, s1) \<Rightarrow> dir_indexSave DL r s1
      | (OsErr e, s1) \<Rightarrow> (Inl (ErrOther e), s1))"

definition dir_repoInit :: "lib \<Rightarrow> dir_lib \<Rightarrow> string \<Rightarrow> dir_store \<Rightarrow> unit res \<times> dir_store" where
  "dir_repoInit L DL r =
     with_mu r (Inl err_hung) (\<lambda>s.
       case fmlookup (ds_repos s) r of
         None \<Rightarrow> (Inl ErrNotFound, s)
       | Some dr \<Rightarrow>
         if dr_exists dr then (Inr (), s)
         else (case init_directory (dr_path dr) s of
             (Inl e, s1) \<Rightarrow> (Inl e, s1)
           | (Inr _, s1) \<Rightarrow>
             (case init_layout L DL (dr_path dr) s1 of
                (Inl e, s2) \<Rightarrow> (Inl e, s2)
              | (Inr _, s2) \<Rightarrow>
                (case init_index DL r (dr_path dr) s2 of
                   (Inl e, s3) \<Rightarrow> (Inl e, s3)
                 | (Inr _, s3) \<Rightarrow> (Inr (), upd_dr r (\<lambda>m. m\<lparr>dr_exists := True\<rparr>) s3)))))"

section \<open>Blob methods\<close>

definition dir_blobGet :: "lib \<Rightarrow> dir_lib \<Rightarrow> string \<Rightarrow> digest \<Rightarrow> dir_store \<Rightarrow> reader res \<times> dir_store" where
  "dir_blobGet L DL r d s =
     (case fmlookup (ds_repos s) r of
        None \<Rightarrow> (Inl ErrNotFound, s)
      | Some dr \<Rightarrow>
        if \<not> dr_exists dr then (Inl ErrNotFound, s)
        else if dig_is_zero d then (Inl (ErrOther ''invalid digest''), s)
        else (case fs_do (os_open (blob_file L DL (dr_path dr) d)) s of
            (OsOk n, s1) \<Rightarrow> (Inr (node_read (ds_fs s1) n), s1)
          | (OsNotExist, s1) \<Rightarrow> (Inl ErrNotFound, s1)
          | (OsErr e, s1) \<Rightarrow> (Inl (ErrOther e), s1)))"

definition dir_blobMeta :: "lib \<Rightarrow> dir_lib \<Rightarrow> string \<Rightarrow> digest \<Rightarrow> dir_store \<Rightarrow> time res \<times> dir_store" where
  "dir_blobMeta L DL r d s =
     (case fmlookup (ds_repos s) r of
        None \<Rightarrow> (Inl ErrNotFound, s)
      | Some dr \<Rightarrow>
        if \<not> dr_exists dr then (Inl ErrNotFound, s)
        else if dig_is_zero d then (Inl (ErrOther ''invalid digest''), s)
        else (case fs_do (os_stat (blob_file L DL (dr_path dr) d)) s of
            (OsOk (_, t), s1) \<Rightarrow> (Inr t, s1)
          | (OsNotExist, s1) \<Rightarrow> (Inl ErrNotFound, s1)
          | (OsErr e, s1) \<Rightarrow> (Inl (ErrOther e), s1)))"

text \<open>
  The end of \<open>BlobCreate\<close>, with the mutex held: a session, the directory of the uploads, and a
  temporary file in it.
\<close>

definition upload_temp :: "path \<Rightarrow> dir_store \<Rightarrow> (path \<times> nat) os_res \<times> dir_store" where
  "upload_temp p s =
     (let tmpDir = p @ [upload_dir];
          mk = (\<lambda>s. fs_do (os_createTemp tmpDir ''upload.'' (ds_now s)) s) in
      case fs_do (os_stat tmpDir) s of
        (OsOk (isdir, _), s1) \<Rightarrow> if isdir then mk s1 else (OsErr ''upload location is not a directory'', s1)
      | (_, s1) \<Rightarrow>
        (case fs_do (os_mkdirAll tmpDir) s1 of
           (OsOk _, s2) \<Rightarrow> mk s2
         | (e, s2) \<Rightarrow> (OsErr ''failed to create upload directory'', s2)))"

definition start_session ::
    "string \<Rightarrow> path \<Rightarrow> blob_conf \<Rightarrow> string \<Rightarrow> (string, uid) cache \<Rightarrow> dir_store \<Rightarrow> (uid \<times> string) res \<times> dir_store" where
  "start_session r p bc sid c s =
     (case upload_temp p s of
        (OsOk (fname, i), s1) \<Rightarrow>
          let u = ds_next s1;
              du = \<lparr>du_repo = r, du_sessionID = sid, du_fh = Some i, du_alg = bo_algo bc,
                    du_w = (bo_algo bc, []), du_size = 0, du_expect = bo_expect bc, du_path = p,
                    du_filename = fname\<rparr>
          in (Inr (u, sid),
              upd_dr r (\<lambda>m. m\<lparr>dr_timeMod := ds_now s1, dr_uploads := fst (cache_set (ds_now s1) sid u c)\<rparr>)
                (s1\<lparr>ds_next := Suc u, ds_heap := fmupd u du (ds_heap s1)\<rparr>))
      | (e, s1) \<Rightarrow> (Inl (os_err e), s1))"

definition create_session ::
    "string \<Rightarrow> blob_conf \<Rightarrow> dir_store \<Rightarrow> (uid \<times> string) res \<times> dir_store" where
  "create_session r bc s =
     (case (fmlookup (ds_repos s) r, ds_rand s) of
        (None, _) \<Rightarrow> (Inl ErrNotFound, s)
      | (_, []) \<Rightarrow> (Inl (ErrOther ''failed generating sessionID''), s)
      | (Some dr, sid # ids) \<Rightarrow>
        let s1 = s\<lparr>ds_rand := ids\<rparr> in
        (case cache_get (ds_now s) sid (dr_uploads dr) of
           (Inr _, c) \<Rightarrow> (Inl (ErrOther ''session ID collision''), upd_dr r (\<lambda>m. m\<lparr>dr_uploads := c\<rparr>) s1)
         | (Inl _, c) \<Rightarrow> start_session r (dr_path dr) bc sid c s1))"

definition dir_blobCreate ::
    "lib \<Rightarrow> dir_lib \<Rightarrow> string \<Rightarrow> blob_opt list \<Rightarrow> dir_store \<Rightarrow> (uid \<times> string) res \<times> dir_store" where
  "dir_blobCreate L DL r opts s =
     (if ds_readOnly s then (Inl ErrReadOnly, s)
      else case apply_blob_opts L opts \<lparr>bo_algo = dig_canonical L, bo_expect = []\<rparr> of
        Inl e \<Rightarrow> (Inl e, s)
      | Inr bc \<Rightarrow>
        (case fmlookup (ds_repos s) r of
           None \<Rightarrow> (Inl ErrNotFound, s)
         | Some dr \<Rightarrow>
           (case (if \<not> dr_exists dr then dir_repoInit L DL r s else (Inr (), s)) of
              (Inl e, s1) \<Rightarrow> (Inl e, s1)
            | (Inr _, s1) \<Rightarrow>
              (case (if dig_is_zero (bo_expect bc) then (OsNotExist, s1)
                     else fs_do (os_stat (blob_file L DL (dr_path dr) (bo_expect bc))) s1) of
                 (OsOk _, s2) \<Rightarrow> (Inl ErrBlobExists, s2)
               | (_, s2) \<Rightarrow> with_mu r (Inl err_hung) (create_session r bc) s2))))"

definition dir_blobDelete :: "lib \<Rightarrow> dir_lib \<Rightarrow> string \<Rightarrow> digest \<Rightarrow> dir_store \<Rightarrow> unit res \<times> dir_store" where
  "dir_blobDelete L DL r d s =
     (if ds_readOnly s then (Inl ErrReadOnly, s)
      else case fmlookup (ds_repos s) r of
        None \<Rightarrow> (Inl ErrNotFound, s)
      | Some dr \<Rightarrow>
        if \<not> dr_exists dr then (Inl ErrNotFound, s)
        else if dig_is_zero d then (Inl (ErrOther ''invalid digest''), s)
        else (case fs_do (os_stat (blob_file L DL (dr_path dr) d)) s of
            (OsOk (isdir, _), s1) \<Rightarrow>
              if isdir then (Inl (ErrOther ''invalid blob''), s1)
              else (case fs_do (os_remove (blob_file L DL (dr_path dr) d)) s1 of
                  (OsOk _, s2) \<Rightarrow> (Inr (), s2)
                | (e, s2) \<Rightarrow> (Inl (os_err e), s2))
          | (OsNotExist, s1) \<Rightarrow> (Inl ErrNotFound, s1)
          | (OsErr e, s1) \<Rightarrow> (Inl (ErrOther e), s1)))"

fun list_algorithms :: "lib \<Rightarrow> path \<Rightarrow> (string \<times> bool) list \<Rightarrow> dir_store \<Rightarrow> digest list res \<times> dir_store" where
  "list_algorithms L p [] s = (Inr [], s)"
| "list_algorithms L p ((a, isdir) # as) s =
     (if \<not> isdir then list_algorithms L p as s
      else case fs_do (os_readDir (p @ [blobs_dir, a])) s of
        (OsOk es, s1) \<Rightarrow>
          (case list_algorithms L p as s1 of
             (Inl e, s2) \<Rightarrow> (Inl e, s2)
           | (Inr dl, s2) \<Rightarrow> (Inr (List.map_filter (\<lambda>(e, _). dig_parse L (a @ '':'' @ e)) es @ dl), s2))
      | (_, s1) \<Rightarrow> (Inl (ErrOther ''failed to read dir''), s1))"

definition dir_blobList :: "lib \<Rightarrow> string \<Rightarrow> dir_store \<Rightarrow> digest list res \<times> dir_store" where
  "dir_blobList L r s =
     (case fmlookup (ds_repos s) r of
        None \<Rightarrow> (Inr [], s)
      | Some dr \<Rightarrow>
        (case fs_do (os_readDir (dr_path dr @ [blobs_dir])) s of
           (OsOk as, s1) \<Rightarrow> list_algorithms L (dr_path dr) as s1
         | (OsNotExist, s1) \<Rightarrow> (Inr [], s1)
         | (OsErr e, s1) \<Rightarrow> (Inl (ErrOther e), s1)))"

definition dir_blobSession :: "string \<Rightarrow> string \<Rightarrow> dir_store \<Rightarrow> uid res \<times> dir_store" where
  "dir_blobSession r sid =
     with_mu r (Inl err_hung) (\<lambda>s.
       case fmlookup (ds_repos s) r of
         None \<Rightarrow> (Inl ErrNotFound, s)
       | Some dr \<Rightarrow>
         (case cache_get (ds_now s) sid (dr_uploads dr) of
            (Inr u, c) \<Rightarrow> (Inr u, upd_dr r (\<lambda>m. m\<lparr>dr_uploads := c\<rparr>) s)
          | (Inl _, c) \<Rightarrow> (Inl ErrNotFound, s)))"

end
