(* ===== verification/Dir_Methods.thy ===== *)
theory Dir_Methods
  imports Dir_Store
begin

text \<open>
  The directory store, continued: the methods of an upload, loading the index, the methods of the
  store, its garbage collection, and the store behind the interface of the handlers.
\<close>

section \<open>Upload methods\<close>

text \<open>\<open>dirRepoUpload.delete\<close>, the prune function of the cache of uploads.\<close>

definition close_handle :: "uid \<Rightarrow> dir_store \<Rightarrow> dir_store" where
  "close_handle u s =
     (case fmlookup (ds_heap s) u of
        Some du \<Rightarrow>
          (case du_fh du of
             None \<Rightarrow> s
           | Some i \<Rightarrow> (case fs_do fh_close s of (_, s1) \<Rightarrow> upd_du u (\<lambda>m. m\<lparr>du_fh := None\<rparr>) s1))
      | None \<Rightarrow> s)"

definition delete_upload :: "uid \<Rightarrow> dir_store \<Rightarrow> dir_store" where
  "delete_upload u s =
     (case fmlookup (ds_heap s) u of
        None \<Rightarrow> s
      | Some du \<Rightarrow>
        (case fs_do (os_remove (du_filename du)) (close_handle u s) of
           (_, s1) \<Rightarrow> s1\<lparr>ds_touch := ds_touch s1 @ [du_repo du]\<rparr>))"

definition upload_hooks :: "(string, uid, dir_store) prune_hooks" where
  "upload_hooks = \<lparr>ph_fn = Some (\<lambda>_ u s. (None, delete_upload u s)), ph_pre = None, ph_post = None\<rparr>"

text \<open>\<open>dr.uploads.Delete(sessionID)\<close>.\<close>

definition drop_upload :: "dir_upload \<Rightarrow> dir_store \<Rightarrow> dir_store" where
  "drop_upload du s =
     (case fmlookup (ds_repos s) (du_repo du) of
        None \<Rightarrow> s
      | Some dr \<Rightarrow>
        (case cache_delete upload_hooks (du_sessionID du) (dr_uploads dr) s of
           (_, c, s1) \<Rightarrow> upd_dr (du_repo du) (\<lambda>m. m\<lparr>dr_uploads := c\<rparr>) s1))"

definition dir_write :: "uid \<Rightarrow> bytes \<Rightarrow> dir_store \<Rightarrow> unit res \<times> dir_store" where
  "dir_write u p s =
     (case fmlookup (ds_heap s) u of
        None \<Rightarrow> (Inl ErrNotFound, s)
      | Some du \<Rightarrow>
        (case (du_fh du, fmlookup (ds_repos s) (du_repo du)) of
           (None, _) \<Rightarrow> (Inl (ErrOther ''writer is closed''), s)
         | (_, None) \<Rightarrow> (Inl ErrNotFound, s)
         | (Some i, Some dr) \<Rightarrow>
           (case cache_get (ds_now s) (du_sessionID du) (dr_uploads dr) of
              (Inl e, c) \<Rightarrow> (Inl e, s)
            | (Inr _, c) \<Rightarrow>
              (case fs_do (fh_write i p (ds_now s)) (upd_dr (du_repo du) (\<lambda>m. m\<lparr>dr_uploads := c\<rparr>) s) of
                 (OsOk _, s1) \<Rightarrow>
                   (Inr (), upd_du u (\<lambda>m. m\<lparr>du_w := (fst (du_w m), snd (du_w m) @ p),
                                           du_size := du_size m + int (length p)\<rparr>) s1)
               | (e, s1) \<Rightarrow> (Inl (os_err e), s1)))))"

text \<open>The middle of \<open>Close\<close>: the directory of the algorithm.\<close>

definition blob_directory :: "path \<Rightarrow> dir_store \<Rightarrow> unit res \<times> dir_store" where
  "blob_directory tgtDir s =
     (case fs_do (os_stat tgtDir) s of
        (OsOk (isdir, _), s1) \<Rightarrow>
          if isdir then (Inr (), s1) else (Inl (ErrOther ''failed to move file to blob storage''), s1)
      | (_, s1) \<Rightarrow>
        (case fs_do (os_mkdirAll tgtDir) s1 of
           (OsOk _, s2) \<Rightarrow> (Inr (), s2)
         | (e, s2) \<Rightarrow> (Inl (os_err e), s2)))"

definition dir_close :: "lib \<Rightarrow> dir_lib \<Rightarrow> uid \<Rightarrow> dir_store \<Rightarrow> unit res \<times> dir_store" where
  "dir_close L DL u s =
     (case fmlookup (ds_heap s) u of
        None \<Rightarrow> (Inl ErrNotFound, s)
      | Some du \<Rightarrow>
        (case (case du_fh du of None \<Rightarrow> (OsErr ''invalid argument'', s) | Some _ \<Rightarrow> fs_do fh_close s) of (x, s1) \<Rightarrow>
         let s2 = upd_du u (\<lambda>m. m\<lparr>du_fh := None\<rparr>) s1 in
         if x \<noteq> OsOk () then discard_temp (du_filename du) (os_err x) s2
         else (case wr_digest L (fst (du_w du)) (snd (du_w du)) of
             None \<Rightarrow> discard_temp (du_filename du) (ErrOther ''failed to compute the digest'') s2
           | Some d \<Rightarrow>
             if \<not> dig_is_zero (du_expect du) \<and> d \<noteq> du_expect du then
               discard_temp (du_filename du) (ErrOther ''digest mismatch'') s2
             else
               (case blob_directory (du_path du @ [blobs_dir, dig_algorithm L d]) s2 of
                  (Inl e, s3) \<Rightarrow> discard_temp (du_filename du) e s3
                | (Inr _, s3) \<Rightarrow>
                  (case fs_do (os_rename (du_filename du) (blob_file L DL (du_path du) d)) s3 of
                     (OsOk _, s4) \<Rightarrow> (Inr (), drop_upload du s4)
                   | (e, s4) \<Rightarrow> (Inl (os_err e), drop_upload du s4))))))"

definition dir_cancel :: "uid \<Rightarrow> dir_store \<Rightarrow> unit res \<times> dir_store" where
  "dir_cancel u s =
     (case fmlookup (ds_heap s) u of
        None \<Rightarrow> (Inl ErrNotFound, s)
      | Some du \<Rightarrow> (Inr (), drop_upload du s))"

definition dir_size :: "uid \<Rightarrow> dir_store \<Rightarrow> int" where
  "dir_size u s = (case fmlookup (ds_heap s) u of None \<Rightarrow> 0 | Some du \<Rightarrow> du_size du)"

definition dir_digest :: "lib \<Rightarrow> uid \<Rightarrow> dir_store \<Rightarrow> digest" where
  "dir_digest L u s =
     (case fmlookup (ds_heap s) u of
        None \<Rightarrow> []
      | Some du \<Rightarrow> (case wr_digest L (fst (du_w du)) (snd (du_w du)) of None \<Rightarrow> [] | Some d \<Rightarrow> d))"

definition dir_changeAlgorithm :: "uid \<Rightarrow> algorithm \<Rightarrow> dir_store \<Rightarrow> unit res \<times> dir_store" where
  "dir_changeAlgorithm u algo s =
     (if algo = [] then (Inl (ErrOther ''algorithm not available''), s)
      else case fmlookup (ds_heap s) u of
        None \<Rightarrow> (Inl ErrNotFound, s)
      | Some du \<Rightarrow>
        if algo = du_alg du then (Inr (), s)
        else if du_size du > 0 then (Inl (ErrOther ''unable to change algorithm after first write''), s)
        else (Inr (), upd_du u (\<lambda>m. m\<lparr>du_alg := algo, du_w := (algo, [])\<rparr>) s))"

text \<open>\<open>Verify\<close>: with another algorithm the file is read again from its start.\<close>

definition dir_verify :: "lib \<Rightarrow> uid \<Rightarrow> digest \<Rightarrow> dir_store \<Rightarrow> unit res \<times> dir_store" where
  "dir_verify L u expect s =
     (case fmlookup (ds_heap s) u of
        None \<Rightarrow> (Inl ErrNotFound, s)
      | Some du \<Rightarrow>
        if wr_verify L (fst (du_w du)) (snd (du_w du)) expect then (Inr (), s)
        else if dig_is_zero expect then (Inl (ErrOther ''invalid digest''), s)
        else if du_alg du = dig_algorithm L expect then (Inl (ErrOther ''digest mismatch''), s)
        else
          let a = dig_algorithm L expect;
              s1 = upd_du u (\<lambda>m. m\<lparr>du_alg := a, du_w := (a, [])\<rparr>) s in
          (case du_fh du of
             None \<Rightarrow> (Inl (ErrOther ''seek failed''), s1)
           | Some i \<Rightarrow>
             (case fs_do (fh_reread i) s1 of
                (OsOk b, s2) \<Rightarrow>
                  let s3 = upd_du u (\<lambda>m. m\<lparr>du_w := (a, b)\<rparr>) s2 in
                  if wr_verify L a b expect then (Inr (), s3) else (Inl (ErrOther ''digest mismatch''), s3)
              | (e, s2) \<Rightarrow> (Inl (os_err e), s2))))"

section \<open>Index methods\<close>

text \<open>
  The repository as \<open>indexIngest\<close> sees it, while the mutex is held: reading and creating blobs, and
  writing uploads.  Nothing else is called there; what takes the mutex would hang.
\<close>

definition dir_ingest_ops :: "lib \<Rightarrow> dir_lib \<Rightarrow> dir_store store_ops" where
  "dir_ingest_ops L DL = \<lparr>
     so_repoGet = (\<lambda>r s. (Inl err_hung, hang s)),
     so_done = (\<lambda>r s. s),
     so_indexGet = (\<lambda>r s. (Inl err_hung, hang s)),
     so_indexInsert = (\<lambda>r d cs s. (Inl err_hung, hang s)),
     so_indexRemove = (\<lambda>r d s. (Inl err_hung, hang s)),
     so_blobGet = (\<lambda>r d. live (Inl err_hung) (dir_blobGet L DL r d)),
     so_blobCreate = (\<lambda>r opts. live (Inl err_hung) (dir_blobCreate L DL r opts)),
     so_blobDelete = (\<lambda>r d. live (Inl err_hung) (dir_blobDelete L DL r d)),
     so_blobSession = (\<lambda>r sid s. (Inl err_hung, hang s)),
     so_write = (\<lambda>u p. live (Inl err_hung) (dir_write u p)),
     so_close = (\<lambda>u. live (Inl err_hung) (dir_close L DL u)),
     so_cancel = (\<lambda>u. live (Inl err_hung) (dir_cancel u)),
     so_size = dir_size,
     so_digest = dir_digest L,
     so_verify = (\<lambda>u d. live (Inl err_hung) (dir_verify L u d)),
     so_changeAlgorithm = (\<lambda>u a. live (Inl err_hung) (dir_changeAlgorithm u a))\<rparr>"

definition freqCheck :: duration where
  "freqCheck = 1000000000"

text \<open>The defaults \<open>indexLoad\<close> sets before it looks for the file.\<close>

definition default_index :: "config \<Rightarrow> layout_index" where
  "default_index conf =
     empty_layout (if deref (ca_referrerEnabled (c_api conf)) then fmupd annot_referrer_convert ''true'' fmempty
                   else fmempty)"

text \<open>The end of \<open>indexLoad\<close>: decode the open file, ingest it, and save what the ingest changed.\<close>

definition ingest_file :: "lib \<Rightarrow> dir_lib \<Rightarrow> string \<Rightarrow> layout_index \<Rightarrow> dir_store \<Rightarrow> unit res \<times> dir_store" where
  "ingest_file L DL r li s =
     (case indexIngest L (dir_ingest_ops L DL) (ds_conf s) r (ds_rnow s) li s of
        None \<Rightarrow> (Inl err_hung, hang s)
      | Some (Some e, li1, _, s1) \<Rightarrow> (Inl e, upd_dr r (\<lambda>m. m\<lparr>dr_index := li1\<rparr>) s1)
      | Some (None, li1, chg, s1) \<Rightarrow>
        let s2 = upd_dr r (\<lambda>m. m\<lparr>dr_index := li1\<rparr>) s1 in
        if chg \<and> \<not> ds_readOnly s2 then live (Inl err_hung) (dir_indexSave DL r) s2 else (Inr (), s2))"

definition decode_index :: "lib \<Rightarrow> dir_lib \<Rightarrow> string \<Rightarrow> fnode \<Rightarrow> time \<Rightarrow> dir_store \<Rightarrow> unit res \<times> dir_store" where
  "decode_index L DL r n t s =
     (case node_read (ds_fs s) n of
        Inl e \<Rightarrow> (Inl e, s)
      | Inr b \<Rightarrow>
        (case dl_dec_index DL b of
           None \<Rightarrow> (Inl (ErrOther ''json''), s)
         | Some parsed \<Rightarrow>
           let li = parsed\<lparr>li_childManifests := []\<rparr> in
           ingest_file L DL r li
             (upd_dr r (\<lambda>m. m\<lparr>dr_index := li, dr_timeMod := t, dr_exists := True\<rparr>) s)))"

definition dir_indexLoad :: "lib \<Rightarrow> dir_lib \<Rightarrow> string \<Rightarrow> bool \<Rightarrow> dir_store \<Rightarrow> unit res \<times> dir_store" where
  "dir_indexLoad L DL r force s =
     (case fmlookup (ds_repos s) r of
        None \<Rightarrow> (Inl ErrNotFound, s)
      | Some dr \<Rightarrow>
        if \<not> force \<and> ds_now s - dr_timeCheck dr < freqCheck then (Inr (), s)
        else
          let s0 = (if i_mediaType (dr_index dr) = [] \<and> i_manifests (dr_index dr) = []
                    then upd_dr r (\<lambda>m. m\<lparr>dr_index := default_index (ds_conf s)\<rparr>) s else s) in
          (case fs_do (os_open (dr_path dr @ [index_file])) s0 of
             (OsNotExist, s1) \<Rightarrow> (Inl ErrNotFound, s1)
           | (OsErr e, s1) \<Rightarrow> (Inl (ErrOther e), s1)
           | (OsOk n, s1) \<Rightarrow>
             (case fs_do (os_fstat n) s1 of
                (OsOk t, s2) \<Rightarrow>
                  let s3 = upd_dr r (\<lambda>m. m\<lparr>dr_timeCheck := ds_now s\<rparr>) s2 in
                  if dr_timeMod dr = t then (Inr (), s3) else decode_index L DL r n t s3
              | (e, s2) \<Rightarrow> (Inl (os_err e), s2))))"

definition the_index :: "string \<Rightarrow> dir_store \<Rightarrow> layout_index" where
  "the_index r s = (case fmlookup (ds_repos s) r of Some dr \<Rightarrow> dr_index dr | None \<Rightarrow> empty_layout fmempty)"

definition dir_indexGet :: "lib \<Rightarrow> dir_lib \<Rightarrow> string \<Rightarrow> dir_store \<Rightarrow> layout_index res \<times> dir_store" where
  "dir_indexGet L DL r =
     with_mu r (Inl err_hung) (\<lambda>s.
       case dir_indexLoad L DL r False s of
         (Inr _, s1) \<Rightarrow> (Inr (the_index r s1), s1)
       | (Inl e, s1) \<Rightarrow> (if e = ErrNotFound then Inr (the_index r s1) else Inl e, s1))"

text \<open>\<open>IndexInsert\<close> and \<open>IndexRemove\<close>: an error of the load is ignored.\<close>

definition change_index ::
    "lib \<Rightarrow> dir_lib \<Rightarrow> string \<Rightarrow> (layout_index \<Rightarrow> layout_index) \<Rightarrow> dir_store \<Rightarrow> unit res \<times> dir_store" where
  "change_index L DL r f =
     with_mu r (Inl err_hung) (\<lambda>s.
       case dir_indexLoad L DL r False s of
         (_, s1) \<Rightarrow> live (Inl err_hung) (\<lambda>s1. dir_indexSave DL r (upd_dr r (\<lambda>m. m\<lparr>dr_index := f (dr_index m)\<rparr>) s1)) s1)"

definition dir_indexInsert ::
    "lib \<Rightarrow> dir_lib \<Rightarrow> string \<Rightarrow> descriptor \<Rightarrow> descriptor list \<Rightarrow> dir_store \<Rightarrow> unit res \<times> dir_store" where
  "dir_indexInsert L DL r desc children s =
     (if ds_readOnly s then (Inl ErrReadOnly, s)
      else change_index L DL r (add_desc L (ds_rnow s) desc children) s)"

definition dir_indexRemove :: "lib \<Rightarrow> dir_lib \<Rightarrow> string \<Rightarrow> descriptor \<Rightarrow> dir_store \<Rightarrow> unit res \<times> dir_store" where
  "dir_indexRemove L DL r desc s =
     (if ds_readOnly s then (Inl ErrReadOnly, s)
      else change_index L DL r (rm_desc L (ds_rnow s) desc) s)"

end
