(* ===== verification/Dir_Repos.thy ===== *)
theory Dir_Repos
  imports Dir_Methods
begin

text \<open>
  The directory store, concluded: opening a repository, garbage collection, pruning of the two
  caches, and the store behind the interface of the handlers.
\<close>

section \<open>Opening a repository\<close>

text \<open>
  \<open>filepath.Join\<close> of the root, an absolute path or one that does not climb, with the elements of a
  name; and \<open>filepath.IsLocal\<close>: a relative path that never leaves its directory.
\<close>

definition file_path :: "string \<Rightarrow> path" where
  "file_path s = clean_segs [] (split_char CHR ''/'' s)"

fun local_segs :: "nat \<Rightarrow> string list \<Rightarrow> bool" where
  "local_segs n [] = True"
| "local_segs n (s # ss) =
     (if s = [] \<or> s = ''.'' then local_segs n ss
      else if s = ''..'' then n > 0 \<and> local_segs (n - 1) ss
      else local_segs (Suc n) ss)"

definition isLocal :: "string \<Rightarrow> bool" where
  "isLocal s \<longleftrightarrow> s \<noteq> [] \<and> hd s \<noteq> CHR ''/'' \<and> local_segs 0 (split_char CHR ''/'' s)"

definition stringsHasAny :: "string list \<Rightarrow> string list \<Rightarrow> bool" where
  "stringsHasAny xs check \<longleftrightarrow> list_ex (\<lambda>c. c \<in> set xs) check"

definition repo_path :: "string \<Rightarrow> string \<Rightarrow> path" where
  "repo_path root r = file_path (root @ CHR ''/'' # r)"

definition zero_layout :: layout_index where
  "zero_layout = (empty_layout fmempty)\<lparr>i_schemaVersion := 0, i_mediaType := []\<rparr>"

definition new_dir_repo :: "config \<Rightarrow> string \<Rightarrow> dir_repo" where
  "new_dir_repo conf r =
     (let g = cs_gc (c_storage conf);
          count = (if gc_repoUploadMax g > 0 then gc_repoUploadMax g else 0);
          age = (if gc_gracePeriod g > 0 then gc_gracePeriod g else 0)
      in \<lparr>dr_mu = False, dr_block = True, dr_wg = 0, dr_timeCheck = 0, dr_timeMod = 0,
          dr_path = repo_path (cs_rootDir (c_storage conf)) r, dr_exists = False, dr_index = zero_layout,
          dr_uploads = cache_new age count\<rparr>)"

text \<open>The test whether the directory holds a layout.\<close>

definition layout_exists :: "lib \<Rightarrow> path \<Rightarrow> dir_store \<Rightarrow> bool \<times> dir_store" where
  "layout_exists L p s =
     (case fs_do (os_stat p) s of
        (OsOk (True, _), s1) \<Rightarrow>
          (case fs_do (os_stat (p @ [index_file])) s1 of (x, s2) \<Rightarrow>
           case fs_do (os_readFile (p @ [layout_file])) s2 of (y, s3) \<Rightarrow>
             (case (x, y) of (OsOk (isdir, _), OsOk b) \<Rightarrow> \<not> isdir \<and> layoutVerify L b | _ \<Rightarrow> False, s3))
      | (_, s1) \<Rightarrow> (False, s1))"

text \<open>
  \<open>RepoGet\<close>.  As in the memory store, while a collection holds the block token the call returns only
  when the context of the request ends.
\<close>

definition open_repo :: "lib \<Rightarrow> string \<Rightarrow> dir_store \<Rightarrow> unit res \<times> dir_store" where
  "open_repo L r s =
     (let dr = new_dir_repo (ds_conf s) r;
          s1 = s\<lparr>ds_cache := fst (cache_set (ds_now s) r r (ds_cache s)), ds_repos := fmupd r dr (ds_repos s)\<rparr> in
      case layout_exists L (dr_path dr) s1 of
        (b, s2) \<Rightarrow> (Inr (), upd_dr r (\<lambda>m. m\<lparr>dr_exists := b, dr_wg := dr_wg m + 1\<rparr>) s2))"

definition dir_repoGet :: "lib \<Rightarrow> string \<Rightarrow> dir_store \<Rightarrow> unit res \<times> dir_store" where
  "dir_repoGet L r s =
     (if ds_stop s then (Inl (ErrOther ''cannot get repo after Close''), s)
      else case cache_get (ds_now s) r (ds_cache s) of
        (Inr _, c) \<Rightarrow>
          let s1 = s\<lparr>ds_cache := c\<rparr> in
          (case fmlookup (ds_repos s) r of
             None \<Rightarrow> (Inl ErrNotFound, s1)
           | Some dr \<Rightarrow>
             if dr_block dr then (Inr (), upd_dr r (\<lambda>m. m\<lparr>dr_wg := dr_wg m + 1\<rparr>) s1)
             else (Inl (ErrOther ''context''), s1))
      | (Inl _, _) \<Rightarrow>
        if stringsHasAny (split_char CHR ''/'' r) [index_file, layout_file, blobs_dir] then (Inl ErrRepoNotAllowed, s)
        else if \<not> isLocal r then (Inl ErrRepoNotAllowed, s)
        else open_repo L r s)"

definition dir_done :: "string \<Rightarrow> dir_store \<Rightarrow> dir_store" where
  "dir_done r s = upd_dr r (\<lambda>m. m\<lparr>dr_wg := dr_wg m - 1\<rparr>) s"

text \<open>The store behind the interface; a call that does not return ends what its handler does.\<close>

definition dir_ops :: "lib \<Rightarrow> dir_lib \<Rightarrow> dir_store store_ops" where
  "dir_ops L DL = (dir_ingest_ops L DL)\<lparr>
     so_repoGet := (\<lambda>r. live (Inl err_hung) (dir_repoGet L r)),
     so_done := (\<lambda>r s. if ds_hung s then s else dir_done r s),
     so_indexGet := (\<lambda>r. live (Inl err_hung) (dir_indexGet L DL r)),
     so_indexInsert := (\<lambda>r d cs. live (Inl err_hung) (dir_indexInsert L DL r d cs)),
     so_indexRemove := (\<lambda>r d. live (Inl err_hung) (dir_indexRemove L DL r d)),
     so_blobSession := (\<lambda>r sid. live (Inl err_hung) (dir_blobSession r sid))\<rparr>"

definition newDir :: "config \<Rightarrow> time \<Rightarrow> time \<Rightarrow> string list \<Rightarrow> fsys \<Rightarrow> dir_store" where
  "newDir conf procTime now rand F =
     \<lparr>ds_repos = fmempty,
      ds_cache = cache_new (if gc_gracePeriod (cs_gc (c_storage conf)) > 0 then gc_gracePeriod (cs_gc (c_storage conf)) else 0) 0,
      ds_heap = fmempty, ds_next = 0, ds_conf = conf, ds_stop = False, ds_now = now,
      ds_procTime = procTime, ds_rand = rand, ds_fs = F, ds_touch = [], ds_hung = False\<rparr>"

section \<open>Garbage collection\<close>

definition dir_gc_ops :: "lib \<Rightarrow> dir_lib \<Rightarrow> string \<Rightarrow> dir_store gc_ops" where
  "dir_gc_ops L DL r = \<lparr>go_get = dir_blobGet L DL r, go_meta = dir_blobMeta L DL r, go_list = dir_blobList L r,
     go_delete = dir_blobDelete L DL r\<rparr>"

text \<open>\<open>os.Remove\<close> with its result ignored, and the removal of an upload folder that is empty.\<close>

definition remove_quiet :: "path \<Rightarrow> dir_store \<Rightarrow> dir_store" where
  "remove_quiet p s = snd (fs_do (os_remove p) s)"

definition gc_upload_dir :: "path \<Rightarrow> dir_store \<Rightarrow> dir_store" where
  "gc_upload_dir p s =
     (case fs_do (os_stat (p @ [upload_dir])) s of
        (OsOk (True, _), s1) \<Rightarrow> remove_quiet (p @ [upload_dir]) s1
      | (_, s1) \<Rightarrow> s1)"

text \<open>The collection proper, \<open>errGC\<close>.\<close>

definition collect_blobs :: "lib \<Rightarrow> dir_lib \<Rightarrow> string \<Rightarrow> dir_store \<Rightarrow> unit res \<times> dir_store" where
  "collect_blobs L DL r s =
     (case repoGarbageCollect L (dir_gc_ops L DL r) (ds_gc s) (ds_now s) (ds_rnow s) (the_index r s) s of
        None \<Rightarrow> (Inl err_hung, hang s)
      | Some (Inl e, s1) \<Rightarrow> (Inl e, s1)
      | Some (Inr (i, chg), s1) \<Rightarrow>
        if chg then dir_indexSave DL r (upd_dr r (\<lambda>m. m\<lparr>dr_index := i\<rparr>) s1) else (Inr (), s1))"

definition dir_collect :: "lib \<Rightarrow> dir_lib \<Rightarrow> string \<Rightarrow> dir_store \<Rightarrow> unit res \<times> dir_store" where
  "dir_collect L DL r s =
     (case dir_indexLoad L DL r True s of
        (Inl e, s1) \<Rightarrow> (Inl e, s1)
      | (Inr _, s1) \<Rightarrow> live (Inl err_hung) (collect_blobs L DL r) s1)"

text \<open>The removal of a repository without manifests, \<open>errDir\<close>: whether every removal went well.\<close>

fun remove_all :: "path list \<Rightarrow> dir_store \<Rightarrow> bool \<times> dir_store" where
  "remove_all [] s = (True, s)"
| "remove_all (p # ps) s =
     (case fs_do (os_remove p) s of (x, s1) \<Rightarrow>
      case remove_all ps s1 of (b, s2) \<Rightarrow> ((case x of OsErr _ \<Rightarrow> False | _ \<Rightarrow> True) \<and> b, s2))"

definition empty_repo_paths :: "path \<Rightarrow> path list" where
  "empty_repo_paths p = [p @ [upload_dir], p @ [blobs_dir, ''sha256''], p @ [blobs_dir, ''sha512''],
     p @ [blobs_dir], p @ [index_file], p @ [layout_file], p]"

definition prune_empty :: "string \<Rightarrow> dir_store \<Rightarrow> dir_store" where
  "prune_empty r s =
     (case fmlookup (ds_repos s) r of
        None \<Rightarrow> s
      | Some dr \<Rightarrow>
        if deref (gc_emptyRepo (ds_gc s)) \<and> i_manifests (dr_index dr) = [] \<and> cache_isEmpty (dr_uploads dr) then
          (case remove_all (empty_repo_paths (dr_path dr)) s of
             (b, s1) \<Rightarrow> if b then upd_dr r (\<lambda>m. m\<lparr>dr_exists := False\<rparr>) s1 else s1)
        else s)"

text \<open>
  \<open>dirRepo.gc\<close>, with the block token in its hand and the wait group at zero; it puts the token back
  at the end, unless it hangs.
\<close>

definition repo_gc_locked :: "lib \<Rightarrow> dir_lib \<Rightarrow> string \<Rightarrow> dir_store \<Rightarrow> unit res \<times> dir_store" where
  "repo_gc_locked L DL r s =
     (case fmlookup (ds_repos s) r of
        None \<Rightarrow> (Inl ErrNotFound, s)
      | Some dr \<Rightarrow>
        let s0 = (if cache_isEmpty (dr_uploads dr) then gc_upload_dir (dr_path dr) s else s) in
        case dir_collect L DL r s0 of
          (x, s1) \<Rightarrow> (x, if ds_hung s1 then s1 else prune_empty r s1))"

definition dir_repo_gc :: "lib \<Rightarrow> dir_lib \<Rightarrow> string \<Rightarrow> dir_store \<Rightarrow> unit res \<times> dir_store" where
  "dir_repo_gc L DL r s =
     (case with_mu r (Inl err_hung) (repo_gc_locked L DL r) s of
        (x, s1) \<Rightarrow> (x, if ds_hung s1 then upd_dr r (\<lambda>m. m\<lparr>dr_block := False\<rparr>) s1 else s1))"

text \<open>\<open>dir.gc\<close>; the error of one repository ends the run.\<close>

fun dir_gc_loop :: "lib \<Rightarrow> dir_lib \<Rightarrow> time \<Rightarrow> string list \<Rightarrow> dir_store \<Rightarrow> unit res \<times> dir_store" where
  "dir_gc_loop L DL start [] s = (Inr (), s)"
| "dir_gc_loop L DL start (r # rs) s =
     (if ds_stop s then (Inl (ErrOther ''stop signal received''), s)
      else case (cache_get (ds_now s) r (ds_cache s), fmlookup (ds_repos s) r) of
        ((Inr _, c), Some dr) \<Rightarrow>
          let s1 = s\<lparr>ds_cache := c\<rparr> in
          if dr_timeMod dr < start then dir_gc_loop L DL start rs s1
          else (case dir_repo_gc L DL r s1 of
              (Inl e, s2) \<Rightarrow> (Inl e, s2)
            | (Inr _, s2) \<Rightarrow> dir_gc_loop L DL start rs s2)
      | _ \<Rightarrow> dir_gc_loop L DL start rs s)"

definition dir_gc :: "lib \<Rightarrow> dir_lib \<Rightarrow> time \<Rightarrow> dir_store \<Rightarrow> unit res \<times> dir_store" where
  "dir_gc L DL prev s =
     (let g = gc_gracePeriod (ds_gc s);
          start = (if g > 0 then prev - 250000000 - g else prev - 250000000)
      in dir_gc_loop L DL start (map_order L (sorted_list_of_fset (fmdom (ca_entries (ds_cache s))))) s)"

section \<open>Pruning and closing\<close>

text \<open>The prune function of the cache of repositories.\<close>

definition prune_repo :: "lib \<Rightarrow> dir_lib \<Rightarrow> string \<Rightarrow> dir_store \<Rightarrow> err option \<times> dir_store" where
  "prune_repo L DL r s =
     (case fmlookup (ds_repos s) r of
        None \<Rightarrow> (None, s)
      | Some dr \<Rightarrow>
        if \<not> cache_isEmpty (dr_uploads dr) then (Some (ErrOther ''uploads in progress''), s)
        else if ds_readOnly s then (None, s)
        else (case dir_repo_gc L DL r s of (Inl e, s1) \<Rightarrow> (Some e, s1) | (Inr _, s1) \<Rightarrow> (None, s1)))"

definition repo_hooks :: "lib \<Rightarrow> dir_lib \<Rightarrow> (string, string, dir_store) prune_hooks" where
  "repo_hooks L DL = \<lparr>ph_fn = Some (\<lambda>_ r. prune_repo L DL r), ph_pre = None, ph_post = None\<rparr>"

text \<open>A repository that is no longer in the cache is gone.\<close>

definition forget_repos :: "dir_store \<Rightarrow> dir_store" where
  "forget_repos s = s\<lparr>ds_repos := fmfilter (\<lambda>r. r |\<in>| fmdom (ca_entries (ds_cache s))) (ds_repos s)\<rparr>"

definition dir_prune_repos :: "lib \<Rightarrow> dir_lib \<Rightarrow> string list \<Rightarrow> dir_store \<Rightarrow> dir_store" where
  "dir_prune_repos L DL ks s =
     (case cache_pruneAge (repo_hooks L DL) (ds_now s) ks (ds_cache s) s of
        (c, s1) \<Rightarrow> forget_repos (s1\<lparr>ds_cache := c\<rparr>))"

text \<open>The pruning of the upload cache, by its timer and by the goroutine of \<open>Set\<close>.\<close>

definition dir_prune_uploads :: "string \<Rightarrow> string list \<Rightarrow> bool \<Rightarrow> dir_store \<Rightarrow> dir_store" where
  "dir_prune_uploads r ks by_age s =
     (case fmlookup (ds_repos s) r of
        None \<Rightarrow> s
      | Some dr \<Rightarrow>
        (case (if by_age then cache_pruneAge else cache_pruneCount) upload_hooks (ds_now s) ks (dr_uploads dr) s of
           (c, s1) \<Rightarrow> upd_dr r (\<lambda>m. m\<lparr>dr_uploads := c\<rparr>) s1))"

text \<open>The goroutine of \<open>dirRepoUpload.delete\<close>, for the first repository that waits for it.\<close>

definition dir_touch :: "dir_store \<Rightarrow> dir_store" where
  "dir_touch s =
     (case ds_touch s of
        [] \<Rightarrow> s
      | r # rs \<Rightarrow> upd_dr r (\<lambda>m. m\<lparr>dr_timeMod := ds_now s\<rparr>) (s\<lparr>ds_touch := rs\<rparr>))"

text \<open>\<open>Close\<close>, once every request is done.\<close>

definition close_dir_repo :: "lib \<Rightarrow> dir_lib \<Rightarrow> string \<Rightarrow> err list \<times> dir_store \<Rightarrow> err list \<times> dir_store" where
  "close_dir_repo L DL r = (\<lambda>(errs, s).
     case (cache_get (ds_now s) r (ds_cache s), fmlookup (ds_repos s) r) of
       ((Inr _, c), Some dr) \<Rightarrow>
         let s1 = s\<lparr>ds_cache := c\<rparr>;
             s2 = (if ds_readOnly s1 then s1
                   else case cache_deleteAll upload_hooks
                            (map_order L (sorted_list_of_fset (fmdom (ca_entries (dr_uploads dr))))) (dr_uploads dr) s1 of
                       (_, u, s') \<Rightarrow> upd_dr r (\<lambda>m. m\<lparr>dr_uploads := u\<rparr>) s') in
         (case cache_delete (repo_hooks L DL) r (ds_cache s2) s2 of
            (Some e, c', s3) \<Rightarrow> (errs @ [e], s3\<lparr>ds_cache := c'\<rparr>)
          | (None, c', s3) \<Rightarrow> (errs, forget_repos (s3\<lparr>ds_cache := c'\<rparr>)))
     | _ \<Rightarrow> (errs @ [ErrNotFound], s))"

definition dir_storeClose :: "lib \<Rightarrow> dir_lib \<Rightarrow> dir_store \<Rightarrow> err list \<times> dir_store" where
  "dir_storeClose L DL s =
     fold (close_dir_repo L DL) (map_order L (sorted_list_of_fset (fmdom (ca_entries (ds_cache s)))))
       ([], s\<lparr>ds_stop := True\<rparr>)"

end
