(* ===== verification/Dir_Invariant.thy ===== *)
theory Dir_Invariant
  imports Dir_Repos
begin

text \<open>
  The invariant of the directory store and its file system, whatever calls of the operating system
  fail and wherever the process stops: every file in a blob directory hashes to its name, every
  \<open>index.json\<close> is a complete index, and an open upload has hashed what its file holds.
\<close>

section \<open>Paths\<close>

definition reserved :: "string set" where
  "reserved = {index_file, layout_file, blobs_dir}"

text \<open>Below the root \<open>R\<close>: the directories of repositories, the files of blobs and indexes, and uploads.\<close>

definition repo_dir :: "path \<Rightarrow> path \<Rightarrow> bool" where
  "repo_dir R p \<longleftrightarrow> (\<exists>rs. p = R @ rs \<and> set rs \<inter> reserved = {})"

definition blob_path :: "path \<Rightarrow> path \<Rightarrow> string \<Rightarrow> string \<Rightarrow> bool" where
  "blob_path R p a e \<longleftrightarrow> (\<exists>q. repo_dir R q \<and> p = q @ [blobs_dir, a, e])"

definition index_path :: "path \<Rightarrow> path \<Rightarrow> bool" where
  "index_path R p \<longleftrightarrow> (\<exists>q. repo_dir R q \<and> p = q @ [index_file])"

definition upload_path :: "path \<Rightarrow> path \<Rightarrow> string \<Rightarrow> bool" where
  "upload_path R p x \<longleftrightarrow> (\<exists>q. repo_dir R q \<and> p = q @ [upload_dir, ''upload.'' @ x])"

lemma repo_dir_snoc: "repo_dir R q \<Longrightarrow> repo_dir R q' \<Longrightarrow> q @ [x] = q' @ [blobs_dir, a, e] \<Longrightarrow> False"
  unfolding repo_dir_def reserved_def by (auto simp: append_eq_append_conv2 append_eq_Cons_conv Cons_eq_append_conv)

lemma repo_dir_upload: "repo_dir R q \<Longrightarrow> repo_dir R q' \<Longrightarrow> q @ [upload_dir, x] = q' @ [blobs_dir, a, e] \<Longrightarrow> False"
  unfolding repo_dir_def reserved_def by (auto simp: append_eq_append_conv2 append_eq_Cons_conv Cons_eq_append_conv)

text \<open>A file that is neither a blob nor an index.\<close>

definition plain :: "path \<Rightarrow> path \<Rightarrow> bool" where
  "plain R p \<longleftrightarrow> (\<forall>a e. \<not> blob_path R p a e) \<and> \<not> index_path R p"

lemma plain_temp:
  assumes "repo_dir R q"
  shows "plain R (q @ [index_file @ ''.'' @ x])" "plain R (q @ [layout_file])" "plain R (q @ [upload_dir, ''upload.'' @ x])"
  using assms repo_dir_snoc [OF assms] repo_dir_upload [OF assms]
  by (auto simp: plain_def blob_path_def index_path_def)

lemma upload_path_neq:
  "upload_path R p x \<Longrightarrow> p \<noteq> q @ [index_file @ ''.'' @ y]" "upload_path R p x \<Longrightarrow> p \<noteq> q @ [layout_file]"
  "upload_path R p x \<Longrightarrow> p = q @ [upload_dir, ''upload.'' @ y] \<Longrightarrow> x = y"
  by (auto simp: upload_path_def)

lemma index_path_blob: "index_path R p \<Longrightarrow> \<not> blob_path R p a e"
  unfolding index_path_def blob_path_def using repo_dir_snoc by metis

lemma blob_path_unique: "blob_path R p a e \<Longrightarrow> p = q @ [x, a', e'] \<Longrightarrow> a = a' \<and> e = e'"
  by (auto simp: blob_path_def)

section \<open>The invariant\<close>

abbreviation file_at :: "fsys \<Rightarrow> path \<Rightarrow> nat \<Rightarrow> bool" where
  "file_at F p i \<equiv> fmlookup (fs_tree F) p = Some (NFile i)"

text \<open>No hard links; the addresses from \<open>fs_next\<close> on are free; temporary names do not repeat.\<close>

definition fs_wf :: "fsys \<Rightarrow> bool" where
  "fs_wf F \<longleftrightarrow> (\<forall>p q i. file_at F p i \<longrightarrow> file_at F q i \<longrightarrow> p = q) \<and> (\<forall>p i. file_at F p i \<longrightarrow> i < fs_next F) \<and>
     distinct (fs_rand F) \<and> fs_reads F = []"

definition blob_sound :: "lib \<Rightarrow> dir_lib \<Rightarrow> string \<Rightarrow> string \<Rightarrow> bytes \<Rightarrow> bool" where
  "blob_sound L DL a e b \<longleftrightarrow> (\<exists>d. dig_from_bytes L a b = Some d \<and> dl_encoded DL d = e)"

definition files_sound :: "lib \<Rightarrow> dir_lib \<Rightarrow> path \<Rightarrow> fsys \<Rightarrow> bool" where
  "files_sound L DL R F \<longleftrightarrow> fs_wf F \<and>
     (\<forall>p a e i. blob_path R p a e \<longrightarrow> file_at F p i \<longrightarrow> blob_sound L DL a e (file_bytes F i)) \<and>
     (\<forall>p i. index_path R p \<longrightarrow> file_at F p i \<longrightarrow> dl_dec_index DL (file_bytes F i) \<noteq> None)"

lemma files_soundI:
  assumes "fs_wf F" and "\<And>p a e i. blob_path R p a e \<Longrightarrow> file_at F p i \<Longrightarrow> blob_sound L DL a e (file_bytes F i)"
    and "\<And>p i. index_path R p \<Longrightarrow> file_at F p i \<Longrightarrow> dl_dec_index DL (file_bytes F i) \<noteq> None"
  shows "files_sound L DL R F"
  using assms unfolding files_sound_def by blast

lemma files_soundD:
  assumes "files_sound L DL R F"
  shows "fs_wf F" "blob_path R p a e \<Longrightarrow> file_at F p i \<Longrightarrow> blob_sound L DL a e (file_bytes F i)"
    "index_path R p \<Longrightarrow> file_at F p i \<Longrightarrow> dl_dec_index DL (file_bytes F i) \<noteq> None"
  using assms unfolding files_sound_def by blast+

text \<open>The inode \<open>i\<close> has no name but \<open>p\<close>, and \<open>p\<close> names no other.\<close>

definition named :: "fsys \<Rightarrow> path \<Rightarrow> nat \<Rightarrow> bool" where
  "named F p i \<longleftrightarrow> i < fs_next F \<and> (\<forall>q. file_at F q i \<longrightarrow> q = p) \<and> (\<forall>j. file_at F p j \<longrightarrow> j = i)"

definition handle_sound :: "fsys \<Rightarrow> dir_upload \<Rightarrow> nat \<Rightarrow> bool" where
  "handle_sound F du i \<longleftrightarrow> named F (du_filename du) i \<and> file_bytes F i = snd (du_w du) \<and>
     du_size du = int (length (snd (du_w du)))"

definition upload_sound :: "path \<Rightarrow> fsys \<Rightarrow> dir_upload \<Rightarrow> bool" where
  "upload_sound R F du \<longleftrightarrow> repo_dir R (du_path du) \<and>
     (\<exists>x. du_filename du = du_path du @ [upload_dir, ''upload.'' @ x] \<and> x \<notin> set (fs_rand F)) \<and>
     (\<forall>i. du_fh du = Some i \<longrightarrow> handle_sound F du i)"

definition heap_sound :: "path \<Rightarrow> fsys \<Rightarrow> (uid, dir_upload) fmap \<Rightarrow> bool" where
  "heap_sound R F H \<longleftrightarrow>
     (\<forall>u du. fmlookup H u = Some du \<longrightarrow> upload_sound R F du) \<and>
     (\<forall>u u' du du' i. fmlookup H u = Some du \<longrightarrow> fmlookup H u' = Some du' \<longrightarrow>
        du_fh du = Some i \<longrightarrow> du_fh du' = Some i \<longrightarrow> u = u')"

definition dir_inv :: "lib \<Rightarrow> dir_lib \<Rightarrow> path \<Rightarrow> dir_store \<Rightarrow> bool" where
  "dir_inv L DL R s \<longleftrightarrow> files_sound L DL R (ds_fs s) \<and> heap_sound R (ds_fs s) (ds_heap s) \<and>
     file_path (cs_rootDir (c_storage (ds_conf s))) = R \<and>
     (\<forall>u du. fmlookup (ds_heap s) u = Some du \<longrightarrow> u < ds_next s) \<and>
     (\<forall>r dr. fmlookup (ds_repos s) r = Some dr \<longrightarrow> repo_dir R (dr_path dr))"

text \<open>A change of the files that adds no name to an inode and no content.\<close>

definition shrinks :: "fsys \<Rightarrow> fsys \<Rightarrow> bool" where
  "shrinks F F' \<longleftrightarrow> fs_next F' = fs_next F \<and> set (fs_rand F') \<subseteq> set (fs_rand F) \<and>
     (distinct (fs_rand F) \<longrightarrow> distinct (fs_rand F')) \<and> fs_reads F' = fs_reads F \<and>
     file_bytes F' = file_bytes F \<and> (\<forall>p i. file_at F' p i \<longrightarrow> file_at F p i)"

lemma shrinks_calls:
  "os_stat p F = (x1, F') \<Longrightarrow> shrinks F F'" "os_open p F = (x2, F') \<Longrightarrow> shrinks F F'"
  "os_fstat n F = (x3, F') \<Longrightarrow> shrinks F F'" "os_readFile p F = (x4, F') \<Longrightarrow> shrinks F F'"
  "os_readDir p F = (x5, F') \<Longrightarrow> shrinks F F'" "fh_close F = (x6, F') \<Longrightarrow> shrinks F F'"
  "os_mkdirAll p F = (x7, F') \<Longrightarrow> shrinks F F'" "os_remove p F = (x8, F') \<Longrightarrow> shrinks F F'"
  by (auto simp: shrinks_def mkdirAll_files dest!: quiet_calls elim!: os_removeE split: if_splits)

lemma shrinks_sound:
  assumes "shrinks F F'"
  shows "files_sound L DL R F \<Longrightarrow> files_sound L DL R F'" and "heap_sound R F H \<Longrightarrow> heap_sound R F' H"
proof -
  have old: "file_at F' p i \<Longrightarrow> file_at F p i" for p i
    using assms by (simp add: shrinks_def)
  have eqs: "fs_next F' = fs_next F" "fs_reads F' = fs_reads F"
    and dist: "distinct (fs_rand F) \<Longrightarrow> distinct (fs_rand F')"
    using assms by (simp_all add: shrinks_def)
  have named: "named F p i \<Longrightarrow> named F' p i" for p i
    unfolding named_def eqs using old by blast
  have wf: "fs_wf F \<Longrightarrow> fs_wf F'"
    unfolding fs_wf_def eqs using old dist by blast
  have bytes: "file_bytes F' = file_bytes F"
    using assms by (simp add: shrinks_def)
  show "files_sound L DL R F \<Longrightarrow> files_sound L DL R F'"
    unfolding files_sound_def bytes using wf old by blast
  have "set (fs_rand F') \<subseteq> set (fs_rand F)" using assms by (simp add: shrinks_def)
  then have "upload_sound R F du \<Longrightarrow> upload_sound R F' du" for du
    unfolding upload_sound_def handle_sound_def bytes using named by blast
  then show "heap_sound R F H \<Longrightarrow> heap_sound R F' H"
    unfolding heap_sound_def by blast
qed

text \<open>A new file, new content of a file, and a file that moves.\<close>

definition unopened :: "(uid, dir_upload) fmap \<Rightarrow> nat \<Rightarrow> bool" where
  "unopened H i \<longleftrightarrow> (\<forall>u du. fmlookup H u = Some du \<longrightarrow> du_fh du \<noteq> Some i)"

lemma new_file_sound:
  assumes "files_sound L DL R F" and "plain R p"
  shows "files_sound L DL R (new_file p b t F)"
proof -
  let ?G = "new_file p b t F"
  have at: "q = p \<and> i = fs_next F \<or> q \<noteq> p \<and> file_at F q i" if "file_at ?G q i" for q i
    using that by (simp split: if_splits)
  have wf: "fs_wf F" using assms(1) by (simp add: files_sound_def)
  then have lt: "file_at F q i \<Longrightarrow> i < fs_next F" for q i by (simp add: fs_wf_def)
  have "fs_wf ?G"
    unfolding fs_wf_def
  proof (intro conjI allI impI)
    show "q = q'" if "file_at ?G q i" "file_at ?G q' i" for q q' i
      using at [OF that(1)] at [OF that(2)] lt [of _ i] wf unfolding fs_wf_def by blast
    show "i < fs_next ?G" if "file_at ?G q i" for q i
      using at [OF that] lt by fastforce
  qed (use wf in \<open>simp_all add: fs_wf_def\<close>)
  moreover have "file_at F q i \<and> file_bytes ?G i = file_bytes F i" if "file_at ?G q i" "\<not> plain R q" for q i
    using at [OF that(1)] that(2) assms(2) lt [of q i] by auto
  moreover have "\<not> plain R q" if "blob_path R q a e \<or> index_path R q" for q a e
    using that by (auto simp: plain_def)
  ultimately show ?thesis
    using files_soundD [OF assms(1)] by (intro files_soundI) metis+
qed

lemma heap_sound_upload: "heap_sound R F H \<Longrightarrow> fmlookup H u = Some du \<Longrightarrow> upload_sound R F du"
  unfolding heap_sound_def by blast

lemma heap_sound_mono:
  assumes "heap_sound R F H" and "\<And>u du. fmlookup H u = Some du \<Longrightarrow> upload_sound R F du \<Longrightarrow> upload_sound R F' du"
  shows "heap_sound R F' H"
  using assms unfolding heap_sound_def by blast

lemma upload_sound_path: "upload_sound R F du \<Longrightarrow> \<exists>x. upload_path R (du_filename du) x \<and> x \<notin> set (fs_rand F)"
  unfolding upload_sound_def upload_path_def by blast

lemma named_mono:
  assumes "named F p i" and "fs_next F \<le> fs_next F'"
    and "\<And>q. file_at F' q i \<Longrightarrow> q = p \<or> file_at F q i" and "\<And>j. file_at F' p j \<Longrightarrow> file_at F p j \<or> j = i"
  shows "named F' p i"
  using assms unfolding named_def by (metis order_less_le_trans)

lemma named_new_file:
  assumes "named F q j" and "q \<noteq> p"
  shows "named (new_file p b t F) q j"
proof -
  have "j \<noteq> fs_next F" using assms(1) unfolding named_def by blast
  then show ?thesis
    using assms(2) by (intro named_mono [OF assms(1)]) (auto split: if_split_asm)
qed

lemma heap_new_file:
  assumes "heap_sound R F H" and "\<And>u du. fmlookup H u = Some du \<Longrightarrow> du_filename du \<noteq> p"
  shows "heap_sound R (new_file p b t F) H"
  using assms(1)
proof (rule heap_sound_mono)
  fix u du
  assume "fmlookup H u = Some du" and du: "upload_sound R F du"
  then have "du_filename du \<noteq> p" using assms(2) by blast
  moreover have "i \<noteq> fs_next F" if "du_fh du = Some i" for i
    using du that unfolding upload_sound_def handle_sound_def named_def by blast
  ultimately show "upload_sound R (new_file p b t F) du"
    using du named_new_file unfolding upload_sound_def handle_sound_def by auto
qed

lemma heap_sound_fresh: "heap_sound R F H \<Longrightarrow> unopened H (fs_next F)"
  unfolding heap_sound_def upload_sound_def handle_sound_def named_def unopened_def by blast

lemma set_data_sound:
  assumes "files_sound L DL R F" and "\<And>q. file_at F q i \<Longrightarrow> plain R q"
  shows "files_sound L DL R (set_data i b t F)"
  using assms unfolding files_sound_def fs_wf_def plain_def by (auto split: if_splits)

lemma heap_set_data:
  assumes "heap_sound R F H" and "unopened H i"
  shows "heap_sound R (set_data i b t F) H"
  using assms(1)
proof (rule heap_sound_mono)
  fix u du
  assume u: "fmlookup H u = Some du" and du: "upload_sound R F du"
  have "named (set_data i b t F) p j = named F p j" for p j by (simp add: named_def)
  moreover have "j \<noteq> i" if "du_fh du = Some j" for j
    using assms(2) u that unfolding unopened_def by blast
  ultimately show "upload_sound R (set_data i b t F) du"
    using du unfolding upload_sound_def handle_sound_def by auto
qed

definition move :: "path \<Rightarrow> path \<Rightarrow> nat \<Rightarrow> fsys \<Rightarrow> fsys" where
  "move a b i F = set_node b (NFile i) (drop_node a F)"

lemma move_sound:
  assumes "files_sound L DL R F" and "file_at F a i" and "a \<noteq> b"
    and "\<And>g e. blob_path R b g e \<Longrightarrow> blob_sound L DL g e (file_bytes F i)"
    and "index_path R b \<Longrightarrow> dl_dec_index DL (file_bytes F i) \<noteq> None"
  shows "files_sound L DL R (move a b i F)"
proof -
  have wf: "fs_wf F" using assms(1) by (simp add: files_sound_def)
  have at: "q = b \<and> j = i \<or> q \<noteq> a \<and> file_at F q j" if "file_at (move a b i F) q j" for q j
    using that assms(3) by (auto simp: move_def split: if_splits)
  have uniq: "q = a" if "file_at F q i" for q
    using wf that assms(2) unfolding fs_wf_def by blast
  have "fs_wf (move a b i F)"
    unfolding fs_wf_def
  proof (intro conjI allI impI)
    show "q = q'" if "file_at (move a b i F) q j" "file_at (move a b i F) q' j" for q q' j
      using at [OF that(1)] at [OF that(2)] uniq wf unfolding fs_wf_def by blast
    show "j < fs_next (move a b i F)" if "file_at (move a b i F) q j" for q j
      using at [OF that] wf assms(2) unfolding fs_wf_def by (auto simp: move_def)
  qed (use wf in \<open>simp_all add: fs_wf_def move_def\<close>)
  moreover have "file_bytes (move a b i F) = file_bytes F" by (simp add: move_def)
  ultimately show ?thesis
    using files_soundD [OF assms(1)] assms(4,5) at by (intro files_soundI) metis+
qed

lemma heap_move:
  assumes "heap_sound R F H" and "unopened H i" and "\<And>u du. fmlookup H u = Some du \<Longrightarrow> du_filename du \<noteq> b"
  shows "heap_sound R (move a b i F) H"
  using assms(1)
proof (rule heap_sound_mono)
  fix u du
  assume u: "fmlookup H u = Some du" and du: "upload_sound R F du"
  have b: "du_filename du \<noteq> b" using assms(3) [OF u] .
  have "named (move a b i F) (du_filename du) j"
    if "named F (du_filename du) j" "j \<noteq> i" for j
    using b that(2) by (intro named_mono [OF that(1)]) (auto simp: move_def split: if_split_asm)
  moreover have "j \<noteq> i" if "du_fh du = Some j" for j
    using assms(2) u that unfolding unopened_def by blast
  ultimately show "upload_sound R (move a b i F) du"
    using du unfolding upload_sound_def handle_sound_def by (auto simp: move_def)
qed

section \<open>The store around the files\<close>

lemma upd_dr_lookup [simp]:
  "fmlookup (ds_repos (upd_dr r f s)) r' =
     (if r' = r then map_option f (fmlookup (ds_repos s) r) else fmlookup (ds_repos s) r')"
  by (auto simp: upd_dr_def split: option.splits)

lemma upd_dr_frame [simp, frame_simps]:
  "ds_heap (upd_dr r f s) = ds_heap s" "ds_next (upd_dr r f s) = ds_next s" "ds_conf (upd_dr r f s) = ds_conf s"
  "ds_fs (upd_dr r f s) = ds_fs s" "ds_cache (upd_dr r f s) = ds_cache s" "ds_hung (upd_dr r f s) = ds_hung s"
  "ds_now (upd_dr r f s) = ds_now s" "ds_rand (upd_dr r f s) = ds_rand s" "ds_stop (upd_dr r f s) = ds_stop s"
  "ds_touch (upd_dr r f s) = ds_touch s" "ds_procTime (upd_dr r f s) = ds_procTime s"
  by (auto simp: upd_dr_def split: option.splits)

lemma upd_du_lookup [simp]:
  "fmlookup (ds_heap (upd_du u f s)) u' =
     (if u' = u then map_option f (fmlookup (ds_heap s) u) else fmlookup (ds_heap s) u')"
  by (auto simp: upd_du_def split: option.splits)

lemma upd_du_frame [simp, frame_simps]:
  "ds_repos (upd_du u f s) = ds_repos s" "ds_next (upd_du u f s) = ds_next s" "ds_conf (upd_du u f s) = ds_conf s"
  "ds_fs (upd_du u f s) = ds_fs s" "ds_cache (upd_du u f s) = ds_cache s" "ds_hung (upd_du u f s) = ds_hung s"
  "ds_now (upd_du u f s) = ds_now s" "ds_rand (upd_du u f s) = ds_rand s" "ds_stop (upd_du u f s) = ds_stop s"
  "ds_touch (upd_du u f s) = ds_touch s" "ds_procTime (upd_du u f s) = ds_procTime s"
  by (auto simp: upd_du_def split: option.splits)

lemma dir_inv_frame [simp]:
  "dir_inv L DL R (hang s) = dir_inv L DL R s" "dir_inv L DL R (s\<lparr>ds_rand := ids\<rparr>) = dir_inv L DL R s"
  "dir_inv L DL R (s\<lparr>ds_cache := c\<rparr>) = dir_inv L DL R s" "dir_inv L DL R (s\<lparr>ds_touch := ts\<rparr>) = dir_inv L DL R s"
  "dir_inv L DL R (s\<lparr>ds_now := now\<rparr>) = dir_inv L DL R s" "dir_inv L DL R (s\<lparr>ds_hung := h\<rparr>) = dir_inv L DL R s"
  "dir_inv L DL R (s\<lparr>ds_stop := b\<rparr>) = dir_inv L DL R s"
  by (simp_all add: dir_inv_def hang_def)

lemma dir_inv_upd_dr:
  "dir_inv L DL R s \<Longrightarrow> (\<And>m. dr_path (f m) = dr_path m) \<Longrightarrow> dir_inv L DL R (upd_dr r f s)"
  by (auto simp: dir_inv_def)

lemma dir_inv_repo_dir: "dir_inv L DL R s \<Longrightarrow> fmlookup (ds_repos s) r = Some dr \<Longrightarrow> repo_dir R (dr_path dr)"
  by (auto simp: dir_inv_def)

lemma dir_inv_files:
  "dir_inv L DL R s \<Longrightarrow> files_sound L DL R F \<Longrightarrow> heap_sound R F (ds_heap s) \<Longrightarrow> dir_inv L DL R (s\<lparr>ds_fs := F\<rparr>)"
  by (auto simp: dir_inv_def)

lemma fs_doE:
  assumes "fs_do f s = (x, s')"
  obtains F where "f (ds_fs s) = (x, F)" "s' = s\<lparr>ds_fs := F\<rparr>"
  using assms by (auto simp: fs_do_def split: prod.splits)

lemma dir_inv_shrinks:
  assumes "dir_inv L DL R s" and "shrinks (ds_fs s) F"
  shows "dir_inv L DL R (s\<lparr>ds_fs := F\<rparr>)"
proof (rule dir_inv_files [OF assms(1)])
  show "files_sound L DL R F" "heap_sound R F (ds_heap s)"
    using assms shrinks_sound unfolding dir_inv_def by blast+
qed

lemma dir_inv_calls:
  "fs_do (os_stat p) s = (x1, s') \<Longrightarrow> dir_inv L DL R s \<Longrightarrow> dir_inv L DL R s'"
  "fs_do (os_open p) s = (x2, s') \<Longrightarrow> dir_inv L DL R s \<Longrightarrow> dir_inv L DL R s'"
  "fs_do (os_fstat n) s = (x3, s') \<Longrightarrow> dir_inv L DL R s \<Longrightarrow> dir_inv L DL R s'"
  "fs_do (os_readFile p) s = (x4, s') \<Longrightarrow> dir_inv L DL R s \<Longrightarrow> dir_inv L DL R s'"
  "fs_do (os_readDir p) s = (x5, s') \<Longrightarrow> dir_inv L DL R s \<Longrightarrow> dir_inv L DL R s'"
  "fs_do fh_close s = (x6, s') \<Longrightarrow> dir_inv L DL R s \<Longrightarrow> dir_inv L DL R s'"
  "fs_do (os_mkdirAll p) s = (x7, s') \<Longrightarrow> dir_inv L DL R s \<Longrightarrow> dir_inv L DL R s'"
  "fs_do (os_remove p) s = (x8, s') \<Longrightarrow> dir_inv L DL R s \<Longrightarrow> dir_inv L DL R s'"
  by (auto elim!: fs_doE intro!: dir_inv_shrinks dest: shrinks_calls)

text \<open>What file calls leave alone.\<close>

lemma fs_do_frame:
  assumes "fs_do f s = (x, s')"
  shows "ds_repos s' = ds_repos s" "ds_heap s' = ds_heap s" "ds_conf s' = ds_conf s" "ds_next s' = ds_next s"
    "ds_cache s' = ds_cache s" "ds_hung s' = ds_hung s" "ds_now s' = ds_now s" "ds_rand s' = ds_rand s"
    "ds_stop s' = ds_stop s" "ds_touch s' = ds_touch s" "ds_procTime s' = ds_procTime s"
  using assms by (auto elim!: fs_doE)

lemma dir_inv_discard: "discard_temp p e s = (x, s') \<Longrightarrow> dir_inv L DL R s \<Longrightarrow> dir_inv L DL R s'"
  by (auto simp: discard_temp_def split: prod.splits dest: dir_inv_calls)

lemma upload_filename:
  assumes "dir_inv L DL R s" and "fmlookup (ds_heap s) u = Some du"
  shows "\<exists>x. upload_path R (du_filename du) x \<and> x \<notin> set (fs_rand (ds_fs s))"
  using assms heap_sound_upload upload_sound_path unfolding dir_inv_def by blast

section \<open>Saving the index\<close>

definition codec_ok :: "dir_lib \<Rightarrow> bool" where
  "codec_ok DL \<longleftrightarrow> (\<forall>li b. dl_enc_index DL li = Some b \<longrightarrow> dl_dec_index DL b \<noteq> None)"

text \<open>A temporary file: no blob, no index, and no upload has its inode.\<close>

definition temp_at :: "path \<Rightarrow> dir_store \<Rightarrow> path \<Rightarrow> nat \<Rightarrow> bool" where
  "temp_at R s p i \<longleftrightarrow> named (ds_fs s) p i \<and> plain R p \<and> unopened (ds_heap s) i"

lemma named_frame [simp]: "named (F\<lparr>fs_faults := es\<rparr>) = named F" "named (set_data i b t F) = named F"
  by (simp_all add: named_def fun_eq_iff)

lemma create_temp_index:
  assumes "dir_inv L DL R s" and "repo_dir R q"
    and "fs_do (os_createTemp q (index_file @ ''.'') now) s = (OsOk (p, i), s')"
  shows "dir_inv L DL R s'" "temp_at R s' p i" "file_bytes (ds_fs s') i = []" "p \<noteq> q @ [index_file]"
proof -
  obtain F where F: "os_createTemp q (index_file @ ''.'') now (ds_fs s) = (OsOk (p, i), F)" "s' = s\<lparr>ds_fs := F\<rparr>"
    using assms(3) by (rule fs_doE)
  obtain es y ys zs where made: "i = fs_next (ds_fs s)" "fs_rand (ds_fs s) = zs @ y # ys" "p = q @ [index_file @ ''.'' @ y]"
      "fmlookup (fs_tree (ds_fs s)) p = None" "F = new_file p [] now ((ds_fs s)\<lparr>fs_faults := es, fs_rand := ys\<rparr>)"
    using F(1) by (cases rule: os_createTempE) (blast, auto)
  let ?G = "(ds_fs s)\<lparr>fs_faults := es, fs_rand := ys\<rparr>"
  have sh: "shrinks (ds_fs s) ?G" using made(2) by (auto simp: shrinks_def file_bytes_def fun_eq_iff)
  have G: "files_sound L DL R ?G" "heap_sound R ?G (ds_heap s)"
    using shrinks_sound [OF sh] assms(1) unfolding dir_inv_def by blast+
  have pl: "plain R p" unfolding made(3) by (rule plain_temp(1) [OF assms(2)])
  have neq: "du_filename du \<noteq> p" if "fmlookup (ds_heap s) u = Some du" for u du
    using upload_filename [OF assms(1) that] upload_path_neq(1) unfolding made(3) by metis
  show "dir_inv L DL R s'"
    unfolding F(2) made(5) by (rule dir_inv_files [OF assms(1) new_file_sound [OF G(1) pl] heap_new_file [OF G(2) neq]])
  have lt: "\<not> file_at ?G r i" for r
    using files_soundD(1) [OF G(1)] made(1) unfolding fs_wf_def by auto
  have "named F p i"
    unfolding named_def made(5) using made(1,4) lt by (auto split: if_split_asm)
  moreover have "unopened (ds_heap s) i" using heap_sound_fresh [OF G(2)] made(1) by simp
  ultimately show "temp_at R s' p i" using pl F(2) by (simp add: temp_at_def)
  show "file_bytes (ds_fs s') i = []" using F(2) made(1,5) by simp
  show "p \<noteq> q @ [index_file]" using made(3) by simp
qed

lemma create_temp_failed:
  assumes "fs_do (os_createTemp q pre now) s = (x, s')" and "dir_inv L DL R s" and "\<And>v. x \<noteq> OsOk v"
  shows "dir_inv L DL R s'"
proof -
  obtain F where F: "os_createTemp q pre now (ds_fs s) = (x, F)" "s' = s\<lparr>ds_fs := F\<rparr>"
    using assms(1) by (rule fs_doE)
  obtain es where "F = (ds_fs s)\<lparr>fs_faults := es\<rparr>"
    using F(1) assms(3) by (rule_tac os_createTempE) auto
  then have "shrinks (ds_fs s) F" by (auto simp: shrinks_def)
  then show ?thesis using dir_inv_shrinks [OF assms(2)] F(2) by simp
qed

lemma write_temp:
  assumes "dir_inv L DL R s" and "temp_at R s p i" and "fs_do (fh_write i b now) s = (x, s')"
  shows "dir_inv L DL R s'" "temp_at R s' p i" "x = OsOk () \<Longrightarrow> file_bytes (ds_fs s') i = file_bytes (ds_fs s) i @ b"
proof -
  obtain F where F: "fh_write i b now (ds_fs s) = (x, F)" "s' = s\<lparr>ds_fs := F\<rparr>"
    using assms(3) by (rule fs_doE)
  have inv: "files_sound L DL R (ds_fs s)" "heap_sound R (ds_fs s) (ds_heap s)"
    using assms(1) by (simp_all add: dir_inv_def)
  have pl: "plain R q" if "file_at (ds_fs s) q i" for q
    using assms(2) that unfolding temp_at_def named_def by blast
  have "dir_inv L DL R s' \<and> temp_at R s' p i \<and> (x = OsOk () \<longrightarrow> file_bytes (ds_fs s') i = file_bytes (ds_fs s) i @ b)"
    using F(1)
  proof (cases rule: fh_writeE)
    case (failed es)
    then have "shrinks (ds_fs s) F" by (auto simp: shrinks_def)
    then show ?thesis
      using dir_inv_shrinks [OF assms(1)] assms(2) failed F(2) by (simp add: temp_at_def)
  next
    case (written es)
    have sh: "shrinks (ds_fs s) ((ds_fs s)\<lparr>fs_faults := es\<rparr>)" by (auto simp: shrinks_def)
    have un: "unopened (ds_heap s) i" using assms(2) by (simp add: temp_at_def)
    have "files_sound L DL R F" "heap_sound R F (ds_heap s)"
      unfolding written(2)
      using set_data_sound [OF shrinks_sound(1) [OF sh inv(1)]] heap_set_data [OF shrinks_sound(2) [OF sh inv(2)] un] pl
      by simp_all
    then show ?thesis
      using dir_inv_files [OF assms(1)] assms(2) F(2) written by (simp add: temp_at_def)
  qed
  then show "dir_inv L DL R s'" "temp_at R s' p i" "x = OsOk () \<Longrightarrow> file_bytes (ds_fs s') i = file_bytes (ds_fs s) i @ b"
    by blast+
qed

lemma upload_path_index: "upload_path R p x \<Longrightarrow> p \<noteq> q @ [index_file]"
  by (auto simp: upload_path_def)

lemma upload_path_blob:
  "upload_path R p x \<Longrightarrow> repo_dir R q \<Longrightarrow> p \<noteq> q @ [blobs_dir, a, e]"
  unfolding upload_path_def by (elim exE conjE) (metis repo_dir_upload)

lemma index_file_path: "repo_dir R q \<Longrightarrow> \<not> blob_path R (q @ [index_file]) a e"
  using index_path_blob by (auto simp: index_path_def)

lemma dir_inv_replace:
  assumes "dir_inv L DL R s" and "temp_at R s tmp i" and "dl_dec_index DL (file_bytes (ds_fs s) i) \<noteq> None"
    and "repo_dir R q" and "tmp \<noteq> q @ [index_file]" and "replace_index r tmp i q s = (x, s')"
  shows "dir_inv L DL R s'"
proof -
  obtain y s1 where mv: "fs_do (os_rename tmp (q @ [index_file])) s = (y, s1)" by fastforce
  obtain F where F: "os_rename tmp (q @ [index_file]) (ds_fs s) = (y, F)" "s1 = s\<lparr>ds_fs := F\<rparr>"
    using mv by (rule fs_doE)
  have s1: "dir_inv L DL R s1"
    using F(1)
  proof (cases rule: os_renameE)
    case (failed es)
    then have "shrinks (ds_fs s) F" by (auto simp: shrinks_def)
    then show ?thesis using dir_inv_shrinks [OF assms(1)] F(2) by simp
  next
    case (moved es j)
    let ?G = "(ds_fs s)\<lparr>fs_faults := es\<rparr>"
    have j: "j = i" using moved(2) assms(2) unfolding temp_at_def named_def by blast
    have sh: "shrinks (ds_fs s) ?G" by (auto simp: shrinks_def)
    have G: "files_sound L DL R ?G" "heap_sound R ?G (ds_heap s)"
      using shrinks_sound [OF sh] assms(1) unfolding dir_inv_def by blast+
    have "files_sound L DL R (move tmp (q @ [index_file]) i ?G)"
      by (rule move_sound [OF G(1)]) (use moved(2) j assms(3,4,5) index_file_path in auto)
    moreover have "heap_sound R (move tmp (q @ [index_file]) i ?G) (ds_heap s)"
    proof (rule heap_move [OF G(2)])
      show "unopened (ds_heap s) i" using assms(2) by (simp add: temp_at_def)
      show "du_filename du \<noteq> q @ [index_file]" if "fmlookup (ds_heap s) u = Some du" for u du
        using upload_filename [OF assms(1) that] upload_path_index by metis
    qed
    ultimately show ?thesis
      using dir_inv_files [OF assms(1)] F(2) moved(3) j by (simp add: move_def)
  qed
  show ?thesis
    using assms(6) s1 mv
    by (auto simp: replace_index_def split: os_res.splits prod.splits intro!: dir_inv_upd_dr
        dest: dir_inv_calls dir_inv_discard)
qed

lemma dir_inv_indexSave:
  assumes "codec_ok DL" and "dir_inv L DL R s" and "dir_indexSave DL r s = (x, s')"
  shows "dir_inv L DL R s'"
proof (cases "ds_readOnly s \<or> fmlookup (ds_repos s) r = None")
  case True
  then show ?thesis using assms(2,3) by (auto simp: dir_indexSave_def split: if_splits)
next
  case False
  then obtain dr where dr: "\<not> ds_readOnly s" "fmlookup (ds_repos s) r = Some dr" by auto
  define li where "li = minimal_index (dr_index dr)"
  define s0 where "s0 = upd_dr r (\<lambda>m. m\<lparr>dr_index := li\<rparr>) s"
  have s0: "dir_inv L DL R s0" unfolding s0_def by (rule dir_inv_upd_dr [OF assms(2)]) simp
  have rd: "repo_dir R (dr_path dr)" using dir_inv_repo_dir [OF assms(2) dr(2)] .
  obtain y s1 where c: "fs_do (os_createTemp (dr_path dr) (index_file @ ''.'') (ds_now s)) s0 = (y, s1)" by fastforce
  have run: "dir_indexSave DL r s = (case y of
      OsOk (tmp, i) \<Rightarrow>
        (case dl_enc_index DL li of
           None \<Rightarrow> discard_temp tmp (ErrOther ''json'') s1
         | Some b \<Rightarrow>
           (case fs_do (fh_write i b (ds_now s)) s1 of
              (OsOk _, s2) \<Rightarrow> replace_index r tmp i (dr_path dr) s2
            | (e, s2) \<Rightarrow> discard_temp tmp (os_err e) s2))
    | e \<Rightarrow> (Inl (os_err e), s1))"
    using dr c unfolding dir_indexSave_def Let_def li_def [symmetric] s0_def [symmetric]
    by (simp add: li_def [symmetric] s0_def [symmetric] split: os_res.split)
  show ?thesis
  proof (cases "\<exists>tmp i. y = OsOk (tmp, i)")
    case False
    then have "dir_inv L DL R s1" using create_temp_failed [OF c s0] by auto
    then show ?thesis using assms(3) run False by (auto split: os_res.splits)
  next
    case True
    then obtain tmp i where y: "y = OsOk (tmp, i)" by blast
    note t = create_temp_index [OF s0 rd c [unfolded y]]
    show ?thesis
    proof (cases "dl_enc_index DL li")
      case None
      then show ?thesis using assms(3) run y t(1) by (auto dest: dir_inv_discard)
    next
      case (Some b)
      obtain z s2 where w: "fs_do (fh_write i b (ds_now s)) s1 = (z, s2)" by fastforce
      note t2 = write_temp [OF t(1,2) w]
      show ?thesis
      proof (cases "z = OsOk ()")
        case True
        have "dl_dec_index DL (file_bytes (ds_fs s2) i) \<noteq> None"
          using t2(3) [OF True] t(3) Some assms(1) by (simp add: codec_ok_def)
        from dir_inv_replace [OF t2(1,2) this rd t(4)] show ?thesis
          using assms(3) run y Some w True by auto
      next
        case False
        then show ?thesis
          using assms(3) run y Some w t2(1) by (auto split: os_res.splits dest: dir_inv_discard)
      qed
    qed
  qed
qed

end
