(* ===== verification/Dir_Keeps.thy ===== *)
theory Dir_Keeps
  imports Dir_Invariant
begin

text \<open>The invariant of the directory store, method by method.\<close>

section \<open>Creating a repository, reading blobs\<close>

lemma dir_inv_with_mu:
  assumes "with_mu r x f s = (y, s')" and "dir_inv L DL R s"
    and "\<And>s1 y1 s2. f s1 = (y1, s2) \<Longrightarrow> dir_inv L DL R s1 \<Longrightarrow> dir_inv L DL R s2"
  shows "dir_inv L DL R s'"
proof -
  have mu: "dir_inv L DL R s1 \<Longrightarrow> dir_inv L DL R (upd_dr r (\<lambda>m. m\<lparr>dr_mu := b\<rparr>) s1)" for s1 b
    by (rule dir_inv_upd_dr) simp_all
  show ?thesis
    using assms mu
    by (auto simp: with_mu_def split: option.splits if_splits prod.splits)
qed

lemma dir_inv_live:
  assumes "live x f s = (y, s')" and "dir_inv L DL R s"
    and "\<And>y1 s2. f s = (y1, s2) \<Longrightarrow> dir_inv L DL R s2"
  shows "dir_inv L DL R s'"
  using assms by (auto simp: live_def split: if_splits)

lemma inode_of_file:
  assumes "dir_inv L DL R s" and "file_at (ds_fs s) p i" and "plain R p"
    and "\<And>x. \<not> upload_path R p x"
  shows "file_at (ds_fs s) q i \<Longrightarrow> plain R q" "unopened (ds_heap s) i"
proof -
  have wf: "fs_wf (ds_fs s)" using assms(1) files_soundD(1) unfolding dir_inv_def by blast
  show "plain R q" if "file_at (ds_fs s) q i"
    using wf that assms(2,3) unfolding fs_wf_def by metis
  have "du_fh du \<noteq> Some i" if u: "fmlookup (ds_heap s) u = Some du" for u du
  proof
    assume "du_fh du = Some i"
    moreover have "upload_sound R (ds_fs s) du"
      using assms(1) u heap_sound_upload unfolding dir_inv_def by blast
    ultimately have "p = du_filename du"
      using assms(2) unfolding upload_sound_def handle_sound_def named_def by blast
    then show False using upload_filename [OF assms(1) u] assms(4) by blast
  qed
  then show "unopened (ds_heap s) i" by (auto simp: unopened_def)
qed

lemma dir_inv_writeLayout:
  assumes "fs_do (os_writeFile (q @ [layout_file]) b now) s = (x, s')" and "dir_inv L DL R s" and "repo_dir R q"
  shows "dir_inv L DL R s'"
proof -
  obtain F where F: "os_writeFile (q @ [layout_file]) b now (ds_fs s) = (x, F)" "s' = s\<lparr>ds_fs := F\<rparr>"
    using assms(1) by (rule fs_doE)
  have pl: "plain R (q @ [layout_file])" using plain_temp(2) [OF assms(3)] .
  have up: "\<not> upload_path R (q @ [layout_file]) y" for y using upload_path_neq(2) by blast
  have sh: "shrinks (ds_fs s) ((ds_fs s)\<lparr>fs_faults := es\<rparr>)" for es by (auto simp: shrinks_def)
  have inv: "files_sound L DL R (ds_fs s)" "heap_sound R (ds_fs s) (ds_heap s)"
    using assms(2) by (simp_all add: dir_inv_def)
  have "files_sound L DL R F \<and> heap_sound R F (ds_heap s)"
    using F(1)
  proof (cases rule: os_writeFileE)
    case (failed es)
    then show ?thesis using shrinks_sound [OF sh [of es]] inv by simp
  next
    case (old es i)
    note i = inode_of_file [OF assms(2) old(1) pl up]
    show ?thesis
      unfolding old(2)
      using set_data_sound [OF shrinks_sound(1) [OF sh inv(1)]] i(1)
        heap_set_data [OF shrinks_sound(2) [OF sh inv(2)] i(2)] by simp
  next
    case (fresh es)
    have "du_filename du \<noteq> q @ [layout_file]" if "fmlookup (ds_heap s) u = Some du" for u du
      using upload_filename [OF assms(2) that] up by metis
    then show ?thesis
      unfolding fresh(2)
      using new_file_sound [OF shrinks_sound(1) [OF sh inv(1)] pl]
        heap_new_file [OF shrinks_sound(2) [OF sh inv(2)]] by simp
  qed
  then show ?thesis using dir_inv_files [OF assms(2)] F(2) by simp
qed

lemma dir_inv_init_directory: "init_directory p s = (x, s') \<Longrightarrow> dir_inv L DL R s \<Longrightarrow> dir_inv L DL R s'"
  by (auto simp: init_directory_def split: prod.splits os_res.splits if_splits dest: dir_inv_calls)

lemma dir_inv_init_layout:
  assumes "init_layout L' DL' p s = (x, s')" and "dir_inv L DL R s" and "repo_dir R p"
  shows "dir_inv L DL R s'"
  using assms
  by (auto simp: init_layout_def split: prod.splits os_res.splits if_splits option.splits
      dest: dir_inv_calls dir_inv_writeLayout)

lemma dir_inv_init_index:
  assumes "codec_ok DL" and "init_index DL r p s = (x, s')" and "dir_inv L DL R s"
  shows "dir_inv L DL R s'"
  using assms(2,3)
  by (auto simp: init_index_def split: prod.splits os_res.splits if_splits
      dest: dir_inv_calls dir_inv_indexSave [OF assms(1)])

lemma dir_inv_repoInit:
  assumes "codec_ok DL" and "dir_repoInit L DL r s = (x, s')" and "dir_inv L DL R s"
  shows "dir_inv L DL R s'"
  using assms(2,3) unfolding dir_repoInit_def
proof (rule dir_inv_with_mu)
  fix s1 :: dir_store and y s2
  assume run: "(case fmlookup (ds_repos s1) r of
         None \<Rightarrow> (Inl ErrNotFound, s1)
       | Some dr \<Rightarrow>
         if dr_exists dr then (Inr (), s1)
         else (case init_directory (dr_path dr) s1 of
             (Inl e, s1) \<Rightarrow> (Inl e, s1)
           | (Inr _, s1) \<Rightarrow>
             (case init_layout L DL (dr_path dr) s1 of
                (Inl e, s2) \<Rightarrow> (Inl e, s2)
              | (Inr _, s2) \<Rightarrow>
                (case init_index DL r (dr_path dr) s2 of
                   (Inl e, s3) \<Rightarrow> (Inl e, s3)
                 | (Inr _, s3) \<Rightarrow> (Inr (), upd_dr r (\<lambda>m. m\<lparr>dr_exists := True\<rparr>) s3))))) = (y, s2)"
    and s1: "dir_inv L DL R s1"
  have ex: "dir_inv L DL R s \<Longrightarrow> dir_inv L DL R (upd_dr r (\<lambda>m. m\<lparr>dr_exists := True\<rparr>) s)" for s
    by (rule dir_inv_upd_dr) simp_all
  show "dir_inv L DL R s2"
    using run s1 dir_inv_repo_dir [OF s1]
    by (auto split: option.splits if_splits prod.splits sum.splits intro!: ex
        dest!: dir_inv_init_directory [where L = L and DL = DL and R = R] dir_inv_init_layout dir_inv_init_index [OF assms(1)])
qed

lemma dir_inv_blobGet: "dir_blobGet L' DL' r d s = (x, s') \<Longrightarrow> dir_inv L DL R s \<Longrightarrow> dir_inv L DL R s'"
  by (auto simp: dir_blobGet_def split: option.splits if_splits prod.splits os_res.splits dest: dir_inv_calls)

lemma dir_inv_blobMeta: "dir_blobMeta L' DL' r d s = (x, s') \<Longrightarrow> dir_inv L DL R s \<Longrightarrow> dir_inv L DL R s'"
  by (auto simp: dir_blobMeta_def split: option.splits if_splits prod.splits os_res.splits dest: dir_inv_calls)

lemma dir_inv_blobDelete: "dir_blobDelete L' DL' r d s = (x, s') \<Longrightarrow> dir_inv L DL R s \<Longrightarrow> dir_inv L DL R s'"
  by (auto simp: dir_blobDelete_def split: option.splits if_splits prod.splits os_res.splits dest: dir_inv_calls)

lemma dir_inv_list_algorithms:
  "list_algorithms L' p as s = (x, s') \<Longrightarrow> dir_inv L DL R s \<Longrightarrow> dir_inv L DL R s'"
  by (induction L' p as s arbitrary: x rule: list_algorithms.induct)
    (auto split: if_splits prod.splits os_res.splits sum.splits dest: dir_inv_calls)

lemma dir_inv_blobList: "dir_blobList L' r s = (x, s') \<Longrightarrow> dir_inv L DL R s \<Longrightarrow> dir_inv L DL R s'"
  by (auto simp: dir_blobList_def split: option.splits prod.splits os_res.splits
      dest: dir_inv_calls dir_inv_list_algorithms)

lemma dir_inv_blobSession:
  assumes "dir_blobSession r sid s = (x, s')" and "dir_inv L DL R s"
  shows "dir_inv L DL R s'"
  using assms unfolding dir_blobSession_def
  by (rule dir_inv_with_mu)
    (auto intro!: dir_inv_upd_dr split: option.splits prod.splits sum.splits)

section \<open>Starting an upload\<close>

lemma create_temp_upload:
  assumes "dir_inv L DL R s" and "repo_dir R q"
    and "fs_do (os_createTemp (q @ [upload_dir]) ''upload.'' now) s = (OsOk (p, i), s')"
  shows "dir_inv L DL R s'" "named (ds_fs s') p i" "unopened (ds_heap s) i" "file_bytes (ds_fs s') i = []"
    "\<exists>x. p = q @ [upload_dir, ''upload.'' @ x] \<and> x \<notin> set (fs_rand (ds_fs s'))"
proof -
  obtain F where F: "os_createTemp (q @ [upload_dir]) ''upload.'' now (ds_fs s) = (OsOk (p, i), F)" "s' = s\<lparr>ds_fs := F\<rparr>"
    using assms(3) by (rule fs_doE)
  obtain es y ys zs where made: "i = fs_next (ds_fs s)" "fs_rand (ds_fs s) = zs @ y # ys"
      "p = (q @ [upload_dir]) @ [''upload.'' @ y]"
      "fmlookup (fs_tree (ds_fs s)) p = None" "F = new_file p [] now ((ds_fs s)\<lparr>fs_faults := es, fs_rand := ys\<rparr>)"
    using F(1) by (cases rule: os_createTempE) (blast, auto)
  let ?G = "(ds_fs s)\<lparr>fs_faults := es, fs_rand := ys\<rparr>"
  have sh: "shrinks (ds_fs s) ?G" using made(2) by (auto simp: shrinks_def file_bytes_def fun_eq_iff)
  have G: "files_sound L DL R ?G" "heap_sound R ?G (ds_heap s)"
    using shrinks_sound [OF sh] assms(1) unfolding dir_inv_def by blast+
  have p: "p = q @ [upload_dir, ''upload.'' @ y]" using made(3) by simp
  have pl: "plain R p" unfolding p by (rule plain_temp(3) [OF assms(2)])
  have y: "y \<in> set (fs_rand (ds_fs s))" using made(2) by simp
  have neq: "du_filename du \<noteq> p" if "fmlookup (ds_heap s) u = Some du" for u du
    using upload_filename [OF assms(1) that] upload_path_neq(3) y unfolding p by metis
  show "dir_inv L DL R s'"
    unfolding F(2) made(5) by (rule dir_inv_files [OF assms(1) new_file_sound [OF G(1) pl] heap_new_file [OF G(2) neq]])
  have lt: "\<not> file_at ?G r i" for r
    using files_soundD(1) [OF G(1)] made(1) unfolding fs_wf_def by auto
  have "named F p i"
    unfolding named_def made(5) using made(1,4) lt by (auto split: if_split_asm)
  then show "named (ds_fs s') p i" using F(2) by simp
  show "unopened (ds_heap s) i" using heap_sound_fresh [OF G(2)] made(1) by simp
  show "file_bytes (ds_fs s') i = []" using F(2) made(1,5) by simp
  have "distinct (fs_rand (ds_fs s))" using assms(1) files_soundD(1) unfolding dir_inv_def fs_wf_def by blast
  then have "y \<notin> set ys" using made(2) by simp
  then show "\<exists>x. p = q @ [upload_dir, ''upload.'' @ x] \<and> x \<notin> set (fs_rand (ds_fs s'))"
    using p F(2) made(5) by auto
qed

definition upload_made :: "path \<Rightarrow> dir_store \<Rightarrow> path \<times> nat \<Rightarrow> bool" where
  "upload_made q s v \<longleftrightarrow> named (ds_fs s) (fst v) (snd v) \<and> unopened (ds_heap s) (snd v) \<and>
     file_bytes (ds_fs s) (snd v) = [] \<and>
     (\<exists>x. fst v = q @ [upload_dir, ''upload.'' @ x] \<and> x \<notin> set (fs_rand (ds_fs s)))"

lemma upload_temp_outcome:
  assumes "upload_temp q s = (y, s')" and "dir_inv L DL R s" and "repo_dir R q"
  shows "dir_inv L DL R s' \<and> (\<forall>v. y = OsOk v \<longrightarrow> upload_made q s' v)"
proof -
  have mk: "dir_inv L DL R s2 \<and> (\<forall>v. y = OsOk v \<longrightarrow> upload_made q s2 v)"
    if "fs_do (os_createTemp (q @ [upload_dir]) ''upload.'' now) s1 = (y, s2)" "dir_inv L DL R s1" for s1 s2 y now
  proof (cases y)
    case (OsOk v)
    then show ?thesis
      using create_temp_upload [OF that(2) assms(3), of now "fst v" "snd v" s2] that(1) fs_do_frame(2) [OF that(1)]
      by (simp add: upload_made_def)
  qed (use create_temp_failed [OF that] in simp_all)
  show ?thesis
    using assms(1,2) unfolding upload_temp_def Let_def
    by (auto split: prod.splits os_res.splits if_splits dest: mk dir_inv_calls)
qed

lemma heap_sound_new:
  assumes "heap_sound R F H" and "upload_sound R F du" and "\<And>i. du_fh du = Some i \<Longrightarrow> unopened H i"
  shows "heap_sound R F (fmupd u du H)"
  using assms unfolding heap_sound_def unopened_def by (auto split: if_split_asm)

lemma dir_inv_start_session:
  assumes "start_session r q bc sid c s = (x, s')" and "dir_inv L DL R s" and "repo_dir R q"
  shows "dir_inv L DL R s'"
proof -
  obtain y s1 where t: "upload_temp q s = (y, s1)" by fastforce
  note o = upload_temp_outcome [OF t assms(2,3)]
  show ?thesis
  proof (cases y)
    case (OsOk v)
    obtain p i where v: "v = (p, i)" by fastforce
    define du where "du = \<lparr>du_repo = r, du_sessionID = sid, du_fh = Some i, du_alg = bo_algo bc,
                    du_w = (bo_algo bc, []), du_size = 0, du_expect = bo_expect bc, du_path = q, du_filename = p\<rparr>"
    define s2 where "s2 = s1\<lparr>ds_next := Suc (ds_next s1), ds_heap := fmupd (ds_next s1) du (ds_heap s1)\<rparr>"
    have p: "named (ds_fs s1) p i" "unopened (ds_heap s1) i" "file_bytes (ds_fs s1) i = []"
      "\<exists>x. p = q @ [upload_dir, ''upload.'' @ x] \<and> x \<notin> set (fs_rand (ds_fs s1))"
      using o OsOk v by (simp_all add: upload_made_def)
    have "upload_sound R (ds_fs s1) du"
      using p assms(3) by (simp add: upload_sound_def handle_sound_def du_def)
    moreover have "unopened (ds_heap s1) j" if "du_fh du = Some j" for j
      using that p(2) by (simp add: du_def)
    ultimately have "heap_sound R (ds_fs s1) (ds_heap s2)"
      using heap_sound_new o unfolding s2_def dir_inv_def by simp
    then have "dir_inv L DL R s2"
      using o by (auto simp: dir_inv_def s2_def less_Suc_eq)
    then show ?thesis
      using assms(1) t OsOk v by (auto simp: start_session_def Let_def s2_def du_def intro!: dir_inv_upd_dr)
  qed (use assms(1) t o in \<open>simp_all add: start_session_def\<close>)
qed

lemma dir_inv_create_session:
  assumes "create_session r bc s = (x, s')" and "dir_inv L DL R s"
  shows "dir_inv L DL R s'"
  using assms dir_inv_repo_dir [OF assms(2)]
  by (auto simp: create_session_def Let_def split: option.splits list.splits prod.splits sum.splits
      intro!: dir_inv_upd_dr dest: dir_inv_start_session)

lemma dir_inv_blobCreate:
  assumes "codec_ok DL" and "dir_blobCreate L DL r opts s = (x, s')" and "dir_inv L DL R s"
  shows "dir_inv L DL R s'"
proof -
  show ?thesis
    using assms(2,3) unfolding dir_blobCreate_def
    by (auto split: if_split_asm sum.splits option.splits prod.splits os_res.splits
        dest: dir_inv_repoInit [OF assms(1)] dir_inv_calls dir_inv_with_mu [OF _ _ dir_inv_create_session])
qed

section \<open>Methods of an upload\<close>

text \<open>An upload changes: its name stays, its handle stays or closes, and what it has hashed is in its file.\<close>

lemma dir_inv_upload:
  assumes "dir_inv L DL R s" and "fmlookup (ds_heap s) u = Some du" and "du_path du' = du_path du"
    and "du_filename du' = du_filename du" and "du_fh du' = None \<or> du_fh du' = du_fh du"
    and "\<And>i. du_fh du' = Some i \<Longrightarrow> handle_sound (ds_fs s) du' i"
  shows "dir_inv L DL R (s\<lparr>ds_heap := fmupd u du' (ds_heap s)\<rparr>)"
proof -
  have h: "heap_sound R (ds_fs s) (ds_heap s)" using assms(1) by (simp add: dir_inv_def)
  have up: "upload_sound R (ds_fs s) du'"
    using heap_sound_upload [OF h assms(2)] assms(3,4,6) by (simp add: upload_sound_def)
  have "heap_sound R (ds_fs s) (fmupd u du' (ds_heap s))"
    unfolding heap_sound_def
  proof (intro conjI allI impI)
    show "upload_sound R (ds_fs s) d" if "fmlookup (fmupd u du' (ds_heap s)) v = Some d" for v d
      using that up heap_sound_upload [OF h] by (simp split: if_split_asm)
    have fh: "\<exists>d0. fmlookup (ds_heap s) v = Some d0 \<and> du_fh d0 = Some i"
      if "fmlookup (fmupd u du' (ds_heap s)) v = Some d" "du_fh d = Some i" for v d i
      using that assms(2,5) by (auto split: if_split_asm)
    show "v = v'" if "fmlookup (fmupd u du' (ds_heap s)) v = Some d" "fmlookup (fmupd u du' (ds_heap s)) v' = Some d'"
        "du_fh d = Some i" "du_fh d' = Some i" for v v' d d' i
      using fh [OF that(1,3)] fh [OF that(2,4)] h unfolding heap_sound_def by blast
  qed
  then show ?thesis using assms(1,2) by (auto simp: dir_inv_def)
qed

lemma dir_inv_upd_du:
  assumes "dir_inv L DL R s"
    and "\<And>du. du_path (f du) = du_path du \<and> du_filename (f du) = du_filename du \<and> (du_fh (f du) = None \<or> du_fh (f du) = du_fh du)"
    and "\<And>du i. fmlookup (ds_heap s) u = Some du \<Longrightarrow> du_fh (f du) = Some i \<Longrightarrow> handle_sound (ds_fs s) (f du) i"
  shows "dir_inv L DL R (upd_du u f s)"
  using assms(1) dir_inv_upload [OF assms(1)] assms(2,3) unfolding upd_du_def by (auto split: option.split)

lemma dir_inv_close_fh: "dir_inv L DL R s \<Longrightarrow> dir_inv L DL R (upd_du u (\<lambda>m. m\<lparr>du_fh := None\<rparr>) s)"
  by (rule dir_inv_upd_du) simp_all

lemma dir_inv_handle:
  assumes "dir_inv L DL R s" and "fmlookup (ds_heap s) u = Some du" and "du_fh du = Some i"
  shows "handle_sound (ds_fs s) du i"
  using assms heap_sound_upload unfolding dir_inv_def upload_sound_def by blast

lemma dir_inv_close_handle: "dir_inv L DL R s \<Longrightarrow> dir_inv L DL R (close_handle u s)"
  by (auto simp: close_handle_def split: option.split prod.split intro!: dir_inv_close_fh dest: dir_inv_calls)

lemma dir_inv_delete_upload: "dir_inv L DL R s \<Longrightarrow> dir_inv L DL R (delete_upload u s)"
  by (auto simp: delete_upload_def split: option.split prod.split dest: dir_inv_calls dir_inv_close_handle)

text \<open>The cache runs the prune function only.\<close>

definition hooks_keep :: "('k, 'v, 's) prune_hooks \<Rightarrow> ('s \<Rightarrow> bool) \<Rightarrow> bool" where
  "hooks_keep H P \<longleftrightarrow> ph_pre H = None \<and> ph_post H = None \<and>
     (\<forall>f k v s. ph_fn H = Some f \<longrightarrow> P s \<longrightarrow> P (snd (f k v s)))"

lemma hooks_run: "hooks_keep H P \<Longrightarrow> P s \<Longrightarrow> P (snd (run_prune H k v s))"
  by (auto simp: hooks_keep_def run_prune_def split: option.split prod.split)

lemma hooks_delete: "hooks_keep H P \<Longrightarrow> P s \<Longrightarrow> cache_delete H k c s = (e, c', s') \<Longrightarrow> P s'"
  by (auto simp: hooks_keep_def cache_delete_def split: option.splits prod.splits) (metis snd_conv)+

lemma hooks_deleteAll:
  assumes "hooks_keep H P"
  shows "P s \<Longrightarrow> P (snd (snd (delete_all_loop H ks c s errs)))"
  using assms
  by (induction H ks c s errs rule: delete_all_loop.induct)
    (auto simp: hooks_keep_def split: option.split prod.split, (metis snd_conv)+)

lemma hooks_age:
  assumes "hooks_keep H P"
  shows "P s \<Longrightarrow> P (snd (snd (age_loop H now cutoff ks es oldest s)))"
  using hooks_run [OF assms]
  by (induction H now cutoff ks es oldest s rule: age_loop.induct)
    (auto split: option.split prod.split, (metis snd_conv)+)

lemma hooks_count:
  assumes "hooks_keep H P"
  shows "P s \<Longrightarrow> P (snd (count_loop H now n ks es m s))"
  using hooks_run [OF assms]
  by (induction H now n ks es m s rule: count_loop.induct)
    (auto split: option.split prod.split, (metis snd_conv)+)

lemma hooks_prune:
  assumes "hooks_keep H P" and "P s"
  shows "P (snd (cache_pruneAge H now ks c s))" "P (snd (cache_pruneCount H now ks c s))"
proof -
  obtain es oldest s1 where age: "age_loop H now (now - ca_minAge c) ks (ca_entries c) now s = (es, oldest, s1)"
    using prod_cases3 by blast
  have "P s1" using hooks_age [OF assms, of now "now - ca_minAge c" ks "ca_entries c" now] age by simp
  then show "P (snd (cache_pruneAge H now ks c s))"
    using assms(2) age by (simp add: cache_pruneAge_def Let_def)
  obtain es2 s2 where count: "count_loop H now (length ks - nat (ca_minCount c))
      (sort_key (used_of (ca_entries c)) ks) (ca_entries c) 0 s = (es2, s2)" by fastforce
  have "P s2"
    using hooks_count [OF assms, of now "length ks - nat (ca_minCount c)" "sort_key (used_of (ca_entries c)) ks"
        "ca_entries c" 0] count by simp
  then show "P (snd (cache_pruneCount H now ks c s))"
    unfolding cache_pruneCount_def count prod.case using assms(2) by simp
qed

lemma upload_hooks_keep: "hooks_keep upload_hooks (dir_inv L DL R)"
  by (simp add: hooks_keep_def upload_hooks_def dir_inv_delete_upload)

lemma dir_inv_drop_upload: "dir_inv L DL R s \<Longrightarrow> dir_inv L DL R (drop_upload du s)"
  by (auto simp: drop_upload_def split: option.split prod.split intro!: dir_inv_upd_dr
      dest: hooks_delete [OF upload_hooks_keep])

lemma heap_sound_drop:
  assumes "heap_sound R F H" and "fmlookup H u = Some du" and "du_fh du = Some i"
  shows "heap_sound R F (fmdrop u H)" "unopened (fmdrop u H) i"
  using assms unfolding heap_sound_def unopened_def by (auto split: if_split_asm)

lemma dir_inv_append:
  assumes "dir_inv L DL R s" and "fmlookup (ds_heap s) u = Some du" and "du_fh du = Some i"
    and "fs_do (fh_write i p now) s = (OsOk y, s1)"
  shows "dir_inv L DL R (upd_du u (\<lambda>m. m\<lparr>du_w := (fst (du_w m), snd (du_w m) @ p),
           du_size := du_size m + int (length p)\<rparr>) s1)"
proof -
  obtain F where F: "fh_write i p now (ds_fs s) = (OsOk y, F)" "s1 = s\<lparr>ds_fs := F\<rparr>"
    using assms(4) by (rule fs_doE)
  obtain es where w: "F = set_data i (file_bytes (ds_fs s) i @ p) now ((ds_fs s)\<lparr>fs_faults := es\<rparr>)"
    using F(1) by (cases rule: fh_writeE) (simp, blast)
  let ?G = "(ds_fs s)\<lparr>fs_faults := es\<rparr>"
  let ?du = "du\<lparr>du_w := (fst (du_w du), snd (du_w du) @ p), du_size := du_size du + int (length p)\<rparr>"
  have sh: "shrinks (ds_fs s) ?G" by (auto simp: shrinks_def)
  have G: "files_sound L DL R ?G" "heap_sound R ?G (ds_heap s)"
    using shrinks_sound [OF sh] assms(1) unfolding dir_inv_def by blast+
  have hs: "handle_sound (ds_fs s) du i" using dir_inv_handle [OF assms(1-3)] .
  have us: "upload_sound R (ds_fs s) du"
    using assms(1,2) heap_sound_upload unfolding dir_inv_def by blast
  have "plain R (du_filename du)"
    using us plain_temp(3) unfolding upload_sound_def by auto
  moreover have "q = du_filename du" if "file_at (ds_fs s) q i" for q
    using hs that unfolding handle_sound_def named_def by blast
  ultimately have pl: "plain R q" if "file_at ?G q i" for q
    using that by (metis fsys.select_convs(1) fsys.surjective fsys.update_convs(5))
  have fs: "files_sound L DL R F" unfolding w by (rule set_data_sound [OF G(1) pl])
  note d = heap_sound_drop [OF G(2) assms(2,3)]
  have "upload_sound R F ?du"
    using us hs assms(3) by (simp add: upload_sound_def handle_sound_def w)
  moreover have "heap_sound R F (fmdrop u (ds_heap s))"
    unfolding w by (rule heap_set_data [OF d])
  ultimately have "heap_sound R F (fmupd u ?du (fmdrop u (ds_heap s)))"
    using d(2) assms(3) by (intro heap_sound_new) simp_all
  moreover have "fmupd u ?du (fmdrop u (ds_heap s)) = fmupd u ?du (ds_heap s)"
    by (rule fmap_ext) simp
  ultimately have "dir_inv L DL R (s\<lparr>ds_fs := F, ds_heap := fmupd u ?du (ds_heap s)\<rparr>)"
    using assms(1,2) fs by (auto simp: dir_inv_def)
  then show ?thesis using assms(2) F(2) by (simp add: upd_du_def)
qed

lemma dir_inv_write_failed:
  assumes "fs_do (fh_write i p now) s = (x, s1)" and "dir_inv L DL R s" and "x \<noteq> OsOk ()"
  shows "dir_inv L DL R s1"
proof -
  obtain F where F: "fh_write i p now (ds_fs s) = (x, F)" "s1 = s\<lparr>ds_fs := F\<rparr>"
    using assms(1) by (rule fs_doE)
  have "shrinks (ds_fs s) F" using F(1) assms(3) by (cases rule: fh_writeE) (auto simp: shrinks_def)
  then show ?thesis using dir_inv_shrinks [OF assms(2)] F(2) by simp
qed

lemma dir_inv_write:
  assumes "dir_write u p s = (x, s')" and "dir_inv L DL R s"
  shows "dir_inv L DL R s'"
proof -
  have step: "dir_inv L DL R (upd_du u (\<lambda>m. m\<lparr>du_w := (fst (du_w m), snd (du_w m) @ p),
           du_size := du_size m + int (length p)\<rparr>) s1)"
    if "fs_do (fh_write i p now) (upd_dr r (\<lambda>m. m\<lparr>dr_uploads := c\<rparr>) s) = (OsOk y, s1)"
      "fmlookup (ds_heap s) u = Some du" "du_fh du = Some i" for r c now i y s1 du
    using dir_inv_append [OF _ _ that(3,1)] that(2) assms(2) by (simp add: dir_inv_upd_dr)
  have failed: "dir_inv L DL R s1"
    if "fs_do (fh_write i p now) (upd_dr r (\<lambda>m. m\<lparr>dr_uploads := c\<rparr>) s) = (x, s1)" "x \<noteq> OsOk ()" for r c now i x s1
    using dir_inv_write_failed [OF that(1)] that(2) assms(2) by (simp add: dir_inv_upd_dr)
  show ?thesis
    using assms unfolding dir_write_def
    by (auto split: option.splits prod.splits sum.splits os_res.splits intro: step dest: failed)
qed

lemma dir_inv_cancel: "dir_cancel u s = (x, s') \<Longrightarrow> dir_inv L DL R s \<Longrightarrow> dir_inv L DL R s'"
  by (auto simp: dir_cancel_def split: option.splits dest: dir_inv_drop_upload)

lemma dir_inv_changeAlgorithm:
  assumes "dir_changeAlgorithm u a s = (x, s')" and "dir_inv L DL R s"
  shows "dir_inv L DL R s'"
proof (cases "fmlookup (ds_heap s) u")
  case (Some du)
  have "handle_sound (ds_fs s) (du\<lparr>du_alg := a, du_w := (a, [])\<rparr>) i"
    if "du_fh du = Some i" "\<not> du_size du > 0" for i
    using dir_inv_handle [OF assms(2) Some that(1)] that(2) by (simp add: handle_sound_def)
  then have "dir_inv L DL R (upd_du u (\<lambda>m. m\<lparr>du_alg := a, du_w := (a, [])\<rparr>) s)" if "\<not> du_size du > 0"
    by (rule_tac dir_inv_upd_du [OF assms(2)]) (use that Some in auto)
  then show ?thesis
    using assms Some by (auto simp: dir_changeAlgorithm_def split: if_split_asm)
qed (use assms in \<open>auto simp: dir_changeAlgorithm_def split: if_split_asm\<close>)

text \<open>\<open>Verify\<close> reads the file again; a read that fails would break the invariant, see below.\<close>

lemma dir_inv_verify:
  assumes "dir_verify L' u d s = (x, s')" and "dir_inv L DL R s"
  shows "dir_inv L DL R s'"
proof (cases "fmlookup (ds_heap s) u")
  case (Some du)
  let ?a = "dig_algorithm L' d"
  have reads: "fs_reads (ds_fs s) = []"
    using assms(2) files_soundD(1) unfolding dir_inv_def fs_wf_def by blast
  let ?s1 = "upd_du u (\<lambda>m. m\<lparr>du_alg := ?a, du_w := (?a, [])\<rparr>) s"
  have closed: "dir_inv L DL R ?s1" if "du_fh du = None"
    by (rule dir_inv_upd_du [OF assms(2)]) (use that Some in auto)
  have again: "fs_do (fh_reread i) ?s1 = (OsOk (file_bytes (ds_fs s) i), ?s1)" for i
    using fh_reread_no_error [OF reads, of i] by (simp add: fs_do_def)
  have two: "upd_du u (\<lambda>m. m\<lparr>du_w := (?a, b)\<rparr>) ?s1 = upd_du u (\<lambda>m. m\<lparr>du_alg := ?a, du_w := (?a, b)\<rparr>) s" for b
    using Some by (simp add: upd_du_def)
  have opened: "dir_inv L DL R (upd_du u (\<lambda>m. m\<lparr>du_alg := ?a, du_w := (?a, file_bytes (ds_fs s) i)\<rparr>) s)"
    if "du_fh du = Some i" for i
    by (rule dir_inv_upd_du [OF assms(2)])
      (use that Some dir_inv_handle [OF assms(2) Some that] in \<open>auto simp: handle_sound_def\<close>)
  show ?thesis
    using assms Some closed opened
    by (auto simp: dir_verify_def Let_def again two split: if_split_asm option.splits)
qed (use assms in \<open>auto simp: dir_verify_def\<close>)

text \<open>\<open>Close\<close>: once its handle is closed, the file of an upload is nobody's until it is a blob.\<close>

definition detached :: "dir_store \<Rightarrow> path \<Rightarrow> nat \<Rightarrow> bytes \<Rightarrow> bool" where
  "detached s p i b \<longleftrightarrow> named (ds_fs s) p i \<and> unopened (ds_heap s) i \<and> file_bytes (ds_fs s) i = b"

lemma shrinks_named:
  assumes "shrinks F F'" and "named F p i"
  shows "named F' p i"
  using assms(1) by (intro named_mono [OF assms(2)]) (simp_all add: shrinks_def)

lemma detached_shrinks: "shrinks (ds_fs s) F \<Longrightarrow> detached s p i b \<Longrightarrow> detached (s\<lparr>ds_fs := F\<rparr>) p i b"
  by (simp add: detached_def shrinks_named) (simp add: shrinks_def)

lemma detached_calls:
  "fs_do (os_stat q) s = (x1, s') \<Longrightarrow> detached s p i b \<Longrightarrow> detached s' p i b"
  "fs_do (os_mkdirAll q) s = (x2, s') \<Longrightarrow> detached s p i b \<Longrightarrow> detached s' p i b"
  by (auto elim!: fs_doE intro!: detached_shrinks dest: shrinks_calls)

lemma blob_directory_keeps:
  assumes "blob_directory q s = (x, s')" and "dir_inv L DL R s"
  shows "dir_inv L DL R s'" "detached s p i b \<Longrightarrow> detached s' p i b"
  using assms
  by (auto simp: blob_directory_def split: prod.splits os_res.splits if_splits dest: dir_inv_calls detached_calls)

lemma dir_inv_store_blob:
  assumes "writer_ok L" and "digest_ok L" and "dir_inv L DL R s" and "repo_dir R q" and "detached s p i b"
    and "wr_digest L a b = Some d" and "p \<noteq> blob_file L DL q d"
    and "fs_do (os_rename p (blob_file L DL q d)) s = (x, s')"
  shows "dir_inv L DL R s'"
proof -
  obtain F where F: "os_rename p (blob_file L DL q d) (ds_fs s) = (x, F)" "s' = s\<lparr>ds_fs := F\<rparr>"
    using assms(8) by (rule fs_doE)
  show ?thesis
    using F(1)
  proof (cases rule: os_renameE)
    case (failed es)
    then have "shrinks (ds_fs s) F" by (auto simp: shrinks_def)
    then show ?thesis using dir_inv_shrinks [OF assms(3)] F(2) by simp
  next
    case (moved es j)
    let ?G = "(ds_fs s)\<lparr>fs_faults := es\<rparr>"
    have j: "j = i" using moved(2) assms(5) unfolding detached_def named_def by blast
    have sh: "shrinks (ds_fs s) ?G" by (auto simp: shrinks_def)
    have G: "files_sound L DL R ?G" "heap_sound R ?G (ds_heap s)"
      using shrinks_sound [OF sh] assms(3) unfolding dir_inv_def by blast+
    have dig: "dig_from_bytes L a b = Some d" "dig_algorithm L d = a"
      using assms(1,2,6) by (auto simp: writer_ok_def digest_ok_def)
    have bp: "blob_path R (blob_file L DL q d) a (dl_encoded DL d)"
      using assms(4) dig(2) by (auto simp: blob_path_def blob_file_def)
    have "files_sound L DL R (move p (blob_file L DL q d) i ?G)"
    proof (rule move_sound [OF G(1) _ assms(7)])
      show "blob_sound L DL g e (file_bytes ?G i)" if "blob_path R (blob_file L DL q d) g e" for g e
        using blob_path_unique [OF that] dig assms(5)
        by (auto simp: blob_file_def blob_sound_def detached_def)
      show "dl_dec_index DL (file_bytes ?G i) \<noteq> None" if "index_path R (blob_file L DL q d)"
        using index_path_blob [OF that] bp by blast
    qed (use moved(2) j in simp)
    moreover have "heap_sound R (move p (blob_file L DL q d) i ?G) (ds_heap s)"
    proof (rule heap_move [OF G(2)])
      show "unopened (ds_heap s) i" using assms(5) by (simp add: detached_def)
      show "du_filename du \<noteq> blob_file L DL q d" if "fmlookup (ds_heap s) u = Some du" for u du
        using upload_filename [OF assms(3) that] upload_path_blob [OF _ assms(4)] unfolding blob_file_def by metis
    qed
    ultimately show ?thesis
      using dir_inv_files [OF assms(3)] F(2) moved(3) j by (simp add: move_def)
  qed
qed

lemma dir_inv_close:
  assumes "writer_ok L" and "digest_ok L" and "dir_close L DL u s = (x, s')" and "dir_inv L DL R s"
  shows "dir_inv L DL R s'"
proof (cases "fmlookup (ds_heap s) u")
  case (Some du)
  have us: "upload_sound R (ds_fs s) du" using assms(4) Some heap_sound_upload unfolding dir_inv_def by blast
  then have q: "repo_dir R (du_path du)" by (simp add: upload_sound_def)
  obtain y up where "upload_path R (du_filename du) y" using upload_filename [OF assms(4) Some] by blast
  then have neq: "du_filename du \<noteq> blob_file L DL (du_path du) d" for d
    using upload_path_blob [OF _ q] by (simp add: blob_file_def)
  show ?thesis
  proof (cases "du_fh du")
    case None
    then show ?thesis
      using assms(3) dir_inv_close_fh [OF assms(4)] Some
      by (auto simp: dir_close_def Let_def dest: dir_inv_discard)
  next
    case (Some i)
    note hs = dir_inv_handle [OF assms(4) \<open>fmlookup (ds_heap s) u = Some du\<close> Some]
    obtain y1 s1 where c: "fs_do fh_close s = (y1, s1)" by fastforce
    obtain F where F: "fh_close (ds_fs s) = (y1, F)" "s1 = s\<lparr>ds_fs := F\<rparr>" using c by (rule fs_doE)
    have sh: "shrinks (ds_fs s) F" using F(1) by (rule shrinks_calls)
    define s2 where "s2 = upd_du u (\<lambda>m. m\<lparr>du_fh := None\<rparr>) s1"
    have s2: "dir_inv L DL R s2" unfolding s2_def by (rule dir_inv_close_fh) (rule dir_inv_calls(6) [OF c assms(4)])
    have "unopened (fmdrop u (ds_heap s)) i"
      using heap_sound_drop(2) [OF _ \<open>fmlookup (ds_heap s) u = Some du\<close> Some] assms(4) unfolding dir_inv_def by blast
    then have "unopened (ds_heap s2) i"
      using F(2) by (auto simp: unopened_def s2_def split: if_split_asm)
    then have det: "detached s2 (du_filename du) i (snd (du_w du))"
      using hs shrinks_named [OF sh] sh F(2) by (simp add: detached_def handle_sound_def s2_def shrinks_def)
    have run: "dir_close L DL u s =
        (if y1 \<noteq> OsOk () then discard_temp (du_filename du) (os_err y1) s2
         else (case wr_digest L (fst (du_w du)) (snd (du_w du)) of
             None \<Rightarrow> discard_temp (du_filename du) (ErrOther ''failed to compute the digest'') s2
           | Some d \<Rightarrow>
             if \<not> dig_is_zero (du_expect du) \<and> d \<noteq> du_expect du then
               discard_temp (du_filename du) (ErrOther ''digest mismatch'') s2
             else
               (case blob_directory (du_path du @ [blobs_dir, dig_algorithm L d]) s2 of
                  (Inl e, s3) \<Rightarrow> discard_temp (du_filename du) e s3
                | (Inr _, s3) \<Rightarrow>
                  (case fs_do (os_rename (du_filename du) (blob_file L DL (du_path du) d)) s3 of
                     (OsOk _, s4) \<Rightarrow> (Inr (), drop_upload du s4)
                   | (e, s4) \<Rightarrow> (Inl (os_err e), drop_upload du s4)))))"
      unfolding dir_close_def \<open>fmlookup (ds_heap s) u = Some du\<close> option.case Some c prod.case Let_def s2_def
      by (rule refl)
    have fin: "dir_inv L DL R s4"
      if "blob_directory p s2 = (z, s3)" "wr_digest L (fst (du_w du)) (snd (du_w du)) = Some d"
        "fs_do (os_rename (du_filename du) (blob_file L DL (du_path du) d)) s3 = (v, s4)" for p z s3 d v s4
      using dir_inv_store_blob [OF assms(1,2) _ q _ that(2) neq that(3)] blob_directory_keeps [OF that(1) s2] det by blast
    show ?thesis
      using assms(3) s2 unfolding run
      by (auto split: if_split_asm option.splits prod.splits sum.splits os_res.splits
          dest: dir_inv_discard blob_directory_keeps(1) intro: dir_inv_drop_upload fin)
  qed
qed (use assms in \<open>auto simp: dir_close_def\<close>)

end
