(* ===== verification/GC_Invariant.thy ===== *)
theory GC_Invariant
  imports GC
begin

text \<open>
  What every method a collection calls keeps, the whole collection keeps.  Unlike \<open>gc_repo\<close> the
  contract says nothing of the contents, so that it holds of methods that fail now and then.
\<close>

locale gc_invariant =
  fixes G :: "'s gc_ops" and P :: "'s \<Rightarrow> bool"
  assumes keep_get: "go_get G d s = (x, s') \<Longrightarrow> P s \<Longrightarrow> P s'"
    and keep_meta: "go_meta G d s = (m, s') \<Longrightarrow> P s \<Longrightarrow> P s'"
    and keep_list: "go_list G s = (l, s') \<Longrightarrow> P s \<Longrightarrow> P s'"
    and keep_delete: "go_delete G d s = (u, s') \<Longrightarrow> P s \<Longrightarrow> P s'"
begin

lemma keep_gc_keep: "gc_keep G g now d s = (b, s') \<Longrightarrow> P s \<Longrightarrow> P s'"
  by (auto simp: gc_keep_def split: if_splits prod.splits sum.splits dest: keep_meta)

lemma keep_build_step:
  assumes "gc_build_step L G g now d (gb, s) = (gb', s')" and "P s"
  shows "P s'"
proof -
  obtain b s1 where k: "gc_keep G g now d s = (b, s1)" by fastforce
  have s1: "P s1" using keep_gc_keep [OF k assms(2)] .
  obtain m s2 where m: "go_meta G (case dig_parse L (subject_of d) of Some x \<Rightarrow> x | None \<Rightarrow> []) s1 = (m, s2)" by fastforce
  have s2: "P s2" using keep_meta [OF m s1] .
  show ?thesis
    using assms(1) s1 s2 unfolding gc_build_step_def Let_def prod.case k m
    by (auto split: if_split_asm prod.splits sum.splits dest: keep_meta)
qed

lemma keep_build_all: "fold (gc_build_step L G g now) ds (gb, s) = (gb', s') \<Longrightarrow> P s \<Longrightarrow> P s'"
proof (induction ds arbitrary: gb s)
  case (Cons d ds)
  obtain gb1 s1 where st: "gc_build_step L G g now d (gb, s) = (gb1, s1)" by fastforce
  show ?case using Cons.IH [of gb1 s1] Cons.prems keep_build_step [OF st] st by simp
qed simp

lemma keep_visit: "gc_visit L G subjects d seen s = (push, seen1, s') \<Longrightarrow> P s \<Longrightarrow> P s'"
  by (auto simp: gc_visit_def Let_def split: if_splits prod.splits sum.splits option.splits dest: keep_get)

lemma keep_mark:
  "gc_mark L G' subjects stack seen inIndex s = Some y \<Longrightarrow> G' = G \<longrightarrow> P s \<longrightarrow> P (snd (snd y))"
proof (induct L G' subjects stack seen inIndex s y rule: gc_mark.raw_induct [rotated -1, consumes 1])
  case (1 mark L G' subjects stack seen inIndex s y)
  show ?case
  proof (intro impI)
    assume G: "G' = G" and s: "P s"
    show "P (snd (snd y))"
      using "1.hyps"(2) s unfolding G
      by (auto split: list.splits prod.splits dest: keep_visit dest!: "1.hyps"(1))
  qed
qed

lemma keep_sweep_step:
  assumes "gc_sweep_step L G g now rnow seen inIndex d (li, chg, s) = (li', chg', s')" and "P s"
  shows "P s'"
  using assms
  by (auto simp: gc_sweep_step_def split: if_split_asm prod.splits sum.splits dest: keep_meta keep_delete)

lemma keep_sweep:
  "fold (gc_sweep_step L G g now rnow seen inIndex) dl (li, chg, s) = (li', chg', s') \<Longrightarrow> P s \<Longrightarrow> P s'"
proof (induction dl arbitrary: li chg s)
  case (Cons d dl)
  obtain li1 chg1 s1 where st: "gc_sweep_step L G g now rnow seen inIndex d (li, chg, s) = (li1, chg1, s1)"
    using prod_cases3 by blast
  show ?case using Cons.IH [of li1 chg1 s1] Cons.prems keep_sweep_step [OF st] st by simp
qed simp

lemma keep_collect:
  assumes "repoGarbageCollect L G g now rnow li s = Some (x, s')" and "P s"
  shows "P s'"
proof -
  obtain gb s1 where b: "gc_build_all L G g now (i_manifests li) s = (gb, s1)" by fastforce
  have s1: "P s1" using b keep_build_all assms(2) unfolding gc_build_all_def by blast
  obtain y where m: "gc_mark L G (gb_subjects gb) (rev (gb_manifests gb)) {} (gb_inIndex gb) s1 = Some y"
    using assms(1) b by (cases "gc_mark L G (gb_subjects gb) (rev (gb_manifests gb)) {} (gb_inIndex gb) s1")
      (auto simp: repoGarbageCollect_def)
  obtain seen inIndex s2 where y: "y = (seen, inIndex, s2)" using prod_cases3 by blast
  have s2: "P s2" using keep_mark [OF m] s1 y by simp
  obtain l s3 where l: "go_list G s2 = (l, s3)" by fastforce
  have s3: "P s3" using keep_list [OF l s2] .
  show ?thesis
  proof (cases l)
    case (Inl e)
    then show ?thesis using assms(1) b m y l s3 by (simp add: repoGarbageCollect_def)
  next
    case (Inr dl)
    obtain li1 chg1 s4 where sw: "fold (gc_sweep_step L G g now rnow seen inIndex) dl (li, False, s3) = (li1, chg1, s4)"
      using prod_cases3 by blast
    have "P s4" using keep_sweep [OF sw s3] .
    then show ?thesis using assms(1) b m y l Inr sw by (auto simp: repoGarbageCollect_def split: prod.splits)
  qed
qed

end

end
