(* ===== verification/Dir_Server.thy ===== *)
theory Dir_Server
  imports Dir_Keeps GC_Invariant Router Mem_GC
begin

text \<open>
  The invariant of the directory store over whole runs: requests through the handlers, collections,
  prunings and the goroutines of the store, with any failures of the operating system.
\<close>

section \<open>The store keeps its invariant\<close>

definition libs_ok :: "lib \<Rightarrow> dir_lib \<Rightarrow> bool" where
  "libs_ok L DL \<longleftrightarrow> writer_ok L \<and> digest_ok L \<and> codec_ok DL"

definition dir_safe :: "lib \<Rightarrow> dir_lib \<Rightarrow> path \<Rightarrow> dir_store \<Rightarrow> bool" where
  "dir_safe L DL R s \<longleftrightarrow> (libs_ok L DL \<longrightarrow> dir_inv L DL R s)"

lemma dir_safe_step:
  assumes "\<And>x s'. libs_ok L DL \<Longrightarrow> f s = (x, s') \<Longrightarrow> dir_inv L DL R s \<Longrightarrow> dir_inv L DL R s'"
  shows "dir_safe L DL R s \<Longrightarrow> dir_safe L DL R (snd (f s))"
  using assms by (metis dir_safe_def prod.collapse)

lemma dir_safe_live:
  "(dir_safe L DL R s \<Longrightarrow> dir_safe L DL R (snd (f s))) \<Longrightarrow> dir_safe L DL R s \<Longrightarrow> dir_safe L DL R (snd (live x f s))"
  by (simp add: live_def)

lemma dir_safe_hang [simp]: "dir_safe L DL R (hang s) = dir_safe L DL R s"
  by (simp add: dir_safe_def)

lemma libs_okD: "libs_ok L DL \<Longrightarrow> writer_ok L" "libs_ok L DL \<Longrightarrow> digest_ok L" "libs_ok L DL \<Longrightarrow> codec_ok DL"
  by (simp_all add: libs_ok_def)

lemma dir_safe_methods:
  "dir_safe L DL R s \<Longrightarrow> dir_safe L DL R (snd (dir_blobGet L DL r d s))"
  "dir_safe L DL R s \<Longrightarrow> dir_safe L DL R (snd (dir_blobCreate L DL r opts s))"
  "dir_safe L DL R s \<Longrightarrow> dir_safe L DL R (snd (dir_blobDelete L DL r d s))"
  "dir_safe L DL R s \<Longrightarrow> dir_safe L DL R (snd (dir_blobSession r sid s))"
  "dir_safe L DL R s \<Longrightarrow> dir_safe L DL R (snd (dir_write u p s))"
  "dir_safe L DL R s \<Longrightarrow> dir_safe L DL R (snd (dir_close L DL u s))"
  "dir_safe L DL R s \<Longrightarrow> dir_safe L DL R (snd (dir_cancel u s))"
  "dir_safe L DL R s \<Longrightarrow> dir_safe L DL R (snd (dir_verify L u d s))"
  "dir_safe L DL R s \<Longrightarrow> dir_safe L DL R (snd (dir_changeAlgorithm u a s))"
  by (rule dir_safe_step; blast intro: dir_inv_blobGet dir_inv_blobCreate dir_inv_blobDelete dir_inv_blobSession
      dir_inv_write dir_inv_close dir_inv_cancel dir_inv_verify dir_inv_changeAlgorithm libs_okD)+

interpretation dir_ingest: store_invariant "dir_ingest_ops L DL" "dir_safe L DL R" for L DL R
  by unfold_locales (auto simp: dir_ingest_ops_def intro!: dir_safe_live dir_safe_methods)

lemma dir_inv_indexIngest:
  assumes "libs_ok L DL" and "indexIngest L (dir_ingest_ops L DL) conf r now li s = Some (e, li', chg, s')"
    and "dir_inv L DL R s"
  shows "dir_inv L DL R s'"
  using dir_ingest.keep_indexIngest [OF assms(2), of R] assms(1,3) by (simp add: dir_safe_def)

lemma dir_inv_set_index: "dir_inv L DL R s \<Longrightarrow> dir_inv L DL R (upd_dr r (\<lambda>m. m\<lparr>dr_index := f m\<rparr>) s)"
  by (rule dir_inv_upd_dr) simp_all

lemma dir_inv_ingest_file:
  assumes "libs_ok L DL" and "ingest_file L DL r li s = (x, s')" and "dir_inv L DL R s"
  shows "dir_inv L DL R s'"
proof -
  have save: "dir_inv L DL R s2" if "live y (dir_indexSave DL r) s1 = (x, s2)" "dir_inv L DL R s1" for y x s1 s2
    using dir_inv_live [OF that] dir_inv_indexSave [OF libs_okD(3) [OF assms(1)] that(2)] by blast
  show ?thesis
    using assms(2,3) unfolding ingest_file_def Let_def
    by (auto split: option.splits prod.splits if_splits dest!: dir_inv_indexIngest [OF assms(1), where R = R]
        intro: dir_inv_set_index save)
qed

lemma dir_inv_decode_index:
  assumes "libs_ok L DL" and "decode_index L DL r n t s = (x, s')" and "dir_inv L DL R s"
  shows "dir_inv L DL R s'"
proof -
  have "dir_inv L DL R (upd_dr r (\<lambda>m. m\<lparr>dr_index := li, dr_timeMod := t, dr_exists := True\<rparr>) s)" for li
    by (rule dir_inv_upd_dr [OF assms(3)]) simp
  then show ?thesis
    using assms(2,3) dir_inv_ingest_file [OF assms(1)]
    by (auto simp: decode_index_def Let_def split: sum.splits option.splits)
qed

lemma dir_inv_indexLoad:
  assumes "libs_ok L DL" and "dir_indexLoad L DL r force s = (x, s')" and "dir_inv L DL R s"
  shows "dir_inv L DL R s'"
proof (cases "fmlookup (ds_repos s) r")
  case (Some dr)
  define s0 where "s0 = (if i_mediaType (dr_index dr) = [] \<and> i_manifests (dr_index dr) = []
                    then upd_dr r (\<lambda>m. m\<lparr>dr_index := default_index (ds_conf s)\<rparr>) s else s)"
  have s0: "dir_inv L DL R s0" using assms(3) dir_inv_set_index by (simp add: s0_def)
  have chk: "dir_inv L DL R (upd_dr r (\<lambda>m. m\<lparr>dr_timeCheck := t\<rparr>) s1)" if "dir_inv L DL R s1" for t s1
    by (rule dir_inv_upd_dr [OF that]) simp
  show ?thesis
    using assms(2,3) s0
    unfolding dir_indexLoad_def Some option.case Let_def s0_def [symmetric]
    by (auto split: if_split_asm prod.splits os_res.splits intro: chk dest: dir_inv_calls dir_inv_decode_index [OF assms(1) _ chk])
qed (use assms in \<open>auto simp: dir_indexLoad_def\<close>)

lemma dir_inv_indexGet:
  assumes "libs_ok L DL" and "dir_indexGet L DL r s = (x, s')" and "dir_inv L DL R s"
  shows "dir_inv L DL R s'"
  using assms(2,3) unfolding dir_indexGet_def
  by (rule dir_inv_with_mu) (auto split: prod.splits sum.splits dest: dir_inv_indexLoad [OF assms(1)])

lemma dir_inv_change_index:
  assumes "libs_ok L DL" and "change_index L DL r f s = (x, s')" and "dir_inv L DL R s"
  shows "dir_inv L DL R s'"
  using assms(2,3) unfolding change_index_def
proof (rule dir_inv_with_mu)
  fix s1 :: dir_store and y s2
  assume run: "(case dir_indexLoad L DL r False s1 of (_, s1) \<Rightarrow> live (Inl err_hung)
      (\<lambda>s1. dir_indexSave DL r (upd_dr r (\<lambda>m. m\<lparr>dr_index := f (dr_index m)\<rparr>) s1)) s1) = (y, s2)"
    and s1: "dir_inv L DL R s1"
  obtain z s3 where ld: "dir_indexLoad L DL r False s1 = (z, s3)" by fastforce
  have s3: "dir_inv L DL R s3" using dir_inv_indexLoad [OF assms(1) ld s1] .
  show "dir_inv L DL R s2"
    by (rule dir_inv_live [OF _ s3]) (use run ld dir_inv_indexSave [OF libs_okD(3) [OF assms(1)] dir_inv_set_index [OF s3]] in auto)
qed

lemma dir_inv_indexInsert:
  assumes "libs_ok L DL" and "dir_indexInsert L DL r d cs s = (x, s')" and "dir_inv L DL R s"
  shows "dir_inv L DL R s'"
  using assms(2,3) by (auto simp: dir_indexInsert_def split: if_split_asm dest: dir_inv_change_index [OF assms(1)])

lemma dir_inv_indexRemove:
  assumes "libs_ok L DL" and "dir_indexRemove L DL r d s = (x, s')" and "dir_inv L DL R s"
  shows "dir_inv L DL R s'"
  using assms(2,3) by (auto simp: dir_indexRemove_def split: if_split_asm dest: dir_inv_change_index [OF assms(1)])

section \<open>Opening a repository stays below the root\<close>

lemma split_char_app: "split_char c (x @ c # y) = split_char c x @ split_char c y"
  by (induction x) (auto split: list.split)

lemma clean_segs_app: "clean_segs acc (xs @ ys) = clean_segs (rev (clean_segs acc xs)) ys"
  by (induction acc xs rule: clean_segs.induct) auto

lemma clean_segs_local: "local_segs (length a) ss \<Longrightarrow> clean_segs (a @ b) ss = rev b @ clean_segs a ss"
proof (induction "length a" ss arbitrary: a rule: local_segs.induct)
  case (2 s ss)
  consider "s = [] \<or> s = ''.''" | "s = ''..''" | "s \<noteq> [] \<and> s \<noteq> ''.'' \<and> s \<noteq> ''..''" by blast
  then show ?case
  proof cases
    case 1
    then show ?thesis using 2 by simp
  next
    case 2
    then obtain x a' where a: "a = x # a'" using "2.prems" by (cases a) auto
    then show ?thesis using "2.hyps"(2) [of a'] "2.prems" \<open>s = ''..''\<close> by simp
  next
    case 3
    then show ?thesis using "2.hyps"(3) [of "s # a"] "2.prems" by simp
  qed
qed simp

lemma set_clean_segs: "set (clean_segs acc ss) \<subseteq> set acc \<union> set ss"
proof (induction acc ss rule: clean_segs.induct)
  case (2 acc s ss)
  then show ?case by (cases acc) auto
qed simp

lemma repo_path_dir:
  assumes "isLocal r" and "\<not> stringsHasAny (split_char CHR ''/'' r) [index_file, layout_file, blobs_dir]"
  shows "repo_dir (file_path root) (repo_path root r)"
proof -
  let ?ss = "split_char CHR ''/'' r"
  have "repo_path root r = clean_segs ([] @ rev (file_path root)) ?ss"
    by (simp add: repo_path_def file_path_def split_char_app clean_segs_app)
  also have "\<dots> = file_path root @ clean_segs [] ?ss"
    using clean_segs_local [of "[]" ?ss "rev (file_path root)"] assms(1) by (simp add: isLocal_def)
  finally have "repo_path root r = file_path root @ clean_segs [] ?ss" .
  moreover have "set (clean_segs [] ?ss) \<inter> reserved = {}"
    using set_clean_segs [of "[]" ?ss] assms(2) by (auto simp: stringsHasAny_def reserved_def)
  ultimately show ?thesis by (auto simp: repo_dir_def)
qed

lemma dir_inv_layout_exists:
  "layout_exists L' p s = (b, s') \<Longrightarrow> dir_inv L DL R s \<Longrightarrow> dir_inv L DL R s'"
  by (auto simp: layout_exists_def split: prod.splits os_res.splits bool.splits dest: dir_inv_calls)

lemma dir_inv_open_repo:
  assumes "open_repo L' r s = (x, s')" and "dir_inv L DL R s" and "isLocal r"
    and "\<not> stringsHasAny (split_char CHR ''/'' r) [index_file, layout_file, blobs_dir]"
  shows "dir_inv L DL R s'"
proof -
  let ?dr = "new_dir_repo (ds_conf s) r"
  let ?s1 = "s\<lparr>ds_cache := fst (cache_set (ds_now s) r r (ds_cache s)), ds_repos := fmupd r ?dr (ds_repos s)\<rparr>"
  have "dr_path ?dr = repo_path (cs_rootDir (c_storage (ds_conf s))) r" by (simp add: new_dir_repo_def Let_def)
  then have "repo_dir R (dr_path ?dr)"
    using repo_path_dir [OF assms(3,4)] assms(2) unfolding dir_inv_def by metis
  then have s1: "dir_inv L DL R ?s1" using assms(2) by (auto simp: dir_inv_def)
  obtain b s2 where ex: "layout_exists L' (dr_path ?dr) ?s1 = (b, s2)" by fastforce
  have "dir_inv L DL R (upd_dr r (\<lambda>m. m\<lparr>dr_exists := b, dr_wg := dr_wg m + 1\<rparr>) s2)"
    by (rule dir_inv_upd_dr [OF dir_inv_layout_exists [OF ex s1]]) simp
  then show ?thesis using assms(1) ex by (simp add: open_repo_def Let_def)
qed

lemma dir_inv_repoGet:
  assumes "dir_repoGet L' r s = (x, s')" and "dir_inv L DL R s"
  shows "dir_inv L DL R s'"
proof -
  have wg: "dir_inv L DL R (upd_dr r (\<lambda>m. m\<lparr>dr_wg := dr_wg m + 1\<rparr>) (s\<lparr>ds_cache := c\<rparr>))" for c
    by (rule dir_inv_upd_dr) (simp_all add: assms(2))
  then show ?thesis
    using assms
    by (auto simp: dir_repoGet_def Let_def split: if_split_asm prod.splits sum.splits option.splits
        dest: dir_inv_open_repo)
qed

lemma dir_inv_done: "dir_inv L DL R s \<Longrightarrow> dir_inv L DL R (dir_done r s)"
  unfolding dir_done_def by (rule dir_inv_upd_dr) simp_all

lemma dir_ops_simps [simp]:
  "so_repoGet (dir_ops L DL) r = live (Inl err_hung) (dir_repoGet L r)"
  "so_done (dir_ops L DL) r s = (if ds_hung s then s else dir_done r s)"
  "so_indexGet (dir_ops L DL) r = live (Inl err_hung) (dir_indexGet L DL r)"
  "so_indexInsert (dir_ops L DL) r d cs = live (Inl err_hung) (dir_indexInsert L DL r d cs)"
  "so_indexRemove (dir_ops L DL) r d = live (Inl err_hung) (dir_indexRemove L DL r d)"
  "so_blobGet (dir_ops L DL) r dig = live (Inl err_hung) (dir_blobGet L DL r dig)"
  "so_blobCreate (dir_ops L DL) r opts = live (Inl err_hung) (dir_blobCreate L DL r opts)"
  "so_blobDelete (dir_ops L DL) r dig = live (Inl err_hung) (dir_blobDelete L DL r dig)"
  "so_blobSession (dir_ops L DL) r sid = live (Inl err_hung) (dir_blobSession r sid)"
  "so_write (dir_ops L DL) u p = live (Inl err_hung) (dir_write u p)"
  "so_close (dir_ops L DL) u = live (Inl err_hung) (dir_close L DL u)"
  "so_cancel (dir_ops L DL) u = live (Inl err_hung) (dir_cancel u)"
  "so_size (dir_ops L DL) = dir_size" "so_digest (dir_ops L DL) = dir_digest L"
  "so_verify (dir_ops L DL) u dig = live (Inl err_hung) (dir_verify L u dig)"
  "so_changeAlgorithm (dir_ops L DL) u a = live (Inl err_hung) (dir_changeAlgorithm u a)"
  by (simp_all add: dir_ops_def dir_ingest_ops_def)

lemma dir_safe_index:
  "dir_safe L DL R s \<Longrightarrow> dir_safe L DL R (snd (dir_repoGet L r s))"
  "dir_safe L DL R s \<Longrightarrow> dir_safe L DL R (snd (dir_indexGet L DL r s))"
  "dir_safe L DL R s \<Longrightarrow> dir_safe L DL R (snd (dir_indexInsert L DL r d cs s))"
  "dir_safe L DL R s \<Longrightarrow> dir_safe L DL R (snd (dir_indexRemove L DL r d s))"
  by (rule dir_safe_step; blast intro: dir_inv_repoGet dir_inv_indexGet dir_inv_indexInsert dir_inv_indexRemove)+

lemma dir_safe_done: "dir_safe L DL R s \<Longrightarrow> dir_safe L DL R (dir_done r s)"
  by (simp add: dir_safe_def dir_inv_done)

interpretation dir_safe: store_invariant "dir_ops L DL" "dir_safe L DL R" for L DL R
  by unfold_locales
    (auto intro!: dir_safe_live dir_safe_methods dir_safe_index dir_safe_done)

section \<open>Collections and prunings\<close>

interpretation dir_gc_inv: gc_invariant "dir_gc_ops L' DL' r" "dir_inv L DL R" for L' DL' r L DL R
  by unfold_locales
    (simp_all add: dir_gc_ops_def dir_inv_blobGet dir_inv_blobMeta dir_inv_blobList dir_inv_blobDelete)

lemma dir_inv_remove_quiet: "dir_inv L DL R s \<Longrightarrow> dir_inv L DL R (remove_quiet p s)"
  by (cases "fs_do (os_remove p) s") (simp add: remove_quiet_def dir_inv_calls)

lemma dir_inv_gc_upload_dir: "dir_inv L DL R s \<Longrightarrow> dir_inv L DL R (gc_upload_dir p s)"
  by (auto simp: gc_upload_dir_def split: prod.split os_res.split bool.split intro!: dir_inv_remove_quiet dest: dir_inv_calls)

lemma dir_inv_remove_all: "remove_all ps s = (b, s') \<Longrightarrow> dir_inv L DL R s \<Longrightarrow> dir_inv L DL R s'"
  by (induction ps arbitrary: b s) (auto split: prod.splits dest: dir_inv_calls)

lemma dir_inv_prune_empty: "dir_inv L DL R s \<Longrightarrow> dir_inv L DL R (prune_empty r s)"
  by (auto simp: prune_empty_def split: option.split prod.split intro!: dir_inv_upd_dr dest: dir_inv_remove_all)

lemma dir_inv_collect:
  assumes "libs_ok L DL" and "dir_collect L DL r s = (x, s')" and "dir_inv L DL R s"
  shows "dir_inv L DL R s'"
proof -
  have blobs: "dir_inv L DL R s2" if "collect_blobs L DL r s1 = (y, s2)" "dir_inv L DL R s1" for s1 y s2
  proof -
    obtain g where g: "repoGarbageCollect L (dir_gc_ops L DL r) (ds_gc s1) (ds_now s1) (ds_rnow s1) (the_index r s1) s1 = g"
      by simp
    show ?thesis
    proof (cases g)
      case None
      then show ?thesis using that g by (auto simp: collect_blobs_def)
    next
      case (Some v)
      obtain z s3 where v: "v = (z, s3)" by fastforce
      have s3: "dir_inv L DL R s3" using dir_gc_inv.keep_collect [OF _ that(2)] g Some v by blast
      show ?thesis
        using that(1) g Some v s3 dir_inv_indexSave [OF libs_okD(3) [OF assms(1)] dir_inv_set_index [OF s3]]
        by (auto simp: collect_blobs_def split: sum.splits prod.splits if_split_asm)
    qed
  qed
  have live: "dir_inv L DL R s2" if "live e (collect_blobs L DL r) s1 = (y, s2)" "dir_inv L DL R s1" for e s1 y s2
    using dir_inv_live [OF that] blobs that(2) by blast
  show ?thesis
    using assms(2,3)
    by (auto simp: dir_collect_def split: prod.splits sum.splits dest: dir_inv_indexLoad [OF assms(1)] live)
qed

lemma dir_inv_repo_gc:
  assumes "libs_ok L DL" and "dir_repo_gc L DL r s = (x, s')" and "dir_inv L DL R s"
  shows "dir_inv L DL R s'"
proof -
  obtain y s1 where m: "with_mu r (Inl err_hung) (repo_gc_locked L DL r) s = (y, s1)" by fastforce
  have "dir_inv L DL R s1"
    by (rule dir_inv_with_mu [OF m assms(3)])
      (auto simp: repo_gc_locked_def Let_def split: option.splits prod.splits if_split_asm
        intro: dir_inv_prune_empty dest: dir_inv_gc_upload_dir dir_inv_collect [OF assms(1)])
  then show ?thesis using assms(2) m by (auto simp: dir_repo_gc_def intro!: dir_inv_upd_dr split: if_split_asm)
qed

lemma dir_inv_gc_loop:
  assumes "libs_ok L DL"
  shows "dir_gc_loop L DL start rs s = (x, s') \<Longrightarrow> dir_inv L DL R s \<Longrightarrow> dir_inv L DL R s'"
proof (induction rs arbitrary: s)
  case (Cons r rs)
  show ?case
    using Cons.prems Cons.IH dir_inv_repo_gc [OF assms]
    by (auto simp: Let_def split: if_split_asm prod.splits sum.splits option.splits)
qed simp

lemma dir_inv_gc: "libs_ok L DL \<Longrightarrow> dir_gc L DL prev s = (x, s') \<Longrightarrow> dir_inv L DL R s \<Longrightarrow> dir_inv L DL R s'"
  unfolding dir_gc_def Let_def by (rule dir_inv_gc_loop)

lemma dir_inv_forget: "dir_inv L DL R s \<Longrightarrow> dir_inv L DL R (forget_repos s)"
  by (auto simp: dir_inv_def forget_repos_def)

lemma repo_hooks_keep:
  assumes "libs_ok L DL"
  shows "hooks_keep (repo_hooks L DL) (dir_inv L DL R)"
  unfolding hooks_keep_def repo_hooks_def prune_repo_def
  using dir_inv_repo_gc [OF assms] by (auto split: option.split prod.split sum.split)

lemma dir_inv_prune_repos:
  assumes "libs_ok L DL" and "dir_inv L DL R s"
  shows "dir_inv L DL R (dir_prune_repos L DL ks s)"
proof -
  obtain c s1 where p: "cache_pruneAge (repo_hooks L DL) (ds_now s) ks (ds_cache s) s = (c, s1)" by fastforce
  have "dir_inv L DL R s1"
    using hooks_prune(1) [OF repo_hooks_keep [OF assms(1)] assms(2), of "ds_now s" ks "ds_cache s"] p by simp
  then show ?thesis using p by (simp add: dir_prune_repos_def dir_inv_forget)
qed

lemma dir_inv_prune_uploads:
  assumes "dir_inv L DL R s"
  shows "dir_inv L DL R (dir_prune_uploads r ks by_age s)"
proof (cases "fmlookup (ds_repos s) r")
  case (Some dr)
  obtain c s1 where p: "(if by_age then cache_pruneAge else cache_pruneCount) upload_hooks (ds_now s) ks (dr_uploads dr) s = (c, s1)"
    by fastforce
  have "dir_inv L DL R s1"
    using hooks_prune [OF upload_hooks_keep assms, of "ds_now s" ks "dr_uploads dr"] p by (auto split: if_split_asm)
  then have "dir_inv L DL R (upd_dr r (\<lambda>m. m\<lparr>dr_uploads := c\<rparr>) s1)" by (rule dir_inv_upd_dr) simp
  then show ?thesis using p Some by (simp add: dir_prune_uploads_def)
qed (use assms in \<open>simp add: dir_prune_uploads_def\<close>)

lemma dir_inv_touch: "dir_inv L DL R s \<Longrightarrow> dir_inv L DL R (dir_touch s)"
  by (auto simp: dir_touch_def split: list.split intro!: dir_inv_upd_dr)

lemma dir_inv_close_uploads:
  assumes "dir_inv L DL R s" and "cache_deleteAll upload_hooks ks c s = (e, c', s')"
  shows "dir_inv L DL R (upd_dr r (\<lambda>m. m\<lparr>dr_uploads := c'\<rparr>) s')"
proof (rule dir_inv_upd_dr)
  show "dir_inv L DL R s'"
    using hooks_deleteAll [OF upload_hooks_keep assms(1), of ks c "[]"] assms(2)
    by (auto simp: cache_deleteAll_def split: prod.splits)
qed simp

lemma dir_inv_close_repo:
  assumes "libs_ok L DL" and "dir_inv L DL R s"
  shows "dir_inv L DL R (snd (close_dir_repo L DL r (errs, s)))"
proof (cases "\<exists>u c dr. cache_get (ds_now s) r (ds_cache s) = (Inr u, c) \<and> fmlookup (ds_repos s) r = Some dr")
  case True
  then obtain u c dr where get: "cache_get (ds_now s) r (ds_cache s) = (Inr u, c)" "fmlookup (ds_repos s) r = Some dr"
    by blast
  define s2 where "s2 = (if ds_readOnly s then s\<lparr>ds_cache := c\<rparr>
     else case cache_deleteAll upload_hooks (map_order L (sorted_list_of_fset (fmdom (ca_entries (dr_uploads dr)))))
         (dr_uploads dr) (s\<lparr>ds_cache := c\<rparr>) of
       (_, u, s') \<Rightarrow> upd_dr r (\<lambda>m. m\<lparr>dr_uploads := u\<rparr>) s')"
  have s2: "dir_inv L DL R s2"
    unfolding s2_def using dir_inv_close_uploads [of L DL R "s\<lparr>ds_cache := c\<rparr>"] assms(2) by (auto split: prod.split)
  obtain x c' s3 where del: "cache_delete (repo_hooks L DL) r (ds_cache s2) s2 = (x, c', s3)" by (metis prod_cases3)
  have s3: "dir_inv L DL R s3" by (rule hooks_delete [OF repo_hooks_keep [OF assms(1)] s2 del])
  then have "dir_inv L DL R (s3\<lparr>ds_cache := c'\<rparr>)" by simp
  then show ?thesis
    using get del unfolding close_dir_repo_def by (auto simp: s2_def [symmetric] Let_def dir_inv_forget split: option.split)
next
  case False
  then have "close_dir_repo L DL r (errs, s) = (errs @ [ErrNotFound], s)"
    unfolding close_dir_repo_def by (auto split: sum.split option.split prod.split)
  then show ?thesis using assms(2) by simp
qed

lemma dir_inv_storeClose:
  assumes "libs_ok L DL" and "dir_inv L DL R s"
  shows "dir_inv L DL R (snd (dir_storeClose L DL s))"
proof -
  have "dir_inv L DL R (snd (fold (close_dir_repo L DL) rs (es, t)))" if "dir_inv L DL R t" for rs es t
    using that
  proof (induction rs arbitrary: es t)
    case (Cons r rs)
    obtain es' t' where c: "close_dir_repo L DL r (es, t) = (es', t')" by fastforce
    show ?case using Cons.IH [of t' es'] dir_inv_close_repo [OF assms(1) Cons.prems, of r es] by (simp add: c)
  qed simp
  then show ?thesis unfolding dir_storeClose_def using assms(2) by simp
qed

end
