(* ===== verification/Dir_Run.thy ===== *)
theory Dir_Run
  imports Dir_Server Mem_Invariant
begin

text \<open>
  Runs of a server with a directory store: requests, collections, prunings and the goroutines of the
  store, failures of the operating system, and processes that are killed or closed and start again on
  the files they left.
\<close>

section \<open>Runs\<close>

text \<open>
  A process that is killed makes no more calls: \<open>DirFaults\<close> with an error for every call to come, and
  then \<open>DirRestart\<close>, which is the kill or, with its flag, a \<open>Close\<close> and a new start.
\<close>

datatype dir_event =
    DirFaults "string option list"
  | DirRequest auth_file "string option" time request
  | DirCollect time time
  | DirPruneRepos time "string list"
  | DirPruneUploads time string "string list" bool
  | DirTouch time
  | DirRestart bool time time "string list" "string option list"

definition new_dir_server ::
    "config \<Rightarrow> auth_setup \<Rightarrow> time \<Rightarrow> time \<Rightarrow> string list \<Rightarrow> fsys \<Rightarrow> dir_store server" where
  "new_dir_server conf auth procTime now rand F =
     new_server conf auth (\<lambda>conf. case cs_storeType (c_storage conf) of
       StoreDir \<Rightarrow> Some (newDir conf procTime now rand F) | _ \<Rightarrow> None)"

text \<open>A change of the store of a server; every call after one that hangs is a call of its own.\<close>

definition on_store :: "time \<Rightarrow> (dir_store \<Rightarrow> dir_store) \<Rightarrow> dir_store server \<Rightarrow> dir_store server" where
  "on_store now f sv = sv\<lparr>sv_store := map_option (\<lambda>s. f (s\<lparr>ds_now := now, ds_hung := False\<rparr>)) (sv_store sv)\<rparr>"

definition restart ::
    "lib \<Rightarrow> dir_lib \<Rightarrow> config \<Rightarrow> auth_setup \<Rightarrow> bool \<Rightarrow> time \<Rightarrow> time \<Rightarrow> string list \<Rightarrow> string option list \<Rightarrow>
     dir_store server \<Rightarrow> dir_store server" where
  "restart L DL conf auth closed procTime now rand faults sv =
     (case sv_store (if closed then on_store now (snd \<circ> dir_storeClose L DL) sv else sv) of
        None \<Rightarrow> sv
      | Some s \<Rightarrow> new_dir_server conf auth procTime now rand ((ds_fs s)\<lparr>fs_faults := faults\<rparr>))"

text \<open>\<open>None\<close>: a panic.\<close>

fun dir_step ::
    "lib \<Rightarrow> dir_lib \<Rightarrow> auth_lib \<Rightarrow> config \<Rightarrow> auth_setup \<Rightarrow> dir_event \<Rightarrow> dir_store server \<Rightarrow>
     dir_store server option" where
  "dir_step L DL A conf auth (DirFaults es) sv =
     Some (sv\<lparr>sv_store := map_option (\<lambda>s. s\<lparr>ds_fs := (ds_fs s)\<lparr>fs_faults := es\<rparr>\<rparr>) (sv_store sv)\<rparr>)"
| "dir_step L DL A conf auth (DirRequest f rand now r) sv =
     map_option fst (serveHTTP L (dir_ops L DL) A f rand now r (on_store now id sv) new_rw)"
| "dir_step L DL A conf auth (DirCollect now prev) sv = Some (on_store now (\<lambda>s. snd (dir_gc L DL prev s)) sv)"
| "dir_step L DL A conf auth (DirPruneRepos now ks) sv = Some (on_store now (dir_prune_repos L DL ks) sv)"
| "dir_step L DL A conf auth (DirPruneUploads now r ks by_age) sv =
     Some (on_store now (dir_prune_uploads r ks by_age) sv)"
| "dir_step L DL A conf auth (DirTouch now) sv = Some (on_store now dir_touch sv)"
| "dir_step L DL A conf auth (DirRestart closed procTime now rand faults) sv =
     Some (restart L DL conf auth closed procTime now rand faults sv)"

fun dir_run ::
    "lib \<Rightarrow> dir_lib \<Rightarrow> auth_lib \<Rightarrow> config \<Rightarrow> auth_setup \<Rightarrow> dir_event list \<Rightarrow> dir_store server \<Rightarrow>
     dir_store server option" where
  "dir_run L DL A conf auth [] sv = Some sv"
| "dir_run L DL A conf auth (e # es) sv =
     (case dir_step L DL A conf auth e sv of None \<Rightarrow> None | Some sv' \<Rightarrow> dir_run L DL A conf auth es sv')"

section \<open>What every run keeps\<close>

definition dir_server_inv :: "lib \<Rightarrow> dir_lib \<Rightarrow> path \<Rightarrow> dir_store server \<Rightarrow> bool" where
  "dir_server_inv L DL R sv \<longleftrightarrow> (\<forall>s. sv_store sv = Some s \<longrightarrow> dir_inv L DL R s)"

abbreviation root_of :: "config \<Rightarrow> path" where
  "root_of conf \<equiv> file_path (cs_rootDir (c_storage (setDefaults conf)))"

lemma on_store_inv:
  assumes "dir_server_inv L DL R sv" and "\<And>s. dir_inv L DL R s \<Longrightarrow> dir_inv L DL R (f s)"
  shows "dir_server_inv L DL R (on_store now f sv)"
  using assms by (auto simp: dir_server_inv_def on_store_def)

lemma faults_shrink: "shrinks F (F\<lparr>fs_faults := es\<rparr>)"
  by (simp add: shrinks_def)

lemma new_dir_inv:
  assumes "files_sound L DL (root_of conf) F"
  shows "dir_server_inv L DL (root_of conf) (new_dir_server conf auth p now rand F)"
  using assms
  by (auto simp: dir_server_inv_def new_dir_server_def new_server_def newDir_def dir_inv_def heap_sound_def Let_def
      split: store_type.splits)

lemma restart_inv:
  assumes "libs_ok L DL" and "dir_server_inv L DL (root_of conf) sv"
  shows "dir_server_inv L DL (root_of conf) (restart L DL conf auth closed p now rand faults sv)"
proof -
  let ?sv = "if closed then on_store now (snd \<circ> dir_storeClose L DL) sv else sv"
  have inv: "dir_server_inv L DL (root_of conf) ?sv"
    using assms on_store_inv dir_inv_storeClose [OF assms(1)] by simp
  have "files_sound L DL (root_of conf) ((ds_fs s)\<lparr>fs_faults := faults\<rparr>)" if "sv_store ?sv = Some s" for s
    using inv that shrinks_sound(1) [OF faults_shrink] unfolding dir_server_inv_def dir_inv_def by blast
  then show ?thesis
    unfolding restart_def using assms(2) new_dir_inv by (auto split: option.split)
qed

lemma dir_step_inv:
  assumes "libs_ok L DL" and "dir_server_inv L DL (root_of conf) sv" and "dir_step L DL A conf auth e sv = Some sv'"
  shows "dir_server_inv L DL (root_of conf) sv'"
proof (cases e)
  case (DirFaults es)
  have "dir_inv L DL R (s\<lparr>ds_fs := (ds_fs s)\<lparr>fs_faults := es\<rparr>\<rparr>)" if "dir_inv L DL R s" for R s
    using dir_inv_shrinks [OF that faults_shrink] .
  then show ?thesis using assms(2,3) DirFaults by (auto simp: dir_server_inv_def)
next
  case (DirRequest f rand now r)
  then obtain w where run: "serveHTTP L (dir_ops L DL) A f rand now r (on_store now id sv) new_rw = Some (sv', w)"
    using assms(3) by auto
  have inv: "dir_server_inv L DL (root_of conf) (on_store now id sv)" using on_store_inv [OF assms(2)] by simp
  show ?thesis
  proof (cases "sv_store (on_store now id sv)")
    case None
    then show ?thesis using run by (simp add: serveHTTP_def dir_server_inv_def)
  next
    case (Some s)
    then have "dir_safe L DL (root_of conf) s" using inv by (simp add: dir_server_inv_def dir_safe_def)
    from dir_safe.keep_serveHTTP [OF Some this run] show ?thesis
      using assms(1) by (auto simp: dir_server_inv_def dir_safe_def)
  qed
next
  case (DirCollect now prev)
  have "dir_inv L DL R (snd (dir_gc L DL prev s))" if "dir_inv L DL R s" for R s
    using dir_inv_gc [OF assms(1) _ that] by (metis prod.collapse)
  then show ?thesis using on_store_inv [OF assms(2)] assms(3) DirCollect by auto
qed (use assms on_store_inv [OF assms(2)] dir_inv_prune_repos [OF assms(1)] dir_inv_prune_uploads dir_inv_touch
    restart_inv [OF assms(1,2)] in auto)

lemma dir_run_inv:
  assumes "libs_ok L DL"
  shows "dir_server_inv L DL (root_of conf) sv \<Longrightarrow> dir_run L DL A conf auth es sv = Some sv' \<Longrightarrow>
    dir_server_inv L DL (root_of conf) sv'"
  by (induction es arbitrary: sv) (auto split: option.splits dest: dir_step_inv [OF assms])

text \<open>
  C3: A directory store never corrupts what it keeps.  Whatever a server on it runs, with calls of the
  operating system failing and the process killed between any two calls and started again: every
  file under the name of a blob hashes to that name, and every \<open>index.json\<close> is a complete index.  Any
  call may fail, a failing write leaving its file as it was, except for the second reading of an upload
  in \<open>Verify\<close> (\<open>fs_reads\<close> is empty in \<open>files_sound\<close>): when that one is cut short, a later \<open>Close\<close> stores the
  file under the hash of a part of it.
\<close>

theorem dir_server_integrity:
  assumes "writer_ok L" and "digest_ok L" and "codec_ok DL" and "files_sound L DL (root_of conf) F"
    and "dir_run L DL A conf auth es (new_dir_server conf auth procTime now rand F) = Some sv"
    and "sv_store sv = Some s" and "file_at (ds_fs s) p i"
  shows "(blob_path (root_of conf) p a e \<longrightarrow>
           (\<exists>d. dig_from_bytes L a (file_bytes (ds_fs s) i) = Some d \<and> dl_encoded DL d = e)) \<and>
         (index_path (root_of conf) p \<longrightarrow> dl_dec_index DL (file_bytes (ds_fs s) i) \<noteq> None)"
proof -
  have "dir_inv L DL (root_of conf) s"
    using dir_run_inv [OF _ new_dir_inv [OF assms(4)] assms(5)] assms(1-3,6) by (auto simp: dir_server_inv_def libs_ok_def)
  then show ?thesis
    using assms(7) unfolding dir_inv_def files_sound_def blob_sound_def by blast
qed

section \<open>A run\<close>

text \<open>
  A codec that writes every index as the same bytes, a server on an empty root \<open>/d\<close>, and the push of
  the blob \<open>x\<close> to it.
\<close>

definition demo_dir_lib :: dir_lib where
  "demo_dir_lib = \<lparr>dl_encoded = drop 7, dl_dec_index = (\<lambda>b. if b = ''I'' then Some (empty_layout fmempty) else None),
     dl_enc_index = (\<lambda>li. Some ''I''), dl_enc_layout = (\<lambda>v. Some ''L'')\<rparr>"

definition dir_conf :: config where
  "dir_conf = demo_conf\<lparr>c_storage := (c_storage demo_conf)\<lparr>cs_storeType := StoreDir, cs_rootDir := ''/d''\<rparr>\<rparr>"

definition empty_files :: fsys where
  "empty_files = \<lparr>fs_tree = fmempty, fs_data = fmempty, fs_next = 0, fs_rand = [''1'', ''2''], fs_faults = [], fs_reads = []\<rparr>"

lemma empty_files_sound: "files_sound L DL R empty_files"
  by (simp add: files_sound_def fs_wf_def empty_files_def)

lemma dir_conf_simps [simp]:
  "c_api dir_conf = c_api demo_conf" "cs_gc (c_storage dir_conf) = cs_gc (c_storage demo_conf)"
  "cs_storeType (c_storage dir_conf) = StoreDir" "cs_rootDir (c_storage dir_conf) = ''/d''"
  "cs_readOnly (c_storage dir_conf) = Some False"
  by (simp_all add: dir_conf_def)

definition blank_dir :: dir_store where
  "blank_dir = newDir dir_conf 0 0 [''sid''] empty_files"

text \<open>What a push to an empty directory runs through.\<close>

lemmas dir_push_defs =
  blobUploadPost_def read_only_def query_get_def query_values_def demo_post_def alice_request_def
  post_upload_def post_options_def demo_lib_def with_repo_def dir_repoGet_def blank_dir_def newDir_def live_def
  Let_def dig_is_zero_def cache_get_def cache_new_def stringsHasAny_def isLocal_def open_repo_def
  new_dir_repo_def cache_set_def layout_exists_def repo_path_def file_path_def fs_do_def os_stat_def os_call_def
  os_look_def ancestors_def upt_rec empty_files_def is_file_def node_time_def upd_dr_def dir_blobCreate_def
  dir_repoInit_def with_mu_def init_directory_def init_layout_def init_index_def os_mkdirAll_def make_dir_def
  set_node_def os_readFile_def os_writeFile_def new_file_def set_data_def demo_dir_lib_def dir_indexSave_def
  os_createTemp_def fh_write_def replace_index_def os_rename_def drop_node_def os_fstat_def file_time_def
  file_bytes_def blob_file_def create_session_def start_session_def upload_temp_def post_monolithic_def
  io_copy_def dir_write_def upd_du_def dir_verify_def dir_close_def fh_close_def blob_directory_def
  drop_upload_def cache_delete_def upload_hooks_def delete_upload_def close_handle_def os_remove_def
  dir_done_def

lemma demo_dir_post:
  "\<exists>s1 w1 i. blobUploadPost demo_lib (dir_ops demo_lib demo_dir_lib) dir_conf ''a'' demo_post (blank_dir, w) = (s1, w1) \<and>
     file_at (ds_fs s1) [''d'', ''a'', ''blobs'', ''sha256'', ''x''] i"
  by (simp add: dir_push_defs)

lemma dir_conf_fixed: "setDefaults dir_conf = dir_conf" "root_of dir_conf = [''d'']"
proof -
  show "setDefaults dir_conf = dir_conf"
    by (simp add: dir_conf_def demo_conf_def setDefaults_def setDefaults_api_def setDefaults_storage_def
        setDefaults_gc_def boolDefault_def nano_minute_def nano_second_def)
  then show "root_of dir_conf = [''d'']" by (simp add: file_path_def)
qed

lemma demo_dir_lib_ok: "codec_ok demo_dir_lib" "libs_ok demo_lib demo_dir_lib"
  by (simp_all add: codec_ok_def demo_dir_lib_def libs_ok_def demo_lib_ok)

text \<open>The push, and a process that is killed after it and starts again.\<close>

abbreviation demo_dir_events :: "dir_event list" where
  "demo_dir_events \<equiv> [DirRequest \<lparr>af_stat = None, af_open = None\<rparr> None 0 demo_post, DirFaults [Some ''killed''],
     DirRestart False 0 0 [] []]"

lemma demo_dir_run:
  "\<exists>sv s i. dir_run demo_lib demo_dir_lib demo_auth_lib dir_conf NoAuth demo_dir_events
       (new_dir_server dir_conf NoAuth 0 0 [''sid''] empty_files) = Some sv \<and> sv_store sv = Some s \<and>
     file_at (ds_fs s) [''d'', ''a'', ''blobs'', ''sha256'', ''x''] i"
proof -
  define sv0 where "sv0 = new_dir_server dir_conf NoAuth 0 0 [''sid''] empty_files"
  have sv: "sv0 = \<lparr>sv_conf = dir_conf, sv_store = Some blank_dir, sv_refs = sv_refs sv0, sv_rate = sv_rate sv0, sv_auth = NoAuth\<rparr>"
    by (simp add: sv0_def new_dir_server_def new_server_def Let_def blank_dir_def dir_conf_fixed)
  have now: "blank_dir\<lparr>ds_now := 0, ds_hung := False\<rparr> = blank_dir" by (simp add: blank_dir_def newDir_def)
  have path: "rq_path demo_post = ''/v2/a/blobs/uploads/''" by (simp add: demo_post_def)
  obtain s1 w1 i where post: "blobUploadPost demo_lib (dir_ops demo_lib demo_dir_lib) dir_conf ''a'' demo_post
      (blank_dir, standard_headers dir_conf new_rw) = (s1, w1)" "file_at (ds_fs s1) [''d'', ''a'', ''blobs'', ''sha256'', ''x''] i"
    using demo_dir_post by blast
  have "\<exists>sv1 w. serveHTTP demo_lib (dir_ops demo_lib demo_dir_lib) demo_auth_lib \<lparr>af_stat = None, af_open = None\<rparr> None 0
      demo_post (on_store 0 id sv0) new_rw = Some (sv1, w) \<and> sv_store sv1 = Some s1"
    using post(1)
    by (subst sv) (auto simp: on_store_def now serveHTTP_def path Let_def dispatch_def demo_post_route serve_auth_def lift_store_def)
  then show ?thesis
    using post(2) unfolding sv0_def [symmetric]
    by (auto simp: restart_def new_dir_server_def new_server_def Let_def dir_conf_fixed newDir_def)
qed

theorem dir_server_integrity_witness:
  "\<exists>sv s i. dir_run demo_lib demo_dir_lib demo_auth_lib dir_conf NoAuth demo_dir_events
       (new_dir_server dir_conf NoAuth 0 0 [''sid''] empty_files) = Some sv \<and> sv_store sv = Some s \<and>
     file_at (ds_fs s) [''d'', ''a'', ''blobs'', ''sha256'', ''x''] i \<and>
     (\<exists>d. dig_from_bytes demo_lib ''sha256'' (file_bytes (ds_fs s) i) = Some d \<and> dl_encoded demo_dir_lib d = ''x'')"
proof -
  obtain sv s i where run: "dir_run demo_lib demo_dir_lib demo_auth_lib dir_conf NoAuth demo_dir_events
      (new_dir_server dir_conf NoAuth 0 0 [''sid''] empty_files) = Some sv" "sv_store sv = Some s"
      "file_at (ds_fs s) [''d'', ''a'', ''blobs'', ''sha256'', ''x''] i"
    using demo_dir_run by blast
  have "blob_path (root_of dir_conf) [''d'', ''a'', ''blobs'', ''sha256'', ''x''] ''sha256'' ''x''"
    by (auto simp: dir_conf_fixed(2) blob_path_def repo_dir_def reserved_def intro!: exI [of _ "[''d'', ''a'']"])
  then show ?thesis
    using dir_server_integrity [OF demo_lib_ok(2,1) demo_dir_lib_ok(1) empty_files_sound run] run by blast
qed

end
