(* ===== verification/Dir_GC.thy ===== *)
theory Dir_GC
  imports Dir_Run
begin

text \<open>
  Garbage collection of the directory store: while no call fails, the files of a repository satisfy
  the collector's contract, so a collection ends and keeps what the roots need.  A call that fails
  once breaks it: a manifest that cannot be opened is taken for one that is not there.
\<close>

section \<open>The blobs in the files\<close>

text \<open>Every entry of the tree is in a directory.\<close>

definition tree_closed :: "(path, fnode) fmap \<Rightarrow> bool" where
  "tree_closed T \<longleftrightarrow> (\<forall>p n. fmlookup T p = Some n \<longrightarrow> butlast p \<noteq> [] \<longrightarrow> fmlookup T (butlast p) = Some NDir)"

definition dir_content :: "lib \<Rightarrow> dir_lib \<Rightarrow> string \<Rightarrow> dir_store \<Rightarrow> digest \<Rightarrow> reader option" where
  "dir_content L DL r s d =
     (case fmlookup (ds_repos s) r of
        None \<Rightarrow> None
      | Some dr \<Rightarrow>
        if \<not> dr_exists dr \<or> dig_is_zero d then None
        else case os_look (ds_fs s) (blob_file L DL (dr_path dr) d) of
            OsOk n \<Rightarrow> Some (node_read (ds_fs s) n)
          | _ \<Rightarrow> None)"

text \<open>The name of a file in the blob directories is that of one digest.\<close>

definition blob_names :: "lib \<Rightarrow> dir_lib \<Rightarrow> fsys \<Rightarrow> path \<Rightarrow> bool" where
  "blob_names L DL F p \<longleftrightarrow>
     (\<forall>d n. d \<noteq> [] \<longrightarrow> os_look F (blob_file L DL p d) = OsOk n \<longrightarrow>
        dig_parse L (dig_algorithm L d @ '':'' @ dl_encoded DL d) = Some d)"

definition dir_gc_ok :: "lib \<Rightarrow> dir_lib \<Rightarrow> string \<Rightarrow> dir_store \<Rightarrow> bool" where
  "dir_gc_ok L DL r s \<longleftrightarrow> fs_faults (ds_fs s) = [] \<and> fs_wf (ds_fs s) \<and> tree_closed (fs_tree (ds_fs s)) \<and>
     (\<forall>dr. fmlookup (ds_repos s) r = Some dr \<longrightarrow> blob_names L DL (ds_fs s) (dr_path dr))"

lemma os_call_ok: "fs_faults F = [] \<Longrightarrow> os_call f F = f F"
  by (simp add: os_call_def)

lemma os_look_lookup: "os_look F p = OsOk n \<Longrightarrow> p \<noteq> [] \<Longrightarrow> fmlookup (fs_tree F) p = Some n"
  by (auto simp: os_look_def split: if_splits option.splits)

lemma blob_file_not_root [simp]: "blob_file L DL p d \<noteq> []"
  by (simp add: blob_file_def)

lemma blob_file_inj:
  assumes "blob_names L DL F p" and "d \<noteq> []" "d' \<noteq> []" and "os_look F (blob_file L DL p d) = OsOk n"
    and "blob_file L DL p d = blob_file L DL p d'"
  shows "d = d'"
proof -
  have parse: "dig_parse L (dig_algorithm L d @ '':'' @ dl_encoded DL d) = Some d"
    using assms(1,2,4) unfolding blob_names_def by blast
  have "os_look F (blob_file L DL p d') = OsOk n" using assms(4) unfolding assms(5) .
  then have "dig_parse L (dig_algorithm L d' @ '':'' @ dl_encoded DL d') = Some d'"
    using assms(1,3) unfolding blob_names_def by blast
  then show ?thesis using parse assms(5) by (simp add: blob_file_def)
qed

lemma dir_content_Some:
  assumes "dir_content L DL r s d = Some rd"
  obtains dr n where "fmlookup (ds_repos s) r = Some dr" "dr_exists dr" "d \<noteq> []"
    "os_look (ds_fs s) (blob_file L DL (dr_path dr) d) = OsOk n" "rd = node_read (ds_fs s) n"
  using assms by (auto simp: dir_content_def dig_is_zero_def split: option.splits if_splits os_res.splits)

section \<open>The contract of the collector\<close>

lemma dir_blobGet_content:
  assumes "dir_gc_ok L DL r s" and "dir_blobGet L DL r d s = (x, s')"
  shows "dir_gc_ok L DL r s' \<and> dir_content L DL r s' = dir_content L DL r s \<and>
    dir_content L DL r s d = (case x of Inr rd \<Rightarrow> Some rd | Inl _ \<Rightarrow> None)"
proof -
  have "fs_faults (ds_fs s) = []" using assms(1) by (simp add: dir_gc_ok_def)
  then have "s' = s \<and> dir_content L DL r s d = (case x of Inr rd \<Rightarrow> Some rd | Inl _ \<Rightarrow> None)"
    using assms(2)
    by (auto simp: dir_blobGet_def dir_content_def fs_do_def os_open_def os_call_ok split: option.splits if_splits os_res.splits)
  then show ?thesis using assms(1) by simp
qed

lemma dir_blobMeta_content:
  assumes "dir_gc_ok L DL r s" and "dir_blobMeta L DL r d s = (x, s')"
  shows "dir_gc_ok L DL r s' \<and> dir_content L DL r s' = dir_content L DL r s"
proof -
  have "fs_faults (ds_fs s) = []" using assms(1) by (simp add: dir_gc_ok_def)
  then have "s' = s"
    using assms(2)
    by (auto simp: dir_blobMeta_def fs_do_def os_stat_def os_call_ok split: option.splits if_splits os_res.splits)
  then show ?thesis using assms(1) by simp
qed

lemma drop_file_look:
  assumes "length q = length p" and "q \<noteq> p"
  shows "os_look (drop_node p F) q = os_look F q"
proof -
  have "a \<noteq> p" if "a \<in> set (ancestors q)" for a
    using that assms(1) by (auto simp: ancestors_def)
  then have "list_ex (\<lambda>a. is_file (fmlookup (fs_tree (drop_node p F)) a)) (ancestors q) =
      list_ex (\<lambda>a. is_file (fmlookup (fs_tree F) a)) (ancestors q)"
    by (auto simp: list_ex_iff)
  then show ?thesis using assms(2) by (simp add: os_look_def)
qed

lemma drop_self_look: "os_look (drop_node p F) p \<noteq> OsOk n" if "p \<noteq> []"
  using that by (simp add: os_look_def)

lemma node_read_drop [simp]: "node_read (drop_node p F) = node_read F"
  by (auto simp: node_read_def fun_eq_iff split: fnode.split)

lemma fs_wf_drop: "fs_wf F \<Longrightarrow> fs_wf (drop_node p F)"
  unfolding fs_wf_def by (auto split: if_splits)

lemma tree_closed_drop: "tree_closed T \<Longrightarrow> fmlookup T p = Some (NFile i) \<Longrightarrow> tree_closed (fmdrop p T)"
  unfolding tree_closed_def by (auto split: if_splits)

text \<open>A delete either changes nothing, or removes the file of the blob.\<close>

lemma dir_blobDelete_cases:
  assumes "fs_faults (ds_fs s) = []" and "dir_blobDelete L DL r d s = (x, s')"
  obtains (failed) e where "x = Inl e" "s' = s"
    | (deleted) dr i where "x = Inr ()" "fmlookup (ds_repos s) r = Some dr" "dr_exists dr" "d \<noteq> []"
        "os_look (ds_fs s) (blob_file L DL (dr_path dr) d) = OsOk (NFile i)"
        "s' = s\<lparr>ds_fs := drop_node (blob_file L DL (dr_path dr) d) (ds_fs s)\<rparr>"
proof (cases "ds_readOnly s \<or> d = [] \<or> (\<forall>dr. fmlookup (ds_repos s) r = Some dr \<longrightarrow> \<not> dr_exists dr)")
  case True
  then show ?thesis
    using failed [of "projl x"] assms(2) by (auto simp: dir_blobDelete_def dig_is_zero_def split: option.splits if_splits)
next
  case False
  then obtain dr where dr: "\<not> ds_readOnly s" "d \<noteq> []" "fmlookup (ds_repos s) r = Some dr" "dr_exists dr" by blast
  have one: "fs_do (os_stat p) s = (case os_look (ds_fs s) p of OsOk n \<Rightarrow> OsOk (n = NDir, node_time (ds_fs s) n)
      | OsNotExist \<Rightarrow> OsNotExist | OsErr e \<Rightarrow> OsErr e, s)" for p
    by (simp add: fs_do_def os_stat_def os_call_ok assms(1))
  note run = assms(2) [unfolded dir_blobDelete_def dig_is_zero_def dr(3) option.case one]
  show ?thesis
  proof (cases "os_look (ds_fs s) (blob_file L DL (dr_path dr) d)")
    case (OsOk n)
    show ?thesis
    proof (cases n)
      case NDir
      then show ?thesis using failed [of "ErrOther ''invalid blob''"] run dr OsOk by simp
    next
      case (NFile i)
      have "fs_do (os_remove (blob_file L DL (dr_path dr) d)) s =
          (OsOk (), s\<lparr>ds_fs := drop_node (blob_file L DL (dr_path dr) d) (ds_fs s)\<rparr>)"
        using OsOk NFile by (simp add: fs_do_def os_remove_def os_call_ok assms(1))
      then show ?thesis using deleted [of dr i] run dr OsOk NFile by simp
    qed
  qed (use failed [of "projl x"] run dr in auto)
qed

lemma dir_blobDelete_content:
  assumes "dir_gc_ok L DL r s" and "dir_blobDelete L DL r d s = (x, s')"
  shows "dir_gc_ok L DL r s' \<and> (\<forall>d'. d' \<noteq> d \<longrightarrow> dir_content L DL r s' d' = dir_content L DL r s d') \<and>
    dir_content L DL r s' d \<in> {None, dir_content L DL r s d} \<and> (x = Inr () \<longrightarrow> dir_content L DL r s' d = None)"
proof -
  have "fs_faults (ds_fs s) = []" using assms(1) by (simp add: dir_gc_ok_def)
  from this assms(2) show ?thesis
  proof (cases rule: dir_blobDelete_cases)
    case (failed e)
    then show ?thesis using assms(1) by simp
  next
    case (deleted dr i)
    let ?p = "blob_file L DL (dr_path dr) d"
    let ?F = "drop_node ?p (ds_fs s)"
    have names: "blob_names L DL (ds_fs s) (dr_path dr)" using assms(1) deleted(2) by (simp add: dir_gc_ok_def)
    have look: "os_look ?F (blob_file L DL (dr_path dr) d') = os_look (ds_fs s) (blob_file L DL (dr_path dr) d')"
      if "d' \<noteq> d" "d' \<noteq> []" for d'
      using blob_file_inj [OF names deleted(4) that(2) deleted(5)] that(1)
      by (intro drop_file_look) (auto simp: blob_file_def)
    have gone: "dir_content L DL r s' d = None"
      using deleted(2,6) drop_self_look [OF blob_file_not_root]
      by (auto simp: dir_content_def split: os_res.split)
    have same: "dir_content L DL r s' d' = dir_content L DL r s d'" if "d' \<noteq> d" for d'
      using look [OF that] deleted(2,6) by (auto simp: dir_content_def dig_is_zero_def split: os_res.split)
    have "blob_names L DL ?F (dr_path dr)"
      unfolding blob_names_def
    proof (intro allI impI)
      fix d' n
      assume "d' \<noteq> []" and n: "os_look ?F (blob_file L DL (dr_path dr) d') = OsOk n"
      moreover have "d' \<noteq> d" using n drop_self_look [OF blob_file_not_root] by blast
      ultimately show "dig_parse L (dig_algorithm L d' @ '':'' @ dl_encoded DL d') = Some d'"
        using names look unfolding blob_names_def by simp
    qed
    moreover have "tree_closed (fs_tree ?F)"
      using assms(1) tree_closed_drop os_look_lookup [OF deleted(5)] by (simp add: dir_gc_ok_def)
    moreover have "fs_wf ?F" using assms(1) fs_wf_drop by (simp add: dir_gc_ok_def)
    ultimately have "dir_gc_ok L DL r s'" using assms(1) deleted(2,6) by (simp add: dir_gc_ok_def)
    then show ?thesis using same gone by simp
  qed
qed

lemma dir_entries_file:
  assumes "fmlookup (fs_tree F) (p @ [e]) = Some n"
  shows "(e, n = NDir) \<in> set (dir_entries F p)"
proof -
  have "p @ [e] \<in> set (filter (\<lambda>q. q \<noteq> [] \<and> butlast q = p) (sorted_list_of_fset (fmdom (fs_tree F))))"
    using assms by (auto simp: fmlookup_dom_iff)
  then show ?thesis using assms unfolding dir_entries_def by force
qed

lemma list_algorithms_all:
  assumes "fs_faults (ds_fs s) = []"
  shows "list_algorithms L p as s = (x, s') \<Longrightarrow> s' = s \<and>
    (\<forall>dl a e b d. x = Inr dl \<longrightarrow> (a, True) \<in> set as \<longrightarrow> (e, b) \<in> set (dir_entries (ds_fs s) (p @ [blobs_dir, a])) \<longrightarrow>
       dig_parse L (a @ '':'' @ e) = Some d \<longrightarrow> d \<in> set dl)"
proof (induction as arbitrary: x s')
  case (Cons ai as)
  obtain a isdir where ai: "ai = (a, isdir)" by fastforce
  show ?case
  proof (cases isdir)
    case False
    then show ?thesis using Cons ai by auto
  next
    case True
    have mem: "d \<in> set (List.map_filter (\<lambda>(e, b). dig_parse L (a @ '':'' @ e)) es)"
      if "(e, b) \<in> set es" "dig_parse L (a @ '':'' @ e) = Some d" for es e b d
      using that by (force simp: List.map_filter_def)
    obtain y s2 where rest: "list_algorithms L p as s = (y, s2)" by fastforce
    note IH = Cons.IH [OF rest]
    let ?es = "dir_entries (ds_fs s) (p @ [blobs_dir, a])"
    have "s' = s \<and> (\<forall>dl. x = Inr dl \<longrightarrow> (\<exists>dl'. y = Inr dl' \<and> dl = List.map_filter (\<lambda>(e, b). dig_parse L (a @ '':'' @ e)) ?es @ dl'))"
      using Cons.prems conjunct1 [OF IH] rest True ai assms
      by (auto simp: fs_do_def os_readDir_def os_call_ok split: os_res.splits fnode.splits sum.splits)
    then show ?thesis using conjunct2 [OF IH] mem [of _ _ ?es] ai by (metis Un_iff fst_conv set_ConsD set_append snd_conv)
  qed
qed simp

lemma dir_blobList_content:
  assumes "dir_gc_ok L DL r s" and "dir_blobList L r s = (x, s')"
  shows "dir_gc_ok L DL r s' \<and> dir_content L DL r s' = dir_content L DL r s \<and>
    (\<forall>dl. x = Inr dl \<longrightarrow> dom (dir_content L DL r s) \<subseteq> set dl)"
proof (cases "fmlookup (ds_repos s) r")
  case None
  then show ?thesis using assms by (auto simp: dir_blobList_def dir_content_def)
next
  case (Some dr)
  let ?F = "ds_fs s" and ?p = "dr_path dr"
  have ok: "fs_faults ?F = []" "tree_closed (fs_tree ?F)" "blob_names L DL ?F ?p"
    using assms(1) Some by (simp_all add: dir_gc_ok_def)
  have entry: "(dig_algorithm L d, True) \<in> set (dir_entries ?F (?p @ [blobs_dir])) \<and>
      (\<exists>b. (dl_encoded DL d, b) \<in> set (dir_entries ?F (?p @ [blobs_dir, dig_algorithm L d]))) \<and>
      dig_parse L (dig_algorithm L d @ '':'' @ dl_encoded DL d) = Some d \<and> fmlookup (fs_tree ?F) (?p @ [blobs_dir]) = Some NDir"
    if c: "dir_content L DL r s d = Some rd" for d rd
  proof -
    obtain n where n: "d \<noteq> []" "os_look ?F (blob_file L DL ?p d) = OsOk n"
      using dir_content_Some [OF c] Some by force
    let ?q = "?p @ [blobs_dir, dig_algorithm L d]"
    have at: "fmlookup (fs_tree ?F) (?q @ [dl_encoded DL d]) = Some n"
      using os_look_lookup [OF n(2)] by (simp add: blob_file_def)
    have up: "fmlookup (fs_tree ?F) ?q = Some NDir"
      using ok(2) at unfolding tree_closed_def by (metis butlast_snoc append_is_Nil_conv list.distinct(1))
    have "fmlookup (fs_tree ?F) ((?p @ [blobs_dir]) @ [dig_algorithm L d]) = Some NDir" using up by simp
    then have top: "fmlookup (fs_tree ?F) (?p @ [blobs_dir]) = Some NDir" 
      using ok(2) unfolding tree_closed_def by (metis butlast_snoc append_is_Nil_conv list.distinct(1))
    show ?thesis
      using dir_entries_file [OF at] dir_entries_file [of ?F "?p @ [blobs_dir]" "dig_algorithm L d" NDir] up top n ok(3)
      unfolding blob_names_def by auto
  qed
  have "s' = s \<and> (\<forall>dl. x = Inr dl \<longrightarrow> dom (dir_content L DL r s) \<subseteq> set dl)"
  proof (cases "os_look ?F (?p @ [blobs_dir])")
    case OsNotExist
    then have "fmlookup (fs_tree ?F) (?p @ [blobs_dir]) = None" by (auto simp: os_look_def split: if_splits option.splits)
    then have "dom (dir_content L DL r s) = {}" using entry by fastforce
    then show ?thesis
      using assms(2) Some OsNotExist ok(1) by (auto simp: dir_blobList_def fs_do_def os_readDir_def os_call_ok)
  next
    case (OsErr e)
    then show ?thesis
      using assms(2) Some ok(1) by (auto simp: dir_blobList_def fs_do_def os_readDir_def os_call_ok)
  next
    case (OsOk n)
    show ?thesis
    proof (cases n)
      case NDir
      then have "list_algorithms L ?p (dir_entries ?F (?p @ [blobs_dir])) s = (x, s')"
        using assms(2) Some OsOk ok(1) by (simp add: dir_blobList_def fs_do_def os_readDir_def os_call_ok)
      from list_algorithms_all [OF ok(1) this] show ?thesis using entry by blast
    next
      case (NFile i)
      then show ?thesis
        using assms(2) Some OsOk ok(1) by (auto simp: dir_blobList_def fs_do_def os_readDir_def os_call_ok)
    qed
  qed
  then show ?thesis using assms(1) by simp
qed

lemma dir_content_finite:
  assumes "\<And>dr. fmlookup (ds_repos s) r = Some dr \<Longrightarrow> blob_names L DL (ds_fs s) (dr_path dr)"
  shows "finite (dom (dir_content L DL r s))"
proof (cases "fmlookup (ds_repos s) r")
  case None
  then show ?thesis by (simp add: dir_content_def dom_def)
next
  case (Some dr)
  have look: "\<exists>n. d \<noteq> [] \<and> os_look (ds_fs s) (blob_file L DL (dr_path dr) d) = OsOk n"
    if "d \<in> dom (dir_content L DL r s)" for d
    using that Some by (auto elim!: dir_content_Some)
  show ?thesis
  proof (rule finite_imageD)
    show "inj_on (blob_file L DL (dr_path dr)) (dom (dir_content L DL r s))"
    proof (rule inj_onI)
      fix d d'
      assume d: "d \<in> dom (dir_content L DL r s)" "d' \<in> dom (dir_content L DL r s)"
        and eq: "blob_file L DL (dr_path dr) d = blob_file L DL (dr_path dr) d'"
      obtain n where "d \<noteq> []" "os_look (ds_fs s) (blob_file L DL (dr_path dr) d) = OsOk n" using look [OF d(1)] by blast
      moreover have "d' \<noteq> []" "blob_names L DL (ds_fs s) (dr_path dr)"
        using look [OF d(2)] assms [OF Some] by blast+
      ultimately show "d = d'" using blob_file_inj eq by blast
    qed
    have "blob_file L DL (dr_path dr) d \<in> fmdom' (fs_tree (ds_fs s))" if "d \<in> dom (dir_content L DL r s)" for d
      using look [OF that] os_look_lookup [of "ds_fs s" "blob_file L DL (dr_path dr) d"] by (auto simp: fmlookup_dom'_iff)
    then have "blob_file L DL (dr_path dr) ` dom (dir_content L DL r s) \<subseteq> fmdom' (fs_tree (ds_fs s))" by blast
    then show "finite (blob_file L DL (dr_path dr) ` dom (dir_content L DL r s))"
      using finite_fmdom' finite_subset by blast
  qed
qed

interpretation dir_gc: gc_repo "dir_gc_ops L DL r" "dir_content L DL r" "dir_gc_ok L DL r" for L DL r
proof unfold_locales
  fix s s' :: dir_store and d :: digest and x m l u
  assume ok: "dir_gc_ok L DL r s"
  show "dir_gc_ok L DL r s' \<and> dir_content L DL r s' = dir_content L DL r s \<and>
      dir_content L DL r s d = (case x of Inr rd \<Rightarrow> Some rd | Inl _ \<Rightarrow> None)"
    if "go_get (dir_gc_ops L DL r) d s = (x, s')"
    using dir_blobGet_content [OF ok] that by (simp add: dir_gc_ops_def)
  show "dir_gc_ok L DL r s' \<and> dir_content L DL r s' = dir_content L DL r s"
    if "go_meta (dir_gc_ops L DL r) d s = (m, s')"
    using dir_blobMeta_content [OF ok] that by (simp add: dir_gc_ops_def)
  show "dir_gc_ok L DL r s' \<and> dir_content L DL r s' = dir_content L DL r s \<and>
      (\<forall>dl. l = Inr dl \<longrightarrow> dom (dir_content L DL r s) \<subseteq> set dl)"
    if "go_list (dir_gc_ops L DL r) s = (l, s')"
    using dir_blobList_content [OF ok] that by (simp add: dir_gc_ops_def)
  show "dir_gc_ok L DL r s' \<and> (\<forall>d'. d' \<noteq> d \<longrightarrow> dir_content L DL r s' d' = dir_content L DL r s d') \<and>
      dir_content L DL r s' d \<in> {None, dir_content L DL r s d} \<and> (u = Inr () \<longrightarrow> dir_content L DL r s' d = None)"
    if "go_delete (dir_gc_ops L DL r) d s = (u, s')"
    using dir_blobDelete_content [OF ok] that by (simp add: dir_gc_ops_def)
  show "finite (dom (dir_content L DL r s))" using ok by (intro dir_content_finite) (simp add: dir_gc_ok_def)
qed

section \<open>Saving the index leaves the blobs\<close>

text \<open>Names outside \<open>P\<close> stay, with their contents.\<close>

definition only_at :: "(path \<Rightarrow> bool) \<Rightarrow> fsys \<Rightarrow> fsys \<Rightarrow> bool" where
  "only_at P F F' \<longleftrightarrow> (\<forall>q. \<not> P q \<longrightarrow> fmlookup (fs_tree F') q = fmlookup (fs_tree F) q \<and>
     (\<forall>j. file_at F q j \<longrightarrow> file_bytes F' j = file_bytes F j))"

lemma only_at_refl [simp]: "only_at P F F" "only_at P F (F\<lparr>fs_faults := es\<rparr>)"
  by (simp_all add: only_at_def)

lemma only_at_trans: "only_at P F F1 \<Longrightarrow> only_at P F1 F2 \<Longrightarrow> only_at P F F2"
  unfolding only_at_def by metis

lemma only_at_nodes: "P p \<Longrightarrow> only_at P F (set_node p n F)" "P p \<Longrightarrow> only_at P F (drop_node p F)"
  unfolding only_at_def by auto

lemma only_at_data: "(\<And>q. file_at F q i \<Longrightarrow> P q) \<Longrightarrow> only_at P F (set_data i b t F)"
  unfolding only_at_def by auto

lemma only_at_remove: "os_remove p F = (x, F') \<Longrightarrow> P p \<Longrightarrow> only_at P F F'"
  by (elim os_removeE) (auto intro: only_at_trans [OF only_at_refl(2) only_at_nodes(2)])

lemma only_at_rename: "os_rename a b F = (x, F') \<Longrightarrow> P a \<Longrightarrow> P b \<Longrightarrow> only_at P F F'"
  by (elim os_renameE) (auto intro!: only_at_trans [OF only_at_refl(2) only_at_trans [OF only_at_nodes(2) only_at_nodes(1)]])

lemma only_at_write:
  assumes "fh_write i b now F = (x, F')" and "\<And>q. file_at F q i \<Longrightarrow> P q"
  shows "only_at P F F'"
  using assms(1)
proof (cases rule: fh_writeE)
  case (written es)
  then show ?thesis using assms(2) by (auto simp: only_at_def)
qed simp

lemma only_at_temp:
  assumes "os_createTemp p pre now F = (x, F')" and "fs_wf F" and "\<And>y. P (p @ [pre @ y])"
  shows "only_at P F F'" and "x = OsOk (tmp, i) \<Longrightarrow> P tmp \<and> (\<forall>q. file_at F' q i \<longrightarrow> q = tmp) \<and> file_bytes F' i = []"
proof -
  have "only_at P F F' \<and> (\<forall>tmp i. x = OsOk (tmp, i) \<longrightarrow> P tmp \<and> (\<forall>q. file_at F' q i \<longrightarrow> q = tmp) \<and> file_bytes F' i = [])"
    using assms(1)
  proof (cases rule: os_createTempE)
    case (made es tmp y ys zs)
    have lt: "file_at F q j \<Longrightarrow> j < fs_next F" for q j using assms(2) unfolding fs_wf_def by blast
    have "P tmp" using assms(3) made(3) by simp
    moreover have "file_bytes F' j = file_bytes F j" if "file_at F q j" for q j
      using made(5) lt [OF that] by (simp add: file_bytes_def new_file_def set_node_def set_data_def)
    moreover have "\<not> file_at F q (fs_next F)" for q using lt by blast
    ultimately show ?thesis using made(1,5) by (auto simp: only_at_def split: if_splits)
  qed auto
  then show "only_at P F F'" "x = OsOk (tmp, i) \<Longrightarrow> P tmp \<and> (\<forall>q. file_at F' q i \<longrightarrow> q = tmp) \<and> file_bytes F' i = []"
    by blast+
qed

definition index_name :: "path \<Rightarrow> path \<Rightarrow> bool" where
  "index_name p q \<longleftrightarrow> q = p @ [index_file] \<or> (\<exists>y. q = p @ [index_file @ ''.'' @ y])"

lemma discard_only_at:
  "discard_temp tmp e s = (x, s') \<Longrightarrow> P tmp \<Longrightarrow> only_at P (ds_fs s) (ds_fs s')"
  by (auto simp: discard_temp_def split: prod.splits elim!: fs_doE intro: only_at_remove)

lemma replace_only_at:
  assumes "replace_index r tmp i p s = (x, s')" and "P tmp" and "P (p @ [index_file])"
  shows "only_at P (ds_fs s) (ds_fs s')"
proof -
  obtain y s1 where mv: "fs_do (os_rename tmp (p @ [index_file])) s = (y, s1)" by fastforce
  have s1: "only_at P (ds_fs s) (ds_fs s1)" using mv assms(2,3) by (auto elim!: fs_doE intro: only_at_rename)
  show ?thesis
  proof (cases "y = OsOk ()")
    case True
    obtain z s2 where st: "fs_do (os_fstat (NFile i)) s1 = (z, s2)" by fastforce
    then obtain es where "ds_fs s2 = (ds_fs s1)\<lparr>fs_faults := es\<rparr>" by (auto elim!: fs_doE dest!: quiet_calls)
    moreover have "ds_fs s' = ds_fs s2" using assms(1) mv True st by (auto simp: replace_index_def split: os_res.splits)
    ultimately show ?thesis using only_at_trans [OF s1] by simp
  next
    case False
    then have "discard_temp tmp (os_err y) s1 = (x, s')"
      using assms(1) mv by (auto simp: replace_index_def split: os_res.splits)
    then show ?thesis using discard_only_at assms(2) only_at_trans [OF s1] by metis
  qed
qed

lemma indexSave_only_at:
  assumes "dir_indexSave DL r s = (x, s')" and "fs_wf (ds_fs s)" and "fmlookup (ds_repos s) r = Some dr"
  shows "only_at (index_name (dr_path dr)) (ds_fs s) (ds_fs s')"
proof (cases "ds_readOnly s")
  case False
  let ?P = "index_name (dr_path dr)"
  define s0 where "s0 = upd_dr r (\<lambda>m. m\<lparr>dr_index := minimal_index (dr_index dr)\<rparr>) s"
  obtain y s1 where c: "fs_do (os_createTemp (dr_path dr) (index_file @ ''.'') (ds_now s)) s0 = (y, s1)" by fastforce
  have P: "?P (dr_path dr @ [(index_file @ ''.'') @ z])" "?P (dr_path dr @ [index_file])" for z
    by (auto simp: index_name_def)
  obtain F where F: "os_createTemp (dr_path dr) (index_file @ ''.'') (ds_now s) (ds_fs s) = (y, F)" "ds_fs s1 = F"
    using c by (auto elim!: fs_doE simp: s0_def)
  note t = only_at_temp [OF F(1) assms(2), of ?P, OF P(1)]
  show ?thesis
  proof (cases "\<exists>tmp i. y = OsOk (tmp, i)")
    case nope: False
    then show ?thesis
      using assms(1,3) False c F(2) t(1) unfolding dir_indexSave_def Let_def s0_def by (auto split: os_res.splits)
  next
    case True
    then obtain tmp i where y: "y = OsOk (tmp, i)" by blast
    note ti = t(2) [OF y]
    show ?thesis
    proof (cases "dl_enc_index DL (minimal_index (dr_index dr))")
      case None
      then have "discard_temp tmp (ErrOther ''json'') s1 = (x, s')"
        using assms(1,3) False c y unfolding dir_indexSave_def Let_def s0_def by simp
      then show ?thesis using discard_only_at ti only_at_trans [OF t(1)] F(2) by metis
    next
      case (Some b)
      obtain z s2 where w: "fs_do (fh_write i b (ds_now s)) s1 = (z, s2)" by fastforce
      have "only_at ?P F (ds_fs s2)"
        using w ti F(2) by (auto elim!: fs_doE intro!: only_at_write)
      then have s2: "only_at ?P (ds_fs s) (ds_fs s2)" using only_at_trans [OF t(1)] by blast
      have "only_at ?P (ds_fs s2) (ds_fs s')"
      proof (cases "z = OsOk ()")
        case True
        then have "replace_index r tmp i (dr_path dr) s2 = (x, s')"
          using assms(1,3) False c y Some w unfolding dir_indexSave_def Let_def s0_def by simp
        then show ?thesis using replace_only_at ti P(2) by blast
      next
        case no: False
        then have "discard_temp tmp (os_err z) s2 = (x, s')"
          using assms(1,3) False c y Some w unfolding dir_indexSave_def Let_def s0_def by (auto split: os_res.splits)
        then show ?thesis using discard_only_at ti by blast
      qed
      then show ?thesis by (rule only_at_trans [OF s2])
    qed
  qed
qed (use assms in \<open>simp add: dir_indexSave_def\<close>)

section \<open>The whole collection\<close>

text \<open>In a closed tree what has a name can be looked up.\<close>

lemma take_lookup:
  assumes "tree_closed T" and "fmlookup T q = Some n"
  shows "0 < k \<Longrightarrow> k < length q \<Longrightarrow> fmlookup T (take k q) = Some NDir"
proof (induction "length q - k" arbitrary: k)
  case (Suc m)
  show ?case
  proof (cases "Suc k = length q")
    case True
    then have "take k q = butlast q" by (simp add: butlast_conv_take flip: True)
    moreover have "take k q \<noteq> []" using Suc.prems by auto
    ultimately show ?thesis using assms unfolding tree_closed_def by metis
  next
    case False
    then have "fmlookup T (take (Suc k) q) = Some NDir" using Suc by (intro Suc.hyps(1)) auto
    moreover have "butlast (take (Suc k) q) = take k q" using Suc.prems by (simp add: butlast_take)
    moreover have "take k q \<noteq> []" using Suc.prems by auto
    ultimately show ?thesis using assms(1) unfolding tree_closed_def by metis
  qed
qed simp

lemma look_closed:
  assumes "tree_closed (fs_tree F)" and "q \<noteq> []"
  shows "os_look F q = OsOk n \<longleftrightarrow> fmlookup (fs_tree F) q = Some n"
proof
  assume q: "fmlookup (fs_tree F) q = Some n"
  have "\<not> is_file (fmlookup (fs_tree F) a)" if "a \<in> set (ancestors q)" for a
    using take_lookup [OF assms(1) q] that by (auto simp: ancestors_def is_file_def)
  then show "os_look F q = OsOk n" using q assms(2) by (auto simp: os_look_def list_ex_iff)
qed (use os_look_lookup assms(2) in blast)

text \<open>What a repository serves is decided by the names of its blobs and their contents.\<close>

lemma dir_content_cong:
  assumes "fmlookup (ds_repos s) r = Some dr" "fmlookup (ds_repos s') r = Some dr'"
    and "dr_path dr' = dr_path dr" "dr_exists dr' = dr_exists dr"
    and look: "\<And>d n. os_look (ds_fs s') (blob_file L DL (dr_path dr) d) = OsOk n \<longleftrightarrow>
      os_look (ds_fs s) (blob_file L DL (dr_path dr) d) = OsOk n"
    and bytes: "\<And>d j. file_at (ds_fs s) (blob_file L DL (dr_path dr) d) j \<Longrightarrow> file_bytes (ds_fs s') j = file_bytes (ds_fs s) j"
  shows "dir_content L DL r s' = dir_content L DL r s"
proof
  fix d
  let ?q = "blob_file L DL (dr_path dr) d"
  show "dir_content L DL r s' d = dir_content L DL r s d"
  proof (cases "\<exists>n. os_look (ds_fs s) ?q = OsOk n")
    case True
    then obtain n where n: "os_look (ds_fs s) ?q = OsOk n" by blast
    then have "fmlookup (fs_tree (ds_fs s)) ?q = Some n" using os_look_lookup by simp
    then have "node_read (ds_fs s') n = node_read (ds_fs s) n"
      using bytes by (auto simp: node_read_def split: fnode.split)
    moreover have "os_look (ds_fs s') ?q = OsOk n" using look n by blast
    ultimately show ?thesis using n assms(1-4) by (simp add: dir_content_def)
  next
    case False
    then have "\<And>n. os_look (ds_fs s') ?q \<noteq> OsOk n" using look by blast
    then show ?thesis using False assms(1-4) by (auto simp: dir_content_def split: os_res.split)
  qed
qed

lemma look_only_at:
  assumes "only_at P F F'" and "\<not> P q" and "\<And>k. \<not> P (take k q)"
  shows "os_look F' q = os_look F q"
proof -
  have same: "fmlookup (fs_tree F') (take k q) = fmlookup (fs_tree F) (take k q)" for k
    using assms(1,3) unfolding only_at_def by blast
  have "fmlookup (fs_tree F') q = fmlookup (fs_tree F) q"
    using assms(1,2) unfolding only_at_def by blast
  then show ?thesis using same by (simp add: os_look_def ancestors_def list_ex_iff)
qed

lemma index_name_blob: "\<not> index_name p (take k (p @ blobs_dir # q))"
proof -
  have "k - length p = 0 \<or> (\<exists>m. k - length p = Suc m)" by (metis not0_implies_Suc)
  then show ?thesis by (auto simp: index_name_def dest: arg_cong [where f = length])
qed

lemma indexSave_repo:
  assumes "dir_indexSave DL r s = (x, s')" and "fmlookup (ds_repos s) r = Some dr"
  obtains dr' where "fmlookup (ds_repos s') r = Some dr'" "dr_path dr' = dr_path dr" "dr_exists dr' = dr_exists dr"
  using assms
  by (auto simp: dir_indexSave_def Let_def replace_index_def discard_temp_def split: if_splits os_res.splits prod.splits
      option.splits dest!: fs_do_frame(1))

lemma indexSave_content:
  assumes "dir_indexSave DL r s = (x, s')" and "fs_wf (ds_fs s)"
  shows "dir_content L DL' r s' = dir_content L DL' r s"
proof (cases "fmlookup (ds_repos s) r")
  case (Some dr)
  note at = indexSave_only_at [OF assms Some]
  have blob: "\<not> index_name (dr_path dr) (take k (blob_file L DL' (dr_path dr) d))" for k d
    unfolding blob_file_def by (rule index_name_blob)
  have here: "\<not> index_name (dr_path dr) (blob_file L DL' (dr_path dr) d)" for d
    using blob [of "length (blob_file L DL' (dr_path dr) d)" d] by simp
  obtain dr' where dr': "fmlookup (ds_repos s') r = Some dr'" "dr_path dr' = dr_path dr" "dr_exists dr' = dr_exists dr"
    using indexSave_repo [OF assms(1) Some] by blast
  show ?thesis
  proof (rule dir_content_cong [OF Some dr'])
    show "os_look (ds_fs s') (blob_file L DL' (dr_path dr) d) = OsOk n \<longleftrightarrow>
        os_look (ds_fs s) (blob_file L DL' (dr_path dr) d) = OsOk n" for d n
      using look_only_at [OF at here blob] by simp
    show "file_bytes (ds_fs s') j = file_bytes (ds_fs s) j"
      if "file_at (ds_fs s) (blob_file L DL' (dr_path dr) d) j" for d j
      using at here that unfolding only_at_def by blast
  qed
next
  case None
  then have "s' = s" using assms(1) by (auto simp: dir_indexSave_def split: if_splits)
  then show ?thesis by simp
qed

text \<open>The removal of an empty repository leaves what can be served.\<close>

definition reach :: "path \<Rightarrow> fsys \<Rightarrow> bool" where
  "reach p F \<longleftrightarrow> (\<forall>a e n. fmlookup (fs_tree F) (p @ [blobs_dir, a, e]) = Some n \<longrightarrow>
     os_look F (p @ [blobs_dir, a, e]) = OsOk n \<and> fmlookup (fs_tree F) (p @ [blobs_dir]) = Some NDir)"

lemma reach_closed:
  assumes "tree_closed (fs_tree F)"
  shows "reach p F"
  unfolding reach_def
proof (intro allI impI)
  fix a e n
  assume q: "fmlookup (fs_tree F) (p @ [blobs_dir, a, e]) = Some n"
  have "fmlookup (fs_tree F) (take (Suc (length p)) (p @ [blobs_dir, a, e])) = Some NDir"
    by (rule take_lookup [OF assms q]) simp_all
  then show "os_look F (p @ [blobs_dir, a, e]) = OsOk n \<and> fmlookup (fs_tree F) (p @ [blobs_dir]) = Some NDir"
    using look_closed [OF assms] q by simp
qed

lemma os_remove_cases:
  assumes "os_remove t F = (x, F')"
  obtains (kept) es where "F' = F\<lparr>fs_faults := es\<rparr>" "t \<noteq> [] \<Longrightarrow> (\<And>e. x \<noteq> OsErr e) \<Longrightarrow> fmlookup (fs_tree F) t = None"
    | (gone) es where "F' = drop_node t (F\<lparr>fs_faults := es\<rparr>)"
        "fmlookup (fs_tree F) t = Some NDir \<Longrightarrow> \<not> has_entries F t"
proof -
  have "(\<exists>es. F' = F\<lparr>fs_faults := es\<rparr> \<and> (t \<noteq> [] \<longrightarrow> (\<forall>e. x \<noteq> OsErr e) \<longrightarrow> fmlookup (fs_tree F) t = None)) \<or>
      (\<exists>es. F' = drop_node t (F\<lparr>fs_faults := es\<rparr>) \<and> (fmlookup (fs_tree F) t = Some NDir \<longrightarrow> \<not> has_entries F t))"
    using assms unfolding os_remove_def
  proof (cases rule: os_callE)
    case (ran es)
    show ?thesis
    proof (cases "os_look F t")
      case OsNotExist
      then have "t \<noteq> [] \<longrightarrow> fmlookup (fs_tree F) t = None" by (auto simp: os_look_def split: if_splits option.splits)
      then show ?thesis using ran OsNotExist by auto
    next
      case (OsErr e)
      then show ?thesis using ran by auto
    next
      case (OsOk n)
      have "t = [] \<Longrightarrow> n = NDir" using OsOk by (auto simp: os_look_def split: if_splits)
      then show ?thesis
        using ran os_look_lookup [OF OsOk] OsOk by (cases "t = []"; cases n) (auto split: if_splits)
    qed
  qed auto
  then show ?thesis using kept gone by blast
qed

lemma remove_reach:
  assumes "os_remove t F = (x, F')" and "reach p F" and "\<And>a e. t \<noteq> p @ [blobs_dir, a, e]"
  shows "reach p F'" "fmlookup (fs_tree F') (p @ [blobs_dir, a, e]) = fmlookup (fs_tree F) (p @ [blobs_dir, a, e])"
    "file_bytes F' = file_bytes F"
proof -
  have "reach p F' \<and> (\<forall>a e. fmlookup (fs_tree F') (p @ [blobs_dir, a, e]) = fmlookup (fs_tree F) (p @ [blobs_dir, a, e])) \<and>
      file_bytes F' = file_bytes F"
    using assms(1)
  proof (cases rule: os_remove_cases)
    case (kept es)
    then show ?thesis using assms(2) by (simp add: reach_def)
  next
    case (gone es)
    have same: "fmlookup (fs_tree F') (p @ [blobs_dir, a, e]) = fmlookup (fs_tree F) (p @ [blobs_dir, a, e])" for a e
      using gone(1) assms(3) [of a e] by simp
    have "os_look F' (p @ [blobs_dir, a, e]) = OsOk n \<and> fmlookup (fs_tree F') (p @ [blobs_dir]) = Some NDir"
      if "fmlookup (fs_tree F') (p @ [blobs_dir, a, e]) = Some n" for a e n
    proof -
      let ?q = "p @ [blobs_dir, a, e]"
      have old: "fmlookup (fs_tree F) ?q = Some n" "os_look F ?q = OsOk n" "fmlookup (fs_tree F) (p @ [blobs_dir]) = Some NDir"
        using that same assms(2) unfolding reach_def by simp_all
      have "t \<noteq> p @ [blobs_dir]"
      proof
        assume t: "t = p @ [blobs_dir]"
        have "has_entries F t" using old(1) unfolding has_entries_def t by (auto simp: fmpred_iff)
        then show False using gone(2) old(3) t by blast
      qed
      moreover have "os_look F' ?q = OsOk n"
        using old(2) gone(1) that by (auto simp: os_look_def is_file_def list_ex_iff split: if_splits option.splits)
      ultimately show ?thesis using old(3) gone(1) by simp
    qed
    then show ?thesis using same gone(1) unfolding reach_def by simp
  qed
  then show "reach p F'" "fmlookup (fs_tree F') (p @ [blobs_dir, a, e]) = fmlookup (fs_tree F) (p @ [blobs_dir, a, e])"
    "file_bytes F' = file_bytes F"
    by blast+
qed

lemma remove_none:
  assumes "os_remove t F = (x, F')"
  shows "fmlookup (fs_tree F) u = None \<Longrightarrow> fmlookup (fs_tree F') u = None"
    and "t \<noteq> [] \<Longrightarrow> (\<And>e. x \<noteq> OsErr e) \<Longrightarrow> fmlookup (fs_tree F') t = None"
  using assms by (cases rule: os_remove_cases; auto)+

lemma remove_all_reach:
  assumes "remove_all ts s = (b, s')" and "reach p (ds_fs s)" and "\<And>t a e. t \<in> set ts \<Longrightarrow> t \<noteq> p @ [blobs_dir, a, e]"
  shows "reach p (ds_fs s') \<and> (\<forall>a e. fmlookup (fs_tree (ds_fs s')) (p @ [blobs_dir, a, e]) =
      fmlookup (fs_tree (ds_fs s)) (p @ [blobs_dir, a, e])) \<and> file_bytes (ds_fs s') = file_bytes (ds_fs s) \<and>
    ds_repos s' = ds_repos s \<and> (\<forall>u. fmlookup (fs_tree (ds_fs s)) u = None \<longrightarrow> fmlookup (fs_tree (ds_fs s')) u = None) \<and>
    (b \<longrightarrow> (\<forall>t\<in>set ts. t \<noteq> [] \<longrightarrow> fmlookup (fs_tree (ds_fs s')) t = None))"
  using assms
proof (induction ts arbitrary: s b s')
  case (Cons t ts)
  obtain x s1 where one: "fs_do (os_remove t) s = (x, s1)" by fastforce
  obtain b1 s2 where rest: "remove_all ts s1 = (b1, s2)" by fastforce
  have res: "b = ((case x of OsErr _ \<Rightarrow> False | _ \<Rightarrow> True) \<and> b1)" "s' = s2"
    using Cons.prems(1) one rest by simp_all
  obtain F where F: "os_remove t (ds_fs s) = (x, F)" "s1 = s\<lparr>ds_fs := F\<rparr>" using one by (rule fs_doE)
  note r1 = remove_reach [OF F(1) Cons.prems(2) Cons.prems(3) [of t], simplified]
  have IH: "reach p (ds_fs s2) \<and> (\<forall>a e. fmlookup (fs_tree (ds_fs s2)) (p @ [blobs_dir, a, e]) =
      fmlookup (fs_tree F) (p @ [blobs_dir, a, e])) \<and> file_bytes (ds_fs s2) = file_bytes F \<and>
    ds_repos s2 = ds_repos s \<and> (\<forall>u. fmlookup (fs_tree F) u = None \<longrightarrow> fmlookup (fs_tree (ds_fs s2)) u = None) \<and>
    (b1 \<longrightarrow> (\<forall>t\<in>set ts. t \<noteq> [] \<longrightarrow> fmlookup (fs_tree (ds_fs s2)) t = None))"
    using Cons.IH [OF rest] r1(1) Cons.prems(3) F(2) by simp
  moreover have "fmlookup (fs_tree (ds_fs s2)) t = None" if b "t \<noteq> []"
  proof -
    have "x \<noteq> OsErr e" for e using that(1) res(1) by (auto split: os_res.splits)
    then have "fmlookup (fs_tree F) t = None" using remove_none(2) [OF F(1) that(2)] by blast
    then show ?thesis using IH by blast
  qed
  ultimately show ?case
    using res r1(2,3) remove_none(1) [OF F(1)] by simp
qed simp

lemma prune_empty_content:
  assumes "reach p (ds_fs s)" and "fmlookup (ds_repos s) r = Some dr" and "dr_path dr = p"
  shows "dir_content L DL r (prune_empty r s) = dir_content L DL r s"
proof -
  have blob: "t \<in> set (empty_repo_paths p) \<Longrightarrow> t \<noteq> p @ [blobs_dir, a, e]" for t a e
    by (auto simp: empty_repo_paths_def)
  obtain b s1 where ra: "remove_all (empty_repo_paths p) s = (b, s1)" by fastforce
  note R = remove_all_reach [OF ra assms(1) blob]
  have look: "os_look (ds_fs s1) (blob_file L DL p d) = OsOk n \<longleftrightarrow> os_look (ds_fs s) (blob_file L DL p d) = OsOk n" for d n
  proof -
    have "os_look F (p @ [blobs_dir, a, e]) = OsOk n \<longleftrightarrow> fmlookup (fs_tree F) (p @ [blobs_dir, a, e]) = Some n"
      if "reach p F" for F a e
      using that os_look_lookup unfolding reach_def by blast
    then show ?thesis using R assms(1) unfolding blob_file_def by simp
  qed
  have s1: "dir_content L DL r s1 = dir_content L DL r s"
    by (rule dir_content_cong [OF assms(2)]) (use R assms(2,3) look in auto)
  have "dir_content L DL r (upd_dr r (\<lambda>m. m\<lparr>dr_exists := False\<rparr>) s1) = dir_content L DL r s1" if b
  proof
    fix d
    have "fmlookup (fs_tree (ds_fs s1)) (p @ [blobs_dir]) = None"
      using R that by (auto simp: empty_repo_paths_def)
    then have "fmlookup (fs_tree (ds_fs s1)) (blob_file L DL p d) = None"
      using R unfolding reach_def blob_file_def by (metis not_None_eq option.distinct(1))
    then have "os_look (ds_fs s1) (blob_file L DL p d) \<noteq> OsOk n" for n using os_look_lookup by force
    then show "dir_content L DL r (upd_dr r (\<lambda>m. m\<lparr>dr_exists := False\<rparr>) s1) d = dir_content L DL r s1 d"
      using assms(2,3) R by (auto simp: dir_content_def split: os_res.split)
  qed
  then show ?thesis using assms(2,3) ra s1 by (auto simp: prune_empty_def)
qed

lemma indexSave_reach:
  assumes "dir_indexSave DL r s = (x, s')" and "fs_wf (ds_fs s)" and "fmlookup (ds_repos s) r = Some dr"
    and "reach (dr_path dr) (ds_fs s)"
  shows "reach (dr_path dr) (ds_fs s')"
proof -
  note at = indexSave_only_at [OF assms(1-3)]
  have blob: "\<not> index_name (dr_path dr) (take k (dr_path dr @ [blobs_dir, a, e]))" for k a e
    by (rule index_name_blob)
  have here: "\<not> index_name (dr_path dr) (dr_path dr @ [blobs_dir, a, e])" "\<not> index_name (dr_path dr) (dr_path dr @ [blobs_dir])"
    for a e by (auto simp: index_name_def)
  have "os_look (ds_fs s') (dr_path dr @ [blobs_dir, a, e]) = os_look (ds_fs s) (dr_path dr @ [blobs_dir, a, e])" for a e
    by (rule look_only_at [OF at here(1) blob])
  then show ?thesis
    using at here assms(4) unfolding reach_def only_at_def by simp
qed

interpretation dir_gc_frame: gc_invariant "dir_gc_ops L DL r" "\<lambda>s. ds_repos s = m" for L DL r m
proof unfold_locales
  fix s s' :: dir_store and d :: digest and x mm l u
  assume m: "ds_repos s = m"
  show "ds_repos s' = m" if "go_get (dir_gc_ops L DL r) d s = (x, s')"
    using that m by (auto simp: dir_gc_ops_def dir_blobGet_def split: option.splits if_splits prod.splits os_res.splits dest!: fs_do_frame(1))
  show "ds_repos s' = m" if "go_meta (dir_gc_ops L DL r) d s = (mm, s')"
    using that m by (auto simp: dir_gc_ops_def dir_blobMeta_def split: option.splits if_splits prod.splits os_res.splits dest!: fs_do_frame(1))
  have "list_algorithms L p as s = (l, s') \<Longrightarrow> ds_repos s' = ds_repos s" for p as l and s s' :: dir_store
    by (induction L p as s arbitrary: l rule: list_algorithms.induct)
      (auto split: if_splits prod.splits os_res.splits sum.splits dest!: fs_do_frame(1))
  then show "ds_repos s' = m" if "go_list (dir_gc_ops L DL r) s = (l, s')"
    using that m by (fastforce simp: dir_gc_ops_def dir_blobList_def split: option.splits prod.splits os_res.splits dest!: fs_do_frame(1))
  show "ds_repos s' = m" if "go_delete (dir_gc_ops L DL r) d s = (u, s')"
    using that m by (auto simp: dir_gc_ops_def dir_blobDelete_def split: option.splits if_splits prod.splits os_res.splits dest!: fs_do_frame(1))
qed

lemma collect_blobs_keeps:
  assumes "dir_gc_ok L DL r s" and "order_ok L" and "fmlookup (ds_repos s) r = Some dr"
    and "gc_build_all L (dir_gc_ops L DL r) (ds_gc s) (ds_now s) (i_manifests (dr_index dr)) s = (gb, s1)"
    and "coherent L (gb_subjects gb) (dir_content L DL r s) (set (gb_manifests gb))"
    and "collect_blobs L DL r s = (Inr (), s')"
    and "needed L (gb_subjects gb) (dir_content L DL r s) (set (gb_manifests gb)) d"
    and "x \<in> marks L (dir_content L DL r s) d"
  shows "dir_content L DL r s' x = dir_content L DL r s x \<and> reach (dr_path dr) (ds_fs s') \<and>
    (\<exists>dr'. fmlookup (ds_repos s') r = Some dr' \<and> dr_path dr' = dr_path dr)"
proof -
  let ?gc = "repoGarbageCollect L (dir_gc_ops L DL r) (ds_gc s) (ds_now s) (ds_rnow s) (dr_index dr) s"
  obtain res s2 where gc: "?gc = Some (res, s2)" "dir_gc_ok L DL r s2"
    using dir_gc.gc_ends [OF assms(1)] by blast
  then obtain i chg where res: "res = Inr (i, chg)"
    using assms(3,6) by (auto simp: collect_blobs_def the_index_def split: sum.splits)
  have s2: "dir_content L DL r s2 x = dir_content L DL r s x"
    using dir_gc.gc_keeps_needed(1) [OF assms(1,2) gc(1) [unfolded res] assms(4,5,7)] assms(8) by blast
  have dr2: "fmlookup (ds_repos s2) r = Some dr" using dir_gc_frame.keep_collect [OF gc(1) refl] assms(3) by simp
  have reach2: "reach (dr_path dr) (ds_fs s2)" using gc(2) reach_closed by (simp add: dir_gc_ok_def)
  show ?thesis
  proof (cases chg)
    case False
    then have "s' = s2" using assms(3,6) gc(1) res by (simp add: collect_blobs_def the_index_def)
    then show ?thesis using s2 dr2 reach2 by simp
  next
    case True
    let ?s3 = "upd_dr r (\<lambda>m. m\<lparr>dr_index := i\<rparr>) s2"
    have save: "dir_indexSave DL r ?s3 = (Inr (), s')"
      using assms(3,6) gc(1) res True by (simp add: collect_blobs_def the_index_def)
    have wf: "fs_wf (ds_fs ?s3)" using gc(2) by (simp add: dir_gc_ok_def)
    have dr3: "fmlookup (ds_repos ?s3) r = Some (dr\<lparr>dr_index := i\<rparr>)" using dr2 by simp
    have "dir_content L DL r ?s3 = dir_content L DL r s2"
      using dr2 by (auto simp: dir_content_def fun_eq_iff upd_dr_def split: os_res.split)
    then have "dir_content L DL r s' x = dir_content L DL r s x" using s2 indexSave_content [OF save wf] by simp
    moreover have "reach (dr_path dr) (ds_fs s')" using indexSave_reach [OF save wf dr3] reach2 by simp
    ultimately show ?thesis using indexSave_repo [OF save dr3] by (metis dir_repo.select_convs(6) dir_repo.surjective dir_repo.update_convs(8))
  qed
qed

text \<open>
  C6: A collection of a repository of the directory store deletes nothing that is needed, while no call
  of the operating system fails: when the roots it selects in the index it has loaded are coherent (no
  digest is reached with two media types, and none of a reachable manifest is also the config or a layer
  of a reachable image), every blob that a needed descriptor stands for or lists reads after the
  collection as before, also when the collection finds the repository empty and removes its
  directories.  Every entry of the index without subject is a root if it has a tag, or if untagged
  entries are kept.
\<close>

theorem dir_gc_keeps_needed:
  assumes "repo_gc_locked L DL r s0 = (Inr (), s')" and "fmlookup (ds_repos s0) r = Some dr0"
    and "dir_indexLoad L DL r True (if cache_isEmpty (dr_uploads dr0) then gc_upload_dir (dr_path dr0) s0 else s0) = (Inr (), s)"
    and "\<not> ds_hung s" and "fmlookup (ds_repos s) r = Some dr" and "dir_gc_ok L DL r s" and "order_ok L"
    and "gc_build_all L (dir_gc_ops L DL r) (ds_gc s) (ds_now s) (i_manifests (dr_index dr)) s = (gb, s1)"
    and "coherent L (gb_subjects gb) (dir_content L DL r s) (set (gb_manifests gb))"
    and "needed L (gb_subjects gb) (dir_content L DL r s) (set (gb_manifests gb)) d"
    and "x \<in> marks L (dir_content L DL r s) d"
  shows "dir_content L DL r s' x = dir_content L DL r s x \<and>
    (\<forall>c\<in>set (i_manifests (dr_index dr)). subject_of c = [] \<longrightarrow> tag_of c \<noteq> [] \<or> \<not> deref (gc_untagged (ds_gc s)) \<longrightarrow>
       c \<in> set (gb_manifests gb))"
proof
  obtain y s2 where c: "collect_blobs L DL r s = (y, s2)" by fastforce
  have y: "y = Inr ()" and s': "s' = (if ds_hung s2 then s2 else prune_empty r s2)"
    using assms(1,2,3,4) c by (auto simp: repo_gc_locked_def dir_collect_def live_def Let_def split: if_splits)
  note K = collect_blobs_keeps [OF assms(6,7,5,8,9) c [unfolded y] assms(10,11)]
  then obtain dr2 where "fmlookup (ds_repos s2) r = Some dr2" "dr_path dr2 = dr_path dr" by blast
  then show "dir_content L DL r s' x = dir_content L DL r s x" using K prune_empty_content s' by metis
qed (use dir_gc.build_all [OF assms(6,8)] in blast)







section \<open>Concrete collections\<close>

text \<open>
  The layout \<open>/d/r\<close> with the tag \<open>a\<close> for the index \<open>s:I\<close>, whose child is the image \<open>s:M\<close> with the
  config \<open>s:c\<close>; all files are older than the grace period.  \<open>faults\<close> is the outcome of the calls to come.
\<close>

definition gc_dir_lib :: dir_lib where
  "gc_dir_lib = \<lparr>dl_encoded = (\<lambda>d. drop 1 (dropWhile (\<lambda>c. c \<noteq> CHR '':'') d)),
     dl_dec_index = (\<lambda>b. None), dl_enc_index = (\<lambda>li. Some ''J''), dl_enc_layout = (\<lambda>v. Some ''L'')\<rparr>"

definition gc_nodes :: "(path \<times> fnode) list" where
  "gc_nodes = [([''d''], NDir), ([''d'', ''r''], NDir), ([''d'', ''r'', ''index.json''], NFile 0),
     ([''d'', ''r'', ''oci-layout''], NFile 1), ([''d'', ''r'', ''blobs''], NDir), ([''d'', ''r'', ''blobs'', ''s''], NDir),
     ([''d'', ''r'', ''blobs'', ''s'', ''I''], NFile 2), ([''d'', ''r'', ''blobs'', ''s'', ''M''], NFile 3),
     ([''d'', ''r'', ''blobs'', ''s'', ''c''], NFile 4)]"

definition gc_files :: "string option list \<Rightarrow> fsys" where
  "gc_files faults = \<lparr>fs_tree = fmap_of_list gc_nodes,
   fs_data = fmap_of_list [(0, ''J'', 0), (1, ''L'', 0), (2, ''I'', 0), (3, ''M'', 0), (4, ''c'', 0)], fs_next = 5,
   fs_rand = [''1'', ''2''], fs_faults = faults, fs_reads = []\<rparr>"

definition gc_dir_repo :: dir_repo where
  "gc_dir_repo = (new_dir_repo dir_conf ''r'')\<lparr>dr_timeCheck := 10000000000000, dr_path := [''d'', ''r''],
     dr_exists := True,
     dr_index := (empty_layout fmempty)\<lparr>i_manifests := [demo_index]\<rparr>\<rparr>"

definition gc_dir_store :: "string option list \<Rightarrow> dir_store" where
  "gc_dir_store faults = (newDir dir_conf 0 10000000000000 [] (gc_files faults))\<lparr>ds_repos := fmupd ''r'' gc_dir_repo fmempty\<rparr>"

lemmas os_run = fs_do_def os_stat_def os_open_def os_fstat_def os_readFile_def os_createTemp_def os_remove_def os_rename_def
  os_readDir_def fh_write_def os_call_def os_look_def ancestors_def upt_rec is_file_def node_time_def file_time_def
  file_bytes_def node_read_def set_node_def drop_node_def set_data_def new_file_def has_entries_def dir_entries_def
  sorted_list_of_fset.rep_eq


lemmas gc_dir_run = collect_blobs_def dir_gc_ops_def dir_blobGet_def dir_blobMeta_def dir_blobList_def dir_blobDelete_def
  dir_indexSave_def replace_index_def minimal_index_def upd_dr_def blob_file_def the_index_def dig_is_zero_def

lemmas gc_dir_state = gc_dir_store_def gc_dir_repo_def newDir_def empty_layout_def gc_files_def gc_nodes_def new_dir_repo_def
  cache_isEmpty_def cache_new_def

lemma gc_mark_run:
  "gc_mark L G subjects [] seen inIndex s = Some (seen, inIndex, s)"
  "gc_mark L G subjects (d # rest) seen inIndex s =
     (case gc_visit L G subjects d seen s of
        (push, seen1, s1) \<Rightarrow> gc_mark L G subjects (push @ rest) seen1 (List.insert (d_digest d) inIndex) s1)"
  by (subst gc_mark.simps, simp)+

lemma gc_names [simp]:
  "dl_enc_index gc_dir_lib li = Some ''J''" "dl_encoded gc_dir_lib ''s:I'' = ''I''" "dl_encoded gc_dir_lib ''s:M'' = ''M''"
  "dl_encoded gc_dir_lib ''s:c'' = ''c''" "dig_algorithm gc_lib ''s:I'' = ''s''" "dig_algorithm gc_lib ''s:M'' = ''s''"
  "dig_algorithm gc_lib ''s:c'' = ''s''" "map_order gc_lib ks = ks" "dig_parse demo_lib ''s:I'' = Some ''s:I''"
  "dig_parse demo_lib ''s:M'' = Some ''s:M''" "dig_parse demo_lib ''s:c'' = Some ''s:c''"
  "tag_of (zero_descriptor\<lparr>d_digest := d\<rparr>) = []"
  by (simp_all add: gc_dir_lib_def gc_lib_def demo_lib_def annotationVal_def zero_descriptor_def)

lemma gc_tags [simp]: "refTagRE ''s:I'' = False" "refTagRE ''s:M'' = False" "refTagRE ''s:c'' = False" "refTagRE ''a'' = True"
  by (simp_all add: refTagRE_def tag_start_char_def tag_char_def alnum_char_def)

lemma gc_dir_calls:
  "dir_blobGet gc_lib gc_dir_lib ''r'' ''s:I'' (gc_dir_store []) = (Inr (Inr ''I''), gc_dir_store [])"
  "dir_blobGet gc_lib gc_dir_lib ''r'' ''s:M'' (gc_dir_store []) = (Inr (Inr ''M''), gc_dir_store [])"
  "dir_blobList gc_lib ''r'' (gc_dir_store []) = (Inr [''s:I'', ''s:M'', ''s:c''], gc_dir_store [])"
  by (simp_all add: gc_dir_state Let_def gc_dir_run os_run List.map_filter_def)

lemma gc_dir_fields [simp]:
  "fmlookup (ds_repos (gc_dir_store f)) ''r'' = Some gc_dir_repo" "ds_fs (gc_dir_store f) = gc_files f"
  "ds_conf (gc_dir_store f) = dir_conf" "ds_now (gc_dir_store f) = 10000000000000" "ds_hung (gc_dir_store f) = False"
  "dr_path gc_dir_repo = [''d'', ''r'']" "dr_exists gc_dir_repo = True" "i_manifests (dr_index gc_dir_repo) = [demo_index]"
  "the_index ''r'' (gc_dir_store f) = dr_index gc_dir_repo" "cache_isEmpty (dr_uploads gc_dir_repo) = True"
  by (simp_all add: gc_dir_state the_index_def Let_def)

lemma gc_dir_build:
  "gc_build_all gc_lib G (cs_gc (c_storage demo_conf)) now [demo_index] s =
     (\<lparr>gb_manifests = [demo_index], gb_subjects = fmempty, gb_inIndex = [''s:I'']\<rparr>, s)"
  by (simp add: gc_build_all_def gc_build_step_def gc_keep_def add_root_def)

lemma gc_dir_mark:
  "gc_mark gc_lib (dir_gc_ops gc_lib gc_dir_lib ''r'') fmempty [demo_index] {} [''s:I''] (gc_dir_store []) =
     Some ({''s:c'', ''s:M'', ''s:I''}, [''s:M'', ''s:I''], gc_dir_store [])"
  by (simp add: gc_mark_run gc_visit_def dir_gc_ops_def gc_dir_calls gc_referrer_def new_response_def demo_image_def)

lemma gc_dir_collect: "collect_blobs gc_lib gc_dir_lib ''r'' (gc_dir_store []) = (Inr (), gc_dir_store [])"
proof -
  have "go_list (dir_gc_ops gc_lib gc_dir_lib ''r'') (gc_dir_store []) = (Inr [''s:I'', ''s:M'', ''s:c''], gc_dir_store [])"
    by (simp add: dir_gc_ops_def gc_dir_calls)
  then show ?thesis
    by (simp add: collect_blobs_def repoGarbageCollect_def gc_dir_build gc_dir_mark gc_sweep_step_def gc_clean_step_def)
qed

lemma gc_dir_ok: "dir_gc_ok gc_lib gc_dir_lib ''r'' (gc_dir_store [])"
proof -
  have node: "(p, n) \<in> set gc_nodes" if "fmlookup (fs_tree (gc_files [])) p = Some n" for p n
    using that unfolding gc_files_def fsys.select_convs fmlookup_of_list by (rule map_of_SomeD)
  have at: "(p, i) \<in> {([''d'', ''r'', ''index.json''], 0), ([''d'', ''r'', ''oci-layout''], 1), ([''d'', ''r'', ''blobs'', ''s'', ''I''], 2),
      ([''d'', ''r'', ''blobs'', ''s'', ''M''], 3), ([''d'', ''r'', ''blobs'', ''s'', ''c''], 4)}"
    if "file_at (gc_files []) p i" for p i
    using node [OF that] by (auto simp: gc_nodes_def)
  have wf: "fs_wf (gc_files [])"
    unfolding fs_wf_def
  proof (intro conjI allI impI)
    show "p = q" if "file_at (gc_files []) p i" "file_at (gc_files []) q i" for p q i
      using at [OF that(1)] at [OF that(2)] by (elim insertE) simp_all
    show "i < fs_next (gc_files [])" if "file_at (gc_files []) p i" for p i
      using at [OF that] by (auto simp: gc_files_def)
  qed (simp_all add: gc_files_def)
  have closed: "tree_closed (fs_tree (gc_files []))"
    unfolding tree_closed_def
  proof (intro allI impI)
    fix p n
    assume "fmlookup (fs_tree (gc_files [])) p = Some n" and b: "butlast p \<noteq> []"
    from node [OF this(1)] b show "fmlookup (fs_tree (gc_files [])) (butlast p) = Some NDir"
      unfolding gc_nodes_def set_simps by (elim insertE) (simp_all add: gc_files_def gc_nodes_def)
  qed
  have "dig_parse gc_lib (dig_algorithm gc_lib d @ '':'' @ dl_encoded gc_dir_lib d) = Some d"
    if "os_look (gc_files []) (blob_file gc_lib gc_dir_lib [''d'', ''r''] d) = OsOk n" for d n
  proof (cases "CHR '':'' \<in> set d")
    case True
    then have "takeWhile (\<lambda>c. c \<noteq> CHR '':'') d @ '':'' @ drop 1 (dropWhile (\<lambda>c. c \<noteq> CHR '':'') d) = d"
      by (induction d) auto
    then show ?thesis using True by (simp add: gc_lib_def gc_dir_lib_def demo_lib_def)
  next
    case False
    then have "dropWhile (\<lambda>c. c \<noteq> CHR '':'') d = []" unfolding dropWhile_eq_Nil_conv by blast
    then have "dl_encoded gc_dir_lib d = []" by (simp only: gc_dir_lib_def dir_lib.select_convs drop_Nil)
    then show ?thesis using that os_look_lookup [OF that] by (simp add: blob_file_def gc_files_def gc_nodes_def split: if_splits)
  qed
  then show ?thesis using wf closed by (simp add: dir_gc_ok_def blob_names_def gc_files_def)
qed

lemma gc_dir_load:
  "gc_upload_dir [''d'', ''r''] (gc_dir_store []) = gc_dir_store []"
  "dir_indexLoad gc_lib gc_dir_lib ''r'' True (gc_dir_store []) = (Inr (), gc_dir_store [])"
  by (simp_all add: gc_upload_dir_def dir_indexLoad_def gc_dir_state Let_def os_run upd_dr_def)

lemma gc_dir_content:
  "dir_content gc_lib gc_dir_lib ''r'' (gc_dir_store []) ''s:I'' = Some (Inr ''I'')"
  "dir_content gc_lib gc_dir_lib ''r'' (gc_dir_store []) ''s:M'' = Some (Inr ''M'')"
  by (simp_all add: dir_content_def dig_is_zero_def blob_file_def os_run gc_files_def gc_nodes_def)

theorem dir_gc_keeps_needed_witness:
  "\<exists>s'. repo_gc_locked gc_lib gc_dir_lib ''r'' (gc_dir_store []) = (Inr (), s') \<and>
     dir_content gc_lib gc_dir_lib ''r'' s' ''s:M'' = Some (Inr ''M'')"
proof -
  let ?s = "gc_dir_store []"
  obtain s' where s': "repo_gc_locked gc_lib gc_dir_lib ''r'' ?s = (Inr (), s')"
    by (simp add: repo_gc_locked_def dir_collect_def live_def gc_dir_load gc_dir_collect)
  have "dir_content gc_lib gc_dir_lib ''r'' s' ''s:M'' = dir_content gc_lib gc_dir_lib ''r'' ?s ''s:M''"
    by (rule dir_gc_keeps_needed [OF s' gc_dir_fields(1) _ _ gc_dir_fields(1) gc_dir_ok, where d = demo_child and
          gb = "\<lparr>gb_manifests = [demo_index], gb_subjects = fmempty, gb_inIndex = [''s:I'']\<rparr>" and ?s1.0 = ?s, THEN conjunct1])
      (simp_all add: gc_dir_load gc_dir_build gc_dir_content demo_coherent demo_needed demo_visits)
  then show ?thesis using s' gc_dir_content by simp
qed





end
