(* ===== verification/Dir_Durable.thy ===== *)
theory Dir_Durable
  imports Dir_GC
begin

text \<open>
  An update of the index that is acknowledged is in the file, and a store that starts on the files
  later serves it.
\<close>

section \<open>What a save leaves in the file\<close>

lemma os_rename_look:
  assumes "os_rename (p @ [x]) (p @ [y]) F = (OsOk (), F')" and "fmlookup (fs_tree F) (p @ [x]) = Some (NFile i)"
  shows "os_look F' (p @ [y]) = OsOk (NFile i)" "fs_data F' = fs_data F"
proof -
  have anc: "ancestors (p @ [y]) = ancestors (p @ [x])" by (auto simp: ancestors_def)
  have len: "a \<in> set (ancestors (p @ [x])) \<Longrightarrow> a \<noteq> p @ [x] \<and> a \<noteq> p @ [y]" for a
    by (auto simp: ancestors_def dest: arg_cong [where f = length])
  have "os_look F' (p @ [y]) = OsOk (NFile i) \<and> fs_data F' = fs_data F"
    using assms(1) unfolding os_rename_def
  proof (cases rule: os_callE)
    case (ran es)
    have "\<exists>j. os_look F (p @ [x]) = OsOk (NFile j)" and F': "F' = set_node (p @ [y]) (NFile i) (drop_node (p @ [x]) (F\<lparr>fs_faults := es\<rparr>))"
      using ran assms(2) by (auto simp: os_look_def split: os_res.splits fnode.splits if_splits option.splits)
    then have "\<not> list_ex (\<lambda>a. is_file (fmlookup (fs_tree F) a)) (ancestors (p @ [x]))"
      by (auto simp: os_look_def split: if_splits)
    then have "\<not> list_ex (\<lambda>a. is_file (fmlookup (fs_tree F') a)) (ancestors (p @ [y]))"
      unfolding anc F' using len by (auto simp: list_ex_iff)
    then show ?thesis by (simp add: os_look_def F' is_file_def)
  qed simp
  then show "os_look F' (p @ [y]) = OsOk (NFile i)" "fs_data F' = fs_data F" by blast+
qed

lemma file_time_frame [simp]:
  "file_time (F\<lparr>fs_faults := es\<rparr>) = file_time F" "file_time (set_data i b t F) i = t"
  by (simp_all add: file_time_def set_data_def fun_eq_iff)

lemma same_data: "fs_data F' = fs_data F \<Longrightarrow> file_bytes F' = file_bytes F \<and> file_time F' = file_time F"
  by (simp add: file_bytes_def file_time_def fun_eq_iff)

lemma indexSave_saved:
  assumes "dir_indexSave DL r s = (Inr (), s')" and "fs_wf (ds_fs s)" and "fmlookup (ds_repos s) r = Some dr"
  obtains i where "os_look (ds_fs s') (dr_path dr @ [index_file]) = OsOk (NFile i)"
    "dl_enc_index DL (minimal_index (dr_index dr)) = Some (file_bytes (ds_fs s') i)"
    "file_time (ds_fs s') i = ds_now s" "the_index r s' = minimal_index (dr_index dr)"
proof -
  define s0 where "s0 = upd_dr r (\<lambda>m. m\<lparr>dr_index := minimal_index (dr_index dr)\<rparr>) s"
  let ?p = "dr_path dr"
  have wr: "\<not> ds_readOnly s" using assms(1) by (auto simp: dir_indexSave_def split: if_splits)
  obtain tmp i s1 where c: "fs_do (os_createTemp ?p (index_file @ ''.'') (ds_now s)) s0 = (OsOk (tmp, i), s1)"
    using assms(1,3) wr unfolding dir_indexSave_def Let_def s0_def by (auto split: os_res.splits prod.splits)
  obtain b s2 where b: "dl_enc_index DL (minimal_index (dr_index dr)) = Some b"
    and w: "fs_do (fh_write i b (ds_now s)) s1 = (OsOk (), s2)" and rp: "replace_index r tmp i ?p s2 = (Inr (), s')"
    using assms(1,3) wr c unfolding dir_indexSave_def Let_def s0_def
    by (auto simp: discard_temp_def split: os_res.splits prod.splits option.splits)
  obtain t s3 s4 where mv: "fs_do (os_rename tmp (?p @ [index_file])) s2 = (OsOk (), s3)"
    and st: "fs_do (os_fstat (NFile i)) s3 = (OsOk t, s4)" and s': "s' = upd_dr r (\<lambda>m. m\<lparr>dr_timeMod := t\<rparr>) s4"
    using rp by (auto simp: replace_index_def discard_temp_def split: os_res.splits prod.splits)
  obtain F where F: "os_createTemp ?p (index_file @ ''.'') (ds_now s) (ds_fs s) = (OsOk (tmp, i), F)" "s1 = s0\<lparr>ds_fs := F\<rparr>"
    using c by (auto elim!: fs_doE simp: s0_def)
  obtain es y ys where made: "i = fs_next (ds_fs s)" "tmp = ?p @ [index_file @ ''.'' @ y]"
      "F = new_file tmp [] (ds_now s) ((ds_fs s)\<lparr>fs_faults := es, fs_rand := ys\<rparr>)"
    using F(1) by (cases rule: os_createTempE) (blast, auto)
  obtain F2 where F2: "fh_write i b (ds_now s) F = (OsOk (), F2)" "s2 = s1\<lparr>ds_fs := F2\<rparr>"
    using w F(2) by (auto elim!: fs_doE)
  have tree2: "fs_tree F2 = fs_tree F" "file_bytes F2 i = b" "file_time F2 i = ds_now s"
    using F2(1) by (cases rule: fh_writeE; use made in auto)+
  obtain F3 where F3: "os_rename tmp (?p @ [index_file]) F2 = (OsOk (), F3)" "s3 = s2\<lparr>ds_fs := F3\<rparr>"
    using mv F2(2) by (auto elim!: fs_doE)
  have "fmlookup (fs_tree F2) tmp = Some (NFile i)" using tree2(1) made(1,3) by simp
  note R = os_rename_look [OF F3(1) [unfolded made(2)] this [unfolded made(2)]]
  obtain es4 where s4: "ds_fs s4 = F3\<lparr>fs_faults := es4\<rparr>" using st F3(2) by (auto elim!: fs_doE dest!: quiet_calls)
  show ?thesis
  proof (rule that)
    show "os_look (ds_fs s') (?p @ [index_file]) = OsOk (NFile i)" using R(1) s4 s' by simp
    show "dl_enc_index DL (minimal_index (dr_index dr)) = Some (file_bytes (ds_fs s') i)"
      using b same_data [OF R(2)] tree2(2) s4 s' by simp
    show "file_time (ds_fs s') i = ds_now s" using same_data [OF R(2)] tree2(3) s4 s' by simp
    have "ds_repos s4 = ds_repos s0"
      using st mv w c by (auto dest!: fs_do_frame(1))
    then show "the_index r s' = minimal_index (dr_index dr)" using s' assms(3) by (simp add: the_index_def s0_def)
  qed
qed

section \<open>A later start\<close>

text \<open>What \<open>encoding/json\<close> writes it reads again, but for the field it does not export.\<close>

definition codec_exact :: "dir_lib \<Rightarrow> bool" where
  "codec_exact DL \<longleftrightarrow>
     (\<forall>li b. dl_enc_index DL li = Some b \<longrightarrow> dl_dec_index DL b = Some (li\<lparr>li_childManifests := []\<rparr>))"

lemma get_desc_same:
  "refTagRE t \<Longrightarrow> i_manifests li = i_manifests li' \<Longrightarrow> get_desc L li t = get_desc L li' t"
  by (simp add: get_desc_def split: option.split)

lemma add_children_manifests [simp]: "i_manifests (add_children ds li) = i_manifests li"
  by (simp add: add_children_def)

lemma fold_child_manifests:
  "fold child_step ds (li, scan, seen) = (li', scan', seen') \<Longrightarrow> i_manifests li' = i_manifests li"
proof (induction ds arbitrary: li scan seen)
  case (Cons d ds)
  obtain li1 scan1 seen1 where st: "child_step d (li, scan, seen) = (li1, scan1, seen1)" by (metis prod_cases3)
  then have "i_manifests li1 = i_manifests li" by (auto simp: child_step_def split: if_splits)
  then show ?case using Cons.IH [of li1 scan1 seen1] Cons.prems st by simp
qed simp

lemma child_loop_result:
  assumes "\<And>d. so_blobGet S repo d s = (fst (so_blobGet S repo d s), s)"
  shows "child_loop L S' repo' scan seen li s0 = Some y \<Longrightarrow> S' = S \<longrightarrow> repo' = repo \<longrightarrow> s0 = s \<longrightarrow>
    snd y = s \<and> i_manifests (fst y) = i_manifests li"
proof (induct L S' repo' scan seen li s0 y rule: child_loop.raw_induct [rotated -1, consumes 1])
  case (1 child_loop' L S' repo' scan seen li s0 y)
  have get: "repoGetIndex L S repo d s = (z, s1) \<Longrightarrow> s1 = s" for d z s1
    using assms [of "d_digest d"] by (auto simp: repoGetIndex_def split: prod.splits sum.splits option.splits)
  show ?case
  proof (intro impI)
    assume eqs: "S' = S" "repo' = repo" "s0 = s"
    show "snd y = s \<and> i_manifests (fst y) = i_manifests li"
      using "1.hyps"(2) unfolding eqs
      by (auto split: list.splits prod.splits sum.splits dest: get fold_child_manifests dest!: "1.hyps"(1))
  qed
qed

lemma quiet_blobGet:
  assumes "fs_faults (ds_fs s) = []" and "\<not> ds_hung s"
  shows "so_blobGet (dir_ingest_ops L DL) r d s = (fst (so_blobGet (dir_ingest_ops L DL) r d s), s)"
    and "dir_content L DL r s d = None \<Longrightarrow> \<exists>e. fst (so_blobGet (dir_ingest_ops L DL) r d s) = Inl e"
  using assms
  by (auto simp: dir_ingest_ops_def live_def dir_blobGet_def dir_content_def fs_do_def os_open_def os_call_ok
      split: option.split os_res.split)

lemma ingest_converted:
  assumes "fs_faults (ds_fs s) = []" and "\<not> ds_hung s" and "finite (dom (dir_content L DL r s))"
    and "i_schemaVersion li = 2" and "i_mediaType li = mt_oci1_manifest_list"
    and "map_get (i_annotations li) annot_referrer_convert = ''true''" and "ca_referrerEnabled (c_api conf) = Some True"
  obtains li' where "indexIngest L (dir_ingest_ops L DL) conf r now li s = Some (None, li', False, s)"
    "i_manifests li' = i_manifests li"
proof -
  let ?S = "dir_ingest_ops L DL"
  define sc where "sc = fold scan_step (i_manifests li)
    \<lparr>is_seen = {}, is_scanChildren = [], is_referrerResponse = fmempty, is_digestTags = []\<rparr>"
  note quiet = quiet_blobGet [OF assms(1,2), of L DL r]
  have "\<exists>y. child_loop L ?S r (is_scanChildren sc) (is_seen sc) li s = Some y"
  proof (rule child_loop_total [where D = "dom (dir_content L DL r s)" and P = "\<lambda>t. t = s"])
    show "snd (so_blobGet ?S r d t) = s" if "t = s" for t d
      using quiet(1) [of d] that by (metis snd_conv)
    show "\<exists>e. fst (so_blobGet ?S r d t) = Inl e" if "t = s" "d \<notin> dom (dir_content L DL r s)" for t d
      using quiet(2) that by auto
  qed (use assms(3) in simp_all)
  then obtain y where y: "child_loop L ?S r (is_scanChildren sc) (is_seen sc) li s = Some y" by blast
  have "snd y = s \<and> i_manifests (fst y) = i_manifests li"
    using child_loop_result [OF quiet(1) y] by blast
  moreover have "indexIngest L ?S conf r now li s = Some (None, fst y, False, snd y)"
    using y assms(4-7) by (simp add: indexIngest_def Let_def sc_def [symmetric] split: prod.split)
  ultimately show ?thesis using that by simp
qed

text \<open>The first call of \<open>IndexGet\<close> on a store that has just opened the repository.\<close>

lemma first_indexGet:
  assumes "fmlookup (ds_repos s) r = Some dr" and "dr_index dr = zero_layout" and "\<not> dr_mu dr" and "\<not> ds_hung s"
    and "dr_timeCheck dr = 0" "dr_timeMod dr = 0" and "ds_now s \<ge> freqCheck" and "fs_faults (ds_fs s) = []"
    and "os_look (ds_fs s) (dr_path dr @ [index_file]) = OsOk (NFile i)" and "file_time (ds_fs s) i \<noteq> 0"
    and "dl_dec_index DL (file_bytes (ds_fs s) i) = Some li" and "ca_referrerEnabled (c_api (ds_conf s)) = Some True"
    and "i_schemaVersion li = 2" and "i_mediaType li = mt_oci1_manifest_list"
    and "map_get (i_annotations li) annot_referrer_convert = ''true''"
    and "blob_names L DL (ds_fs s) (dr_path dr)"
  shows "\<exists>li' s'. dir_indexGet L DL r s = (Inr li', s') \<and> i_manifests li' = i_manifests li"
proof -
  define s2 where "s2 = upd_dr r (\<lambda>m. m\<lparr>dr_timeCheck := ds_now s\<rparr>)
    (upd_dr r (\<lambda>m. m\<lparr>dr_index := default_index (ds_conf s)\<rparr>) (upd_dr r (\<lambda>m. m\<lparr>dr_mu := True\<rparr>) s))"
  define s3 where "s3 = upd_dr r (\<lambda>m. m\<lparr>dr_index := li\<lparr>li_childManifests := []\<rparr>, dr_timeMod := file_time (ds_fs s) i, dr_exists := True\<rparr>) s2"
  have frame: "fs_faults (ds_fs s3) = []" "\<not> ds_hung s3" "ds_conf s3 = ds_conf s" "ds_fs s3 = ds_fs s"
    using assms(4,8) by (simp_all add: s3_def s2_def)
  have repo3: "\<exists>dr3. fmlookup (ds_repos s3) r = Some dr3 \<and> dr_path dr3 = dr_path dr" using assms(1) by (simp add: s3_def s2_def)
  have "finite (dom (dir_content L DL r s3))"
    using repo3 assms(16) frame(4) by (auto intro!: dir_content_finite)
  then obtain li' where li': "indexIngest L (dir_ingest_ops L DL) (ds_conf s3) r (ds_rnow s3) (li\<lparr>li_childManifests := []\<rparr>) s3 =
      Some (None, li', False, s3)" "i_manifests li' = i_manifests (li\<lparr>li_childManifests := []\<rparr>)"
    using ingest_converted [OF frame(1,2), of L DL r "li\<lparr>li_childManifests := []\<rparr>" "ds_conf s3" "ds_rnow s3"] assms(12-15) frame(3)
    by auto
  have zero: "i_mediaType zero_layout = [] \<and> i_manifests zero_layout = []"
    by (simp add: zero_layout_def empty_layout_def)
  have open_ok: "fs_do (os_open (dr_path dr @ [index_file])) t = (OsOk (NFile i), t)"
    "fs_do (os_fstat (NFile i)) t = (OsOk (file_time (ds_fs s) i), t)" if "ds_fs t = ds_fs s" for t
    using that assms(8,9) by (simp_all add: fs_do_def os_open_def os_fstat_def os_call_ok node_time_def)
  have read: "node_read (ds_fs s2) (NFile i) = Inr (file_bytes (ds_fs s) i)"
    by (simp add: node_read_def s2_def)
  have load: "dir_indexLoad L DL r False (upd_dr r (\<lambda>m. m\<lparr>dr_mu := True\<rparr>) s) =
      (Inr (), upd_dr r (\<lambda>m. m\<lparr>dr_index := li'\<rparr>) s3)"
  proof -
    have "dir_indexLoad L DL r False (upd_dr r (\<lambda>m. m\<lparr>dr_mu := True\<rparr>) s) =
        decode_index L DL r (NFile i) (file_time (ds_fs s) i) s2"
      using assms(1,2,5,6,7,10) zero open_ok by (simp add: dir_indexLoad_def s2_def)
    also have "\<dots> = ingest_file L DL r (li\<lparr>li_childManifests := []\<rparr>) s3"
      using assms(11) by (simp add: decode_index_def read s3_def Let_def)
    finally show ?thesis using li'(1) by (simp add: ingest_file_def Let_def)
  qed
  have idx: "the_index r (upd_dr r (\<lambda>m. m\<lparr>dr_index := li'\<rparr>) s3) = li'" using repo3 by (auto simp: the_index_def)
  have "\<exists>s'. dir_indexGet L DL r s = (Inr li', s')"
    using assms(1,3) load idx by (simp add: dir_indexGet_def with_mu_def)
  then show ?thesis using li'(2) by auto
qed

lemma open_layout_quiet:
  assumes "layout_exists L p s = (b, s')" and "fs_faults (ds_fs s) = []"
  shows "s' = s"
  using assms
  by (auto simp: layout_exists_def fs_do_def os_stat_def os_readFile_def os_call_ok split: os_res.splits bool.splits prod.splits)

text \<open>Loading the index moves no repository.\<close>

definition path_at :: "string \<Rightarrow> path \<Rightarrow> time \<Rightarrow> dir_store \<Rightarrow> bool" where
  "path_at r p n s \<longleftrightarrow> map_option dr_path (fmlookup (ds_repos s) r) = Some p \<and> ds_now s = n"

lemma path_at_upd [simp]:
  "(\<And>m. dr_path (f m) = dr_path m) \<Longrightarrow> path_at r p n (upd_dr r' f s) = path_at r p n s"
  "path_at r p n (upd_du u g s) = path_at r p n s" "path_at r p n (hang s) = path_at r p n s"
  "path_at r p n (s\<lparr>ds_rand := ids\<rparr>) = path_at r p n s" "path_at r p n (s\<lparr>ds_touch := ts\<rparr>) = path_at r p n s"
  "path_at r p n (s\<lparr>ds_next := k, ds_heap := h\<rparr>) = path_at r p n s"
  by (auto simp: path_at_def hang_def option.map_comp comp_def)

lemma path_at_fs [simp]: "path_at r p n (snd (fs_do f s)) = path_at r p n s"
  by (cases "fs_do f s") (auto simp: path_at_def dest: fs_do_frame(1,7))

lemma path_at_with_mu:
  assumes "\<And>t. path_at r p n t \<Longrightarrow> path_at r p n (snd (f t))" and "path_at r p n s"
  shows "path_at r p n (snd (with_mu r' y f s))"
  using assms by (simp add: with_mu_def case_prod_beta split: option.split)

lemma path_at_live: "(path_at r p n s \<Longrightarrow> path_at r p n (snd (f s))) \<Longrightarrow> path_at r p n s \<Longrightarrow> path_at r p n (snd (live y f s))"
  by (simp add: live_def)

lemma path_at_indexSave [simp]: "path_at r p n (snd (dir_indexSave DL r' s)) = path_at r p n s"
  by (simp add: dir_indexSave_def Let_def replace_index_def discard_temp_def case_prod_beta split: os_res.split option.split)

lemma path_at_init [simp]:
  "path_at r p n (snd (init_directory q s)) = path_at r p n s"
  "path_at r p n (snd (init_layout L DL q s)) = path_at r p n s"
  "path_at r p n (snd (init_index DL r' q s)) = path_at r p n s"
  unfolding init_directory_def init_layout_def init_index_def case_prod_beta
  by (simp_all split: os_res.split option.split)

lemma path_at_repoInit: "path_at r p n s \<Longrightarrow> path_at r p n (snd (dir_repoInit L DL r' s))"
  unfolding dir_repoInit_def case_prod_beta
  by (rule path_at_with_mu) (simp_all split: option.split sum.split)

lemma path_at_temp [simp]: "path_at r p n (snd (upload_temp q s)) = path_at r p n s"
  unfolding upload_temp_def Let_def case_prod_beta by (simp split: os_res.split)

lemma path_at_session [simp]:
  "path_at r p n (snd (start_session r' q bc sid c s)) = path_at r p n s"
  "path_at r p n (snd (create_session r' bc s)) = path_at r p n s"
proof -
  have start: "path_at r p n (snd (start_session r' q bc sid c t)) = path_at r p n t" for q c sid and t :: dir_store
    using path_at_temp [of r p n q t]
    by (cases "fst (upload_temp q t)") (auto simp: start_session_def Let_def case_prod_beta)
  then show "path_at r p n (snd (start_session r' q bc sid c s)) = path_at r p n s" .
  show "path_at r p n (snd (create_session r' bc s)) = path_at r p n s"
    by (auto simp: create_session_def Let_def case_prod_beta start split: option.split list.split sum.split)
qed

lemma path_at_blobCreate: "path_at r p n s \<Longrightarrow> path_at r p n (snd (dir_blobCreate L DL r' opts s))"
proof -
  assume s: "path_at r p n s"
  have session: "path_at r p n t \<Longrightarrow> path_at r p n (snd (with_mu r' y (create_session r' bc) t))" for t y bc
    by (rule path_at_with_mu) simp_all
  have init: "path_at r p n (snd (dir_repoInit L DL r' s))" by (rule path_at_repoInit [OF s])
  show ?thesis
    using s init unfolding dir_blobCreate_def case_prod_beta
    by (simp add: session split: sum.split option.split os_res.split)
qed

lemma upload_hooks_path: "hooks_keep upload_hooks (path_at r p n)"
  unfolding hooks_keep_def upload_hooks_def delete_upload_def close_handle_def
  by (auto simp: case_prod_beta split: option.split)

lemma path_at_drop: "path_at r p n s \<Longrightarrow> path_at r p n (drop_upload du s)"
  using hooks_delete [OF upload_hooks_path] by (fastforce simp: drop_upload_def split: option.split prod.split)

lemma path_at_close: "path_at r p n s \<Longrightarrow> path_at r p n (snd (dir_close L DL u s))"
proof -
  assume s: "path_at r p n s"
  have bd: "path_at r p n (snd (blob_directory q t)) = path_at r p n t" for q t
    by (simp add: blob_directory_def case_prod_beta split: os_res.split)
  have dt: "path_at r p n (snd (discard_temp q e t)) = path_at r p n t" for q e t
    by (simp add: discard_temp_def case_prod_beta)
  show ?thesis
    using s unfolding dir_close_def Let_def case_prod_beta
    by (simp add: bd dt path_at_drop split: sum.split option.split os_res.split)
qed

lemma path_at_methods:
  "path_at r p n s \<Longrightarrow> path_at r p n (snd (dir_blobGet L DL r' d s))"
  "path_at r p n s \<Longrightarrow> path_at r p n (snd (dir_blobDelete L DL r' d s))"
  "path_at r p n s \<Longrightarrow> path_at r p n (snd (dir_write u b s))"
  "path_at r p n s \<Longrightarrow> path_at r p n (snd (dir_cancel u s))"
  "path_at r p n s \<Longrightarrow> path_at r p n (snd (dir_changeAlgorithm u a s))"
  by (simp_all add: dir_blobGet_def dir_blobDelete_def dir_write_def dir_cancel_def dir_changeAlgorithm_def path_at_drop
      case_prod_beta split: os_res.split option.split sum.split)

lemma path_at_reread [simp]: "path_at r p n (snd (fs_do (fh_reread i) s)) = path_at r p n s"
  by simp

lemma path_at_verify: "path_at r p n s \<Longrightarrow> path_at r p n (snd (dir_verify L u d s))"
  by (simp add: dir_verify_def Let_def case_prod_beta split: os_res.split option.split)

interpretation dir_path: store_invariant "dir_ingest_ops L DL" "path_at r p n" for L DL r p n
  by unfold_locales
    (auto simp: dir_ingest_ops_def intro!: path_at_live path_at_methods path_at_close path_at_verify path_at_blobCreate)

lemma path_at_ingest:
  assumes "ingest_file L DL r' li s = (x, s')" and "path_at r p n s"
  shows "path_at r p n s'"
proof -
  have save: "path_at r p n t'" if "live y (dir_indexSave DL r') t = (z, t')" "path_at r p n t" for y t z t'
    using that path_at_live [of r p n t "dir_indexSave DL r'" y] by (metis path_at_indexSave snd_conv)
  show ?thesis
    using assms unfolding ingest_file_def Let_def
    by (auto split: option.splits prod.splits if_splits dest!: dir_path.keep_indexIngest [where r = r and p = p and n = n]
        intro: save)
qed

lemma path_at_indexLoad:
  assumes "path_at r p n s"
  shows "path_at r p n (snd (dir_indexLoad L DL r' force s))"
proof -
  have ing: "path_at r p n t \<Longrightarrow> path_at r p n (snd (ingest_file L DL r' li t))" for t li
    using path_at_ingest by (metis prod.collapse)
  have dec: "path_at r p n t \<Longrightarrow> path_at r p n (snd (decode_index L DL r' m tm t))" for t m tm
    by (simp add: decode_index_def Let_def ing split: sum.split option.split)
  show ?thesis
    using assms unfolding dir_indexLoad_def Let_def case_prod_beta
    by (simp add: dec split: option.split os_res.split)
qed

text \<open>What an insert that reports no error leaves in the file of the index.\<close>

lemma indexInsert_saved:
  assumes "libs_ok L DL" and "codec_exact DL" and "dir_inv L DL R s" and "fmlookup (ds_repos s) r = Some dr"
    and "dir_indexInsert L DL r desc cs s = (Inr (), s')"
  obtains i where "os_look (ds_fs s') (dr_path dr @ [index_file]) = OsOk (NFile i)"
    "dl_dec_index DL (file_bytes (ds_fs s') i) = Some ((the_index r s')\<lparr>li_childManifests := []\<rparr>)"
    "file_time (ds_fs s') i = ds_now s" "i_schemaVersion (the_index r s') = 2"
    "i_mediaType (the_index r s') = mt_oci1_manifest_list"
proof -
  let ?s1 = "upd_dr r (\<lambda>m. m\<lparr>dr_mu := True\<rparr>) s"
  let ?f = "add_desc L (ds_rnow s) desc cs"
  obtain z s2' where ld: "dir_indexLoad L DL r False ?s1 = (z, s2')" by fastforce
  obtain y s3' where sv1: "dir_indexSave DL r (upd_dr r (\<lambda>m. m\<lparr>dr_index := ?f (dr_index m)\<rparr>) s2') = (y, s3')" by fastforce
  have run: "(Inr (), s') = (if dr_mu dr then (Inl err_hung, hang s) else if ds_hung s2' then (Inl err_hung, s2')
      else (y, if ds_hung s3' then s3' else upd_dr r (\<lambda>m. m\<lparr>dr_mu := False\<rparr>) s3'))"
    using assms(4,5) ld sv1 unfolding dir_indexInsert_def change_index_def with_mu_def live_def
    by (simp split: if_splits)
  then have "y = Inr ()" "s' = (if ds_hung s3' then s3' else upd_dr r (\<lambda>m. m\<lparr>dr_mu := False\<rparr>) s3')"
    by (simp_all split: if_splits)
  then have sv: "dir_indexSave DL r (upd_dr r (\<lambda>m. m\<lparr>dr_index := ?f (dr_index m)\<rparr>) s2') = (Inr (), s3')"
    "ds_fs s' = ds_fs s3'" "the_index r s' = the_index r s3'"
    using sv1 by (auto simp: the_index_def split: option.split)
  have "dir_inv L DL R ?s1" by (rule dir_inv_upd_dr [OF assms(3)]) simp
  then have "dir_inv L DL R s2'" using dir_inv_indexLoad [OF assms(1) ld] by blast
  then have wf: "fs_wf (ds_fs (upd_dr r (\<lambda>m. m\<lparr>dr_index := ?f (dr_index m)\<rparr>) s2'))"
    using files_soundD(1) unfolding dir_inv_def upd_dr_frame by blast
  have "path_at r (dr_path dr) (ds_now s) ?s1" using assms(4) by (simp add: path_at_def)
  then have "path_at r (dr_path dr) (ds_now s) s2'" using path_at_indexLoad ld by (metis snd_conv)
  then obtain dr2 where dr2: "fmlookup (ds_repos s2') r = Some dr2" "dr_path dr2 = dr_path dr" "ds_now s2' = ds_now s"
    by (auto simp: path_at_def)
  then have "fmlookup (ds_repos (upd_dr r (\<lambda>m. m\<lparr>dr_index := ?f (dr_index m)\<rparr>) s2')) r =
      Some (dr2\<lparr>dr_index := ?f (dr_index dr2)\<rparr>)" by simp
  from indexSave_saved [OF sv(1) wf this] obtain i where
    i: "os_look (ds_fs s3') (dr_path dr @ [index_file]) = OsOk (NFile i)"
    "dl_enc_index DL (minimal_index (?f (dr_index dr2))) = Some (file_bytes (ds_fs s3') i)"
    "file_time (ds_fs s3') i = ds_now s" "the_index r s3' = minimal_index (?f (dr_index dr2))"
    using dr2 by auto
  show ?thesis
  proof (rule that)
    show "os_look (ds_fs s') (dr_path dr @ [index_file]) = OsOk (NFile i)" using i(1) sv(2) by simp
    show "dl_dec_index DL (file_bytes (ds_fs s') i) = Some ((the_index r s')\<lparr>li_childManifests := []\<rparr>)"
      using i(2,4) sv(2,3) assms(2) unfolding codec_exact_def by simp
    show "file_time (ds_fs s') i = ds_now s" using i(3) sv(2) by simp
    show "i_schemaVersion (the_index r s') = 2" "i_mediaType (the_index r s') = mt_oci1_manifest_list"
      using i(4) sv(3) by (simp_all add: minimal_index_def)
  qed
qed

lemma layout_exists_files: "ds_fs s = ds_fs t \<Longrightarrow> fst (layout_exists L p s) = fst (layout_exists L p t)"
  by (cases "fs_do (os_stat p) s") (simp add: layout_exists_def fs_do_def case_prod_beta split: os_res.split bool.split)

text \<open>A store that starts on given files opens a repository.\<close>

lemma restart_repoGet:
  assumes "s = newDir conf procTime now rand (F\<lparr>fs_faults := []\<rparr>)"
    and "isLocal r" and "\<not> stringsHasAny (split_char CHR ''/'' r) [index_file, layout_file, blobs_dir]"
  obtains s' where "dir_repoGet L r s = (Inr (), s')"
    "fmlookup (ds_repos s') r =
       Some ((new_dir_repo conf r)\<lparr>dr_exists := fst (layout_exists L (dr_path (new_dir_repo conf r)) s), dr_wg := 1\<rparr>)"
    "ds_fs s' = F\<lparr>fs_faults := []\<rparr>" "ds_conf s' = conf" "ds_now s' = now" "\<not> ds_hung s'"
proof -
  let ?t = "s\<lparr>ds_cache := fst (cache_set (ds_now s) r r (ds_cache s)), ds_repos := fmupd r (new_dir_repo conf r) (ds_repos s)\<rparr>"
  obtain b t where lay: "layout_exists L (dr_path (new_dir_repo conf r)) ?t = (b, t)" by fastforce
  have t: "t = ?t" by (rule open_layout_quiet [OF lay]) (simp add: assms(1) newDir_def)
  have b: "b = fst (layout_exists L (dr_path (new_dir_repo conf r)) s)" using layout_exists_files [of ?t s] lay unfolding lay [symmetric, THEN arg_cong [where f = fst], simplified] by simp
  let ?s' = "upd_dr r (\<lambda>m. m\<lparr>dr_exists := b, dr_wg := dr_wg m + 1\<rparr>) t"
  show ?thesis
  proof (rule that)
    show "dir_repoGet L r s = (Inr (), ?s')"
      using assms(2,3) lay by (simp add: dir_repoGet_def assms(1) newDir_def cache_get_def cache_new_def open_repo_def Let_def)
    show "fmlookup (ds_repos ?s') r =
        Some ((new_dir_repo conf r)\<lparr>dr_exists := fst (layout_exists L (dr_path (new_dir_repo conf r)) s), dr_wg := 1\<rparr>)"
      using b by (simp add: t new_dir_repo_def Let_def)
  qed (simp_all add: t assms(1) newDir_def)
qed

text \<open>
  C4: An update of a converted index survives a restart.  Whenever \<open>IndexInsert\<close> returns without an error,
  whatever calls failed on its way, and the index it leaves is marked as converted
  (\<open>referrers-convert\<close> is true), a store with the referrers API enabled that starts later on the same
  files and has no fault serves every tag of the updated index with the same descriptor.  An index that
  was changed with the API off is converted by such a restart, and its fallback tags are not served.
\<close>

theorem dir_tags_durable:
  assumes "libs_ok L DL" and "codec_exact DL" and "dir_inv L DL R s" and "fmlookup (ds_repos s) r = Some dr"
    and "dir_indexInsert L DL r desc cs s = (Inr (), s')" and "ds_now s \<noteq> 0"
    and "map_get (i_annotations (the_index r s')) annot_referrer_convert = ''true''"
    and "refTagRE t" and "get_desc L (the_index r s') t = x"
    and "s2 = newDir conf procTime now rand ((ds_fs s')\<lparr>fs_faults := []\<rparr>)" and "now \<ge> freqCheck"
    and "repo_path (cs_rootDir (c_storage conf)) r = dr_path dr" and "ca_referrerEnabled (c_api conf) = Some True"
    and "isLocal r" and "\<not> stringsHasAny (split_char CHR ''/'' r) [index_file, layout_file, blobs_dir]"
    and "blob_names L DL (ds_fs s') (dr_path dr)"
  shows "\<exists>s3 li s4. dir_repoGet L r s2 = (Inr (), s3) \<and> dir_indexGet L DL r s3 = (Inr li, s4) \<and> get_desc L li t = x"
proof -
  obtain i where saved: "os_look (ds_fs s') (dr_path dr @ [index_file]) = OsOk (NFile i)"
      "dl_dec_index DL (file_bytes (ds_fs s') i) = Some ((the_index r s')\<lparr>li_childManifests := []\<rparr>)"
      "file_time (ds_fs s') i = ds_now s" "i_schemaVersion (the_index r s') = 2"
      "i_mediaType (the_index r s') = mt_oci1_manifest_list"
    using indexInsert_saved [OF assms(1-5)] .
  define b where "b = fst (layout_exists L (dr_path (new_dir_repo conf r)) s2)"
  obtain s3 where get: "dir_repoGet L r s2 = (Inr (), s3)"
    and dr3: "fmlookup (ds_repos s3) r = Some ((new_dir_repo conf r)\<lparr>dr_exists := b, dr_wg := 1\<rparr>)"
    and fr: "ds_fs s3 = (ds_fs s')\<lparr>fs_faults := []\<rparr>" "ds_conf s3 = conf" "ds_now s3 = now" "\<not> ds_hung s3"
    using restart_repoGet [OF assms(10,14,15)] unfolding b_def by metis
  have path: "dr_path (new_dir_repo conf r) = dr_path dr" using assms(12) by (simp add: new_dir_repo_def Let_def)
  have "\<exists>li' s4. dir_indexGet L DL r s3 = (Inr li', s4) \<and>
      i_manifests li' = i_manifests ((the_index r s')\<lparr>li_childManifests := []\<rparr>)"
  proof (rule first_indexGet [OF dr3])
    show "os_look (ds_fs s3) (dr_path (new_dir_repo conf r\<lparr>dr_exists := b, dr_wg := 1\<rparr>) @ [index_file]) = OsOk (NFile i)"
      using saved(1) path fr(1) by simp
    show "dl_dec_index DL (file_bytes (ds_fs s3) i) = Some ((the_index r s')\<lparr>li_childManifests := []\<rparr>)"
      using saved(2) fr(1) by simp
    show "blob_names L DL (ds_fs s3) (dr_path (new_dir_repo conf r\<lparr>dr_exists := b, dr_wg := 1\<rparr>))"
      using assms(16) path fr(1) by (simp add: blob_names_def)
  qed (use saved fr assms(6,7,11,13) in \<open>simp_all add: new_dir_repo_def Let_def\<close>)
  then obtain li' s4 where li': "dir_indexGet L DL r s3 = (Inr li', s4)" "i_manifests li' = i_manifests (the_index r s')"
    by auto
  then have "get_desc L li' t = x" using get_desc_same [OF assms(8)] assms(9) by metis
  then show ?thesis using get li'(1) by blast
qed

text \<open>
  The tag \<open>v1\<close> pushed to an empty directory \<open>/d/a\<close>, with a codec that knows the index that results.
\<close>

definition durable_desc :: descriptor where
  "durable_desc = zero_descriptor\<lparr>d_mediaType := mt_oci1_manifest, d_digest := ''sha256:x'',
     d_annotations := fmupd annot_ref_name ''v1'' fmempty\<rparr>"

definition durable_index :: layout_index where
  "durable_index = minimal_index (add_desc demo_lib 2000000000 durable_desc [] (default_index dir_conf))"

definition durable_lib :: dir_lib where
  "durable_lib = \<lparr>dl_encoded = drop 7,
     dl_dec_index = (\<lambda>b. if b = ''J'' then Some (durable_index\<lparr>li_childManifests := []\<rparr>) else None),
     dl_enc_index = (\<lambda>li. if li\<lparr>li_childManifests := []\<rparr> = durable_index\<lparr>li_childManifests := []\<rparr> then Some ''J'' else None),
     dl_enc_layout = (\<lambda>v. Some ''L'')\<rparr>"

definition durable_files :: fsys where
  "durable_files = empty_files\<lparr>fs_tree := fmupd [''d''] NDir (fmupd [''d'', ''a''] NDir fmempty)\<rparr>"

definition durable_store :: dir_store where
  "durable_store = (newDir dir_conf 0 2000000000 [] durable_files)\<lparr>ds_repos := fmupd ''a'' (new_dir_repo dir_conf ''a'') fmempty\<rparr>"

lemma durable_lib_ok: "codec_exact durable_lib" "libs_ok demo_lib durable_lib"
  by (auto simp: codec_exact_def libs_ok_def codec_ok_def demo_lib_ok durable_lib_def split: if_splits)

lemma durable_repo: "repo_path ''/d'' ''a'' = [''d'', ''a'']" "dr_path (new_dir_repo dir_conf ''a'') = [''d'', ''a'']"
  by (simp_all add: repo_path_def file_path_def new_dir_repo_def Let_def)

lemma durable_inv: "dir_inv demo_lib durable_lib [''d''] durable_store"
proof -
  have none: "\<not> file_at durable_files p i" for p i
    by (auto simp: durable_files_def empty_files_def split: if_splits)
  have "files_sound demo_lib durable_lib [''d''] durable_files"
    using none by (auto intro!: files_soundI simp: fs_wf_def) (simp_all add: durable_files_def empty_files_def)
  moreover have "repo_dir [''d''] [''d'', ''a'']" by (auto simp: repo_dir_def reserved_def)
  ultimately show ?thesis
    by (auto simp: dir_inv_def durable_store_def newDir_def heap_sound_def durable_repo dir_conf_fixed file_path_def)
qed

lemma durable_insert:
  "\<exists>s'. dir_indexInsert demo_lib durable_lib ''a'' durable_desc [] durable_store = (Inr (), s') \<and>
     the_index ''a'' s' = durable_index \<and> fs_tree (ds_fs s') =
       fmupd [''d'', ''a'', ''index.json''] (NFile 0) (fmdrop [''d'', ''a'', ''index.json.1'']
         (fmupd [''d'', ''a'', ''index.json.1''] (NFile 0) (fmupd [''d''] NDir (fmupd [''d'', ''a''] NDir fmempty))))"
  by (simp add: dir_indexInsert_def change_index_def with_mu_def durable_store_def newDir_def live_def durable_repo
      new_dir_repo_def Let_def dir_indexLoad_def freqCheck_def zero_layout_def empty_layout_def durable_files_def
      empty_files_def os_run upd_dr_def dir_indexSave_def replace_index_def durable_lib_def durable_index_def
      the_index_def timeNow_def)

lemma durable_tag:
  "refTagRE ''v1''" "get_desc demo_lib durable_index ''v1'' = Inr (stamp_created demo_lib 2000000000 durable_desc)"
  "map_get (i_annotations durable_index) annot_referrer_convert = ''true''"
proof -
  let ?d = "stamp_created demo_lib 2000000000 durable_desc"
  show tag: "refTagRE ''v1''" by (simp add: refTagRE_def tag_start_char_def tag_char_def alnum_char_def)
  have d: "tag_of ?d = ''v1''" "subject_of ?d = []"
    by (auto simp: stamp_created_def durable_desc_def annotationVal_def zero_descriptor_def annot_created_def annot_ref_name_def
        annot_referrer_subject_def)
  have li: "i_manifests (default_index dir_conf) = []" by (simp add: default_index_def empty_layout_def)
  have ms: "i_manifests durable_index = [?d]"
    using d li by (simp add: durable_index_def minimal_index_def add_desc_def Let_def place_desc_def add_history_def)
  then show "get_desc demo_lib durable_index ''v1'' = Inr ?d" using tag d by (simp add: get_desc_def)
  show "map_get (i_annotations durable_index) annot_referrer_convert = ''true''"
    using d by (simp add: durable_index_def minimal_index_def add_desc_def Let_def add_history_def default_index_def empty_layout_def map_get_def)
qed

lemma durable_names:
  assumes "fs_tree F = fmupd [''d'', ''a'', ''index.json''] (NFile 0) (fmdrop [''d'', ''a'', ''index.json.1'']
         (fmupd [''d'', ''a'', ''index.json.1''] (NFile 0) (fmupd [''d''] NDir (fmupd [''d'', ''a''] NDir fmempty))))"
  shows "blob_names L DL F [''d'', ''a'']"
  unfolding blob_names_def
proof (intro allI impI)
  fix d n
  assume "os_look F (blob_file L DL [''d'', ''a''] d) = OsOk n"
  from os_look_lookup [OF this] show "dig_parse L (dig_algorithm L d @ '':'' @ dl_encoded DL d) = Some d"
    by (simp add: assms blob_file_def)
qed

theorem dir_tags_durable_witness:
  "\<exists>s' s3 li s4. dir_indexInsert demo_lib durable_lib ''a'' durable_desc [] durable_store = (Inr (), s') \<and>
     dir_repoGet demo_lib ''a'' (newDir dir_conf 0 5000000000 [] ((ds_fs s')\<lparr>fs_faults := []\<rparr>)) = (Inr (), s3) \<and>
     dir_indexGet demo_lib durable_lib ''a'' s3 = (Inr li, s4) \<and>
     get_desc demo_lib li ''v1'' = Inr (stamp_created demo_lib 2000000000 durable_desc)"
proof -
  obtain s' where s': "dir_indexInsert demo_lib durable_lib ''a'' durable_desc [] durable_store = (Inr (), s')"
    "the_index ''a'' s' = durable_index" "fs_tree (ds_fs s') =
       fmupd [''d'', ''a'', ''index.json''] (NFile 0) (fmdrop [''d'', ''a'', ''index.json.1'']
         (fmupd [''d'', ''a'', ''index.json.1''] (NFile 0) (fmupd [''d''] NDir (fmupd [''d'', ''a''] NDir fmempty))))"
    using durable_insert by blast
  have repo: "fmlookup (ds_repos durable_store) ''a'' = Some (new_dir_repo dir_conf ''a'')" by (simp add: durable_store_def)
  have now: "ds_now durable_store \<noteq> 0" by (simp add: durable_store_def newDir_def)
  have "\<exists>s3 li s4. dir_repoGet demo_lib ''a'' (newDir dir_conf 0 5000000000 [] ((ds_fs s')\<lparr>fs_faults := []\<rparr>)) = (Inr (), s3) \<and>
      dir_indexGet demo_lib durable_lib ''a'' s3 = (Inr li, s4) \<and>
      get_desc demo_lib li ''v1'' = Inr (stamp_created demo_lib 2000000000 durable_desc)"
    by (rule dir_tags_durable [OF durable_lib_ok(2,1) durable_inv repo s'(1) now _ durable_tag(1) _ refl])
      (simp_all add: s'(2) durable_tag durable_repo durable_names [OF s'(3)] freqCheck_def isLocal_def stringsHasAny_def)
  then show ?thesis using s'(1) by blast
qed

end
