(* ===== verification/Dir_Push.thy ===== *)
theory Dir_Push
  imports Dir_Durable Push_Pull
begin

text \<open>
  A blob whose push the directory store has acknowledged is in its file, and a store that starts on the
  files later serves it.
\<close>

section \<open>A blob in the files\<close>

definition blob_stored :: "lib \<Rightarrow> dir_lib \<Rightarrow> path \<Rightarrow> digest \<Rightarrow> fsys \<Rightarrow> bool" where
  "blob_stored L DL p d F \<longleftrightarrow> (\<exists>i. os_look F (blob_file L DL p d) = OsOk (NFile i))"

lemma os_look_frame [simp]: "os_look (F\<lparr>fs_faults := es\<rparr>) p = os_look F p"
  by (simp add: os_look_def)

lemma blob_stored_faults [simp]: "blob_stored L DL p d (F\<lparr>fs_faults := es\<rparr>) = blob_stored L DL p d F"
  by (simp add: blob_stored_def)

lemma ancestors_shorter: "q \<in> set (ancestors b) \<Longrightarrow> length q < length b"
  by (auto simp: ancestors_def)

text \<open>A rename that succeeds puts the file under its new name.\<close>

lemma os_rename_target:
  assumes "os_rename a b F = (OsOk (), F')" and "b \<noteq> []"
  shows "\<exists>i. os_look F' b = OsOk (NFile i)"
  using assms(1) unfolding os_rename_def
proof (cases rule: os_callE)
  case (ran es)
  let ?F = "F\<lparr>fs_faults := es\<rparr>"
  obtain i where i: "os_look ?F a = OsOk (NFile i)" using ran by (auto split: os_res.splits fnode.splits)
  have F': "F' = set_node b (NFile i) (drop_node a ?F)"
    using ran i by (auto split: os_res.splits fnode.splits if_splits)
  have "\<not> list_ex (\<lambda>q. is_file (fmlookup (fs_tree ?F) q)) (ancestors b)"
  proof
    assume ex: "list_ex (\<lambda>q. is_file (fmlookup (fs_tree ?F) q)) (ancestors b)"
    then have "os_look ?F b = OsErr ''not a directory''" by (simp add: os_look_def)
    then show False using ran i by simp
  qed
  moreover have "b \<notin> set (ancestors b)" using ancestors_shorter by blast
  ultimately have "\<not> list_ex (\<lambda>q. is_file (fmlookup (fs_tree F') q)) (ancestors b)"
    by (auto simp: F' list_ex_iff is_file_def)
  then have "os_look F' b = OsOk (NFile i)" using assms(2) by (simp add: os_look_def F')
  then show ?thesis by blast
qed simp

lemma os_remove_stored:
  assumes "os_remove q F = (x, F')" and "q \<noteq> blob_file L DL p d" and "blob_stored L DL p d F"
  shows "blob_stored L DL p d F'"
  using assms(1)
proof (cases rule: os_removeE)
  case (1 es)
  then show ?thesis using assms(3) by simp
next
  case (2 es)
  then show ?thesis
    using assms(2,3) by (auto simp: blob_stored_def os_look_def list_ex_iff is_file_def split: if_splits option.splits)
qed

section \<open>Closing an upload\<close>

text \<open>The upload \<open>u\<close> will be stored below \<open>p\<close>.\<close>

definition homed :: "uid \<Rightarrow> path \<Rightarrow> dir_store \<Rightarrow> bool" where
  "homed u p s \<longleftrightarrow> (\<exists>du. fmlookup (ds_heap s) u = Some du \<and> du_path du = p)"

lemma homed_frame [simp]:
  "homed u p (upd_dr r f s) = homed u p s" "homed u p (hang s) = homed u p s"
  "homed u p (s\<lparr>ds_touch := ts\<rparr>) = homed u p s" "homed u p (s\<lparr>ds_fs := F\<rparr>) = homed u p s"
  "homed u p (s\<lparr>ds_cache := c\<rparr>) = homed u p s" "homed u p (dir_done r s) = homed u p s"
  by (simp_all add: homed_def hang_def dir_done_def)

lemma homed_upd_du [simp]: "(\<And>m. du_path (f m) = du_path m) \<Longrightarrow> homed u p (upd_du v f s) = homed u p s"
  by (auto simp: homed_def split: if_splits)

lemma homed_fs [simp]: "homed u p (snd (fs_do f s)) = homed u p s"
  by (cases "fs_do f s") (simp add: homed_def fs_do_frame)

text \<open>What deletes an upload removes no blob.\<close>

lemma drop_upload_stored:
  assumes "\<And>v dv. fmlookup (ds_heap s) v = Some dv \<Longrightarrow> du_filename dv \<noteq> blob_file L DL p d"
    and "blob_stored L DL p d (ds_fs s)"
  shows "blob_stored L DL p d (ds_fs (drop_upload du s))"
proof -
  have del: "blob_stored L DL p d (ds_fs (delete_upload u s))" for u
  proof (cases "fmlookup (ds_heap s) u")
    case (Some du')
    have fh: "blob_stored L DL p d (ds_fs (close_handle u s))"
      using assms(2)
      by (auto simp: close_handle_def fh_close_def split: option.split prod.split elim!: fs_doE os_callE)
    obtain x F where F: "os_remove (du_filename du') (ds_fs (close_handle u s)) = (x, F)" by fastforce
    from os_remove_stored [OF F assms(1) [OF Some] fh] show ?thesis using Some F by (simp add: delete_upload_def fs_do_def)
  qed (use assms(2) in \<open>simp add: delete_upload_def\<close>)
  show ?thesis
    using assms(2) del
    by (auto simp: drop_upload_def cache_delete_def upload_hooks_def split: option.split prod.split)
qed

lemma close_stores:
  assumes "dir_inv L DL R s" and "fmlookup (ds_heap s) u = Some du"
    and "wr_digest L (fst (du_w du)) (snd (du_w du)) = Some d" and "dir_close L DL u s = (Inr y, s')"
  shows "blob_stored L DL (du_path du) d (ds_fs s')"
proof -
  let ?bf = "blob_file L DL (du_path du) d"
  have q: "repo_dir R (du_path du)"
    using assms(1,2) heap_sound_upload unfolding dir_inv_def upload_sound_def by blast
  have names: "du_filename dv \<noteq> ?bf" if "fmlookup (ds_heap s) v = Some dv" for v dv
    using upload_filename [OF assms(1) that] upload_path_blob [OF _ q] by (metis blob_file_def)
  obtain x s1 where c: "(case du_fh du of None \<Rightarrow> (OsErr ''invalid argument'', s) | Some _ \<Rightarrow> fs_do fh_close s) = (x, s1)"
    by fastforce
  have heap1: "ds_heap s1 = ds_heap s" using c by (auto split: option.splits dest: fs_do_frame)
  define s2 where "s2 = upd_du u (\<lambda>m. m\<lparr>du_fh := None\<rparr>) s1"
  obtain s3 s4 where dir: "blob_directory (du_path du @ [blobs_dir, dig_algorithm L d]) s2 = (Inr (), s3)"
    and mv: "fs_do (os_rename (du_filename du) ?bf) s3 = (OsOk (), s4)" and s': "s' = drop_upload du s4"
    using assms(2-4) c
    by (auto simp: dir_close_def Let_def s2_def discard_temp_def split: if_splits prod.splits sum.splits os_res.splits)
  have heap: "ds_heap s4 = ds_heap s2"
    using dir mv by (auto simp: blob_directory_def split: prod.splits os_res.splits if_splits dest!: fs_do_frame(2))
  obtain F where F: "os_rename (du_filename du) ?bf (ds_fs s3) = (OsOk (), F)" "s4 = s3\<lparr>ds_fs := F\<rparr>"
    using mv by (rule fs_doE)
  have "?bf \<noteq> []" by (simp add: blob_file_def)
  then have "blob_stored L DL (du_path du) d (ds_fs s4)"
    using os_rename_target [OF F(1)] F(2) by (simp add: blob_stored_def)
  moreover have "du_filename dv \<noteq> ?bf" if "fmlookup (ds_heap s4) v = Some dv" for v dv
    using that names heap heap1 by (auto simp: s2_def split: if_splits)
  ultimately show ?thesis unfolding s' by (intro drop_upload_stored) auto
qed

text \<open>Verified: what the upload has hashed has the digest.\<close>

definition checked :: "lib \<Rightarrow> uid \<Rightarrow> path \<Rightarrow> digest \<Rightarrow> dir_store \<Rightarrow> bool" where
  "checked L u p d s \<longleftrightarrow> (\<exists>du. fmlookup (ds_heap s) u = Some du \<and> du_path du = p \<and>
     wr_digest L (fst (du_w du)) (snd (du_w du)) = Some d)"

lemma dir_verify_checked:
  assumes "writer_ok L" and "homed u p s" and "dir_verify L u d s = (Inr y, s')"
  shows "checked L u p d s'"
  using assms unfolding dir_verify_def checked_def homed_def writer_ok_def Let_def
  by (auto split: if_splits prod.splits os_res.splits option.splits dest!: fs_do_frame(2))

lemma homed_write: "homed u p s \<Longrightarrow> homed u p (snd (dir_write v b s))"
  by (simp add: dir_write_def case_prod_beta split: option.split sum.split os_res.split)

lemma homed_copy: "io_copy (dir_ops L DL) v cs fail s = (x, s') \<Longrightarrow> homed u p s \<Longrightarrow> homed u p s'"
proof -
  have "homed u p s \<Longrightarrow> homed u p (snd (copy_chunks (dir_ops L DL) v cs s))" for s
  proof (induction cs arbitrary: s)
    case (Cons c cs)
    have "homed u p (snd (live (Inl err_hung) (dir_write v c) s))" using homed_write Cons.prems by (auto simp: live_def)
    then show ?case using Cons.IH by (auto split: prod.split sum.split)
  qed simp
  then show "io_copy (dir_ops L DL) v cs fail s = (x, s') \<Longrightarrow> homed u p s \<Longrightarrow> homed u p s'"
    by (auto simp: io_copy_def split: prod.splits sum.splits if_splits) (metis snd_conv)+
qed

lemma dir_content_stored:
  assumes "libs_ok L DL" and "dir_inv L DL R s" and "homed u p s" and "unsent w"
    and "put_content L (dir_ops L DL) r d u req (s, w) = (s', w') \<or> post_monolithic L (dir_ops L DL) r d u req (s, w) = (s', w')"
    and "acked w' d'"
  shows "d' = d \<and> blob_stored L DL p d (ds_fs s')"
proof -
  obtain x1 s1 where copy: "io_copy (dir_ops L DL) u (rq_body req) (rq_body_fail req) s = (x1, s1)" by fastforce
  obtain x2 s2 where ver: "live (Inl err_hung) (dir_verify L u d) s1 = (x2, s2)" by fastforce
  obtain x3 s3 where cl: "live (Inl err_hung) (dir_close L DL u) s2 = (x3, s3)" by fastforce
  have ok: "isl x1 \<or> isl x2 \<or> isl x3 \<Longrightarrow> \<not> acked w' d'"
    using assms(4,5) copy ver cl
    by (cases x1; cases x2; cases x3) (auto simp: put_content_def post_monolithic_def unsent_def split: prod.splits)
  then obtain y1 y2 y3 where x: "x1 = Inr y1" "x2 = Inr y2" "x3 = Inr y3"
    using assms(6) by (cases x1; cases x2; cases x3) auto
  have run: "s' = s3" "w' = created_at [''/v2'', r, ''blobs'', d] d w"
    using assms(5) copy ver cl x by (auto simp: put_content_def post_monolithic_def)
  have inv1: "dir_inv L DL R s1"
    using dir_safe.keep_io_copy [OF copy, of R] assms(1,2) by (simp add: dir_safe_def)
  have v: "dir_verify L u d s1 = (Inr y2, s2)" and c: "dir_close L DL u s2 = (Inr y3, s3)"
    using ver cl x by (simp_all add: live_def split: if_splits)
  have inv2: "dir_inv L DL R s2" using dir_inv_verify [OF v inv1] .
  obtain du where du: "fmlookup (ds_heap s2) u = Some du" "du_path du = p"
    "wr_digest L (fst (du_w du)) (snd (du_w du)) = Some d"
    using dir_verify_checked [OF libs_okD(1) [OF assms(1)] homed_copy [OF copy assms(3)] v] by (auto simp: checked_def)
  from close_stores [OF inv2 du(1,3) c] show ?thesis
    using assms(4,6) run du(2) by (simp add: acked_created_at unsent_def)
qed

section \<open>Uploads of a repository\<close>

definition root_path :: "dir_store \<Rightarrow> string \<Rightarrow> path" where
  "root_path s r = repo_path (cs_rootDir (c_storage (ds_conf s))) r"

text \<open>The repository, if it is loaded, is at its place, and so are its uploads.\<close>

definition homes :: "string \<Rightarrow> dir_store \<Rightarrow> bool" where
  "homes r s \<longleftrightarrow> (\<forall>dr. fmlookup (ds_repos s) r = Some dr \<longrightarrow> dr_path dr = root_path s r \<and>
     (\<forall>sid u. cache_val (dr_uploads dr) sid = Some u \<longrightarrow> homed u (root_path s r) s))"

lemma root_path_frame [simp]:
  "root_path (upd_dr r' f s) r = root_path s r" "root_path (s\<lparr>ds_cache := c\<rparr>) r = root_path s r"
  "root_path (s\<lparr>ds_repos := m\<rparr>) r = root_path s r" "root_path (snd (fs_do g s)) r = root_path s r"
  "root_path (hang s) r = root_path s r"
  by (simp_all add: root_path_def hang_def) (cases "fs_do g s", simp add: fs_do_frame)

lemma fs_same: "fs_do f s = (x, s') \<Longrightarrow> ds_repos s' = ds_repos s \<and> ds_heap s' = ds_heap s \<and> ds_conf s' = ds_conf s"
  by (simp add: fs_do_frame)

lemma layout_exists_frame:
  "layout_exists L p s = (b, s') \<Longrightarrow> ds_repos s' = ds_repos s \<and> ds_heap s' = ds_heap s \<and> ds_conf s' = ds_conf s"
  by (auto simp: layout_exists_def split: prod.splits os_res.splits bool.splits dest!: fs_same)

lemma homes_open:
  assumes "dir_repoGet L r s = (Inr y, s')" and "homes r s"
  shows "homes r s' \<and> fmlookup (ds_repos s') r \<noteq> None \<and> root_path s' r = root_path s r"
proof -
  have upd: "homes r (upd_dr r (\<lambda>m. m\<lparr>dr_exists := b m, dr_wg := g m\<rparr>) t)" if "homes r t" for b g t
    using that by (auto simp: homes_def)
  have wg: "homes r (upd_dr r (\<lambda>m. m\<lparr>dr_wg := dr_wg m + 1\<rparr>) (s\<lparr>ds_cache := c\<rparr>))" for c
    using assms(2) by (auto simp: homes_def)
  show ?thesis
  proof (cases "fst (cache_get (ds_now s) r (ds_cache s))")
    case (Inr v)
    then show ?thesis using assms(1) wg
      by (auto simp: dir_repoGet_def Let_def split: if_splits prod.splits sum.splits option.splits)
  next
    case (Inl e)
    let ?dr = "new_dir_repo (ds_conf s) r"
    let ?t = "s\<lparr>ds_cache := fst (cache_set (ds_now s) r r (ds_cache s)), ds_repos := fmupd r ?dr (ds_repos s)\<rparr>"
    obtain b t where lay: "layout_exists L (dr_path ?dr) ?t = (b, t)" by fastforce
    have s': "s' = upd_dr r (\<lambda>m. m\<lparr>dr_exists := b, dr_wg := dr_wg m + 1\<rparr>) t"
      using assms(1) Inl lay
      by (auto simp: dir_repoGet_def open_repo_def Let_def split: if_splits prod.splits sum.splits)
    have t: "ds_repos t = fmupd r ?dr (ds_repos s)" "ds_conf t = ds_conf s"
      using layout_exists_frame [OF lay] by simp_all
    then have "root_path t r = root_path s r" by (simp add: root_path_def)
    moreover have "dr_path ?dr = root_path s r" "cache_val (dr_uploads ?dr) sid = None" for sid
      by (simp_all add: new_dir_repo_def Let_def root_path_def)
    ultimately have "homes r t" using t by (simp add: homes_def)
    then show ?thesis using upd \<open>root_path t r = root_path s r\<close> t unfolding s' by simp
  qed
qed

lemma session_homed:
  assumes "dir_blobSession r sid s = (Inr u, s')" and "homes r s"
  shows "homed u (root_path s r) s'"
proof -
  obtain dr c where dr: "fmlookup (ds_repos s) r = Some dr" "cache_get (ds_now s) sid (dr_uploads dr) = (Inr u, c)"
    and s': "homed u (root_path s r) s' = homed u (root_path s r) s"
    using assms(1) by (auto simp: dir_blobSession_def with_mu_def split: option.splits if_splits prod.splits sum.splits)
  then have "cache_val (dr_uploads dr) sid = Some u"
    using cache_get_result [of "ds_now s" sid "dr_uploads dr"] by (simp split: option.splits)
  then show ?thesis using assms(2) dr(1) s' by (auto simp: homes_def)
qed

lemma put_stored:
  assumes "libs_ok L DL" and "dir_inv L DL R s" and "homes r s" and "unsent w"
    and "blobUploadPut L (dir_ops L DL) r sid req (s, w) = (s', w')" and "acked w' d'"
  shows "blob_stored L DL (root_path s r) d' (ds_fs s')"
proof -
  obtain x s1 where get: "live (Inl err_hung) (dir_repoGet L r) s = (x, s1)" by fastforce
  obtain z s2 where sess: "live (Inl err_hung) (dir_blobSession r sid) s1 = (z, s2)" by fastforce
  have "\<exists>y u. x = Inr y \<and> z = Inr u"
    using assms(4-6) get sess
    by (cases x; cases z) (auto simp: blobUploadPut_def with_session_def with_repo_def unsent_def Let_def)
  then obtain y u where xz: "x = Inr y" "z = Inr u" by blast
  have g: "dir_repoGet L r s = (Inr y, s1)" and b: "dir_blobSession r sid s1 = (Inr u, s2)"
    using get sess xz by (simp_all add: live_def split: if_splits)
  define t where "t = (if ds_hung s2 then s2 else dir_done r s2)"
  have home: "homed u (root_path s r) t"
    using session_homed [OF b] homes_open [OF g assms(3)] by (simp add: t_def)
  have inv: "dir_inv L DL R t"
    using dir_inv_done dir_inv_blobSession [OF b] dir_inv_repoGet [OF g assms(2)] by (simp add: t_def)
  have alg: "homed u (root_path s r) (snd (live (Inl err_hung) (dir_changeAlgorithm u a) t))"
    "dir_inv L DL R (snd (live (Inl err_hung) (dir_changeAlgorithm u a) t))" for a
    using home inv dir_inv_changeAlgorithm [of u a t _ _ L DL R]
    by (auto simp: live_def dir_changeAlgorithm_def split: option.split)
  have put: "blob_stored L DL (root_path s r) d' (ds_fs s')"
    if "put_content L (dir_ops L DL) r d u req (t', w) = (s', w')" "homed u (root_path s r) t'" "dir_inv L DL R t'" for d t'
    using dir_content_stored [OF assms(1) that(3,2) assms(4) _ assms(6)] that(1) by blast
  have "so_done (dir_ops L DL) r s2 = t" by (simp add: t_def)
  then have run: "blobUploadPut L (dir_ops L DL) r sid req (s, w) =
    (if \<not> blobValidRange (hdr_get (rq_header req) ''content-range'') (dir_size u t) then (t, bad_range (dir_size u t) w)
     else case dig_parse L (query_get req ''digest'') of
         None \<Rightarrow> (t, resp_err 400 [errInfoDigestInvalid ''invalid or missing digest''] w)
       | Some d \<Rightarrow>
         let t1 = (if dir_size u t = 0 \<and> dig_algorithm L d \<noteq> dig_algorithm L (dir_digest L u t)
                   then snd (live (Inl err_hung) (dir_changeAlgorithm u (dig_algorithm L d)) t) else t) in
         if \<not> upload_state_ok L req (dir_size u t1) then
           (t1, resp_err 400 [errInfoBlobUploadInvalid ''invalid state''] w)
         else put_content L (dir_ops L DL) r d u req (t1, w))"
    using get sess xz by (simp add: blobUploadPut_def with_session_def with_repo_def Let_def del: dir_ops_simps(2) cong: if_cong option.case_cong)
  show ?thesis
    using assms(4-6) home inv alg unfolding run
    by (auto simp: unsent_def Let_def split: if_splits option.splits intro: put)
qed

text \<open>A new upload is one of the repository; what is said to exist has a name in the files.\<close>

lemma start_homed: "start_session r p bc sid c s = (Inr (u, sid'), s') \<Longrightarrow> homed u p s'"
  by (auto simp: start_session_def Let_def homed_def split: prod.splits os_res.splits)

lemma create_session_homed:
  assumes "create_session r bc s = (Inr (u, sid), s')" and "path_at r p n s"
  shows "homed u p s'"
proof -
  obtain dr where dr: "fmlookup (ds_repos s) r = Some dr" "dr_path dr = p" using assms(2) by (auto simp: path_at_def)
  show ?thesis
    using assms(1) dr
    by (auto simp: create_session_def Let_def split: list.splits sum.splits prod.splits dest: start_homed)
qed

lemma create_homed:
  assumes "dir_blobCreate L DL r opts s = (Inr (u, sid), s')" and "path_at r p n s"
  shows "homed u p s'"
proof -
  have session: "homed u p t'" if "with_mu r (Inl err_hung) (create_session r bc) t = (Inr (u, sid), t')" "path_at r p n t" for bc t t'
    using that create_session_homed [of r bc "upd_dr r (\<lambda>m. m\<lparr>dr_mu := True\<rparr>) t" u sid _ p n]
    by (auto simp: with_mu_def split: option.splits if_splits prod.splits)
  have init: "path_at r p n t" if "dir_repoInit L DL r s = (x, t)" for x t
    using path_at_repoInit [OF assms(2), of L DL r] that by simp
  have stat: "path_at r p n t'" if "fs_do (os_stat q) t = (x, t')" "path_at r p n t" for q x t t'
    using path_at_fs [of r p n "os_stat q" t] that by simp
  show ?thesis
    using assms unfolding dir_blobCreate_def
    by (auto split: if_splits sum.splits option.splits prod.splits os_res.splits intro: session init stat)
qed

lemma os_err_not_exists [simp]: "os_err x \<noteq> ErrBlobExists"
  by (simp add: os_err_def split: os_res.split)

lemma create_session_not_exists: "with_mu r (Inl err_hung) (create_session r bc) s \<noteq> (Inl ErrBlobExists, s')"
  by (auto simp: with_mu_def create_session_def start_session_def Let_def
      split: option.splits if_splits prod.splits sum.splits list.splits os_res.splits)

lemma indexSave_not_exists: "fst (dir_indexSave DL r s) \<noteq> Inl ErrBlobExists"
  by (simp add: dir_indexSave_def replace_index_def discard_temp_def Let_def case_prod_beta
      split: option.split os_res.split)

lemma init_not_exists:
  "fst (init_directory p s) \<noteq> Inl ErrBlobExists" "fst (init_layout L DL p s) \<noteq> Inl ErrBlobExists"
  "fst (init_index DL r p s) \<noteq> Inl ErrBlobExists"
  by (simp_all add: init_directory_def init_layout_def init_index_def indexSave_not_exists case_prod_beta
      split: option.split os_res.split)

lemma with_mu_not_exists:
  "(\<And>t. fst (f t) \<noteq> Inl ErrBlobExists) \<Longrightarrow> fst (with_mu r (Inl err_hung) f s) \<noteq> Inl ErrBlobExists"
  by (simp add: with_mu_def case_prod_beta split: option.split)

lemma repoInit_not_exists: "dir_repoInit L DL r s \<noteq> (Inl ErrBlobExists, s')"
proof -
  have init: "init_directory p t \<noteq> (Inl ErrBlobExists, t')" "init_layout L DL p t \<noteq> (Inl ErrBlobExists, t')"
    "init_index DL r p t \<noteq> (Inl ErrBlobExists, t')" for p t t'
    by (metis fst_conv init_not_exists)+
  have "fst (dir_repoInit L DL r s) \<noteq> Inl ErrBlobExists"
    unfolding dir_repoInit_def
    by (rule with_mu_not_exists) (auto simp: init split: option.split sum.splits prod.splits)
  then show ?thesis by (metis fst_conv)
qed

lemma opts_not_exists: "apply_blob_opts L opts bc = Inl e \<Longrightarrow> e \<noteq> ErrBlobExists"
  by (induction opts arbitrary: bc; simp) (auto elim: apply_blob_opt.elims split: sum.splits if_splits)

lemma create_exists:
  assumes "dir_blobCreate L DL r opts s = (Inl ErrBlobExists, s')" and "path_at r p n s"
  shows "\<exists>bc m. apply_blob_opts L opts \<lparr>bo_algo = dig_canonical L, bo_expect = []\<rparr> = Inr bc \<and> bo_expect bc \<noteq> [] \<and>
    os_look (ds_fs s') (blob_file L DL p (bo_expect bc)) = OsOk m"
proof -
  obtain dr where dr: "fmlookup (ds_repos s) r = Some dr" "dr_path dr = p" using assms(2) by (auto simp: path_at_def)
  have stat: "\<exists>m. os_look (ds_fs t') q = OsOk m" if "fs_do (os_stat q) t = (OsOk v, t')" for q t v t'
    using that by (auto simp: os_stat_def elim!: fs_doE os_callE split: os_res.splits)
  show ?thesis
    using assms(1) dr unfolding dir_blobCreate_def
    by (auto simp: dig_is_zero_def create_session_not_exists repoInit_not_exists opts_not_exists
        split: if_splits sum.splits prod.splits os_res.splits dest: stat)
qed

lemma apply_algorithms:
  "\<forall>q\<in>set opts. \<exists>a. q = BlobWithAlgorithm a \<Longrightarrow> apply_blob_opts L opts bc = Inr bc' \<Longrightarrow> bo_expect bc' = bo_expect bc"
  by (induction opts arbitrary: bc) fastforce+

lemma post_stored:
  assumes "libs_ok L DL" and "dir_inv L DL R s" and "homes r s" and "unsent w" and "query_get req ''mount'' = []"
    and "blobUploadPost L (dir_ops L DL) conf r req (s, w) = (s', w')" and "acked w' d'"
    and "os_look (ds_fs s') (blob_file L DL (root_path s r) d') \<noteq> OsOk NDir"
  shows "blob_stored L DL (root_path s r) d' (ds_fs s')"
proof -
  let ?p = "root_path s r"
  have post: "post_upload L (dir_ops L DL) r req (s, w) = (s', w')"
    using assms(4-7) by (auto simp: blobUploadPost_def Let_def unsent_def split: if_splits)
  obtain opts d where o: "post_options L req = Inr (opts, d)"
    using post assms(4,7) by (cases "post_options L req") (auto simp: post_upload_def unsent_def)
  note opts = post_options_digest [OF o]
  obtain x s1 where get: "live (Inl err_hung) (dir_repoGet L r) s = (x, s1)" by fastforce
  obtain res s2 where create: "live (Inl err_hung) (dir_blobCreate L DL r opts) s1 = (res, s2)" by fastforce
  define t where "t = (if ds_hung s2 then s2 else dir_done r s2)"
  have "so_done (dir_ops L DL) r s2 = t" by (simp add: t_def)
  then have run: "(case x of Inl e \<Rightarrow> (s1, repoGet_err e w) | Inr _ \<Rightarrow>
      (case res of
         Inl e \<Rightarrow> (t, if e = ErrBlobExists then created_at [''/v2'', r, ''blobs'', d] d w else writeHeader 500 w)
       | Inr (u, sid) \<Rightarrow>
         if query_get req ''digest'' \<noteq> [] then post_monolithic L (dir_ops L DL) r d u req (t, w)
         else (t, writeHeader 202 (upload_location L (path_clean (rq_path req @ CHR ''/'' # sid)) 0 w)))) = (s', w')"
    using post o get create
    by (cases x; cases res) (auto simp: post_upload_def with_repo_def Let_def simp del: dir_ops_simps(2) split: prod.splits)
  obtain y where x: "x = Inr y" using run assms(4,7) by (cases x) (auto simp: unsent_def)
  then have g: "dir_repoGet L r s = (Inr y, s1)" using get by (simp add: live_def split: if_splits)
  have s1: "homes r s1" "fmlookup (ds_repos s1) r \<noteq> None" "root_path s1 r = ?p" using homes_open [OF g assms(3)] by blast+
  then have at: "path_at r ?p (ds_now s1) s1" by (auto simp: homes_def path_at_def)
  have inv1: "dir_inv L DL R s1" using dir_inv_repoGet [OF g assms(2)] .
  show ?thesis
  proof (cases res)
    case (Inl e)
    then have e: "e = ErrBlobExists" and d: "d' = d" and s': "s' = t"
      using run x assms(4,7) by (auto simp: unsent_def acked_created_at split: if_splits)
    then have "dir_blobCreate L DL r opts s1 = (Inl ErrBlobExists, s2)"
      using create Inl by (simp add: live_def split: if_splits)
    from create_exists [OF this at] obtain bc m where
      bc: "apply_blob_opts L opts \<lparr>bo_algo = dig_canonical L, bo_expect = []\<rparr> = Inr bc" "bo_expect bc \<noteq> []"
        "os_look (ds_fs s2) (blob_file L DL ?p (bo_expect bc)) = OsOk m" by blast
    have "bo_expect bc = d" using opts bc apply_blob_opts_digest apply_algorithms by fastforce
    moreover have "ds_fs s' = ds_fs s2" by (simp add: s' t_def dir_done_def)
    ultimately show ?thesis using bc(3) assms(8) d by (cases m) (auto simp: blob_stored_def)
  next
    case (Inr usid)
    obtain u sid where usid: "usid = (u, sid)" by (cases usid)
    then have mono: "post_monolithic L (dir_ops L DL) r d u req (t, w) = (s', w')"
      using run x Inr assms(4,7) by (auto simp: unsent_def upload_location_def split: if_splits)
    have c: "dir_blobCreate L DL r opts s1 = (Inr (u, sid), s2)"
      using create Inr usid by (simp add: live_def split: if_splits)
    have "homed u ?p t" using create_homed [OF c at] by (simp add: t_def)
    moreover have "dir_inv L DL R t"
      using dir_inv_done dir_inv_blobCreate [OF libs_okD(3) [OF assms(1)] c inv1] by (simp add: t_def)
    ultimately show ?thesis using dir_content_stored [OF assms(1) _ _ assms(4) _ assms(7)] mono by blast
  qed
qed

section \<open>The round trip\<close>

text \<open>What is stored under a digest hashes to it.\<close>

lemma stored_sound:
  assumes "digest_ok L" and "dir_inv L DL R s" and "repo_dir R p" and "blob_names L DL (ds_fs s) p" and "d \<noteq> []"
    and "os_look (ds_fs s) (blob_file L DL p d) = OsOk (NFile i)"
  shows "dig_from_bytes L (dig_algorithm L d) (file_bytes (ds_fs s) i) = Some d"
proof -
  have "file_at (ds_fs s) (blob_file L DL p d) i" using os_look_lookup [OF assms(6)] by (simp add: blob_file_def)
  moreover have "blob_path R (blob_file L DL p d) (dig_algorithm L d) (dl_encoded DL d)"
    using assms(3) by (auto simp: blob_path_def blob_file_def)
  ultimately obtain d' where d': "dig_from_bytes L (dig_algorithm L d) (file_bytes (ds_fs s) i) = Some d'"
      "dl_encoded DL d' = dl_encoded DL d"
    using assms(2) unfolding dir_inv_def files_sound_def blob_sound_def by blast
  then have "dig_algorithm L d' = dig_algorithm L d" "d' \<noteq> []" using assms(1) unfolding digest_ok_def by fastforce+
  then have "blob_file L DL p d = blob_file L DL p d'" using d'(2) by (simp add: blob_file_def)
  then have "d = d'" by (rule blob_file_inj [OF assms(4,5) \<open>d' \<noteq> []\<close> assms(6)])
  then show ?thesis using d'(1) by simp
qed

text \<open>An acknowledged push stores the blob and keeps the invariant.\<close>

lemma push_stored:
  assumes "libs_ok L DL" and "dir_inv L DL R s" and "homes r s" and "query_get req ''mount'' = []"
    and "push_request L (dir_ops L DL) conf r p req (s, new_rw) = (s', w')" and "acked w' d"
    and "os_look (ds_fs s') (blob_file L DL (root_path s r) d) \<noteq> OsOk NDir"
  shows "blob_stored L DL (root_path s r) d (ds_fs s') \<and> dir_inv L DL R s'"
proof (cases p)
  case PushPost
  then show ?thesis
    using post_stored [OF assms(1-3) unsent_new assms(4) _ assms(6,7)] dir_safe.keep_blobUploadPost [of L DL R s L conf r req new_rw]
      assms(1,2,5) by (simp add: dir_safe_def)
next
  case (PushPut sid)
  then show ?thesis
    using put_stored [OF assms(1-3) unsent_new _ assms(6)] dir_safe.keep_blobUploadPut [of L DL R s L r sid req new_rw]
      assms(1,2,5) by (simp add: dir_safe_def)
qed

text \<open>
  C5: A blob push that the directory store acknowledges with status 201, by a POST with the content or
  by the PUT that ends a session (not a mount), survives a restart, whatever calls of the operating
  system failed during the push, but for the second reading of the upload in \<open>Verify\<close>: a server that
  starts later on the files and has no fault answers a pull of the digest with status 200 and a content
  that hashes to it.  The restart has to find the layout of the repository (\<open>layout_exists\<close>: a
  collection that found the index empty may have removed it, and later pushes do not write it again),
  and no directory may have the name of the blob.
\<close>

theorem dir_blob_durable:
  assumes "libs_ok L DL" and "dir_inv L DL R s" and "homes r s" and "query_get req ''mount'' = []"
    and "push_request L (dir_ops L DL) conf r p req (s, new_rw) = (s', w')" and "acked w' d" and "dig_parse L d = Some d"
    and "os_look (ds_fs s') (blob_file L DL (root_path s r) d) \<noteq> OsOk NDir"
    and "s2 = newDir conf' procTime now rand ((ds_fs s')\<lparr>fs_faults := []\<rparr>)"
    and "repo_path (cs_rootDir (c_storage conf')) r = root_path s r" and "fst (layout_exists L (root_path s r) s2)"
    and "isLocal r" and "\<not> stringsHasAny (split_char CHR ''/'' r) [index_file, layout_file, blobs_dir]"
    and "blob_names L DL (ds_fs s') (root_path s r)"
    and "hdr_values (rq_header g) ''Range'' = []" and "rq_method g = ''GET''"
    and "blobGet L (dir_ops L DL) r d g (s2, new_rw) = (s3, w3)"
  shows "rw_status w3 = 200 \<and> (\<exists>b. rw_body w3 = [ChunkBytes b] \<and> dig_from_bytes L (dig_algorithm L d) b = Some d)"
proof -
  let ?p = "root_path s r"
  have dig: "digest_ok L" "d \<noteq> []" using libs_okD(2) [OF assms(1)] parsed_digest assms(7) by auto
  have put: "blob_stored L DL ?p d (ds_fs s')" "dir_inv L DL R s'"
    using push_stored [OF assms(1-6,8)] by auto
  have dir: "repo_dir R ?p"
    using repo_path_dir [OF assms(12,13)] assms(2) unfolding dir_inv_def root_path_def by metis
  obtain i where i: "os_look (ds_fs s') (blob_file L DL ?p d) = OsOk (NFile i)"
    using put(1) by (auto simp: blob_stored_def)
  have path: "dr_path (new_dir_repo conf' r) = ?p" using assms(10) by (simp add: new_dir_repo_def Let_def)
  obtain s4 where get: "dir_repoGet L r s2 = (Inr (), s4)"
    and s4: "fmlookup (ds_repos s4) r = Some ((new_dir_repo conf' r)\<lparr>dr_exists := True, dr_wg := 1\<rparr>)"
      "ds_fs s4 = (ds_fs s')\<lparr>fs_faults := []\<rparr>" "\<not> ds_hung s4"
    using restart_repoGet [OF assms(9,12,13), of L] assms(11) path by metis
  have fs2: "\<not> ds_hung s2" by (simp add: assms(9) newDir_def)
  have read: "dir_blobGet L DL r d s4 = (Inr (Inr (file_bytes (ds_fs s') i)), s4)"
    using i dig(2) path
    by (simp add: dir_blobGet_def s4 dig_is_zero_def fs_do_def os_open_def os_call_ok node_read_def)
  have "w3 = serve_content g (file_bytes (ds_fs s') i)
      (header_add ''Docker-Content-Digest'' d (header_add ''Content-Type'' ''application/octet-stream'' new_rw))"
    using assms(7,17) get read s4(3) fs2
    by (simp add: blobGet_def with_repo_def live_def Let_def serve_reader_def)
  then show ?thesis
    using serve_content_whole [OF assms(15)] stored_sound [OF dig(1) put(2) dir assms(14) dig(2) i] assms(16) by simp
qed

text \<open>The push of the blob \<open>x\<close> to an empty root, for a library that reads every layout file.\<close>

definition push_lib :: lib where
  "push_lib = demo_lib\<lparr>json_layout := (\<lambda>b. Some ''1.0.0'')\<rparr>"

definition pushed_tree :: "(path, fnode) fmap" where
  "pushed_tree = fmupd [''d'', ''a'', ''blobs'', ''sha256'', ''x''] (NFile 2)
     (fmdrop [''d'', ''a'', ''_uploads'', ''upload.2''] (fmupd [''d'', ''a'', ''blobs'', ''sha256''] NDir
     (fmupd [''d'', ''a'', ''blobs''] NDir (fmupd [''d'', ''a'', ''_uploads'', ''upload.2''] (NFile 2)
     (fmupd [''d'', ''a'', ''_uploads''] NDir (fmupd [''d'', ''a'', ''index.json''] (NFile 1)
     (fmdrop [''d'', ''a'', ''index.json.1''] (fmupd [''d'', ''a'', ''index.json.1''] (NFile 1)
     (fmupd [''d'', ''a'', ''oci-layout''] (NFile 0) (fmupd [''d'', ''a''] NDir (fmupd [''d''] NDir fmempty)))))))))))"

lemma push_run:
  "\<exists>s1. blobUploadPost push_lib (dir_ops push_lib demo_dir_lib) dir_conf ''a'' demo_post (blank_dir, new_rw) =
     (s1, created_at [''/v2'', ''a'', ''blobs'', ''sha256:x''] ''sha256:x'' new_rw) \<and> fs_tree (ds_fs s1) = pushed_tree"
  by (simp add: dir_push_defs push_lib_def pushed_tree_def numeral_2_eq_2)

lemma pushed_path: "root_path blank_dir ''a'' = [''d'', ''a'']" "repo_path ''/d'' ''a'' = [''d'', ''a'']"
  by (simp_all add: root_path_def blank_dir_def newDir_def repo_path_def file_path_def)

lemma pushed_layout:
  assumes "fs_tree F = pushed_tree"
  shows "fst (layout_exists push_lib [''d'', ''a''] (newDir dir_conf 0 0 [] (F\<lparr>fs_faults := []\<rparr>)))"
  using assms
  by (simp add: layout_exists_def newDir_def fs_do_def os_stat_def os_readFile_def os_call_def os_look_def pushed_tree_def
      ancestors_def upt_rec is_file_def layoutVerify_def push_lib_def)

lemma pushed_names:
  assumes "fs_tree F = pushed_tree"
  shows "blob_names push_lib demo_dir_lib F [''d'', ''a'']"
  unfolding blob_names_def
proof (intro allI impI)
  fix d n
  assume "os_look F (blob_file push_lib demo_dir_lib [''d'', ''a''] d) = OsOk n"
  from os_look_lookup [OF this] have d: "takeWhile (\<lambda>c. c \<noteq> CHR '':'') d = ''sha256''" "drop 7 d = ''x''"
    by (auto simp: assms pushed_tree_def blob_file_def push_lib_def demo_lib_def demo_dir_lib_def split: if_splits)
  then have "d = ''sha256'' @ dropWhile (\<lambda>c. c \<noteq> CHR '':'') d" by (metis takeWhile_dropWhile_id)
  moreover obtain c cs where c: "dropWhile (\<lambda>c. c \<noteq> CHR '':'') d = c # cs"
    using calculation d(2) by (cases "dropWhile (\<lambda>c. c \<noteq> CHR '':'') d") auto
  moreover have "c = CHR '':''" using hd_dropWhile [of "\<lambda>c. c \<noteq> CHR '':''" d] c by simp
  ultimately have "d = ''sha256:'' @ cs" by simp
  then show "dig_parse push_lib (dig_algorithm push_lib d @ '':'' @ dl_encoded demo_dir_lib d) = Some d"
    using d(2) by (simp add: push_lib_def demo_lib_def demo_dir_lib_def)
qed

theorem dir_blob_durable_witness:
  "\<exists>s1 w1 s3 w3. push_request push_lib (dir_ops push_lib demo_dir_lib) dir_conf ''a'' PushPost demo_post (blank_dir, new_rw) = (s1, w1) \<and>
     acked w1 ''sha256:x'' \<and>
     blobGet push_lib (dir_ops push_lib demo_dir_lib) ''a'' ''sha256:x'' alice_request
       (newDir dir_conf 0 0 [] ((ds_fs s1)\<lparr>fs_faults := []\<rparr>), new_rw) = (s3, w3) \<and>
     rw_status w3 = 200 \<and>
     (\<exists>b. rw_body w3 = [ChunkBytes b] \<and> dig_from_bytes push_lib (dig_algorithm push_lib ''sha256:x'') b = Some ''sha256:x'')"
proof -
  obtain s1 where push: "blobUploadPost push_lib (dir_ops push_lib demo_dir_lib) dir_conf ''a'' demo_post (blank_dir, new_rw) =
      (s1, created_at [''/v2'', ''a'', ''blobs'', ''sha256:x''] ''sha256:x'' new_rw)" and tree: "fs_tree (ds_fs s1) = pushed_tree"
    using push_run by blast
  define w1 where "w1 = created_at [''/v2'', ''a'', ''blobs'', ''sha256:x''] ''sha256:x'' new_rw"
  have run: "push_request push_lib (dir_ops push_lib demo_dir_lib) dir_conf ''a'' PushPost demo_post (blank_dir, new_rw) = (s1, w1)"
    using push by (simp add: w1_def)
  have ack: "acked w1 ''sha256:x''" using unsent_new by (simp add: w1_def acked_created_at unsent_def)
  obtain s3 w3 where pull: "blobGet push_lib (dir_ops push_lib demo_dir_lib) ''a'' ''sha256:x'' alice_request
       (newDir dir_conf 0 0 [] ((ds_fs s1)\<lparr>fs_faults := []\<rparr>), new_rw) = (s3, w3)" by fastforce
  have libs: "libs_ok push_lib demo_dir_lib"
    using demo_dir_lib_ok(2) by (simp add: libs_ok_def push_lib_def writer_ok_def digest_ok_def)
  have inv: "dir_inv push_lib demo_dir_lib [''d''] blank_dir"
    using empty_files_sound by (simp add: dir_inv_def blank_dir_def newDir_def heap_sound_def file_path_def)
  have home: "homes ''a'' blank_dir" by (simp add: homes_def blank_dir_def newDir_def)
  have "rw_status w3 = 200 \<and> (\<exists>b. rw_body w3 = [ChunkBytes b] \<and>
      dig_from_bytes push_lib (dig_algorithm push_lib ''sha256:x'') b = Some ''sha256:x'')"
  proof (rule dir_blob_durable [OF libs inv home _ run ack _ _ refl _ _ _ _ _ _ _ pull])
    show "os_look (ds_fs s1) (blob_file push_lib demo_dir_lib (root_path blank_dir ''a'') ''sha256:x'') \<noteq> OsOk NDir"
      by (simp add: os_look_def tree pushed_tree_def pushed_path blob_file_def push_lib_def demo_lib_def demo_dir_lib_def)
  qed (use pushed_layout [OF tree] pushed_names [OF tree] in
      \<open>simp_all add: pushed_path query_get_def query_values_def demo_post_def push_lib_def demo_lib_def stringsHasAny_def
        isLocal_def alice_request_def hdr_values_def\<close>)
  then show ?thesis using run ack pull by blast
qed

end
