(* ===== verification/Lock_Pools.thy ===== *)
theory Lock_Pools
  imports Config
begin

text \<open>
  Goroutines that take mutexes and wait for wait groups.  A call is modelled by the sequence of such
  actions it performs, on each way through its code, and a pool of goroutines by the interleavings of
  their sequences.  The pool makes progress when each goroutine waits only in ascending order of a rank.
\<close>

section \<open>Mutexes and goroutines\<close>

text \<open>
  A mutex is held by one goroutine at a time, a wait group by each that has added itself to it.  \<open>Lock\<close>
  waits until nobody holds the mutex, \<open>Await\<close> until nobody holds the wait group; \<open>Join\<close> is \<open>Add\<close>, and
  \<open>Unlock\<close> also stands for \<open>Done\<close>.
\<close>

datatype 'm action = Lock 'm | Unlock 'm | Join 'm | Await 'm

type_synonym 'm pool = "('m \<Rightarrow> nat set) \<times> 'm action list list"

text \<open>Goroutine \<open>i\<close> of the pool performs its next action.\<close>

inductive lock_step :: "'m pool \<Rightarrow> 'm pool \<Rightarrow> bool" where
  take: "i < length ts \<Longrightarrow> ts ! i = Lock m # as \<Longrightarrow> own m = {} \<Longrightarrow> lock_step (own, ts) (own(m := {i}), ts[i := as])"
| release: "i < length ts \<Longrightarrow> ts ! i = Unlock m # as \<Longrightarrow> i \<in> own m \<Longrightarrow>
    lock_step (own, ts) (own(m := own m - {i}), ts[i := as])"
| join: "i < length ts \<Longrightarrow> ts ! i = Join m # as \<Longrightarrow> lock_step (own, ts) (own(m := insert i (own m)), ts[i := as])"
| pass: "i < length ts \<Longrightarrow> ts ! i = Await m # as \<Longrightarrow> own m = {} \<Longrightarrow> lock_step (own, ts) (own, ts[i := as])"

inductive_cases lock_stepE: "lock_step (own, ts) p"

text \<open>What a sequence of actions still has to release.\<close>

fun owed :: "'m action list \<Rightarrow> 'm set" where
  "owed [] = {}"
| "owed (Lock m # as) = owed as - {m}"
| "owed (Unlock m # as) = insert m (owed as)"
| "owed (Join m # as) = owed as - {m}"
| "owed (Await m # as) = owed as"

text \<open>What is taken is released once.\<close>

fun balanced :: "'m action list \<Rightarrow> bool" where
  "balanced [] \<longleftrightarrow> True"
| "balanced (Lock m # as) \<longleftrightarrow> m \<in> owed as \<and> balanced as"
| "balanced (Unlock m # as) \<longleftrightarrow> m \<notin> owed as \<and> balanced as"
| "balanced (Join m # as) \<longleftrightarrow> m \<in> owed as \<and> balanced as"
| "balanced (Await m # as) \<longleftrightarrow> balanced as"

text \<open>A goroutine waits only for what comes after all it holds in the order of a rank.\<close>

fun ascending :: "('m \<Rightarrow> nat) \<Rightarrow> 'm action list \<Rightarrow> bool" where
  "ascending rk [] \<longleftrightarrow> True"
| "ascending rk (Lock m # as) \<longleftrightarrow> (\<forall>h \<in> owed as - {m}. rk h < rk m) \<and> ascending rk as"
| "ascending rk (Unlock m # as) \<longleftrightarrow> ascending rk as"
| "ascending rk (Join m # as) \<longleftrightarrow> ascending rk as"
| "ascending rk (Await m # as) \<longleftrightarrow> (\<forall>h \<in> owed as. rk h < rk m) \<and> ascending rk as"

definition with_lock :: "'m \<Rightarrow> 'm action list \<Rightarrow> 'm action list" where
  "with_lock m body = Lock m # body @ [Unlock m]"

text \<open>A sequence that gives back what it takes and may run while all that is held is below \<open>n\<close>.\<close>

definition tidy :: "('m \<Rightarrow> nat) \<Rightarrow> nat \<Rightarrow> 'm action list \<Rightarrow> bool" where
  "tidy rk n as \<longleftrightarrow> (\<forall>bs. (\<forall>h \<in> owed bs. rk h < n) \<longrightarrow> owed (as @ bs) = owed bs \<and>
     (balanced bs \<longrightarrow> balanced (as @ bs)) \<and> (ascending rk bs \<longrightarrow> ascending rk (as @ bs)))"

lemma tidy_Nil [simp]: "tidy rk n []"
  by (simp add: tidy_def)

lemma tidy_append [intro]: "tidy rk n as \<Longrightarrow> tidy rk n bs \<Longrightarrow> tidy rk n (as @ bs)"
  by (simp add: tidy_def)

lemma tidy_concat [intro]: "(\<And>as. as \<in> set ass \<Longrightarrow> tidy rk n as) \<Longrightarrow> tidy rk n (concat ass)"
  by (induction ass) auto

lemma tidy_with_lock [intro]:
  assumes "tidy rk (Suc (rk m)) as" and "n \<le> rk m"
  shows "tidy rk n (with_lock m as)"
  unfolding tidy_def
proof (intro allI impI)
  fix bs
  assume low: "\<forall>h \<in> owed bs. rk h < n"
  then have "m \<notin> owed bs" and "\<forall>h \<in> owed (Unlock m # bs). rk h < Suc (rk m)" using assms(2) by fastforce+
  moreover have "rk h < rk m" if "h \<in> owed bs" for h using low that assms(2) by fastforce
  ultimately show "owed (with_lock m as @ bs) = owed bs \<and> (balanced bs \<longrightarrow> balanced (with_lock m as @ bs)) \<and>
      (ascending rk bs \<longrightarrow> ascending rk (with_lock m as @ bs))"
    using assms(1) by (simp add: with_lock_def tidy_def)
qed

lemma tidy_await [intro]: "n \<le> rk m \<Longrightarrow> tidy rk n [Await m]"
  by (force simp: tidy_def)

lemma tidy_program:
  assumes "tidy rk 0 as"
  shows "owed as = {}" and "balanced as" and "ascending rk as"
  using assms unfolding tidy_def by (metis append_Nil2 ascending.simps(1) balanced.simps(1) empty_iff owed.simps(1))+

section \<open>Pools make progress\<close>

text \<open>A mutex is held by the goroutine that still has to release it.\<close>

fun pool_ok :: "('m \<Rightarrow> nat) \<Rightarrow> 'm pool \<Rightarrow> bool" where
  "pool_ok rk (own, ts) \<longleftrightarrow> (\<forall>as \<in> set ts. balanced as \<and> ascending rk as) \<and>
     (\<forall>m i. i \<in> own m \<longleftrightarrow> i < length ts \<and> m \<in> owed (ts ! i))"

text \<open>Goroutine \<open>i\<close> goes on, and \<open>own'\<close> is as what it owes changes.\<close>

lemma pool_ok_next:
  assumes "pool_ok rk (own, ts)" and "i < length ts" and "ts ! i = a # as" and "balanced as" and "ascending rk as"
    and "\<And>k. own' k = (if k \<in> owed as then insert i (own k) else own k - {i})"
  shows "pool_ok rk (own', ts[i := as])"
proof -
  have "j \<in> own' k \<longleftrightarrow> j < length (ts[i := as]) \<and> k \<in> owed (ts[i := as] ! j)" for k j
    using assms(1,2) assms(6) [of k] by (cases "j = i") auto
  then show ?thesis using assms(1,2,4,5) by (auto dest!: set_update_subset_insert [THEN subsetD])
qed

lemma lock_step_pool_ok:
  assumes "lock_step p q" and "pool_ok rk p"
  shows "pool_ok rk q"
  using assms(1)
proof cases
  case (take i ts m as own)
  then have "balanced (Lock m # as)" "ascending rk (Lock m # as)" using assms(2) by (metis nth_mem pool_ok.simps)+
  moreover have "i \<in> own k \<longleftrightarrow> k \<in> owed as - {m}" for k using assms(2) take by simp
  ultimately show ?thesis
    unfolding take(2) using take assms(2) by (intro pool_ok_next [of rk own ts i "Lock m"]) auto
next
  case (release i ts m as own)
  then have "balanced (Unlock m # as)" "ascending rk (Unlock m # as)" using assms(2) by (metis nth_mem pool_ok.simps)+
  moreover have "i \<in> own k \<longleftrightarrow> k \<in> insert m (owed as)" for k using assms(2) release by simp
  ultimately show ?thesis
    unfolding release(2) using release assms(2) by (intro pool_ok_next [of rk own ts i "Unlock m"]) auto
next
  case (join i ts m as own)
  then have "balanced (Join m # as)" "ascending rk (Join m # as)" using assms(2) by (metis nth_mem pool_ok.simps)+
  moreover have "i \<in> own k \<longleftrightarrow> k \<in> owed as - {m}" for k using assms(2) join by simp
  ultimately show ?thesis
    unfolding join(2) using join assms(2) by (intro pool_ok_next [of rk own ts i "Join m"]) auto
next
  case (pass i ts m as own)
  then have "balanced (Await m # as)" "ascending rk (Await m # as)" using assms(2) by (metis nth_mem pool_ok.simps)+
  moreover have "i \<in> own k \<longleftrightarrow> k \<in> owed as" for k using assms(2) pass by simp
  ultimately show ?thesis
    unfolding pass(2) using pass assms(2) by (intro pool_ok_next [of rk own ts i "Await m"]) auto
qed

lemma lock_steps_pool_ok: "lock_step\<^sup>*\<^sup>* p q \<Longrightarrow> pool_ok rk p \<Longrightarrow> pool_ok rk q"
  by (induction rule: rtranclp_induct) (auto dest: lock_step_pool_ok)

text \<open>
  The goroutine that waits for what has the highest rank waits for a goroutine that does not wait.
\<close>

fun awaited :: "'m action list \<Rightarrow> 'm option" where
  "awaited (Lock m # as) = Some m"
| "awaited (Await m # as) = Some m"
| "awaited as = None"

lemma awaited_ascending: "awaited as = Some m \<Longrightarrow> ascending rk as \<Longrightarrow> h \<in> owed as \<Longrightarrow> rk h < rk m"
  by (cases as rule: awaited.cases) auto

lemma pool_progress:
  assumes "pool_ok rk (own, ts)" and "as \<in> set ts" and "as \<noteq> []"
  shows "\<exists>q. lock_step (own, ts) q"
proof (rule ccontr)
  assume stuck: "\<nexists>q. lock_step (own, ts) q"
  have waits: "\<exists>m j. awaited (ts ! i) = Some m \<and> j \<in> own m" if i: "i < length ts" "ts ! i \<noteq> []" for i
  proof (cases "ts ! i")
    case (Cons a bs)
    show ?thesis
    proof (cases a)
      case (Lock m)
      then show ?thesis using Cons stuck lock_step.take [OF i(1), of m bs own] by auto
    next
      case (Unlock m)
      then have "i \<in> own m" using assms(1) i(1) Cons by simp
      then show ?thesis using Unlock Cons stuck lock_step.release [OF i(1), of m bs own] by auto
    next
      case (Join m)
      then show ?thesis using Cons stuck lock_step.join [OF i(1), of m bs own] by auto
    next
      case (Await m)
      then show ?thesis using Cons stuck lock_step.pass [OF i(1), of m bs own] by auto
    qed
  qed (use i in simp)
  define W where "W = {rk m | m i. i < length ts \<and> awaited (ts ! i) = Some m}"
  have "W \<subseteq> (\<lambda>i. rk (the (awaited (ts ! i)))) ` {..<length ts}" unfolding W_def by force
  then have fin: "finite W" by (rule finite_subset) simp
  obtain i where "i < length ts" "ts ! i \<noteq> []" using assms(2,3) by (metis in_set_conv_nth)
  then have "W \<noteq> {}" using waits unfolding W_def by fast
  then have "Max W \<in> W" using fin by simp
  then obtain m i where i: "i < length ts" "awaited (ts ! i) = Some m" "rk m = Max W" unfolding W_def by auto
  then have "ts ! i \<noteq> []" by auto
  then obtain j where "j \<in> own m" using waits [OF i(1)] i(2) by auto
  then have j: "j < length ts" "m \<in> owed (ts ! j)" using assms(1) by auto
  then have "ts ! j \<noteq> []" by auto
  then obtain m' where m': "awaited (ts ! j) = Some m'" using waits [OF j(1)] by blast
  have "ascending rk (ts ! j)" using assms(1) j(1) by simp
  then have "rk m < rk m'" using awaited_ascending [OF m'] j(2) by blast
  moreover have "rk m' \<in> W" using j(1) m' unfolding W_def by blast
  ultimately show False using fin i(3) by (metis Max_ge not_le)
qed

text \<open>A pool whose goroutines hold nothing yet and leave nothing behind.\<close>

lemma idle_pool_ok:
  assumes "\<And>as. as \<in> set ts \<Longrightarrow> tidy rk 0 as"
  shows "pool_ok rk (\<lambda>_. {}, ts)"
proof -
  note P = tidy_program [OF assms]
  then have "owed (ts ! i) = {}" if "i < length ts" for i using that nth_mem by blast
  then show ?thesis using P(2,3) by auto
qed

end
