(* ===== verification/Lock_Order.thy ===== *)
theory Lock_Order
  imports Lock_Pools
begin

text \<open>
  The mutexes of an open repository and its uploads (\<open>internal/store/mem.go\<close>, \<open>internal/store/dir.go\<close>,
  \<open>internal/cache/cache.go\<close>).  Handlers, timers and the collector run in goroutines of their own: each
  method is the sequence of mutexes it takes and releases.
\<close>

section \<open>The calls\<close>

datatype mutex = RepoMu | CacheMu | SessionMu string

text \<open>
  The methods of a repository and its uploads, with what decides the way through their code: how
  \<open>BlobCreate\<close> ends (\<open>CreateExists\<close> for a blob that is there, \<open>CreateCollides\<close> for a session ID in use),
  how \<open>Close\<close> ends (\<open>CloseNoDigest\<close> when the digest cannot be computed), whether the layout or the file
  of the upload is there.  \<open>CallExpire\<close> is a \<open>pruneAge\<close> or \<open>pruneCount\<close> that selects these sessions,
  \<open>CallCancelAll\<close> the \<open>DeleteAll\<close> of so many sessions, \<open>CallTouch\<close> the goroutine of \<open>delete\<close>.
  \<open>CallIndex\<close> stands for the calls that only lock the repository, \<open>CallConvert\<close> for one that loads a
  changed index with referrers to convert: in the directory store it creates blobs with the mutex held.
\<close>

datatype create_end = CreateExists | CreateCollides | Created

datatype close_end = CloseRejected | CloseNoDigest | CloseStored

datatype call =
    CallIndex
  | CallConvert
  | CallCollect bool
  | CallCreate bool create_end
  | CallSession
  | CallWrite string bool
  | CallInspect string
  | CallClose string close_end
  | CallCancel string
  | CallExpire "string list"
  | CallCancelAll nat
  | CallTouch

text \<open>The cache: each access under its mutex; \<open>Delete\<close> and \<open>DeleteAll\<close> release it around the call of a hook.\<close>

definition cache_access :: "mutex action list" where
  "cache_access = with_lock CacheMu []"

definition cache_delete_hooked :: "mutex action list" where
  "cache_delete_hooked = [Lock CacheMu, Unlock CacheMu] @ [Lock CacheMu, Unlock CacheMu]"

definition cache_delete_all_hooked :: "nat \<Rightarrow> mutex action list" where
  "cache_delete_all_hooked n = concat (replicate n [Lock CacheMu, Unlock CacheMu]) @ [Lock CacheMu, Unlock CacheMu]"

text \<open>Pruning keeps the mutex of the cache while it runs the hooks for the sessions it selects.\<close>

definition cache_prune_locks :: "(string \<Rightarrow> mutex action list) \<Rightarrow> string list \<Rightarrow> mutex action list" where
  "cache_prune_locks hooks sids = with_lock CacheMu (concat (List.map hooks sids))"

text \<open>The methods of the memory store.\<close>

definition mem_create_locks :: "create_end \<Rightarrow> mutex action list" where
  "mem_create_locks e = with_lock RepoMu (case e of
       CreateExists \<Rightarrow> []
     | CreateCollides \<Rightarrow> cache_access
     | Created \<Rightarrow> cache_access @ cache_access)"

definition mem_write_locks :: "string \<Rightarrow> mutex action list" where
  "mem_write_locks sid = with_lock (SessionMu sid) cache_access"

definition mem_close_locks :: "string \<Rightarrow> close_end \<Rightarrow> mutex action list" where
  "mem_close_locks sid e = with_lock (SessionMu sid) (case e of
       CloseRejected \<Rightarrow> []
     | CloseNoDigest \<Rightarrow> [Lock RepoMu]
     | CloseStored \<Rightarrow> [Lock RepoMu, Unlock RepoMu] @ cache_access)"

definition mem_cancel_locks :: "string \<Rightarrow> mutex action list" where
  "mem_cancel_locks sid = with_lock (SessionMu sid) cache_access"

fun mem_locks :: "call \<Rightarrow> mutex action list" where
  "mem_locks CallIndex = with_lock RepoMu []"
| "mem_locks CallConvert = with_lock RepoMu []"
| "mem_locks (CallCollect bare) = with_lock RepoMu []"
| "mem_locks (CallCreate missing e) = mem_create_locks e"
| "mem_locks CallSession = with_lock RepoMu cache_access"
| "mem_locks (CallWrite sid opened) = mem_write_locks sid"
| "mem_locks (CallInspect sid) = with_lock (SessionMu sid) []"
| "mem_locks (CallClose sid e) = mem_close_locks sid e"
| "mem_locks (CallCancel sid) = mem_cancel_locks sid"
| "mem_locks (CallExpire sids) = cache_prune_locks (\<lambda>_. []) sids"
| "mem_locks (CallCancelAll n) = cache_access"
| "mem_locks CallTouch = []"

text \<open>The methods of the directory store.\<close>

definition dir_prune_hook :: "string \<Rightarrow> mutex action list" where
  "dir_prune_hook sid = [Lock (SessionMu sid), Unlock (SessionMu sid)]"

definition dir_collect_locks :: "bool \<Rightarrow> mutex action list" where
  "dir_collect_locks bare = with_lock RepoMu (cache_access @ (if bare then cache_access else []))"

definition dir_create_locks :: "bool \<Rightarrow> create_end \<Rightarrow> mutex action list" where
  "dir_create_locks missing e = (if missing then with_lock RepoMu [] else []) @ (case e of
       CreateExists \<Rightarrow> []
     | CreateCollides \<Rightarrow> with_lock RepoMu cache_access
     | Created \<Rightarrow> with_lock RepoMu (cache_access @ cache_access))"

definition dir_write_locks :: "string \<Rightarrow> bool \<Rightarrow> mutex action list" where
  "dir_write_locks sid opened = with_lock (SessionMu sid) (if opened then cache_access else [])"

definition dir_close_locks :: "string \<Rightarrow> close_end \<Rightarrow> mutex action list" where
  "dir_close_locks sid e = with_lock (SessionMu sid) (if e = CloseStored then cache_delete_hooked else [])"

definition dir_cancel_locks :: "string \<Rightarrow> mutex action list" where
  "dir_cancel_locks sid = with_lock (SessionMu sid) cache_delete_hooked"

fun dir_locks :: "call \<Rightarrow> mutex action list" where
  "dir_locks CallIndex = with_lock RepoMu []"
| "dir_locks CallConvert = with_lock RepoMu (dir_create_locks False Created)"
| "dir_locks (CallCollect bare) = dir_collect_locks bare"
| "dir_locks (CallCreate missing e) = dir_create_locks missing e"
| "dir_locks CallSession = with_lock RepoMu cache_access"
| "dir_locks (CallWrite sid opened) = dir_write_locks sid opened"
| "dir_locks (CallInspect sid) = with_lock (SessionMu sid) []"
| "dir_locks (CallClose sid e) = dir_close_locks sid e"
| "dir_locks (CallCancel sid) = dir_cancel_locks sid"
| "dir_locks (CallExpire sids) = cache_prune_locks dir_prune_hook sids"
| "dir_locks (CallCancelAll n) = cache_delete_all_hooked n"
| "dir_locks CallTouch = with_lock RepoMu []"

lemmas mem_lock_defs = mem_create_locks_def mem_write_locks_def mem_close_locks_def mem_cancel_locks_def
lemmas dir_lock_defs = dir_prune_hook_def dir_collect_locks_def dir_create_locks_def dir_write_locks_def
  dir_close_locks_def dir_cancel_locks_def

definition call_locks :: "store_type \<Rightarrow> call \<Rightarrow> mutex action list" where
  "call_locks st c = (if st = StoreDir then dir_locks c else mem_locks c)"

text \<open>Goroutines that each perform a list of calls.\<close>

definition start_pool :: "store_type \<Rightarrow> call list list \<Rightarrow> mutex pool" where
  "start_pool st css = (\<lambda>_. {}, List.map (\<lambda>cs. concat (List.map (call_locks st) cs)) css)"

section \<open>The order of the mutexes\<close>

text \<open>An upload locks its own mutex first, then the repository's, then the cache's.\<close>

fun lock_rank :: "mutex \<Rightarrow> nat" where
  "lock_rank (SessionMu sid) = 0"
| "lock_rank RepoMu = 1"
| "lock_rank CacheMu = 2"

text \<open>The calls that leave the order, or a mutex behind.\<close>

fun orderly :: "store_type \<Rightarrow> call \<Rightarrow> bool" where
  "orderly st (CallExpire sids) \<longleftrightarrow> st \<noteq> StoreDir \<or> sids = []"
| "orderly st CallConvert \<longleftrightarrow> st \<noteq> StoreDir"
| "orderly st (CallClose sid e) \<longleftrightarrow> st = StoreDir \<or> e \<noteq> CloseNoDigest"
| "orderly st c \<longleftrightarrow> True"

lemma tidy_pair: "n \<le> rk m \<Longrightarrow> tidy rk n [Lock m, Unlock m]"
  using tidy_with_lock [of rk m "[]" n] by (simp add: with_lock_def)

lemma tidy_pairs: "n \<le> rk m \<Longrightarrow> tidy rk n (concat (replicate k [Lock m, Unlock m]))"
  by (rule tidy_concat) (simp add: tidy_pair)

lemma tidy_cache: "n \<le> 2 \<Longrightarrow> tidy lock_rank n cache_access"
  by (simp add: cache_access_def tidy_with_lock)

lemma tidy_cache_delete: "n \<le> 2 \<Longrightarrow> tidy lock_rank n cache_delete_hooked"
  unfolding cache_delete_hooked_def by (rule tidy_append; rule tidy_pair) simp_all

lemma tidy_cache_delete_all: "n \<le> 2 \<Longrightarrow> tidy lock_rank n (cache_delete_all_hooked k)"
  unfolding cache_delete_all_hooked_def by (rule tidy_append) (simp_all add: tidy_pair tidy_pairs)

lemma tidy_cache_prune: "tidy lock_rank 0 (cache_prune_locks (\<lambda>_. []) sids)" "tidy lock_rank 0 (cache_prune_locks h [])"
  by (auto simp: cache_prune_locks_def intro!: tidy_with_lock tidy_concat)

lemmas tidy_calls = tidy_with_lock tidy_append tidy_cache tidy_cache_delete tidy_cache_delete_all tidy_cache_prune

lemma tidy_mem_close: "e \<noteq> CloseNoDigest \<Longrightarrow> tidy lock_rank 0 (mem_close_locks sid e)"
  using tidy_append [OF tidy_pair [of 1 lock_rank RepoMu] tidy_cache]
  by (cases e) (simp_all add: mem_close_locks_def tidy_with_lock)

lemma tidy_call:
  assumes "orderly st c"
  shows "tidy lock_rank 0 (call_locks st c)"
proof (cases "st = StoreDir")
  case True
  then show ?thesis using assms unfolding call_locks_def
    by (cases c) (auto simp: dir_lock_defs tidy_calls split: create_end.split)
next
  case False
  then show ?thesis using assms unfolding call_locks_def
    by (cases c) (auto simp: tidy_mem_close mem_create_locks_def mem_write_locks_def mem_cancel_locks_def
        tidy_calls split: create_end.split)
qed

lemma start_pool_ok:
  assumes "\<forall>cs \<in> set css. \<forall>c \<in> set cs. orderly st c"
  shows "pool_ok lock_rank (start_pool st css)"
  unfolding start_pool_def by (rule idle_pool_ok) (use assms tidy_call in \<open>auto intro!: tidy_concat\<close>)

text \<open>
  The mutexes of a repository and its uploads cannot deadlock: whatever calls any number of
  goroutines make, as long as one has something left to do, one of them can go on.  It holds for the
  memory store as long as no \<open>Close\<close> fails to compute its digest, and for the directory store as long
  as the pruning of the cache selects no session and no referrers are converted.
\<close>

theorem calls_make_progress:
  assumes "\<forall>cs \<in> set css. \<forall>c \<in> set cs. orderly st c" and "lock_step\<^sup>*\<^sup>* (start_pool st css) (own, ts)"
    and "as \<in> set ts" and "as \<noteq> []"
  shows "\<exists>q. lock_step (own, ts) q"
  using pool_progress [OF lock_steps_pool_ok [OF assms(2) start_pool_ok [OF assms(1)]] assms(3,4)] .

theorem calls_make_progress_witness:
  "\<exists>q. lock_step (start_pool StoreDir [[CallWrite ''a'' True], [CallCreate True Created, CallCancel ''a'']]) q"
proof -
  let ?css = "[[CallWrite ''a'' True], [CallCreate True Created, CallCancel ''a'']]"
  obtain own ts where p: "start_pool StoreDir ?css = (own, ts)" by fastforce
  then have "[Lock (SessionMu ''a''), Lock CacheMu, Unlock CacheMu, Unlock (SessionMu ''a'')] \<in> set ts"
    by (auto simp: start_pool_def call_locks_def dir_write_locks_def with_lock_def cache_access_def)
  then show ?thesis using calls_make_progress [of ?css StoreDir own ts] p by fastforce
qed

section \<open>Pruning against a write\<close>

text \<open>Two goroutines that hold the mutex the other waits for do so in every later state.\<close>

definition crossed :: "nat \<Rightarrow> nat \<Rightarrow> string \<Rightarrow> mutex pool \<Rightarrow> bool" where
  "crossed i j sid p \<longleftrightarrow> i < length (snd p) \<and> j < length (snd p) \<and> i \<noteq> j \<and>
     i \<in> fst p (SessionMu sid) \<and> j \<in> fst p CacheMu \<and>
     (\<exists>as bs. snd p ! i = Lock CacheMu # as \<and> snd p ! j = Lock (SessionMu sid) # bs)"

lemma crossed_step:
  assumes "lock_step p q" and "crossed i j sid p"
  shows "crossed i j sid q \<and> snd q ! i = snd p ! i \<and> snd q ! j = snd p ! j"
  using assms by cases (auto simp: crossed_def nth_list_update)

lemma crossed_steps:
  "lock_step\<^sup>*\<^sup>* p q \<Longrightarrow> crossed i j sid p \<Longrightarrow> crossed i j sid q \<and> snd q ! i = snd p ! i \<and> snd q ! j = snd p ! j"
  by (induction rule: rtranclp_induct) (auto dest: crossed_step)

text \<open>
  C12: In the directory store a write and a pruning of the upload cache can block each other for good.
  \<open>Write\<close> locks the upload and asks the cache for its session; \<open>pruneAge\<close> and \<open>pruneCount\<close> lock the
  cache and call \<open>PrunePreFn\<close>, which locks the upload.  Whatever else runs, when one goroutine is about
  to write to an upload that another is about to prune first, a state can be reached from where neither
  makes a step in any continuation, and the mutex of the cache is never released: no other upload of
  the repository can be created, found or written either.
\<close>

theorem write_blocks_prune:
  assumes "i < length css" and "j < length css" and "i \<noteq> j"
    and "css ! i = CallWrite sid True # ci" and "css ! j = CallExpire (sid # sids) # cj"
  shows "\<exists>p. lock_step\<^sup>*\<^sup>* (start_pool StoreDir css) p \<and>
     (\<forall>q. lock_step\<^sup>*\<^sup>* p q \<longrightarrow> snd q ! i = snd p ! i \<and> snd q ! j = snd p ! j \<and> snd p ! i \<noteq> [] \<and> snd p ! j \<noteq> [] \<and>
       j \<in> fst q CacheMu)"
proof -
  let ?own0 = "\<lambda>_. {}" and ?own1 = "(\<lambda>_. {})(SessionMu sid := {i})"
  let ?own2 = "?own1(CacheMu := {j})"
  let ?ts0 = "List.map (\<lambda>cs. concat (List.map (call_locks StoreDir) cs)) css"
  obtain as where as: "?ts0 ! i = Lock (SessionMu sid) # Lock CacheMu # as"
    using assms(1,4) by (simp add: call_locks_def dir_write_locks_def with_lock_def cache_access_def)
  obtain bs where bs: "?ts0 ! j = Lock CacheMu # Lock (SessionMu sid) # bs"
    using assms(2,5) by (simp add: call_locks_def cache_prune_locks_def dir_prune_hook_def with_lock_def)
  let ?ts1 = "?ts0[i := Lock CacheMu # as]"
  let ?ts2 = "?ts1[j := Lock (SessionMu sid) # bs]"
  have "lock_step (?own0, ?ts0) (?own1, ?ts1)" by (rule lock_step.take) (use assms(1) as in auto)
  moreover have "lock_step (?own1, ?ts1) (?own2, ?ts2)" by (rule lock_step.take) (use assms(2,3) bs in auto)
  ultimately have run: "lock_step\<^sup>*\<^sup>* (start_pool StoreDir css) (?own2, ?ts2)"
    by (auto simp: start_pool_def intro: rtranclp.intros)
  have "crossed i j sid (?own2, ?ts2)" using assms(1-3) by (simp add: crossed_def)
  then show ?thesis using run crossed_steps by (intro exI [of _ "(?own2, ?ts2)"]) (fastforce simp: crossed_def)
qed

theorem write_blocks_prune_witness:
  "\<exists>p. lock_step\<^sup>*\<^sup>* (start_pool StoreDir [[CallWrite ''a'' True], [CallExpire [''a'']], [CallSession]]) p \<and>
     (\<forall>q. lock_step\<^sup>*\<^sup>* p q \<longrightarrow> 1 \<in> fst q CacheMu)"
  using write_blocks_prune [of 0 "[[CallWrite ''a'' True], [CallExpire [''a'']], [CallSession]]" 1 "''a''" "[]" "[]" "[]"]
  by force

end
