(* ===== verification/Store_Locks.thy ===== *)
theory Store_Locks
  imports Lock_Order
begin

text \<open>
  The locks of a whole store (\<open>internal/store/mem.go\<close>, \<open>internal/store/dir.go\<close>): the mutex of the store,
  the mutex of its cache of repositories, and for each repository the block token, the wait group of
  the requests that use it, and the mutexes of \<open>Lock_Order\<close>.  Requests, the goroutine of the collector,
  the pruning of repositories and \<open>Close\<close> are sequences of actions on them.  A repository is named by
  its object: one that is pruned and opened again gets a new name.  A request that gives up waiting for
  a token when its context ends is \<open>Refuse\<close>; a step more would not make a deadlock.
\<close>

section \<open>Requests, collector and close\<close>

text \<open>\<open>Background\<close> is the wait group of the store, which counts the goroutine of the collector.\<close>

datatype lock = Background | StoreMu | ReposMu | Token string | Users string | Inner string mutex

text \<open>The calls on an open repository, as mutexes of the store.\<close>

definition inner :: "string \<Rightarrow> mutex action list \<Rightarrow> lock action list" where
  "inner r = List.map (map_action (Inner r))"

definition calls :: "store_type \<Rightarrow> string \<Rightarrow> call list \<Rightarrow> lock action list" where
  "calls st r cs = inner r (concat (List.map (call_locks st) cs))"

text \<open>
  \<open>RepoGet\<close>, the calls of a request and \<open>Done\<close>.  The memory store looks a repository up in its map, the
  directory store in a cache.  An open repository is entered with its token.  A new one is entered while
  the mutex of the store is held: the memory store loads it first, with calls on it when referrers are
  converted; the directory store puts it into the cache first.
\<close>

definition repo_lookup :: "store_type \<Rightarrow> lock action list" where
  "repo_lookup st = with_lock StoreMu (if st = StoreDir then with_lock ReposMu [] else [])"

definition enter :: "lock \<Rightarrow> lock action list \<Rightarrow> string \<Rightarrow> lock action list \<Rightarrow> lock action list" where
  "enter m pre r body = [Lock m] @ pre @ [Join (Users r), Unlock m] @ body @ [Unlock (Users r)]"

definition request_locks :: "store_type \<Rightarrow> string \<Rightarrow> call list \<Rightarrow> lock action list" where
  "request_locks st r cs = repo_lookup st @ enter (Token r) [] r (calls st r cs)"

definition first_request_locks :: "store_type \<Rightarrow> string \<Rightarrow> call list \<Rightarrow> call list \<Rightarrow> lock action list" where
  "first_request_locks st r load cs =
     enter StoreMu (if st = StoreDir then with_lock ReposMu [] @ with_lock ReposMu [] else calls st r load) r (calls st r cs)"

text \<open>\<open>gc\<close> of a repository: the token, then the end of the requests, then the collection.\<close>

definition repo_gc_locks :: "store_type \<Rightarrow> string \<Rightarrow> bool \<Rightarrow> lock action list" where
  "repo_gc_locks st r bare = with_lock (Token r) ([Await (Users r)] @ calls st r [CallCollect bare])"

text \<open>
  A tick of the collector, with the repositories it lists: whether one is still there, changed lately,
  and has no manifests left.
\<close>

definition tick_repo_locks :: "store_type \<Rightarrow> string \<times> bool \<times> bool \<times> bool \<Rightarrow> lock action list" where
  "tick_repo_locks st = (\<lambda>(r, known, changed, bare).
     (if st = StoreDir then with_lock ReposMu [] else with_lock StoreMu []) @
     (if known then calls st r [CallIndex] @ (if changed then repo_gc_locks st r bare else []) else []))"

definition tick_locks :: "store_type \<Rightarrow> (string \<times> bool \<times> bool \<times> bool) list \<Rightarrow> lock action list" where
  "tick_locks st rs = (if st = StoreDir then with_lock ReposMu [] else with_lock StoreMu []) @
     concat (List.map (tick_repo_locks st) rs)"

definition ticker_locks :: "store_type \<Rightarrow> (string \<times> bool \<times> bool \<times> bool) list list \<Rightarrow> lock action list" where
  "ticker_locks st ticks = [Join Background] @ concat (List.map (tick_locks st) ticks) @ [Unlock Background]"

text \<open>
  The prune function of the cache of repositories in the directory store, for a repository without
  uploads or with some, and the pruning by age, which keeps the mutex of that cache all the while.
\<close>

definition prune_repo_locks :: "string \<times> bool \<times> bool \<Rightarrow> lock action list" where
  "prune_repo_locks = (\<lambda>(r, idle, bare). inner r cache_access @ (if idle then repo_gc_locks StoreDir r bare else []))"

definition prune_repos_locks :: "(string \<times> bool \<times> bool) list \<Rightarrow> lock action list" where
  "prune_repos_locks rs = with_lock ReposMu (concat (List.map prune_repo_locks rs))"

text \<open>
  \<open>Close\<close> waits for each repository, cancels its uploads and forgets it; in the end it waits for the
  collector.  The memory store releases its mutex for each repository, the directory store does not.
\<close>

definition drain_locks :: "store_type \<Rightarrow> string \<Rightarrow> nat option \<Rightarrow> lock action list" where
  "drain_locks st r n =
     with_lock (Token r) ([Await (Users r)] @ calls st r (case n of None \<Rightarrow> [] | Some k \<Rightarrow> [CallCancelAll k]))"

definition mem_storeClose_locks :: "(string \<times> nat) list \<Rightarrow> lock action list" where
  "mem_storeClose_locks rs = with_lock StoreMu [] @
     concat (List.map (\<lambda>(r, n). drain_locks StoreMem r (Some n) @ with_lock StoreMu []) rs) @ [Await Background]"

text \<open>
  In the directory store: the repository is no longer in the cache, the cancelling of its uploads
  fails, or it is forgotten, which runs the prune function of the cache without its mutex.
\<close>

datatype close_way = CloseGone | CloseFails nat | CloseForgets "nat option" bool bool

fun dir_close_repo_locks :: "string \<times> close_way \<Rightarrow> lock action list" where
  "dir_close_repo_locks (r, CloseGone) = with_lock ReposMu []"
| "dir_close_repo_locks (r, CloseFails n) = with_lock ReposMu [] @ drain_locks StoreDir r (Some n)"
| "dir_close_repo_locks (r, CloseForgets n idle bare) = with_lock ReposMu [] @ drain_locks StoreDir r n @
     with_lock ReposMu [] @ prune_repo_locks (r, idle, bare) @ with_lock ReposMu []"

definition dir_storeClose_locks :: "(string \<times> close_way) list \<Rightarrow> lock action list" where
  "dir_storeClose_locks rs =
     with_lock StoreMu (with_lock ReposMu [] @ concat (List.map dir_close_repo_locks rs)) @ [Await Background]"

section \<open>The goroutines of a store\<close>

text \<open>
  \<open>Refuse\<close> is a \<open>RepoGet\<close> that ends without a repository, \<open>Apart\<close> a call outside the wait group: a write
  to an upload after \<open>Done\<close>, a timer of the upload cache, the goroutine of a delete.
\<close>

datatype store_call =
    Request string "call list"
  | FirstRequest string "call list" "call list"
  | Refuse
  | Apart string call
  | Ticker "(string \<times> bool \<times> bool \<times> bool) list list"
  | PruneRepos "(string \<times> bool \<times> bool) list"
  | CloseMem "(string \<times> nat) list"
  | CloseDir "(string \<times> close_way) list"

fun store_locks :: "store_type \<Rightarrow> store_call \<Rightarrow> lock action list" where
  "store_locks st (Request r cs) = request_locks st r cs"
| "store_locks st (FirstRequest r load cs) = first_request_locks st r load cs"
| "store_locks st Refuse = repo_lookup st"
| "store_locks st (Apart r c) = calls st r [c]"
| "store_locks st (Ticker ticks) = ticker_locks st ticks"
| "store_locks st (PruneRepos rs) = prune_repos_locks rs"
| "store_locks st (CloseMem rs) = mem_storeClose_locks rs"
| "store_locks st (CloseDir rs) = dir_storeClose_locks rs"

definition store_pool :: "store_type \<Rightarrow> store_call list list \<Rightarrow> lock pool" where
  "store_pool st css = (\<lambda>_. {}, List.map (\<lambda>cs. concat (List.map (store_locks st) cs)) css)"

text \<open>Calls of the right store whose calls on a repository are orderly.\<close>

fun store_orderly :: "store_type \<Rightarrow> store_call \<Rightarrow> bool" where
  "store_orderly st (Request r cs) \<longleftrightarrow> list_all (orderly st) cs"
| "store_orderly st (FirstRequest r load cs) \<longleftrightarrow> list_all (orderly st) load \<and> list_all (orderly st) cs"
| "store_orderly st Refuse \<longleftrightarrow> True"
| "store_orderly st (Apart r c) \<longleftrightarrow> orderly st c"
| "store_orderly st (Ticker ticks) \<longleftrightarrow> True"
| "store_orderly st (PruneRepos rs) \<longleftrightarrow> st = StoreDir"
| "store_orderly st (CloseMem rs) \<longleftrightarrow> st = StoreMem"
| "store_orderly st (CloseDir rs) \<longleftrightarrow> st = StoreDir"

section \<open>The order of the locks\<close>

fun store_rank :: "lock \<Rightarrow> nat" where
  "store_rank Background = 0"
| "store_rank StoreMu = 1"
| "store_rank ReposMu = 2"
| "store_rank (Token r) = 3"
| "store_rank (Users r) = 4"
| "store_rank (Inner r m) = 5 + lock_rank m"

lemma inner_simps [simp]:
  "inner r [] = []" "inner r (Lock m # as) = Lock (Inner r m) # inner r as"
  "inner r (Unlock m # as) = Unlock (Inner r m) # inner r as" "inner r (Join m # as) = Join (Inner r m) # inner r as"
  "inner r (Await m # as) = Await (Inner r m) # inner r as"
  by (simp_all add: inner_def)

lemma owed_inner:
  assumes "\<And>m. Inner r m \<notin> owed bs"
  shows "owed (inner r as @ bs) = Inner r ` owed as \<union> owed bs"
  by (induction as rule: owed.induct) (use assms in auto)

lemma inner_append:
  assumes "\<forall>h \<in> owed bs. store_rank h < 5"
  shows "balanced as \<Longrightarrow> balanced bs \<Longrightarrow> balanced (inner r as @ bs)"
    and "ascending lock_rank as \<Longrightarrow> ascending store_rank bs \<Longrightarrow> ascending store_rank (inner r as @ bs)"
proof -
  have none: "Inner r m \<notin> owed bs" for m using assms by fastforce
  note o = owed_inner [of r bs, OF none]
  have low: "h \<in> owed bs \<Longrightarrow> store_rank h < 5 + k" for h k using assms by fastforce
  show "balanced as \<Longrightarrow> balanced bs \<Longrightarrow> balanced (inner r as @ bs)"
    by (induction as rule: balanced.induct) (use none in \<open>auto simp: o\<close>)
  show "ascending lock_rank as \<Longrightarrow> ascending store_rank bs \<Longrightarrow> ascending store_rank (inner r as @ bs)"
    by (induction as rule: owed.induct) (use low in \<open>auto simp: o\<close>)
qed

lemma tidy_inner:
  assumes "tidy lock_rank 0 as" and "n \<le> 5"
  shows "tidy store_rank n (inner r as)"
  unfolding tidy_def
proof (intro allI impI)
  fix bs assume low: "\<forall>h \<in> owed bs. store_rank h < n"
  then have five: "\<forall>h \<in> owed bs. store_rank h < 5" using assms(2) by fastforce
  then have "Inner r m \<notin> owed bs" for m by fastforce
  then show "owed (inner r as @ bs) = owed bs \<and> (balanced bs \<longrightarrow> balanced (inner r as @ bs)) \<and>
      (ascending store_rank bs \<longrightarrow> ascending store_rank (inner r as @ bs))"
    using inner_append [OF five] tidy_program [OF assms(1)] by (simp add: owed_inner)
qed

lemma tidy_calls_inner: "list_all (orderly st) cs \<Longrightarrow> n \<le> 5 \<Longrightarrow> tidy store_rank n (calls st r cs)"
  unfolding calls_def by (rule tidy_inner) (use tidy_call in \<open>auto simp: list_all_iff intro!: tidy_concat\<close>)

text \<open>A lock that is given up for the membership in a wait group of a higher rank.\<close>

lemma tidy_enter:
  assumes "tidy store_rank (Suc (store_rank m)) pre" and "tidy store_rank 5 body" and "n \<le> store_rank m" and "store_rank m < 4"
  shows "tidy store_rank n (enter m pre r body)"
  unfolding tidy_def
proof (intro allI impI)
  fix bs assume low: "\<forall>h \<in> owed bs. store_rank h < n"
  let ?g = "Users r"
  let ?c1 = "Unlock ?g # bs"
  let ?c2 = "Join ?g # Unlock m # body @ ?c1"
  have g: "?g \<notin> owed bs" and m: "m \<notin> owed bs" "?g \<noteq> m" and below: "\<forall>h \<in> owed bs. store_rank h < store_rank m"
    using low assms(3,4) by fastforce+
  have c1: "\<forall>h \<in> owed ?c1. store_rank h < 5" using below assms(4) by fastforce
  have b: "owed (body @ ?c1) = insert ?g (owed bs)" "balanced bs \<Longrightarrow> balanced (body @ ?c1)"
    "ascending store_rank bs \<Longrightarrow> ascending store_rank (body @ ?c1)"
    using assms(2) c1 g unfolding tidy_def by auto
  have c2: "owed ?c2 = insert m (owed bs)" using b(1) g m by auto
  have "\<forall>h \<in> owed ?c2. store_rank h < Suc (store_rank m)" unfolding c2 using below by fastforce
  then have p: "owed (pre @ ?c2) = insert m (owed bs)" "balanced ?c2 \<Longrightarrow> balanced (pre @ ?c2)"
    "ascending store_rank ?c2 \<Longrightarrow> ascending store_rank (pre @ ?c2)"
    using assms(1) c2 unfolding tidy_def by auto
  have e: "enter m pre r body @ bs = Lock m # pre @ ?c2" by (simp add: enter_def)
  show "owed (enter m pre r body @ bs) = owed bs \<and> (balanced bs \<longrightarrow> balanced (enter m pre r body @ bs)) \<and>
      (ascending store_rank bs \<longrightarrow> ascending store_rank (enter m pre r body @ bs))"
    unfolding e using p b m g below by auto
qed

lemma tidy_lookup: "n \<le> 1 \<Longrightarrow> tidy store_rank n (repo_lookup st)"
  by (auto simp: repo_lookup_def intro!: tidy_with_lock)

lemma tidy_repo_gc: "n \<le> 3 \<Longrightarrow> tidy store_rank n (repo_gc_locks st r bare)"
  unfolding repo_gc_locks_def
  by (intro tidy_with_lock tidy_append tidy_await tidy_calls_inner) simp_all

lemma tidy_drain: "n \<le> 3 \<Longrightarrow> tidy store_rank n (drain_locks st r k)"
  unfolding drain_locks_def
  by (intro tidy_with_lock tidy_append tidy_await tidy_calls_inner) (simp_all split: option.split)

lemma tidy_tick_repo: "n \<le> 1 \<Longrightarrow> tidy store_rank n (tick_repo_locks st x)"
  by (cases x) (auto simp: tick_repo_locks_def intro!: tidy_append tidy_with_lock tidy_calls_inner tidy_repo_gc)

lemma tidy_tick: "n \<le> 1 \<Longrightarrow> tidy store_rank n (tick_locks st rs)"
  by (auto simp: tick_locks_def tidy_tick_repo intro!: tidy_append tidy_with_lock tidy_concat)

lemma tidy_with_group [intro]:
  assumes "tidy rk (Suc (rk m)) as" and "n \<le> rk m"
  shows "tidy rk n ([Join m] @ as @ [Unlock m])"
  using tidy_with_lock [OF assms] by (simp add: tidy_def with_lock_def)

lemma tidy_prune_repo: "n \<le> 3 \<Longrightarrow> tidy store_rank n (prune_repo_locks x)"
  by (cases x) (auto simp: prune_repo_locks_def intro!: tidy_append tidy_inner tidy_cache tidy_repo_gc)

lemma tidy_dir_close_repo: "n \<le> 2 \<Longrightarrow> tidy store_rank n (dir_close_repo_locks x)"
  by (cases x rule: dir_close_repo_locks.cases)
    (auto intro!: tidy_append tidy_with_lock tidy_drain tidy_prune_repo)

lemma tidy_store_call:
  assumes "store_orderly st c"
  shows "tidy store_rank 0 (store_locks st c)"
proof (cases c)
  case (Request r cs)
  then show ?thesis using assms
    by (auto simp: request_locks_def intro!: tidy_append tidy_lookup tidy_enter tidy_calls_inner)
next
  case (FirstRequest r load cs)
  then show ?thesis using assms
    by (auto simp: first_request_locks_def intro!: tidy_enter tidy_append tidy_with_lock tidy_calls_inner)
next
  case (Ticker ticks)
  have "tidy store_rank 1 (concat (List.map (tick_locks st) ticks))" by (auto intro!: tidy_concat tidy_tick)
  then show ?thesis unfolding Ticker store_locks.simps ticker_locks_def by (intro tidy_with_group) simp_all
next
  case (CloseMem rs)
  then show ?thesis
    by (auto simp: mem_storeClose_locks_def intro!: tidy_append tidy_with_lock tidy_concat tidy_await tidy_drain)
next
  case (CloseDir rs)
  then show ?thesis
    by (auto simp: dir_storeClose_locks_def intro!: tidy_append tidy_with_lock tidy_concat tidy_await tidy_dir_close_repo)
next
  case (PruneRepos rs)
  then show ?thesis by (auto simp: prune_repos_locks_def intro!: tidy_with_lock tidy_concat tidy_prune_repo)
qed (use assms in \<open>simp_all add: tidy_lookup tidy_calls_inner\<close>)

text \<open>
  C11: The locks of a store cannot deadlock: whatever requests, ticks of the collector, prunings and
  \<open>Close\<close> run side by side, as long as one of them has something left to do, one can go on.  Left out
  are the calls that break this on their own (\<open>orderly\<close>): in the directory store the pruning of an upload
  and a load that merges referrers; in the memory store the \<open>Close\<close> of an upload whose digest cannot be
  computed, which returns with the mutex of the repository locked.
\<close>

theorem store_makes_progress:
  assumes "\<forall>cs \<in> set css. \<forall>c \<in> set cs. store_orderly st c" and "lock_step\<^sup>*\<^sup>* (store_pool st css) (own, ts)"
    and "as \<in> set ts" and "as \<noteq> []"
  shows "\<exists>q. lock_step (own, ts) q"
proof -
  have "pool_ok store_rank (store_pool st css)"
    unfolding store_pool_def by (rule idle_pool_ok) (use assms(1) tidy_store_call in \<open>auto intro!: tidy_concat\<close>)
  then show ?thesis using pool_progress [OF lock_steps_pool_ok [OF assms(2)] assms(3,4)] by blast
qed

text \<open>A write, a tick that collects, and a close that waits for both.\<close>

theorem store_makes_progress_witness:
  "\<exists>q. lock_step (store_pool StoreDir
     [[Request ''r'' [CallWrite ''a'' True]], [Ticker [[(''r'', True, True, False)]]], [CloseDir [(''r'', CloseForgets (Some 1) True False)]]]) q"
proof -
  let ?css = "[[Request ''r'' [CallWrite ''a'' True]], [Ticker [[(''r'', True, True, False)]]], [CloseDir [(''r'', CloseForgets (Some 1) True False)]]]"
  obtain own ts where p: "store_pool StoreDir ?css = (own, ts)" by fastforce
  then have "store_locks StoreDir (Ticker [[(''r'', True, True, False)]]) \<in> set ts" by (auto simp: store_pool_def)
  moreover have "store_locks StoreDir (Ticker [[(''r'', True, True, False)]]) \<noteq> []" by (simp add: ticker_locks_def)
  ultimately show ?thesis using store_makes_progress [of ?css StoreDir own ts] p by simp
qed

end
