(* ===== verification/Repo_Guard.thy ===== *)
theory Repo_Guard
  imports Config
begin

text \<open>
  How a store keeps requests and the garbage collector of a repository apart (\<open>RepoGet\<close>, \<open>Done\<close> and
  \<open>gc\<close> in \<open>internal/store/mem.go\<close> and \<open>internal/store/dir.go\<close>).  The channel \<open>wgBlock\<close> holds one token;
  a request takes it, adds itself to the wait group \<open>wg\<close> and puts it back; a collector takes it, waits
  until the group is empty, collects, and puts it back.  Each goroutine is a phase, and each operation
  on the channel or the group one step; steps of different goroutines interleave.
\<close>

section \<open>The guard of a repository\<close>

text \<open>
  A request has arrived, is the first to open the repository, waits for the token, holds it, has been
  counted and still holds it, uses the repository, is blocked in it for good, or has called \<open>Done\<close>.
  What a handler does after its \<open>Done\<close>, such as a write to an upload, is not under the guard.
\<close>

datatype phase = Arrived | Opening | Waiting | Holding | Counted | Using | Stuck | Finished

text \<open>A collector rests, waits for the requests, collects, or is blocked in the collection for good.\<close>

datatype gc_phase = Resting | Draining | Collecting | Hung

text \<open>
  \<open>g_known\<close>: the repository is in the map of the store; \<open>g_token\<close>: the token is in the channel; \<open>g_wg\<close>:
  the counter of the wait group; \<open>g_opener\<close>: the request that opened the repository.
\<close>

record guard =
  g_known :: bool
  g_token :: bool
  g_wg :: nat
  g_reqs :: "phase list"
  g_opener :: "nat option"
  g_gcs :: "gc_phase list"

definition new_guard :: "nat \<Rightarrow> nat \<Rightarrow> guard" where
  "new_guard n m = \<lparr>g_known = False, g_token = False, g_wg = 0, g_reqs = replicate n Arrived, g_opener = None,
     g_gcs = replicate m Resting\<rparr>"

definition req_at :: "guard \<Rightarrow> nat \<Rightarrow> phase \<Rightarrow> bool" where
  "req_at s i p \<longleftrightarrow> i < length (g_reqs s) \<and> g_reqs s ! i = p"

definition gc_at :: "guard \<Rightarrow> nat \<Rightarrow> gc_phase \<Rightarrow> bool" where
  "gc_at s i p \<longleftrightarrow> i < length (g_gcs s) \<and> g_gcs s ! i = p"

definition set_req :: "nat \<Rightarrow> phase \<Rightarrow> guard \<Rightarrow> guard" where
  "set_req i p s = s\<lparr>g_reqs := (g_reqs s)[i := p]\<rparr>"

definition set_gc :: "nat \<Rightarrow> gc_phase \<Rightarrow> guard \<Rightarrow> guard" where
  "set_gc i p s = s\<lparr>g_gcs := (g_gcs s)[i := p]\<rparr>"

text \<open>The mutex of the store is held from the lookup of a new repository to the end of \<open>RepoGet\<close>.\<close>

definition store_free :: "guard \<Rightarrow> bool" where
  "store_free s \<longleftrightarrow> Opening \<notin> set (g_reqs s)"

text \<open>
  The memory store puts a new repository into its map as the last thing, which makes its first open one
  step; the directory store puts it there before it reads the layout and counts the request, which makes
  two, and its collector does not take the mutex of the store.  A collector takes up the repositories that
  changed since its previous run; the times are left out, so that \<open>drain\<close> can come whenever the token is
  there.  A repository that is pruned from the store and opened anew is another object with its own guard.
\<close>

inductive guard_step :: "store_type \<Rightarrow> guard \<Rightarrow> guard \<Rightarrow> bool" where
  found: "req_at s i Arrived \<Longrightarrow> g_known s \<Longrightarrow> store_free s \<Longrightarrow> guard_step st s (set_req i Waiting s)"
| refused: "req_at s i Arrived \<Longrightarrow> \<not> g_known s \<Longrightarrow> store_free s \<Longrightarrow>
    guard_step st s (set_req i Finished s)"
| open_mem: "st \<noteq> StoreDir \<Longrightarrow> req_at s i Arrived \<Longrightarrow> \<not> g_known s \<Longrightarrow> store_free s \<Longrightarrow>
    guard_step st s (set_req i Using (s\<lparr>g_known := True, g_token := True, g_opener := Some i, g_wg := g_wg s + 1\<rparr>))"
| publish_dir: "st = StoreDir \<Longrightarrow> req_at s i Arrived \<Longrightarrow> \<not> g_known s \<Longrightarrow> store_free s \<Longrightarrow>
    guard_step st s (set_req i Opening (s\<lparr>g_known := True, g_token := True, g_opener := Some i\<rparr>))"
| opened_dir: "req_at s i Opening \<Longrightarrow> guard_step st s (set_req i Using (s\<lparr>g_wg := g_wg s + 1\<rparr>))"
| take: "req_at s i Waiting \<Longrightarrow> g_token s \<Longrightarrow> guard_step st s (set_req i Holding (s\<lparr>g_token := False\<rparr>))"
| cancelled: "req_at s i Waiting \<Longrightarrow> guard_step st s (set_req i Finished s)"
| add: "req_at s i Holding \<Longrightarrow> guard_step st s (set_req i Counted (s\<lparr>g_wg := g_wg s + 1\<rparr>))"
| put: "req_at s i Counted \<Longrightarrow> \<not> g_token s \<Longrightarrow> guard_step st s (set_req i Using (s\<lparr>g_token := True\<rparr>))"
| leave: "req_at s i Using \<Longrightarrow> 0 < g_wg s \<Longrightarrow> guard_step st s (set_req i Finished (s\<lparr>g_wg := g_wg s - 1\<rparr>))"
| stuck: "req_at s i Using \<Longrightarrow> guard_step st s (set_req i Stuck s)"
| drain: "gc_at s i Resting \<Longrightarrow> g_known s \<Longrightarrow> g_token s \<Longrightarrow> guard_step st s (set_gc i Draining (s\<lparr>g_token := False\<rparr>))"
| collect: "gc_at s i Draining \<Longrightarrow> g_wg s = 0 \<Longrightarrow> guard_step st s (set_gc i Collecting s)"
| rest: "gc_at s i Collecting \<Longrightarrow> \<not> g_token s \<Longrightarrow> guard_step st s (set_gc i Resting (s\<lparr>g_token := True\<rparr>))"
| hang: "gc_at s i Collecting \<Longrightarrow> guard_step st s (set_gc i Hung s)"

section \<open>What holds in every state\<close>

definition holds_token :: "phase \<Rightarrow> bool" where
  "holds_token p \<longleftrightarrow> p = Holding \<or> p = Counted"

definition is_counted :: "phase \<Rightarrow> bool" where
  "is_counted p \<longleftrightarrow> p = Counted \<or> p = Using \<or> p = Stuck"

definition uses :: "phase \<Rightarrow> bool" where
  "uses p \<longleftrightarrow> p = Using \<or> p = Stuck"

definition collects :: "gc_phase \<Rightarrow> bool" where
  "collects g \<longleftrightarrow> g = Collecting \<or> g = Hung"

lemma uses_simps [simp]: "uses Using" "uses Stuck" "\<not> uses Arrived" "\<not> uses Opening" "\<not> uses Waiting" "\<not> uses Holding"
    "\<not> uses Counted" "\<not> uses Finished"
  and collects_simps [simp]: "collects Collecting" "collects Hung" "\<not> collects Resting" "\<not> collects Draining"
  by (simp_all add: uses_def collects_def)

primrec tally :: "('a \<Rightarrow> bool) \<Rightarrow> 'a list \<Rightarrow> nat" where
  "tally P [] = 0"
| "tally P (x # xs) = of_bool (P x) + tally P xs"

lemma tally_update:
  "i < length xs \<Longrightarrow> tally P (xs[i := x]) + of_bool (P (xs ! i)) = tally P xs + of_bool (P x)"
proof (induction xs arbitrary: i)
  case (Cons y ys)
  then show ?case by (cases i) fastforce+
qed simp

lemma tally_zero: "tally P xs = 0 \<longleftrightarrow> (\<forall>x \<in> set xs. \<not> P x)"
  by (induction xs) auto

lemma tally_replicate [simp]: "\<not> P x \<Longrightarrow> tally P (replicate n x) = 0"
  by (simp add: tally_zero)

text \<open>A goroutine changes its phase: its own share is replaced, the rest stays.\<close>

lemma tally_split:
  assumes "i < length xs" and "xs ! i = p"
  shows "\<exists>r. tally P xs = r + of_bool (P p) \<and> (\<forall>q. tally P (xs[i := q]) = r + of_bool (P q))"
proof (intro exI conjI allI)
  have le: "of_bool (P p) \<le> tally P xs"
    using assms tally_zero [of P xs] by (cases "P p") (auto simp: Suc_le_eq)
  then show "tally P xs = (tally P xs - of_bool (P p)) + of_bool (P p)" by simp
  fix q
  show "tally P (xs[i := q]) = (tally P xs - of_bool (P p)) + of_bool (P q)"
    using tally_update [of i xs P q] assms le by simp
qed

lemma tally_req:
  "req_at s i p \<Longrightarrow> \<exists>r. tally P (g_reqs s) = r + of_bool (P p) \<and> (\<forall>q. tally P ((g_reqs s)[i := q]) = r + of_bool (P q))"
  unfolding req_at_def by (elim conjE) (rule tally_split)

lemma tally_gc:
  "gc_at s i p \<Longrightarrow> \<exists>r. tally P (g_gcs s) = r + of_bool (P p) \<and> (\<forall>q. tally P ((g_gcs s)[i := q]) = r + of_bool (P q))"
  unfolding gc_at_def by (elim conjE) (rule tally_split)

text \<open>
  There is one token, in the channel or with one goroutine; the wait group counts the requests that
  use the repository; while a collector collects, nobody does but the opener in the directory store.
\<close>

definition token_inv :: "guard \<Rightarrow> bool" where
  "token_inv s \<longleftrightarrow>
     tally holds_token (g_reqs s) + tally (\<lambda>g. g \<noteq> Resting) (g_gcs s) + of_bool (g_token s) = of_bool (g_known s)"

definition group_inv :: "guard \<Rightarrow> bool" where
  "group_inv s \<longleftrightarrow> g_wg s = tally is_counted (g_reqs s)"

definition phase_inv :: "store_type \<Rightarrow> guard \<Rightarrow> bool" where
  "phase_inv st s \<longleftrightarrow>
     (\<forall>i. req_at s i Opening \<longrightarrow> st = StoreDir \<and> g_opener s = Some i) \<and>
     (\<forall>i. req_at s i Waiting \<longrightarrow> g_known s) \<and>
     (\<forall>j g i p. gc_at s j g \<longrightarrow> collects g \<longrightarrow> req_at s i p \<longrightarrow> uses p \<longrightarrow> st = StoreDir \<and> g_opener s = Some i)"

definition guard_inv :: "store_type \<Rightarrow> guard \<Rightarrow> bool" where
  "guard_inv st s \<longleftrightarrow> token_inv s \<and> group_inv s \<and> phase_inv st s"

lemma req_at_set [simp]: "req_at (set_req i p s) j q \<longleftrightarrow> (if j = i then i < length (g_reqs s) \<and> q = p else req_at s j q)"
  "req_at (set_gc i g s) j q \<longleftrightarrow> req_at s j q"
  by (auto simp: req_at_def set_req_def set_gc_def)

lemma gc_at_set [simp]: "gc_at (set_gc i p s) j q \<longleftrightarrow> (if j = i then i < length (g_gcs s) \<and> q = p else gc_at s j q)"
  "gc_at (set_req i r s) j q \<longleftrightarrow> gc_at s j q"
  by (auto simp: gc_at_def set_gc_def set_req_def)

lemma set_fields [simp]:
  "g_known (set_req i p s) = g_known s" "g_token (set_req i p s) = g_token s" "g_opener (set_req i p s) = g_opener s"
  "g_wg (set_req i p s) = g_wg s" "g_known (set_gc i g s) = g_known s" "g_token (set_gc i g s) = g_token s"
  "g_opener (set_gc i g s) = g_opener s" "g_wg (set_gc i g s) = g_wg s"
  by (simp_all add: set_req_def set_gc_def)

lemma at_update [simp]:
  "req_at (s\<lparr>g_known := a\<rparr>) j q = req_at s j q" "req_at (s\<lparr>g_token := a\<rparr>) j q = req_at s j q"
  "req_at (s\<lparr>g_wg := n\<rparr>) j q = req_at s j q" "req_at (s\<lparr>g_opener := x\<rparr>) j q = req_at s j q"
  "gc_at (s\<lparr>g_known := a\<rparr>) j g = gc_at s j g" "gc_at (s\<lparr>g_token := a\<rparr>) j g = gc_at s j g"
  "gc_at (s\<lparr>g_wg := n\<rparr>) j g = gc_at s j g" "gc_at (s\<lparr>g_opener := x\<rparr>) j g = gc_at s j g"
  by (simp_all add: req_at_def gc_at_def)

lemma new_guard_inv: "guard_inv st (new_guard n m)"
  by (auto simp: guard_inv_def token_inv_def group_inv_def phase_inv_def new_guard_def req_at_def gc_at_def
      holds_token_def is_counted_def)

lemma token_step:
  assumes "guard_step st s s'" and "token_inv s"
  shows "token_inv s'"
  using assms
  by cases ((cases "g_known s"; auto simp: token_inv_def set_req_def set_gc_def holds_token_def
      dest!: tally_req [where P = holds_token] tally_gc [where P = "\<lambda>g. g \<noteq> Resting"])+)

lemma group_step:
  assumes "guard_step st s s'" and "group_inv s"
  shows "group_inv s'"
  using assms
  by cases (auto simp: group_inv_def set_req_def set_gc_def is_counted_def dest!: tally_req [where P = is_counted])

text \<open>Who holds the token is alone, and the repository is known.\<close>

lemma tally_pos: "k < length xs \<Longrightarrow> P (xs ! k) \<Longrightarrow> 0 < tally P xs"
  using tally_zero [of P xs] by (metis gr0I nth_mem)

lemma tally_two: "i < length xs \<Longrightarrow> j < length xs \<Longrightarrow> i \<noteq> j \<Longrightarrow> P (xs ! i) \<Longrightarrow> P (xs ! j) \<Longrightarrow> 2 \<le> tally P xs"
proof (induction xs arbitrary: i j)
  case (Cons x xs)
  then show ?case using tally_pos [of "i - 1" xs P] tally_pos [of "j - 1" xs P] Cons.IH [of "i - 1" "j - 1"]
    by (cases i; cases j) simp_all
qed simp

lemma holder_alone:
  assumes "token_inv s" and "gc_at s j g" and "g \<noteq> Resting"
  shows "g_known s" and "\<not> g_token s" and "req_at s i p \<Longrightarrow> \<not> holds_token p" and "gc_at s k h \<Longrightarrow> h = Resting \<or> k = j"
proof -
  let ?R = "tally holds_token (g_reqs s)" and ?G = "tally (\<lambda>g. g \<noteq> Resting) (g_gcs s)"
  have sum: "?R + ?G + of_bool (g_token s) = (of_bool (g_known s) :: nat)" using assms(1) by (simp add: token_inv_def)
  have "0 < ?G" using assms(2,3) tally_zero [of "\<lambda>g. g \<noteq> Resting" "g_gcs s"] unfolding gc_at_def by (metis gr0I nth_mem)
  then show known: "g_known s" and "\<not> g_token s" using sum by (cases "g_known s"; cases "g_token s"; simp)+
  have R: "?R = 0" and G: "?G \<le> 1" using sum \<open>0 < ?G\<close> known by simp_all
  show "req_at s i p \<Longrightarrow> \<not> holds_token p" using R unfolding tally_zero req_at_def by (metis nth_mem)
  show "gc_at s k h \<Longrightarrow> h = Resting \<or> k = j"
    using tally_two [of k "g_gcs s" j "\<lambda>g. g \<noteq> Resting"] G assms(2,3) unfolding gc_at_def by auto
qed

lemma group_count: "group_inv s \<Longrightarrow> req_at s i p \<Longrightarrow> is_counted p \<Longrightarrow> 0 < g_wg s"
  unfolding group_inv_def using tally_req [of s i p is_counted] by auto

lemma phase_step:
  assumes "guard_step st s s'" and "guard_inv st s"
  shows "phase_inv st s'"
proof -
  have inv: "token_inv s" "group_inv s" "phase_inv st s" using assms(2) by (simp_all add: guard_inv_def)
  note A = holder_alone [OF inv(1)] and C = group_count [OF inv(2)]
  have new: "\<not> g_known s \<Longrightarrow> \<not> (gc_at s j g \<and> collects g)" and held: "req_at s i Counted \<Longrightarrow> \<not> (gc_at s j g \<and> collects g)"
    and idle: "g_wg s = 0 \<Longrightarrow> \<not> (req_at s i p \<and> uses p)" for i j g p
    using A(1,3) [of j g] C [of i p] by (auto simp: holds_token_def is_counted_def collects_def uses_def)
  have alone: "store_free s \<Longrightarrow> \<not> req_at s i Opening" for i unfolding store_free_def req_at_def by (metis nth_mem)
  have P: "req_at s i Opening \<Longrightarrow> st = StoreDir \<and> g_opener s = Some i" "req_at s i Waiting \<Longrightarrow> g_known s"
      "gc_at s j g \<Longrightarrow> collects g \<Longrightarrow> req_at s i p \<Longrightarrow> uses p \<Longrightarrow> st = StoreDir \<and> g_opener s = Some i" for i j g p
    using inv(3) unfolding phase_inv_def by blast+
  have "(\<forall>i. req_at s' i Opening \<longrightarrow> st = StoreDir \<and> g_opener s' = Some i) \<and> (\<forall>i. req_at s' i Waiting \<longrightarrow> g_known s')"
    using assms(1) by cases (auto simp: alone dest: P(1,2))
  moreover have "st = StoreDir \<and> g_opener s' = Some i" if "gc_at s' j g" "collects g" "req_at s' i p" "uses p" for i j g p
    using assms(1)
  proof cases
    case (opened_dir k)
    then show ?thesis using that P(1) [of k] P(3) [of j g i p] by (auto split: if_splits)
  next
    case (put k)
    then show ?thesis using that held [of k j g] P(3) [of j g i p] by (auto split: if_splits)
  next
    case (stuck k)
    then have "g_opener s' = g_opener s" "gc_at s j g" "\<exists>q. req_at s i q \<and> uses q" using that by (auto split: if_splits)
    then show ?thesis using P(3) that(2) by metis
  next
    case (collect k)
    then show ?thesis using that idle [of i p] P(3) [of j g i p] by (auto split: if_splits)
  next
    case (hang k)
    then have "g_opener s' = g_opener s" "req_at s i p" "\<exists>h. gc_at s j h \<and> collects h" using that by (auto split: if_splits)
    then show ?thesis using P(3) that(4) by metis
  qed (use that new [of j g] P(3) [of j g i p] in \<open>auto split: if_splits\<close>)
  ultimately show ?thesis unfolding phase_inv_def by blast
qed

lemma guard_step_inv: "guard_step st s s' \<Longrightarrow> guard_inv st s \<Longrightarrow> guard_inv st s'"
  using token_step group_step phase_step by (auto simp: guard_inv_def)

lemma guard_steps_inv: "(guard_step st)\<^sup>*\<^sup>* s s' \<Longrightarrow> guard_inv st s \<Longrightarrow> guard_inv st s'"
  by (induction rule: rtranclp_induct) (auto dest: guard_step_inv)

section \<open>What the guard gives\<close>

text \<open>
  C9: The guard of a repository keeps collections and requests apart, whatever the interleaving: in
  every state in which a collector collects, or is blocked in its collection, no other does, and no
  request is between its \<open>RepoGet\<close> and its \<open>Done\<close>.  In the directory store one request can be, the one
  that opened the repository.  It is not about what handlers of uploads do after their \<open>Done\<close>, nor about
  two objects of one repository that the directory store has pruned and opened anew.
\<close>

theorem guard_excludes:
  assumes "(guard_step st)\<^sup>*\<^sup>* (new_guard n m) s" and "gc_at s j Collecting \<or> gc_at s j Hung"
  shows "(req_at s i Using \<or> req_at s i Stuck \<longrightarrow> st = StoreDir \<and> g_opener s = Some i) \<and>
    (gc_at s k g \<longrightarrow> g = Resting \<or> k = j)"
proof -
  have inv: "token_inv s" "phase_inv st s" using guard_steps_inv [OF assms(1) new_guard_inv] by (simp_all add: guard_inv_def)
  have "gc_at s k g \<Longrightarrow> g = Resting \<or> k = j" using holder_alone(4) [OF inv(1)] assms(2) by blast
  moreover have "req_at s i Using \<or> req_at s i Stuck \<Longrightarrow> st = StoreDir \<and> g_opener s = Some i"
    using inv(2) assms(2) collects_simps(1,2) uses_simps(1,2) unfolding phase_inv_def by blast
  ultimately show ?thesis by blast
qed

text \<open>Schedules: from a state, one step by a rule after the other.\<close>

lemma then_step: "(guard_step st)\<^sup>*\<^sup>* s0 s \<Longrightarrow> guard_step st s s' \<Longrightarrow> (guard_step st)\<^sup>*\<^sup>* s0 s'"
  by (rule rtranclp.rtrancl_into_rtrancl)

lemmas guard_run = req_at_def gc_at_def set_req_def set_gc_def store_free_def new_guard_def

theorem guard_excludes_witness:
  "\<exists>s. (guard_step StoreMem)\<^sup>*\<^sup>* (new_guard 1 1) s \<and> gc_at s 0 Collecting \<and> \<not> req_at s 0 Using"
proof -
  define s1 where "s1 = set_req 0 Using ((new_guard 1 1)\<lparr>g_known := True, g_token := True, g_opener := Some 0, g_wg := 1\<rparr>)"
  define s2 where "s2 = set_req 0 Finished (s1\<lparr>g_wg := 0\<rparr>)"
  define s3 where "s3 = set_gc 0 Draining (s2\<lparr>g_token := False\<rparr>)"
  define s4 where "s4 = set_gc 0 Collecting s3"
  have "guard_step StoreMem (new_guard 1 1) s1"
    using guard_step.open_mem [of StoreMem "new_guard 1 1" 0] by (simp add: s1_def guard_run)
  moreover have "guard_step StoreMem s1 s2" using guard_step.leave [of s1 0] by (simp add: s1_def s2_def guard_run)
  moreover have "guard_step StoreMem s2 s3" using guard_step.drain [of s2 0] by (simp add: s1_def s2_def s3_def guard_run)
  moreover have "guard_step StoreMem s3 s4" using guard_step.collect [of s3 0] by (simp add: s1_def s2_def s3_def s4_def guard_run)
  ultimately have run: "(guard_step StoreMem)\<^sup>*\<^sup>* (new_guard 1 1) s4" by (auto intro: rtranclp.intros)
  have "gc_at s4 0 Collecting" by (simp add: s1_def s2_def s3_def s4_def guard_run)
  then show ?thesis using guard_excludes [OF run, of 0 0] run by blast
qed

text \<open>
  C13: In the directory store a collection can run while a request uses the repository: the collector
  finds the repository in the map and an empty wait group, before the request that opens the
  repository has counted itself.
\<close>

theorem first_open_races_gc:
  "\<exists>s. (guard_step StoreDir)\<^sup>*\<^sup>* (new_guard 1 1) s \<and> gc_at s 0 Collecting \<and> req_at s 0 Using"
proof -
  define s1 where "s1 = set_req 0 Opening ((new_guard 1 1)\<lparr>g_known := True, g_token := True, g_opener := Some 0\<rparr>)"
  define s2 where "s2 = set_gc 0 Draining (s1\<lparr>g_token := False\<rparr>)"
  define s3 where "s3 = set_gc 0 Collecting s2"
  define s4 where "s4 = set_req 0 Using (s3\<lparr>g_wg := 1\<rparr>)"
  have "guard_step StoreDir (new_guard 1 1) s1"
    using guard_step.publish_dir [of StoreDir "new_guard 1 1" 0] by (simp add: s1_def guard_run)
  moreover have "guard_step StoreDir s1 s2" using guard_step.drain [of s1 0] by (simp add: s1_def s2_def guard_run)
  moreover have "guard_step StoreDir s2 s3" using guard_step.collect [of s2 0] by (simp add: s1_def s2_def s3_def guard_run)
  moreover have "guard_step StoreDir s3 s4" using guard_step.opened_dir [of s3 0] by (simp add: s1_def s2_def s3_def s4_def guard_run)
  ultimately have "(guard_step StoreDir)\<^sup>*\<^sup>* (new_guard 1 1) s4" by (auto intro: rtranclp.intros)
  then show ?thesis by (intro exI [of _ s4]) (simp add: s1_def s2_def s3_def s4_def guard_run)
qed

section \<open>Waiting requests are served\<close>

text \<open>The steps the goroutines that hold the token or block a collector still have to make.\<close>

fun req_work :: "phase \<Rightarrow> nat" where
  "req_work Opening = 4"
| "req_work Holding = 3"
| "req_work Counted = 2"
| "req_work Using = 1"
| "req_work p = 0"

fun gc_work :: "gc_phase \<Rightarrow> nat" where
  "gc_work Draining = 2"
| "gc_work Collecting = 1"
| "gc_work g = 0"

definition guard_work :: "guard \<Rightarrow> nat" where
  "guard_work s = sum_list (List.map req_work (g_reqs s)) + sum_list (List.map gc_work (g_gcs s))"

lemma work_less:
  "req_at s i p \<Longrightarrow> req_work q < req_work p \<Longrightarrow> g_reqs t = g_reqs s \<Longrightarrow> g_gcs t = g_gcs s \<Longrightarrow>
    guard_work (set_req i q t) < guard_work s"
  "gc_at s i g \<Longrightarrow> gc_work h < gc_work g \<Longrightarrow> g_reqs t = g_reqs s \<Longrightarrow> g_gcs t = g_gcs s \<Longrightarrow>
    guard_work (set_gc i h t) < guard_work s"
  using sum_list_less [of i "g_reqs s" req_work q] sum_list_less [of i "g_gcs s" gc_work h]
  by (simp_all add: guard_work_def req_at_def gc_at_def set_req_def set_gc_def)

text \<open>While the token is away, somebody can make a step that brings it closer, and the waiting wait on.\<close>

definition unblocked :: "guard \<Rightarrow> bool" where
  "unblocked s \<longleftrightarrow> (\<forall>k. \<not> req_at s k Stuck \<and> \<not> gc_at s k Hung)"

lemma unblocked_set [simp]:
  "unblocked s \<Longrightarrow> p \<noteq> Stuck \<Longrightarrow> unblocked (set_req i p s)" "unblocked s \<Longrightarrow> g \<noteq> Hung \<Longrightarrow> unblocked (set_gc i g s)"
  "unblocked (s\<lparr>g_token := b\<rparr>) = unblocked s" "unblocked (s\<lparr>g_wg := w\<rparr>) = unblocked s"
  by (auto simp: unblocked_def split: if_splits)

lemma token_returns:
  assumes "guard_inv st s" and "req_at s i Waiting" and "\<not> g_token s" and "unblocked s"
  shows "\<exists>s'. guard_step st s s' \<and> guard_work s' < guard_work s \<and> req_at s' i Waiting \<and> unblocked s'"
proof -
  have inv: "token_inv s" "group_inv s" "phase_inv st s" using assms(1) by (simp_all add: guard_inv_def)
  have other: "i \<noteq> j" if "req_at s j p" "p \<noteq> Waiting" for j p using that assms(2) by (auto simp: req_at_def)
  have "g_known s" using inv(3) assms(2) by (auto simp: phase_inv_def)
  then have "tally holds_token (g_reqs s) \<noteq> 0 \<or> tally (\<lambda>g. g \<noteq> Resting) (g_gcs s) \<noteq> 0"
    using inv(1) assms(3) by (auto simp: token_inv_def)
  then consider j where "req_at s j Holding" | j where "req_at s j Counted" | j where "gc_at s j Draining" | j where "gc_at s j Collecting"
    using assms(4)
    by (auto simp: tally_zero in_set_conv_nth req_at_def gc_at_def holds_token_def unblocked_def) (metis gc_phase.exhaust)
  then show ?thesis
  proof cases
    case (1 j)
    show ?thesis
      by (rule exI, intro conjI, rule guard_step.add [OF 1], rule work_less(1) [OF 1]) (use assms(2,4) other [OF 1] in simp_all)
  next
    case (2 j)
    show ?thesis
      by (rule exI, intro conjI, rule guard_step.put [OF 2 assms(3)], rule work_less(1) [OF 2]) (use assms(2,4) other [OF 2] in simp_all)
  next
    case (3 j)
    show ?thesis
    proof (cases "g_wg s = 0")
      case True
      show ?thesis
        by (rule exI, intro conjI, rule guard_step.collect [OF 3 True], rule work_less(2) [OF 3]) (use assms(2,4) in auto)
    next
      case False
      then obtain k p where k: "req_at s k p" "is_counted p"
        using inv(2) unfolding group_inv_def by (metis tally_zero in_set_conv_nth req_at_def)
      then have "p = Using" using holder_alone(3) [OF inv(1) 3] assms(4) by (auto simp: is_counted_def holds_token_def unblocked_def)
      note k = k(1) [unfolded this]
      show ?thesis
        by (rule exI, intro conjI, rule guard_step.leave [OF k], use False in simp, rule work_less(1) [OF k])
          (use assms(2,4) other [OF k] in simp_all)
    qed
  next
    case (4 j)
    show ?thesis
      by (rule exI, intro conjI, rule guard_step.rest [OF 4 assms(3)], rule work_less(2) [OF 4]) (use assms(2,4) in auto)
  qed
qed

lemma token_comes_back:
  "guard_inv st s \<Longrightarrow> req_at s i Waiting \<Longrightarrow> unblocked s \<Longrightarrow> \<exists>s'. (guard_step st)\<^sup>*\<^sup>* s s' \<and> req_at s' i Waiting \<and> g_token s'"
proof (induction "guard_work s" arbitrary: s rule: less_induct)
  case less
  show ?case
  proof (cases "g_token s")
    case False
    then obtain s1 where s1: "guard_step st s s1" "guard_work s1 < guard_work s" "req_at s1 i Waiting" "unblocked s1"
      using token_returns less.prems by blast
    then obtain s2 where "(guard_step st)\<^sup>*\<^sup>* s1 s2" "req_at s2 i Waiting" "g_token s2"
      using less.hyps guard_step_inv less.prems(1) by blast
    then show ?thesis using s1(1) by (meson converse_rtranclp_into_rtranclp)
  qed (use less.prems in blast)
qed

text \<open>
  C10: The guard of a repository lets no request wait for good: from every state in which a request
  waits and no request or collector is blocked for good in what it does with the repository, those that
  run can go on until the request has the repository, without anybody giving up.
\<close>

theorem waiting_request_served:
  assumes "(guard_step st)\<^sup>*\<^sup>* (new_guard n m) s" and "req_at s i Waiting"
    and "\<forall>k. \<not> req_at s k Stuck \<and> \<not> gc_at s k Hung"
  shows "\<exists>s'. (guard_step st)\<^sup>*\<^sup>* s s' \<and> req_at s' i Using"
proof -
  obtain s1 where s1: "(guard_step st)\<^sup>*\<^sup>* s s1" "req_at s1 i Waiting" "g_token s1"
    using token_comes_back [OF guard_steps_inv [OF assms(1) new_guard_inv] assms(2)] assms(3)
    unfolding unblocked_def by blast
  let ?s2 = "set_req i Holding (s1\<lparr>g_token := False\<rparr>)"
  let ?s3 = "set_req i Counted (?s2\<lparr>g_wg := g_wg ?s2 + 1\<rparr>)"
  let ?s4 = "set_req i Using (?s3\<lparr>g_token := True\<rparr>)"
  have len: "i < length (g_reqs s1)" using s1(2) by (simp add: req_at_def)
  have "guard_step st s1 ?s2" using guard_step.take [OF s1(2,3)] .
  moreover have "guard_step st ?s2 ?s3" by (rule guard_step.add) (simp add: len)
  moreover have "guard_step st ?s3 ?s4" by (rule guard_step.put) (simp_all add: len set_req_def req_at_def)
  ultimately have "(guard_step st)\<^sup>*\<^sup>* s ?s4" using s1(1) by (auto intro: rtranclp.intros)
  moreover have "req_at ?s4 i Using" using len by (simp add: set_req_def req_at_def)
  ultimately show ?thesis by blast
qed

theorem waiting_request_served_witness:
  "\<exists>s s'. req_at s 1 Waiting \<and> gc_at s 0 Draining \<and> (guard_step StoreDir)\<^sup>*\<^sup>* s s' \<and> req_at s' 1 Using"
proof -
  define s1 where "s1 = set_req 0 Opening ((new_guard 2 1)\<lparr>g_known := True, g_token := True, g_opener := Some 0\<rparr>)"
  define s2 where "s2 = set_req 0 Using (s1\<lparr>g_wg := 1\<rparr>)"
  define s3 where "s3 = set_req 1 Waiting s2"
  define s4 where "s4 = set_gc 0 Draining (s3\<lparr>g_token := False\<rparr>)"
  note D = s1_def s2_def s3_def s4_def guard_run numeral_2_eq_2
  have "guard_step StoreDir (new_guard 2 1) s1"
    using guard_step.publish_dir [of StoreDir "new_guard 2 1" 0] by (simp add: D)
  moreover have "guard_step StoreDir s1 s2" using guard_step.opened_dir [of s1 0] by (simp add: D)
  moreover have "guard_step StoreDir s2 s3" using guard_step.found [of s2 1] by (simp add: D)
  moreover have "guard_step StoreDir s3 s4" using guard_step.drain [of s3 0] by (simp add: D)
  ultimately have "(guard_step StoreDir)\<^sup>*\<^sup>* (new_guard 2 1) s4" by (auto intro: rtranclp.intros)
  moreover have "req_at s4 1 Waiting" "gc_at s4 0 Draining" by (simp_all add: D)
  moreover have "\<forall>k. \<not> req_at s4 k Stuck \<and> \<not> gc_at s4 k Hung" by (auto simp: D nth_Cons' less_Suc_eq)
  ultimately show ?thesis using waiting_request_served by blast
qed

end
