(* ===== verification/Mem_Index.thy ===== *)
theory Mem_Index
  imports Mem_Invariant GC_Invariant
begin

text \<open>
  The indexes of a memory store without a directory: whatever a server runs, they stay well formed and
  their tags are references the API accepts.
\<close>

section \<open>Typed indexes\<close>

definition tags_ok :: "descriptor list \<Rightarrow> bool" where
  "tags_ok ms \<longleftrightarrow> (\<forall>c \<in> set ms. tag_of c \<noteq> [] \<longrightarrow> refTagRE (tag_of c))"

definition index_ok :: "layout_index \<Rightarrow> bool" where
  "index_ok li \<longleftrightarrow> wf_index li \<and> tags_ok (i_manifests li)"

lemma tags_ok_subset: "tags_ok ms \<Longrightarrow> set ms' \<subseteq> set ms \<Longrightarrow> tags_ok ms'"
  by (auto simp: tags_ok_def)

lemma tags_ok_update: "tags_ok ms \<Longrightarrow> (tag_of d \<noteq> [] \<Longrightarrow> refTagRE (tag_of d)) \<Longrightarrow> tags_ok (ms[i := d])"
  unfolding tags_ok_def using set_update_subset_insert [of ms i d] by blast

lemma delete_at_subset: "set (delete_at i ms) \<subseteq> set ms"
  by (auto simp: delete_at_def dest: in_set_takeD in_set_dropD)

lemma delete_func_subset: "set (delete_func p ms) \<subseteq> set ms"
  by (auto simp: delete_func_def)

lemma tags_ok_untag_loop:
  assumes "n \<le> length ms" and "tags_ok ms"
  shows "tags_ok (untag_loop tag dig n ms)"
  by (rule untag_loop_inv [where P = tags_ok])
    (use assms in \<open>auto intro: tags_ok_update tags_ok_subset [OF _ delete_at_subset]\<close>)

lemma tags_ok_move: "tags_ok (i_manifests li) \<Longrightarrow> tags_ok (i_manifests (fold move_child cs li))"
proof (induction cs arbitrary: li)
  case (Cons c cs)
  have "tags_ok (i_manifests (move_child c li))"
    using Cons.prems by (auto simp: move_child_def intro: tags_ok_subset [OF _ delete_at_subset] split: option.split)
  then show ?case using Cons.IH by simp
qed simp

lemma add_desc_index_ok:
  assumes ok: "index_ok li" and d: "insertable d"
  shows "index_ok (add_desc L now d cs li)"
proof -
  let ?d = "stamp_created L now d" and ?ms = "i_manifests (fold move_child cs li)"
  have tag: "tag_of ?d \<noteq> [] \<Longrightarrow> refTagRE (tag_of ?d)" using d by (simp add: insertable_def)
  have ms: "tags_ok ?ms" using ok tags_ok_move by (simp add: index_ok_def)
  have "tags_ok (i_manifests (add_desc L now d cs li))"
  proof (cases "subject_of d = []")
    case True
    have "tags_ok (place_desc t ?d xs)" if "tags_ok xs" for t xs
      using that tag set_place_desc [of t ?d xs] unfolding tags_ok_def by blast
    then show ?thesis unfolding add_desc_manifests [OF True] Let_def using ms tags_ok_untag_loop by simp
  next
    case False
    have "tags_ok (?ms @ [?d])" using ms tag by (auto simp: tags_ok_def)
    moreover have "tags_ok (?ms[i := ?d])" for i using tags_ok_update [OF ms tag] .
    ultimately show ?thesis using False by (simp add: add_desc_def Let_def split: option.split)
  qed
  then show ?thesis using ok d add_desc_wf by (auto simp: index_ok_def insertable_def)
qed

lemma rm_desc_index_ok:
  assumes "index_ok li"
  shows "index_ok (rm_desc L now d li)"
proof -
  have "tags_ok (i_manifests (rm_desc L now d li))"
  proof (cases "tag_of d = []")
    case True
    then show ?thesis using assms tags_ok_subset [OF _ delete_func_subset] by (simp add: rm_desc_untagged index_ok_def)
  next
    case False
    have ok: "tags_ok (i_manifests li)" using assms by (simp add: index_ok_def)
    show ?thesis
    proof (cases rule: rm_desc_tagged_cases [OF False, where li = li and L = L and now = now])
      case (1 c)
      then show ?thesis using ok tags_ok_subset [OF _ delete_func_subset] by simp
    next
      case (2 ys y zs)
      then show ?thesis using ok by (auto simp: tags_ok_def)
    qed (use ok in simp)
  qed
  then show ?thesis using assms rm_desc_wf by (simp add: index_ok_def)
qed

section \<open>Collections remove entries only\<close>

lemma sweep_index:
  assumes "\<forall>li d. I li \<longrightarrow> I (rm_desc L rnow (zero_descriptor\<lparr>d_digest := d\<rparr>) li)"
  shows "fold (gc_sweep_step L G g now rnow seen inIndex) dl (li, chg, s) = (li', chg', s') \<Longrightarrow> I li \<Longrightarrow> I li'"
proof (induction dl arbitrary: li chg s)
  case (Cons d dl)
  obtain li1 chg1 s1 where st: "gc_sweep_step L G g now rnow seen inIndex d (li, chg, s) = (li1, chg1, s1)"
    using prod_cases3 by blast
  have "I li1" using st Cons.prems(2) assms
    by (auto simp: gc_sweep_step_def split: if_split_asm prod.splits sum.splits)
  then show ?case using Cons.IH [of li1 chg1 s1] Cons.prems(1) st by simp
qed simp

lemma clean_index:
  assumes "\<forall>li d. I li \<longrightarrow> I (rm_desc L rnow (zero_descriptor\<lparr>d_digest := d\<rparr>) li)"
  shows "fold (gc_clean_step L rnow ex) dl (li, chg) = (li', chg') \<Longrightarrow> I li \<Longrightarrow> I li'"
proof (induction dl arbitrary: li chg)
  case (Cons d dl)
  obtain li1 chg1 where st: "gc_clean_step L rnow ex d (li, chg) = (li1, chg1)" by fastforce
  have "I li1" using st Cons.prems(2) assms by (auto simp: gc_clean_step_def split: if_splits)
  then show ?case using Cons.IH [of li1 chg1] Cons.prems(1) st by simp
qed simp

lemma collect_index:
  assumes "\<forall>li d. I li \<longrightarrow> I (rm_desc L rnow (zero_descriptor\<lparr>d_digest := d\<rparr>) li)"
    and "repoGarbageCollect L G g now rnow li s = Some (Inr (li', chg), s')" and "I li"
  shows "I li'"
proof -
  obtain gb s1 seen inIndex s2 dl s3 li1 chg1 s4 where
    sweep: "fold (gc_sweep_step L G g now rnow seen inIndex) dl (li, False, s3) = (li1, chg1, s4)" and
    clean: "fold (gc_clean_step L rnow (set dl)) (map_order L inIndex) (li1, chg1) = (li', chg)"
    using assms(2) by (auto simp: repoGarbageCollect_def split: prod.splits option.splits sum.splits)
  show ?thesis by (rule clean_index [OF assms(1) clean sweep_index [OF assms(1) sweep assms(3)]])
qed

section \<open>The store\<close>

definition mem_typed :: "mem_store \<Rightarrow> bool" where
  "mem_typed s \<longleftrightarrow> cs_rootDir (c_storage (ms_conf s)) = [] \<and>
     (\<forall>r mr. fmlookup (ms_repos s) r = Some mr \<longrightarrow> index_ok (mr_index mr))"

lemma mem_typed_upd_repo:
  "mem_typed s \<Longrightarrow> (\<And>mr. index_ok (mr_index mr) \<Longrightarrow> index_ok (mr_index (f mr))) \<Longrightarrow> mem_typed (upd_repo r f s)"
  by (auto simp: mem_typed_def upd_repo_def split: option.splits if_splits)

lemma mem_typed_frame: "ms_conf s' = ms_conf s \<Longrightarrow> ms_repos s' = ms_repos s \<Longrightarrow> mem_typed s \<Longrightarrow> mem_typed s'"
  by (simp add: mem_typed_def)

lemma mem_typed_fields [simp]:
  "mem_typed (s\<lparr>ms_heap := h\<rparr>) = mem_typed s" "mem_typed (s\<lparr>ms_next := n, ms_heap := h\<rparr>) = mem_typed s"
  "mem_typed (s\<lparr>ms_rand := ids\<rparr>) = mem_typed s"
  "mem_typed (s\<lparr>ms_now := t\<rparr>) = mem_typed s" "mem_typed (s\<lparr>ms_stop := b\<rparr>) = mem_typed s"
  by (simp_all add: mem_typed_def)

lemma new_repo_index_ok: "index_ok (mr_index (new_mem_repo conf p))"
  by (simp add: index_ok_def wf_index_def wf_manifests_def tags_ok_def new_mem_repo_def empty_layout_def Let_def)

lemma mem_typed_new_repo:
  "mem_typed s \<Longrightarrow> mem_typed (s\<lparr>ms_repos := fmupd r (new_mem_repo conf p) (ms_repos s)\<rparr>)"
  by (simp add: mem_typed_def new_repo_index_ok)

lemma mem_typed_upd_upload [simp]: "mem_typed (upd_upload u f s) = mem_typed s"
  by (simp add: upd_upload_def split: option.split)

lemma mem_typed_note_missing: "mem_typed s \<Longrightarrow> mem_typed (note_missing r d s)"
  by (simp add: note_missing_def mem_typed_upd_repo)

lemma mem_typed_drop_session: "mem_typed s \<Longrightarrow> mem_typed (drop_session mu s)"
  by (simp add: drop_session_def mem_typed_upd_repo)

lemma mem_typed_done: "mem_typed s \<Longrightarrow> mem_typed (mem_done r s)"
  by (simp add: mem_done_def mem_typed_upd_repo)

lemma mem_typed_indexInsert: "mem_typed s \<Longrightarrow> insertable d \<Longrightarrow> mem_typed (snd (mem_indexInsert L r d cs s))"
  by (simp add: mem_indexInsert_def mem_typed_upd_repo add_desc_index_ok)

lemma mem_typed_indexRemove: "mem_typed s \<Longrightarrow> mem_typed (snd (mem_indexRemove L r d s))"
  by (simp add: mem_indexRemove_def mem_typed_upd_repo rm_desc_index_ok)

lemma mem_typed_blobGet: "mem_typed s \<Longrightarrow> mem_typed (snd (mem_blobGet r d s))"
  by (auto simp: mem_blobGet_def mem_typed_note_missing split: option.split os_res.split)

lemma mem_typed_blobMeta: "mem_typed s \<Longrightarrow> mem_typed (snd (mem_blobMeta r d s))"
  by (auto simp: mem_blobMeta_def mem_typed_note_missing split: option.split os_res.split)

lemma mem_typed_blobDelete: "mem_typed s \<Longrightarrow> mem_typed (snd (mem_blobDelete r d s))"
  by (auto simp: mem_blobDelete_def mem_typed_upd_repo split: option.split)

lemma mem_typed_start_upload: "mem_typed s \<Longrightarrow> mem_typed (snd (start_upload r mr bc sid s))"
  unfolding start_upload_def Let_def
  by (auto intro!: mem_typed_upd_repo intro: mem_typed_frame [rotated 2] split: prod.split sum.split)

lemma mem_typed_blobCreate: "mem_typed s \<Longrightarrow> mem_typed (snd (mem_blobCreate L r opts s))"
  by (auto simp: mem_blobCreate_def mem_typed_start_upload split: option.split sum.split list.split)

lemma mem_typed_blobSession: "mem_typed s \<Longrightarrow> mem_typed (snd (mem_blobSession r sid s))"
  by (auto simp: mem_blobSession_def mem_typed_upd_repo split: option.split sum.split prod.split)

lemma mem_typed_write: "mem_typed s \<Longrightarrow> mem_typed (snd (mem_write u p s))"
  by (auto simp: mem_write_def mem_typed_upd_repo split: option.split sum.split prod.split)

lemma mem_typed_close: "mem_typed s \<Longrightarrow> mem_typed (snd (mem_close L u s))"
  by (auto simp: mem_close_def Let_def mem_typed_upd_repo mem_typed_drop_session split: option.split)

lemma mem_typed_cancel: "mem_typed s \<Longrightarrow> mem_typed (snd (mem_cancel u s))"
  by (auto simp: mem_cancel_def mem_typed_drop_session split: option.split)

lemma mem_typed_changeAlgorithm: "mem_typed s \<Longrightarrow> mem_typed (snd (mem_changeAlgorithm u a s))"
  by (auto simp: mem_changeAlgorithm_def split: option.split)

lemma mem_typed_verify: "mem_typed s \<Longrightarrow> mem_typed (snd (mem_verify L u d s))"
  by (auto simp: mem_verify_def Let_def split: option.split)

lemma mem_typed_repoGet: "mem_typed s \<Longrightarrow> mem_typed (snd (mem_repoGet L r s))"
  using mem_typed_new_repo [of s r "ms_conf s" "[]"]
  by (auto simp: mem_repoGet_def Let_def mem_typed_upd_repo split: option.split) (simp_all add: mem_typed_def)

lemmas mem_typed_ops = mem_typed_done mem_typed_indexInsert mem_typed_indexRemove mem_typed_blobGet mem_typed_blobMeta
  mem_typed_blobDelete mem_typed_blobCreate mem_typed_blobSession mem_typed_write mem_typed_close mem_typed_cancel
  mem_typed_changeAlgorithm mem_typed_verify mem_typed_repoGet

interpretation mem_typed: store_invariant "mem_ops L" mem_typed for L
  by unfold_locales (auto intro: mem_typed_ops simp: mem_indexGet_def split: option.split)

interpretation mem_gc_typed: gc_invariant "mem_gc_ops L r" mem_typed for L r
proof unfold_locales
  fix s s' :: mem_store and d x m l u
  assume s: "mem_typed s"
  show "mem_typed s'" if "go_get (mem_gc_ops L r) d s = (x, s')"
    using mem_typed_blobGet [OF s, of r d] that by (simp add: mem_gc_ops_def)
  show "mem_typed s'" if "go_meta (mem_gc_ops L r) d s = (m, s')"
    using mem_typed_blobMeta [OF s, of r d] that by (simp add: mem_gc_ops_def)
  show "mem_typed s'" if "go_list (mem_gc_ops L r) s = (l, s')"
    using mem_inv_blobList [of L r s] s that by (simp add: mem_gc_ops_def)
  show "mem_typed s'" if "go_delete (mem_gc_ops L r) d s = (u, s')"
    using mem_typed_blobDelete [OF s, of r d] that by (simp add: mem_gc_ops_def)
qed

lemma mem_typed_repo_gc:
  assumes "mem_repo_gc L r s = Some (x, s')" and "mem_typed s"
  shows "mem_typed s'"
proof (cases "fmlookup (ms_repos s) r")
  case (Some mr)
  then obtain res s1 where gc: "repoGarbageCollect L (mem_gc_ops L r) (ms_gc s) (ms_now s) (ms_rnow s) (mr_index mr) s = Some (res, s1)"
    using assms(1) by (auto simp: mem_repo_gc_def split: option.splits)
  have s1: "mem_typed s1" using mem_gc_typed.keep_collect [OF gc assms(2)] .
  have "index_ok li" if "res = Inr (li, chg)" for li chg
    using collect_index [of index_ok, OF _ gc [unfolded that]] rm_desc_index_ok assms(2) Some by (auto simp: mem_typed_def)
  then show ?thesis
    using assms(1) Some gc s1 by (auto simp: mem_repo_gc_def mem_typed_upd_repo split: sum.splits if_splits)
qed (use assms in \<open>simp add: mem_repo_gc_def\<close>)

lemma mem_typed_gc_loop: "mem_gc_loop L start rs s = Some (x, s') \<Longrightarrow> mem_typed s \<Longrightarrow> mem_typed s'"
  by (induction rs arbitrary: s) (auto split: option.splits sum.splits if_splits dest: mem_typed_repo_gc)

section \<open>The server\<close>

definition server_typed :: "mem_store server \<Rightarrow> bool" where
  "server_typed sv \<longleftrightarrow> (\<forall>s. sv_store sv = Some s \<longrightarrow> mem_typed s)"

lemma server_typed_at_time: "server_typed sv \<Longrightarrow> server_typed (at_time now sv)"
  by (auto simp: server_typed_def at_time_def)

lemma server_step_typed:
  assumes "server_typed sv" and "server_step L A e sv = Some sv'"
  shows "server_typed sv'"
proof (cases e)
  case (SrvRequest f rand now r)
  then obtain w where run: "serveHTTP L (mem_ops L) A f rand now r (at_time now sv) new_rw = Some (sv', w)"
    using assms(2) by auto
  show ?thesis
  proof (cases "sv_store (at_time now sv)")
    case None
    then have "sv_store sv' = None" using run by (simp add: serveHTTP_def)
    then show ?thesis by (simp add: server_typed_def)
  next
    case (Some s)
    then have "mem_typed s" using server_typed_at_time [OF assms(1), of now] by (simp add: server_typed_def)
    from mem_typed.keep_serveHTTP [OF Some this run] show ?thesis by (auto simp: server_typed_def)
  qed
next
  case (SrvCollect now prev)
  then show ?thesis
    using assms server_typed_at_time [OF assms(1), of now]
    by (auto simp: server_typed_def mem_gc_def Let_def split: option.splits dest: mem_typed_gc_loop)
next
  case (SrvPrune now r ks by_age)
  then show ?thesis
    using assms(2) server_typed_at_time [OF assms(1), of now]
    by (auto simp: server_typed_def mem_prune_uploads_def mem_typed_upd_repo)
qed

lemma server_run_typed: "server_typed sv \<Longrightarrow> server_run L A es sv = Some sv' \<Longrightarrow> server_typed sv'"
  by (induction es arbitrary: sv) (auto split: option.splits dest: server_step_typed)

text \<open>
  C8: Whatever a memory store without a directory serves, with collections and prunings in between:
  the index of every repository is well formed, with one entry to a tag and no bare entry beside a
  tagged one, and each tag in it is one that the API accepts as a reference.
\<close>

theorem served_index_typed:
  assumes "cs_rootDir (c_storage conf) = []"
    and "server_run L A es (new_mem_server conf auth procTime now rand D) = Some sv"
    and "sv_store sv = Some s" and "fmlookup (ms_repos s) r = Some mr"
  shows "wf_index (mr_index mr) \<and> (\<forall>c \<in> set (i_manifests (mr_index mr)). tag_of c \<noteq> [] \<longrightarrow> refTagRE (tag_of c))"
proof -
  have "server_typed (new_mem_server conf auth procTime now rand D)"
    using assms(1) by (auto simp: server_typed_def mem_typed_def new_mem_server_def new_server_def newMem_def Let_def
        setDefaults_def setDefaults_storage_def split: store_type.splits)
  then have "index_ok (mr_index mr)"
    using server_run_typed [OF _ assms(2)] assms(3,4) unfolding server_typed_def mem_typed_def by blast
  then show ?thesis by (simp add: index_ok_def tags_ok_def)
qed

theorem served_index_typed_witness:
  "\<exists>sv s mr. server_run demo_lib demo_auth_lib [SrvRequest \<lparr>af_stat = None, af_open = None\<rparr> None 0 demo_post]
       (new_mem_server demo_conf NoAuth 0 0 [''sid''] no_backing) = Some sv \<and> sv_store sv = Some s \<and>
     fmlookup (ms_repos s) ''a'' = Some mr \<and> wf_index (mr_index mr)"
proof -
  have root: "cs_rootDir (c_storage demo_conf) = []" by (simp add: demo_conf_def setDefaults_def setDefaults_storage_def)
  show ?thesis using demo_server_run served_index_typed [OF root] by blast
qed

end
