(* ===== verification/Dir_Convert.thy ===== *)
theory Dir_Convert
  imports Dir_GC
begin

text \<open>
  The conversion of the referrers of older clients in the directory store.  \<open>indexIngest\<close> runs there with
  the mutex of the repository held, and writes the merged responses through \<open>BlobCreate\<close>, which takes
  that mutex.
\<close>

section \<open>Reading keeps the repositories\<close>

lemma blobGet_repos: "so_blobGet (dir_ingest_ops L DL) r d s = (x, s') \<Longrightarrow> ds_repos s' = ds_repos s"
  by (auto simp: dir_ingest_ops_def live_def dir_blobGet_def fs_do_def split: if_splits option.splits prod.splits os_res.splits sum.splits)

lemma getIndex_repos: "repoGetIndex L (dir_ingest_ops L DL) r d s = (x, s') \<Longrightarrow> ds_repos s' = ds_repos s"
  by (auto simp: repoGetIndex_def split: prod.splits sum.splits option.splits dest: blobGet_repos)

lemma fold_repos:
  assumes "\<And>x a s b s'. f x (a, s) = (b, s') \<Longrightarrow> ds_repos s' = ds_repos s"
  shows "fold f xs (a, s) = (b, s') \<Longrightarrow> ds_repos s' = ds_repos s"
proof (induction xs arbitrary: a s)
  case (Cons x xs)
  then show ?case using assms by (cases "f x (a, s)") fastforce
qed simp

lemma valid_step_repos: "valid_step L (dir_ingest_ops L DL) r d (v, s) = (v', s') \<Longrightarrow> ds_repos s' = ds_repos s"
  by (auto simp: valid_step_def Let_def split: prod.splits sum.splits dest: blobGet_repos)

lemma validReferrer_repos: "indexValidReferrer L (dir_ingest_ops L DL) r i s = (v, s') \<Longrightarrow> ds_repos s' = ds_repos s"
  using fold_repos [of "valid_step L (dir_ingest_ops L DL) r" "i_manifests i", OF valid_step_repos]
  by (auto simp: indexValidReferrer_def split: prod.splits)

lemma convert_step_repos:
  "convert_step L (dir_ingest_ops L DL) r now m d (c, s) = (c', s') \<Longrightarrow> ds_repos s' = ds_repos s"
  by (auto simp: convert_step_def Let_def split: prod.splits sum.splits if_splits dest!: getIndex_repos validReferrer_repos)

section \<open>Merged responses cannot be written\<close>

text \<open>With the mutex held, \<open>BlobCreate\<close> returns an error, or it does not return.\<close>

lemma create_with_mu_held:
  assumes "fmlookup (ds_repos s) r = Some dr" and "dr_mu dr"
  shows "\<exists>e. fst (dir_blobCreate L DL r opts s) = Inl e"
proof -
  have held: "\<exists>e. fst (with_mu r (Inl err_hung :: (uid \<times> string) res) f t) = Inl e" if "ds_repos t = ds_repos s" for f t
    using assms that by (simp add: with_mu_def)
  have init: "dir_repoInit L DL r s = (Inl err_hung, hang s)" using assms by (simp add: dir_repoInit_def with_mu_def)
  have fs: "ds_repos (snd (fs_do f t)) = ds_repos t" for f :: "fsys \<Rightarrow> (bool \<times> time) os_res \<times> fsys" and t
    by (simp add: fs_do_def split: prod.split)
  show ?thesis
    using assms unfolding dir_blobCreate_def case_prod_beta
    by (auto simp: init held fs split: sum.split option.split os_res.split)
qed

lemma store_with_mu_held:
  assumes "fmlookup (ds_repos s) r = Some dr" and "dr_mu dr"
  shows "\<exists>e. fst (store_response L (dir_ingest_ops L DL) r dig raw s) = Inl e"
  using create_with_mu_held [OF assms, of L DL "[BlobWithDigest dig]"]
  by (auto simp: store_response_def dir_ingest_ops_def live_def split: prod.split sum.split)

lemma generate_with_mu_held:
  assumes "fmlookup (ds_repos s) r = Some dr" and "dr_mu dr"
  shows "fst (generate_loop L (dir_ingest_ops L DL) r now m add (subj # subjs) li chg s) \<noteq> None"
proof -
  let ?resp = "case fmlookup m subj of
      None \<Rightarrow> (al_get add subj, s)
    | Some refDesc \<Rightarrow>
      (case repoGetIndex L (dir_ingest_ops L DL) r refDesc s of
         (Inr (resp, is_nil), s1) \<Rightarrow>
           (if is_nil then al_get add subj else al_get add subj @ i_manifests resp, s1)
       | (Inl _, s1) \<Rightarrow> (al_get add subj, s1))"
  obtain respList s1 where resp: "?resp = (respList, s1)" by (cases ?resp) blast
  have "ds_repos s1 = ds_repos s"
    using resp by (auto split: option.splits prod.splits sum.splits dest: getIndex_repos)
  then have "\<exists>e s2. store_response L (dir_ingest_ops L DL) r dig raw s1 = (Inl e, s2)" for dig raw
    using store_with_mu_held [of s1 r dr] assms by (metis prod.collapse)
  then obtain e s2 where st: "\<And>dig raw. store_response L (dir_ingest_ops L DL) r dig raw s1 = (Inl (e dig raw), s2 dig raw)"
    by metis
  show ?thesis unfolding generate_loop.simps resp prod.case st by (simp split: option.split)
qed

text \<open>
  C18: The directory store never merges referrers.  When the fallback tags of an index do not hold valid
  responses, so that responses have to be written for their subjects, the ingest of the index ends with
  an error or does not return: the mutex of the repository is held, and \<open>BlobCreate\<close> takes it again.
  The index is not marked as converted, so each later load fails in the same way.
\<close>

theorem dir_merge_fails:
  assumes "fmlookup (ds_repos s) r = Some dr" and "dr_mu dr" and "order_ok L"
    and "fold (convert_step L (dir_ingest_ops L DL) r now (is_referrerResponse sc)) (is_digestTags sc)
           (\<lparr>ic_index = li, ic_mod = chg, ic_addResp = [], ic_rmDesc = []\<rparr>, s) = (c, s1)"
    and "ic_addResp c \<noteq> []"
  shows "fst (ingest_convert L (dir_ingest_ops L DL) r now sc li chg s) \<noteq> None"
proof -
  have "ds_repos s1 = ds_repos s"
    using fold_repos [OF convert_step_repos assms(4)] .
  then have mu: "fmlookup (ds_repos s1) r = Some dr" using assms(1) by simp
  have "map_order L (map fst (ic_addResp c)) \<noteq> []"
    using assms(3,5) unfolding order_ok_def by (metis list.map_disc_iff set_empty)
  then obtain subj subjs where k: "map_order L (map fst (ic_addResp c)) = subj # subjs" by (metis list.exhaust)
  obtain e x where "generate_loop L (dir_ingest_ops L DL) r now (is_referrerResponse sc) (ic_addResp c)
      (subj # subjs) (ic_index c) (ic_mod c) s1 = (Some e, x)"
    using generate_with_mu_held [OF mu assms(2)] by (metis not_None_eq prod.collapse)
  then show ?thesis unfolding ingest_convert_def assms(4) k prod.case by (cases x) simp
qed

section \<open>A fallback tag\<close>

text \<open>
  The index \<open>s:I\<close> under a fallback tag lists the manifest \<open>s:M\<close> with a size of 0; the manifest names
  the subject \<open>s:c\<close>, so the response is not valid as it is and has to be written again.
\<close>

definition merge_lib :: lib where
  "merge_lib = gc_lib\<lparr>dec_manifests_nil := (\<lambda>b. False), json_referrer := (\<lambda>b. if b = ''M'' then
     Some \<lparr>rp_mediaType = mt_oci1_manifest, rp_artifactType = ''x'', rp_config = None,
           rp_subject = Some (zero_descriptor\<lparr>d_digest := ''s:c''\<rparr>), rp_annotations = fmempty\<rparr> else None)\<rparr>"

definition merge_scan :: ingest_scan where
  "merge_scan = \<lparr>is_seen = {}, is_scanChildren = [], is_referrerResponse = fmempty, is_digestTags = [demo_index]\<rparr>"

definition merge_store :: dir_store where
  "merge_store = upd_dr ''r'' (\<lambda>m. m\<lparr>dr_mu := True\<rparr>) (gc_dir_store [])"

lemma merge_reads:
  "so_blobGet (dir_ingest_ops merge_lib gc_dir_lib) ''r'' ''s:I'' merge_store = (Inr (Inr ''I''), merge_store)"
  "so_blobGet (dir_ingest_ops merge_lib gc_dir_lib) ''r'' ''s:M'' merge_store = (Inr (Inr ''M''), merge_store)"
  by (simp_all add: merge_store_def dir_ingest_ops_def live_def merge_lib_def gc_dir_state Let_def gc_dir_run os_run)

lemma merge_convert:
  "\<exists>c. fold (convert_step merge_lib (dir_ingest_ops merge_lib gc_dir_lib) ''r'' 0 (is_referrerResponse merge_scan))
         (is_digestTags merge_scan) (\<lparr>ic_index = empty_layout fmempty, ic_mod = False, ic_addResp = [], ic_rmDesc = []\<rparr>, merge_store) =
       (c, merge_store) \<and> ic_addResp c \<noteq> []"
proof -
  have lib: "dec_index merge_lib ''I'' = Some (new_response [demo_child])" "dec_manifests_nil merge_lib b = False"
    "map_order merge_lib ks = ks" for b ks
    by (simp_all add: merge_lib_def gc_lib_def demo_lib_def)
  have child: "manifestReferrerDescriptor merge_lib ''M'' demo_child =
      Inr (zero_descriptor\<lparr>d_digest := ''s:c''\<rparr>, demo_child\<lparr>d_size := 1, d_artifactType := ''x'', d_annotations := fmempty\<rparr>)"
    by (simp add: manifestReferrerDescriptor_def merge_lib_def dig_is_zero_def demo_child_def zero_descriptor_def)
  have differs: "referrer_differs demo_child (demo_child\<lparr>d_size := 1, d_artifactType := ''x'', d_annotations := fmempty\<rparr>)"
    by (simp add: referrer_differs_def demo_child_def zero_descriptor_def)
  have dig: "d_digest (zero_descriptor\<lparr>d_digest := x\<rparr>) = x" for x by (simp add: zero_descriptor_def)
  have step: "valid_step merge_lib (dir_ingest_ops merge_lib gc_dir_lib) ''r'' demo_child
      (\<lparr>vs_valid = True, vs_subject = [], vs_responses = []\<rparr>, merge_store) =
      (\<lparr>vs_valid = False, vs_subject = ''s:c'', vs_responses = [(''s:c'',
          [demo_child\<lparr>d_size := 1, d_artifactType := ''x'', d_annotations := fmempty\<rparr>])]\<rparr>, merge_store)"
    by (simp add: valid_step_def merge_reads child differs dig dig_is_zero_def Let_def)
  show ?thesis
    by (simp add: merge_scan_def convert_step_def repoGetIndex_def merge_reads lib indexValidReferrer_def step
        new_response_def Let_def)
qed

theorem dir_merge_fails_witness:
  "fst (ingest_convert merge_lib (dir_ingest_ops merge_lib gc_dir_lib) ''r'' 0 merge_scan (empty_layout fmempty) False merge_store) \<noteq> None"
proof -
  have repo: "fmlookup (ds_repos merge_store) ''r'' = Some (gc_dir_repo\<lparr>dr_mu := True\<rparr>)"
    by (simp add: merge_store_def upd_dr_def)
  have ord: "order_ok merge_lib" by (simp add: order_ok_def merge_lib_def gc_lib_def demo_lib_def)
  obtain c where "fold (convert_step merge_lib (dir_ingest_ops merge_lib gc_dir_lib) ''r'' 0 (is_referrerResponse merge_scan))
      (is_digestTags merge_scan) (\<lparr>ic_index = empty_layout fmempty, ic_mod = False, ic_addResp = [], ic_rmDesc = []\<rparr>, merge_store) =
      (c, merge_store)" "ic_addResp c \<noteq> []"
    using merge_convert by blast
  from dir_merge_fails [OF repo _ ord this] show ?thesis by simp
qed

end
