(* ===== verification/Serve.thy ===== *)
theory Serve
  imports Router
begin

text \<open>
  The command that runs the registry (\<open>cmd/olareg/serve.go\<close>) and the life of its listener (\<open>Run\<close> and
  \<open>Shutdown\<close> in \<open>olareg.go\<close>).  The parsing of the command line and the listener itself belong to other
  packages: the options are a record, and the error a listener or its shutdown ends with a parameter.
\<close>

section \<open>The options of the command\<close>

record serve_opts =
  so_addr :: string
  so_port :: int
  so_tlsCert :: string
  so_tlsKey :: string
  so_storeType :: string
  so_storeDir :: string
  so_storeRO :: bool
  so_apiPush :: bool
  so_apiDelete :: bool
  so_apiBlobDel :: bool
  so_apiReferrer :: bool
  so_apiRateLimit :: int
  so_apiSparseImage :: bool
  so_apiSparseIndex :: bool
  so_authBasicFile :: string
  so_authStaticLogin :: "string list"
  so_authStaticAnon :: bool
  so_authTokenOpaque :: string
  so_externalURL :: string
  so_gcFreq :: duration
  so_gcGracePeriod :: duration
  so_gcUntagged :: bool
  so_gcRefDangling :: bool
  so_gcRefWithSubject :: bool
  so_warnings :: "string list"

text \<open>The defaults of the flags.\<close>

definition newServeCmd :: serve_opts where
  "newServeCmd = \<lparr>so_addr = [], so_port = 5000, so_tlsCert = [], so_tlsKey = [], so_storeType = ''dir'',
     so_storeDir = ''.'', so_storeRO = False, so_apiPush = True, so_apiDelete = False, so_apiBlobDel = False,
     so_apiReferrer = True, so_apiRateLimit = 0, so_apiSparseImage = False, so_apiSparseIndex = False,
     so_authBasicFile = [], so_authStaticLogin = [], so_authStaticAnon = False, so_authTokenOpaque = [],
     so_externalURL = [], so_gcFreq = 15 * nano_minute, so_gcGracePeriod = 60 * nano_minute,
     so_gcUntagged = False, so_gcRefDangling = False, so_gcRefWithSubject = True, so_warnings = []\<rparr>"

definition serve_conf :: "serve_opts \<Rightarrow> store_type \<Rightarrow> config" where
  "serve_conf opts st = \<lparr>
     c_http = \<lparr>ch_addr = so_addr opts @ CHR '':'' # show_int (so_port opts), ch_certFile = so_tlsCert opts,
               ch_keyFile = so_tlsKey opts\<rparr>,
     c_storage = \<lparr>cs_storeType = st, cs_rootDir = so_storeDir opts, cs_readOnly = Some (so_storeRO opts),
       cs_gc = \<lparr>gc_frequency = so_gcFreq opts, gc_gracePeriod = so_gcGracePeriod opts, gc_repoUploadMax = 0,
                gc_untagged = Some (so_gcUntagged opts), gc_emptyRepo = None,
                gc_referrersDangling = Some (so_gcRefDangling opts),
                gc_referrersWithSubj = Some (so_gcRefWithSubject opts)\<rparr>\<rparr>,
     c_api = \<lparr>ca_pushEnabled = Some (so_apiPush opts), ca_deleteEnabled = Some (so_apiDelete opts),
       ca_manifestLimit = 0, ca_sparseImage = Some (so_apiSparseImage opts),
       ca_sparseIndex = Some (so_apiSparseIndex opts), ca_blobDeleteEnabled = Some (so_apiBlobDel opts),
       ca_referrerEnabled = Some (so_apiReferrer opts), ca_pageCacheExpire = 0, ca_pageCacheLimit = 0,
       ca_referrerLimit = 0, ca_warnings = so_warnings opts, ca_rateLimit = so_apiRateLimit opts\<rparr>\<rparr>"

text \<open>\<open>strings.SplitN(userPass, ":", 2)\<close> when it has two parts: what is before and after the first colon.\<close>

definition split_login :: "string \<Rightarrow> (string \<times> string) option" where
  "split_login s = (if CHR '':'' \<in> set s
     then Some (takeWhile (\<lambda>c. c \<noteq> CHR '':'') s, drop 1 (dropWhile (\<lambda>c. c \<noteq> CHR '':'') s)) else None)"

fun static_login_map :: "string list \<Rightarrow> (string, string) fmap \<Rightarrow> (string, string) fmap" where
  "static_login_map [] logins = logins"
| "static_login_map (userPass # rest) logins =
     static_login_map rest (case split_login userPass of Some (u, p) \<Rightarrow> fmupd u p logins | None \<Rightarrow> logins)"

definition serve_auth_setup :: "lib \<Rightarrow> auth_lib \<Rightarrow> auth_file \<Rightarrow> serve_opts \<Rightarrow> auth_setup res" where
  "serve_auth_setup L A f opts =
     (if so_authTokenOpaque opts \<noteq> [] then
        Inr (TokenAuth (newAuthTokenOpaque (so_authTokenOpaque opts) [WithAuthRealm (so_externalURL opts @ ''/token'')] f))
      else if so_authBasicFile opts \<noteq> [] then Inr (BasicAuth (newAuthBasicFile (so_authBasicFile opts) [] f))
      else if so_authStaticLogin opts \<noteq> [] then
        (case newAuthBasicStatic L A (static_login_map (so_authStaticLogin opts) fmempty) (so_authStaticAnon opts) [] f of
           Inl e \<Rightarrow> Inl e
         | Inr ac \<Rightarrow> Inr (BasicAuth ac))
      else Inr NoAuth)"

text \<open>\<open>serveOpts.run\<close> up to \<open>olareg.New\<close>: the configuration and the authentication of the server.\<close>

definition serve_setup :: "lib \<Rightarrow> auth_lib \<Rightarrow> auth_file \<Rightarrow> serve_opts \<Rightarrow> (config \<times> auth_setup) res" where
  "serve_setup L A f opts =
     (case store_unmarshal (so_storeType opts) of
        Inl e \<Rightarrow> Inl e
      | Inr st \<Rightarrow>
        (case serve_auth_setup L A f opts of
           Inl e \<Rightarrow> Inl e
         | Inr auth \<Rightarrow> Inr (serve_conf opts st, auth)))"

section \<open>Run and Shutdown\<close>

text \<open>A server with its listener, if it has one; a listener is told by its number.\<close>

record 's service =
  sc_server :: "'s server"
  sc_http :: "nat option"
  sc_next :: nat

definition listen_tls :: "config \<Rightarrow> bool" where
  "listen_tls conf \<longleftrightarrow> ch_certFile (c_http conf) \<noteq> [] \<and> ch_keyFile (c_http conf) \<noteq> []"

text \<open>\<open>Run\<close> to the call of the listener, which is the number it returns, and from its return.\<close>

definition run_start :: "'s service \<Rightarrow> nat res \<times> 's service" where
  "run_start sc =
     (case sc_http sc of
        Some _ \<Rightarrow> (Inl (ErrOther ''server is already running, run shutdown first''), sc)
      | None \<Rightarrow> (Inr (sc_next sc), sc\<lparr>sc_http := Some (sc_next sc), sc_next := Suc (sc_next sc)\<rparr>))"

definition errServerClosed :: err where
  "errServerClosed = ErrOther ''http: Server closed''"

definition run_end :: "err option \<Rightarrow> err option" where
  "run_end e = (if e = Some errServerClosed then None else e)"

text \<open>\<open>Shutdown\<close>; \<open>stop\<close> is the error of the shutdown of the listener, \<open>close\<close> the close of the store.\<close>

definition server_shutdown :: "err option \<Rightarrow> ('s \<Rightarrow> err option) \<Rightarrow> 's service \<Rightarrow> err option \<times> 's service" where
  "server_shutdown stop close sc =
     (case sc_http sc of
        None \<Rightarrow> (Some (ErrOther ''server is not running''), sc)
      | Some _ \<Rightarrow>
        let sc1 = sc\<lparr>sc_http := None\<rparr> in
        (case stop of
           Some e \<Rightarrow> (Some e, sc1)
         | None \<Rightarrow>
           (case sv_store (sc_server sc1) of
              None \<Rightarrow> (None, sc1)
            | Some s \<Rightarrow> (close s, sc1\<lparr>sc_server := (sc_server sc1)\<lparr>sv_store := None\<rparr>\<rparr>))))"

section \<open>What the command sets up\<close>

text \<open>
  Without flags the command runs the defaults of the library: a directory store in the working
  directory, which pushes, serves referrers, and deletes nothing on request.
\<close>

lemma serve_defaults:
  "setDefaults (serve_conf newServeCmd StoreDir) =
     setDefaults \<lparr>c_http = \<lparr>ch_addr = '':5000'', ch_certFile = [], ch_keyFile = []\<rparr>,
       c_storage = \<lparr>cs_storeType = StoreDir, cs_rootDir = [], cs_readOnly = None,
         cs_gc = \<lparr>gc_frequency = 0, gc_gracePeriod = 0, gc_repoUploadMax = 0, gc_untagged = None, gc_emptyRepo = None,
                  gc_referrersDangling = None, gc_referrersWithSubj = None\<rparr>\<rparr>,
       c_api = \<lparr>ca_pushEnabled = None, ca_deleteEnabled = None, ca_manifestLimit = 0, ca_sparseImage = None,
         ca_sparseIndex = None, ca_blobDeleteEnabled = None, ca_referrerEnabled = None, ca_pageCacheExpire = 0,
         ca_pageCacheLimit = 0, ca_referrerLimit = 0, ca_warnings = [], ca_rateLimit = 0\<rparr>\<rparr>"
  by (simp add: setDefaults_def setDefaults_api_def setDefaults_storage_def setDefaults_gc_def serve_conf_def
      newServeCmd_def boolDefault_def nano_minute_def nano_second_def) code_simp

lemma split_login_iff: "split_login s = Some (u, p) \<longleftrightarrow> s = u @ CHR '':'' # p \<and> CHR '':'' \<notin> set u"
proof
  assume s: "split_login s = Some (u, p)"
  then have c: "CHR '':'' \<in> set s" and u: "u = takeWhile (\<lambda>c. c \<noteq> CHR '':'') s"
    and p: "p = drop 1 (dropWhile (\<lambda>c. c \<noteq> CHR '':'') s)"
    by (auto simp: split_login_def split: if_splits)
  obtain ys where d: "dropWhile (\<lambda>c. c \<noteq> CHR '':'') s = CHR '':'' # ys"
    using c dropWhile_eq_Nil_conv [of "\<lambda>c. c \<noteq> CHR '':''" s] hd_dropWhile [of "\<lambda>c. c \<noteq> CHR '':''" s]
    by (cases "dropWhile (\<lambda>c. c \<noteq> CHR '':'') s") auto
  have "s = u @ dropWhile (\<lambda>c. c \<noteq> CHR '':'') s" unfolding u by simp
  then show "s = u @ CHR '':'' # p \<and> CHR '':'' \<notin> set u" using d p u by (auto dest: set_takeWhileD)
next
  assume "s = u @ CHR '':'' # p \<and> CHR '':'' \<notin> set u"
  then show "split_login s = Some (u, p)" by (auto simp: split_login_def takeWhile_append dropWhile_append)
qed

text \<open>The login flags name the user \<open>u\<close> with the password \<open>p\<close>: in the last of them that has the name.\<close>

definition login_flag :: "string list \<Rightarrow> string \<Rightarrow> string \<Rightarrow> bool" where
  "login_flag flags u p \<longleftrightarrow> (\<exists>pre post. flags = pre @ (u @ CHR '':'' # p) # post \<and> CHR '':'' \<notin> set u \<and>
     (\<forall>s \<in> set post. \<not> has_prefix s (u @ '':'')))"

lemma has_prefix_login: "CHR '':'' \<notin> set u \<Longrightarrow> has_prefix s (u @ '':'') \<longleftrightarrow> (\<exists>q. split_login s = Some (u, q))"
  unfolding split_login_iff has_prefix_def by (auto, metis append_Cons append_Nil append_assoc append_take_drop_id)

lemma login_flag_Nil: "\<not> login_flag [] u p"
  by (simp add: login_flag_def)

lemma login_flag_Cons:
  "login_flag (s # flags) u p \<longleftrightarrow> login_flag flags u p \<or>
     s = u @ CHR '':'' # p \<and> CHR '':'' \<notin> set u \<and> (\<forall>t \<in> set flags. \<not> has_prefix t (u @ '':''))"
  unfolding login_flag_def by (auto simp: Cons_eq_append_conv)

lemma login_flag_unique:
  "CHR '':'' \<notin> set u \<Longrightarrow> (\<exists>p. login_flag flags u p) \<longleftrightarrow> (\<exists>t \<in> set flags. has_prefix t (u @ '':''))"
proof (induction flags)
  case (Cons s flags)
  then show ?case
    using has_prefix_login [of u s] split_login_iff [of s u] by (auto simp: login_flag_Cons)
qed (simp add: login_flag_Nil)

lemma static_login_map_lookup:
  assumes "CHR '':'' \<notin> set u"
  shows "fmlookup (static_login_map flags logins) u = Some p \<longleftrightarrow>
     login_flag flags u p \<or> (\<forall>t \<in> set flags. \<not> has_prefix t (u @ '':'')) \<and> fmlookup logins u = Some p"
proof (induction flags arbitrary: logins)
  case (Cons s flags)
  show ?case
  proof (cases "split_login s")
    case None
    then show ?thesis using Cons.IH [of logins] has_prefix_login [OF assms, of s] split_login_iff [of s u p]
      by (auto simp: login_flag_Cons)
  next
    case (Some vq)
    obtain v q where vq: "vq = (v, q)" by (cases vq)
    show ?thesis using Cons.IH [of "fmupd v q logins"] Some vq has_prefix_login [OF assms, of s] split_login_iff [of s u p]
      by (auto simp: login_flag_Cons)
  qed
qed (simp add: login_flag_Nil)

lemma static_login_colon:
  "(\<And>u. CHR '':'' \<in> set u \<Longrightarrow> fmlookup logins u = None) \<Longrightarrow> CHR '':'' \<in> set u \<Longrightarrow>
    fmlookup (static_login_map flags logins) u = None"
  by (induction flags arbitrary: logins) (auto simp: split_login_iff split: option.split)

lemma static_login_empty: "fmlookup (static_login_map flags fmempty) u = Some p \<longleftrightarrow> login_flag flags u p"
  using static_login_map_lookup [of u flags fmempty p] static_login_colon [of fmempty u flags]
  by (cases "CHR '':'' \<in> set u") (auto simp: login_flag_def)

text \<open>
  C36: The command with static logins and no other authentication lets in exactly its logins: a request
  reaches the registry if and only if it comes with a name and the password of the last login flag
  with that name, as far as bcrypt reads it, and needs read, write or delete access, or comes without credentials, needs read
  access, and \<open>--auth-static-anon\<close> is given.
\<close>

theorem serve_static_logins:
  assumes "order_ok L" and "bcrypt_ok A" and "serve_setup L A f opts = Inr (conf, auth)"
    and "so_authTokenOpaque opts = []" and "so_authBasicFile opts = []" and "so_authStaticLogin opts \<noteq> []"
    and "\<forall>s \<in> set (so_authStaticLogin opts). \<not> has_prefix s '':''"
  shows "\<exists>ac. auth = BasicAuth ac \<and>
    ((\<exists>user. basic_user A (fst (fst (getConf L A f now ac))) r = Some (Some user) \<and>
        checkAccess (fst (fst (getConf L A f now ac))) repo access user) \<longleftrightarrow>
     (if rq_basic r = None \<or> rq_basic r = Some ([], []) then so_authStaticAnon opts \<and> access = AuthRead
      else access \<in> {AuthRead, AuthWrite, AuthDelete} \<and>
        (\<exists>u q p. rq_basic r = Some (u, q) \<and> login_flag (so_authStaticLogin opts) u p \<and> bcrypt_key q = bcrypt_key p)))"
proof -
  let ?logins = "static_login_map (so_authStaticLogin opts) fmempty"
  obtain ac where ac: "newAuthBasicStatic L A ?logins (so_authStaticAnon opts) [] f = Inr ac" "auth = BasicAuth ac"
    using assms(3-6) by (auto simp: serve_setup_def serve_auth_setup_def split: sum.splits)
  have "\<not> login_flag (so_authStaticLogin opts) [] p" for p
    using assms(7) by (auto simp: login_flag_def has_prefix_def)
  then have "[] |\<notin>| fmdom ?logins" using static_login_empty [of "so_authStaticLogin opts" "[]"] by (auto simp: fmlookup_dom_iff)
  from static_logins [OF assms(1,2) ac(1) this] show ?thesis
    using ac(2) by (simp add: static_login_empty static_pass_def)
qed

theorem serve_static_logins_witness:
  "\<exists>conf ac. serve_setup demo_lib bcrypt_demo_lib \<lparr>af_stat = None, af_open = None\<rparr>
      (newServeCmd\<lparr>so_authStaticLogin := [''alice:old'', ''alice:pw'']\<rparr>) = Inr (conf, BasicAuth ac) \<and>
    (\<exists>user. basic_user bcrypt_demo_lib (fst (fst (getConf demo_lib bcrypt_demo_lib \<lparr>af_stat = None, af_open = None\<rparr> 0 ac))) alice_request = Some (Some user) \<and>
       checkAccess (fst (fst (getConf demo_lib bcrypt_demo_lib \<lparr>af_stat = None, af_open = None\<rparr> 0 ac))) ''r'' AuthWrite user)"
proof -
  let ?f = "\<lparr>af_stat = None, af_open = None\<rparr>" and ?o = "newServeCmd\<lparr>so_authStaticLogin := [''alice:old'', ''alice:pw'']\<rparr>"
  have st: "store_unmarshal ''dir'' = Inr StoreDir" by code_simp
  have logins: "static_login_map [''alice:old'', ''alice:pw''] fmempty = fmupd ''alice'' ''pw'' (fmupd ''alice'' ''old'' fmempty)"
    by (simp add: split_login_def)
  have dom: "sorted_list_of_fset {|''alice''|} = [''alice'']" by (simp add: sorted_list_of_fset.rep_eq)
  obtain ac where "newAuthBasicStatic demo_lib bcrypt_demo_lib (fmupd ''alice'' ''pw'' (fmupd ''alice'' ''old'' fmempty)) False [] ?f = Inr ac"
    by (simp add: newAuthBasicStatic_def demo_lib_def bcrypt_demo_lib_def dom Let_def)
  then obtain conf auth where set_up: "serve_setup demo_lib bcrypt_demo_lib ?f ?o = Inr (conf, auth)"
    using logins by (simp add: serve_setup_def serve_auth_setup_def newServeCmd_def st)
  have flag: "login_flag [''alice:old'', ''alice:pw''] ''alice'' ''pw''"
    unfolding login_flag_def by (rule exI [of _ "[''alice:old'']"], rule exI [of _ "[]"]) simp
  show ?thesis
    using serve_static_logins [OF demo_lib_ok(3) bcrypt_demo_ok set_up, of 0 alice_request "''r''" AuthWrite] set_up flag
    by (auto simp: newServeCmd_def has_prefix_def alice_request_def)
qed

section \<open>Shutting down\<close>

text \<open>
  A shutdown that fails to stop the listener in time leaves the store open, and the server cannot be
  shut down again: the listener is forgotten before it has stopped.
\<close>

lemma shutdown_error_keeps_store:
  assumes "sc_http sc = Some n" and "server_shutdown (Some e) close sc = (x, sc')"
  shows "x = Some e \<and> sc_server sc' = sc_server sc \<and>
    server_shutdown stop close sc' = (Some (ErrOther ''server is not running''), sc')"
  using assms by (auto simp: server_shutdown_def Let_def)

text \<open>A listener that ends by itself keeps the server from running again until it is shut down.\<close>

lemma run_after_failure:
  assumes "run_start sc = (Inr n, sc')"
  shows "run_start sc' = (Inl (ErrOther ''server is already running, run shutdown first''), sc')"
  using assms by (auto simp: run_start_def split: option.splits)

end
