(* ===== verification/Serve_Life.thy ===== *)
theory Serve_Life
  imports Serve
begin

text \<open>
  The life of the process that serves the registry: the goroutine that runs \<open>serveOpts.run\<close> with
  \<open>Server.Run\<close> in it, the goroutine that waits for a signal and calls \<open>Server.Shutdown\<close>, and the
  connections with their requests (\<open>cmd/olareg/serve.go\<close>, \<open>olareg.go\<close>).  Each goroutine is a phase; the
  steps of all of them interleave.  A critical section of the server's mutex is one step that needs the
  mutex free, except that of \<open>Shutdown\<close>, which holds it while it waits.
\<close>

section \<open>Goroutines\<close>

text \<open>
  The command before \<open>Run\<close>, in the listener, with the error the listener has returned, after \<open>Run\<close> has
  returned an error, waiting for the end of the shutdown, at its end, or killed by a signal.
\<close>

datatype main_phase = Launching | Serving | Unlistened err | Giving_up err | Awaiting | Returned "err option" | Killed

text \<open>
  The goroutine for signals before it has asked for them, waiting for one, calling \<open>Shutdown\<close>, in the
  shutdown of the listener, in a close of the store that does not return, back from \<open>Shutdown\<close>, and at
  its end.
\<close>

datatype sig_phase = Unset | Watching | Stopping | Stopped_listening | Store_stuck | Cancelling | Gone

text \<open>
  A connection: not yet made, without a request, with one that \<open>ServeHTTP\<close> has not yet counted, with one
  that is handled, with one whose handler does not return, and closed.
\<close>

datatype conn = Fresh | Open | Received | Handled | Blocked | Closed

text \<open>
  \<open>lf_mu\<close>: \<open>Shutdown\<close> holds the mutex of the server; \<open>lf_ctx\<close>: the context of the command is cancelled;
  \<open>lf_clean\<close>: the channel \<open>cleanShutdown\<close> is closed; \<open>lf_stopping\<close>: the listener is told to stop;
  \<open>lf_warn\<close>: the error of \<open>Shutdown\<close> that is logged.
\<close>

record 's life =
  lf_sc :: "'s service"
  lf_mu :: bool
  lf_main :: main_phase
  lf_sig :: sig_phase
  lf_ctx :: bool
  lf_clean :: bool
  lf_stopping :: bool
  lf_warn :: "err option"
  lf_conns :: "conn list"

definition new_life :: "'s server \<Rightarrow> nat \<Rightarrow> 's life" where
  "new_life srv n = \<lparr>lf_sc = \<lparr>sc_server = srv, sc_http = None, sc_next = 0\<rparr>, lf_mu = False, lf_main = Launching,
     lf_sig = Unset, lf_ctx = False, lf_clean = False, lf_stopping = False, lf_warn = None,
     lf_conns = replicate n Fresh\<rparr>"

definition running :: "'s life \<Rightarrow> bool" where
  "running s = (case lf_main s of Returned _ \<Rightarrow> False | Killed \<Rightarrow> False | _ \<Rightarrow> True)"

definition limited :: "'s life \<Rightarrow> bool" where
  "limited s \<longleftrightarrow> 0 < ca_rateLimit (c_api (sv_conf (sc_server (lf_sc s))))"

definition conn_at :: "'s life \<Rightarrow> nat \<Rightarrow> conn \<Rightarrow> bool" where
  "conn_at s i c \<longleftrightarrow> i < length (lf_conns s) \<and> lf_conns s ! i = c"

definition set_conn :: "nat \<Rightarrow> conn \<Rightarrow> 's life \<Rightarrow> 's life" where
  "set_conn i c s = s\<lparr>lf_conns := (lf_conns s)[i := c]\<rparr>"

text \<open>No connection is in use, which is what the shutdown of the listener waits for.\<close>

definition quiet :: "'s life \<Rightarrow> bool" where
  "quiet s \<longleftrightarrow> (\<forall>c \<in> set (lf_conns s). c = Fresh \<or> c = Closed)"

text \<open>What \<open>Shutdown\<close> does after the listener: it forgets it and closes the store.\<close>

definition shut :: "('s \<Rightarrow> err option) \<Rightarrow> err option \<Rightarrow> 's life \<Rightarrow> 's life" where
  "shut close stop s = (let (e, sc) = server_shutdown stop close (lf_sc s) in
     s\<lparr>lf_sc := sc, lf_mu := False, lf_sig := Cancelling, lf_warn := e\<rparr>)"

text \<open>What the command does when \<open>Run\<close> returns.\<close>

definition run_back :: "err option \<Rightarrow> 's life \<Rightarrow> 's life" where
  "run_back e s = (case e of None \<Rightarrow> s\<lparr>lf_main := Awaiting\<rparr> | Some e \<Rightarrow> s\<lparr>lf_ctx := True, lf_main := Giving_up e\<rparr>)"

section \<open>Steps\<close>

inductive life_step :: "('s \<Rightarrow> err option) \<Rightarrow> 's life \<Rightarrow> 's life \<Rightarrow> bool" for close :: "'s \<Rightarrow> err option" where
  install: "running s \<Longrightarrow> lf_sig s = Unset \<Longrightarrow> life_step close s (s\<lparr>lf_sig := Watching\<rparr>)"
| kill: "running s \<Longrightarrow> lf_sig s = Unset \<Longrightarrow> life_step close s (s\<lparr>lf_main := Killed\<rparr>)"
| signal: "running s \<Longrightarrow> lf_sig s = Watching \<Longrightarrow> life_step close s (s\<lparr>lf_sig := Stopping\<rparr>)"
| woken: "running s \<Longrightarrow> lf_sig s = Watching \<Longrightarrow> lf_ctx s \<Longrightarrow> life_step close s (s\<lparr>lf_sig := Stopping\<rparr>)"
| launch: "lf_main s = Launching \<Longrightarrow> \<not> lf_mu s \<Longrightarrow> run_start (lf_sc s) = (Inr n, sc) \<Longrightarrow>
    life_step close s (s\<lparr>lf_sc := sc, lf_main := Serving\<rparr>)"
| launch_fails: "lf_main s = Launching \<Longrightarrow> \<not> lf_mu s \<Longrightarrow> run_start (lf_sc s) = (Inl e, sc) \<Longrightarrow>
    life_step close s (run_back (Some e) s)"
| listen_fails: "lf_main s = Serving \<Longrightarrow> \<not> lf_stopping s \<Longrightarrow> e \<noteq> errServerClosed \<Longrightarrow>
    life_step close s (s\<lparr>lf_main := Unlistened e\<rparr>)"
| listen_closed: "lf_main s = Serving \<Longrightarrow> lf_stopping s \<Longrightarrow>
    life_step close s (s\<lparr>lf_main := Unlistened errServerClosed\<rparr>)"
| run_returns: "lf_main s = Unlistened e \<Longrightarrow> \<not> lf_mu s \<Longrightarrow> life_step close s (run_back (run_end (Some e)) s)"
| give_up: "lf_main s = Giving_up e \<Longrightarrow> life_step close s (s\<lparr>lf_main := Returned (Some e)\<rparr>)"
| await: "lf_main s = Awaiting \<Longrightarrow> lf_clean s \<Longrightarrow> life_step close s (s\<lparr>lf_main := Returned None\<rparr>)"
| not_running: "running s \<Longrightarrow> lf_sig s = Stopping \<Longrightarrow> \<not> lf_mu s \<Longrightarrow> sc_http (lf_sc s) = None \<Longrightarrow>
    life_step close s (shut close None s)"
| stop: "running s \<Longrightarrow> lf_sig s = Stopping \<Longrightarrow> \<not> lf_mu s \<Longrightarrow> sc_http (lf_sc s) \<noteq> None \<Longrightarrow>
    life_step close s (s\<lparr>lf_sig := Stopped_listening, lf_mu := True, lf_stopping := True\<rparr>)"
| drained: "running s \<Longrightarrow> lf_sig s = Stopped_listening \<Longrightarrow> quiet s \<Longrightarrow> life_step close s (shut close None s)"
| stop_fails: "running s \<Longrightarrow> lf_sig s = Stopped_listening \<Longrightarrow> quiet s \<or> lf_ctx s \<Longrightarrow>
    life_step close s (shut close (Some e) s)"
| close_hangs: "running s \<Longrightarrow> lf_sig s = Stopped_listening \<Longrightarrow> quiet s \<Longrightarrow>
    life_step close s (s\<lparr>lf_sig := Store_stuck\<rparr>)"
| cancel: "running s \<Longrightarrow> lf_sig s = Cancelling \<Longrightarrow>
    life_step close s (s\<lparr>lf_ctx := True, lf_clean := True, lf_sig := Gone\<rparr>)"
| connect: "running s \<Longrightarrow> sc_http (lf_sc s) \<noteq> None \<Longrightarrow> \<not> lf_stopping s \<Longrightarrow> conn_at s i Fresh \<Longrightarrow>
    life_step close s (set_conn i Open s)"
| receive: "running s \<Longrightarrow> conn_at s i Open \<Longrightarrow> life_step close s (set_conn i Received s)"
| hang_up: "running s \<Longrightarrow> conn_at s i Open \<Longrightarrow> life_step close s (set_conn i Closed s)"
| count: "running s \<Longrightarrow> conn_at s i Received \<Longrightarrow> limited s \<longrightarrow> \<not> lf_mu s \<Longrightarrow> life_step close s (set_conn i Handled s)"
| answer: "running s \<Longrightarrow> conn_at s i Handled \<Longrightarrow> life_step close s (set_conn i Closed s)"
| block: "running s \<Longrightarrow> conn_at s i Handled \<Longrightarrow> life_step close s (set_conn i Blocked s)"
| keep_alive: "running s \<Longrightarrow> conn_at s i Handled \<Longrightarrow> \<not> lf_stopping s \<Longrightarrow> life_step close s (set_conn i Open s)"

section \<open>What holds in every state\<close>

definition failing :: "'s life \<Rightarrow> bool" where
  "failing s \<longleftrightarrow> lf_main s = Killed \<or> (\<exists>e. lf_main s = Giving_up e \<or> lf_main s = Returned (Some e))"

definition store_open :: "'s life \<Rightarrow> bool" where
  "store_open s \<longleftrightarrow> sv_store (sc_server (lf_sc s)) \<noteq> None"

text \<open>Where the two goroutines can be, and who holds the mutex.\<close>

definition life_phases :: "'s life \<Rightarrow> bool" where
  "life_phases s \<longleftrightarrow> lf_mu s = (lf_sig s \<in> {Stopped_listening, Store_stuck}) \<and> lf_clean s = (lf_sig s = Gone) \<and>
     (lf_stopping s \<longrightarrow> lf_sig s \<in> {Stopped_listening, Store_stuck, Cancelling, Gone} \<and> lf_main s \<noteq> Launching) \<and>
     (lf_sig s \<in> {Stopped_listening, Store_stuck} \<longrightarrow> lf_stopping s \<and> sc_http (lf_sc s) \<noteq> None) \<and>
     (lf_main s = Launching \<longrightarrow> sc_http (lf_sc s) = None) \<and>
     (lf_main s \<in> {Unlistened errServerClosed, Awaiting, Returned None} \<longrightarrow> lf_stopping s) \<and>
     (lf_main s = Returned None \<longrightarrow> lf_sig s = Gone) \<and>
     (lf_ctx s \<and> lf_sig s \<noteq> Gone \<longrightarrow> failing s)"

text \<open>The store is open while there are connections, and closed when the shutdown succeeds.\<close>

definition life_store :: "'s life \<Rightarrow> bool" where
  "life_store s \<longleftrightarrow> (\<not> store_open s \<longrightarrow> lf_stopping s \<and> quiet s) \<and>
     (lf_stopping s \<and> lf_sig s \<in> {Cancelling, Gone} \<longrightarrow>
        (quiet s \<or> failing s) \<and> (\<not> store_open s \<or> lf_warn s \<noteq> None))"


definition life_inv :: "'s life \<Rightarrow> bool" where
  "life_inv s \<longleftrightarrow> life_phases s \<and> life_store s"

lemma life_fields [simp]:
  "lf_sc (set_conn i c s) = lf_sc s" "lf_mu (set_conn i c s) = lf_mu s" "lf_main (set_conn i c s) = lf_main s"
  "lf_sig (set_conn i c s) = lf_sig s" "lf_ctx (set_conn i c s) = lf_ctx s" "lf_clean (set_conn i c s) = lf_clean s"
  "lf_stopping (set_conn i c s) = lf_stopping s" "lf_warn (set_conn i c s) = lf_warn s"
  "running (set_conn i c s) = running s"
  by (simp_all add: set_conn_def running_def)

lemma shut_fields [simp]:
  "lf_mu (shut close e s) = False" "lf_main (shut close e s) = lf_main s" "lf_sig (shut close e s) = Cancelling"
  "lf_ctx (shut close e s) = lf_ctx s" "lf_clean (shut close e s) = lf_clean s"
  "lf_stopping (shut close e s) = lf_stopping s" "lf_conns (shut close e s) = lf_conns s"
  by (simp_all add: shut_def split: prod.split)

lemma run_back_fields [simp]:
  "lf_sc (run_back e s) = lf_sc s" "lf_mu (run_back e s) = lf_mu s" "lf_sig (run_back e s) = lf_sig s"
  "lf_clean (run_back e s) = lf_clean s" "lf_stopping (run_back e s) = lf_stopping s"
  "lf_warn (run_back e s) = lf_warn s" "lf_conns (run_back e s) = lf_conns s"
  by (simp_all add: run_back_def split: option.split)

lemma shut_store:
  "sc_http (lf_sc s) = None \<Longrightarrow> lf_sc (shut close x s) = lf_sc s"
  "sc_http (lf_sc s) \<noteq> None \<Longrightarrow> \<not> store_open (shut close None s)"
  "sc_http (lf_sc s) \<noteq> None \<Longrightarrow> store_open (shut close (Some e) s) = store_open s \<and> lf_warn (shut close (Some e) s) = Some e"
  "sc_http (lf_sc (shut close x s)) = None"
  by (auto simp: shut_def server_shutdown_def store_open_def Let_def split: option.split prod.split)

lemma quiet_frame [simp]:
  "quiet (shut close e s) = quiet s" "quiet (run_back e s) = quiet s" "quiet (s\<lparr>lf_main := m\<rparr>) = quiet s"
  "quiet (s\<lparr>lf_sig := g\<rparr>) = quiet s" "quiet (s\<lparr>lf_sc := sc\<rparr>) = quiet s" "quiet (s\<lparr>lf_mu := b\<rparr>) = quiet s"
  "quiet (s\<lparr>lf_stopping := b\<rparr>) = quiet s" "quiet (s\<lparr>lf_ctx := b\<rparr>) = quiet s" "quiet (s\<lparr>lf_clean := b\<rparr>) = quiet s"
  by (simp_all add: quiet_def)

lemma store_open_frame [simp]:
  "store_open (set_conn i c s) = store_open s" "store_open (run_back e s) = store_open s"
  "store_open (s\<lparr>lf_main := m\<rparr>) = store_open s"
  "store_open (s\<lparr>lf_sig := g\<rparr>) = store_open s" "store_open (s\<lparr>lf_mu := b\<rparr>) = store_open s"
  "store_open (s\<lparr>lf_stopping := b\<rparr>) = store_open s" "store_open (s\<lparr>lf_ctx := b\<rparr>) = store_open s"
  "store_open (s\<lparr>lf_clean := b\<rparr>) = store_open s"
  by (simp_all add: store_open_def)

lemma failing_frame [simp]:
  "failing (set_conn i c s) = failing s" "failing (shut close e s) = failing s"
  "failing (s\<lparr>lf_sig := g\<rparr>) = failing s" "failing (s\<lparr>lf_mu := b\<rparr>) = failing s"
  "failing (s\<lparr>lf_stopping := b\<rparr>) = failing s" "failing (s\<lparr>lf_ctx := b\<rparr>) = failing s"
  "failing (s\<lparr>lf_clean := b\<rparr>) = failing s" "failing (s\<lparr>lf_sc := sc\<rparr>) = failing s"
  by (simp_all add: failing_def)

lemma conn_used: "conn_at s i c \<Longrightarrow> c \<noteq> Fresh \<Longrightarrow> c \<noteq> Closed \<Longrightarrow> \<not> quiet s"
  by (auto simp: quiet_def conn_at_def)

lemma quiet_set: "quiet s \<Longrightarrow> c = Fresh \<or> c = Closed \<Longrightarrow> quiet (set_conn i c s)"
  unfolding quiet_def set_conn_def by (auto dest!: set_update_subset_insert [THEN subsetD])

lemma launched: "run_start sc = (Inr n, sc') \<Longrightarrow> sc_http sc' \<noteq> None \<and> sc_server sc' = sc_server sc"
  by (auto simp: run_start_def split: option.splits)

lemma new_life_inv: "sv_store srv \<noteq> None \<Longrightarrow> life_inv (new_life srv n)"
  by (simp add: life_inv_def life_phases_def life_store_def new_life_def store_open_def)

lemma run_end_error: "run_end (Some e) = (if e = errServerClosed then None else Some e)"
  by (simp add: run_end_def)

lemma run_back_main:
  "lf_main (run_back None s) = Awaiting" "lf_main (run_back (Some e) s) = Giving_up e" "failing (run_back (Some e) s)"
  "lf_ctx (run_back None s) = lf_ctx s"
  by (simp_all add: run_back_def failing_def)

lemma life_phases_step:
  assumes "life_step close s s'" and "life_phases s"
  shows "life_phases s'"
  using assms
  by cases (auto simp: life_phases_def running_def failing_def run_end_error run_back_main shut_store dest: launched
      split: main_phase.splits if_splits)

lemma life_phasesD:
  assumes "life_phases s"
  shows "lf_sig s = Stopped_listening \<Longrightarrow> lf_stopping s" "lf_sig s = Stopped_listening \<Longrightarrow> sc_http (lf_sc s) \<noteq> None"
    "lf_sig s = Unset \<Longrightarrow> \<not> lf_stopping s" "lf_sig s = Watching \<Longrightarrow> \<not> lf_stopping s" "lf_sig s = Stopping \<Longrightarrow> \<not> lf_stopping s"
    "lf_main s = Launching \<Longrightarrow> \<not> lf_stopping s" "lf_ctx s \<Longrightarrow> lf_sig s \<noteq> Gone \<Longrightarrow> failing s"
  using assms by (auto simp: life_phases_def)

lemma launched_open: "run_start (lf_sc s) = (Inr n, sc) \<Longrightarrow> store_open (s\<lparr>lf_sc := sc\<rparr>) = store_open s"
  by (auto simp: store_open_def dest: launched)

lemma failing_main: "lf_main s = Awaiting \<Longrightarrow> \<not> failing s" "lf_main s = Unlistened e \<Longrightarrow> \<not> failing s" "lf_main s = Serving \<Longrightarrow> \<not> failing s"
  "failing (s\<lparr>lf_main := Returned (Some e)\<rparr>)" "failing (s\<lparr>lf_main := Killed\<rparr>)"
  by (simp_all add: failing_def)

lemma life_store_step:
  assumes "life_step close s s'" and "life_phases s" and "life_store s"
  shows "life_store s'"
  using assms(1)
proof cases
  case (launch n sc)
  then show ?thesis using assms(3) life_phasesD(6) [OF assms(2)] by (auto simp: life_store_def launched_open)
next
  case drained
  then show ?thesis
    using life_phasesD(1,2) [OF assms(2)] by (auto simp: life_store_def shut_store)
next
  case (stop_fails e)
  then show ?thesis
    using assms(3) life_phasesD(1,2,7) [OF assms(2)] by (auto simp: life_store_def shut_store)
next
  case not_running
  then show ?thesis
    using assms(3) life_phasesD(5) [OF assms(2)] by (auto simp: life_store_def shut_store store_open_def)
qed (use assms(3) life_phasesD [OF assms(2)] in
  \<open>auto simp: life_store_def failing_main dest: conn_used intro: quiet_set\<close>)

lemma life_inv_step: "life_step close s s' \<Longrightarrow> life_inv s \<Longrightarrow> life_inv s'"
  by (simp add: life_inv_def life_phases_step life_store_step)

lemma life_steps_inv: "(life_step close)\<^sup>*\<^sup>* s s' \<Longrightarrow> life_inv s \<Longrightarrow> life_inv s'"
  by (induction rule: rtranclp_induct) (auto intro: life_inv_step)

lemma life_reach_inv: "(life_step close)\<^sup>*\<^sup>* (new_life srv n) s \<Longrightarrow> sv_store srv \<noteq> None \<Longrightarrow> life_inv s"
  by (rule life_steps_inv [OF _ new_life_inv])

lemma shut_conf: "sv_conf (sc_server (lf_sc (shut close e s))) = sv_conf (sc_server (lf_sc s))"
  by (auto simp: shut_def server_shutdown_def Let_def split: option.split prod.split)

lemma limited_step:
  assumes "life_step close s s'"
  shows "limited s' = limited s"
  using assms
proof cases
  case (launch n sc)
  then show ?thesis using launched [OF launch(4)] by (simp add: limited_def)
qed (simp_all add: limited_def shut_conf)

lemma limited_steps: "(life_step close)\<^sup>*\<^sup>* s s' \<Longrightarrow> limited s' = limited s"
  by (induction rule: rtranclp_induct) (auto simp: limited_step)

text \<open>
  A run of a server without requests: to the states in which its listener is told to stop, and from
  there to the regular end of the command.
\<close>

definition serving :: "'s server \<Rightarrow> 's life" where
  "serving srv = (new_life srv 0)\<lparr>lf_sc := \<lparr>sc_server = srv, sc_http = Some 0, sc_next = 1\<rparr>, lf_main := Serving,
     lf_sig := Watching\<rparr>"

definition stopped :: "'s server \<Rightarrow> 's life" where
  "stopped srv = (serving srv)\<lparr>lf_sig := Stopped_listening, lf_mu := True, lf_stopping := True\<rparr>"

lemmas life_run = serving_def stopped_def new_life_def running_def quiet_def shut_def server_shutdown_def run_start_def
  run_back_def run_end_def Let_def

lemma stopped_reached: "(life_step close)\<^sup>*\<^sup>* (new_life srv 0) (stopped srv)"
proof -
  let ?s1 = "(new_life srv 0)\<lparr>lf_sig := Watching\<rparr>" and ?s3 = "(serving srv)\<lparr>lf_sig := Stopping\<rparr>"
  have "life_step close (new_life srv 0) ?s1" using install [of "new_life srv 0" close] by (simp add: life_run)
  moreover have "life_step close ?s1 (serving srv)" using launch [of ?s1 0 _ close] by (simp add: life_run)
  moreover have "life_step close (serving srv) ?s3" using signal [of "serving srv" close] by (simp add: life_run)
  moreover have "life_step close ?s3 (stopped srv)" using stop [of ?s3 close] by (simp add: life_run)
  ultimately show ?thesis by (auto intro: rtranclp.intros)
qed

lemma returned_reached:
  assumes "sv_store srv = Some x" and "close x = None"
  shows "\<exists>s. (life_step close)\<^sup>*\<^sup>* (new_life srv 0) s \<and> lf_main s = Returned None \<and> lf_warn s = None"
proof -
  define s1 where "s1 = shut close None (stopped srv)"
  define s2 where "s2 = s1\<lparr>lf_main := Unlistened errServerClosed\<rparr>"
  define s3 where "s3 = s2\<lparr>lf_main := Awaiting\<rparr>"
  define s4 where "s4 = s3\<lparr>lf_ctx := True, lf_clean := True, lf_sig := Gone\<rparr>"
  define s5 where "s5 = s4\<lparr>lf_main := Returned None\<rparr>"
  note D = s1_def s2_def s3_def s4_def s5_def life_run
  have "life_step close (stopped srv) s1" using drained [of "stopped srv" close] by (simp add: D)
  moreover have "life_step close s1 s2" using listen_closed [of s1 close] assms by (simp add: D)
  moreover have "life_step close s2 s3" using run_returns [of s2 errServerClosed close] assms by (simp add: D)
  moreover have "life_step close s3 s4" using cancel [of s3 close] assms by (simp add: D)
  moreover have "life_step close s4 s5" using await [of s4 close] assms by (simp add: D)
  ultimately have "(life_step close)\<^sup>*\<^sup>* (stopped srv) s5" by (auto intro: rtranclp.intros)
  then have "(life_step close)\<^sup>*\<^sup>* (new_life srv 0) s5" using stopped_reached by (rule rtranclp_trans [rotated])
  moreover have "lf_main s5 = Returned None \<and> lf_warn s5 = None" using assms by (simp add: D)
  ultimately show ?thesis by blast
qed

text \<open>A server as the command sets it up, with a store that has no state.\<close>

definition idle_server :: "int \<Rightarrow> unit server" where
  "idle_server rate = new_server (serve_conf (newServeCmd\<lparr>so_apiRateLimit := rate\<rparr>) StoreMem) NoAuth (\<lambda>_. Some ())"

lemma idle_server_simps:
  "sv_store (idle_server rate) = Some ()" "ca_rateLimit (c_api (sv_conf (idle_server rate))) = rate"
  by (simp_all add: idle_server_def new_server_def Let_def setDefaults_def setDefaults_api_def serve_conf_def newServeCmd_def)

section \<open>A shutdown ends\<close>

text \<open>The steps that a shutdown has still to wait for.\<close>

fun conn_work :: "conn \<Rightarrow> nat" where
  "conn_work Open = 3"
| "conn_work Received = 2"
| "conn_work Handled = 1"
| "conn_work c = 0"

fun main_work :: "main_phase \<Rightarrow> nat" where
  "main_work Serving = 3"
| "main_work (Unlistened e) = 2"
| "main_work Awaiting = 1"
| "main_work (Giving_up e) = 1"
| "main_work m = 0"

fun sig_work :: "sig_phase \<Rightarrow> nat" where
  "sig_work Stopped_listening = 2"
| "sig_work Cancelling = 1"
| "sig_work g = 0"

definition life_work :: "'s life \<Rightarrow> nat" where
  "life_work s = main_work (lf_main s) + sig_work (lf_sig s) + sum_list (List.map conn_work (lf_conns s))"

lemma conn_work_less:
  "conn_at s i c \<Longrightarrow> conn_work d < conn_work c \<Longrightarrow>
     sum_list (List.map conn_work (lf_conns (set_conn i d s))) < sum_list (List.map conn_work (lf_conns s))"
  using sum_list_less [of i "lf_conns s" conn_work d] by (simp add: conn_at_def set_conn_def)

lemma stopping_step:
  assumes "life_step close s s'" and "life_phases s" and "lf_stopping s"
  shows "lf_stopping s' \<and> life_work s' < life_work s"
  using assms(1)
proof cases
  case (run_returns e)
  then show ?thesis using assms(3) by (auto simp: run_end_error run_back_def life_work_def)
qed (use assms(3) life_phasesD [OF assms(2)] in \<open>auto simp: life_work_def
    conn_work_less [where c = Open] conn_work_less [where c = Received] conn_work_less [where c = Handled]\<close>)

lemma stopping_progress:
  assumes "life_phases s" and "lf_stopping s" and "\<not> limited s" and "running s"
    and "lf_sig s \<noteq> Store_stuck" and "\<And>i. \<not> conn_at s i Blocked"
  shows "\<exists>s'. life_step close s s'"
proof -
  have "lf_sig s \<in> {Stopped_listening, Cancelling, Gone}" "lf_main s \<noteq> Launching"
    "lf_mu s = (lf_sig s = Stopped_listening)" "lf_clean s = (lf_sig s = Gone)"
    using assms(1,2,5) by (auto simp: life_phases_def)
  then consider "lf_sig s = Stopped_listening" "quiet s" | "lf_sig s = Stopped_listening" "\<not> quiet s"
    | "lf_sig s = Cancelling" | "lf_sig s = Gone" "\<not> lf_mu s" "lf_clean s" "lf_main s \<noteq> Launching" by auto
  then show ?thesis
  proof cases
    case 2
    then obtain i c where "conn_at s i c" "c \<noteq> Fresh" "c \<noteq> Closed"
      by (auto simp: quiet_def conn_at_def in_set_conv_nth)
    then show ?thesis
      using hang_up [OF assms(4)] count [OF assms(4)] answer [OF assms(4)] assms(3,6) by (cases c) blast+
  next
    case 4
    then show ?thesis
      using assms(2,4)
      by (cases "lf_main s"; simp add: running_def; blast intro: listen_closed run_returns give_up await)
  qed (use assms(4) drained cancel in blast)+
qed

lemma stopping_steps:
  "((life_step close) ^^ k) s s' \<Longrightarrow> life_inv s \<Longrightarrow> lf_stopping s \<Longrightarrow>
     lf_stopping s' \<and> life_inv s' \<and> limited s' = limited s \<and> k + life_work s' \<le> life_work s"
proof (induction k arbitrary: s')
  case (Suc k)
  then obtain t where "((life_step close) ^^ k) s t" "life_step close t s'" by auto
  then show ?case
    using Suc.IH [of t] Suc.prems stopping_step [of close t s'] life_inv_step [of close t s'] limited_step [of close t s']
    by (auto simp: life_inv_def)
qed simp

text \<open>
  C14: A server without rate limit that has begun to shut down comes to an end, if the handlers of its
  requests and the close of its store return: whatever the requests, the listener and the two goroutines
  do, the process makes no more than a bounded number of steps, and unless a handler or the close of the
  store is blocked for good it can go on until it has ended.
\<close>

theorem shutdown_completes:
  assumes "sv_store srv \<noteq> None" and "(life_step close)\<^sup>*\<^sup>* (new_life srv n) s"
    and "\<not> limited s" and "lf_stopping s" and "((life_step close) ^^ k) s s'"
  shows "k \<le> life_work s \<and> (running s' \<longrightarrow> (\<exists>s''. life_step close s' s'') \<or>
    lf_sig s' = Store_stuck \<or> (\<exists>i. conn_at s' i Blocked))"
proof -
  have "life_inv s" using life_reach_inv [OF assms(2,1)] .
  from stopping_steps [OF assms(5) this assms(4)] show ?thesis
    using stopping_progress [of s' close] assms(3) by (auto simp: life_inv_def)
qed

theorem shutdown_completes_witness:
  "\<exists>s s'. (life_step (\<lambda>_. None))\<^sup>*\<^sup>* (new_life (idle_server 0) 0) s \<and> lf_stopping s \<and>
     ((life_step (\<lambda>_. None)) ^^ 1) s s' \<and> 1 \<le> life_work s \<and> (\<exists>s''. life_step (\<lambda>_. None) s' s'')"
proof -
  let ?s = "stopped (idle_server 0)" and ?step = "life_step (\<lambda>_::unit. None)"
  have "?step ?s (shut (\<lambda>_. None) None ?s)" by (rule drained) (simp_all add: life_run)
  then have step: "(?step ^^ 1) ?s (shut (\<lambda>_. None) None ?s)" by (simp only: relpowp_1)
  have "sv_store (idle_server 0) \<noteq> None" "\<not> limited ?s" "lf_stopping ?s" "running (shut (\<lambda>_. None) None ?s)"
    "lf_sig (shut (\<lambda>_. None) None ?s) \<noteq> Store_stuck" "\<not> conn_at (shut (\<lambda>_. None) None ?s) i Blocked" for i
    by (simp_all add: idle_server_simps limited_def life_run conn_at_def)
  then show ?thesis using shutdown_completes [OF _ stopped_reached _ _ step] stopped_reached step by blast
qed

section \<open>What holds when the process ends\<close>

text \<open>
  C16: A request is handled only while the store is open.  A server that returns without an error has
  answered every request it received, and has closed the store unless the listener could not be closed.
\<close>

theorem graceful_exit:
  assumes "sv_store srv \<noteq> None" and "(life_step close)\<^sup>*\<^sup>* (new_life srv n) s"
  shows "(conn_at s i Received \<or> conn_at s i Handled \<longrightarrow> store_open s) \<and>
    (lf_main s = Returned None \<longrightarrow> quiet s \<and> (store_open s \<longrightarrow> lf_warn s \<noteq> None))"
proof -
  have inv: "life_phases s" "life_store s" using life_reach_inv [OF assms(2,1)] by (simp_all add: life_inv_def)
  show ?thesis
  proof (intro conjI impI)
    assume "conn_at s i Received \<or> conn_at s i Handled"
    then have "\<not> quiet s" by (auto dest: conn_used)
    then show "store_open s" using inv(2) by (auto simp: life_store_def)
  next
    assume "lf_main s = Returned None"
    then have "lf_stopping s" "lf_sig s = Gone" "\<not> failing s"
      using inv(1) by (auto simp: life_phases_def failing_def)
    then show "quiet s" "store_open s \<Longrightarrow> lf_warn s \<noteq> None" using inv(2) by (auto simp: life_store_def)
  qed
qed

theorem graceful_exit_witness:
  "\<exists>s. (life_step (\<lambda>_. None))\<^sup>*\<^sup>* (new_life (idle_server 0) 0) s \<and> lf_main s = Returned None \<and> quiet s \<and> \<not> store_open s"
proof -
  obtain s where s: "(life_step (\<lambda>_. None))\<^sup>*\<^sup>* (new_life (idle_server 0) 0) s" "lf_main s = Returned None" "lf_warn s = None"
    using returned_reached [OF idle_server_simps(1), of "\<lambda>_. None"] by auto
  have "sv_store (idle_server 0) \<noteq> None" by (simp add: idle_server_simps)
  from graceful_exit [OF this s(1), of 0] show ?thesis using s by auto
qed


section \<open>What can go wrong\<close>

text \<open>
  C15: With a rate limit the shutdown can hang: a request that has arrived and is not yet counted waits
  for the mutex of the server, which \<open>Shutdown\<close> holds while it waits for the request to end.  No
  step of the process is left then, and a further signal is not heard.
\<close>

theorem rate_limit_blocks_shutdown:
  assumes "0 < ca_rateLimit (c_api (sv_conf srv))"
  shows "\<exists>s. (life_step close)\<^sup>*\<^sup>* (new_life srv 1) s \<and> lf_stopping s \<and> running s \<and> conn_at s 0 Received \<and>
    (\<forall>s'. \<not> life_step close s s')"
proof -
  define s1 where "s1 = (new_life srv 1)\<lparr>lf_sig := Watching\<rparr>"
  define s2 where "s2 = s1\<lparr>lf_sc := \<lparr>sc_server = srv, sc_http = Some 0, sc_next = 1\<rparr>, lf_main := Serving\<rparr>"
  define s3 where "s3 = s2\<lparr>lf_conns := [Open]\<rparr>"
  define s4 where "s4 = s3\<lparr>lf_conns := [Received]\<rparr>"
  define s5 where "s5 = s4\<lparr>lf_sig := Stopping\<rparr>"
  define s6 where "s6 = s5\<lparr>lf_sig := Stopped_listening, lf_mu := True, lf_stopping := True\<rparr>"
  define s7 where "s7 = s6\<lparr>lf_main := Unlistened errServerClosed\<rparr>"
  note D = s1_def s2_def s3_def s4_def s5_def s6_def s7_def new_life_def running_def conn_at_def set_conn_def
  have "life_step close (new_life srv 1) s1" using install [of "new_life srv 1" close] by (simp add: D)
  moreover have "life_step close s1 s2" using launch [of s1 0 _ close] by (simp add: D run_start_def)
  moreover have "life_step close s2 s3" using connect [of s2 0 close] by (simp add: D)
  moreover have "life_step close s3 s4" using receive [of s3 0 close] by (simp add: D)
  moreover have "life_step close s4 s5" using signal [of s4 close] by (simp add: D)
  moreover have "life_step close s5 s6" using stop [of s5 close] by (simp add: D)
  moreover have "life_step close s6 s7" using listen_closed [of s6 close] by (simp add: D)
  ultimately have "(life_step close)\<^sup>*\<^sup>* (new_life srv 1) s7" by (auto intro: rtranclp.intros)
  moreover have "\<not> life_step close s7 s'" for s'
  proof
    assume "life_step close s7 s'"
    then show False by cases (use assms in \<open>simp_all add: D limited_def quiet_def\<close>)
  qed
  moreover have "lf_stopping s7" "running s7" "conn_at s7 0 Received" by (simp_all add: D)
  ultimately show ?thesis by blast
qed

theorem rate_limit_blocks_shutdown_witness:
  "\<exists>s. (life_step (\<lambda>_. None))\<^sup>*\<^sup>* (new_life (idle_server 5) 1) s \<and> lf_stopping s \<and> running s \<and> conn_at s 0 Received \<and>
    (\<forall>s'. \<not> life_step (\<lambda>_. None) s s')"
  using rate_limit_blocks_shutdown [of "idle_server 5" "\<lambda>_. None"] by (simp add: idle_server_simps)

text \<open>The signal handler is gone, and the listener was not told to stop.\<close>

definition deaf :: "'s life \<Rightarrow> bool" where
  "deaf s \<longleftrightarrow> lf_sig s = Gone \<and> \<not> lf_stopping s"

lemma deaf_step: "life_step close s s' \<Longrightarrow> deaf s \<Longrightarrow> deaf s'"
  by (erule life_step.cases) (simp_all add: deaf_def)

lemma deaf_steps: "(life_step close)\<^sup>*\<^sup>* s s' \<Longrightarrow> deaf s \<Longrightarrow> deaf s'"
  by (induction rule: rtranclp_induct) (auto intro: deaf_step)

text \<open>
  C17: A signal that comes before \<open>Run\<close> has set its listener is lost: \<open>Shutdown\<close> finds no server to
  stop, the goroutine that waits for signals ends, and \<open>Run\<close> goes on to serve.  Whatever happens then,
  the listener is never told to stop, the store stays open, and the command does not return but with an
  error of its listener.
\<close>

theorem early_signal_lost:
  assumes "sv_store srv \<noteq> None"
  shows "\<exists>s. (life_step close)\<^sup>*\<^sup>* (new_life srv n) s \<and> lf_main s = Serving \<and> lf_warn s \<noteq> None \<and>
    (\<forall>s'. (life_step close)\<^sup>*\<^sup>* s s' \<longrightarrow> \<not> lf_stopping s' \<and> store_open s' \<and> lf_main s' \<noteq> Returned None)"
proof -
  define s1 where "s1 = (new_life srv n)\<lparr>lf_sig := Watching\<rparr>"
  define s2 where "s2 = s1\<lparr>lf_sig := Stopping\<rparr>"
  define s3 where "s3 = s2\<lparr>lf_sig := Cancelling, lf_warn := Some (ErrOther ''server is not running'')\<rparr>"
  define s4 where "s4 = s3\<lparr>lf_ctx := True, lf_clean := True, lf_sig := Gone\<rparr>"
  define s5 where "s5 = s4\<lparr>lf_sc := \<lparr>sc_server = srv, sc_http = Some 0, sc_next = 1\<rparr>, lf_main := Serving\<rparr>"
  note D = s1_def s2_def s3_def s4_def s5_def new_life_def running_def
  have "life_step close (new_life srv n) s1" using install [of "new_life srv n" close] by (simp add: D)
  moreover have "life_step close s1 s2" using signal [of s1 close] by (simp add: D)
  moreover have "life_step close s2 s3"
    using not_running [of s2 close] by (simp add: D shut_def server_shutdown_def)
  moreover have "life_step close s3 s4" using cancel [of s3 close] by (simp add: D)
  moreover have "life_step close s4 s5" using launch [of s4 0 _ close] by (simp add: D run_start_def)
  ultimately have reach: "(life_step close)\<^sup>*\<^sup>* (new_life srv n) s5" by (auto intro: rtranclp.intros)
  have "\<not> lf_stopping s' \<and> store_open s' \<and> lf_main s' \<noteq> Returned None" if "(life_step close)\<^sup>*\<^sup>* s5 s'" for s'
  proof -
    have "deaf s'" using deaf_steps [OF that] by (simp add: D deaf_def)
    moreover have "life_inv s'" using life_steps_inv [OF that life_reach_inv [OF reach assms]] .
    ultimately show ?thesis by (auto simp: deaf_def life_inv_def life_phases_def life_store_def)
  qed
  moreover have "lf_main s5 = Serving" "lf_warn s5 \<noteq> None" by (simp_all add: D)
  ultimately show ?thesis using reach by blast
qed

theorem early_signal_lost_witness:
  "\<exists>s. (life_step (\<lambda>_. None))\<^sup>*\<^sup>* (new_life (idle_server 0) 2) s \<and> lf_main s = Serving \<and> lf_warn s \<noteq> None \<and> \<not> lf_stopping s"
proof -
  have "sv_store (idle_server 0) \<noteq> None" by (simp add: idle_server_simps)
  from early_signal_lost [OF this, of "\<lambda>_. None" 2] show ?thesis by blast
qed

end
