(* ===== verification/Copies.thy ===== *)
theory Copies
  imports Layout "HOL-Library.List_Lexorder" "HOL-Library.Char_ord"
begin

text \<open>
  The \<open>Copy\<close> methods of package \<open>types\<close> on Go's memory.  The rest of the development treats an index as
  a value; here it is what it is in the program, a struct with slices, maps and pointers to other
  cells, and a copy is shown to read the same and to share no cell with its original.  The addresses
  of new cells count up, and the loop over the history takes the tags in order: neither shows in what
  a copy reads.  The capacity of a slice is not modelled.
\<close>

section \<open>Memory\<close>

type_synonym addr = nat

text \<open>A slice: the cell of its array, the offset in it, and the length.\<close>

datatype slice = NoSlice | Slice addr nat nat

record go_platform =
  gp_architecture :: string
  gp_os :: string
  gp_osVersion :: string
  gp_osFeatures :: slice
  gp_variant :: string
  gp_features :: slice

record go_descriptor =
  gd_mediaType :: string
  gd_digest :: digest
  gd_size :: int
  gd_urls :: slice
  gd_annotations :: "addr option"
  gd_data :: slice
  gd_platform :: "addr option"
  gd_artifactType :: string

record go_index =
  gi_schemaVersion :: int
  gi_mediaType :: string
  gi_artifactType :: string
  gi_manifests :: slice
  gi_subject :: "addr option"
  gi_annotations :: "addr option"

record go_history =
  gh_time :: time
  gh_deleted :: bool
  gh_descriptor :: go_descriptor

record go_layout =
  gl_index :: go_index
  gl_history :: "addr option"
  gl_childManifests :: slice

text \<open>A cell is the array of a slice, the target of a pointer, or a map.\<close>

datatype cell =
    Strings "string list"
  | Bytes bytes
  | Descs "go_descriptor list"
  | Histories "go_history list"
  | Pointed_platform go_platform
  | Pointed_desc go_descriptor
  | Annots annots
  | History_map "(string, slice) fmap"

record memory =
  mem_cells :: "(addr, cell) fmap"
  mem_next :: addr

definition memory_ok :: "memory \<Rightarrow> bool" where
  "memory_ok H \<longleftrightarrow> (\<forall>a. mem_next H \<le> a \<longrightarrow> fmlookup (mem_cells H) a = None)"

definition alloc :: "cell \<Rightarrow> memory \<Rightarrow> addr \<times> memory" where
  "alloc c H = (mem_next H, H\<lparr>mem_cells := fmupd (mem_next H) c (mem_cells H), mem_next := Suc (mem_next H)\<rparr>)"

text \<open>A cell changes in place: an element of an array, an entry of a map, the target of a pointer.\<close>

definition store :: "addr \<Rightarrow> cell \<Rightarrow> memory \<Rightarrow> memory" where
  "store a c H = H\<lparr>mem_cells := fmupd a c (mem_cells H)\<rparr>"

section \<open>Reading\<close>

text \<open>The items of a slice, whose array \<open>get\<close> finds in its cell, and the target of a pointer.\<close>

definition items :: "(cell \<Rightarrow> 'g list option) \<Rightarrow> memory \<Rightarrow> slice \<Rightarrow> 'g list" where
  "items get H s =
     (case s of
        NoSlice \<Rightarrow> []
      | Slice a off n \<Rightarrow>
        (case Option.bind (fmlookup (mem_cells H) a) get of None \<Rightarrow> [] | Some gs \<Rightarrow> take n (drop off gs)))"

definition target :: "(cell \<Rightarrow> 'g option) \<Rightarrow> memory \<Rightarrow> addr option \<Rightarrow> 'g option" where
  "target get H p = Option.bind (Option.bind p (fmlookup (mem_cells H))) get"

fun get_strings :: "cell \<Rightarrow> string list option" where
  "get_strings (Strings xs) = Some xs"
| "get_strings c = None"

fun get_bytes :: "cell \<Rightarrow> char list option" where
  "get_bytes (Bytes b) = Some b"
| "get_bytes c = None"

fun get_descs :: "cell \<Rightarrow> go_descriptor list option" where
  "get_descs (Descs ds) = Some ds"
| "get_descs c = None"

fun get_histories :: "cell \<Rightarrow> go_history list option" where
  "get_histories (Histories hs) = Some hs"
| "get_histories c = None"

fun get_platform :: "cell \<Rightarrow> go_platform option" where
  "get_platform (Pointed_platform p) = Some p"
| "get_platform c = None"

fun get_pointed :: "cell \<Rightarrow> go_descriptor option" where
  "get_pointed (Pointed_desc d) = Some d"
| "get_pointed c = None"

fun get_annots :: "cell \<Rightarrow> annots option" where
  "get_annots (Annots m) = Some m"
| "get_annots c = None"

fun get_history_map :: "cell \<Rightarrow> (string, slice) fmap option" where
  "get_history_map (History_map m) = Some m"
| "get_history_map c = None"

definition slice_val :: "(cell \<Rightarrow> 'g list option) \<Rightarrow> (memory \<Rightarrow> 'g \<Rightarrow> 'v) \<Rightarrow> memory \<Rightarrow> slice \<Rightarrow> 'v list" where
  "slice_val get val H s = List.map (val H) (items get H s)"

definition ptr_val :: "(cell \<Rightarrow> 'g option) \<Rightarrow> (memory \<Rightarrow> 'g \<Rightarrow> 'v) \<Rightarrow> memory \<Rightarrow> addr option \<Rightarrow> 'v option" where
  "ptr_val get val H p = map_option (val H) (target get H p)"

definition same :: "memory \<Rightarrow> 'g \<Rightarrow> 'g" where
  "same H g = g"

definition annots_val :: "memory \<Rightarrow> addr option \<Rightarrow> annots" where
  "annots_val H p = (case ptr_val get_annots same H p of None \<Rightarrow> fmempty | Some m \<Rightarrow> m)"

definition platform_val :: "memory \<Rightarrow> go_platform \<Rightarrow> platform" where
  "platform_val H p = \<lparr>pl_architecture = gp_architecture p, pl_os = gp_os p, pl_osVersion = gp_osVersion p,
     pl_osFeatures = slice_val get_strings same H (gp_osFeatures p), pl_variant = gp_variant p,
     pl_features = slice_val get_strings same H (gp_features p)\<rparr>"

definition desc_val :: "memory \<Rightarrow> go_descriptor \<Rightarrow> descriptor" where
  "desc_val H d = \<lparr>d_mediaType = gd_mediaType d, d_digest = gd_digest d, d_size = gd_size d,
     d_urls = slice_val get_strings same H (gd_urls d), d_annotations = annots_val H (gd_annotations d),
     d_data = slice_val get_bytes same H (gd_data d), d_platform = ptr_val get_platform platform_val H (gd_platform d),
     d_artifactType = gd_artifactType d\<rparr>"

definition history_val :: "memory \<Rightarrow> go_history \<Rightarrow> layout_history" where
  "history_val H h = \<lparr>lh_time = gh_time h, lh_deleted = gh_deleted h, lh_descriptor = desc_val H (gh_descriptor h)\<rparr>"

definition entry_val :: "memory \<Rightarrow> string \<times> slice \<Rightarrow> string \<times> layout_history list" where
  "entry_val H = (\<lambda>(tag, s). (tag, slice_val get_histories history_val H s))"

definition history_map_val :: "memory \<Rightarrow> addr option \<Rightarrow> (string, layout_history list) fmap" where
  "history_map_val H p =
     (case target get_history_map H p of None \<Rightarrow> fmempty | Some m \<Rightarrow> fmmap (slice_val get_histories history_val H) m)"

definition index_val :: "memory \<Rightarrow> go_index \<Rightarrow> index" where
  "index_val H i = \<lparr>i_schemaVersion = gi_schemaVersion i, i_mediaType = gi_mediaType i, i_artifactType = gi_artifactType i,
     i_manifests = slice_val get_descs desc_val H (gi_manifests i),
     i_subject = ptr_val get_pointed desc_val H (gi_subject i), i_annotations = annots_val H (gi_annotations i)\<rparr>"

definition layout_val :: "memory \<Rightarrow> go_layout \<Rightarrow> layout_index" where
  "layout_val H l = index.extend (index_val H (gl_index l))
     \<lparr>li_history = history_map_val H (gl_history l),
      li_childManifests = slice_val get_descs desc_val H (gl_childManifests l)\<rparr>"

section \<open>Copying\<close>

text \<open>The loop over the items of a slice, and an item that is copied by the assignment alone.\<close>

fun copy_all :: "('g \<Rightarrow> memory \<Rightarrow> 'g \<times> memory) \<Rightarrow> 'g list \<Rightarrow> memory \<Rightarrow> 'g list \<times> memory" where
  "copy_all copy [] H = ([], H)"
| "copy_all copy (g # gs) H =
     (let (g', H1) = copy g H; (gs', H2) = copy_all copy gs H1 in (g' # gs', H2))"

definition plain_copy :: "'g \<Rightarrow> memory \<Rightarrow> 'g \<times> memory" where
  "plain_copy g H = (g, H)"

text \<open>\<open>make\<close> of a new array and a loop that fills it, with and without a test for nil; a new target.\<close>

definition slice_copy ::
    "(cell \<Rightarrow> 'g list option) \<Rightarrow> ('g list \<Rightarrow> cell) \<Rightarrow> ('g \<Rightarrow> memory \<Rightarrow> 'g \<times> memory) \<Rightarrow> slice \<Rightarrow> memory \<Rightarrow> slice \<times> memory" where
  "slice_copy get mk copy s H =
     (let (gs, H1) = copy_all copy (items get H s) H; (a, H2) = alloc (mk gs) H1 in (Slice a 0 (length gs), H2))"

definition slice_copy_nil ::
    "(cell \<Rightarrow> 'g list option) \<Rightarrow> ('g list \<Rightarrow> cell) \<Rightarrow> ('g \<Rightarrow> memory \<Rightarrow> 'g \<times> memory) \<Rightarrow> slice \<Rightarrow> memory \<Rightarrow> slice \<times> memory" where
  "slice_copy_nil get mk copy s H = (if s = NoSlice then (NoSlice, H) else slice_copy get mk copy s H)"

definition ptr_copy ::
    "(cell \<Rightarrow> 'g option) \<Rightarrow> ('g \<Rightarrow> cell) \<Rightarrow> ('g \<Rightarrow> memory \<Rightarrow> 'g \<times> memory) \<Rightarrow> addr option \<Rightarrow> memory \<Rightarrow> addr option \<times> memory" where
  "ptr_copy get mk copy p H =
     (case target get H p of
        None \<Rightarrow> (None, H)
      | Some g \<Rightarrow> let (g', H1) = copy g H; (a, H2) = alloc (mk g') H1 in (Some a, H2))"

definition platform_copy :: "go_platform \<Rightarrow> memory \<Rightarrow> go_platform \<times> memory" where
  "platform_copy p H =
     (let (os, H1) = slice_copy_nil get_strings Strings plain_copy (gp_osFeatures p) H;
          (fs, H2) = slice_copy_nil get_strings Strings plain_copy (gp_features p) H1
      in (p\<lparr>gp_osFeatures := os, gp_features := fs\<rparr>, H2))"

definition desc_copy :: "go_descriptor \<Rightarrow> memory \<Rightarrow> go_descriptor \<times> memory" where
  "desc_copy d H =
     (let (us, H1) = slice_copy_nil get_strings Strings plain_copy (gd_urls d) H;
          (b, H2) = slice_copy_nil get_bytes Bytes plain_copy (gd_data d) H1;
          (p, H3) = ptr_copy get_platform Pointed_platform platform_copy (gd_platform d) H2;
          (m, H4) = ptr_copy get_annots Annots plain_copy (gd_annotations d) H3
      in (d\<lparr>gd_urls := us, gd_data := b, gd_platform := p, gd_annotations := m\<rparr>, H4))"

definition index_copy :: "go_index \<Rightarrow> memory \<Rightarrow> go_index \<times> memory" where
  "index_copy i H =
     (let (ms, H1) = slice_copy get_descs Descs desc_copy (gi_manifests i) H;
          (sub, H2) = ptr_copy get_pointed Pointed_desc desc_copy (gi_subject i) H1;
          (m, H3) = ptr_copy get_annots Annots plain_copy (gi_annotations i) H2
      in (i\<lparr>gi_manifests := ms, gi_subject := sub, gi_annotations := m\<rparr>, H3))"

definition history_copy :: "go_history \<Rightarrow> memory \<Rightarrow> go_history \<times> memory" where
  "history_copy h H = (let (d, H1) = desc_copy (gh_descriptor h) H in (h\<lparr>gh_descriptor := d\<rparr>, H1))"

text \<open>The entries of the history by tag; the map of the copy is new in any case.\<close>

definition entry_copy :: "string \<times> slice \<Rightarrow> memory \<Rightarrow> (string \<times> slice) \<times> memory" where
  "entry_copy = (\<lambda>(tag, s) H. let (s', H1) = slice_copy get_histories Histories history_copy s H in ((tag, s'), H1))"

definition history_entries :: "(string, slice) fmap \<Rightarrow> (string \<times> slice) list" where
  "history_entries m = List.map (\<lambda>t. (t, the (fmlookup m t))) (sorted_list_of_fset (fmdom m))"

definition history_map_copy :: "addr option \<Rightarrow> memory \<Rightarrow> addr option \<times> memory" where
  "history_map_copy p H =
     (let m = (case target get_history_map H p of None \<Rightarrow> fmempty | Some m \<Rightarrow> m);
          (es, H1) = copy_all entry_copy (history_entries m) H;
          (a, H2) = alloc (History_map (fmap_of_list es)) H1
      in (Some a, H2))"

definition layout_copy :: "go_layout \<Rightarrow> memory \<Rightarrow> go_layout \<times> memory" where
  "layout_copy l H =
     (let (i, H1) = index_copy (gl_index l) H;
          (cs, H2) = slice_copy get_descs Descs desc_copy (gl_childManifests l) H1;
          (h, H3) = history_map_copy (gl_history l) H2
      in (\<lparr>gl_index = i, gl_history = h, gl_childManifests = cs\<rparr>, H3))"

section \<open>Cells that are reached\<close>

definition no_cells :: "memory \<Rightarrow> 'g \<Rightarrow> addr set" where
  "no_cells H g = {}"

definition slice_cells :: "(cell \<Rightarrow> 'g list option) \<Rightarrow> (memory \<Rightarrow> 'g \<Rightarrow> addr set) \<Rightarrow> memory \<Rightarrow> slice \<Rightarrow> addr set" where
  "slice_cells get cells H s =
     (case s of NoSlice \<Rightarrow> {} | Slice a off n \<Rightarrow> insert a (\<Union>g\<in>set (items get H s). cells H g))"

definition ptr_cells :: "(cell \<Rightarrow> 'g option) \<Rightarrow> (memory \<Rightarrow> 'g \<Rightarrow> addr set) \<Rightarrow> memory \<Rightarrow> addr option \<Rightarrow> addr set" where
  "ptr_cells get cells H p =
     (case p of None \<Rightarrow> {} | Some a \<Rightarrow> insert a (case target get H p of None \<Rightarrow> {} | Some g \<Rightarrow> cells H g))"

definition platform_cells :: "memory \<Rightarrow> go_platform \<Rightarrow> addr set" where
  "platform_cells H p = slice_cells get_strings no_cells H (gp_osFeatures p) \<union> slice_cells get_strings no_cells H (gp_features p)"

definition desc_cells :: "memory \<Rightarrow> go_descriptor \<Rightarrow> addr set" where
  "desc_cells H d = slice_cells get_strings no_cells H (gd_urls d) \<union> slice_cells get_bytes no_cells H (gd_data d) \<union>
     ptr_cells get_platform platform_cells H (gd_platform d) \<union> ptr_cells get_annots no_cells H (gd_annotations d)"

definition index_cells :: "memory \<Rightarrow> go_index \<Rightarrow> addr set" where
  "index_cells H i = slice_cells get_descs desc_cells H (gi_manifests i) \<union>
     ptr_cells get_pointed desc_cells H (gi_subject i) \<union> ptr_cells get_annots no_cells H (gi_annotations i)"

definition history_cells :: "memory \<Rightarrow> go_history \<Rightarrow> addr set" where
  "history_cells H h = desc_cells H (gh_descriptor h)"

definition entry_cells :: "memory \<Rightarrow> string \<times> slice \<Rightarrow> addr set" where
  "entry_cells H e = slice_cells get_histories history_cells H (snd e)"

definition history_map_cells :: "memory \<Rightarrow> addr option \<Rightarrow> addr set" where
  "history_map_cells H p =
     (case p of None \<Rightarrow> {} | Some a \<Rightarrow> insert a (case target get_history_map H p of
        None \<Rightarrow> {} | Some m \<Rightarrow> \<Union>e\<in>set (history_entries m). entry_cells H e))"

definition layout_cells :: "memory \<Rightarrow> go_layout \<Rightarrow> addr set" where
  "layout_cells H l = index_cells H (gl_index l) \<union> slice_cells get_descs desc_cells H (gl_childManifests l) \<union>
     history_map_cells H (gl_history l)"

section \<open>What a copy promises\<close>

definition agree :: "addr set \<Rightarrow> memory \<Rightarrow> memory \<Rightarrow> bool" where
  "agree A H H' \<longleftrightarrow> (\<forall>a\<in>A. fmlookup (mem_cells H') a = fmlookup (mem_cells H) a)"

text \<open>The memory has grown: what was allocated is as before.\<close>

definition grown :: "memory \<Rightarrow> memory \<Rightarrow> bool" where
  "grown H H' \<longleftrightarrow> memory_ok H' \<and> mem_next H \<le> mem_next H' \<and> agree {..<mem_next H} H H'"

abbreviation fresh :: "memory \<Rightarrow> memory \<Rightarrow> addr set" where
  "fresh H H' \<equiv> {mem_next H..<mem_next H'}"

lemma agree_mono: "agree A H H' \<Longrightarrow> B \<subseteq> A \<Longrightarrow> agree B H H'"
  by (auto simp: agree_def)

lemma grown_refl [simp]: "memory_ok H \<Longrightarrow> grown H H"
  by (simp add: grown_def agree_def)

lemma grown_trans: "grown H H1 \<Longrightarrow> grown H1 H2 \<Longrightarrow> grown H H2"
  by (auto simp: grown_def agree_def)

lemma grown_ok: "grown H H' \<Longrightarrow> memory_ok H'"
  by (simp add: grown_def)

lemma grown_next: "grown H H' \<Longrightarrow> mem_next H \<le> mem_next H'"
  by (simp add: grown_def)

lemma alloc_grown: "alloc c H = (a, H') \<Longrightarrow> memory_ok H \<Longrightarrow> grown H H' \<and> a \<in> fresh H H' \<and> fmlookup (mem_cells H') a = Some c"
  by (auto simp: alloc_def grown_def memory_ok_def agree_def)

text \<open>
  A way to read values, the cells it reads and a way to copy: a value rests on its cells only, and a
  copy leaves the memory there was alone, reads the same and lies in new cells.
\<close>

locale copier =
  fixes val :: "memory \<Rightarrow> 'g \<Rightarrow> 'v" and cells :: "memory \<Rightarrow> 'g \<Rightarrow> addr set" and copy :: "'g \<Rightarrow> memory \<Rightarrow> 'g \<times> memory"
  assumes rests: "agree (cells H g) H H' \<Longrightarrow> val H' g = val H g \<and> cells H' g = cells H g"
    and copies: "copy g H = (g', H') \<Longrightarrow> memory_ok H \<Longrightarrow> cells H g \<subseteq> {..<mem_next H} \<Longrightarrow>
      grown H H' \<and> val H' g' = val H g \<and> cells H' g' \<subseteq> fresh H H'"
begin

lemma source_later: "cells H g \<subseteq> {..<mem_next H} \<Longrightarrow> grown H H' \<Longrightarrow>
    val H' g = val H g \<and> cells H' g = cells H g \<and> cells H' g \<subseteq> {..<mem_next H'}"
  using rests [of H g H'] agree_mono [of "{..<mem_next H}" H H' "cells H g"] by (auto simp: grown_def)

lemma copy_later: "cells H1 g' \<subseteq> fresh H H1 \<Longrightarrow> grown H1 H2 \<Longrightarrow>
    val H2 g' = val H1 g' \<and> cells H2 g' = cells H1 g' \<and> cells H2 g' \<subseteq> fresh H H2"
  using source_later [of H1 g' H2] grown_next [of H1 H2] by fastforce

lemma copies_all:
  "copy_all copy gs H = (gs', H') \<Longrightarrow> memory_ok H \<Longrightarrow> (\<Union>g\<in>set gs. cells H g) \<subseteq> {..<mem_next H} \<Longrightarrow>
     grown H H' \<and> List.map (val H') gs' = List.map (val H) gs \<and> (\<Union>g\<in>set gs'. cells H' g) \<subseteq> fresh H H'"
proof (induction gs arbitrary: gs' H)
  case (Cons g gs)
  obtain g1 H1 where c: "copy g H = (g1, H1)" by fastforce
  obtain gs2 where cs: "copy_all copy gs H1 = (gs2, H')" and r: "gs' = g1 # gs2"
    using Cons.prems(1) c by (auto simp: Let_def split: prod.splits)
  have c1: "grown H H1" "val H1 g1 = val H g" "cells H1 g1 \<subseteq> fresh H H1"
    using copies [OF c] Cons.prems(2,3) by auto
  have src: "val H1 x = val H x \<and> cells H1 x = cells H x \<and> cells H1 x \<subseteq> {..<mem_next H1}" if "x \<in> set gs" for x
    using source_later [OF _ c1(1), of x] Cons.prems(3) that by auto
  then have "(\<Union>x\<in>set gs. cells H1 x) \<subseteq> {..<mem_next H1}" by blast
  from Cons.IH [OF cs grown_ok [OF c1(1)] this]
  have c2: "grown H1 H'" "List.map (val H') gs2 = List.map (val H1) gs" "(\<Union>x\<in>set gs2. cells H' x) \<subseteq> fresh H1 H'" by blast+
  have "fresh H1 H' \<subseteq> fresh H H'" using grown_next [OF c1(1)] by auto
  then show ?case
    using copy_later [OF c1(3) c2(1)] c1(2) c2 src grown_trans [OF c1(1) c2(1)] unfolding r by auto
qed simp

text \<open>A copy in the course of a larger one that has started at \<open>H0\<close>.\<close>

lemma copy_part:
  assumes "copy g H = (g', H1)" and "grown H0 H" and "cells H0 g \<subseteq> {..<mem_next H0}"
  shows "grown H0 H1" "grown H H1" "grown H1 H2 \<Longrightarrow> val H2 g' = val H0 g" "grown H1 H2 \<Longrightarrow> cells H2 g' \<subseteq> fresh H0 H2"
proof -
  have src: "val H g = val H0 g" "cells H g \<subseteq> {..<mem_next H}" using source_later [OF assms(3,2)] by auto
  have c: "grown H H1" "val H1 g' = val H g" "cells H1 g' \<subseteq> fresh H H1"
    using copies [OF assms(1) grown_ok [OF assms(2)] src(2)] by auto
  have le: "fresh H H2 \<subseteq> fresh H0 H2" for H2 using grown_next [OF assms(2)] by auto
  show "grown H0 H1" "grown H H1" using c(1) grown_trans [OF assms(2)] by blast+
  show "grown H1 H2 \<Longrightarrow> val H2 g' = val H0 g" "grown H1 H2 \<Longrightarrow> cells H2 g' \<subseteq> fresh H0 H2"
    using copy_later [OF c(3)] c(2) src(1) le by fastforce+
qed

text \<open>Whatever happens to the copy leaves the original as it was, and the other way round.\<close>

lemma separate:
  assumes "copy g H = (g', H')" and "memory_ok H" and "cells H g \<subseteq> {..<mem_next H}"
  shows "cells H' g' \<inter> cells H' g = {} \<and>
    (\<forall>H''. agree (- cells H' g') H' H'' \<longrightarrow> val H'' g = val H g) \<and>
    (\<forall>H''. agree (cells H' g') H' H'' \<longrightarrow> val H'' g' = val H g)"
proof -
  have c: "grown H H'" "val H' g' = val H g" "cells H' g' \<subseteq> fresh H H'" using copies [OF assms] by auto
  have g: "val H' g = val H g" "cells H' g = cells H g" using source_later [OF assms(3) c(1)] by auto
  have disj: "cells H' g' \<inter> cells H' g = {}" using c(3) g(2) assms(3) by fastforce
  then have "cells H' g \<subseteq> - cells H' g'" by auto
  then show ?thesis using disj rests [of H' g] rests [of H' g'] agree_mono g(1) c(2) by metis
qed

end

text \<open>Arrays of items that can be copied, and pointers to such an item.\<close>

locale array_copier = copier val cells copy
  for val :: "memory \<Rightarrow> 'g \<Rightarrow> 'v" and cells :: "memory \<Rightarrow> 'g \<Rightarrow> addr set" and copy :: "'g \<Rightarrow> memory \<Rightarrow> 'g \<times> memory" +
  fixes get :: "cell \<Rightarrow> 'g list option" and mk :: "'g list \<Rightarrow> cell"
  assumes get_mk: "get (mk gs) = Some gs"
begin

lemma slice_rests:
  assumes "agree (slice_cells get cells H s) H H'"
  shows "slice_val get val H' s = slice_val get val H s \<and> slice_cells get cells H' s = slice_cells get cells H s"
proof (cases s)
  case (Slice a off n)
  then have "fmlookup (mem_cells H') a = fmlookup (mem_cells H) a" using assms by (simp add: slice_cells_def agree_def)
  then have same: "items get H' s = items get H s" using Slice by (simp add: items_def)
  have "val H' g = val H g \<and> cells H' g = cells H g" if "g \<in> set (items get H s)" for g
    by (rule rests, rule agree_mono [OF assms]) (use that Slice in \<open>auto simp: slice_cells_def\<close>)
  then show ?thesis using Slice same by (auto simp: slice_val_def slice_cells_def)
qed (simp add: slice_val_def slice_cells_def items_def)

lemma slice_copies:
  assumes "slice_copy get mk copy s H = (s', H')" and "memory_ok H" and "slice_cells get cells H s \<subseteq> {..<mem_next H}"
  shows "grown H H' \<and> slice_val get val H' s' = slice_val get val H s \<and> slice_cells get cells H' s' \<subseteq> fresh H H'"
proof -
  obtain gs H1 where all: "copy_all copy (items get H s) H = (gs, H1)" by fastforce
  obtain a H2 where al: "alloc (mk gs) H1 = (a, H2)" by fastforce
  have r: "s' = Slice a 0 (length gs)" "H' = H2" using assms(1) all al by (auto simp: slice_copy_def)
  have "(\<Union>g\<in>set (items get H s). cells H g) \<subseteq> {..<mem_next H}"
    using assms(3) by (cases s) (auto simp: slice_cells_def items_def)
  note c = copies_all [OF all assms(2) this]
  then have ok: "memory_ok H1" and le: "mem_next H \<le> mem_next H1" by (auto simp: grown_def)
  note al' = alloc_grown [OF al ok]
  have its: "items get H2 s' = gs" using al' r by (simp add: items_def get_mk)
  have later: "val H2 g = val H1 g \<and> cells H2 g \<subseteq> fresh H H2" if "g \<in> set gs" for g
    using copy_later [of H1 g H H2] c al' that by auto
  have "slice_val get val H2 s' = slice_val get val H s"
    using c later its by (simp add: slice_val_def) (metis (no_types, lifting) map_eq_conv)
  moreover have "slice_cells get cells H2 s' \<subseteq> fresh H H2"
    using later its al' le r by (auto simp: slice_cells_def)
  moreover have "grown H H2" using c al' grown_trans by blast
  ultimately show ?thesis using r by simp
qed

end

sublocale array_copier \<subseteq> slices: copier "slice_val get val" "slice_cells get cells" "slice_copy get mk copy"
  by unfold_locales (use slice_rests slice_copies in auto)

sublocale array_copier \<subseteq> slices_nil: copier "slice_val get val" "slice_cells get cells" "slice_copy_nil get mk copy"
  by unfold_locales (use slice_rests slice_copies in \<open>auto simp: slice_copy_nil_def slice_cells_def split: if_splits\<close>)

locale target_copier = copier val cells copy
  for val :: "memory \<Rightarrow> 'g \<Rightarrow> 'v" and cells :: "memory \<Rightarrow> 'g \<Rightarrow> addr set" and copy :: "'g \<Rightarrow> memory \<Rightarrow> 'g \<times> memory" +
  fixes get :: "cell \<Rightarrow> 'g option" and mk :: "'g \<Rightarrow> cell"
  assumes get_mk: "get (mk g) = Some g"
begin

lemma ptr_rests:
  assumes "agree (ptr_cells get cells H p) H H'"
  shows "ptr_val get val H' p = ptr_val get val H p \<and> ptr_cells get cells H' p = ptr_cells get cells H p"
proof (cases p)
  case (Some a)
  then have "fmlookup (mem_cells H') a = fmlookup (mem_cells H) a" using assms by (simp add: ptr_cells_def agree_def)
  then have same: "target get H' p = target get H p" using Some by (simp add: target_def)
  have "val H' g = val H g \<and> cells H' g = cells H g" if "target get H p = Some g" for g
    by (rule rests, rule agree_mono [OF assms]) (use that Some in \<open>auto simp: ptr_cells_def\<close>)
  then show ?thesis using Some same by (auto simp: ptr_val_def ptr_cells_def split: option.split)
qed (simp add: ptr_val_def ptr_cells_def target_def)

lemma ptr_copies:
  assumes "ptr_copy get mk copy p H = (p', H')" and "memory_ok H" and "ptr_cells get cells H p \<subseteq> {..<mem_next H}"
  shows "grown H H' \<and> ptr_val get val H' p' = ptr_val get val H p \<and> ptr_cells get cells H' p' \<subseteq> fresh H H'"
proof (cases "target get H p")
  case None
  then show ?thesis using assms by (auto simp: ptr_copy_def ptr_val_def target_def ptr_cells_def)
next
  case (Some g)
  obtain g' H1 where cp: "copy g H = (g', H1)" by fastforce
  obtain a H2 where al: "alloc (mk g') H1 = (a, H2)" by fastforce
  have r: "p' = Some a" "H' = H2" using assms(1) Some cp al by (auto simp: ptr_copy_def)
  have "cells H g \<subseteq> {..<mem_next H}" using assms(3) Some by (cases p) (auto simp: ptr_cells_def target_def)
  note c = copies [OF cp assms(2) this]
  then have ok: "memory_ok H1" and le: "mem_next H \<le> mem_next H1" by (auto simp: grown_def)
  note al' = alloc_grown [OF al ok]
  have "target get H2 p' = Some g'" using al' r by (simp add: target_def get_mk)
  moreover have "val H2 g' = val H1 g' \<and> cells H2 g' \<subseteq> fresh H H2" using copy_later [of H1 g' H H2] c al' by auto
  moreover have "grown H H2" using c al' grown_trans by blast
  ultimately show ?thesis using c al' le r Some by (auto simp: ptr_val_def ptr_cells_def)
qed

end

sublocale target_copier \<subseteq> ptrs: copier "ptr_val get val" "ptr_cells get cells" "ptr_copy get mk copy"
  by unfold_locales (use ptr_rests ptr_copies in auto)

section \<open>The copies of the types\<close>

interpretation plain: copier same no_cells plain_copy
  by unfold_locales (auto simp: same_def no_cells_def plain_copy_def)

interpretation strings: array_copier same no_cells plain_copy get_strings Strings
  by unfold_locales simp

interpretation data: array_copier same no_cells plain_copy get_bytes Bytes
  by unfold_locales simp

interpretation annots: target_copier same no_cells plain_copy get_annots Annots
  by unfold_locales simp

interpretation platform: copier platform_val platform_cells platform_copy
proof
  fix H H' p
  assume "agree (platform_cells H p) H H'"
  then have "agree (slice_cells get_strings no_cells H (gp_osFeatures p)) H H'" "agree (slice_cells get_strings no_cells H (gp_features p)) H H'"
    by (auto simp: platform_cells_def agree_def)
  note r = this [THEN strings.slice_rests]
  show "platform_val H' p = platform_val H p \<and> platform_cells H' p = platform_cells H p"
    using r by (simp add: platform_val_def platform_cells_def)
next
  fix H H' p p'
  assume run: "platform_copy p H = (p', H')" and ok: "memory_ok H" and cells: "platform_cells H p \<subseteq> {..<mem_next H}"
  obtain os H1 where c1: "slice_copy_nil get_strings Strings plain_copy (gp_osFeatures p) H = (os, H1)" by fastforce
  obtain fs H2 where c2: "slice_copy_nil get_strings Strings plain_copy (gp_features p) H1 = (fs, H2)" by fastforce
  have r: "p' = p\<lparr>gp_osFeatures := os, gp_features := fs\<rparr>" "H' = H2" using run c1 c2 by (auto simp: platform_copy_def)
  have sub: "slice_cells get_strings no_cells H (gp_osFeatures p) \<subseteq> {..<mem_next H}"
    "slice_cells get_strings no_cells H (gp_features p) \<subseteq> {..<mem_next H}"
    using cells by (auto simp: platform_cells_def)
  note p1 = strings.slices_nil.copy_part [OF c1 grown_refl [OF ok] sub(1)]
  note p2 = strings.slices_nil.copy_part [OF c2 p1(1) sub(2)]
  have e: "grown H2 H2" using grown_refl [OF grown_ok [OF p2(1)]] .
  show "grown H H' \<and> platform_val H' p' = platform_val H p \<and> platform_cells H' p' \<subseteq> fresh H H'"
    using p2(1) p1(3,4) [OF p2(2)] p2(3,4) [OF e] unfolding r by (simp add: platform_val_def platform_cells_def)
qed

interpretation platforms: target_copier platform_val platform_cells platform_copy get_platform Pointed_platform
  by unfold_locales simp

interpretation desc: copier desc_val desc_cells desc_copy
proof
  fix H H' d
  assume a: "agree (desc_cells H d) H H'"
  then have "agree (slice_cells get_strings no_cells H (gd_urls d)) H H'" "agree (slice_cells get_bytes no_cells H (gd_data d)) H H'"
    "agree (ptr_cells get_platform platform_cells H (gd_platform d)) H H'" "agree (ptr_cells get_annots no_cells H (gd_annotations d)) H H'"
    by (auto simp: desc_cells_def agree_def)
  note r = this(1) [THEN strings.slice_rests] this(2) [THEN data.slice_rests] this(3) [THEN platforms.ptr_rests]
    this(4) [THEN annots.ptr_rests]
  show "desc_val H' d = desc_val H d \<and> desc_cells H' d = desc_cells H d"
    using r by (simp add: desc_val_def desc_cells_def annots_val_def)
next
  fix H H' d d'
  assume run: "desc_copy d H = (d', H')" and ok: "memory_ok H" and cells: "desc_cells H d \<subseteq> {..<mem_next H}"
  obtain us H1 where c1: "slice_copy_nil get_strings Strings plain_copy (gd_urls d) H = (us, H1)" by fastforce
  obtain b H2 where c2: "slice_copy_nil get_bytes Bytes plain_copy (gd_data d) H1 = (b, H2)" by fastforce
  obtain p H3 where c3: "ptr_copy get_platform Pointed_platform platform_copy (gd_platform d) H2 = (p, H3)" by fastforce
  obtain m H4 where c4: "ptr_copy get_annots Annots plain_copy (gd_annotations d) H3 = (m, H4)" by fastforce
  have r: "d' = d\<lparr>gd_urls := us, gd_data := b, gd_platform := p, gd_annotations := m\<rparr>" "H' = H4"
    using run c1 c2 c3 c4 by (auto simp: desc_copy_def)
  have sub: "slice_cells get_strings no_cells H (gd_urls d) \<subseteq> {..<mem_next H}"
    "slice_cells get_bytes no_cells H (gd_data d) \<subseteq> {..<mem_next H}"
    "ptr_cells get_platform platform_cells H (gd_platform d) \<subseteq> {..<mem_next H}"
    "ptr_cells get_annots no_cells H (gd_annotations d) \<subseteq> {..<mem_next H}"
    using cells by (auto simp: desc_cells_def)
  note p1 = strings.slices_nil.copy_part [OF c1 grown_refl [OF ok] sub(1)]
  note p2 = data.slices_nil.copy_part [OF c2 p1(1) sub(2)]
  note p3 = platforms.ptrs.copy_part [OF c3 p2(1) sub(3)]
  note p4 = annots.ptrs.copy_part [OF c4 p3(1) sub(4)]
  note e = grown_refl [OF grown_ok [OF p4(1)]] p4(2) grown_trans [OF p3(2) p4(2)]
    grown_trans [OF p2(2) grown_trans [OF p3(2) p4(2)]]
  show "grown H H' \<and> desc_val H' d' = desc_val H d \<and> desc_cells H' d' \<subseteq> fresh H H'"
    using p4(1) p1(3,4) [OF e(4)] p2(3,4) [OF e(3)] p3(3,4) [OF e(2)] p4(3,4) [OF e(1)] unfolding r
    by (simp add: desc_val_def desc_cells_def annots_val_def)
qed

interpretation descs: array_copier desc_val desc_cells desc_copy get_descs Descs
  by unfold_locales simp

interpretation pointed: target_copier desc_val desc_cells desc_copy get_pointed Pointed_desc
  by unfold_locales simp

interpretation index: copier index_val index_cells index_copy
proof
  fix H H' i
  assume a: "agree (index_cells H i) H H'"
  then have "agree (slice_cells get_descs desc_cells H (gi_manifests i)) H H'"
    "agree (ptr_cells get_pointed desc_cells H (gi_subject i)) H H'" "agree (ptr_cells get_annots no_cells H (gi_annotations i)) H H'"
    by (auto simp: index_cells_def agree_def)
  note r = this(1) [THEN descs.slice_rests] this(2) [THEN pointed.ptr_rests] this(3) [THEN annots.ptr_rests]
  show "index_val H' i = index_val H i \<and> index_cells H' i = index_cells H i"
    using r by (simp add: index_val_def index_cells_def annots_val_def)
next
  fix H H' i i'
  assume run: "index_copy i H = (i', H')" and ok: "memory_ok H" and cells: "index_cells H i \<subseteq> {..<mem_next H}"
  obtain ms H1 where c1: "slice_copy get_descs Descs desc_copy (gi_manifests i) H = (ms, H1)" by fastforce
  obtain b H2 where c2: "ptr_copy get_pointed Pointed_desc desc_copy (gi_subject i) H1 = (b, H2)" by fastforce
  obtain m H3 where c3: "ptr_copy get_annots Annots plain_copy (gi_annotations i) H2 = (m, H3)" by fastforce
  have r: "i' = i\<lparr>gi_manifests := ms, gi_subject := b, gi_annotations := m\<rparr>" "H' = H3"
    using run c1 c2 c3 by (auto simp: index_copy_def)
  have sub: "slice_cells get_descs desc_cells H (gi_manifests i) \<subseteq> {..<mem_next H}"
    "ptr_cells get_pointed desc_cells H (gi_subject i) \<subseteq> {..<mem_next H}"
    "ptr_cells get_annots no_cells H (gi_annotations i) \<subseteq> {..<mem_next H}"
    using cells by (auto simp: index_cells_def)
  note p1 = descs.slices.copy_part [OF c1 grown_refl [OF ok] sub(1)]
  note p2 = pointed.ptrs.copy_part [OF c2 p1(1) sub(2)]
  note p3 = annots.ptrs.copy_part [OF c3 p2(1) sub(3)]
  note e = grown_refl [OF grown_ok [OF p3(1)]] p3(2) grown_trans [OF p2(2) p3(2)]
  show "grown H H' \<and> index_val H' i' = index_val H i \<and> index_cells H' i' \<subseteq> fresh H H'"
    using p3(1) p1(3,4) [OF e(3)] p2(3,4) [OF e(2)] p3(3,4) [OF e(1)] unfolding r
    by (simp add: index_val_def index_cells_def annots_val_def)
qed

interpretation history: copier history_val history_cells history_copy
proof
  fix H H' h
  assume "agree (history_cells H h) H H'"
  then show "history_val H' h = history_val H h \<and> history_cells H' h = history_cells H h"
    using desc.rests [of H "gh_descriptor h" H'] by (simp add: history_val_def history_cells_def)
next
  fix H H' h h'
  assume "history_copy h H = (h', H')" "memory_ok H" "history_cells H h \<subseteq> {..<mem_next H}"
  then show "grown H H' \<and> history_val H' h' = history_val H h \<and> history_cells H' h' \<subseteq> fresh H H'"
    using desc.copies [of "gh_descriptor h" H "gh_descriptor h'" H']
    by (cases "desc_copy (gh_descriptor h) H") (auto simp: history_val_def history_cells_def history_copy_def simp del: atLeastLessThan_iff)
qed

interpretation histories: array_copier history_val history_cells history_copy get_histories Histories
  by unfold_locales simp

interpretation entry: copier entry_val entry_cells entry_copy
proof
  fix H H' e
  assume "agree (entry_cells H e) H H'"
  then show "entry_val H' e = entry_val H e \<and> entry_cells H' e = entry_cells H e"
    using histories.slice_rests [of H "snd e" H'] by (auto simp: entry_val_def entry_cells_def split: prod.split)
next
  fix H H' e e'
  assume "entry_copy e H = (e', H')" "memory_ok H" "entry_cells H e \<subseteq> {..<mem_next H}"
  then show "grown H H' \<and> entry_val H' e' = entry_val H e \<and> entry_cells H' e' \<subseteq> fresh H H'"
    using histories.slice_copies [of "snd e" H "snd e'" H']
    by (cases "slice_copy get_histories Histories history_copy (snd e) H")
      (auto simp: entry_val_def entry_cells_def entry_copy_def simp del: atLeastLessThan_iff split: prod.splits)
qed

section \<open>The history by tag\<close>

lemma history_entries_set: "set (history_entries m) = {(t, s). fmlookup m t = Some s}"
  by (auto simp: history_entries_def fmlookup_dom_iff image_iff)

lemma history_entries_val: "fmap_of_list (List.map (entry_val H) (history_entries m)) = fmmap (slice_val get_histories history_val H) m"
proof (rule fmap_ext)
  fix t
  have "List.map (entry_val H) (history_entries m) =
      List.map (\<lambda>t. (t, slice_val get_histories history_val H (the (fmlookup m t)))) (sorted_list_of_fset (fmdom m))"
    by (simp add: history_entries_def entry_val_def comp_def)
  then show "fmlookup (fmap_of_list (List.map (entry_val H) (history_entries m))) t =
      fmlookup (fmmap (slice_val get_histories history_val H) m) t"
    by (auto simp: fmlookup_of_list map_of_map_restrict restrict_map_def fmlookup_dom_iff)
qed

lemma fmap_of_list_entries: "fmmap (slice_val get_histories history_val H) (fmap_of_list es) = fmap_of_list (List.map (entry_val H) es)"
proof -
  have "List.map (apsnd (slice_val get_histories history_val H)) es = List.map (entry_val H) es"
    by (auto simp: entry_val_def)
  then show ?thesis unfolding fmmap_of_list by (rule arg_cong)
qed

interpretation history_map: copier history_map_val history_map_cells history_map_copy
proof
  fix H H' p
  assume a: "agree (history_map_cells H p) H H'"
  show "history_map_val H' p = history_map_val H p \<and> history_map_cells H' p = history_map_cells H p"
  proof (cases p)
    case (Some x)
    have "fmlookup (mem_cells H') x = fmlookup (mem_cells H) x" using a Some by (simp add: history_map_cells_def agree_def)
    then have same: "target get_history_map H' p = target get_history_map H p" using Some by (simp add: target_def)
    show ?thesis
    proof (cases "target get_history_map H p")
      case None
      then show ?thesis using same Some by (simp add: history_map_val_def history_map_cells_def)
    next
      case m: (Some m)
      have e: "entry_val H' e = entry_val H e \<and> entry_cells H' e = entry_cells H e" if "e \<in> set (history_entries m)" for e
        by (rule entry.rests, rule agree_mono [OF a]) (use that Some m in \<open>auto simp: history_map_cells_def\<close>)
      then have "List.map (entry_val H') (history_entries m) = List.map (entry_val H) (history_entries m)" by simp
      then have "fmmap (slice_val get_histories history_val H') m = fmmap (slice_val get_histories history_val H) m"
        using history_entries_val by metis
      then show ?thesis using same m Some e by (simp add: history_map_val_def history_map_cells_def)
    qed
  qed (simp add: history_map_val_def history_map_cells_def target_def)
next
  fix H H' p p'
  assume run: "history_map_copy p H = (p', H')" and ok: "memory_ok H" and cells: "history_map_cells H p \<subseteq> {..<mem_next H}"
  define m where "m = (case target get_history_map H p of None \<Rightarrow> fmempty | Some m \<Rightarrow> m)"
  obtain es H1 where all: "copy_all entry_copy (history_entries m) H = (es, H1)" by fastforce
  obtain a H2 where al: "alloc (History_map (fmap_of_list es)) H1 = (a, H2)" by fastforce
  have r: "p' = Some a" "H' = H2" using run all al by (auto simp: history_map_copy_def m_def [symmetric])
  have "(\<Union>e\<in>set (history_entries m). entry_cells H e) \<subseteq> {..<mem_next H}"
    using cells by (cases p) (auto simp: history_map_cells_def m_def history_entries_def target_def split: option.splits)
  note c = entry.copies_all [OF all ok this]
  then have ok1: "memory_ok H1" and le: "mem_next H \<le> mem_next H1" by (auto simp: grown_def)
  note al' = alloc_grown [OF al ok1]
  have tgt: "target get_history_map H2 p' = Some (fmap_of_list es)" using al' r by (simp add: target_def)
  have later: "entry_val H2 e = entry_val H1 e \<and> entry_cells H2 e \<subseteq> fresh H H2" if "e \<in> set es" for e
    using entry.copy_later [of H1 e H H2] c al' that by auto
  have "List.map (entry_val H2) es = List.map (entry_val H1) es" using later by auto
  also have "\<dots> = List.map (entry_val H) (history_entries m)" using c by simp
  finally have "history_map_val H2 p' = fmmap (slice_val get_histories history_val H) m"
    using tgt fmap_of_list_entries history_entries_val by (simp add: history_map_val_def)
  also have "\<dots> = history_map_val H p"
    by (simp add: history_map_val_def m_def split: option.split)
  finally have val: "history_map_val H2 p' = history_map_val H p" .
  have "set (history_entries (fmap_of_list es)) \<subseteq> set es"
    by (auto simp: history_entries_set dest: fmap_of_list_SomeD)
  then have "history_map_cells H2 p' \<subseteq> fresh H H2"
    using later al' le r tgt by (auto simp: history_map_cells_def dest!: subsetD)
  then show "grown H H' \<and> history_map_val H' p' = history_map_val H p \<and> history_map_cells H' p' \<subseteq> fresh H H'"
    using c al' val r grown_trans by blast
qed

section \<open>The index of a repository\<close>

interpretation layout: copier layout_val layout_cells layout_copy
proof
  fix H H' l
  assume a: "agree (layout_cells H l) H H'"
  then have "agree (index_cells H (gl_index l)) H H'" "agree (slice_cells get_descs desc_cells H (gl_childManifests l)) H H'"
    "agree (history_map_cells H (gl_history l)) H H'"
    by (auto simp: layout_cells_def agree_def)
  note r = this(1) [THEN index.rests] this(2) [THEN descs.slice_rests] this(3) [THEN history_map.rests]
  show "layout_val H' l = layout_val H l \<and> layout_cells H' l = layout_cells H l"
    using r by (simp add: layout_val_def layout_cells_def)
next
  fix H H' l l'
  assume run: "layout_copy l H = (l', H')" and ok: "memory_ok H" and cells: "layout_cells H l \<subseteq> {..<mem_next H}"
  obtain i H1 where c1: "index_copy (gl_index l) H = (i, H1)" by fastforce
  obtain cs H2 where c2: "slice_copy get_descs Descs desc_copy (gl_childManifests l) H1 = (cs, H2)" by fastforce
  obtain h H3 where c3: "history_map_copy (gl_history l) H2 = (h, H3)" by fastforce
  have r: "l' = \<lparr>gl_index = i, gl_history = h, gl_childManifests = cs\<rparr>" "H' = H3"
    using run c1 c2 c3 by (auto simp: layout_copy_def)
  have sub: "index_cells H (gl_index l) \<subseteq> {..<mem_next H}"
    "slice_cells get_descs desc_cells H (gl_childManifests l) \<subseteq> {..<mem_next H}"
    "history_map_cells H (gl_history l) \<subseteq> {..<mem_next H}"
    using cells by (auto simp: layout_cells_def)
  note p1 = index.copy_part [OF c1 grown_refl [OF ok] sub(1)]
  note p2 = descs.slices.copy_part [OF c2 p1(1) sub(2)]
  note p3 = history_map.copy_part [OF c3 p2(1) sub(3)]
  note e = grown_refl [OF grown_ok [OF p3(1)]] p3(2) grown_trans [OF p2(2) p3(2)]
  show "grown H H' \<and> layout_val H' l' = layout_val H l \<and> layout_cells H' l' \<subseteq> fresh H H'"
    using p3(1) p1(3,4) [OF e(3)] p2(3,4) [OF e(2)] p3(3,4) [OF e(1)] unfolding r
    by (simp add: layout_val_def layout_cells_def)
qed

text \<open>
  C26: The copy of an index reads as the index itself and shares no array, map or pointer target with
  it.  Changes of the memory behind the copy, such as a new annotation, an element of a slice or an
  entry of the history, leave the original as it was, and changes behind the original leave the copy.
\<close>

theorem layout_copy_separate:
  assumes "layout_copy l H = (l', H')" and "memory_ok H" and "layout_cells H l \<subseteq> {..<mem_next H}"
  shows "layout_val H' l' = layout_val H l \<and> layout_cells H' l' \<inter> layout_cells H' l = {} \<and>
    (\<forall>H''. agree (- layout_cells H' l') H' H'' \<longrightarrow> layout_val H'' l = layout_val H l) \<and>
    (\<forall>H''. agree (layout_cells H' l') H' H'' \<longrightarrow> layout_val H'' l' = layout_val H l)"
  using layout.copies [OF assms] layout.separate [OF assms] by blast

text \<open>An index with one entry, and the annotations of that entry.\<close>

definition wit_memory :: memory where
  "wit_memory = \<lparr>mem_cells = fmap_of_list
     [(0, Descs [\<lparr>gd_mediaType = ''m'', gd_digest = ''d'', gd_size = 7, gd_urls = NoSlice,
         gd_annotations = Some 1, gd_data = NoSlice, gd_platform = None, gd_artifactType = []\<rparr>]),
      (1, Annots (fmap_of_list [(''k'', ''v'')]))], mem_next = 2\<rparr>"

definition wit_layout :: go_layout where
  "wit_layout = \<lparr>gl_index = \<lparr>gi_schemaVersion = 2, gi_mediaType = [], gi_artifactType = [],
     gi_manifests = Slice 0 0 1, gi_subject = None, gi_annotations = None\<rparr>,
     gl_history = None, gl_childManifests = NoSlice\<rparr>"

lemmas copy_defs = layout_copy_def index_copy_def desc_copy_def history_map_copy_def slice_copy_def
  slice_copy_nil_def ptr_copy_def plain_copy_def alloc_def items_def target_def

lemmas cell_defs = layout_cells_def index_cells_def desc_cells_def history_map_cells_def slice_cells_def
  ptr_cells_def no_cells_def items_def target_def

lemma history_entries_empty: "history_entries fmempty = []"
  by (simp add: history_entries_def sorted_list_of_fset.rep_eq)

lemma wit_copy:
  "layout_copy wit_layout wit_memory =
     (wit_layout\<lparr>gl_index := (gl_index wit_layout)\<lparr>gi_manifests := Slice 3 0 1\<rparr>, gl_history := Some 5,
        gl_childManifests := Slice 4 0 0\<rparr>,
      \<lparr>mem_cells = fmap_of_list
         [(5, History_map fmempty), (4, Descs []),
          (3, Descs [\<lparr>gd_mediaType = ''m'', gd_digest = ''d'', gd_size = 7, gd_urls = NoSlice,
             gd_annotations = Some 2, gd_data = NoSlice, gd_platform = None, gd_artifactType = []\<rparr>]),
          (2, Annots (fmap_of_list [(''k'', ''v'')])),
          (0, Descs [\<lparr>gd_mediaType = ''m'', gd_digest = ''d'', gd_size = 7, gd_urls = NoSlice,
             gd_annotations = Some 1, gd_data = NoSlice, gd_platform = None, gd_artifactType = []\<rparr>]),
          (1, Annots (fmap_of_list [(''k'', ''v'')]))], mem_next = 6\<rparr>)"
  by (simp add: copy_defs history_entries_empty wit_layout_def wit_memory_def)

lemma wit_memory_cells: "memory_ok wit_memory" "layout_cells wit_memory wit_layout \<subseteq> {..<mem_next wit_memory}"
  by (simp_all add: memory_ok_def wit_memory_def wit_layout_def cell_defs)

lemma layout_copy_separate_witness:
  "(case layout_copy wit_layout wit_memory of (l', H') \<Rightarrow>
     gi_manifests (gl_index l') \<noteq> gi_manifests (gl_index wit_layout) \<and>
     layout_val H' l' = layout_val wit_memory wit_layout \<and>
     layout_cells H' l' \<inter> layout_cells H' wit_layout = {} \<and>
     layout_val (store 2 (Annots fmempty) H') wit_layout = layout_val wit_memory wit_layout)"
proof -
  obtain l' H' where c: "layout_copy wit_layout wit_memory = (l', H')" by fastforce
  have two: "2 \<in> layout_cells H' l'" and new: "gi_manifests (gl_index l') = Slice 3 0 1"
    using c unfolding wit_copy by (auto simp: wit_layout_def cell_defs)
  have "agree (- layout_cells H' l') H' (store 2 (Annots fmempty) H')"
    using two by (auto simp: agree_def store_def)
  then show ?thesis
    using layout_copy_separate [OF c wit_memory_cells] c new by (simp add: wit_layout_def)
qed

end
