(* ===== verification/GC_Schedule.thy ===== *)
theory GC_Schedule
  imports Mem_Invariant GC_Invariant
begin

text \<open>
  The schedule of the collector (\<open>gcTicker\<close> and \<open>gc\<close> of \<open>internal/store/mem.go\<close>).  A tick collects
  only the repositories that changed since the previous tick, less the grace period.  For a store
  without a directory this is shown to do what a collection of every repository would.
\<close>

section \<open>Collections that change nothing\<close>

text \<open>
  Two states in which the collector reads the same.  While it only reads, it does not change them, and
  when no blob is recent the time does not matter.
\<close>

definition none_recent :: "'s gc_ops \<Rightarrow> config_gc \<Rightarrow> time \<Rightarrow> 's \<Rightarrow> bool" where
  "none_recent G g now s \<longleftrightarrow> (\<forall>d m. fst (go_meta G d s) = Inr m \<longrightarrow> \<not> gc_recent g now m)"

locale gc_twins =
  fixes G :: "'s gc_ops" and twin :: "'s \<Rightarrow> 's \<Rightarrow> bool"
  assumes twin_get: "twin s t \<Longrightarrow> \<exists>x. go_get G d s = (x, s) \<and> go_get G d t = (x, t)"
    and twin_meta: "twin s t \<Longrightarrow> \<exists>m. go_meta G d s = (m, s) \<and> go_meta G d t = (m, t)"
    and twin_list: "twin s t \<Longrightarrow> \<exists>l. go_list G s = (l, s) \<and> go_list G t = (l, t)"
begin

lemma twin_recent:
  assumes "twin s t"
  shows "none_recent G g now s = none_recent G g now t"
proof -
  have "fst (go_meta G d s) = fst (go_meta G d t)" for d using twin_meta [OF assms, of d] by auto
  then show ?thesis by (simp add: none_recent_def)
qed

lemma twin_keep:
  assumes "twin s t" and "none_recent G g now s" and "none_recent G g now' t"
  shows "\<exists>k. gc_keep G g now d s = (k, s) \<and> gc_keep G g now' d t = (k, t)"
proof -
  obtain m where m: "go_meta G (d_digest d) s = (m, s)" "go_meta G (d_digest d) t = (m, t)"
    using twin_meta [OF assms(1)] by blast
  have "\<not> gc_recent g now x \<and> \<not> gc_recent g now' x" if "m = Inr x" for x
    using assms(2,3) m that unfolding none_recent_def by (metis fst_conv)
  then show ?thesis by (cases m) (auto simp: gc_keep_def gc_recent_def m)
qed

lemma twin_build_step:
  assumes "twin s t" and "none_recent G g now s" and "none_recent G g now' t"
    and "gc_build_step L G g now d (gb, s) = (gb', s')"
  shows "s' = s \<and> gc_build_step L G g now' d (gb, t) = (gb', t)"
proof -
  obtain k where k: "gc_keep G g now d s = (k, s)" "gc_keep G g now' d t = (k, t)"
    using twin_keep [OF assms(1-3)] by blast
  let ?dig = "case dig_parse L (subject_of d) of Some x \<Rightarrow> x | None \<Rightarrow> []"
  obtain r where r: "go_meta G ?dig s = (r, s)" "go_meta G ?dig t = (r, t)"
    using twin_meta [OF assms(1)] by blast
  obtain m where m: "go_meta G (d_digest d) s = (m, s)" "go_meta G (d_digest d) t = (m, t)"
    using twin_meta [OF assms(1)] by blast
  have old: "\<not> gc_recent g now x" "\<not> gc_recent g now' x" if "m = Inr x" for x
    using assms(2,3) m that unfolding none_recent_def by (metis fst_conv)+
  note st = assms(4) [unfolded gc_build_step_def Let_def split_conv k(1) r(1)]
  show ?thesis
    using st old m unfolding gc_build_step_def Let_def split_conv k(2) r(2)
    by (cases m) (auto split: if_split_asm)
qed

lemma twin_build:
  assumes "twin s t" and "none_recent G g now s" and "none_recent G g now' t"
  shows "fold (gc_build_step L G g now) ms (gb, s) = (gb', s') \<Longrightarrow>
    s' = s \<and> fold (gc_build_step L G g now') ms (gb, t) = (gb', t)"
proof (induction ms arbitrary: gb)
  case (Cons d ms)
  obtain gb1 s1 where st: "gc_build_step L G g now d (gb, s) = (gb1, s1)" by fastforce
  then show ?case using Cons.IH [of gb1] Cons.prems twin_build_step [OF assms st] by simp
qed simp

lemma twin_visit:
  assumes "twin s t" and "gc_visit L G subjects d seen s = (push, seen1, s')"
  shows "s' = s \<and> gc_visit L G subjects d seen t = (push, seen1, t)"
proof -
  obtain x where x: "go_get G (d_digest d) s = (x, s)" "go_get G (d_digest d) t = (x, t)"
    using twin_get [OF assms(1)] by blast
  show ?thesis
    using assms(2) unfolding gc_visit_def Let_def x split_conv
    by (auto split: if_split_asm sum.splits option.splits)
qed

lemma twin_mark:
  "gc_mark L G' subjects stack seen inIndex s = Some y \<Longrightarrow> G' = G \<longrightarrow> twin s t \<longrightarrow>
     snd (snd y) = s \<and> gc_mark L G subjects stack seen inIndex t = Some (fst y, fst (snd y), t)"
proof (induct L G' subjects stack seen inIndex s y rule: gc_mark.raw_induct [rotated -1, consumes 1])
  case (1 mark L G' subjects stack seen inIndex s y)
  show ?case
  proof (intro impI)
    assume G: "G' = G" and st: "twin s t"
    show "snd (snd y) = s \<and> gc_mark L G subjects stack seen inIndex t = Some (fst y, fst (snd y), t)"
    proof (cases stack)
      case Nil
      then show ?thesis using "1.hyps"(2) by (auto simp: gc_mark.simps)
    next
      case (Cons d rest)
      obtain push seen1 s1 where v: "gc_visit L G subjects d seen s = (push, seen1, s1)" using prod_cases3 by blast
      note v' = twin_visit [OF st v]
      have "mark L G subjects (push @ rest) seen1 (List.insert (d_digest d) inIndex) s = Some y"
        using "1.hyps"(2) Cons G v v' by simp
      from "1.hyps"(1) [OF this] show ?thesis using st Cons v' by (subst gc_mark.simps) simp
    qed
  qed
qed

end

text \<open>A deletion either leaves a mark that stays, or does nothing, in both states.\<close>

locale gc_idle = gc_twins G twin for G :: "'s gc_ops" and twin :: "'s \<Rightarrow> 's \<Rightarrow> bool" +
  fixes touched :: "'s \<Rightarrow> bool"
  assumes twin_delete: "twin s t \<Longrightarrow> touched (snd (go_delete G d s)) \<or> (snd (go_delete G d s) = s \<and> snd (go_delete G d t) = t)"
    and touched_meta: "touched s \<Longrightarrow> touched (snd (go_meta G d s))"
    and touched_delete: "touched s \<Longrightarrow> touched (snd (go_delete G d s))"
begin

lemma sweep_step_marks:
  assumes "gc_sweep_step L G g now rnow seen inIndex d (li, chg, s) = (li', chg', s')"
  shows "(chg \<longrightarrow> chg') \<and> (touched s \<longrightarrow> touched s')"
proof -
  obtain m s1 where m: "go_meta G d s = (m, s1)" by fastforce
  obtain u s2 where u: "go_delete G d s1 = (u, s2)" by fastforce
  have "touched s \<longrightarrow> touched s1 \<and> touched s2" using touched_meta [of s d] touched_delete [of s1 d] m u by auto
  then show ?thesis using assms unfolding gc_sweep_step_def split_conv m u by (auto split: if_split_asm sum.splits)
qed

lemma sweep_marks:
  "fold (gc_sweep_step L G g now rnow seen inIndex) dl (li, chg, s) = (li', chg', s') \<Longrightarrow>
     (chg \<longrightarrow> chg') \<and> (touched s \<longrightarrow> touched s')"
proof (induction dl arbitrary: li chg s)
  case (Cons d dl)
  obtain li1 chg1 s1 where st: "gc_sweep_step L G g now rnow seen inIndex d (li, chg, s) = (li1, chg1, s1)"
    using prod_cases3 by blast
  show ?case using Cons.IH [of li1 chg1 s1] Cons.prems sweep_step_marks [OF st] st by simp
qed simp

lemma sweep_step_idle:
  assumes "twin s t" and "none_recent G g now s" and "none_recent G g now' t"
    and "gc_sweep_step L G g now rnow seen inIndex d (li, False, s) = (li', False, s')" and "\<not> touched s'"
  shows "li' = li \<and> s' = s \<and> gc_sweep_step L G g now' rnow' seen inIndex d (li, False, t) = (li, False, t)"
proof -
  obtain m where m: "go_meta G d s = (m, s)" "go_meta G d t = (m, t)" using twin_meta [OF assms(1)] by blast
  have old: "\<not> gc_recent g now x" "\<not> gc_recent g now' x" if "m = Inr x" for x
    using assms(2,3) m that unfolding none_recent_def by (metis fst_conv)+
  obtain u s2 where u: "go_delete G d s = (u, s2)" by fastforce
  obtain v t2 where v: "go_delete G d t = (v, t2)" by fastforce
  show ?thesis
    using assms(4,5) old twin_delete [OF assms(1), of d] unfolding gc_sweep_step_def split_conv m u v
    by (cases m) (auto split: if_split_asm sum.splits)
qed

lemma sweep_idle:
  assumes "twin s t" and "none_recent G g now s" and "none_recent G g now' t"
  shows "fold (gc_sweep_step L G g now rnow seen inIndex) dl (li, False, s) = (li', False, s') \<Longrightarrow> \<not> touched s' \<Longrightarrow>
    li' = li \<and> s' = s \<and> fold (gc_sweep_step L G g now' rnow' seen inIndex) dl (li, False, t) = (li, False, t)"
proof (induction dl)
  case (Cons d dl)
  obtain li1 chg1 s1 where st: "gc_sweep_step L G g now rnow seen inIndex d (li, False, s) = (li1, chg1, s1)"
    using prod_cases3 by blast
  have rest: "fold (gc_sweep_step L G g now rnow seen inIndex) dl (li1, chg1, s1) = (li', False, s')"
    using Cons.prems(1) st by simp
  have "\<not> chg1" "\<not> touched s1" using sweep_marks [OF rest] Cons.prems(2) by auto
  then have "li1 = li \<and> s1 = s \<and> gc_sweep_step L G g now' rnow' seen inIndex d (li, False, t) = (li, False, t)"
    using sweep_step_idle [OF assms, of L rnow seen inIndex d li li1 s1] st by simp
  then show ?case using Cons.IH Cons.prems(2) rest \<open>\<not> chg1\<close> by simp
qed simp

end

lemma clean_marks: "fold (gc_clean_step L rnow ex) dl (li, True) = (li', chg) \<Longrightarrow> chg"
proof (induction dl arbitrary: li)
  case (Cons d dl)
  show ?case
    using Cons.prems Cons.IH [of li] Cons.IH [of "rm_desc L rnow (zero_descriptor\<lparr>d_digest := d\<rparr>) li"]
    by (simp add: gc_clean_step_def split: if_split_asm)
qed simp

lemma clean_idle: "fold (gc_clean_step L rnow ex) dl (li, chg) = (li', False) \<Longrightarrow>
    \<not> chg \<and> li' = li \<and> fold (gc_clean_step L rnow' ex) dl (li, False) = (li, False)"
proof (induction dl)
  case (Cons d dl)
  show ?case
  proof (cases "d \<in> ex")
    case True
    then have "gc_clean_step L r ex d (li, c) = (li, c)" for r c by (simp add: gc_clean_step_def)
    then show ?thesis using Cons by simp
  next
    case False
    then have "gc_clean_step L rnow ex d (li, chg) = (rm_desc L rnow (zero_descriptor\<lparr>d_digest := d\<rparr>) li, True)"
      by (simp add: gc_clean_step_def)
    then show ?thesis using Cons.prems clean_marks [of L rnow ex dl "rm_desc L rnow (zero_descriptor\<lparr>d_digest := d\<rparr>) li" li' False] by simp
  qed
qed simp

context gc_idle
begin

lemma collect_idle:
  assumes "twin s t" and "none_recent G g now s" and "none_recent G g now' t"
    and "repoGarbageCollect L G g now rnow li s = Some (Inr (li', False), s')" and "\<not> touched s'"
  shows "s' = s \<and> repoGarbageCollect L G g now' rnow' li t = Some (Inr (li, False), t)"
proof -
  obtain gb s1 where b: "gc_build_all L G g now (i_manifests li) s = (gb, s1)" by fastforce
  have b': "s1 = s" "gc_build_all L G g now' (i_manifests li) t = (gb, t)"
    using twin_build [OF assms(1-3)] b unfolding gc_build_all_def by blast+
  obtain seen inIndex s2 where m: "gc_mark L G (gb_subjects gb) (rev (gb_manifests gb)) {} (gb_inIndex gb) s = Some (seen, inIndex, s2)"
    using assms(4) b b'(1) by (cases "gc_mark L G (gb_subjects gb) (rev (gb_manifests gb)) {} (gb_inIndex gb) s")
      (auto simp: repoGarbageCollect_def)
  have m': "s2 = s" "gc_mark L G (gb_subjects gb) (rev (gb_manifests gb)) {} (gb_inIndex gb) t = Some (seen, inIndex, t)"
    using twin_mark [OF m] assms(1) by simp_all
  obtain l where l: "go_list G s = (l, s)" "go_list G t = (l, t)" using twin_list [OF assms(1)] by blast
  obtain dl where dl: "l = Inr dl" using assms(4) b b' m m' l by (cases l) (auto simp: repoGarbageCollect_def)
  obtain li1 chg1 s4 where sw: "fold (gc_sweep_step L G g now rnow seen inIndex) dl (li, False, s) = (li1, chg1, s4)"
    using prod_cases3 by blast
  have cl: "fold (gc_clean_step L rnow (set dl)) (map_order L inIndex) (li1, chg1) = (li', False)" "s4 = s'"
    using assms(4) b b' m m' l dl sw by (auto simp: repoGarbageCollect_def split: prod.splits)
  note idle = clean_idle [OF cl(1), of rnow']
  have "li1 = li \<and> s' = s \<and> fold (gc_sweep_step L G g now' rnow' seen inIndex) dl (li, False, t) = (li, False, t)"
    using sweep_idle [OF assms(1-3)] sw cl(2) idle assms(5) by simp
  then show ?thesis using b' m' l dl idle by (simp add: repoGarbageCollect_def)
qed

end

section \<open>A repository of the memory store\<close>

definition mem_twin :: "string \<Rightarrow> mem_store \<Rightarrow> mem_store \<Rightarrow> bool" where
  "mem_twin r s t \<longleftrightarrow> ms_conf t = ms_conf s \<and> (\<exists>m n. fmlookup (ms_repos s) r = Some m \<and> fmlookup (ms_repos t) r = Some n \<and>
     mr_path m = [] \<and> mr_path n = [] \<and> mr_blobs n = mr_blobs m)"

definition mem_touched :: "string \<Rightarrow> mem_store \<Rightarrow> bool" where
  "mem_touched r s \<longleftrightarrow> (\<exists>m. fmlookup (ms_repos s) r = Some m \<and> mr_timeMod m = ms_now s)"

interpretation mem_idle: gc_idle "mem_gc_ops L r" "mem_twin r" "mem_touched r" for L r
proof unfold_locales
  fix s t :: mem_store and d
  show "\<exists>x. go_get (mem_gc_ops L r) d s = (x, s) \<and> go_get (mem_gc_ops L r) d t = (x, t)" if "mem_twin r s t"
    using that by (auto simp: mem_twin_def mem_gc_ops_def mem_blobGet_def split: option.split)
  show "\<exists>x. go_meta (mem_gc_ops L r) d s = (x, s) \<and> go_meta (mem_gc_ops L r) d t = (x, t)" if "mem_twin r s t"
    using that by (auto simp: mem_twin_def mem_gc_ops_def mem_blobMeta_def split: option.split)
  show "\<exists>x. go_list (mem_gc_ops L r) s = (x, s) \<and> go_list (mem_gc_ops L r) t = (x, t)" if "mem_twin r s t"
    using that by (auto simp: mem_twin_def mem_gc_ops_def mem_blobList_def)
  show "mem_touched r (snd (go_delete (mem_gc_ops L r) d s)) \<or>
      (snd (go_delete (mem_gc_ops L r) d s) = s \<and> snd (go_delete (mem_gc_ops L r) d t) = t)" if "mem_twin r s t"
    using that by (auto simp: mem_twin_def mem_gc_ops_def mem_blobDelete_def mem_touched_def split: option.split)
  show "mem_touched r (snd (go_meta (mem_gc_ops L r) d s))" if "mem_touched r s"
    using that by (auto simp: mem_touched_def mem_gc_ops_def mem_blobMeta_def note_missing_def split: option.split os_res.split)
  show "mem_touched r (snd (go_delete (mem_gc_ops L r) d s))" if "mem_touched r s"
    using that by (auto simp: mem_touched_def mem_gc_ops_def mem_blobDelete_def split: option.split)
qed

text \<open>What a collection leaves of the repository, and that it leaves the rest alone.\<close>

definition mem_rest :: "string \<Rightarrow> mem_store \<Rightarrow> mem_store \<Rightarrow> bool" where
  "mem_rest r s s' \<longleftrightarrow> (\<forall>q. q \<noteq> r \<longrightarrow> fmlookup (ms_repos s') q = fmlookup (ms_repos s) q) \<and> ms_conf s' = ms_conf s \<and>
     ms_stop s' = ms_stop s \<and> ms_now s' = ms_now s \<and>
     (\<forall>m. fmlookup (ms_repos s) r = Some m \<longrightarrow> (\<exists>m'. fmlookup (ms_repos s') r = Some m' \<and> mr_path m' = mr_path m \<and>
        (mr_timeMod m' = mr_timeMod m \<or> mr_timeMod m' = ms_now s) \<and>
        (\<forall>d b. fmlookup (mr_blobs m') d = Some (Some b) \<longrightarrow> fmlookup (mr_blobs m) d = Some (Some b))))"

lemma mem_rest_refl [simp]: "mem_rest r s s"
  by (simp add: mem_rest_def)

lemma mem_rest_upd:
  assumes "mem_rest r s t"
    and "\<And>m. mr_path (f m) = mr_path m" "\<And>m. mr_timeMod (f m) = mr_timeMod m \<or> mr_timeMod (f m) = ms_now t"
    and "\<And>m d b. fmlookup (mr_blobs (f m)) d = Some (Some b) \<Longrightarrow> fmlookup (mr_blobs m) d = Some (Some b)"
  shows "mem_rest r s (upd_repo r f t)"
proof -
  have "\<exists>m'. fmlookup (ms_repos (upd_repo r f t)) r = Some m' \<and> mr_path m' = mr_path m \<and>
        (mr_timeMod m' = mr_timeMod m \<or> mr_timeMod m' = ms_now s) \<and>
        (\<forall>d b. fmlookup (mr_blobs m') d = Some (Some b) \<longrightarrow> fmlookup (mr_blobs m) d = Some (Some b))"
    if "fmlookup (ms_repos s) r = Some m" for m
  proof -
    obtain m1 where m1: "fmlookup (ms_repos t) r = Some m1" "mr_path m1 = mr_path m"
        "mr_timeMod m1 = mr_timeMod m \<or> mr_timeMod m1 = ms_now s"
        "\<forall>d b. fmlookup (mr_blobs m1) d = Some (Some b) \<longrightarrow> fmlookup (mr_blobs m) d = Some (Some b)"
      using assms(1) \<open>fmlookup (ms_repos s) r = Some m\<close> unfolding mem_rest_def by blast
    have now: "ms_now t = ms_now s" using assms(1) by (simp add: mem_rest_def)
    show ?thesis
    proof (intro exI conjI)
      show "fmlookup (ms_repos (upd_repo r f t)) r = Some (f m1)" using m1(1) by simp
      show "mr_path (f m1) = mr_path m" using assms(2) m1(2) by simp
      show "mr_timeMod (f m1) = mr_timeMod m \<or> mr_timeMod (f m1) = ms_now s" using assms(3) [of m1] m1(3) now by auto
      show "\<forall>d b. fmlookup (mr_blobs (f m1)) d = Some (Some b) \<longrightarrow> fmlookup (mr_blobs m) d = Some (Some b)"
        using assms(4) [of m1] m1(4) by blast
    qed
  qed
  then show ?thesis using assms(1) by (simp add: mem_rest_def)
qed

interpretation mem_gc_rest: gc_invariant "mem_gc_ops L r" "mem_rest r s0" for L r s0
proof unfold_locales
  fix s s' :: mem_store and d x m l u
  assume s: "mem_rest r s0 s"
  have miss: "mem_rest r s0 (note_missing r d s)"
    unfolding note_missing_def by (rule mem_rest_upd [OF s]) (auto split: if_splits)
  show "mem_rest r s0 s'" if "go_get (mem_gc_ops L r) d s = (x, s')"
    using that s miss by (auto simp: mem_gc_ops_def mem_blobGet_def split: if_split_asm option.splits os_res.splits)
  show "mem_rest r s0 s'" if "go_meta (mem_gc_ops L r) d s = (m, s')"
    using that s miss by (auto simp: mem_gc_ops_def mem_blobMeta_def split: if_split_asm option.splits os_res.splits)
  show "mem_rest r s0 s'" if "go_list (mem_gc_ops L r) s = (l, s')"
    using that s mem_inv_blobList [of L r s] by (simp add: mem_gc_ops_def)
  show "mem_rest r s0 s'" if "go_delete (mem_gc_ops L r) d s = (u, s')"
  proof -
    have "mem_rest r s0 (upd_repo r (\<lambda>m. m\<lparr>mr_blobs := (if mr_path m \<noteq> [] then fmupd d None (mr_blobs m) else fmdrop d (mr_blobs m)),
        mr_timeMod := ms_now s\<rparr>) s)"
      by (rule mem_rest_upd [OF s]) (auto split: if_splits)
    moreover have "mem_rest r s0 (upd_repo r (\<lambda>m. m\<lparr>mr_blobs := fmupd d None (mr_blobs m), mr_timeMod := ms_now s\<rparr>) s)"
      by (rule mem_rest_upd [OF s]) (auto split: if_splits)
    ultimately show ?thesis
      using that s by (simp add: mem_gc_ops_def mem_blobDelete_def split: if_split_asm option.splits)
  qed
qed

section \<open>What the schedule relies on\<close>

text \<open>\<open>start\<close> of \<open>mem.gc\<close>.\<close>

definition gc_start :: "config \<Rightarrow> time \<Rightarrow> time" where
  "gc_start conf prev =
     (let g = gc_gracePeriod (cs_gc (c_storage conf)) in if g > 0 then prev - g else prev)"

text \<open>From the time \<open>P\<close> on a collection of such a repository does nothing.\<close>

definition settled :: "lib \<Rightarrow> time \<Rightarrow> config \<Rightarrow> string \<Rightarrow> mem_repo \<Rightarrow> bool" where
  "settled L P conf r mr \<longleftrightarrow>
     (\<forall>t n. ms_conf t = conf \<and> fmlookup (ms_repos t) r = Some n \<and> mr_path n = [] \<and> mr_blobs n = mr_blobs mr \<and>
        mr_index n = mr_index mr \<and> P \<le> ms_now t \<longrightarrow> mem_repo_gc L r t = Some (Inr (), t))"

definition repo_kept :: "lib \<Rightarrow> time \<Rightarrow> config \<Rightarrow> time \<Rightarrow> string \<Rightarrow> mem_repo \<Rightarrow> bool" where
  "repo_kept L P conf now r mr \<longleftrightarrow> mr_path mr = [] \<and> mr_timeMod mr \<le> now \<and>
     (\<forall>d b. fmlookup (mr_blobs mr) d = Some (Some b) \<longrightarrow> mb_mod b \<le> mr_timeMod mr) \<and>
     (mr_timeMod mr < gc_start conf P \<longrightarrow> settled L P conf r mr)"

text \<open>\<open>P r\<close> is the tick at which the repository \<open>r\<close> was last looked at, \<open>n\<close> the time.\<close>

definition mem_kept :: "lib \<Rightarrow> (string \<Rightarrow> time) \<Rightarrow> time \<Rightarrow> mem_store \<Rightarrow> bool" where
  "mem_kept L P n s \<longleftrightarrow> order_ok L \<and> cs_rootDir (c_storage (ms_conf s)) = [] \<and> \<not> ms_stop s \<and> ms_now s = n \<and> 0 \<le> n \<and>
     (\<forall>r. P r \<le> n) \<and>
     (\<forall>r mr. fmlookup (ms_repos s) r = Some mr \<longrightarrow> repo_kept L (P r) (ms_conf s) n r mr)"

lemma gc_start_le: "gc_start conf P \<le> P"
  by (simp add: gc_start_def Let_def)

lemma settled_later: "settled L P conf r mr \<Longrightarrow> P \<le> P' \<Longrightarrow> settled L P' conf r mr"
  unfolding settled_def by fastforce

lemma settled_runs:
  assumes "mem_kept L P n s" and "fmlookup (ms_repos s) r = Some mr" and "mr_timeMod mr < gc_start (ms_conf s) (P r)"
  shows "mem_repo_gc L r s = Some (Inr (), s)"
  using assms unfolding mem_kept_def repo_kept_def settled_def by blast

lemma repo_kept_same:
  "repo_kept L P conf now r m \<Longrightarrow> mr_path m' = mr_path m \<Longrightarrow> mr_timeMod m' = mr_timeMod m \<Longrightarrow> mr_blobs m' = mr_blobs m \<Longrightarrow>
   mr_index m' = mr_index m \<Longrightarrow> repo_kept L P conf now r m'"
  by (simp add: repo_kept_def settled_def)

lemma repo_kept_touch:
  assumes "repo_kept L P conf now r m" and "P \<le> now" and "mr_path m' = mr_path m" and "mr_timeMod m' = now"
    and "\<And>d b. fmlookup (mr_blobs m') d = Some (Some b) \<Longrightarrow> fmlookup (mr_blobs m) d = Some (Some b) \<or> mb_mod b = now"
  shows "repo_kept L P' conf now r m' \<or> now < P'"
proof -
  have "mb_mod b \<le> now" if "fmlookup (mr_blobs m') d = Some (Some b)" for d b
    using assms(1) assms(5) [OF that] unfolding repo_kept_def by force
  then show ?thesis using assms(1-4) gc_start_le [of conf P'] by (auto simp: repo_kept_def)
qed

lemma kept_upd_repo:
  assumes "mem_kept L P n s"
    and "\<And>mr. repo_kept L (P r) (ms_conf s) (ms_now s) r mr \<Longrightarrow> repo_kept L (P r) (ms_conf s) (ms_now s) r (f mr)"
  shows "mem_kept L P n (upd_repo r f s)"
  using assms by (auto simp: mem_kept_def)

lemma kept_upd_same:
  assumes "mem_kept L P n s"
    and "\<And>mr. mr_path (f mr) = mr_path mr" "\<And>mr. mr_timeMod (f mr) = mr_timeMod mr" "\<And>mr. mr_blobs (f mr) = mr_blobs mr"
      "\<And>mr. mr_index (f mr) = mr_index mr"
  shows "mem_kept L P n (upd_repo r f s)"
  by (rule kept_upd_repo [OF assms(1)], erule repo_kept_same) (simp_all add: assms)

lemma kept_upd_touch:
  assumes "mem_kept L P n s"
    and "\<And>mr. mr_path (f mr) = mr_path mr" "\<And>mr. mr_timeMod (f mr) = ms_now s"
    and "\<And>mr d b. fmlookup (mr_blobs (f mr)) d = Some (Some b) \<Longrightarrow> fmlookup (mr_blobs mr) d = Some (Some b) \<or> mb_mod b = ms_now s"
  shows "mem_kept L P n (upd_repo r f s)"
proof (rule kept_upd_repo [OF assms(1)])
  fix mr assume "repo_kept L (P r) (ms_conf s) (ms_now s) r mr"
  moreover have "P r \<le> ms_now s" using assms(1) by (simp add: mem_kept_def)
  ultimately show "repo_kept L (P r) (ms_conf s) (ms_now s) r (f mr)"
    using repo_kept_touch [of L "P r" "ms_conf s" "ms_now s" r mr "f mr" "P r"] assms(2-4) by auto
qed

lemma mem_kept_frame:
  "ms_conf s' = ms_conf s \<Longrightarrow> ms_repos s' = ms_repos s \<Longrightarrow> ms_stop s' = ms_stop s \<Longrightarrow> ms_now s' = ms_now s \<Longrightarrow>
   mem_kept L P n s \<Longrightarrow> mem_kept L P n s'"
  by (simp add: mem_kept_def)

lemma upd_repo_twice: "upd_repo r f (upd_repo r g s) = upd_repo r (\<lambda>m. f (g m)) s"
  by (simp add: upd_repo_def split: option.split)

lemma kept_path: "mem_kept L P n s \<Longrightarrow> fmlookup (ms_repos s) r = Some mr \<Longrightarrow> mr_path mr = []"
  by (simp add: mem_kept_def repo_kept_def)

section \<open>The methods\<close>

lemma kept_blobGet: "mem_kept L P n s \<Longrightarrow> snd (mem_blobGet r d s) = s"
  by (auto simp: mem_blobGet_def split: option.split dest: kept_path)

lemma kept_done: "mem_kept L P n s \<Longrightarrow> mem_kept L P n (mem_done r s)"
  unfolding mem_done_def by (rule kept_upd_same) simp_all

lemma kept_indexInsert: "mem_kept L P n s \<Longrightarrow> mem_kept L P n (snd (mem_indexInsert L' r d cs s))"
  by (auto simp: mem_indexInsert_def intro: kept_upd_touch)

lemma kept_indexRemove: "mem_kept L P n s \<Longrightarrow> mem_kept L P n (snd (mem_indexRemove L' r d s))"
  by (auto simp: mem_indexRemove_def intro: kept_upd_touch)

lemma kept_blobDelete: "mem_kept L P n s \<Longrightarrow> mem_kept L P n (snd (mem_blobDelete r d s))"
  by (auto simp: mem_blobDelete_def split: option.split if_splits intro!: kept_upd_touch)

lemma kept_start_upload:
  assumes "mem_kept L P n s"
  shows "mem_kept L P n (snd (start_upload r mr bc sid s))"
proof -
  have "mem_kept L P n (s\<lparr>ms_next := k, ms_heap := h\<rparr>)" for k h by (rule mem_kept_frame [OF _ _ _ _ assms]) simp_all
  then have "mem_kept L P n (upd_repo r (\<lambda>m. m\<lparr>mr_timeMod := ms_now s, mr_uploads := c\<rparr>) (s\<lparr>ms_next := k, ms_heap := h\<rparr>))" for c k h
    by (rule kept_upd_touch) simp_all
  moreover have "mem_kept L P n (upd_repo r (\<lambda>m. m\<lparr>mr_uploads := c\<rparr>) s)" for c
    by (rule kept_upd_same [OF assms]) simp_all
  ultimately show ?thesis by (simp add: start_upload_def Let_def split: prod.split sum.split)
qed

lemma kept_blobCreate:
  assumes "mem_kept L P n s"
  shows "mem_kept L P n (snd (mem_blobCreate L' r opts s))"
proof -
  have "mem_kept L P n (s\<lparr>ms_rand := ids\<rparr>)" for ids by (rule mem_kept_frame [OF _ _ _ _ assms]) simp_all
  then show ?thesis using assms by (auto simp: mem_blobCreate_def kept_start_upload split: option.split sum.split list.split)
qed

lemma kept_blobSession: "mem_kept L P n s \<Longrightarrow> mem_kept L P n (snd (mem_blobSession r sid s))"
  by (auto simp: mem_blobSession_def split: option.split sum.split prod.split intro!: kept_upd_same)

lemma kept_upd_upload:
  assumes "mem_kept L P n s"
  shows "mem_kept L P n (upd_upload u f s)"
proof -
  have "mem_kept L P n (s\<lparr>ms_heap := h\<rparr>)" for h by (rule mem_kept_frame [OF _ _ _ _ assms]) simp_all
  then show ?thesis using assms by (simp add: upd_upload_def split: option.split)
qed

lemma kept_drop_session: "mem_kept L P n s \<Longrightarrow> mem_kept L P n (drop_session mu s)"
  unfolding drop_session_def by (rule kept_upd_same) simp_all

lemma kept_write: "mem_kept L P n s \<Longrightarrow> mem_kept L P n (snd (mem_write u p s))"
  by (auto simp: mem_write_def split: option.split sum.split prod.split intro!: kept_upd_upload kept_upd_same)

lemma kept_close: "mem_kept L P n s \<Longrightarrow> mem_kept L P n (snd (mem_close L' u s))"
  by (auto simp: mem_close_def Let_def upd_repo_twice split: option.split if_splits intro!: kept_drop_session kept_upd_touch)

lemma kept_cancel: "mem_kept L P n s \<Longrightarrow> mem_kept L P n (snd (mem_cancel u s))"
  by (auto simp: mem_cancel_def kept_drop_session split: option.split)

lemma kept_changeAlgorithm: "mem_kept L P n s \<Longrightarrow> mem_kept L P n (snd (mem_changeAlgorithm u a s))"
  by (auto simp: mem_changeAlgorithm_def kept_upd_upload split: option.split)

lemma kept_verify: "mem_kept L P n s \<Longrightarrow> mem_kept L P n (snd (mem_verify L' u d s))"
  by (auto simp: mem_verify_def Let_def kept_upd_upload split: option.split)

text \<open>A new repository has nothing to collect.\<close>

lemma empty_repo_settled:
  assumes "order_ok L" and "mr_blobs mr = fmempty" and "i_manifests (mr_index mr) = []"
  shows "settled L P conf r mr"
proof -
  have none: "map_order L [] = []"
    using assms(1) by (metis order_ok_def set_empty list.set(1))
  have "mem_repo_gc L r t = Some (Inr (), t)"
    if "fmlookup (ms_repos t) r = Some n" "mr_path n = []" "mr_blobs n = mr_blobs mr" "mr_index n = mr_index mr" for t n
    using that assms(2,3)
    by (simp add: mem_repo_gc_def repoGarbageCollect_def gc_build_all_def gc_mark.simps mem_gc_ops_def mem_blobList_def none
        sorted_list_of_fset.rep_eq)
  then show ?thesis by (auto simp: settled_def)
qed

lemma kept_repoGet:
  assumes "mem_kept L P n s"
  shows "mem_kept L P n (snd (mem_repoGet L' r s))"
proof (cases "fmlookup (ms_repos s) r")
  case None
  let ?mr = "new_mem_repo (ms_conf s) []"
  have "settled L (P r) (ms_conf s) r ?mr"
    using assms by (intro empty_repo_settled) (auto simp: mem_kept_def new_mem_repo_def empty_layout_def Let_def)
  then have "repo_kept L (P r) (ms_conf s) (ms_now s) r ?mr"
    using assms by (simp add: mem_kept_def repo_kept_def new_mem_repo_def Let_def)
  then have "mem_kept L P n (s\<lparr>ms_repos := fmupd r ?mr (ms_repos s)\<rparr>)" using assms by (auto simp: mem_kept_def)
  then show ?thesis
    using assms None unfolding mem_repoGet_def Let_def
    by (auto simp: mem_kept_def [of L P n s] intro!: kept_upd_same)
next
  case (Some mr)
  then show ?thesis using assms by (auto simp: mem_repoGet_def intro!: kept_upd_same)
qed

interpretation mem_kept: store_invariant "mem_ops L'" "mem_kept L P n" for L' L P n
  by unfold_locales
    (auto simp: kept_blobGet mem_indexGet_def split: option.split
      intro: kept_done kept_indexInsert kept_indexRemove kept_blobDelete kept_blobCreate kept_blobSession kept_write
        kept_close kept_cancel kept_changeAlgorithm kept_verify kept_repoGet)

section \<open>A tick\<close>

lemma mem_repo_gc_run:
  assumes "mem_kept L P n s" and "fmlookup (ms_repos s) r = Some mr"
  obtains li chg s1 where
    "repoGarbageCollect L (mem_gc_ops L r) (ms_gc s) (ms_now s) (ms_rnow s) (mr_index mr) s = Some (Inr (li, chg), s1)"
    "mem_repo_gc L r s = Some (Inr (), if chg then upd_repo r (\<lambda>m. m\<lparr>mr_index := li, mr_timeMod := ms_now s1\<rparr>) s1 else s1)"
    "mem_rest r s s1"
proof -
  have ok: "mem_gc_ok L r s" using assms kept_path by (auto simp: mem_gc_ok_def mem_kept_def)
  obtain x s1 where gc: "repoGarbageCollect L (mem_gc_ops L r) (ms_gc s) (ms_now s) (ms_rnow s) (mr_index mr) s = Some (x, s1)"
    using mem_gc.gc_ends [OF ok] by blast
  have list: "go_list (mem_gc_ops L r) t = (Inl e, t') \<Longrightarrow> False" for t t' e
    by (auto simp: mem_gc_ops_def mem_blobList_def Let_def split: option.splits)
  have "x \<noteq> Inl e" for e
    using gc by (auto simp: repoGarbageCollect_def split: prod.splits option.splits sum.splits dest: list)
  then obtain li chg where x: "x = Inr (li, chg)" by (cases x) auto
  show ?thesis
    by (rule that [OF gc [unfolded x]]) (use gc x assms(2) mem_gc_rest.keep_collect [OF gc mem_rest_refl] in
      \<open>simp_all add: mem_repo_gc_def\<close>)
qed

lemma mem_repo_gc_ends:
  assumes "mem_kept L P n s"
  shows "\<exists>s'. mem_repo_gc L r s = Some (Inr (), s') \<and> mem_rest r s s'"
proof (cases "fmlookup (ms_repos s) r")
  case None
  then show ?thesis by (simp add: mem_repo_gc_def)
next
  case (Some mr)
  show ?thesis
  proof (rule mem_repo_gc_run [OF assms Some])
    fix li chg s1
    assume "mem_repo_gc L r s = Some (Inr (), if chg then upd_repo r (\<lambda>m. m\<lparr>mr_index := li, mr_timeMod := ms_now s1\<rparr>) s1 else s1)"
      and "mem_rest r s s1"
    then show ?thesis by (auto intro: mem_rest_upd)
  qed
qed

lemma mem_repo_gc_idle:
  assumes "mem_kept L P n s" and "fmlookup (ms_repos s) r = Some mr" and "mem_repo_gc L r s = Some (x, s')" and "\<not> mem_touched r s'"
    and "none_recent (mem_gc_ops L r) (ms_gc s) (ms_now s) s"
    and "ms_conf t = ms_conf s" and "fmlookup (ms_repos t) r = Some tr" and "mr_path tr = []" and "mr_blobs tr = mr_blobs mr"
    and "mr_index tr = mr_index mr" and "none_recent (mem_gc_ops L r) (ms_gc t) (ms_now t) t"
  shows "mem_repo_gc L r t = Some (Inr (), t)"
proof (rule mem_repo_gc_run [OF assms(1,2)])
  fix li chg s1
  assume gc: "repoGarbageCollect L (mem_gc_ops L r) (ms_gc s) (ms_now s) (ms_rnow s) (mr_index mr) s = Some (Inr (li, chg), s1)"
    and run: "mem_repo_gc L r s = Some (Inr (), if chg then upd_repo r (\<lambda>m. m\<lparr>mr_index := li, mr_timeMod := ms_now s1\<rparr>) s1 else s1)"
    and rest: "mem_rest r s s1"
  have "\<not> chg" using run rest assms(2-4) by (auto simp: mem_touched_def mem_rest_def)
  moreover from this have "\<not> mem_touched r s1" using run assms(3,4) by simp
  moreover have "mem_twin r s t" using assms kept_path [OF assms(1,2)] by (simp add: mem_twin_def)
  ultimately show ?thesis
    using mem_idle.collect_idle [of r s t L "ms_gc s" "ms_now s" "ms_now t" L "ms_rnow s" "mr_index mr" li s1 "ms_rnow t"]
      gc assms by (simp add: mem_repo_gc_def)
qed

text \<open>Past the grace period no blob is recent, whenever the repository is looked at.\<close>

lemma old_not_recent:
  assumes "mr_timeMod mr < gc_start conf cur" and "cur \<le> ms_now t" and "cs_gc (c_storage conf) = ms_gc t"
    and "fmlookup (ms_repos t) r = Some n" and "mr_path n = []" and "mr_blobs n = mr_blobs mr"
    and "\<forall>d b. fmlookup (mr_blobs mr) d = Some (Some b) \<longrightarrow> mb_mod b \<le> mr_timeMod mr"
  shows "none_recent (mem_gc_ops L r) (ms_gc t) (ms_now t) t"
proof -
  have "\<not> gc_recent (ms_gc t) (ms_now t) m" if meta: "fst (go_meta (mem_gc_ops L r) d t) = Inr m" for d m
  proof -
    obtain b where "fmlookup (mr_blobs mr) d = Some (Some b)" "m = mb_mod b"
      using meta assms(4-6) by (auto simp: mem_gc_ops_def mem_blobMeta_def split: if_split_asm option.splits)
    then have "m < gc_start conf cur" using assms(1,7) by force
    then show ?thesis using assms(2,3) by (auto simp: gc_start_def gc_recent_def gc_cutoff_def Let_def split: if_splits)
  qed
  then show ?thesis by (simp add: none_recent_def)
qed

lemma kept_looked_at:
  assumes "mem_kept L P n s" and "cur \<le> ms_now s"
    and "\<And>mr. fmlookup (ms_repos s) r = Some mr \<Longrightarrow> repo_kept L cur (ms_conf s) (ms_now s) r mr"
  shows "mem_kept L (P(r := cur)) n s"
  using assms by (auto simp: mem_kept_def)

text \<open>A skipped repository, and one that is collected.\<close>

lemma tick_skips:
  assumes "mem_kept L P n s" and "P r \<le> cur" and "cur \<le> ms_now s" and "fmlookup (ms_repos s) r = Some mr"
    and "mr_timeMod mr < gc_start (ms_conf s) (P r)"
  shows "mem_kept L (P(r := cur)) n s"
proof (rule kept_looked_at [OF assms(1,3)])
  fix mr' assume "fmlookup (ms_repos s) r = Some mr'"
  then show "repo_kept L cur (ms_conf s) (ms_now s) r mr'"
    using assms settled_later [OF _ assms(2)] by (auto simp: mem_kept_def repo_kept_def)
qed

lemma tick_collects:
  assumes "mem_kept L P n s" and "P r \<le> cur" and "cur \<le> ms_now s"
  shows "\<exists>s'. mem_repo_gc L r s = Some (Inr (), s') \<and> mem_kept L (P(r := cur)) n s' \<and> ms_conf s' = ms_conf s \<and> ms_now s' = ms_now s \<and>
    (\<forall>q. fmlookup (ms_repos s') q = None \<longleftrightarrow> fmlookup (ms_repos s) q = None)"
proof -
  obtain s' where gc: "mem_repo_gc L r s = Some (Inr (), s')" and rest: "mem_rest r s s'"
    using mem_repo_gc_ends [OF assms(1)] by blast
  have frame: "ms_conf s' = ms_conf s" "ms_now s' = ms_now s" "ms_stop s' = ms_stop s"
    "q \<noteq> r \<Longrightarrow> fmlookup (ms_repos s') q = fmlookup (ms_repos s) q" for q
    using rest by (simp_all add: mem_rest_def)
  have "repo_kept L cur (ms_conf s') (ms_now s') r mr'" if r': "fmlookup (ms_repos s') r = Some mr'" for mr'
  proof (cases "fmlookup (ms_repos s) r")
    case None
    then show ?thesis using gc r' by (simp add: mem_repo_gc_def)
  next
    case (Some mr)
    have k: "repo_kept L (P r) (ms_conf s) (ms_now s) r mr" using assms(1) Some by (simp add: mem_kept_def)
    have m': "mr_path mr' = []" "mr_timeMod mr' = mr_timeMod mr \<or> mr_timeMod mr' = ms_now s"
      "\<And>d b. fmlookup (mr_blobs mr') d = Some (Some b) \<Longrightarrow> fmlookup (mr_blobs mr) d = Some (Some b)"
      using rest Some r' k by (auto simp: mem_rest_def repo_kept_def)
    have times: "mr_timeMod mr' \<le> ms_now s" "\<forall>d b. fmlookup (mr_blobs mr') d = Some (Some b) \<longrightarrow> mb_mod b \<le> mr_timeMod mr'"
      using m' k by (fastforce simp: repo_kept_def)+
    have "settled L cur (ms_conf s) r mr'" if old: "mr_timeMod mr' < gc_start (ms_conf s) cur"
    proof -
      have untouched: "\<not> mem_touched r s'"
        using old gc_start_le [of "ms_conf s" cur] assms(3) r' frame by (auto simp: mem_touched_def)
      have early: "mr_timeMod mr < gc_start (ms_conf s) cur"
        using m'(2) old untouched r' frame by (auto simp: mem_touched_def)
      have bound: "\<forall>d b. fmlookup (mr_blobs mr) d = Some (Some b) \<longrightarrow> mb_mod b \<le> mr_timeMod mr" using k by (simp add: repo_kept_def)
      have none: "none_recent (mem_gc_ops L r) (ms_gc t) (ms_now t) t"
        if "ms_conf t = ms_conf s" "cur \<le> ms_now t" "fmlookup (ms_repos t) r = Some n" "mr_path n = []" "mr_blobs n = mr_blobs mr" for t n
        by (rule old_not_recent [OF early that(2) _ that(3-5) bound]) (simp add: that(1))
      have none_s: "none_recent (mem_gc_ops L r) (ms_gc s) (ms_now s) s"
        using none [OF refl assms(3) Some kept_path [OF assms(1) Some] refl] .
      note idle = mem_repo_gc_idle [OF assms(1) Some gc untouched none_s]
      have "s' = s" using idle [OF refl Some kept_path [OF assms(1) Some] refl refl none_s] gc by simp
      then have "mr' = mr" using r' Some by simp
      then show ?thesis unfolding settled_def using idle none by blast
    qed
    then show ?thesis using m' times by (simp add: repo_kept_def frame)
  qed
  then have "mem_kept L (P(r := cur)) n s'" using assms(1,3) frame unfolding mem_kept_def by (metis fun_upd_apply)
  moreover have "fmlookup (ms_repos s') r = None \<longleftrightarrow> fmlookup (ms_repos s) r = None"
    using gc rest by (cases "fmlookup (ms_repos s) r") (auto simp: mem_repo_gc_def mem_rest_def)
  ultimately show ?thesis using gc frame by metis
qed

section \<open>The ticks of a server\<close>

text \<open>The collection that the schedule stands for: every repository, whenever it changed.\<close>

fun gc_every :: "lib \<Rightarrow> string list \<Rightarrow> mem_store \<Rightarrow> (unit res \<times> mem_store) option" where
  "gc_every L [] s = Some (Inr (), s)"
| "gc_every L (r # rs) s =
     (case mem_repo_gc L r s of
        None \<Rightarrow> None
      | Some (Inl e, s1) \<Rightarrow> Some (Inl e, s1)
      | Some (Inr _, s1) \<Rightarrow> gc_every L rs s1)"

lemma tick_loop:
  "mem_kept L P n s \<Longrightarrow> (\<forall>r. P r \<in> {prev, cur}) \<Longrightarrow> (\<forall>r \<in> set rs. P r = prev) \<Longrightarrow> distinct rs \<Longrightarrow> prev \<le> cur \<Longrightarrow> cur \<le> ms_now s \<Longrightarrow>
   gc_start (ms_conf s) prev = start \<Longrightarrow>
   \<exists>s'. mem_gc_loop L start rs s = Some (Inr (), s') \<and> gc_every L rs s = Some (Inr (), s') \<and>
     mem_kept L (\<lambda>r. if r \<in> set rs then cur else P r) n s' \<and>
     (\<forall>q. fmlookup (ms_repos s') q = None \<longleftrightarrow> fmlookup (ms_repos s) q = None)"
proof (induction rs arbitrary: P s)
  case (Cons r rs)
  have run: "\<not> ms_stop s" using Cons.prems(1) by (simp add: mem_kept_def)
  let ?P = "P(r := cur)"
  have P: "\<forall>q. ?P q \<in> {prev, cur}" "\<forall>q \<in> set rs. ?P q = prev" "distinct rs" "P r = prev" "P r \<le> cur"
    using Cons.prems(2-5) by auto
  have cur: "(\<lambda>q. if q \<in> set (r # rs) then cur else P q) = (\<lambda>q. if q \<in> set rs then cur else ?P q)" by auto
  show ?case
  proof (cases "\<exists>mr. fmlookup (ms_repos s) r = Some mr \<and> mr_timeMod mr < start")
    case True
    then obtain mr where mr: "fmlookup (ms_repos s) r = Some mr" "mr_timeMod mr < gc_start (ms_conf s) (P r)"
      using Cons.prems(7) P(4) by auto
    have "mem_kept L ?P n s" using tick_skips [OF Cons.prems(1) P(5) Cons.prems(6) mr] .
    from Cons.IH [OF this P(1-3) Cons.prems(5-7)] show ?thesis
      using mr run settled_runs [OF Cons.prems(1) mr] Cons.prems(7) P(4) unfolding cur by simp
  next
    case False
    obtain s1 where s1: "mem_repo_gc L r s = Some (Inr (), s1)" "mem_kept L ?P n s1" "ms_conf s1 = ms_conf s" "ms_now s1 = ms_now s"
      "\<forall>q. fmlookup (ms_repos s1) q = None \<longleftrightarrow> fmlookup (ms_repos s) q = None"
      using tick_collects [OF Cons.prems(1) P(5) Cons.prems(6)] by blast
    have "cur \<le> ms_now s1" "gc_start (ms_conf s1) prev = start" using s1(3,4) Cons.prems(6,7) by simp_all
    note IH = Cons.IH [OF s1(2) P(1-3) Cons.prems(5) this]
    show ?thesis
    proof (cases "fmlookup (ms_repos s) r")
      case None
      then have "s1 = s" using s1(1) by (simp add: mem_repo_gc_def)
      then show ?thesis using IH None run s1(1) unfolding cur by simp
    next
      case (Some mr)
      then show ?thesis using IH False run s1(1,5) unfolding cur by auto
    qed
  qed
qed simp

text \<open>What a tick collects: the repositories whose last change is not before its window.\<close>

definition changed_since :: "time \<Rightarrow> mem_store \<Rightarrow> string \<Rightarrow> bool" where
  "changed_since start s r \<longleftrightarrow> (\<exists>mr. fmlookup (ms_repos s) r = Some mr \<and> mr_timeMod mr \<ge> start)"

lemma repo_gc_others:
  assumes "mem_repo_gc L r s = Some (Inr (), s')"
  shows "(q \<noteq> r \<longrightarrow> fmlookup (ms_repos s') q = fmlookup (ms_repos s) q) \<and> ms_stop s' = ms_stop s"
proof (cases "fmlookup (ms_repos s) r")
  case None
  then show ?thesis using assms by (simp add: mem_repo_gc_def)
next
  case (Some mr)
  obtain i chg s1 where run:
    "repoGarbageCollect L (mem_gc_ops L r) (ms_gc s) (ms_now s) (ms_rnow s) (mr_index mr) s = Some (Inr (i, chg), s1)"
    "s' = (if chg then upd_repo r (\<lambda>m. m\<lparr>mr_index := i, mr_timeMod := ms_now s1\<rparr>) s1 else s1)"
    by (rule mem_repo_gc_outcome [OF assms Some])
  have "mem_rest r s s1" using mem_gc_rest.keep_collect [OF run(1) mem_rest_refl] .
  then show ?thesis using run(2) by (simp add: mem_rest_def)
qed

lemma loop_collects_changed:
  assumes "\<not> ms_stop s" and "distinct rs"
  shows "mem_gc_loop L start rs s = gc_every L (filter (changed_since start s) rs) s"
  using assms
proof (induction rs arbitrary: s)
  case (Cons r rs)
  show ?case
  proof (cases "changed_since start s r")
    case False
    then show ?thesis using Cons by (auto simp: changed_since_def split: option.split)
  next
    case True
    then obtain mr where mr: "fmlookup (ms_repos s) r = Some mr" "\<not> mr_timeMod mr < start"
      by (auto simp: changed_since_def)
    have rest: "mem_gc_loop L start rs s1 = gc_every L (filter (changed_since start s) rs) s1"
      if "mem_repo_gc L r s = Some (Inr (), s1)" for s1
    proof -
      have "fmlookup (ms_repos s1) x = fmlookup (ms_repos s) x" if "x \<in> set rs" for x
        using Cons.prems(2) that repo_gc_others [OF \<open>mem_repo_gc L r s = Some (Inr (), s1)\<close>, of x] by auto
      then have "filter (changed_since start s1) rs = filter (changed_since start s) rs"
        by (intro filter_cong) (simp_all add: changed_since_def)
      then show ?thesis using Cons.IH [of s1] Cons.prems repo_gc_others [OF that] by simp
    qed
    show ?thesis using True Cons.prems(1) mr rest by (auto split: option.split sum.split)
  qed
qed simp

text \<open>A tick with every repository: the schedule is exact, and its hypotheses hold again.\<close>

lemma tick_exact:
  assumes "mem_kept L (\<lambda>r. prev) n s" and "prev \<le> cur" and "cur \<le> ms_now s"
  shows "\<exists>s'. mem_gc L prev s = Some (Inr (), s') \<and>
    gc_every L (map_order L (sorted_list_of_fset (fmdom (ms_repos s)))) s = Some (Inr (), s') \<and> mem_kept L (\<lambda>r. cur) n s'"
proof -
  let ?rs = "map_order L (sorted_list_of_fset (fmdom (ms_repos s)))"
  have ok: "order_ok L" using assms(1) by (simp add: mem_kept_def)
  have rs: "distinct ?rs" "r \<in> set ?rs \<longleftrightarrow> fmlookup (ms_repos s) r \<noteq> None" for r
    using ok by (auto simp: order_ok_def fmlookup_dom_iff sorted_list_of_fset.rep_eq)
  obtain s' where s': "mem_gc_loop L (gc_start (ms_conf s) prev) ?rs s = Some (Inr (), s')" "gc_every L ?rs s = Some (Inr (), s')"
    "mem_kept L (\<lambda>r. if r \<in> set ?rs then cur else prev) n s'"
    "\<forall>q. fmlookup (ms_repos s') q = None \<longleftrightarrow> fmlookup (ms_repos s) q = None"
    using tick_loop [OF assms(1) _ _ rs(1) assms(2,3) refl] by auto
  have "cur \<le> ms_now s'" if "?rs = []" using s'(1) that assms(3) by simp
  moreover have "cur \<le> ms_now s'" if "r \<in> set ?rs" for r
    using s'(3) that unfolding mem_kept_def by metis
  ultimately have "cur \<le> ms_now s'" by (cases ?rs) auto
  then have "mem_kept L (\<lambda>r. cur) n s'" using s'(3,4) rs(2) unfolding mem_kept_def by (metis option.distinct(1))
  then show ?thesis using s'(1,2) by (auto simp: mem_gc_def gc_start_def Let_def)
qed

text \<open>
  What happens to a server: a request, a pruning of uploads, or a tick of the collector.  \<open>gcTicker\<close>
  reads the time \<open>cur\<close> of a tick from its channel, at the time \<open>now\<close>, and keeps it for the next.
\<close>

datatype timed_event =
    Request_at auth_file "string option" time request
  | Prune_at time string "string list" bool
  | Tick_at time time

fun timed_step :: "lib \<Rightarrow> auth_lib \<Rightarrow> timed_event \<Rightarrow> time \<times> mem_store server \<Rightarrow> (time \<times> mem_store server) option" where
  "timed_step L A (Request_at f rand now r) (prev, sv) =
     map_option (\<lambda>sv'. (prev, sv')) (server_step L A (SrvRequest f rand now r) sv)"
| "timed_step L A (Prune_at now r ks by_age) (prev, sv) =
     map_option (\<lambda>sv'. (prev, sv')) (server_step L A (SrvPrune now r ks by_age) sv)"
| "timed_step L A (Tick_at cur now) (prev, sv) =
     map_option (\<lambda>sv'. (cur, sv')) (server_step L A (SrvCollect now prev) sv)"

fun timed_run :: "lib \<Rightarrow> auth_lib \<Rightarrow> timed_event list \<Rightarrow> time \<times> mem_store server \<Rightarrow> (time \<times> mem_store server) option" where
  "timed_run L A [] x = Some x"
| "timed_run L A (e # es) x = (case timed_step L A e x of None \<Rightarrow> None | Some x' \<Rightarrow> timed_run L A es x')"

text \<open>The clock does not go back, and a tick is not read before its time.\<close>

fun in_order :: "time \<Rightarrow> time \<Rightarrow> timed_event list \<Rightarrow> bool" where
  "in_order prev t [] \<longleftrightarrow> True"
| "in_order prev t (Request_at f rand now r # es) \<longleftrightarrow> t \<le> now \<and> in_order prev now es"
| "in_order prev t (Prune_at now r ks by_age # es) \<longleftrightarrow> t \<le> now \<and> in_order prev now es"
| "in_order prev t (Tick_at cur now # es) \<longleftrightarrow> prev \<le> cur \<and> cur \<le> now \<and> t \<le> now \<and> in_order cur now es"

fun last_time :: "time \<Rightarrow> timed_event list \<Rightarrow> time" where
  "last_time t [] = t"
| "last_time t (Request_at f rand now r # es) = last_time now es"
| "last_time t (Prune_at now r ks by_age # es) = last_time now es"
| "last_time t (Tick_at cur now # es) = last_time now es"

definition server_kept :: "lib \<Rightarrow> time \<Rightarrow> time \<times> mem_store server \<Rightarrow> bool" where
  "server_kept L t = (\<lambda>(prev, sv). \<forall>s. sv_store sv = Some s \<longrightarrow> mem_kept L (\<lambda>r. prev) t s)"

lemma kept_at_time:
  assumes "mem_kept L P n s" and "n \<le> now"
  shows "mem_kept L P now (s\<lparr>ms_now := now\<rparr>)"
proof -
  have "repo_kept L (P r) (ms_conf s) now r mr" if "repo_kept L (P r) (ms_conf s) (ms_now s) r mr" for r mr
    using that assms by (auto simp: repo_kept_def mem_kept_def)
  moreover have "P r \<le> now" for r using assms order_trans [of "P r" n now] by (simp add: mem_kept_def)
  ultimately show ?thesis using assms by (auto simp: mem_kept_def)
qed

lemma server_kept_at: "server_kept L t (prev, sv) \<Longrightarrow> t \<le> now \<Longrightarrow> server_kept L now (prev, at_time now sv)"
  by (auto simp: server_kept_def at_time_def intro: kept_at_time)

lemma timed_step_kept:
  assumes "server_kept L t x" and "in_order (fst x) t (e # es)" and "timed_step L A e x = Some x'"
  shows "\<exists>now. server_kept L now x' \<and> in_order (fst x') now es \<and> last_time t (e # es) = last_time now es"
proof (cases x)
  case (Pair prev sv)
  show ?thesis
  proof (cases e)
    case (Request_at f rand now r)
    then obtain w sv' where run: "serveHTTP L (mem_ops L) A f rand now r (at_time now sv) new_rw = Some (sv', w)" and x': "x' = (prev, sv')"
      using assms(3) Pair by auto
    have "server_kept L now (prev, at_time now sv)" using server_kept_at assms(1,2) Pair Request_at by simp
    then have "server_kept L now x'"
    proof (cases "sv_store (at_time now sv)")
      case None
      then have "sv_store sv' = None" using run by (simp add: serveHTTP_def)
      then show ?thesis by (simp add: server_kept_def x')
    next
      case (Some s)
      then have "mem_kept L (\<lambda>r. prev) now s" using \<open>server_kept L now (prev, at_time now sv)\<close> by (simp add: server_kept_def)
      from mem_kept.keep_serveHTTP [OF Some this run] show ?thesis by (auto simp: server_kept_def x')
    qed
    then show ?thesis using assms(2) Request_at Pair x' by auto
  next
    case (Prune_at now r ks by_age)
    have "server_kept L now (prev, at_time now sv)" using server_kept_at assms(1,2) Pair Prune_at by simp
    moreover have "mem_kept L P n (mem_prune_uploads r ks by_age s)" if "mem_kept L P n s" for P n s
      unfolding mem_prune_uploads_def by (rule kept_upd_same [OF that]) simp_all
    ultimately have "server_kept L now x'" using assms(3) Prune_at Pair by (auto simp: server_kept_def)
    then show ?thesis using assms(2,3) Prune_at Pair by auto
  next
    case (Tick_at cur now)
    have k: "server_kept L now (prev, at_time now sv)" using server_kept_at assms(1,2) Pair Tick_at by simp
    have order: "prev \<le> cur" "cur \<le> now" using assms(2) Pair Tick_at by simp_all
    obtain sv' where st: "server_step L A (SrvCollect now prev) sv = Some sv'" and x': "x' = (cur, sv')"
      using assms(3) Pair Tick_at by auto
    have "server_kept L now x'"
    proof (cases "sv_store (at_time now sv)")
      case None
      then show ?thesis using st by (simp add: server_kept_def x' at_time_def)
    next
      case (Some s)
      have "mem_kept L (\<lambda>r. prev) now s" using k Some by (simp add: server_kept_def)
      moreover from this have "cur \<le> ms_now s" using order by (simp add: mem_kept_def)
      ultimately obtain s' where "mem_gc L prev s = Some (Inr (), s')" "mem_kept L (\<lambda>r. cur) now s'"
        using tick_exact order(1) by blast
      then show ?thesis using st Some by (auto simp: server_kept_def x')
    qed
    then show ?thesis using assms(2) Tick_at Pair x' by auto
  qed
qed

lemma timed_run_kept:
  "server_kept L t x \<Longrightarrow> in_order (fst x) t es \<Longrightarrow> timed_run L A es x = Some x' \<Longrightarrow> server_kept L (last_time t es) x'"
proof (induction es arbitrary: t x)
  case (Cons e es)
  obtain x1 where x1: "timed_step L A e x = Some x1" "timed_run L A es x1 = Some x'"
    using Cons.prems(3) by (auto split: option.splits)
  show ?case using timed_step_kept [OF Cons.prems(1,2) x1(1)] Cons.IH x1(2) by metis
qed simp

text \<open>
  C33: The collector of a memory store without a directory looks only at the repositories that changed
  since its previous tick, less the grace period, and misses nothing by it: after any requests,
  prunings and ticks, the next tick collects exactly the repositories whose last change is not before
  its window, and this does what a collection of every repository would.  (In the directory store an
  error of one repository ends the tick, which this does not cover.)
\<close>

theorem gc_schedule_exact:
  assumes "order_ok L" and "cs_rootDir (c_storage conf) = []" and "0 \<le> t0" and "in_order 0 t0 es"
    and "timed_run L A es (0, new_mem_server conf auth procTime t0 rand D) = Some (prev, sv)" and "sv_store sv = Some s"
    and "last_time t0 es \<le> now"
  shows "mem_gc L prev (s\<lparr>ms_now := now\<rparr>) =
      gc_every L (filter (changed_since (gc_start (ms_conf s) prev) s)
        (map_order L (sorted_list_of_fset (fmdom (ms_repos s))))) (s\<lparr>ms_now := now\<rparr>) \<and>
    mem_gc L prev (s\<lparr>ms_now := now\<rparr>) =
      gc_every L (map_order L (sorted_list_of_fset (fmdom (ms_repos s)))) (s\<lparr>ms_now := now\<rparr>)"
proof -
  let ?rs = "map_order L (sorted_list_of_fset (fmdom (ms_repos s)))" and ?t = "s\<lparr>ms_now := now\<rparr>"
  have "server_kept L t0 (0, new_mem_server conf auth procTime t0 rand D)"
    using assms(1-3) by (auto simp: server_kept_def mem_kept_def new_mem_server_def new_server_def newMem_def Let_def
        setDefaults_def setDefaults_storage_def split: store_type.splits)
  from timed_run_kept [OF this _ assms(5)] have "mem_kept L (\<lambda>r. prev) (last_time t0 es) s"
    using assms(4,6) by (simp add: server_kept_def)
  from kept_at_time [OF this assms(7)] have k: "mem_kept L (\<lambda>r. prev) now ?t" .
  then have "prev \<le> ms_now ?t" "\<not> ms_stop ?t" by (simp_all add: mem_kept_def)
  moreover have "distinct ?rs" using assms(1) by (simp add: order_ok_def sorted_list_of_fset.rep_eq)
  ultimately have "mem_gc_loop L start ?rs ?t = gc_every L (filter (changed_since start ?t) ?rs) ?t" for start
    by (intro loop_collects_changed)
  moreover have "changed_since start ?t = changed_since start s" for start by (simp add: changed_since_def fun_eq_iff)
  ultimately have "mem_gc L prev ?t = gc_every L (filter (changed_since (gc_start (ms_conf s) prev) s) ?rs) ?t"
    by (simp add: mem_gc_def gc_start_def Let_def)
  moreover have "mem_gc L prev ?t = gc_every L ?rs ?t"
    using tick_exact [OF k order.refl \<open>prev \<le> ms_now ?t\<close>] by auto
  ultimately show ?thesis by blast
qed

text \<open>A push of a blob, and a tick an hour later.\<close>

definition demo_ticks :: "timed_event list" where
  "demo_ticks = [Request_at \<lparr>af_stat = None, af_open = None\<rparr> None 0 demo_post, Tick_at 3600000000000 3600000000000]"

lemma demo_timed_run:
  "\<exists>sv s. timed_run demo_lib demo_auth_lib demo_ticks (0, new_mem_server demo_conf NoAuth 0 0 [''sid''] no_backing) =
     Some (3600000000000, sv) \<and> sv_store sv = Some s"
proof -
  let ?x = "(0, new_mem_server demo_conf NoAuth 0 0 [''sid''] no_backing)" and ?e = "Request_at \<lparr>af_stat = None, af_open = None\<rparr> None 0 demo_post"
  obtain sv s where run: "timed_run demo_lib demo_auth_lib [?e] ?x = Some (0, sv)" and s: "sv_store sv = Some s"
    using demo_server_run by (auto split: option.splits)
  have "server_kept demo_lib 0 ?x"
    by (auto simp: server_kept_def mem_kept_def new_mem_server_def new_server_def newMem_def Let_def demo_conf_def
        setDefaults_def setDefaults_storage_def demo_lib_ok split: store_type.splits)
  from timed_run_kept [OF this _ run] have "mem_kept demo_lib (\<lambda>r. 0) 0 s" using s by (simp add: server_kept_def)
  from kept_at_time [OF this, of 3600000000000] have k: "mem_kept demo_lib (\<lambda>r. 0) 3600000000000 (s\<lparr>ms_now := 3600000000000\<rparr>)" by simp
  obtain s' where "mem_gc demo_lib 0 (s\<lparr>ms_now := 3600000000000\<rparr>) = Some (Inr (), s')"
    using tick_exact [OF k, of 3600000000000] by auto
  then show ?thesis using run s by (auto simp: demo_ticks_def at_time_def split: option.splits)
qed

lemma gc_schedule_exact_witness:
  "\<exists>sv s. timed_run demo_lib demo_auth_lib demo_ticks (0, new_mem_server demo_conf NoAuth 0 0 [''sid''] no_backing) =
     Some (3600000000000, sv) \<and> sv_store sv = Some s \<and>
     gc_every demo_lib (filter (changed_since (gc_start (ms_conf s) 3600000000000) s)
         (map_order demo_lib (sorted_list_of_fset (fmdom (ms_repos s))))) (s\<lparr>ms_now := 7200000000000\<rparr>) =
       gc_every demo_lib (map_order demo_lib (sorted_list_of_fset (fmdom (ms_repos s)))) (s\<lparr>ms_now := 7200000000000\<rparr>)"
proof -
  obtain sv s where run: "timed_run demo_lib demo_auth_lib demo_ticks (0, new_mem_server demo_conf NoAuth 0 0 [''sid''] no_backing) =
     Some (3600000000000, sv)" "sv_store sv = Some s"
    using demo_timed_run by blast
  let ?rs = "map_order demo_lib (sorted_list_of_fset (fmdom (ms_repos s)))" and ?t = "s\<lparr>ms_now := 7200000000000\<rparr>"
  have "mem_gc demo_lib 3600000000000 ?t =
      gc_every demo_lib (filter (changed_since (gc_start (ms_conf s) 3600000000000) s) ?rs) ?t \<and>
    mem_gc demo_lib 3600000000000 ?t = gc_every demo_lib ?rs ?t"
    by (rule gc_schedule_exact [OF _ _ _ _ run])
      (simp_all add: demo_lib_ok demo_ticks_def demo_conf_def setDefaults_def setDefaults_storage_def)
  then show ?thesis using run by metis
qed

end
