(* ===== verification/Session_Id.thy ===== *)
theory Session_Id
  imports Http
begin

text \<open>
  The identifiers the program makes up: the session of an upload (\<open>genSessionID\<close> in
  \<open>internal/store/store.go\<close>) and the opaque token of a login (\<open>config/auth.go\<close>) are random bytes in the
  URL-safe base64 without padding, which also carries the state of an upload in its location
  (\<open>blob.go\<close>).  The encoding keeps different bytes apart, and its text needs no escape in a URL.
\<close>

section \<open>base64.RawURLEncoding\<close>

text \<open>Three bytes make a number of 24 bits, which is written as four digits of 6 bits.\<close>

definition b64_alphabet :: string where
  "b64_alphabet = ''ABCDEFGHIJKLMNOPQRSTUVWXYZabcdefghijklmnopqrstuvwxyz0123456789-_''"

definition b64_digit :: "nat \<Rightarrow> char" where
  "b64_digit n = b64_alphabet ! (n mod 64)"

definition b64_value :: "char \<Rightarrow> nat option" where
  "b64_value c = index_func (\<lambda>x. x = c) b64_alphabet"

definition b64_sextets :: "char \<Rightarrow> char \<Rightarrow> char \<Rightarrow> nat list" where
  "b64_sextets a b c =
     (let v = of_char a * 65536 + of_char b * 256 + of_char c
      in [v div 262144 mod 64, v div 4096 mod 64, v div 64 mod 64, v mod 64])"

definition b64_octets :: "nat \<Rightarrow> nat \<Rightarrow> nat \<Rightarrow> nat \<Rightarrow> bytes" where
  "b64_octets p q r s =
     (let v = p * 262144 + q * 4096 + r * 64 + s in [char_of (v div 65536), char_of (v div 256), char_of v])"

text \<open>What is left at the end is filled with zeros, and the digits that hold none of it are dropped.\<close>

fun b64_encode :: "bytes \<Rightarrow> string" where
  "b64_encode [] = []"
| "b64_encode [a] = map b64_digit (take 2 (b64_sextets a (CHR 0x00) (CHR 0x00)))"
| "b64_encode [a, b] = map b64_digit (take 3 (b64_sextets a b (CHR 0x00)))"
| "b64_encode (a # b # c # bs) = map b64_digit (b64_sextets a b c) @ b64_encode bs"

text \<open>
  \<open>DecodeString\<close>: line ends are skipped, any other character must be a digit, and the bits that are
  left over at the end are not looked at.
\<close>

fun b64_bytes :: "nat list \<Rightarrow> bytes option" where
  "b64_bytes [] = Some []"
| "b64_bytes [p] = None"
| "b64_bytes [p, q] = Some (take 1 (b64_octets p q 0 0))"
| "b64_bytes [p, q, r] = Some (take 2 (b64_octets p q r 0))"
| "b64_bytes (p # q # r # s # ds) = map_option (\<lambda>bs. b64_octets p q r s @ bs) (b64_bytes ds)"

definition b64_decode :: "string \<Rightarrow> bytes option" where
  "b64_decode s =
     (let ds = map b64_value (filter (\<lambda>c. c \<noteq> CHR 0x0A \<and> c \<noteq> CHR 0x0D) s)
      in if None \<in> set ds then None else b64_bytes (map the ds))"

lemma length_b64_alphabet [simp]: "length b64_alphabet = 64"
  by (simp add: b64_alphabet_def)

lemma b64_digit_in [intro, simp]: "b64_digit n \<in> set b64_alphabet"
  by (simp add: b64_digit_def)

lemma set_b64_encode: "set (b64_encode bs) \<subseteq> set b64_alphabet"
  by (induction bs rule: b64_encode.induct) (auto simp: b64_sextets_def Let_def)

lemma length_b64_encode: "length (b64_encode bs) = (4 * length bs + 2) div 3"
  by (induction bs rule: b64_encode.induct) (simp_all add: b64_sextets_def Let_def)

lemma b64_values: "map (\<lambda>n. b64_value (b64_digit n)) [0..<64] = map Some [0..<64]"
  by code_simp

lemma b64_value_digit [simp]: "b64_value (b64_digit n) = Some (n mod 64)"
proof -
  have "map (\<lambda>n. b64_value (b64_digit n)) [0..<64] ! (n mod 64) = map Some [0..<64] ! (n mod 64)"
    by (simp only: b64_values)
  then show ?thesis by (simp add: b64_digit_def)
qed

lemma b64_value_in: "c \<in> set b64_alphabet \<Longrightarrow> b64_value c \<noteq> None"
proof -
  assume "c \<in> set b64_alphabet"
  then obtain n where "n < 64" "c = b64_alphabet ! n" by (auto simp: in_set_conv_nth)
  then have "c = b64_digit n" by (simp add: b64_digit_def)
  then show ?thesis by simp
qed

lemma b64_no_line_end: "CHR 0x0A \<notin> set b64_alphabet" "CHR 0x0D \<notin> set b64_alphabet"
  by (simp_all add: b64_alphabet_def)

lemma b64_digits_join:
  assumes "(v :: nat) < 16777216"
  shows "v div 262144 mod 64 * 262144 + v div 4096 mod 64 * 4096 + v div 64 mod 64 * 64 + v mod 64 = v"
proof -
  have "v mod 4096 = 64 * (v div 64 mod 64) + v mod 64" using mod_mult2_eq [of v 64 64] by simp
  moreover have "v mod 262144 = 4096 * (v div 4096 mod 64) + v mod 4096" using mod_mult2_eq [of v 4096 64] by simp
  moreover have "v mod 16777216 = 262144 * (v div 262144 mod 64) + v mod 262144" using mod_mult2_eq [of v 262144 64] by simp
  ultimately show ?thesis using assms by simp
qed

lemma char_of_low: "char_of (n * 256 + of_char c :: nat) = c"
proof -
  have "(n * 256 + of_char c :: nat) mod 256 = of_char c" by simp
  then show ?thesis by (metis char_of_char char_of_mod_256)
qed

lemma b64_octets_sextets:
  "b64_sextets a b c = [p, q, r, s] \<Longrightarrow> b64_octets p q r s = [a, b, c]"
proof -
  let ?v = "of_char a * 65536 + of_char b * 256 + of_char c :: nat"
  assume "b64_sextets a b c = [p, q, r, s]"
  moreover have v: "?v < 16777216"
    using nat_of_char_less_256 [of a] nat_of_char_less_256 [of b] nat_of_char_less_256 [of c] by linarith
  ultimately have "p * 262144 + q * 4096 + r * 64 + s = ?v"
    using b64_digits_join [OF v] by (auto simp: b64_sextets_def Let_def)
  moreover have "?v div 65536 = of_char a"
    using nat_of_char_less_256 [of b] nat_of_char_less_256 [of c] by linarith
  moreover have "?v div 256 = of_char a * 256 + of_char b" using nat_of_char_less_256 [of c] by linarith
  ultimately show ?thesis
    using char_of_low [of "of_char a" b] char_of_low [of "of_char a * 256 + of_char b" c]
    by (simp add: b64_octets_def algebra_simps)
qed

lemma b64_sextets_cases: obtains p q r s where "b64_sextets a b c = [p, q, r, s]" "p < 64" "q < 64" "r < 64" "s < 64"
  by (auto simp: b64_sextets_def Let_def)

lemma b64_sextets_zeros:
  "b64_sextets a b (CHR 0x00) = [p, q, r, s] \<Longrightarrow> s = 0"
  "b64_sextets a (CHR 0x00) (CHR 0x00) = [p, q, r, s] \<Longrightarrow> r = 0 \<and> s = 0"
proof -
  have "x * 65536 + y * 256 = 64 * (x * 1024 + y * 4)" "x * 65536 = 64 * (64 * (x * 16))" for x y :: nat by simp_all
  then have "(x * 65536 + y * 256) mod 64 = 0" "x * 65536 div 64 mod 64 = 0" for x y :: nat
    by (metis mod_mult_self1_is_0, metis mod_mult_self1_is_0 nonzero_mult_div_cancel_left zero_neq_numeral)
  then show "b64_sextets a b (CHR 0x00) = [p, q, r, s] \<Longrightarrow> s = 0"
    "b64_sextets a (CHR 0x00) (CHR 0x00) = [p, q, r, s] \<Longrightarrow> r = 0 \<and> s = 0"
    by (auto simp: b64_sextets_def Let_def)
qed

lemma b64_bytes_encode: "b64_bytes (map (the \<circ> b64_value) (b64_encode bs)) = Some bs"
proof (induction bs rule: b64_encode.induct)
  case (2 a)
  show ?case
    by (rule b64_sextets_cases [of a "CHR 0x00" "CHR 0x00"])
       (use b64_sextets_zeros(2) [of a] b64_octets_sextets [of a] in auto)
next
  case (3 a b)
  show ?case
    by (rule b64_sextets_cases [of a b "CHR 0x00"])
       (use b64_sextets_zeros(1) [of a b] b64_octets_sextets [of a b] in auto)
next
  case (4 a b c bs)
  show ?case
    by (rule b64_sextets_cases [of a b c]) (use 4 b64_octets_sextets [of a b c] in auto)
qed simp

lemma b64_roundtrip [simp]: "b64_decode (b64_encode bs) = Some bs"
proof -
  let ?ds = "b64_encode bs"
  have "filter (\<lambda>c. c \<noteq> CHR 0x0A \<and> c \<noteq> CHR 0x0D) ?ds = ?ds"
    using set_b64_encode [of bs] b64_no_line_end by (intro filter_True) auto
  moreover have "None \<notin> set (map b64_value ?ds)"
    using set_b64_encode [of bs] b64_value_in by fastforce
  ultimately show ?thesis using b64_bytes_encode [of bs] by (simp add: b64_decode_def)
qed

lemma b64_encode_inj: "b64_encode bs = b64_encode bs' \<longleftrightarrow> bs = bs'"
  by (metis b64_roundtrip option.inject)

text \<open>A text of digits stands in a URL as it is.\<close>

lemma b64_unreserved: "c \<in> set b64_alphabet \<Longrightarrow> unreserved c"
proof -
  have "list_all unreserved b64_alphabet" by code_simp
  then show "c \<in> set b64_alphabet \<Longrightarrow> unreserved c" by (simp add: list_all_iff)
qed

lemma escape_unreserved:
  "\<forall>c \<in> set s. unreserved c \<Longrightarrow> query_escape s = s \<and> path_escape s = s"
  by (induction s) (auto simp: query_escape_def path_escape_def)

lemma escape_b64: "query_escape (b64_encode bs) = b64_encode bs" "path_escape (b64_encode bs) = b64_encode bs"
  using escape_unreserved [of "b64_encode bs"] set_b64_encode [of bs] b64_unreserved by blast+

section \<open>Session IDs and tokens\<close>

text \<open>
  \<open>genSessionID\<close>, for the 16 bytes of the random source or its error; the stores take its results as
  the list of IDs to come.
\<close>

definition genSessionID :: "bytes res \<Rightarrow> string res" where
  "genSessionID rand = (case rand of Inl e \<Rightarrow> Inl e | Inr sb \<Rightarrow> Inr (b64_encode sb))"

text \<open>The token of \<open>tokenOpaqueGenerate\<close>, for the 128 bytes of the random source.\<close>

definition opaque_token :: "bytes option \<Rightarrow> string option" where
  "opaque_token rand = map_option b64_encode rand"

text \<open>
  The ID of a session is the name of a path segment on its own, of 22 characters, which needs no
  escape in a URL, and two sessions have the same one only if the random source repeats itself.
\<close>

theorem session_id_safe:
  assumes "genSessionID (Inr sb) = Inr sid" and "length sb = 16"
  shows "length sid = 22 \<and> proper_seg sid \<and> path_escape sid = sid \<and> query_escape sid = sid \<and>
    (genSessionID (Inr sb') = Inr sid \<longleftrightarrow> sb' = sb)"
proof -
  have sid: "sid = b64_encode sb" using assms(1) by (simp add: genSessionID_def)
  have len: "length sid = 22" using assms(2) by (simp add: sid length_b64_encode)
  have "CHR ''/'' \<notin> set b64_alphabet" by (simp add: b64_alphabet_def)
  then have "proper_seg sid" using len set_b64_encode [of sb] by (auto simp: proper_seg_def sid)
  then show ?thesis using len by (simp add: sid escape_b64 genSessionID_def b64_encode_inj)
qed

theorem session_id_safe_witness:
  "proper_seg (b64_encode (replicate 16 (CHR 0xFF)))"
  using session_id_safe [of "replicate 16 (CHR 0xFF)" "b64_encode (replicate 16 (CHR 0xFF))"] by (simp add: genSessionID_def)

lemma opaque_token_inj: "opaque_token (Some a) = opaque_token (Some b) \<longleftrightarrow> a = b"
  by (simp add: opaque_token_def b64_encode_inj)

section \<open>The state of an upload\<close>

text \<open>
  \<open>blobUploadState\<close> as \<open>json.Marshal\<close> writes it, in base64; and its reading, for a JSON decoder
  \<open>json\<close> of the struct.
\<close>

definition encode_state :: "int \<Rightarrow> string" where
  "encode_state off = b64_encode (''{'' @ [CHR 0x22] @ ''offset'' @ [CHR 0x22] @ '':'' @ show_int off @ ''}'')"

definition decode_state :: "(bytes \<Rightarrow> int option) \<Rightarrow> string \<Rightarrow> int option" where
  "decode_state json s = (case b64_decode s of None \<Rightarrow> None | Some b \<Rightarrow> json b)"

text \<open>
  The query of a location names the state without an escape, and it reads back as the offset, by any
  decoder that reads what the encoder writes.
\<close>

lemma state_roundtrip:
  assumes "json (''{'' @ [CHR 0x22] @ ''offset'' @ [CHR 0x22] @ '':'' @ show_int off @ ''}'') = Some off"
  shows "decode_state json (encode_state off) = Some off \<and> query_escape (encode_state off) = encode_state off"
  using assms by (simp add: decode_state_def encode_state_def escape_b64 del: append.simps)

end
