(* ===== verification/Commands.thy ===== *)
theory Commands
  imports Serve
begin

text \<open>
  The other commands of \<open>cmd/olareg\<close>: the log level of the root command, the password hashes of the
  command \<open>hash\<close> with \<open>PassHash\<close> of \<open>config/auth.go\<close>, the data of the command \<open>version\<close>
  (\<open>internal/version\<close>), and the log of requests (\<open>internal/httplog\<close>).  Cobra, the templates and the
  text of the log belong to other packages.
\<close>

section \<open>The hash of a password\<close>

datatype pass_algo = PassAlgoDefault | PassAlgoBcrypt

definition passHashBcrypt :: "auth_lib \<Rightarrow> string \<Rightarrow> string res" where
  "passHashBcrypt A input =
     (case al_generate A input of None \<Rightarrow> Inl (ErrOther ''bcrypt'') | Some b \<Rightarrow> Inr b)"

text \<open>\<open>PassHash\<close>: every algorithm is bcrypt.\<close>

definition passHash :: "auth_lib \<Rightarrow> string \<Rightarrow> pass_algo \<Rightarrow> string res" where
  "passHash A input algo = passHashBcrypt A input"

text \<open>The command \<open>hash\<close>: the line on its output.\<close>

definition hash_run :: "auth_lib \<Rightarrow> string \<Rightarrow> string res" where
  "hash_run A pass =
     (case passHash A pass PassAlgoDefault of
        Inl e \<Rightarrow> Inl (ErrOther ''failed to hash password'')
      | Inr hash \<Rightarrow> Inr (hash @ [CHR 0x0A]))"

text \<open>
  A user whose password in the configuration is the line that the command printed logs in with the
  password that was hashed, and with what bcrypt does not tell from it.
\<close>

theorem hash_command_login:
  assumes "bcrypt_ok A" and "hash_run A p = Inr (cred @ [CHR 0x0A])"
    and "fmlookup (ac_users conf) u = Some (Some \<lparr>au_cred = cred, au_groups = gs\<rparr>)"
  shows "checkCreds A conf u q = Some (bcrypt_key q = bcrypt_key p) \<and> length p \<le> 72"
proof -
  have "al_generate A p = Some cred"
    using assms(2) by (auto simp: hash_run_def passHash_def passHashBcrypt_def split: option.splits)
  then show ?thesis using assms(1,3) by (auto simp: bcrypt_ok_def checkCreds_def passValidate_def)
qed

theorem hash_command_login_witness:
  "checkCreds bcrypt_demo_lib (newAuthConf\<lparr>ac_users := fmupd ''alice''
      (Some \<lparr>au_cred = ''$2a$'' @ bcrypt_key ''pw'', au_groups = {||}\<rparr>) fmempty\<rparr>) ''alice'' ''pw'' = Some True"
  using hash_command_login [OF bcrypt_demo_ok, of "''pw''" "''$2a$'' @ bcrypt_key ''pw''"
      "newAuthConf\<lparr>ac_users := fmupd ''alice'' (Some \<lparr>au_cred = ''$2a$'' @ bcrypt_key ''pw'', au_groups = {||}\<rparr>) fmempty\<rparr>"
      "''alice''" "{||}" "''pw''"]
  by (simp add: hash_run_def passHash_def passHashBcrypt_def bcrypt_demo_lib_def)

text \<open>A password that bcrypt would cut is refused, by the command and by the static logins.\<close>

lemma hash_long_password: "bcrypt_ok A \<Longrightarrow> 72 < length p \<Longrightarrow> hash_run A p = Inl (ErrOther ''failed to hash password'')"
  by (cases "al_generate A p") (auto simp: bcrypt_ok_def hash_run_def passHash_def passHashBcrypt_def not_le [symmetric])

section \<open>The log level\<close>

definition upper_char :: "char \<Rightarrow> char" where
  "upper_char c = (let n = of_char c :: nat in if 97 \<le> n \<and> n \<le> 122 then char_of (n - 32) else c)"

text \<open>
  \<open>slog.Level.UnmarshalText\<close>: the name of a level in any case, and a number with its sign to add, in
  64 bits.
\<close>

definition wrap_int64 :: "int \<Rightarrow> int" where
  "wrap_int64 n = (n + 2 ^ 63) mod 2 ^ 64 - 2 ^ 63"

definition level_of_name :: "string \<Rightarrow> int option" where
  "level_of_name name =
     map_of [(''DEBUG'', - 4), (''INFO'', 0), (''WARN'', 4), (''ERROR'', 8)] (map upper_char name)"

definition level_unmarshal :: "string \<Rightarrow> int option" where
  "level_unmarshal s =
     (let (name, offset) = (case index_func (\<lambda>c. c = CHR ''+'' \<or> c = CHR ''-'') s of
            None \<Rightarrow> (s, (0, False))
          | Some i \<Rightarrow> (take i s, parse_int64 (drop i s)))
      in if snd offset then None else map_option (\<lambda>l. wrap_int64 (l + fst offset)) (level_of_name name))"

definition logTrace :: int where "logTrace = - 8"

text \<open>\<open>preRun\<close>: the level of the logger, or the error that ends the command.\<close>

definition preRun :: "string \<Rightarrow> int res" where
  "preRun levelStr =
     (case level_unmarshal levelStr of
        Some lvl \<Rightarrow> Inr lvl
      | None \<Rightarrow> if levelStr = to_lower ''trace'' then Inr logTrace
                else Inl (ErrOther ''unable to parse verbosity''))"

text \<open>
  The levels of the help text are accepted, in lower case and, but for the level of traces, in upper
  case; the check for that level lowers its constant and not the option.
\<close>

theorem preRun_levels:
  "map preRun [''trace'', ''debug'', ''info'', ''warn'', ''error''] = map Inr [- 8, - 4, 0, 4, 8]"
  "map preRun [''DEBUG'', ''INFO'', ''WARN'', ''ERROR'', ''debug-4''] = map Inr [- 4, 0, 4, 8, - 8]"
  "preRun ''TRACE'' = Inl (ErrOther ''unable to parse verbosity'')"
  by code_simp+

section \<open>The version\<close>

text \<open>What the build recorded: the version of the module and the settings, in order.\<close>

record build_info =
  bi_version :: string
  bi_settings :: "(string \<times> string) list"

record version_info =
  vi_goVer :: string
  vi_goCompiler :: string
  vi_platform :: string
  vi_vcsCommit :: string
  vi_vcsDate :: string
  vi_vcsRef :: string
  vi_vcsState :: string
  vi_vcsTag :: string
  vi_debug :: "build_info option"

record go_runtime =
  gr_version :: string
  gr_compiler :: string
  gr_os :: string
  gr_arch :: string

fun biSetting :: "(string \<times> string) list \<Rightarrow> string \<Rightarrow> string" where
  "biSetting [] key = ''unknown''"
| "biSetting ((k, v) # ss) key = (if k = key then v else biSetting ss key)"

text \<open>\<open>GetInfo\<close>, for what the runtime says of itself and the build information, if there is one.\<close>

definition add_build_info :: "lib \<Rightarrow> build_info \<Rightarrow> version_info \<Rightarrow> version_info" where
  "add_build_info L bi i =
     (let commit = biSetting (bi_settings bi) ''vcs.revision'';
          modified = biSetting (bi_settings bi) ''vcs.modified''
      in i\<lparr>vi_debug := Some bi,
           vi_vcsTag := (if vi_vcsTag i = [] then bi_version bi else vi_vcsTag i),
           vi_vcsDate := (case time_parse L (biSetting (bi_settings bi) ''vcs.time'') of
             Some t \<Rightarrow> time_format L t | None \<Rightarrow> vi_vcsDate i),
           vi_vcsCommit := commit,
           vi_vcsRef := (if modified = ''true'' then commit @ ''-dirty'' else commit),
           vi_vcsState := (if modified = ''true'' then ''dirty'' else if modified = ''false'' then ''clean''
             else vi_vcsState i)\<rparr>)"

definition getInfo :: "lib \<Rightarrow> go_runtime \<Rightarrow> string \<Rightarrow> build_info option \<Rightarrow> version_info" where
  "getInfo L rt vcsTag bi =
     (let i = \<lparr>vi_goVer = gr_version rt, vi_goCompiler = gr_compiler rt,
               vi_platform = gr_os rt @ CHR ''/'' # gr_arch rt,
               vi_vcsCommit = ''unknown'', vi_vcsDate = ''unknown'', vi_vcsRef = ''unknown'',
               vi_vcsState = ''unknown'', vi_vcsTag = vcsTag, vi_debug = None\<rparr>
      in case bi of None \<Rightarrow> i | Some b \<Rightarrow> add_build_info L b i)"

lemma biSetting_map_of: "biSetting ss key = (case map_of ss key of None \<Rightarrow> ''unknown'' | Some v \<Rightarrow> v)"
  by (induction ss key rule: biSetting.induct) auto

text \<open>
  The reference names a commit with changes on top exactly if the state says so, and without the
  settings of a version control system every field of it is unknown.
\<close>

theorem version_ref:
  "vi_vcsRef (getInfo L rt tag bi) =
     vi_vcsCommit (getInfo L rt tag bi) @ (if vi_vcsState (getInfo L rt tag bi) = ''dirty'' then ''-dirty'' else [])"
  by (cases bi) (auto simp: getInfo_def add_build_info_def Let_def)

lemma version_no_vcs:
  assumes "\<forall>k v. (k, v) \<in> set (bi_settings b) \<longrightarrow> k \<notin> {''vcs.time'', ''vcs.revision'', ''vcs.modified''}"
    and "time_parse L ''unknown'' = None"
  shows "vi_vcsCommit (getInfo L rt tag (Some b)) = ''unknown'' \<and> vi_vcsDate (getInfo L rt tag (Some b)) = ''unknown'' \<and>
    vi_vcsRef (getInfo L rt tag (Some b)) = ''unknown'' \<and> vi_vcsState (getInfo L rt tag (Some b)) = ''unknown''"
proof -
  have "map_of (bi_settings b) k = None" if "k \<in> {''vcs.time'', ''vcs.revision'', ''vcs.modified''}" for k
    using assms(1) that by (auto simp: map_of_eq_None_iff)
  then show ?thesis using assms(2) by (simp add: getInfo_def add_build_info_def biSetting_map_of Let_def)
qed

section \<open>The log of requests\<close>

text \<open>
  The response writer of \<open>httplog\<close> keeps the status of a \<open>WriteHeader\<close> and passes it on.  What a
  handler does with its writer is a list of calls.
\<close>

datatype rw_call = CallAdd string string | CallSet string string | CallWriteHeader nat | CallWrite chunk

fun do_call :: "rw_call \<Rightarrow> response_writer \<Rightarrow> response_writer" where
  "do_call (CallAdd k v) w = header_add k v w"
| "do_call (CallSet k v) w = header_set k v w"
| "do_call (CallWriteHeader code) w = writeHeader code w"
| "do_call (CallWrite c) w = writeBody c w"

record resp_wrap =
  wr_inner :: response_writer
  wr_status :: nat

fun wrap_call :: "rw_call \<Rightarrow> resp_wrap \<Rightarrow> resp_wrap" where
  "wrap_call (CallWriteHeader code) rw = rw\<lparr>wr_status := code, wr_inner := writeHeader code (wr_inner rw)\<rparr>"
| "wrap_call call rw = rw\<lparr>wr_inner := do_call call (wr_inner rw)\<rparr>"

record log_entry =
  le_method :: string
  le_url :: string
  le_status :: nat
  le_reqHeaders :: header
  le_respHeaders :: header

definition censor :: "header \<Rightarrow> header" where
  "censor h = (if hdr_get h ''Authorization'' \<noteq> [] then hdr_set ''Authorization'' ''[censored]'' h else h)"

text \<open>
  \<open>New\<close>: a logger that does not take the level leaves the handler as it is.  \<open>next_h\<close> is what the
  handler calls for the request, \<open>url\<close> the URL of the request as text.
\<close>

definition httplog :: "bool \<Rightarrow> string \<Rightarrow> request \<Rightarrow> rw_call list \<Rightarrow> response_writer \<Rightarrow> response_writer \<times> log_entry option" where
  "httplog enabled url r next_h w =
     (if \<not> enabled then (fold do_call next_h w, None)
      else let rw = fold wrap_call next_h \<lparr>wr_inner = w, wr_status = 200\<rparr>
           in (wr_inner rw, Some \<lparr>le_method = rq_method r, le_url = url, le_status = wr_status rw,
                 le_reqHeaders = censor (rq_header r), le_respHeaders = rw_header (wr_inner rw)\<rparr>))"

lemma wrap_call_inner [simp]: "wr_inner (wrap_call c rw) = do_call c (wr_inner rw)"
  by (cases c) simp_all

lemma wrap_calls_inner [simp]: "wr_inner (fold wrap_call calls rw) = fold do_call calls (wr_inner rw)"
  by (induction calls arbitrary: rw) simp_all

text \<open>The log does not change the response.\<close>

theorem httplog_transparent: "fst (httplog enabled url r calls w) = fold do_call calls w"
  by (simp add: httplog_def Let_def)

fun writes_header :: "rw_call \<Rightarrow> bool" where
  "writes_header (CallWriteHeader code) = True"
| "writes_header _ = False"

fun sets_header :: "rw_call \<Rightarrow> bool" where
  "sets_header (CallAdd k v) = True"
| "sets_header (CallSet k v) = True"
| "sets_header _ = False"

lemma wrap_calls_status: "\<forall>c \<in> set calls. \<not> writes_header c \<Longrightarrow> wr_status (fold wrap_call calls rw) = wr_status rw"
proof (induction calls arbitrary: rw)
  case (Cons c calls)
  then show ?case by (cases c) simp_all
qed simp

lemma calls_sent: "rw_sent w = Some (code, h) \<Longrightarrow> rw_sent (fold do_call calls w) = Some (code, h)"
proof (induction calls arbitrary: w)
  case (Cons c calls)
  from Cons.prems show ?case
    by (cases c) (auto intro!: Cons.IH simp: header_add_def header_set_def writeHeader_def writeBody_def Let_def)
qed simp

lemma calls_unsent: "\<forall>c \<in> set calls. sets_header c \<Longrightarrow> rw_sent (fold do_call calls w) = rw_sent w"
proof (induction calls arbitrary: w)
  case (Cons c calls)
  then show ?case by (cases c) (simp_all add: header_add_def header_set_def)
qed simp

text \<open>
  The status in the log is the status the client gets, for a handler that sets headers, calls
  \<open>WriteHeader\<close> once, and goes on without another call of it.
\<close>

theorem httplog_status:
  assumes "httplog True url r (pre @ CallWriteHeader code # post) w = (w', Some e)" and "rw_sent w = None"
    and "\<forall>c \<in> set pre. sets_header c" and "\<forall>c \<in> set post. \<not> writes_header c"
  shows "le_status e = rw_status w'"
proof -
  have "rw_sent (fold do_call pre w) = None" using calls_unsent assms(2,3) by simp
  then have "rw_status (fold do_call (pre @ CallWriteHeader code # post) w) = code"
    using calls_sent [of "writeHeader code (fold do_call pre w)" code] by (simp add: writeHeader_def rw_status_def)
  moreover have "le_status e = code" using assms(1,4) by (auto simp: httplog_def Let_def wrap_calls_status)
  ultimately show ?thesis using assms(1) by (auto simp: httplog_def Let_def)
qed

text \<open>
  The credentials a request is checked with are the first value of its header \<open>Authorization\<close>, and
  that value is not in the log.  A second value behind an empty one is.
\<close>

theorem log_hides_credentials:
  assumes "snd (httplog True url r calls w) = Some e" and "hdr_get (rq_header r) ''Authorization'' \<noteq> []"
  shows "hdr_values (le_reqHeaders e) ''Authorization'' = [''[censored]'']"
  using assms by (auto simp: httplog_def Let_def censor_def)

lemma log_second_value:
  "hdr_values (censor (hdr_add ''Authorization'' ''Basic abc'' (hdr_add ''Authorization'' [] fmempty))) ''Authorization'' =
     [[], ''Basic abc'']"
  by (simp add: censor_def hdr_get_def)

end
