(* ===== verification/Spec2Isabelle.thy ===== *)
theory Spec2Isabelle
  imports Manifest_Push Server_Access Upload_Session Mem_Load Rate_Limit Dir_Push Store_Locks
    Repo_Guard Mem_Index Dir_Convert Serve_Life Copies GC_Schedule
    Session_Id Commands
begin

text \<open>
  A model of \<open>olareg\<close>, an OCI registry server in Go, with the theorems that make it correct.

  How the program is put together.  \<open>Server.ServeHTTP\<close> (\<open>olareg.go\<close>) splits and cleans the path of
  a request, counts it against a rate limit, picks a handler by path and method, and wraps it in the
  configured authentication (\<open>config/auth.go\<close>).  The handlers (\<open>blob.go\<close>, \<open>manifest.go\<close>,
  \<open>referrer.go\<close>, \<open>tag.go\<close>) act on a repository of the backend store through the interfaces of
  \<open>internal/store/store.go\<close>.  A store keeps one OCI layout per repository: blobs by digest, and an
  index (\<open>types/layout.go\<close>) that maps tags and digests to descriptors, with the children of indexes
  and a history of tags.  Upload sessions live in a cache with limits by age and count
  (\<open>internal/cache/cache.go\<close>).  A garbage collector walks from the index to everything it needs and
  deletes the rest.  On load an index is converted: referrers pushed by older clients under fallback
  tags become responses of the referrers API.

  Theories and sources:

  \<^item> \<open>Prelude\<close>, \<open>Go_Strings\<close>: lists, finite maps and fixed hint collections; the functions of the Go
    packages \<open>strings\<close>, \<open>strconv\<close>, \<open>path\<close> and \<open>slices\<close> that the code calls.
  \<^item> \<open>Types\<close>, \<open>Media_Type\<close> (\<open>types/\<close>): errors, descriptors, manifests; the record \<open>lib\<close> of what is
    not under \<open>src/\<close> (digests, hashing, JSON, time formats, the order of a map range), with the
    hypotheses \<open>digest_ok\<close>, \<open>writer_ok\<close> and \<open>order_ok\<close> on it, and an instance \<open>demo_lib\<close>.
  \<^item> \<open>Layout\<close> (\<open>types/layout.go\<close>): the index with add, remove and lookup; the abstraction to a map
    of tags and a set of digests, which the updates refine; the well-formedness they keep.
  \<^item> \<open>Copies\<close> (\<open>types/\<close>): the \<open>Copy\<close> methods on a memory of cells, where slices, maps and pointers can be
    shared; a copy reads as its original and shares nothing with it, which is why the rest of the
    development may treat an index as a value.
  \<^item> \<open>Reproducible\<close>, \<open>Cache\<close>, \<open>Config\<close>: the clock, the cache with its pruning, the settings.
  \<^item> \<open>Http\<close>: requests, response writers whose headers freeze with the status, URLs, \<open>ServeContent\<close>.
  \<^item> \<open>Repo\<close> (\<open>internal/store/store.go\<close>): the interface of a store as the record \<open>store_ops\<close>, and the
    locale \<open>store_invariant\<close> for what every method keeps.
  \<^item> \<open>GC\<close>, \<open>Ingest\<close> (\<open>internal/store/store.go\<close>): collection over any repository that keeps the
    contract of the locale \<open>gc_repo\<close>, with the proof that the walk ends; the load of an index.
  \<^item> \<open>Mem_Store\<close>, \<open>Mem_GC\<close>, \<open>Mem_Invariant\<close> (\<open>internal/store/mem.go\<close>): the memory store, the
    interpretations of both locales on it, and its invariant over whole runs of a server.
  \<^item> \<open>Blob_Handlers\<close>, \<open>Manifest_Handlers\<close>, \<open>Referrers\<close>, \<open>Tag_Handler\<close>: the handlers; a handler is a
    function of the request, the store and the response writer.
  \<^item> \<open>Auth\<close> (\<open>config/auth.go\<close>): access lists, groups, basic and token authentication; the hypothesis
    \<open>bcrypt_ok\<close> says which inputs a hash accepts, with the bytes that bcrypt does not read.
  \<^item> \<open>Session_Id\<close>: session IDs, tokens and upload states in URL-safe base64, with its round trip.
  \<^item> \<open>Regex\<close>, \<open>Router\<close>, \<open>Rate_Limit\<close> (\<open>olareg.go\<close>): regular expressions by derivatives for the
    repository names; the server and \<open>ServeHTTP\<close>; the bound on the requests of a client.
  \<^item> \<open>Push_Pull\<close>, \<open>Manifest_Push\<close>, \<open>Upload_Session\<close>: round trips through the handlers on the memory
    store, for blobs, manifests and uploads in chunks.
  \<^item> \<open>Server_Access\<close>: access control over whole requests; what a read-only server cannot do.
  \<^item> \<open>Mem_Load\<close>: the load of a repository from its directory ends.  \<open>Mem_Index\<close>: what the index of the
    memory store can hold, over whole runs of a server.
  \<^item> \<open>GC_Schedule\<close> (\<open>gcTicker\<close> of \<open>internal/store/mem.go\<close>): the ticks of the collector over the life of a
    server, and that the repositories a tick skips are those in which it would change nothing.
  \<^item> \<open>Files\<close>, \<open>Dir_Store\<close>, \<open>Dir_Methods\<close>, \<open>Dir_Repos\<close> (\<open>internal/store/dir.go\<close>): a file system of paths
    whose operations can fail or stop the process; the directory store on it: index and layout files,
    blobs and uploads, and the repositories with their collection, pruning and close.
  \<^item> \<open>Dir_Invariant\<close>, \<open>Dir_Keeps\<close>, \<open>Dir_Server\<close>, \<open>Dir_Run\<close>: the invariant of the directory store, that
    each method, handler and request keeps it, and that runs with faults and restarts do.
  \<^item> \<open>GC_Invariant\<close>, \<open>Dir_GC\<close>, \<open>Dir_Durable\<close>, \<open>Dir_Push\<close>, \<open>Dir_Convert\<close>: the collection of a
    directory; that tags and blobs outlive restarts; what becomes of a load that has to merge referrers.
  \<^item> \<open>Lock_Pools\<close>, \<open>Lock_Order\<close>, \<open>Store_Locks\<close>: goroutines as programs of lock actions run side by side;
    the mutexes the methods of both stores take, and the locks of a whole store with its requests,
    collector, prunings and close.  \<open>Repo_Guard\<close>: requests, collector and sweeper of one repository,
    step by step.
  \<^item> \<open>Serve\<close> (\<open>cmd/olareg/serve.go\<close>): the options of the command, its configuration and logins, \<open>Run\<close>
    and \<open>Shutdown\<close>.  \<open>Serve_Life\<close>: the goroutines of the process and its connections, step by step.
  \<^item> \<open>Commands\<close> (\<open>cmd/olareg\<close>, \<open>internal/version\<close>, \<open>internal/httplog\<close>): the other commands, what the
    program knows of its version, and the record of a request in the log.

  State and errors.  A Go pointer to mutable state is a field of an explicit state record; an upload
  object is addressed by a number in a heap, because it outlives the session that leads to it.  Go
  errors are the datatype \<open>err\<close> in a sum type; a panic is \<open>None\<close> of an option.  Loops are structural
  recursion on the list they range over.  The two worklists, of the collector and of the ingest of
  children, are partial functions where \<open>None\<close> means that the loop does not end: the collector's is
  proved to end for every index and all contents, the ingest's whenever finitely many blobs can be
  opened in the directory of the repository.  No fuel is used.

  What the lemmas show: each index update against the map of tags; the collector against
  reachability, with what is lost when the roots are not coherent or one of them cannot be read; what a
  cache returns and how long it keeps; the access decision against the best
  matching entry; group mapping against the transitive closure; the pages of listings against the
  whole; content addressing over all requests; that an acknowledged push can be pulled, is complete,
  and in chunks stores their concatenation; that no request passes the access lists; that the repositories
  a tick of the collector skips need no collection.

  Files.  The directory store acts on a map from paths to files and directories.  Every call of the
  system can fail with an error of the environment, and the process can stop at any of them: a crash is
  the state reached so far, and the restart that follows keeps only the files.  The hypotheses say what
  this rests on: an index that is written reads back (\<open>codec_ok\<close>), a path names a digest in one way
  (\<open>blob_names\<close>), the files a run starts from hold what their names say (\<open>files_sound\<close>), and temporary
  names do not repeat.  A read that succeeds gives the file's whole content, and a write that fails leaves
  the file as it was.  The second reading of an upload in \<open>Verify\<close> can be cut short in the model
  (\<open>fs_reads\<close>), but not under \<open>files_sound\<close>: what is proved of content and restarts leaves that fault out,
  because it breaks the claim.  A mutex taken twice by one request is a hang, which is a value of the
  model.

  Concurrency.  In the sequential theories a request, a collection, a tick of a timer and a step of a
  goroutine are one step each, in any order.  What may happen inside a step is the subject of
  \<open>Lock_Order\<close> and \<open>Store_Locks\<close>, \<open>Repo_Guard\<close> and \<open>Serve_Life\<close>, where the steps of several calls
  interleave: the first two are about all the locks of a store, in the order they are taken, the third
  about what the block token and the wait group of a repository keep apart, the last about the start
  and the end of the server.  In the last two a request, a collection or the close of the store can also
  block for good, and what is proved of progress says so.  The guard lets a collection begin at any
  tick, without the test of the time of the last change.

  Not modelled.  Data races between single instructions; what a repository that is pruned from the
  directory store and opened again does to its files while the old object is in use.  A write of a file
  that is cut short, and the modification times of directories.  The messages of the program, but for
  the record of a request.  Conditional request headers and entity tags in \<open>ServeContent\<close>.  The parsing
  of command lines, and the support packages for copying, templates, documentation and debugging, which
  the registry itself does not use.
\<close>

end
